(* ===== verification/Prelude.thy ===== *)
theory Prelude
  imports Main "HOL-Library.Sublist" "HOL-Library.Finite_Map"
begin

text \<open>
  Shared vocabulary of the development: the named collections that carry the component
  proofs, the type abbreviations every component uses, Go maps with their zero value, and the
  facts about filtered, limited and strictly increasing logs that the event store, the inbox
  and their tailing readers share.
\<close>

named_theorems log_simps \<open>reading a log: filters, limits, last positions\<close>
named_theorems err_simps \<open>errors.Is and errors.As on concrete error values\<close>

text \<open>
  A Go \<open>map[string]string\<close> that is only read with a zero default and tested with
  \<open>len\<close> makes no difference between nil and empty, so both are the empty finite map.
\<close>

type_synonym metadata = "(string, string) fmap"

text \<open>An instant: nanoseconds on the UTC time line.\<close>

type_synonym instant = int

section \<open>Go maps read with a zero value\<close>

definition mget :: "'v \<Rightarrow> ('k \<rightharpoonup> 'v) \<Rightarrow> 'k \<Rightarrow> 'v" where
  "mget z m k = (case m k of None \<Rightarrow> z | Some v \<Rightarrow> v)"

lemma mget_empty [simp]: "mget z Map.empty k = z"
  by (simp add: mget_def)

lemma mget_upd [simp]: "mget z (m(k \<mapsto> v)) k' = (if k' = k then v else mget z m k')"
  by (simp add: mget_def)

lemma mget_if [simp]:
  "mget z (\<lambda>a. if a = k then Some v else m a) k' = (if k' = k then v else mget z m k')"
  by (simp add: mget_def)

text \<open>Reading metadata: \<open>m[k]\<close> is the empty string when the key is absent.\<close>

definition meta_get :: "metadata \<Rightarrow> string \<Rightarrow> string" where
  "meta_get m k = (case fmlookup m k of None \<Rightarrow> [] | Some v \<Rightarrow> v)"

lemma meta_get_empty [simp]: "meta_get fmempty k = []"
  by (simp add: meta_get_def)

lemma meta_get_upd [simp]: "meta_get (fmupd k v m) k' = (if k' = k then v else meta_get m k')"
  by (simp add: meta_get_def)

section \<open>Results\<close>

lemma map_sum_Inr_iff: "map_sum id f x = Inr y \<longleftrightarrow> (\<exists>z. x = Inr z \<and> y = f z)"
  by (cases x) auto

section \<open>Limits\<close>

text \<open>\<open>limit <= 0\<close> means no limit, in every tailing read of the framework.\<close>

definition take_limit :: "int \<Rightarrow> 'a list \<Rightarrow> 'a list" where
  "take_limit n xs = (if n \<le> 0 then xs else take (nat n) xs)"

lemma take_limit_prefix [log_simps, intro]: "prefix (take_limit n xs) xs"
  by (simp add: take_limit_def take_is_prefix)

lemma set_take_limit: "set (take_limit n xs) \<subseteq> set xs"
  by (auto simp: take_limit_def dest: in_set_takeD)

lemma take_limit_Nil_iff [simp]: "take_limit n xs = [] \<longleftrightarrow> xs = []"
  by (auto simp: take_limit_def)

lemma take_limit_Nil [simp]: "take_limit n [] = []"
  by (simp add: take_limit_def)

section \<open>Logs with strictly increasing positions\<close>

text \<open>
  \<open>pos_log f xs\<close>: the positions \<open>f\<close> of the entries are positive and strictly
  increasing. Gaps are allowed, as an identity column leaves them.
\<close>

definition pos_log :: "('a \<Rightarrow> int) \<Rightarrow> 'a list \<Rightarrow> bool" where
  "pos_log f xs \<longleftrightarrow> sorted_wrt (<) (map f xs) \<and> (\<forall>x\<in>set xs. 0 < f x)"

lemma pos_log_Nil [simp]: "pos_log f []"
  by (simp add: pos_log_def)

lemma pos_log_append:
  "pos_log f (xs @ ys) \<longleftrightarrow> pos_log f xs \<and> pos_log f ys \<and> (\<forall>x\<in>set xs. \<forall>y\<in>set ys. f x < f y)"
  by (auto simp: pos_log_def sorted_wrt_append)

lemma pos_log_prefix: "pos_log f ys \<Longrightarrow> prefix xs ys \<Longrightarrow> pos_log f xs"
  by (auto simp: prefix_def pos_log_append)

definition last_pos :: "('a \<Rightarrow> int) \<Rightarrow> 'a list \<Rightarrow> int" where
  "last_pos f xs = (if xs = [] then 0 else f (last xs))"

lemma last_pos_Nil [simp]: "last_pos f [] = 0"
  by (simp add: last_pos_def)

lemma last_pos_snoc [simp]: "last_pos f (xs @ [x]) = f x"
  by (simp add: last_pos_def)

lemma pos_log_le_last:
  assumes "pos_log f xs" "x \<in> set xs"
  shows "f x \<le> last_pos f xs"
  using assms
proof (induction xs rule: rev_induct)
  case (snoc y ys)
  then show ?case by (auto simp: pos_log_append)
qed simp

text \<open>
  A batch is what a tailing reader gets: up to \<open>limit\<close> entries past \<open>after\<close>. The entries
  up to the batch's last position are exactly those up to \<open>after\<close> and the batch.
\<close>

definition tail_batch :: "('a \<Rightarrow> int) \<Rightarrow> int \<Rightarrow> int \<Rightarrow> 'a list \<Rightarrow> 'a list" where
  "tail_batch f after limit xs = take_limit limit (filter (\<lambda>x. after < f x) xs)"

lemma pos_log_filter: "pos_log f xs \<Longrightarrow> pos_log f (filter P xs)"
  by (auto simp: pos_log_def sorted_wrt_map sorted_wrt_filter)

lemma tail_batch_pos_log: "pos_log f xs \<Longrightarrow> pos_log f (tail_batch f a n xs)"
  by (auto simp: tail_batch_def intro: pos_log_filter pos_log_prefix)

lemma set_tail_batch: "x \<in> set (tail_batch f a n xs) \<Longrightarrow> x \<in> set xs \<and> a < f x"
  unfolding tail_batch_def using set_take_limit by fastforce

lemma pos_log_prefix_upto:
  assumes "pos_log f xs" "prefix ys xs" "ys \<noteq> []"
  shows "ys = filter (\<lambda>x. f x \<le> last_pos f ys) xs"
proof -
  from assms(2) obtain zs where xs: "xs = ys @ zs" by (auto simp: prefix_def)
  have "filter (\<lambda>x. f x \<le> last_pos f ys) ys = ys"
    using assms(1) by (intro filter_True ballI pos_log_le_last) (auto simp: xs pos_log_append)
  moreover have "f (last ys) < f x" if "x \<in> set zs" for x
    using assms(1) that last_in_set[OF assms(3)] by (simp add: xs pos_log_append)
  then have "filter (\<lambda>x. f x \<le> last_pos f ys) zs = []"
    using assms(3) by (fastforce simp: last_pos_def filter_empty_conv)
  ultimately show ?thesis by (simp add: xs)
qed

lemma filter_upto_split:
  assumes "pos_log f xs" "a \<le> b"
  shows "filter (\<lambda>x. f x \<le> b) xs =
         filter (\<lambda>x. f x \<le> a) xs @ filter (\<lambda>x. a < f x \<and> f x \<le> b) xs"
  using assms
proof (induction xs rule: rev_induct)
  case (snoc y ys)
  have ys: "\<forall>x\<in>set ys. f x < f y" using snoc.prems by (auto simp: pos_log_append)
  have "filter (\<lambda>x. a < f x \<and> f x \<le> b) ys = []" if "f y \<le> a"
    using ys that by (auto simp: filter_empty_conv)
  with snoc show ?case by (auto simp: pos_log_append)
qed simp

lemma tail_batch_upto:
  assumes "pos_log f xs" "tail_batch f a n xs \<noteq> []"
  shows "filter (\<lambda>x. f x \<le> last_pos f (tail_batch f a n xs)) xs =
         filter (\<lambda>x. f x \<le> a) xs @ tail_batch f a n xs"
proof -
  let ?b = "tail_batch f a n xs"
  let ?t = "filter (\<lambda>x. a < f x) xs"
  have b: "?b = filter (\<lambda>x. f x \<le> last_pos f ?b) ?t"
    by (rule pos_log_prefix_upto) (use assms in \<open>auto simp: tail_batch_def intro: pos_log_filter\<close>)
  have "a \<le> last_pos f ?b"
    using assms(2) set_tail_batch[of "last ?b" f a n xs] by (simp add: last_pos_def)
  from filter_upto_split[OF assms(1) this] b show ?thesis
    by (simp add: conj_commute)
qed

lemma tail_batch_last_gt: "tail_batch f a n xs \<noteq> [] \<Longrightarrow> a < last_pos f (tail_batch f a n xs)"
  using set_tail_batch[of "last (tail_batch f a n xs)" f a n xs] by (simp add: last_pos_def)

lemma tail_batch_empty_iff:
  "tail_batch f a n xs = [] \<longleftrightarrow> (\<forall>x\<in>set xs. f x \<le> a)"
  by (auto simp: tail_batch_def filter_empty_conv not_less)

lemma filter_prefix: "prefix xs ys \<Longrightarrow> prefix (filter P xs) (filter P ys)"
  by (auto simp: prefix_def)

text \<open>
  Two prefixes of one log with the same number of entries of a kind hold the same entries of
  that kind: how an expected length pins down what a writer had seen.
\<close>

lemma prefix_filter_eq:
  assumes "prefix xs ys" "length (filter P xs) = length (filter P ys)"
  shows "filter P xs = filter P ys"
  using assms by (auto simp: prefix_def)

section \<open>The tailing read as a loop\<close>

text \<open>
  The body of \<open>ReadAll\<close>, the same Go text in the in-memory event store and in the in-memory
  inbox: skip what lies at or before the cursor, collect, stop when the limit is reached.
\<close>

fun read_loop :: "('a \<Rightarrow> int) \<Rightarrow> int \<Rightarrow> int \<Rightarrow> 'a list \<Rightarrow> 'a list \<Rightarrow> 'a list" where
  "read_loop f after limit out [] = out"
| "read_loop f after limit out (x # xs) =
     (if f x \<le> after then read_loop f after limit out xs
      else let out' = out @ [x] in
        if 0 < limit \<and> int (length out') = limit then out'
        else read_loop f after limit out' xs)"

lemma read_loop_unlimited:
  "limit \<le> 0 \<Longrightarrow> read_loop f after limit out xs = out @ filter (\<lambda>x. after < f x) xs"
  by (induction xs arbitrary: out) (auto simp: Let_def)

lemma read_loop_limited:
  "int (length out) < limit \<Longrightarrow>
   read_loop f after limit out xs =
     out @ take (nat limit - length out) (filter (\<lambda>x. after < f x) xs)"
proof (induction xs arbitrary: out)
  case (Cons x xs)
  show ?case
  proof (cases "f x \<le> after \<or> int (length (out @ [x])) = limit")
    case True
    then have "nat limit - length out = Suc 0" if "\<not> f x \<le> after" using that by auto
    with True Cons show ?thesis by (auto simp: Let_def)
  next
    case False
    with Cons.prems have "int (length (out @ [x])) < limit" by simp
    from Cons.IH[OF this] False Cons.prems show ?thesis
      by (auto simp: Let_def Suc_diff_Suc take_Cons' nat_less_iff)
  qed
qed simp

lemma read_loop_tail_batch [log_simps]: "read_loop f after limit [] xs = tail_batch f after limit xs"
  by (cases "limit \<le> 0") (auto simp: read_loop_unlimited read_loop_limited tail_batch_def take_limit_def)

lemma empty_upd_None: "Map.empty(k := None) = Map.empty"
  by auto

section \<open>The part of a log up to a position\<close>

definition upto_pos :: "('a \<Rightarrow> int) \<Rightarrow> int \<Rightarrow> 'a list \<Rightarrow> 'a list" where
  "upto_pos f s xs = filter (\<lambda>x. f x \<le> s) xs"

text \<open>A position a log has reached keeps the same part before it while the log grows.\<close>

lemma upto_pos_grow:
  assumes "pos_log f ys" "prefix xs ys" "s \<le> last_pos f xs"
  shows "upto_pos f s ys = upto_pos f s xs"
proof -
  from assms(2) obtain zs where ys: "ys = xs @ zs" by (auto simp: prefix_def)
  have "s < f z" if "z \<in> set zs" for z
  proof (cases "xs = []")
    case True
    with assms that ys show ?thesis by (auto simp: pos_log_def intro: order.strict_trans1)
  next
    case False
    with assms that ys last_in_set[OF False] show ?thesis
      by (auto simp: pos_log_append last_pos_def intro: order.strict_trans1)
  qed
  then show ?thesis by (auto simp: upto_pos_def ys filter_empty_conv not_le)
qed

lemma last_pos_mono:
  assumes "pos_log f ys" "prefix xs ys" shows "last_pos f xs \<le> last_pos f ys"
proof (cases "xs = []")
  case True
  then show ?thesis
    using assms(1) by (cases "ys = []") (auto simp: last_pos_def pos_log_def intro: less_imp_le)
next
  case False
  then have "last xs \<in> set ys" using assms(2) by (auto simp: prefix_def)
  from pos_log_le_last[OF assms(1) this] False show ?thesis by (simp add: last_pos_def)
qed

lemma upto_pos_last:
  assumes "pos_log f xs" "last_pos f xs \<le> s"
  shows "upto_pos f s xs = xs"
  using assms pos_log_le_last[OF assms(1)] by (fastforce simp: upto_pos_def intro: filter_True)

lemma upto_pos_zero: "pos_log f xs \<Longrightarrow> upto_pos f 0 xs = []"
  by (auto simp: upto_pos_def pos_log_def filter_empty_conv not_le)

lemma upto_pos_prefix:
  assumes "pos_log f xs" shows "prefix (upto_pos f s xs) xs"
  using assms
proof (induction xs rule: rev_induct)
  case (snoc y ys)
  show ?case
  proof (cases "f y \<le> s")
    case True
    with snoc.prems have "\<forall>x\<in>set ys. f x \<le> s" by (fastforce simp: pos_log_append)
    with True show ?thesis by (simp add: upto_pos_def filter_True)
  next
    case False
    with snoc show ?thesis by (simp add: upto_pos_def pos_log_append prefix_append)
  qed
qed (simp add: upto_pos_def)

lemma tail_batch_split:
  assumes "pos_log f xs" "tail_batch f a n xs \<noteq> []"
  shows "\<exists>rest. xs = upto_pos f a xs @ tail_batch f a n xs @ rest \<and>
    upto_pos f (last_pos f (tail_batch f a n xs)) xs = upto_pos f a xs @ tail_batch f a n xs"
  using tail_batch_upto[OF assms] upto_pos_prefix[OF assms(1), of "last_pos f (tail_batch f a n xs)"]
  by (auto simp: upto_pos_def prefix_def)

end
