(* ===== verification/GoLib.thy ===== *)
theory GoLib
  imports Prelude
begin

text \<open>
  What the sources use of Go and its standard library: error values with \<open>errors.Is\<close> and
  \<open>errors.As\<close>, decimal integers (\<open>strconv.Itoa\<close>, \<open>strconv.FormatInt\<close>,
  \<open>strconv.Atoi\<close>), and a context that can end. An error built by \<open>fmt.Errorf\<close> keeps its
  format string and arguments instead of the rendered text, because the code compares errors
  through \<open>Is\<close> and \<open>As\<close> only.
\<close>

section \<open>Errors\<close>

datatype farg = FStr string | FInt int

text \<open>
  \<open>ErrDomain\<close> is a pointer to a kernel DomainError; \<open>ErrNew\<close> is a sentinel made by
  \<open>errors.New\<close>, identified by its text (no two sentinels of the sources share one);
  \<open>ErrExt\<close> is an error that comes from outside the sources (a driver, a broker client);
  \<open>Errorf\<close> is \<open>fmt.Errorf\<close> without, \<open>Wrapf\<close> with one \<open>%w\<close> argument.
\<close>

datatype gerr =
    ErrDomain string string
  | ErrNew string
  | ErrExt string
  | Errorf string "farg list"
  | Wrapf string "farg list" gerr

text \<open>\<open>errors.As(err, &de)\<close> for a \<open>*DomainError\<close> target: walk the wrap chain.\<close>

fun errors_as_domain :: "gerr \<Rightarrow> (string \<times> string) option" where
  "errors_as_domain (ErrDomain c m) = Some (c, m)"
| "errors_as_domain (Wrapf f a e) = errors_as_domain e"
| "errors_as_domain (ErrNew t) = None"
| "errors_as_domain (ErrExt t) = None"
| "errors_as_domain (Errorf f a) = None"

text \<open>The results of fallible calls, and of calls that only succeed or fail.\<close>

type_synonym 'a res = "gerr + 'a"

section \<open>Decimal integers\<close>

definition digit_char :: "nat \<Rightarrow> char" where
  "digit_char d = char_of (48 + d)"

fun nat_dec :: "nat \<Rightarrow> string" where
  "nat_dec n = (if n < 10 then [digit_char n] else nat_dec (n div 10) @ [digit_char (n mod 10)])"

declare nat_dec.simps [simp del]

definition itoa :: "int \<Rightarrow> string" where
  "itoa i = (if i < 0 then CHR ''-'' # nat_dec (nat (- i)) else nat_dec (nat i))"

definition is_digit :: "char \<Rightarrow> bool" where
  "is_digit c \<longleftrightarrow> 48 \<le> (of_char c :: nat) \<and> (of_char c :: nat) \<le> 57"

definition digits_val :: "string \<Rightarrow> nat" where
  "digits_val s = foldl (\<lambda>a c. 10 * a + (of_char c - 48)) 0 s"

text \<open>
  \<open>strconv.Atoi\<close> on a 64-bit platform: an optional sign, then at least one digit; a value
  out of range is an error that still returns the nearest bound, any other fault returns 0.
\<close>

definition atoi_sign :: "string \<Rightarrow> bool \<times> string" where
  "atoi_sign s = (case s of
     [] \<Rightarrow> (False, [])
   | c # cs \<Rightarrow> if c = CHR ''-'' then (True, cs) else if c = CHR ''+'' then (False, cs)
              else (False, s))"

definition int64_max :: int where "int64_max = 2 ^ 63 - 1"
definition int64_min :: int where "int64_min = - (2 ^ 63)"

definition atoi :: "string \<Rightarrow> int \<times> gerr option" where
  "atoi s = (let (neg, ds) = atoi_sign s in
     if ds = [] \<or> \<not> list_all is_digit ds then (0, Some (Errorf ''strconv.Atoi: invalid syntax'' [FStr s]))
     else let v = (if neg then - int (digits_val ds) else int (digits_val ds)) in
       if v > int64_max then (int64_max, Some (Errorf ''strconv.Atoi: value out of range'' [FStr s]))
       else if v < int64_min then (int64_min, Some (Errorf ''strconv.Atoi: value out of range'' [FStr s]))
       else (v, None))"

lemma of_char_digit_char [simp]: "d < 10 \<Longrightarrow> (of_char (digit_char d) :: nat) = 48 + d"
  by (simp add: digit_char_def of_char_of take_bit_eq_mod)

lemma is_digit_digit_char [simp]: "d < 10 \<Longrightarrow> is_digit (digit_char d)"
  by (simp add: is_digit_def)

lemma digits_val_snoc: "digits_val (s @ [c]) = 10 * digits_val s + (of_char c - 48)"
  by (simp add: digits_val_def)

lemma nat_dec_digits: "list_all is_digit (nat_dec n)"
proof (induction n rule: nat_dec.induct)
  case (1 n)
  show ?case
    by (cases "n < 10") (use 1 in \<open>simp_all add: nat_dec.simps[of n]\<close>)
qed

lemma nat_dec_nonempty [simp]: "nat_dec n \<noteq> []"
  by (subst nat_dec.simps) simp

lemma digits_val_nat_dec [simp]: "digits_val (nat_dec n) = n"
proof (induction n rule: nat_dec.induct)
  case (1 n)
  show ?case
  proof (cases "n < 10")
    case True
    then show ?thesis by (simp add: nat_dec.simps[of n] digits_val_def)
  next
    case False
    with 1 show ?thesis by (simp add: nat_dec.simps[of n] digits_val_snoc)
  qed
qed

lemma nat_dec_inj: "nat_dec m = nat_dec n \<Longrightarrow> m = n"
  by (metis digits_val_nat_dec)

lemma digit_not_sign [simp]: "\<not> is_digit CHR ''-''" "\<not> is_digit CHR ''+''"
  by (simp_all add: is_digit_def)

lemma nat_dec_hd: obtains c cs where "nat_dec n = c # cs" "is_digit c"
  using nat_dec_digits[of n] by (cases "nat_dec n") auto

lemma itoa_inj: "itoa i = itoa j \<Longrightarrow> i = j"
proof -
  assume eq: "itoa i = itoa j"
  obtain c cs where i: "nat_dec (nat i) = c # cs" "is_digit c" by (rule nat_dec_hd)
  obtain d ds where j: "nat_dec (nat j) = d # ds" "is_digit d" by (rule nat_dec_hd)
  show "i = j"
    using eq i j nat_dec_inj[of "nat i" "nat j"] nat_dec_inj[of "nat (- i)" "nat (- j)"]
    by (auto simp: itoa_def split: if_splits)
qed

lemma itoa_chars: "c \<in> set (itoa i) \<Longrightarrow> is_digit c \<or> c = CHR ''-''"
  using nat_dec_digits by (auto simp: itoa_def list_all_iff split: if_splits)

lemma atoi_itoa:
  assumes "int64_min \<le> i" "i \<le> int64_max"
  shows "atoi (itoa i) = (i, None)"
proof (cases "i < 0")
  case True
  then have "atoi_sign (itoa i) = (True, nat_dec (nat (- i)))"
    by (simp add: itoa_def atoi_sign_def)
  with True assms show ?thesis by (simp add: atoi_def nat_dec_digits)
next
  case False
  obtain c cs where i: "nat_dec (nat i) = c # cs" "is_digit c" by (rule nat_dec_hd)
  from False i have "atoi_sign (itoa i) = (False, nat_dec (nat i))"
    by (auto simp: itoa_def atoi_sign_def)
  with False assms show ?thesis by (simp add: atoi_def nat_dec_digits)
qed

text \<open>
  A decimal number after a separator that it does not contain can be read back: the two
  identifiers the framework builds this way (message IDs, contract keys) are injective.
\<close>

lemma split_at_last:
  assumes "xs @ c # ys = xs' @ c # ys'" "c \<notin> set ys" "c \<notin> set ys'"
  shows "xs = xs' \<and> ys = ys'"
  using assms by (auto simp: append_eq_append_conv2 append_eq_Cons_conv Cons_eq_append_conv)

lemma suffix_itoa_inj:
  assumes "xs @ c # itoa i = xs' @ c # itoa j" "\<not> is_digit c" "c \<noteq> CHR ''-''"
  shows "xs = xs' \<and> i = j"
proof -
  have "xs = xs' \<and> itoa i = itoa j"
    by (rule split_at_last[OF assms(1)]) (use assms(2,3) itoa_chars in blast)+
  then show ?thesis by (auto dest: itoa_inj)
qed

section \<open>Contexts that end\<close>

text \<open>
  What the polling loops observe of their \<open>context.Context\<close>: \<open>ctx.Err() != nil\<close>, and the
  select of a timer against \<open>ctx.Done()\<close> (\<open>True\<close>: the timer won). Observing takes time, so
  both move the world \<open>'w\<close> the code runs in.
\<close>

record 'w ctx_ops =
  ctx_err :: "'w \<Rightarrow> 'w \<times> bool"
  ctx_sleep :: "'w \<Rightarrow> 'w \<times> bool"

end
