(* ===== verification/Kernel.thy ===== *)
theory Kernel
  imports GoLib
begin

text \<open>
  The domain kernel (\<open>kernel/errors.go\<close>, \<open>kernel/aggregate.go\<close>): domain errors and how they
  are matched through wrapping, and event-sourced aggregates. An aggregate is its committed
  version, its uncommitted events and the state its \<open>Apply\<close> method computes. \<open>Apply\<close> mutates
  the aggregate in place, so here it returns the state it leaves together with its error: a
  failing \<open>Apply\<close> may leave a changed state behind.
\<close>

section \<open>Domain errors\<close>

definition new_domain_error :: "string \<Rightarrow> string \<Rightarrow> gerr" where
  "new_domain_error code message = ErrDomain code message"

text \<open>The method \<open>Error\<close> of a domain error.\<close>

definition domain_error_text :: "string \<times> string \<Rightarrow> string" where
  "domain_error_text e = fst e @ '': '' @ snd e"

text \<open>The method \<open>Is\<close>: the target is a domain error with the same code.\<close>

definition domain_error_is :: "string \<Rightarrow> gerr \<Rightarrow> bool" where
  "domain_error_is code target =
     (case errors_as_domain target of Some (c, m) \<Rightarrow> c = code | None \<Rightarrow> False)"

definition as_domain_error :: "gerr \<Rightarrow> (string \<times> string) option" where
  "as_domain_error err = errors_as_domain err"

text \<open>
  \<open>errors.Is(err, target)\<close>: at each error of the chain, equality with the target or the
  error's own \<open>Is\<close> method. Targets are sentinels, for which equality is identity.
\<close>

fun errors_is :: "gerr \<Rightarrow> gerr \<Rightarrow> bool" where
  "errors_is (ErrDomain c m) t = domain_error_is c t"
| "errors_is (Wrapf f a e) t = (Wrapf f a e = t \<or> errors_is e t)"
| "errors_is (ErrNew x) t = (ErrNew x = t)"
| "errors_is (ErrExt x) t = (ErrExt x = t)"
| "errors_is (Errorf f a) t = (Errorf f a = t)"

definition is_domain :: "gerr \<Rightarrow> bool" where
  "is_domain err \<longleftrightarrow> as_domain_error err \<noteq> None"

lemma is_domain_simps [simp, err_simps]:
  "is_domain (ErrDomain c m)" "is_domain (Wrapf f a e) = is_domain e"
  "\<not> is_domain (ErrNew t)" "\<not> is_domain (ErrExt t)" "\<not> is_domain (Errorf f a)"
  by (simp_all add: is_domain_def as_domain_error_def)

lemma errors_is_domain_sentinel:
  "errors_is err (ErrDomain c m) \<longleftrightarrow> (\<exists>m'. as_domain_error err = Some (c, m'))"
  by (induction err) (auto simp: domain_error_is_def as_domain_error_def)

lemma errors_is_sentinel_not_domain: "errors_is err (ErrNew t) \<Longrightarrow> \<not> is_domain err"
  by (induction err) (auto simp: domain_error_is_def)

lemma domain_not_sentinel: "is_domain err \<Longrightarrow> \<not> errors_is err (ErrNew t)"
  using errors_is_sentinel_not_domain by blast

text \<open>Wrapping layers, as \<open>fmt.Errorf("...: %w", err)\<close> adds them one by one.\<close>

fun wrap_all :: "(string \<times> farg list) list \<Rightarrow> gerr \<Rightarrow> gerr" where
  "wrap_all [] e = e"
| "wrap_all ((f, a) # ls) e = Wrapf f a (wrap_all ls e)"

lemma as_domain_wrap_all [simp]: "as_domain_error (wrap_all ls e) = as_domain_error e"
  by (induction ls) (auto simp: as_domain_error_def)

section \<open>Aggregates\<close>

record ('s, 'e) aggregate =
  agg_version :: int
  agg_pending :: "'e list"
  agg_state :: 's

type_synonym ('s, 'e) applier = "'s \<Rightarrow> 'e \<Rightarrow> 's \<times> gerr option"

definition new_aggregate :: "'s \<Rightarrow> ('s, 'e) aggregate" where
  "new_aggregate s = \<lparr>agg_version = 0, agg_pending = [], agg_state = s\<rparr>"

definition uncommitted_events :: "('s, 'e) aggregate \<Rightarrow> 'e list" where
  "uncommitted_events a = agg_pending a"

definition raise_event ::
  "('e \<Rightarrow> string) \<Rightarrow> ('s, 'e) applier \<Rightarrow> ('s, 'e) aggregate \<Rightarrow> 'e
   \<Rightarrow> ('s, 'e) aggregate \<times> gerr option" where
  "raise_event nm ap a e =
     (case ap (agg_state a) e of
        (s, Some err) \<Rightarrow> (a\<lparr>agg_state := s\<rparr>, Some (Wrapf ''raise %s: %w'' [FStr (nm e)] err))
      | (s, None) \<Rightarrow> (a\<lparr>agg_state := s, agg_pending := agg_pending a @ [e]\<rparr>, None))"

fun rehydrate_loop ::
  "('e \<Rightarrow> string) \<Rightarrow> ('s, 'e) applier \<Rightarrow> int \<Rightarrow> 's \<Rightarrow> 'e list \<Rightarrow> 's \<times> gerr option" where
  "rehydrate_loop nm ap i s [] = (s, None)"
| "rehydrate_loop nm ap i s (e # es) =
     (case ap s e of
        (s', Some err) \<Rightarrow> (s', Some (Wrapf ''rehydrate: event %d (%s): %w'' [FInt i, FStr (nm e)] err))
      | (s', None) \<Rightarrow> rehydrate_loop nm ap (i + 1) s' es)"

definition rehydrate ::
  "('e \<Rightarrow> string) \<Rightarrow> ('s, 'e) applier \<Rightarrow> ('s, 'e) aggregate \<Rightarrow> 'e list
   \<Rightarrow> ('s, 'e) aggregate \<times> gerr option" where
  "rehydrate nm ap a history =
     (case rehydrate_loop nm ap 0 (agg_state a) history of
        (s, Some err) \<Rightarrow> (a\<lparr>agg_state := s\<rparr>, Some err)
      | (s, None) \<Rightarrow>
          (a\<lparr>agg_state := s, agg_version := agg_version a + int (length history)\<rparr>, None))"

definition take_uncommitted :: "('s, 'e) aggregate \<Rightarrow> ('s, 'e) aggregate \<times> 'e list" where
  "take_uncommitted a =
     (a\<lparr>agg_pending := [], agg_version := agg_version a + int (length (agg_pending a))\<rparr>,
      agg_pending a)"

section \<open>The replay specification\<close>

text \<open>What an aggregate's state is meant to be: the fold of its stream, if every event applies.\<close>

fun replay :: "('s, 'e) applier \<Rightarrow> 's \<Rightarrow> 'e list \<Rightarrow> 's option" where
  "replay ap s [] = Some s"
| "replay ap s (e # es) = (case ap s e of (s', None) \<Rightarrow> replay ap s' es | (s', Some err) \<Rightarrow> None)"

lemma replay_append:
  "replay ap s (xs @ ys) = Option.bind (replay ap s xs) (\<lambda>s'. replay ap s' ys)"
  by (induction xs arbitrary: s) (auto split: prod.splits option.splits)

lemma rehydrate_loop_replay:
  "rehydrate_loop nm ap i s es = (s', None) \<longleftrightarrow> replay ap s es = Some s'"
  by (induction es arbitrary: i s) (auto split: prod.splits option.splits)

lemma rehydrate_replay:
  "replay ap (agg_state a) es = Some s \<Longrightarrow>
   rehydrate nm ap a es =
     (a\<lparr>agg_state := s, agg_version := agg_version a + int (length es)\<rparr>, None)"
  using rehydrate_loop_replay[of nm ap 0 "agg_state a" es s] by (auto simp: rehydrate_def)

lemma rehydrate_ok_iff:
  "rehydrate nm ap a es = (a', None) \<longleftrightarrow>
   (\<exists>s. replay ap (agg_state a) es = Some s \<and>
        a' = a\<lparr>agg_state := s, agg_version := agg_version a + int (length es)\<rparr>)"
proof (cases "replay ap (agg_state a) es")
  case None
  then have "snd (rehydrate_loop nm ap 0 (agg_state a) es) \<noteq> None"
    using rehydrate_loop_replay[of nm ap 0 "agg_state a" es]
    by (cases "rehydrate_loop nm ap 0 (agg_state a) es") auto
  with None show ?thesis by (auto simp: rehydrate_def split: prod.splits option.splits)
next
  case (Some s)
  then show ?thesis by (auto simp: rehydrate_replay)
qed

lemma raise_ok_iff:
  "raise_event nm ap a e = (a', None) \<longleftrightarrow>
   (\<exists>s. ap (agg_state a) e = (s, None) \<and>
        a' = a\<lparr>agg_state := s, agg_pending := agg_pending a @ [e]\<rparr>)"
  by (auto simp: raise_event_def split: prod.splits option.splits)

lemma raise_err_not_recorded:
  "raise_event nm ap a e = (a', Some err) \<Longrightarrow>
   agg_pending a' = agg_pending a \<and> agg_version a' = agg_version a"
  by (auto simp: raise_event_def split: prod.splits option.splits)

text \<open>
  The representation invariant: \<open>committed\<close> is what the store holds, and state and version
  are those of the stream.
\<close>

definition agg_inv ::
  "('s, 'e) applier \<Rightarrow> 's \<Rightarrow> 'e list \<Rightarrow> ('s, 'e) aggregate \<Rightarrow> bool" where
  "agg_inv ap s0 committed a \<longleftrightarrow>
     replay ap s0 (committed @ agg_pending a) = Some (agg_state a) \<and>
     agg_version a = int (length committed)"

lemma agg_inv_new: "agg_inv ap s0 [] (new_aggregate s0)"
  by (simp add: agg_inv_def new_aggregate_def)

lemma agg_inv_rehydrate:
  "rehydrate nm ap (new_aggregate s0) es = (a, None) \<Longrightarrow> agg_inv ap s0 es a \<and> agg_pending a = []"
  by (auto simp: rehydrate_ok_iff agg_inv_def new_aggregate_def)

lemma agg_inv_raise:
  "agg_inv ap s0 c a \<Longrightarrow> raise_event nm ap a e = (a', None) \<Longrightarrow> agg_inv ap s0 c a'"
  by (auto simp: raise_ok_iff agg_inv_def replay_append bind_eq_Some_conv)

lemma agg_inv_take:
  "agg_inv ap s0 c a \<Longrightarrow> agg_inv ap s0 (c @ agg_pending a) (fst (take_uncommitted a))"
  by (auto simp: agg_inv_def take_uncommitted_def)

text \<open>
  The life of an aggregate between a load and its saves. A refused event is one whose
  \<open>Apply\<close> fails without touching the state; the events of the example services are all so.
\<close>

inductive agg_life ::
  "('e \<Rightarrow> string) \<Rightarrow> ('s, 'e) applier \<Rightarrow> 's \<Rightarrow> 'e list \<Rightarrow> ('s, 'e) aggregate \<Rightarrow> bool"
  for nm ap s0 where
  loaded: "rehydrate nm ap (new_aggregate s0) es = (a, None) \<Longrightarrow> agg_life nm ap s0 es a"
| raised: "agg_life nm ap s0 c a \<Longrightarrow> raise_event nm ap a e = (a', None) \<Longrightarrow> agg_life nm ap s0 c a'"
| refused: "agg_life nm ap s0 c a \<Longrightarrow> ap (agg_state a) e = (agg_state a, Some err) \<Longrightarrow>
    raise_event nm ap a e = (a', Some err') \<Longrightarrow> agg_life nm ap s0 c a'"
| taken: "agg_life nm ap s0 c a \<Longrightarrow> take_uncommitted a = (a', es) \<Longrightarrow> agg_life nm ap s0 (c @ es) a'"

lemma agg_life_inv: "agg_life nm ap s0 c a \<Longrightarrow> agg_inv ap s0 c a"
proof (induction rule: agg_life.induct)
  case (loaded es a)
  then show ?case by (simp add: agg_inv_rehydrate)
next
  case (raised c a e a')
  then show ?case by (blast intro: agg_inv_raise)
next
  case (refused c a e err a' err')
  then show ?case by (simp add: raise_event_def)
next
  case (taken c a a' es)
  then show ?case using agg_inv_take[of ap s0 c a] by (auto simp: take_uncommitted_def)
qed

section \<open>Properties\<close>

text \<open>
  Matching a domain error survives wrapping: however many \<open>%w\<close> layers surround an
  error, \<open>errors.Is\<close> against a domain sentinel answers by the code of the innermost domain
  error alone, and a version-conflict-like sentinel is never taken for a domain error.
\<close>

theorem errors_is_through_wrapping:
  "(errors_is (wrap_all ls err) (new_domain_error c m) \<longleftrightarrow>
      (\<exists>m'. as_domain_error err = Some (c, m'))) \<and>
   (is_domain (wrap_all ls err) \<longleftrightarrow> is_domain err) \<and>
   \<not> is_domain (wrap_all ls (ErrNew t))"
  by (simp add: errors_is_domain_sentinel new_domain_error_def is_domain_def)
     (simp add: as_domain_error_def)

text \<open>
  C37. State exists only as the replay of the stream: whatever an aggregate went through since
  it was loaded (events raised, refused and taken), rehydrating a zero aggregate with its
  committed and pending events succeeds and gives exactly its state, at the version one
  save later.
\<close>

theorem aggregate_state_is_replay:
  assumes "agg_life nm ap s0 c a"
  shows "rehydrate nm ap (new_aggregate s0) (c @ uncommitted_events a) =
           ((fst (take_uncommitted a))\<lparr>agg_pending := []\<rparr>, None)"
proof -
  from agg_life_inv[OF assms]
  have "replay ap s0 (c @ agg_pending a) = Some (agg_state a)" "agg_version a = int (length c)"
    by (auto simp: agg_inv_def)
  then show ?thesis
    by (subst rehydrate_replay[where s = "agg_state a"])
       (simp_all add: new_aggregate_def uncommitted_events_def take_uncommitted_def)
qed

text \<open>
  Witness: an aggregate that counts, loaded from one event, with one event raised and
  one refused.
\<close>

definition demo_apply :: "int \<Rightarrow> int \<Rightarrow> int \<times> gerr option" where
  "demo_apply s e = (if e < 0 then (s, Some (ErrDomain ''negative'' [])) else (s + e, None))"

theorem aggregate_state_is_replay_witness:
  "rehydrate itoa demo_apply (new_aggregate 0) ([5] @ uncommitted_events
      \<lparr>agg_version = 1, agg_pending = [7], agg_state = 12::int\<rparr>) =
    (\<lparr>agg_version = 2, agg_pending = [], agg_state = 12\<rparr>, None)"
proof -
  let ?a0 = "\<lparr>agg_version = 1, agg_pending = [], agg_state = 5::int\<rparr>"
  let ?a1 = "\<lparr>agg_version = 1, agg_pending = [7], agg_state = 12::int\<rparr>"
  have "agg_life itoa demo_apply 0 [5] ?a0"
    by (rule agg_life.loaded) (simp add: rehydrate_def new_aggregate_def demo_apply_def)
  then have 1: "agg_life itoa demo_apply 0 [5] ?a1"
    by (rule agg_life.raised[where e = 7]) (simp add: raise_event_def demo_apply_def)
  have "agg_life itoa demo_apply 0 [5] ?a1"
    by (rule agg_life.refused[OF 1, where e = "- 1"]) (simp_all add: raise_event_def demo_apply_def)
  from aggregate_state_is_replay[OF this] show ?thesis by (simp add: take_uncommitted_def)
qed

end
