(* ===== verification/KernelId.thy ===== *)
theory KernelId
  imports Kernel "HOL-Library.Word"
begin

unbundle bit_operations_syntax

text \<open>
  Typed identifiers (\<open>kernel/id.go\<close>): parsing with the explicit index reads of the loop
  (a read past the end is the panic \<open>None\<close>), generation from 16 random bytes, and the text
  marshalling hooks. Strings are byte strings, as \<open>len\<close> and indexing see them. The table
  that lowers non-ASCII runes belongs to the Unicode data of the standard library, so the
  lowering of a text that starts with a non-ASCII byte is the parameter \<open>uni\<close>.
\<close>

definition ErrInvalidID :: gerr where
  "ErrInvalidID = new_domain_error ''invalid_id'' ''malformed identifier''"

text \<open>The type parameter keeps the identifiers of different aggregates apart.\<close>

datatype 't ident = ID (id_value: string)

definition zero_id :: "'t ident" where
  "zero_id = ID []"

definition id_is_zero :: "'t ident \<Rightarrow> bool" where
  "id_is_zero i \<longleftrightarrow> id_value i = []"

definition id_string :: "'t ident \<Rightarrow> string" where
  "id_string i = id_value i"

section \<open>Parsing\<close>

definition is_ascii :: "char \<Rightarrow> bool" where
  "is_ascii c \<longleftrightarrow> (of_char c :: nat) < 128"

definition ascii_lower :: "char \<Rightarrow> char" where
  "ascii_lower c = (let n = (of_char c :: nat) in if 65 \<le> n \<and> n \<le> 90 then char_of (n + 32) else c)"

text \<open>\<open>strings.ToLower\<close> works rune by rune, so an ASCII prefix is lowered byte by byte.\<close>

definition to_lower :: "(string \<Rightarrow> string) \<Rightarrow> string \<Rightarrow> string" where
  "to_lower uni s = map ascii_lower (takeWhile is_ascii s) @
     (let rest = dropWhile is_ascii s in if rest = [] then [] else uni rest)"

definition is_lower_hex :: "char \<Rightarrow> bool" where
  "is_lower_hex c \<longleftrightarrow> (let n = (of_char c :: nat) in (48 \<le> n \<and> n \<le> 57) \<or> (97 \<le> n \<and> n \<le> 102))"

definition id_char_ok :: "nat \<Rightarrow> char \<Rightarrow> bool" where
  "id_char_ok i c \<longleftrightarrow> (if i \<in> {8, 13, 18, 23} then c = CHR ''-'' else is_lower_hex c)"

fun parse_loop :: "string \<Rightarrow> nat \<Rightarrow> nat \<Rightarrow> bool option" where
  "parse_loop s i 0 = Some True"
| "parse_loop s i (Suc n) =
     (if length s \<le> i then None
      else if id_char_ok i (s ! i) then parse_loop s (Suc i) n else Some False)"

definition parse_id :: "(string \<Rightarrow> string) \<Rightarrow> string \<Rightarrow> 't ident res option" where
  "parse_id uni s =
     (if length s \<noteq> 36 then Some (Inl (Wrapf ''%w: %q'' [FStr s] ErrInvalidID))
      else let s' = to_lower uni s in
        map_option (\<lambda>ok. if ok then Inr (ID s') else Inl (Wrapf ''%w: %q'' [FStr s'] ErrInvalidID))
          (parse_loop s' 0 36))"

section \<open>Generation\<close>

definition hex_digit :: "nat \<Rightarrow> char" where
  "hex_digit n = ''0123456789abcdef'' ! n"

definition hex_encode :: "8 word list \<Rightarrow> string" where
  "hex_encode bs = concat (map (\<lambda>b. [hex_digit (unat b div 16), hex_digit (unat b mod 16)]) bs)"

definition format_uuid :: "8 word list \<Rightarrow> string" where
  "format_uuid b = hex_encode (take 4 b) @ ''-'' @ hex_encode (take 2 (drop 4 b)) @ ''-'' @
     hex_encode (take 2 (drop 6 b)) @ ''-'' @ hex_encode (take 2 (drop 8 b)) @ ''-'' @
     hex_encode (drop 10 b)"

definition stamp_version :: "8 word list \<Rightarrow> 8 word list" where
  "stamp_version b = (let b1 = b[6 := ((b ! 6) AND 0x0f) OR 0x40]
     in b1[8 := ((b1 ! 8) AND 0x3f) OR 0x80])"

text \<open>The argument is what \<open>rand.Read\<close> fills the 16-byte array with.\<close>

definition new_id :: "8 word list \<Rightarrow> 't ident" where
  "new_id b = ID (format_uuid (stamp_version b))"

section \<open>Text marshalling\<close>

definition marshal_text :: "'t ident \<Rightarrow> string res" where
  "marshal_text i = (if id_is_zero i then Inl (Wrapf ''%w: zero ID'' [] ErrInvalidID)
     else Inr (id_value i))"

text \<open>The pointer receiver keeps its old value on an error.\<close>

definition unmarshal_text ::
  "(string \<Rightarrow> string) \<Rightarrow> 't ident \<Rightarrow> string \<Rightarrow> ('t ident \<times> gerr option) option" where
  "unmarshal_text uni old text = (case parse_id uni text of
     None \<Rightarrow> None
   | Some (Inl err) \<Rightarrow> Some (old, Some err)
   | Some (Inr i) \<Rightarrow> Some (i, None))"

section \<open>Canonical identifiers\<close>

definition canonical :: "string \<Rightarrow> bool" where
  "canonical s \<longleftrightarrow> length s = 36 \<and> list_all (\<lambda>i. id_char_ok i (s ! i)) [0..<36]"

text \<open>
  What ParseID relies on in the Unicode data: no non-ASCII rune is lowered to text that
  starts with a hexadecimal digit or a hyphen.
\<close>

definition uni_ok :: "(string \<Rightarrow> string) \<Rightarrow> bool" where
  "uni_ok uni \<longleftrightarrow> (\<forall>c cs. \<not> is_ascii c \<longrightarrow>
     (\<exists>d ds. uni (c # cs) = d # ds \<and> \<not> is_lower_hex d \<and> d \<noteq> CHR ''-''))"

lemma parse_loop_True_iff:
  "parse_loop s i n = Some True \<longleftrightarrow> (\<forall>j\<in>{i..<i + n}. j < length s \<and> id_char_ok j (s ! j))"
proof (induction n arbitrary: i)
  case (Suc n)
  have "{i..<i + Suc n} = insert i {Suc i..<Suc i + n}" by auto
  with Suc show ?case by auto
qed simp

lemma parse_loop_short:
  assumes "j < length s" "i \<le> j" "j < i + n" "\<not> id_char_ok j (s ! j)"
  shows "parse_loop s i n = Some False"
  using assms
proof (induction n arbitrary: i)
  case (Suc n)
  then show ?case by (cases "i = j") auto
qed simp

lemma parse_loop_long:
  assumes "i + n \<le> length s" shows "parse_loop s i n \<noteq> None"
  using assms by (induction n arbitrary: i) auto

lemma canonical_alt: "canonical s \<longleftrightarrow> length s = 36 \<and> parse_loop s 0 36 = Some True"
  by (auto simp: canonical_def list_all_iff parse_loop_True_iff)

lemma id_char_ok_class: "id_char_ok i c \<Longrightarrow> is_lower_hex c \<or> c = CHR ''-''"
  by (auto simp: id_char_ok_def split: if_splits)

lemma class_ascii: "is_lower_hex c \<or> c = CHR ''-'' \<Longrightarrow> is_ascii c \<and> ascii_lower c = c"
  by (auto simp: is_lower_hex_def is_ascii_def ascii_lower_def Let_def)

lemma canonical_chars:
  assumes "canonical s" "c \<in> set s" shows "is_lower_hex c \<or> c = CHR ''-''"
proof -
  from assms(2) obtain i where "i < length s" "c = s ! i" by (auto simp: in_set_conv_nth)
  with assms(1) show ?thesis by (auto simp: canonical_def list_all_iff dest!: id_char_ok_class bspec)
qed

lemma canonical_lower_id:
  assumes "canonical s" shows "list_all is_ascii s" "map ascii_lower s = s" "s \<noteq> []"
proof -
  have c: "is_ascii c \<and> ascii_lower c = c" if "c \<in> set s" for c
    using canonical_chars[OF assms that] by (rule class_ascii)
  show "list_all is_ascii s" by (simp add: list_all_iff c)
  show "map ascii_lower s = s" by (rule map_idI) (simp add: c)
  show "s \<noteq> []" using assms by (auto simp: canonical_def)
qed

lemma to_lower_ascii:
  assumes "list_all is_ascii s" shows "to_lower uni s = map ascii_lower s"
proof -
  have "\<forall>c\<in>set s. is_ascii c" using assms by (simp add: list_all_iff)
  then have "takeWhile is_ascii s = s" "dropWhile is_ascii s = []"
    by (simp_all only: takeWhile_eq_all_conv dropWhile_eq_Nil_conv)
  then show ?thesis by (simp only: to_lower_def Let_def) simp
qed

text \<open>The loop meets the first non-ASCII rune before it can run past the lowered text.\<close>

lemma parse_loop_non_ascii:
  assumes "uni_ok uni" "length s = 36" "\<not> list_all is_ascii s"
  shows "parse_loop (to_lower uni s) 0 36 = Some False"
proof -
  let ?p = "length (takeWhile is_ascii s)"
  have "dropWhile is_ascii s \<noteq> []"
    using assms(3) by (auto simp: dropWhile_eq_Nil_conv list_all_iff)
  then obtain c cs where d: "dropWhile is_ascii s = c # cs" "\<not> is_ascii c"
    by (metis hd_dropWhile list.collapse)
  have "length s = ?p + length (c # cs)"
    by (metis d(1) length_append takeWhile_dropWhile_id)
  with assms(2) have p: "?p < 36" by simp
  from assms(1) d(2) obtain e es where e: "uni (c # cs) = e # es" "\<not> is_lower_hex e" "e \<noteq> CHR ''-''"
    unfolding uni_ok_def by metis
  have l: "to_lower uni s = map ascii_lower (takeWhile is_ascii s) @ e # es"
    by (simp add: to_lower_def d e)
  have "\<not> id_char_ok ?p e" using e id_char_ok_class by blast
  then show ?thesis
    by (intro parse_loop_short[where j = ?p]) (use p l in \<open>auto simp: nth_append\<close>)
qed

lemma parse_id_ascii:
  assumes "length s = 36" "list_all is_ascii s"
  shows "parse_id uni s = Some (if canonical (map ascii_lower s) then Inr (ID (map ascii_lower s))
           else Inl (Wrapf ''%w: %q'' [FStr (map ascii_lower s)] ErrInvalidID))"
proof -
  have "parse_loop (map ascii_lower s) 0 36 \<noteq> None" by (rule parse_loop_long) (simp add: assms)
  then show ?thesis
    using assms by (auto simp: parse_id_def to_lower_ascii canonical_alt)
qed

lemma parse_id_canonical: "canonical s \<Longrightarrow> parse_id uni s = Some (Inr (ID s))"
  using parse_id_ascii[of s uni] canonical_lower_id[of s] by (simp add: canonical_def)

section \<open>Properties\<close>

text \<open>
  ParseID accepts exactly the 36-byte ASCII texts whose lower-case form is a canonical
  UUID and returns that form; every other input, non-ASCII text included, is the domain
  error ErrInvalidID. No input makes an index read run past the end.
\<close>

theorem parse_id_spec:
  assumes "uni_ok uni"
  shows "\<exists>r. parse_id uni s = Some r \<and>
     (if length s = 36 \<and> list_all is_ascii s \<and> canonical (map ascii_lower s)
      then r = Inr (ID (map ascii_lower s))
      else \<exists>e. r = Inl e \<and> errors_is e ErrInvalidID \<and> is_domain e)"
proof -
  have E: "errors_is ErrInvalidID ErrInvalidID" "is_domain ErrInvalidID"
    by (simp_all add: ErrInvalidID_def new_domain_error_def domain_error_is_def)
  consider "length s \<noteq> 36" | "length s = 36" "list_all is_ascii s"
    | "length s = 36" "\<not> list_all is_ascii s" by blast
  then show ?thesis
  proof cases
    case 1
    then show ?thesis by (auto simp: parse_id_def E)
  next
    case 2
    then show ?thesis by (auto simp: parse_id_ascii E)
  next
    case 3
    then show ?thesis
      using parse_loop_non_ascii[OF assms] by (auto simp: parse_id_def E Let_def)
  qed
qed

definition demo_uni :: "string \<Rightarrow> string" where
  "demo_uni s = CHR ''?'' # s"

lemma demo_uni_ok: "uni_ok demo_uni"
  by (simp add: uni_ok_def demo_uni_def is_lower_hex_def)

theorem parse_id_spec_witness:
  "parse_id demo_uni ''A0B1C2D3-E4F5-6789-ABCD-EF0123456789'' =
     Some (Inr (ID ''a0b1c2d3-e4f5-6789-abcd-ef0123456789''))"
proof -
  have h: "length ''A0B1C2D3-E4F5-6789-ABCD-EF0123456789'' = 36" by simp
  have l: "list_all is_ascii ''A0B1C2D3-E4F5-6789-ABCD-EF0123456789''" by code_simp
  have m: "map ascii_lower ''A0B1C2D3-E4F5-6789-ABCD-EF0123456789'' =
      ''a0b1c2d3-e4f5-6789-abcd-ef0123456789''" by code_simp
  have c: "canonical ''a0b1c2d3-e4f5-6789-abcd-ef0123456789''"
    by code_simp
  from parse_id_spec[OF demo_uni_ok, of "''A0B1C2D3-E4F5-6789-ABCD-EF0123456789''"] h l m c
  show ?thesis by auto
qed

lemma hex_digit_ok: "n < 16 \<Longrightarrow> is_lower_hex (hex_digit n)"
proof -
  have "\<forall>n\<in>{0..<16}. is_lower_hex (hex_digit n)" by code_simp
  then show "n < 16 \<Longrightarrow> is_lower_hex (hex_digit n)" by simp
qed

lemma hex_digit_inj: "m < 16 \<Longrightarrow> n < 16 \<Longrightarrow> hex_digit m = hex_digit n \<Longrightarrow> m = n"
proof -
  have "\<forall>m\<in>{0..<16}. \<forall>n\<in>{0..<16}. hex_digit m = hex_digit n \<longrightarrow> m = n" by code_simp
  then show "m < 16 \<Longrightarrow> n < 16 \<Longrightarrow> hex_digit m = hex_digit n \<Longrightarrow> m = n" by simp
qed

lemma unat_byte: "unat (b :: 8 word) div 16 < 16" "unat (b :: 8 word) mod 16 < 16"
  using unsigned_less[of b, where 'a = nat] by auto

lemma version_nibble: "unat (((b :: 8 word) AND 0x0f) OR 0x40) div 16 = 4"
proof -
  have "drop_bit 4 ((b AND 0x0f) OR 0x40) = (4 :: 8 word)"
    by (rule bit_word_eqI) (auto simp: bit_simps)
  then have "unat (drop_bit 4 ((b AND 0x0f) OR 0x40)) = unat (4 :: 8 word)" by simp
  then show ?thesis unfolding unat_drop_bit_eq unfolding drop_bit_eq_div by simp
qed

lemma variant_nibble:
  "unat (((b :: 8 word) AND 0x3f) OR 0x80) div 16 \<in> {8, 9, 10, 11}" (is "unat ?w div 16 \<in> _")
proof -
  have "drop_bit 6 ?w = (2 :: 8 word)"
    by (rule bit_word_eqI) (auto simp: bit_simps)
  then have "unat (drop_bit 6 ?w) = unat (2 :: 8 word)" by simp
  then have "unat ?w div 64 = 2" unfolding unat_drop_bit_eq unfolding drop_bit_eq_div by simp
  then show ?thesis by auto
qed

lemma list16:
  assumes "length b = 16"
  obtains b0 b1 b2 b3 b4 b5 b6 b7 b8 b9 b10 b11 b12 b13 b14 b15 where
    "b = [b0, b1, b2, b3, b4, b5, b6, b7, b8, b9, b10, b11, b12, b13, b14, b15]"
  using assms by (auto simp: numeral_eq_Suc length_Suc_conv)

lemma format_uuid_canonical:
  assumes "length b = 16" shows "canonical (format_uuid b)"
  using assms
  by (elim list16)
     (simp add: canonical_def format_uuid_def hex_encode_def upt_rec id_char_ok_def hex_digit_ok
       unat_byte)

lemma stamp_version_length [simp]: "length (stamp_version b) = length b"
  by (simp add: stamp_version_def)

text \<open>
  A generated identifier is a valid one: for any 16 random bytes, NewID's text parses back
  to the same identifier, survives the marshalling round trip, is not the zero value, and
  carries the version digit 4 and an RFC 4122 variant digit at their positions.
\<close>

theorem new_id_valid:
  assumes "length b = 16"
  shows "let i = (new_id b :: 't ident) in
    parse_id uni (id_string i) = Some (Inr i) \<and>
    marshal_text i = Inr (id_string i) \<and>
    unmarshal_text uni old (id_string i) = Some (i, None) \<and>
    \<not> id_is_zero i \<and> id_string i ! 14 = CHR ''4'' \<and> id_string i ! 19 \<in> set ''89ab''"
proof -
  let ?i = "new_id b :: 't ident"
  have c: "canonical (format_uuid (stamp_version b))" by (simp add: format_uuid_canonical assms)
  have p: "parse_id uni (id_string ?i) = Some (Inr ?i)"
    by (simp add: id_string_def new_id_def parse_id_canonical[OF c])
  have nz: "\<not> id_is_zero ?i"
    using canonical_lower_id(3)[OF c] by (simp add: id_is_zero_def new_id_def)
  have d: "id_string ?i ! 14 = hex_digit (unat ((b ! 6 AND 0x0f) OR 0x40) div 16)"
    "id_string ?i ! 19 = hex_digit (unat ((b ! 8 AND 0x3f) OR 0x80) div 16)"
    using assms
    by (elim list16; simp add: id_string_def new_id_def format_uuid_def hex_encode_def stamp_version_def)+
  have "id_string ?i ! 14 = CHR ''4''"
    unfolding d(1) version_nibble by (simp add: hex_digit_def)
  moreover have "id_string ?i ! 19 \<in> set ''89ab''"
    unfolding d(2) using variant_nibble[of "b ! 8"] by (auto simp: hex_digit_def)
  moreover have "unmarshal_text uni old (id_string ?i) = Some (?i, None)"
    by (simp add: unmarshal_text_def p)
  moreover have "marshal_text ?i = Inr (id_string ?i)"
    using nz by (simp add: marshal_text_def id_string_def)
  ultimately show ?thesis using p nz by simp
qed

theorem new_id_valid_witness:
  "marshal_text (new_id (replicate 16 255) :: unit ident) =
     Inr (id_string (new_id (replicate 16 255) :: unit ident))"
  using new_id_valid[of "replicate 16 255" id "zero_id :: unit ident"] by (simp add: Let_def)

end
