(* ===== verification/EventStore.thy ===== *)
theory EventStore
  imports Kernel
begin

text \<open>
  The event store port (\<open>eventstore/store.go\<close>) and its in-memory implementation
  (\<open>eventstore/memory.go\<close>): append-only streams with optimistic concurrency and one global
  sequence. The Go interface \<open>Store\<close> is a record of operations over the world \<open>'w\<close> its
  implementation lives in; the contract written in the interface's comments is the locale
  \<open>event_store\<close>, stated against the log of recorded events, with room for other writers:
  every call may find that the log has grown since the last one.
\<close>

definition ErrVersionConflict :: gerr where
  "ErrVersionConflict = ErrNew ''eventstore: version conflict''"

definition ErrNotFound :: gerr where
  "ErrNotFound = new_domain_error ''not_found'' ''aggregate does not exist''"

lemma not_found_vs_conflict [simp, err_simps]:
  "errors_is ErrNotFound ErrNotFound" "is_domain ErrNotFound"
  "errors_is ErrVersionConflict ErrVersionConflict" "\<not> is_domain ErrVersionConflict"
  "\<not> errors_is ErrVersionConflict ErrNotFound" "\<not> errors_is ErrNotFound ErrVersionConflict"
  by (simp_all add: ErrNotFound_def ErrVersionConflict_def new_domain_error_def domain_error_is_def)

record stream_id =
  si_category :: string
  si_id :: string

record 'p event_data =
  ed_name :: string
  ed_schema :: int
  ed_payload :: 'p
  ed_meta :: metadata

record 'p recorded =
  rec_seq :: int
  rec_stream :: stream_id
  rec_version :: int
  rec_name :: string
  rec_schema :: int
  rec_payload :: 'p
  rec_meta :: metadata
  rec_at :: instant

text \<open>The interface \<open>Store\<close>.\<close>

record ('w, 'p) store_ops =
  st_append :: "'w \<Rightarrow> stream_id \<Rightarrow> int \<Rightarrow> 'p event_data list \<Rightarrow> 'w \<times> int res"
  st_load :: "'w \<Rightarrow> stream_id \<Rightarrow> int \<Rightarrow> 'w \<times> 'p recorded list res"
  st_read_all :: "'w \<Rightarrow> int \<Rightarrow> int \<Rightarrow> 'w \<times> 'p recorded list res"
  st_head :: "'w \<Rightarrow> 'w \<times> int res"

section \<open>The in-memory store\<close>

text \<open>
  \<open>ms_streams\<close> maps a stream to the indexes of its events in \<open>ms_all\<close>. Payloads and metadata
  are cloned on the way in and out, so values describe them. \<open>now\<close> is what \<open>time.Now\<close> reads.
\<close>

record 'p mem_store =
  ms_all :: "'p recorded list"
  ms_streams :: "stream_id \<rightharpoonup> nat list"

definition new_mem_store :: "'p mem_store" where
  "new_mem_store = \<lparr>ms_all = [], ms_streams = Map.empty\<rparr>"

definition mem_record ::
  "instant \<Rightarrow> stream_id \<Rightarrow> int \<Rightarrow> int \<Rightarrow> 'p event_data \<Rightarrow> 'p mem_store \<Rightarrow> 'p recorded" where
  "mem_record now st expected i e s =
     \<lparr>rec_seq = int (length (ms_all s)) + 1, rec_stream = st, rec_version = expected + i + 1,
      rec_name = ed_name e, rec_schema = ed_schema e, rec_payload = ed_payload e,
      rec_meta = ed_meta e, rec_at = now\<rparr>"

fun mem_append_loop ::
  "instant \<Rightarrow> stream_id \<Rightarrow> int \<Rightarrow> int \<Rightarrow> 'p event_data list \<Rightarrow> 'p mem_store \<Rightarrow> 'p mem_store" where
  "mem_append_loop now st expected i [] s = s"
| "mem_append_loop now st expected i (e # es) s =
     mem_append_loop now st expected (i + 1) es
       (s\<lparr>ms_streams := (ms_streams s)(st \<mapsto> mget [] (ms_streams s) st @ [length (ms_all s)]),
          ms_all := ms_all s @ [mem_record now st expected i e s]\<rparr>)"

definition conflict_error :: "stream_id \<Rightarrow> int \<Rightarrow> int \<Rightarrow> gerr" where
  "conflict_error st current expected =
     Wrapf ''%w: stream %s/%s at version %d, expected %d''
       [FStr (si_category st), FStr (si_id st), FInt current, FInt expected] ErrVersionConflict"

definition mem_append ::
  "instant \<Rightarrow> 'p mem_store \<Rightarrow> stream_id \<Rightarrow> int \<Rightarrow> 'p event_data list \<Rightarrow> 'p mem_store \<times> int res" where
  "mem_append now s st expected evs =
     (if evs = [] then (s, Inr 0)
      else let current = int (length (mget [] (ms_streams s) st)) in
        if current \<noteq> expected then (s, Inl (conflict_error st current expected))
        else let s' = mem_append_loop now st expected 0 evs s in
          (s', Inr (rec_seq (last (ms_all s')))))"

definition mem_load :: "'p mem_store \<Rightarrow> stream_id \<Rightarrow> int \<Rightarrow> 'p recorded list" where
  "mem_load s st after =
     filter (\<lambda>r. after < rec_version r) (map (\<lambda>i. ms_all s ! i) (mget [] (ms_streams s) st))"

definition mem_read_all :: "'p mem_store \<Rightarrow> int \<Rightarrow> int \<Rightarrow> 'p recorded list" where
  "mem_read_all s after limit = read_loop rec_seq after limit [] (ms_all s)"

definition mem_head :: "'p mem_store \<Rightarrow> int" where
  "mem_head s = (if ms_all s = [] then 0 else rec_seq (last (ms_all s)))"

definition mem_ops :: "instant \<Rightarrow> ('p mem_store, 'p) store_ops" where
  "mem_ops now =
     \<lparr>st_append = mem_append now,
      st_load = (\<lambda>s st after. (s, Inr (mem_load s st after))),
      st_read_all = (\<lambda>s after limit. (s, Inr (mem_read_all s after limit))),
      st_head = (\<lambda>s. (s, Inr (mem_head s)))\<rparr>"

section \<open>The log specification\<close>

definition ed_of :: "'p recorded \<Rightarrow> 'p event_data" where
  "ed_of r = \<lparr>ed_name = rec_name r, ed_schema = rec_schema r, ed_payload = rec_payload r,
              ed_meta = rec_meta r\<rparr>"

definition stream_recs :: "'p recorded list \<Rightarrow> stream_id \<Rightarrow> 'p recorded list" where
  "stream_recs l st = filter (\<lambda>r. rec_stream r = st) l"

definition stream_version :: "'p recorded list \<Rightarrow> stream_id \<Rightarrow> int" where
  "stream_version l st = int (length (stream_recs l st))"

definition wf_log :: "'p recorded list \<Rightarrow> bool" where
  "wf_log l \<longleftrightarrow> pos_log rec_seq l \<and>
     (\<forall>st. map rec_version (stream_recs l st) =
       map (\<lambda>i. int i + 1) [0..<length (stream_recs l st)])"

text \<open>What an append of \<open>evs\<close> to \<open>st\<close> puts behind the log.\<close>

definition appended :: "stream_id \<Rightarrow> 'p event_data list \<Rightarrow> 'p recorded list \<Rightarrow> bool" where
  "appended st evs new \<longleftrightarrow> map ed_of new = evs \<and> (\<forall>r\<in>set new. rec_stream r = st)"

definition append_spec ::
  "'p recorded list \<Rightarrow> stream_id \<Rightarrow> int \<Rightarrow> 'p event_data list \<Rightarrow> int res
   \<Rightarrow> 'p recorded list \<Rightarrow> bool" where
  "append_spec l st expected evs r l' \<longleftrightarrow>
     (case r of
        Inl e \<Rightarrow> prefix l l' \<and> (errors_is e ErrVersionConflict \<longrightarrow> stream_version l' st \<noteq> expected)
      | Inr seq \<Rightarrow> if evs = [] then seq = 0 \<and> prefix l l'
          else (\<exists>pre new. prefix l pre \<and> l' = pre @ new \<and> stream_version pre st = expected \<and>
                  appended st evs new \<and> seq = last_pos rec_seq l'))"

definition load_spec :: "'p recorded list \<Rightarrow> stream_id \<Rightarrow> int \<Rightarrow> 'p recorded list" where
  "load_spec l st after = filter (\<lambda>r. after < rec_version r) (stream_recs l st)"

lemma stream_recs_append [log_simps]: "stream_recs (xs @ ys) st = stream_recs xs st @ stream_recs ys st"
  by (simp add: stream_recs_def)

lemma stream_recs_prefix: "prefix l l' \<Longrightarrow> prefix (stream_recs l st) (stream_recs l' st)"
  by (simp add: stream_recs_def filter_prefix)

lemma stream_version_mono: "prefix l l' \<Longrightarrow> stream_version l st \<le> stream_version l' st"
  by (auto simp: stream_version_def prefix_def stream_recs_append)

lemma append_spec_prefix: "append_spec l st v evs r l' \<Longrightarrow> prefix l l'"
  by (auto simp: append_spec_def prefix_def split: sum.splits if_splits)

lemma appended_recs: "appended st evs new \<Longrightarrow>
   stream_recs new st' = (if st' = st then new else [])"
  by (auto simp: appended_def stream_recs_def filter_True filter_empty_conv)

lemma wf_log_Nil [simp]: "wf_log []"
  by (simp add: wf_log_def stream_recs_def)

lemma wf_log_pos: "wf_log l \<Longrightarrow> pos_log rec_seq l"
  by (simp add: wf_log_def)

lemma load_spec_all [log_simps]:
  assumes "wf_log l" shows "load_spec l st 0 = stream_recs l st"
proof -
  have "0 < rec_version r" if "r \<in> set (stream_recs l st)" for r
  proof -
    from that have "rec_version r \<in> set (map rec_version (stream_recs l st))" by simp
    also have "\<dots> = set (map (\<lambda>i. int i + 1) [0..<length (stream_recs l st)])"
      using assms by (simp only: wf_log_def)
    finally show ?thesis by auto
  qed
  then show ?thesis by (simp add: load_spec_def filter_True)
qed

lemma wf_log_append:
  assumes "wf_log pre" "appended st evs new" "pos_log rec_seq (pre @ new)"
    "map rec_version new = map (\<lambda>i. stream_version pre st + int i + 1) [0..<length new]"
  shows "wf_log (pre @ new)"
proof -
  have "map rec_version (stream_recs (pre @ new) st') =
        map (\<lambda>i. int i + 1) [0..<length (stream_recs (pre @ new) st')]" for st'
  proof (cases "st' = st")
    case False
    with assms(1,2) show ?thesis by (simp add: wf_log_def stream_recs_append appended_recs)
  next
    case True
    let ?n = "length (stream_recs pre st)"
    have "[0..<?n + length new] = [0..<?n] @ map (\<lambda>i. i + ?n) [0..<length new]"
      using upt_add_eq_append[of 0 ?n "length new"] map_add_upt[of ?n "length new"]
      by (simp add: add.commute)
    then show ?thesis
      using assms(1,2,4) True
      by (simp add: wf_log_def stream_recs_append appended_recs stream_version_def algebra_simps)
  qed
  with assms(3) show ?thesis by (simp add: wf_log_def)
qed

text \<open>The versions of new events continue those of their stream.\<close>

lemma wf_log_new_versions:
  assumes "wf_log (pre @ new)" "appended st evs new"
  shows "map rec_version new = map (\<lambda>i. stream_version pre st + int i + 1) [0..<length new]"
proof -
  let ?n = "length (stream_recs pre st)"
  have r: "stream_recs (pre @ new) st = stream_recs pre st @ new"
    using assms(2) by (simp add: stream_recs_append appended_recs)
  have "map rec_version (stream_recs (pre @ new) st) =
        map (\<lambda>i. int i + 1) [0..<length (stream_recs (pre @ new) st)]"
    using assms(1) by (simp add: wf_log_def)
  then have "drop ?n (map rec_version (stream_recs pre st @ new)) =
        drop ?n (map (\<lambda>i. int i + 1) [0..<?n + length new])"
    by (simp only: r length_append)
  then have "map rec_version new = map (\<lambda>i. int i + 1) [?n..<?n + length new]"
    by (simp add: drop_map)
  also have "[?n..<?n + length new] = map (\<lambda>i. i + ?n) [0..<length new]"
    by (simp add: map_add_upt add.commute)
  finally show ?thesis by (simp add: stream_version_def algebra_simps)
qed

section \<open>The in-memory store keeps its index\<close>

text \<open>
  The representation invariant: positions count from 1 without gaps, and the index of a
  stream lists exactly the positions in range that hold its events, in order.
\<close>

definition mem_inv :: "'p mem_store \<Rightarrow> bool" where
  "mem_inv s \<longleftrightarrow> wf_log (ms_all s) \<and>
     map rec_seq (ms_all s) = map (\<lambda>i. int i + 1) [0..<length (ms_all s)] \<and>
     (\<forall>st. mget [] (ms_streams s) st =
        filter (\<lambda>i. rec_stream (ms_all s ! i) = st) [0..<length (ms_all s)])"

lemma map_nth_filter: "map (\<lambda>i. xs ! i) (filter (\<lambda>i. P (xs ! i)) [0..<length xs]) = filter P xs"
proof -
  have "filter P xs = filter P (map (\<lambda>i. xs ! i) [0..<length xs])" by (simp add: map_nth)
  then show ?thesis by (simp add: filter_map comp_def)
qed

lemma mem_index_recs:
  "mem_inv s \<Longrightarrow> map (\<lambda>i. ms_all s ! i) (mget [] (ms_streams s) st) = stream_recs (ms_all s) st"
  unfolding mem_inv_def stream_recs_def
  using map_nth_filter[of "ms_all s" "\<lambda>r. rec_stream r = st"] by simp

lemma mem_index_version:
  "mem_inv s \<Longrightarrow> int (length (mget [] (ms_streams s) st)) = stream_version (ms_all s) st"
  using mem_index_recs[of s st] by (metis length_map stream_version_def)

lemma mem_index_in_range: "mem_inv s \<Longrightarrow> i \<in> set (mget [] (ms_streams s) st) \<Longrightarrow> i < length (ms_all s)"
  by (simp add: mem_inv_def)

lemma mem_inv_new: "mem_inv new_mem_store"
  by (simp add: mem_inv_def new_mem_store_def)

lemma mem_push:
  fixes s :: "'p mem_store" and e :: "'p event_data" and now :: instant
  assumes inv: "mem_inv s" and v: "stream_version (ms_all s) st = expected + i"
  defines "r \<equiv> mem_record now st expected i e s"
  shows "mem_inv (s\<lparr>ms_streams := (ms_streams s)(st \<mapsto> mget [] (ms_streams s) st @ [length (ms_all s)]),
                    ms_all := ms_all s @ [r]\<rparr>)"
    and "appended st [e] [r]" and "rec_seq r = int (length (ms_all s)) + 1"
proof -
  let ?l = "ms_all s"
  show app: "appended st [e] [r]" and seq: "rec_seq r = int (length ?l) + 1"
    by (simp_all add: appended_def r_def mem_record_def ed_of_def)
  have seqs: "map rec_seq ?l = map (\<lambda>i. int i + 1) [0..<length ?l]"
    using inv by (simp add: mem_inv_def)
  have "rec_seq x < rec_seq r" if "x \<in> set ?l" for x
  proof -
    from that have "rec_seq x \<in> set (map rec_seq ?l)" by simp
    with seqs have "rec_seq x \<in> set (map (\<lambda>i. int i + 1) [0..<length ?l])" by simp
    with seq show ?thesis by auto
  qed
  then have "pos_log rec_seq (?l @ [r])"
    using inv seq by (auto simp: pos_log_append mem_inv_def wf_log_def) (simp add: pos_log_def)
  moreover have "rec_version r = stream_version ?l st + 1"
    using v by (simp add: r_def mem_record_def)
  ultimately have "wf_log (?l @ [r])"
    using inv app by (intro wf_log_append[where st = st and evs = "[e]"]) (auto simp: mem_inv_def)
  moreover have "filter (\<lambda>i. rec_stream ((?l @ [r]) ! i) = st') [0..<length ?l] =
      filter (\<lambda>i. rec_stream (?l ! i) = st') [0..<length ?l]" for st'
    by (rule filter_cong) (auto simp: nth_append)
  moreover have "rec_stream r = st" by (simp add: r_def mem_record_def)
  ultimately show "mem_inv (s\<lparr>ms_streams := (ms_streams s)(st \<mapsto> mget [] (ms_streams s) st @ [length ?l]),
                    ms_all := ?l @ [r]\<rparr>)"
    using inv seq by (auto simp: mem_inv_def)
qed

lemma mem_append_loop_at: "r \<in> set (ms_all (mem_append_loop now st v i evs s)) \<Longrightarrow> r \<in> set (ms_all s) \<or> rec_at r = now"
  by (induction now st v i evs s rule: mem_append_loop.induct) (auto simp: mem_record_def)

lemma mem_append_loop_spec:
  assumes "mem_inv s" "stream_version (ms_all s) st = expected + i"
  shows "\<exists>new. ms_all (mem_append_loop now st expected i evs s) = ms_all s @ new \<and>
     appended st evs new \<and> mem_inv (mem_append_loop now st expected i evs s)"
  using assms
proof (induction evs arbitrary: i s)
  case Nil
  then show ?case by (simp add: appended_def)
next
  case (Cons e es)
  let ?r = "mem_record now st expected i e s"
  let ?s = "s\<lparr>ms_streams := (ms_streams s)(st \<mapsto> mget [] (ms_streams s) st @ [length (ms_all s)]),
              ms_all := ms_all s @ [?r]\<rparr>"
  note p = mem_push[OF Cons.prems, where now = now and e = e]
  have "stream_version (ms_all ?s) st = expected + (i + 1)"
    using Cons.prems(2) by (simp add: stream_version_def stream_recs_append)
      (simp add: stream_recs_def mem_record_def)
  from Cons.IH[OF p(1) this] p(2) show ?case
    by (auto simp: appended_def)
qed

lemma mem_append_ok:
  assumes "mem_inv s" "evs \<noteq> []" "stream_version (ms_all s) st = expected"
  shows "\<exists>s' new. mem_append now s st expected evs = (s', Inr (last_pos rec_seq (ms_all s'))) \<and>
     ms_all s' = ms_all s @ new \<and> appended st evs new \<and> mem_inv s'"
proof -
  let ?s = "mem_append_loop now st expected 0 evs s"
  from mem_append_loop_spec[of s st expected 0 now evs] assms obtain new where
    new: "ms_all ?s = ms_all s @ new" "appended st evs new" "mem_inv ?s" by auto
  have "new \<noteq> []" using new(2) assms(2) by (auto simp: appended_def)
  then have "last_pos rec_seq (ms_all ?s) = rec_seq (last (ms_all ?s))"
    by (simp add: last_pos_def new(1))
  with new assms show ?thesis by (auto simp: mem_append_def mem_index_version)
qed

lemma mem_append_conflict:
  assumes "mem_inv s" "evs \<noteq> []" "stream_version (ms_all s) st \<noteq> expected"
  shows "mem_append now s st expected evs =
     (s, Inl (conflict_error st (stream_version (ms_all s) st) expected))"
  using assms by (simp add: mem_append_def mem_index_version)

lemma mem_append_nil [simp]: "mem_append now s st expected [] = (s, Inr 0)"
  by (simp add: mem_append_def)

lemma conflict_error_is [simp, err_simps]:
  "errors_is (conflict_error st a b) ErrVersionConflict" "\<not> is_domain (conflict_error st a b)"
  by (simp_all add: conflict_error_def)

lemma mem_load_spec: "mem_inv s \<Longrightarrow> mem_load s st after = load_spec (ms_all s) st after"
  by (simp add: mem_load_def load_spec_def mem_index_recs)

lemma mem_head_last: "mem_head s = last_pos rec_seq (ms_all s)"
  by (simp add: mem_head_def last_pos_def)

lemma mem_inv_wf: "mem_inv s \<Longrightarrow> wf_log (ms_all s)"
  by (simp add: mem_inv_def)

lemma mem_append_meets_spec:
  assumes "mem_inv s" "mem_append now s st v evs = (s', r)"
  shows "mem_inv s' \<and> append_spec (ms_all s) st v evs r (ms_all s')"
proof -
  consider "evs = []" | "evs \<noteq> []" "stream_version (ms_all s) st \<noteq> v"
    | "evs \<noteq> []" "stream_version (ms_all s) st = v" by blast
  then show ?thesis
  proof cases
    case 1
    with assms show ?thesis by (auto simp: append_spec_def)
  next
    case 2
    with assms show ?thesis by (auto simp: mem_append_conflict append_spec_def)
  next
    case 3
    with mem_append_ok[OF assms(1) 3, of now] assms(2) show ?thesis
      by (auto simp: append_spec_def)
  qed
qed

section \<open>The port's contract\<close>

text \<open>
  What the relay, the projections, the repository and the saga runner rely on. \<open>log\<close> is what
  the store holds, \<open>inv\<close> the implementation's representation invariant.
\<close>

locale event_store =
  fixes ops :: "('w, 'p) store_ops"
    and log :: "'w \<Rightarrow> 'p recorded list"
    and inv :: "'w \<Rightarrow> bool"
  assumes log_wf: "inv w \<Longrightarrow> wf_log (log w)"
    and append_law: "inv w \<Longrightarrow> st_append ops w st v evs = (w', r) \<Longrightarrow>
          inv w' \<and> append_spec (log w) st v evs r (log w')"
    and load_law: "inv w \<Longrightarrow> st_load ops w st after = (w', r1) \<Longrightarrow>
          inv w' \<and> prefix (log w) (log w') \<and>
          (\<forall>recs. r1 = Inr recs \<longrightarrow> recs = load_spec (log w') st after)"
    and read_law: "inv w \<Longrightarrow> st_read_all ops w after limit = (w', r1) \<Longrightarrow>
          inv w' \<and> prefix (log w) (log w') \<and>
          (\<forall>recs. r1 = Inr recs \<longrightarrow> recs = tail_batch rec_seq after limit (log w'))"
    and head_law: "inv w \<Longrightarrow> st_head ops w = (w', r) \<Longrightarrow>
          inv w' \<and> prefix (log w) (log w') \<and>
          (\<forall>h. r = Inr h \<longrightarrow> h = last_pos rec_seq (log w'))"
begin

lemma append_grows: "inv w \<Longrightarrow> st_append ops w st v evs = (w', r) \<Longrightarrow> prefix (log w) (log w')"
  using append_law append_spec_prefix by blast

text \<open>A reader at the head finds nothing more, and the next position is past it.\<close>

lemma read_at_head:
  assumes "inv w" "st_head ops w = (w1, Inr h)" "st_read_all ops w1 h limit = (w2, Inr recs)"
    and "log w2 = log w1"
  shows "recs = []"
  using head_law[OF assms(1,2)] read_law[of w1 h limit w2 "Inr recs"] assms(3,4) log_wf
    pos_log_le_last[OF wf_log_pos]
  by (auto simp: tail_batch_empty_iff)

text \<open>An append lands past every position handed out before.\<close>

lemma append_seq_gt_head:
  assumes "inv w" "st_append ops w st v evs = (w', Inr seq)" "evs \<noteq> []"
  shows "last_pos rec_seq (log w) < seq \<and> 0 < seq"
proof -
  from append_law[OF assms(1,2)] assms(3) obtain pre new where
    p: "inv w'" "prefix (log w) pre" "log w' = pre @ new" "appended st evs new"
      "seq = last_pos rec_seq (log w')"
    by (auto simp: append_spec_def)
  have "new \<noteq> []" using p(4) assms(3) by (auto simp: appended_def)
  then have s: "seq = rec_seq (last new)" "last new \<in> set new"
    using p(3,5) by (auto simp: last_pos_def)
  have pos: "pos_log rec_seq (pre @ new)" using log_wf[OF p(1)] p(3) by (simp add: wf_log_def)
  have "rec_seq x < seq" if "x \<in> set (log w)" for x
    using pos s that p(2) by (auto simp: pos_log_append prefix_def)
  moreover have "0 < seq" using pos s by (auto simp: pos_log_def)
  ultimately show ?thesis by (auto simp: last_pos_def)
qed

end

interpretation mem_store: event_store "mem_ops now" ms_all mem_inv for now
  by unfold_locales
    (auto simp: mem_ops_def mem_inv_wf mem_load_spec mem_read_all_def read_loop_tail_batch
      mem_head_last dest: mem_append_meets_spec)

section \<open>Properties\<close>

text \<open>
  Optimistic concurrency of the in-memory store, on every branch of Append: an empty
  append is a no-op answering 0; an append at any other version than the stream's stores
  nothing and answers a version conflict, which is retryable and no domain error; otherwise
  all events are stored at the end, in order, under contiguous versions, and the answer is
  the new head.
\<close>

theorem mem_append_contract:
  assumes "mem_inv s"
  shows "case mem_append now s st v evs of (s', r) \<Rightarrow>
    mem_inv s' \<and>
    (if evs = [] then s' = s \<and> r = Inr 0
     else if stream_version (ms_all s) st \<noteq> v
       then s' = s \<and> (\<exists>e. r = Inl e \<and> errors_is e ErrVersionConflict \<and> \<not> is_domain e)
     else (\<exists>new. ms_all s' = ms_all s @ new \<and> appended st evs new \<and>
             map rec_version new = map (\<lambda>i. v + int i + 1) [0..<length evs]) \<and>
           r = Inr (mem_head s'))"
proof -
  consider "evs = []" | "evs \<noteq> []" "stream_version (ms_all s) st \<noteq> v"
    | "evs \<noteq> []" "stream_version (ms_all s) st = v" by blast
  then show ?thesis
  proof cases
    case 3
    then obtain s' new where
      a: "mem_append now s st v evs = (s', Inr (last_pos rec_seq (ms_all s')))"
        "ms_all s' = ms_all s @ new" "appended st evs new" "mem_inv s'"
      using mem_append_ok[OF assms 3, of now] by blast
    have "length new = length evs" using a(3) by (auto simp: appended_def)
    then have "map rec_version new = map (\<lambda>i. v + int i + 1) [0..<length evs]"
      using wf_log_new_versions[of "ms_all s" new st evs] mem_inv_wf[OF a(4)] a(2,3) 3(2) by simp
    with 3 a show ?thesis by (auto simp: mem_head_last)
  qed (use assms in \<open>auto simp: mem_append_conflict\<close>)
qed

definition demo_stream :: stream_id where
  "demo_stream = \<lparr>si_category = ''order'', si_id = ''42''\<rparr>"

definition demo_data :: "string \<Rightarrow> int event_data" where
  "demo_data n = \<lparr>ed_name = n, ed_schema = 1, ed_payload = 0, ed_meta = fmempty\<rparr>"

theorem mem_append_contract_witness:
  "snd (mem_append 7 (fst (mem_append 7 new_mem_store demo_stream 0 [demo_data ''a'']))
      demo_stream 1 [demo_data ''b'', demo_data ''c'']) = Inr 3 \<and>
   (\<exists>e. snd (mem_append 7 (fst (mem_append 7 new_mem_store demo_stream 0 [demo_data ''a'']))
      demo_stream 0 [demo_data ''b'']) = Inl e \<and> errors_is e ErrVersionConflict)"
proof -
  let ?s = "fst (mem_append 7 new_mem_store demo_stream 0 [demo_data ''a''])"
  have v: "stream_version (ms_all ?s) demo_stream = 1"
    by (simp add: mem_append_def new_mem_store_def mem_record_def stream_version_def stream_recs_def)
  have i: "mem_inv ?s"
    using mem_append_contract[OF mem_inv_new, where now = 7 and st = demo_stream and v = 0
        and evs = "[demo_data ''a'']"]
    by (auto simp: split: prod.splits)
  have "snd (mem_append 7 ?s demo_stream 1 [demo_data ''b'', demo_data ''c'']) = Inr 3"
    by (simp add: mem_append_def new_mem_store_def mem_record_def)
  with mem_append_contract[OF i, where now = 7 and st = demo_stream and v = 0
      and evs = "[demo_data ''b'']"] v show ?thesis
    by (auto split: prod.splits)
qed

end
