(* ===== verification/Registry.thy ===== *)
theory Registry
  imports EventStore
begin

text \<open>
  The event registry (\<open>eventstore/registry.go\<close>): stored event names to decoders and their
  upcaster chains. The type parameter of \<open>Register\<close> is passed as what the function uses of
  it: the event name of its zero value and its \<open>json.Unmarshal\<close>. A panic is \<open>None\<close>.
\<close>

type_synonym 'p upcaster = "'p \<Rightarrow> 'p res"

record ('p, 'e) reg_entry =
  re_decode :: "'p \<Rightarrow> 'e res"
  re_upcasters :: "'p upcaster list"

type_synonym ('p, 'e) registry = "string \<rightharpoonup> ('p, 'e) reg_entry"

definition new_registry :: "('p, 'e) registry" where
  "new_registry = Map.empty"

definition register ::
  "string \<Rightarrow> ('p \<Rightarrow> 'e res) \<Rightarrow> ('p, 'e) registry \<Rightarrow> ('p, 'e) registry option" where
  "register name unmarshal r =
     (if name = [] then None
      else if r name \<noteq> None then None
      else Some (r(name \<mapsto> \<lparr>re_decode = (\<lambda>payload. case unmarshal payload of
                     Inl err \<Rightarrow> Inl (Wrapf ''eventstore: decoding %s: %w'' [FStr name] err)
                   | Inr e \<Rightarrow> Inr e),
                 re_upcasters = []\<rparr>)))"

definition register_upcaster ::
  "('p, 'e) registry \<Rightarrow> string \<Rightarrow> 'p upcaster \<Rightarrow> ('p, 'e) registry option" where
  "register_upcaster r name up =
     (case r name of
        None \<Rightarrow> None
      | Some ent \<Rightarrow> Some (r(name \<mapsto> ent\<lparr>re_upcasters := re_upcasters ent @ [up]\<rparr>)))"

definition schema_version :: "('p, 'e) registry \<Rightarrow> string \<Rightarrow> int res" where
  "schema_version r name =
     (case r name of
        None \<Rightarrow> Inl (Errorf ''eventstore: unregistered event %q'' [FStr name])
      | Some ent \<Rightarrow> Inr (1 + int (length (re_upcasters ent))))"

text \<open>
  \<open>nm\<close> is the event's \<open>EventName\<close>, \<open>marshal\<close> its \<open>json.Marshal\<close>. The metadata is left empty.
\<close>

definition encode ::
  "('e \<Rightarrow> string) \<Rightarrow> ('e \<Rightarrow> 'p res) \<Rightarrow> ('p, 'e) registry \<Rightarrow> 'e \<Rightarrow> 'p event_data res" where
  "encode nm marshal r e =
     (case schema_version r (nm e) of
        Inl err \<Rightarrow> Inl err
      | Inr version \<Rightarrow>
          (case marshal e of
             Inl err \<Rightarrow> Inl (Wrapf ''eventstore: encoding %s: %w'' [FStr (nm e)] err)
           | Inr payload \<Rightarrow> Inr \<lparr>ed_name = nm e, ed_schema = version, ed_payload = payload,
                                ed_meta = fmempty\<rparr>))"

text \<open>The lifting loop \<open>for v := stored; v < current; v++\<close>.\<close>

function lift_loop :: "string \<Rightarrow> 'p upcaster list \<Rightarrow> int \<Rightarrow> int \<Rightarrow> 'p \<Rightarrow> 'p res" where
  "lift_loop name ups v current payload =
     (if v < current then
        (case (ups ! nat (v - 1)) payload of
           Inl err \<Rightarrow> Inl (Wrapf ''eventstore: upcasting %s v%d->v%d: %w''
                          [FStr name, FInt v, FInt (v + 1)] err)
         | Inr lifted \<Rightarrow> lift_loop name ups (v + 1) current lifted)
      else Inr payload)"
  by pat_completeness auto
termination
  by (relation "measure (\<lambda>(name, ups, v, current, payload). nat (current - v))") auto

declare lift_loop.simps [simp del]

definition decode :: "('p, 'e) registry \<Rightarrow> 'p recorded \<Rightarrow> 'e res" where
  "decode r rec =
     (case r (rec_name rec) of
        None \<Rightarrow> Inl (Errorf ''eventstore: unregistered event %q at seq %d''
                     [FStr (rec_name rec), FInt (rec_seq rec)])
      | Some ent \<Rightarrow>
          (let current = 1 + int (length (re_upcasters ent)) in
           if rec_schema rec < 1 \<or> current < rec_schema rec then
             Inl (Errorf ''eventstore: %s: stored schema version %d outside [1,%d]''
                    [FStr (rec_name rec), FInt (rec_schema rec), FInt current])
           else
             (case lift_loop (rec_name rec) (re_upcasters ent) (rec_schema rec) current
                     (rec_payload rec) of
                Inl err \<Rightarrow> Inl err
              | Inr payload \<Rightarrow> re_decode ent payload)))"

section \<open>The lifting specification\<close>

text \<open>What a chain of upcasters means: apply them in order, stop at the first failure.\<close>

fun lift_all :: "'p upcaster list \<Rightarrow> 'p \<Rightarrow> 'p res" where
  "lift_all [] p = Inr p"
| "lift_all (u # us) p = (case u p of Inl err \<Rightarrow> Inl err | Inr q \<Rightarrow> lift_all us q)"

lemma lift_loop_ok_iff:
  assumes "1 \<le> v" "v \<le> 1 + int (length ups)"
  shows "lift_loop name ups v (1 + int (length ups)) p = Inr q \<longleftrightarrow>
         lift_all (drop (nat (v - 1)) ups) p = Inr q"
  using assms
proof (induction "nat (1 + int (length ups) - v)" arbitrary: v p)
  case 0
  then have "v = 1 + int (length ups)" by simp
  then show ?case by (simp add: lift_loop.simps)
next
  case (Suc n)
  then have lt: "v < 1 + int (length ups)" by simp
  then have d: "drop (nat (v - 1)) ups = ups ! nat (v - 1) # drop (nat (v + 1 - 1)) ups"
    using Suc.prems(1) Cons_nth_drop_Suc[of "nat (v - 1)" ups] by (simp add: Suc_nat_eq_nat_zadd1)
  have IH: "lift_loop name ups (v + 1) (1 + int (length ups)) p' = Inr q \<longleftrightarrow>
      lift_all (drop (nat (v + 1 - 1)) ups) p' = Inr q" for p'
    using Suc.hyps(2) Suc.prems lt by (intro Suc.hyps(1)) auto
  show ?case
    unfolding d lift_all.simps by (subst lift_loop.simps) (simp add: lt IH split: sum.splits)
qed

lemma schema_version_ok [simp]:
  "schema_version r n = Inr v \<longleftrightarrow>
   (\<exists>ent. r n = Some ent \<and> v = 1 + int (length (re_upcasters ent)))"
  by (auto simp: schema_version_def split: option.splits)

lemma encode_ok_iff:
  "encode nm marshal r e = Inr d \<longleftrightarrow>
   (\<exists>ent p. r (nm e) = Some ent \<and> marshal e = Inr p \<and>
      d = \<lparr>ed_name = nm e, ed_schema = 1 + int (length (re_upcasters ent)), ed_payload = p,
           ed_meta = fmempty\<rparr>)"
  by (auto simp: encode_def split: sum.splits) (auto simp: schema_version_def split: option.splits)

text \<open>A registry whose decoders invert \<open>json.Marshal\<close>, at the current schema version.\<close>

definition codec_ok ::
  "('e \<Rightarrow> string) \<Rightarrow> ('e \<Rightarrow> 'p res) \<Rightarrow> ('p, 'e) registry \<Rightarrow> bool" where
  "codec_ok nm marshal r \<longleftrightarrow>
     (\<forall>e p ent. r (nm e) = Some ent \<longrightarrow> marshal e = Inr p \<longrightarrow> re_decode ent p = Inr e)"

lemma codec_ok_new [simp]: "codec_ok nm marshal new_registry"
  by (simp add: codec_ok_def new_registry_def)

lemma codec_ok_register:
  assumes "codec_ok nm marshal r" "register name unmarshal r = Some r'"
    and "\<And>e p. nm e = name \<Longrightarrow> marshal e = Inr p \<Longrightarrow> unmarshal p = Inr e"
  shows "codec_ok nm marshal r'"
  using assms by (auto simp: codec_ok_def register_def split: if_splits)

lemma codec_ok_upcaster:
  "codec_ok nm marshal r \<Longrightarrow> register_upcaster r name up = Some r' \<Longrightarrow> codec_ok nm marshal r'"
  by (auto simp: codec_ok_def register_upcaster_def split: option.splits if_splits)

lemma decode_lifts_iff:
  "decode r rec = Inr e \<longleftrightarrow>
   (\<exists>ent p. r (rec_name rec) = Some ent \<and>
      1 \<le> rec_schema rec \<and> rec_schema rec \<le> 1 + int (length (re_upcasters ent)) \<and>
      lift_all (drop (nat (rec_schema rec - 1)) (re_upcasters ent)) (rec_payload rec) = Inr p \<and>
      re_decode ent p = Inr e)"
proof (cases "r (rec_name rec)")
  case None
  then show ?thesis by (simp add: decode_def)
next
  case (Some ent)
  show ?thesis
  proof (cases "1 \<le> rec_schema rec \<and> rec_schema rec \<le> 1 + int (length (re_upcasters ent))")
    case True
    then show ?thesis
      using Some lift_loop_ok_iff[of "rec_schema rec" "re_upcasters ent" "rec_name rec" "rec_payload rec"]
      by (fastforce simp: decode_def Let_def split: sum.splits)
  next
    case False
    then show ?thesis using Some by (auto simp: decode_def Let_def)
  qed
qed


text \<open>Startup code that registers a chain of upcasters for one event.\<close>

fun register_chain ::
  "('p, 'e) registry \<Rightarrow> string \<Rightarrow> 'p upcaster list \<Rightarrow> ('p, 'e) registry option" where
  "register_chain r name [] = Some r"
| "register_chain r name (up # ups) =
     (case register_upcaster r name up of None \<Rightarrow> None | Some r' \<Rightarrow> register_chain r' name ups)"

lemma register_chain_entry:
  "r name = Some ent \<Longrightarrow> register_chain r name ups = Some r' \<Longrightarrow>
   r' name = Some (ent\<lparr>re_upcasters := re_upcasters ent @ ups\<rparr>)"
proof (induction ups arbitrary: r ent)
  case (Cons u us)
  let ?ent = "ent\<lparr>re_upcasters := re_upcasters ent @ [u]\<rparr>"
  have r1: "register_upcaster r name u = Some (r(name \<mapsto> ?ent))"
    using Cons.prems(1) by (simp add: register_upcaster_def)
  have r2: "register_chain (r(name \<mapsto> ?ent)) name us = Some r'" using Cons.prems(2) r1 by simp
  have "r' name = Some (?ent\<lparr>re_upcasters := re_upcasters ?ent @ us\<rparr>)"
    by (rule Cons.IH[OF _ r2]) simp
  then show ?case by simp
qed simp

section \<open>Properties\<close>

text \<open>
  Decoding lifts a stored payload through exactly the upcasters its schema version still
  misses: a decode succeeds iff the event name is registered, the stored version lies
  between 1 and the current one, the upcasters from that version on succeed in order, and the
  decoder accepts the lifted payload. No other path gives an event.
\<close>

theorem decode_lifts_missing_versions:
  "decode r rec = Inr e \<longleftrightarrow>
   (\<exists>ent p. r (rec_name rec) = Some ent \<and>
      1 \<le> rec_schema rec \<and> rec_schema rec \<le> 1 + int (length (re_upcasters ent)) \<and>
      lift_all (drop (nat (rec_schema rec - 1)) (re_upcasters ent)) (rec_payload rec) = Inr p \<and>
      re_decode ent p = Inr e)"
  by (rule decode_lifts_iff)

text \<open>
  C38. Events outlive their schema: what \<open>Encode\<close> stamped under a registry decodes to the same
  event under it, and after any chain of upcasters is registered for the event, it decodes
  to what the whole chain makes of the stored payload, while newly encoded events are stamped
  with a version that many steps higher and decode without lifting.
\<close>

theorem event_survives_evolution:
  assumes "codec_ok nm marshal r" "encode nm marshal r e = Inr (ed_of rec)"
    and "r (nm e) = Some ent" "register_chain r (nm e) ups = Some r'"
  shows "decode r rec = Inr e \<and>
    (\<forall>e'. decode r' rec = Inr e' \<longleftrightarrow>
       (\<exists>q. lift_all ups (rec_payload rec) = Inr q \<and> re_decode ent q = Inr e')) \<and>
    schema_version r' (nm e) = Inr (rec_schema rec + int (length ups)) \<and>
    (\<forall>rec'. encode nm marshal r' e = Inr (ed_of rec') \<longrightarrow> decode r' rec' = Inr e)"
proof -
  from assms(2,3) have f: "rec_name rec = nm e" "marshal e = Inr (rec_payload rec)"
      "rec_schema rec = 1 + int (length (re_upcasters ent))"
    by (auto simp: encode_ok_iff ed_of_def)
  have ent: "re_decode ent (rec_payload rec) = Inr e"
    using assms(1,3) f(2) by (auto simp: codec_ok_def)
  note r' = register_chain_entry[OF assms(3,4)]
  have "decode r' rec' = Inr e" if "encode nm marshal r' e = Inr (ed_of rec')" for rec' :: "'b recorded"
    using that r' ent f(2) unfolding decode_lifts_iff
    by (auto simp: encode_ok_iff ed_of_def)
  moreover have "decode r rec = Inr e"
    unfolding decode_lifts_iff using assms(3) f ent by auto
  moreover have "decode r' rec = Inr e' \<longleftrightarrow>
      (\<exists>q. lift_all ups (rec_payload rec) = Inr q \<and> re_decode ent q = Inr e')" for e'
    unfolding decode_lifts_iff using r' f by auto
  ultimately show ?thesis using r' f(3) by auto
qed

text \<open>Witness: payloads are integers, version 2 doubles what version 1 stored.\<close>

definition demo_registry :: "(int, int) registry" where
  "demo_registry = [''counted'' \<mapsto> \<lparr>re_decode = (\<lambda>p. Inr p), re_upcasters = []\<rparr>]"

definition demo_rec :: "int recorded" where
  "demo_rec = \<lparr>rec_seq = 1, rec_stream = demo_stream, rec_version = 1, rec_name = ''counted'',
     rec_schema = 1, rec_payload = 21, rec_meta = fmempty, rec_at = 0\<rparr>"

theorem event_survives_evolution_witness:
  "decode demo_registry demo_rec = Inr 21 \<and>
   map_option (\<lambda>r'. decode r' demo_rec)
     (register_chain demo_registry ''counted'' [\<lambda>p. Inr (2 * p)]) = Some (Inr 42)"
proof -
  let ?nm = "\<lambda>_::int. ''counted''" and ?ma = "\<lambda>e::int. Inr e :: int res"
  let ?up = "\<lambda>p::int. Inr (2 * p) :: int res"
  have 1: "codec_ok ?nm ?ma demo_registry" by (auto simp: codec_ok_def demo_registry_def)
  have 2: "encode ?nm ?ma demo_registry 21 = Inr (ed_of demo_rec)"
    by (simp add: encode_def schema_version_def demo_registry_def demo_rec_def ed_of_def)
  have 3: "demo_registry (?nm 21) = Some \<lparr>re_decode = (\<lambda>p. Inr p), re_upcasters = []\<rparr>"
    by (simp add: demo_registry_def)
  obtain r' where r': "register_chain demo_registry (?nm 21) [?up] = Some r'"
    by (simp add: register_upcaster_def demo_registry_def)
  note ev = event_survives_evolution[OF 1 2 3 r']
  from ev have "decode r' demo_rec = Inr 42" by (simp add: demo_rec_def)
  with ev r' show ?thesis by simp
qed

end
