(* ===== verification/Repository.thy ===== *)
theory Repository
  imports Registry
begin

text \<open>
  The generic repository (\<open>eventstore/repository.go\<close>) with what it reads from its context: the
  metadata extractor (\<open>eventstore/metadata.go\<close>) and the captured write position
  (\<open>eventstore/position.go\<close>). The client lemmas are proved once over the store port.
\<close>

section \<open>Context values\<close>

text \<open>The installed extractor, if any; an empty map is returned as nil, here the same value.\<close>

definition metadata_from_context :: "('c \<Rightarrow> metadata) option \<Rightarrow> 'c \<Rightarrow> metadata" where
  "metadata_from_context extractor ctx =
     (case extractor of
        None \<Rightarrow> fmempty
      | Some fn \<Rightarrow> (let md = fn ctx in if md = fmempty then fmempty else md))"

text \<open>A Position holds the highest position recorded; a context carries at most one.\<close>

definition position_record :: "int \<Rightarrow> int \<Rightarrow> int" where
  "position_record p seq = (if p < seq then seq else p)"

definition capture_position :: "int option \<Rightarrow> int option" where
  "capture_position ctx_pos = Some 0"

definition record_position :: "int option \<Rightarrow> int \<Rightarrow> int option" where
  "record_position pos seq =
     (case pos of
        None \<Rightarrow> None
      | Some p \<Rightarrow> if 0 < seq then Some (position_record p seq) else Some p)"

section \<open>The repository\<close>

text \<open>
  \<open>rp_zero\<close> is what \<open>newAgg\<close> returns; \<open>rp_name\<close>, \<open>rp_apply\<close> and \<open>rp_marshal\<close> are the
  methods \<open>EventName\<close> and \<open>Apply\<close> and the JSON encoding of the aggregate's events.
\<close>

record ('w, 'p, 'e, 's) repository =
  rp_store :: "('w, 'p) store_ops"
  rp_registry :: "('p, 'e) registry"
  rp_category :: string
  rp_zero :: 's
  rp_name :: "'e \<Rightarrow> string"
  rp_apply :: "('s, 'e) applier"
  rp_marshal :: "'e \<Rightarrow> 'p res"

definition rp_stream :: "('w, 'p, 'e, 's) repository \<Rightarrow> string \<Rightarrow> stream_id" where
  "rp_stream rp aid = \<lparr>si_category = rp_category rp, si_id = aid\<rparr>"

fun decode_all :: "('p, 'e) registry \<Rightarrow> 'p recorded list \<Rightarrow> 'e list res" where
  "decode_all r [] = Inr []"
| "decode_all r (rec # recs) =
     (case decode r rec of
        Inl err \<Rightarrow> Inl err
      | Inr e \<Rightarrow> (case decode_all r recs of Inl err \<Rightarrow> Inl err | Inr es \<Rightarrow> Inr (e # es)))"

definition repo_load ::
  "('w, 'p, 'e, 's) repository \<Rightarrow> 'w \<Rightarrow> string \<Rightarrow> 'w \<times> ('s, 'e) aggregate res" where
  "repo_load rp w aid =
     (case st_load (rp_store rp) w (rp_stream rp aid) 0 of
        (w', Inl err) \<Rightarrow> (w', Inl err)
      | (w', Inr recs) \<Rightarrow>
          (w', if recs = [] then
                 Inl (Wrapf ''%w: %s/%s'' [FStr (rp_category rp), FStr aid] ErrNotFound)
               else case decode_all (rp_registry rp) recs of
                 Inl err \<Rightarrow> Inl err
               | Inr events \<Rightarrow>
                   (case rehydrate (rp_name rp) (rp_apply rp) (new_aggregate (rp_zero rp)) events of
                      (a, Some err) \<Rightarrow> Inl err
                    | (a, None) \<Rightarrow> Inr a)))"

fun encode_all ::
  "('w, 'p, 'e, 's) repository \<Rightarrow> metadata \<Rightarrow> 'e list \<Rightarrow> 'p event_data list res" where
  "encode_all rp md [] = Inr []"
| "encode_all rp md (e # es) =
     (case encode (rp_name rp) (rp_marshal rp) (rp_registry rp) e of
        Inl err \<Rightarrow> Inl err
      | Inr d \<Rightarrow> (case encode_all rp md es of
                   Inl err \<Rightarrow> Inl err
                 | Inr ds \<Rightarrow> Inr (d\<lparr>ed_meta := md\<rparr> # ds)))"

text \<open>
  \<open>md\<close> is what \<open>MetadataFromContext\<close> gives, \<open>pos\<close> the captured position. The aggregate is
  mutated in place: the returned one is what the caller holds afterwards.
\<close>

definition repo_save ::
  "('w, 'p, 'e, 's) repository \<Rightarrow> metadata \<Rightarrow> int option \<Rightarrow> 'w \<Rightarrow> string \<Rightarrow> ('s, 'e) aggregate
   \<Rightarrow> 'w \<times> int option \<times> ('s, 'e) aggregate \<times> gerr option" where
  "repo_save rp md pos w aid a =
     (if uncommitted_events a = [] then (w, pos, a, None)
      else case encode_all rp md (uncommitted_events a) of
        Inl err \<Rightarrow> (w, pos, a, Some err)
      | Inr data \<Rightarrow>
          (case st_append (rp_store rp) w (rp_stream rp aid) (agg_version a) data of
             (w', Inl err) \<Rightarrow> (w', pos, a, Some err)
           | (w', Inr seq) \<Rightarrow> (w', record_position pos seq, fst (take_uncommitted a), None)))"

section \<open>Encoding and decoding streams\<close>

lemma decode_all_append:
  "decode_all r (xs @ ys) = (case decode_all r xs of Inl err \<Rightarrow> Inl err
     | Inr es \<Rightarrow> (case decode_all r ys of Inl err \<Rightarrow> Inl err | Inr fs \<Rightarrow> Inr (es @ fs)))"
  by (induction xs) (auto split: sum.splits)

lemma decode_all_length: "decode_all r recs = Inr es \<Longrightarrow> length es = length recs"
  by (induction recs arbitrary: es) (auto split: sum.splits)

lemma encode_all_length: "encode_all rp md es = Inr ds \<Longrightarrow> length ds = length es"
  by (induction es arbitrary: ds) (auto split: sum.splits)

lemma encode_all_meta: "encode_all rp md es = Inr ds \<Longrightarrow> d \<in> set ds \<Longrightarrow> ed_meta d = md"
  by (induction es arbitrary: ds) (auto split: sum.splits)

lemma decode_of_encode:
  assumes "codec_ok nm marshal r" "encode nm marshal r e = Inr d"
    and "ed_of rec = d\<lparr>ed_meta := md\<rparr>"
  shows "decode r rec = Inr e"
proof -
  from assms(2) obtain ent p where
    d: "r (nm e) = Some ent" "marshal e = Inr p"
       "d = \<lparr>ed_name = nm e, ed_schema = 1 + int (length (re_upcasters ent)), ed_payload = p,
             ed_meta = fmempty\<rparr>"
    by (auto simp: encode_ok_iff)
  with assms(1,3) show ?thesis
    unfolding decode_lifts_iff by (auto simp: ed_of_def codec_ok_def)
qed

lemma decode_all_encode_all:
  assumes "codec_ok (rp_name rp) (rp_marshal rp) (rp_registry rp)"
    and "encode_all rp md es = Inr ds" "map ed_of recs = ds"
  shows "decode_all (rp_registry rp) recs = Inr es"
  using assms(2,3)
proof (induction es arbitrary: ds recs)
  case (Cons e es)
  from Cons.prems(1) obtain d ds' where
    d: "encode (rp_name rp) (rp_marshal rp) (rp_registry rp) e = Inr d"
       "encode_all rp md es = Inr ds'" "ds = d\<lparr>ed_meta := md\<rparr> # ds'"
    by (auto split: sum.splits)
  with Cons.prems(2) obtain rec recs' where
    r: "recs = rec # recs'" "ed_of rec = d\<lparr>ed_meta := md\<rparr>" "map ed_of recs' = ds'" by auto
  show ?case
    using Cons.IH[OF d(2) r(3)] decode_of_encode[OF assms(1) d(1) r(2)] r(1) by simp
qed simp

lemma record_position_ge: "record_position (Some p) seq = Some q \<Longrightarrow> p \<le> q \<and> seq \<le> max q 0"
  by (auto simp: record_position_def position_record_def split: if_splits)

section \<open>Clients of the store port\<close>

text \<open>
  Other writers may append between any two calls: the world a call starts from only has a log
  that extends the one the last call left.
\<close>

context event_store
begin

lemma repo_load_ok:
  assumes "inv w" "rp_store rp = ops" "repo_load rp w aid = (w', Inr a)"
  shows "inv w' \<and> prefix (log w) (log w') \<and> stream_recs (log w') (rp_stream rp aid) \<noteq> [] \<and>
    (\<exists>es. decode_all (rp_registry rp) (stream_recs (log w') (rp_stream rp aid)) = Inr es \<and>
      rehydrate (rp_name rp) (rp_apply rp) (new_aggregate (rp_zero rp)) es = (a, None))"
proof -
  obtain r1 where l: "st_load ops w (rp_stream rp aid) 0 = (w', r1)"
    using assms(2,3) by (auto simp: repo_load_def split: prod.splits sum.splits)
  note ll = load_law[OF assms(1) l]
  with assms(2,3) l load_spec_all[OF log_wf[of w']] show ?thesis
    by (auto simp: repo_load_def split: sum.splits prod.splits if_splits option.splits)
qed

lemma repo_load_version:
  assumes "inv w" "rp_store rp = ops" "repo_load rp w aid = (w', Inr a)"
  shows "agg_version a = stream_version (log w') (rp_stream rp aid) \<and> agg_pending a = []"
proof -
  from repo_load_ok[OF assms] obtain es where
    "decode_all (rp_registry rp) (stream_recs (log w') (rp_stream rp aid)) = Inr es"
    "rehydrate (rp_name rp) (rp_apply rp) (new_aggregate (rp_zero rp)) es = (a, None)" by blast
  then show ?thesis
    using decode_all_length by (fastforce simp: rehydrate_ok_iff new_aggregate_def stream_version_def)
qed

lemma repo_save_ok:
  assumes "inv w" "rp_store rp = ops" "repo_save rp md pos w aid a = (w', pos', a', None)"
    and "agg_pending a \<noteq> []"
  shows "\<exists>data pre new seq. encode_all rp md (agg_pending a) = Inr data \<and>
    prefix (log w) pre \<and> log w' = pre @ new \<and>
    stream_version pre (rp_stream rp aid) = agg_version a \<and>
    appended (rp_stream rp aid) data new \<and> inv w' \<and> a' = fst (take_uncommitted a) \<and>
    seq = last_pos rec_seq (log w') \<and> pos' = record_position pos seq"
proof -
  from assms(2-4) obtain data seq where
    e: "encode_all rp md (agg_pending a) = Inr data" and
    s: "st_append ops w (rp_stream rp aid) (agg_version a) data = (w', Inr seq)"
       "a' = fst (take_uncommitted a)" "pos' = record_position pos seq"
    by (auto simp: repo_save_def uncommitted_events_def split: sum.splits prod.splits)
  have "data \<noteq> []" using encode_all_length[OF e] assms(4) by auto
  with append_law[OF assms(1) s(1)] e s(2,3) show ?thesis
    by (fastforce simp: append_spec_def)
qed

text \<open>A failed save leaves the caller's aggregate alone; the log may still have grown.\<close>

lemma repo_save_err:
  assumes "inv w" "rp_store rp = ops" "repo_save rp md pos w aid a = (w', pos', a', Some err)"
  shows "a' = a \<and> pos' = pos \<and> inv w' \<and> prefix (log w) (log w')"
  using assms append_law[OF assms(1)] append_grows[OF assms(1)]
  by (auto simp: repo_save_def split: if_splits sum.splits prod.splits)

text \<open>The stream did not move between a load and a save that succeeds.\<close>

lemma no_lost_update:
  assumes "inv w" "rp_store rp = ops" "repo_load rp w aid = (w1, Inr a)"
    and "inv w2" "prefix (log w1) (log w2)"
    and "agg_version a2 = agg_version a" "agg_pending a2 \<noteq> []"
    and "repo_save rp md pos w2 aid a2 = (w3, pos', a3, None)"
  shows "\<exists>data new. encode_all rp md (agg_pending a2) = Inr data \<and> map ed_of new = data \<and>
    stream_recs (log w3) (rp_stream rp aid) = stream_recs (log w1) (rp_stream rp aid) @ new \<and>
    inv w3"
proof -
  let ?st = "rp_stream rp aid"
  from repo_save_ok[OF assms(4,2,8,7)] obtain data pre new where
    s: "encode_all rp md (agg_pending a2) = Inr data" "prefix (log w2) pre" "log w3 = pre @ new"
       "stream_version pre ?st = agg_version a2" "appended ?st data new" "inv w3" by blast
  have p: "prefix (log w1) pre" using assms(5) s(2) by (rule prefix_order.trans)
  have "agg_version a = stream_version (log w1) ?st" using repo_load_version[OF assms(1-3)] by simp
  with s(4) assms(6) have "length (stream_recs (log w1) ?st) = length (stream_recs pre ?st)"
    by (simp add: stream_version_def)
  then have "stream_recs (log w1) ?st = stream_recs pre ?st"
    using prefix_filter_eq[OF p] by (simp add: stream_recs_def)
  moreover have "stream_recs (log w3) ?st = stream_recs pre ?st @ new"
    using s(3,5) by (simp add: stream_recs_append appended_recs)
  ultimately show ?thesis using s by (auto simp: appended_def)
qed

text \<open>What was saved is what the next load sees, as long as nobody else writes the stream.\<close>

lemma save_then_load:
  assumes "inv w" "rp_store rp = ops" "repo_load rp w aid = (w1, Inr a)"
    and "inv w2" "prefix (log w1) (log w2)"
    and "agg_life (rp_name rp) (rp_apply rp) (rp_zero rp) c a2"
    and "agg_version a2 = agg_version a" "agg_pending a2 \<noteq> []"
    and "decode_all (rp_registry rp) (stream_recs (log w1) (rp_stream rp aid)) = Inr c"
    and "codec_ok (rp_name rp) (rp_marshal rp) (rp_registry rp)"
    and "repo_save rp md pos w2 aid a2 = (w3, pos', a3, None)"
    and "repo_load rp w3 aid = (w4, r)" "stream_recs (log w4) (rp_stream rp aid) = stream_recs (log w3) (rp_stream rp aid)"
  shows "case r of Inr a4 \<Rightarrow> a4 = a3 | Inl err \<Rightarrow> \<exists>w5. st_load ops w3 (rp_stream rp aid) 0 = (w5, Inl err)"
proof -
  let ?st = "rp_stream rp aid"
  from no_lost_update[OF assms(1-5,7,8,11)] obtain data new where
    n: "encode_all rp md (agg_pending a2) = Inr data" "map ed_of new = data" "inv w3"
       "stream_recs (log w3) ?st = stream_recs (log w1) ?st @ new" by blast
  have dec: "decode_all (rp_registry rp) (stream_recs (log w3) ?st) = Inr (c @ agg_pending a2)"
    using assms(9) decode_all_encode_all[OF assms(10) n(1,2)] by (simp add: n(4) decode_all_append)
  have "new \<noteq> []" using encode_all_length[OF n(1)] n(2) assms(8) by auto
  then have ne: "stream_recs (log w3) ?st \<noteq> []" by (simp add: n(4))
  have a3: "a3 = fst (take_uncommitted a2)"
    using repo_save_ok[OF assms(4,2,11,8)] by blast
  obtain r1 where l: "st_load ops w3 ?st 0 = (w4, r1)"
    using assms(2,12) by (auto simp: repo_load_def split: prod.splits sum.splits)
  have life: "replay (rp_apply rp) (rp_zero rp) (c @ agg_pending a2) = Some (agg_state a2)"
      "agg_version a2 = int (length c)"
    using agg_life_inv[OF assms(6)] by (auto simp: agg_inv_def)
  have reh: "rehydrate (rp_name rp) (rp_apply rp) (new_aggregate (rp_zero rp)) (c @ agg_pending a2) = (a3, None)"
    using life a3 by (subst rehydrate_replay[where s = "agg_state a2"])
      (auto simp: new_aggregate_def take_uncommitted_def)
  show ?thesis
  proof (cases r1)
    case (Inl err)
    then show ?thesis using l assms(2,12) by (auto simp: repo_load_def)
  next
    case (Inr recs)
    then have "recs = stream_recs (log w3) ?st"
      using load_law[OF n(3) l] load_spec_all[OF log_wf[of w4]] assms(13) by simp
    with Inr l dec ne reh assms(2,12) show ?thesis by (auto simp: repo_load_def)
  qed
qed

end


section \<open>Properties\<close>

text \<open>
  C39. Optimistic concurrency end to end: an aggregate loaded from the store and saved after
  other writers had their turn is stored only if its stream did not move in between. Then
  the stream is what was loaded followed by exactly the encoded pending events, each with the
  context's metadata; the captured position becomes the store's head when that is further;
  the aggregate's events are committed. Otherwise the save answers a retryable version
  conflict, stores nothing, and the caller keeps its pending events and position.
\<close>

theorem repo_save_optimistic:
  assumes "mem_inv w" "rp_store rp = mem_ops now" "repo_load rp w aid = (w1, Inr a)"
    and "mem_inv w2" "prefix (ms_all w1) (ms_all w2)"
    and "agg_version a2 = agg_version a" "uncommitted_events a2 \<noteq> []"
    and "encode_all rp md (uncommitted_events a2) = Inr data"
  shows "case repo_save rp md pos w2 aid a2 of (w3, pos', a3, err) \<Rightarrow>
    if stream_recs (ms_all w2) (rp_stream rp aid) = stream_recs (ms_all w1) (rp_stream rp aid)
    then err = None \<and> a3 = fst (take_uncommitted a2) \<and>
         pos' = record_position pos (mem_head w3) \<and>
         (\<exists>new. ms_all w3 = ms_all w2 @ new \<and> map ed_of new = data \<and>
            (\<forall>r\<in>set new. rec_meta r = md) \<and>
            stream_recs (ms_all w3) (rp_stream rp aid) =
              stream_recs (ms_all w1) (rp_stream rp aid) @ new)
    else w3 = w2 \<and> pos' = pos \<and> a3 = a2 \<and>
         (\<exists>e. err = Some e \<and> errors_is e ErrVersionConflict \<and> \<not> is_domain e)"
proof -
  let ?st = "rp_stream rp aid"
  have v: "agg_version a2 = stream_version (ms_all w1) ?st"
    using mem_store.repo_load_version[OF assms(1-3)] assms(6) by simp
  have same: "stream_recs (ms_all w2) ?st = stream_recs (ms_all w1) ?st \<longleftrightarrow>
      stream_version (ms_all w2) ?st = agg_version a2"
  proof
    assume "stream_version (ms_all w2) ?st = agg_version a2"
    then have "length (stream_recs (ms_all w1) ?st) = length (stream_recs (ms_all w2) ?st)"
      using v by (simp add: stream_version_def)
    then show "stream_recs (ms_all w2) ?st = stream_recs (ms_all w1) ?st"
      unfolding stream_recs_def using prefix_filter_eq[OF assms(5)] by metis
  qed (simp add: v stream_version_def)
  have ne: "data \<noteq> []" using encode_all_length[OF assms(8)] assms(7) by auto
  show ?thesis
  proof (cases "stream_version (ms_all w2) ?st = agg_version a2")
    case True
    with mem_append_ok[OF assms(4) ne, of ?st "agg_version a2" now] obtain w3 new where
      w3: "mem_append now w2 ?st (agg_version a2) data = (w3, Inr (mem_head w3))"
        "ms_all w3 = ms_all w2 @ new" "appended ?st data new"
      by (auto simp: mem_head_last)
    have "stream_recs (ms_all w3) ?st = stream_recs (ms_all w2) ?st @ new"
      using w3 by (simp add: stream_recs_append appended_recs)
    moreover have "rec_meta r = md" if "r \<in> set new" for r
      using encode_all_meta[OF assms(8), of "ed_of r"] that w3(3)
      by (auto simp: appended_def ed_of_def)
    ultimately show ?thesis
      using w3 True same assms(2,7,8) by (auto simp: repo_save_def mem_ops_def appended_def)
  next
    case False
    with mem_append_conflict[OF assms(4) ne] same assms(2,7,8) show ?thesis
      by (auto simp: repo_save_def mem_ops_def)
  qed
qed

text \<open>
  Saving is lossless: when every event's JSON decodes to the event again, the aggregate a
  successful save leaves behind (same state, version advanced, nothing pending) is exactly
  the one the next load rebuilds from the stream, whatever other streams received meanwhile.
\<close>

theorem repo_save_load_roundtrip:
  assumes "mem_inv w" "rp_store rp = mem_ops now" "repo_load rp w aid = (w1, Inr a)"
    and "mem_inv w2" "prefix (ms_all w1) (ms_all w2)"
    and "decode_all (rp_registry rp) (stream_recs (ms_all w1) (rp_stream rp aid)) = Inr c"
    and "agg_life (rp_name rp) (rp_apply rp) (rp_zero rp) c a2"
    and "agg_version a2 = agg_version a" "uncommitted_events a2 \<noteq> []"
    and "codec_ok (rp_name rp) (rp_marshal rp) (rp_registry rp)"
    and "repo_save rp md pos w2 aid a2 = (w3, pos', a3, None)"
  shows "repo_load rp w3 aid = (w3, Inr a3) \<and> agg_state a3 = agg_state a2 \<and> agg_pending a3 = []"
proof -
  have p: "agg_pending a2 \<noteq> []" using assms(9) by (simp add: uncommitted_events_def)
  obtain r where r: "repo_load rp w3 aid = (w3, r)"
    using assms(2) by (auto simp: repo_load_def mem_ops_def)
  have "r = Inr a3"
    using mem_store.save_then_load[OF assms(1-5,7,8) p assms(6,10,11) r] assms(2)
    by (auto simp: mem_ops_def split: sum.splits)
  moreover have "a3 = fst (take_uncommitted a2)"
    using mem_store.repo_save_ok[OF assms(4,2,11) p] by blast
  ultimately show ?thesis using r by (simp add: take_uncommitted_def)
qed

text \<open>Witness material: a counter repository over one stored event.\<close>

definition demo_repo :: "(int mem_store, int, int, int) repository" where
  "demo_repo = \<lparr>rp_store = mem_ops 7, rp_registry = demo_registry, rp_category = ''order'',
     rp_zero = 0, rp_name = (\<lambda>_. ''counted''), rp_apply = demo_apply, rp_marshal = (\<lambda>e. Inr e)\<rparr>"

definition demo_world :: "int mem_store" where
  "demo_world = \<lparr>ms_all = [demo_rec], ms_streams = [demo_stream \<mapsto> [0]]\<rparr>"

definition demo_agg :: "int list \<Rightarrow> (int, int) aggregate" where
  "demo_agg es = \<lparr>agg_version = 1, agg_pending = es, agg_state = 21 + sum_list es\<rparr>"

lemma demo_world_inv: "mem_inv demo_world"
  by (auto simp: mem_inv_def demo_world_def wf_log_def pos_log_def stream_recs_def demo_rec_def)

lemma demo_load: "repo_load demo_repo demo_world ''42'' = (demo_world, Inr (demo_agg []))"
  by (simp add: repo_load_def demo_repo_def mem_ops_def mem_load_def demo_world_def rp_stream_def
      demo_stream_def demo_rec_def decode_def demo_registry_def lift_loop.simps rehydrate_def
      new_aggregate_def demo_apply_def demo_agg_def)

lemma demo_codec: "codec_ok (rp_name demo_repo) (rp_marshal demo_repo) (rp_registry demo_repo)"
  by (auto simp: codec_ok_def demo_repo_def demo_registry_def)

lemma demo_encode:
  "encode_all demo_repo fmempty [4] = Inr [\<lparr>ed_name = ''counted'', ed_schema = 1, ed_payload = 4, ed_meta = fmempty\<rparr>]"
  by (simp add: encode_def demo_repo_def schema_version_def demo_registry_def)

definition demo_other :: "int mem_store" where
  "demo_other = fst (mem_append 7 demo_world demo_stream 1 [demo_data ''counted''])"

lemma demo_other_inv: "mem_inv demo_other" "prefix (ms_all demo_world) (ms_all demo_other)"
  using mem_append_meets_spec[OF demo_world_inv, of 7 demo_stream 1 "[demo_data ''counted'']"]
    append_spec_prefix
  by (cases "mem_append 7 demo_world demo_stream 1 [demo_data ''counted'']"; fastforce simp: demo_other_def)+

theorem repo_save_optimistic_witness:
  "(\<exists>w a. repo_save demo_repo fmempty (Some 0) demo_world ''42'' (demo_agg [4]) = (w, Some 2, a, None)) \<and>
   (\<exists>e. repo_save demo_repo fmempty (Some 0) demo_other ''42'' (demo_agg [4]) =
      (demo_other, Some 0, demo_agg [4], Some e) \<and> errors_is e ErrVersionConflict)"
proof -
  have s: "rp_store demo_repo = mem_ops 7" "rp_stream demo_repo ''42'' = demo_stream"
    by (simp_all add: demo_repo_def rp_stream_def demo_stream_def)
  have a: "agg_version (demo_agg [4]) = agg_version (demo_agg [])"
    "uncommitted_events (demo_agg [4]) = [4]"
    by (simp_all add: demo_agg_def uncommitted_events_def)
  have r1: "stream_recs (ms_all demo_world) demo_stream = [demo_rec]"
    by (simp add: demo_world_def stream_recs_def demo_rec_def)
  have r2: "stream_recs (ms_all demo_other) demo_stream \<noteq> [demo_rec]"
    by (simp add: demo_other_def mem_append_def demo_world_def mem_record_def stream_recs_def demo_rec_def)
  have e: "encode_all demo_repo fmempty (uncommitted_events (demo_agg [4])) =
      Inr [\<lparr>ed_name = ''counted'', ed_schema = 1, ed_payload = 4, ed_meta = fmempty\<rparr>]"
    unfolding a(2) by (rule demo_encode)
  have ne: "uncommitted_events (demo_agg [4]) \<noteq> []" using a(2) by simp
  have p: "prefix (ms_all demo_world) (ms_all demo_world)" by simp
  note opt1 = repo_save_optimistic[OF demo_world_inv s(1) demo_load demo_world_inv p a(1) ne e, of "Some 0"]
  note opt2 = repo_save_optimistic[OF demo_world_inv s(1) demo_load demo_other_inv a(1) ne e, of "Some 0"]
  have "fst (repo_save demo_repo fmempty (Some 0) demo_world ''42'' (demo_agg [4])) =
      fst (mem_append 7 demo_world demo_stream 1
        [\<lparr>ed_name = ''counted'', ed_schema = 1, ed_payload = 4, ed_meta = fmempty\<rparr>])"
    using demo_encode a(2) s
    by (simp add: repo_save_def mem_ops_def demo_agg_def split: prod.splits sum.splits)
  then have h: "mem_head (fst (repo_save demo_repo fmempty (Some 0) demo_world ''42'' (demo_agg [4]))) = 2"
    by (simp add: mem_head_def mem_append_def demo_world_def mem_record_def)
  from opt1 h have
    "\<exists>w a. repo_save demo_repo fmempty (Some 0) demo_world ''42'' (demo_agg [4]) = (w, Some 2, a, None)"
    by (auto simp: record_position_def position_record_def split: prod.splits)
  moreover from opt2 r1 r2 s(2) have
    "\<exists>e. repo_save demo_repo fmempty (Some 0) demo_other ''42'' (demo_agg [4]) =
      (demo_other, Some 0, demo_agg [4], Some e) \<and> errors_is e ErrVersionConflict"
    by (auto split: prod.splits)
  ultimately show ?thesis by blast
qed

theorem repo_save_load_roundtrip_witness:
  "\<exists>w a. repo_save demo_repo fmempty None demo_world ''42'' (demo_agg [4]) = (w, None, a, None) \<and>
     repo_load demo_repo w ''42'' = (w, Inr a) \<and> agg_state a = 25"
proof -
  have st: "rp_store demo_repo = mem_ops 7" by (simp add: demo_repo_def)
  have p: "prefix (ms_all demo_world) (ms_all demo_world)" by simp
  have dec: "decode_all (rp_registry demo_repo)
      (stream_recs (ms_all demo_world) (rp_stream demo_repo ''42'')) = Inr [21]"
    by (simp add: demo_world_def stream_recs_def demo_rec_def demo_repo_def rp_stream_def
        demo_stream_def decode_def demo_registry_def lift_loop.simps)
  have l0: "agg_life (rp_name demo_repo) (rp_apply demo_repo) (rp_zero demo_repo) [21] (demo_agg [])"
    by (rule agg_life.loaded)
      (simp add: rehydrate_def new_aggregate_def demo_apply_def demo_agg_def demo_repo_def)
  have life: "agg_life (rp_name demo_repo) (rp_apply demo_repo) (rp_zero demo_repo) [21] (demo_agg [4])"
    by (rule agg_life.raised[OF l0, where e = 4])
      (simp add: raise_event_def demo_apply_def demo_agg_def demo_repo_def)
  obtain w a where sv: "repo_save demo_repo fmempty None demo_world ''42'' (demo_agg [4]) = (w, None, a, None)"
    using demo_encode st
    by (auto simp: repo_save_def uncommitted_events_def demo_agg_def mem_ops_def mem_append_def
        demo_world_def rp_stream_def demo_stream_def demo_repo_def record_position_def)
  have v: "agg_version (demo_agg [4]) = agg_version (demo_agg [])" "uncommitted_events (demo_agg [4]) \<noteq> []"
    by (simp_all add: demo_agg_def uncommitted_events_def)
  from repo_save_load_roundtrip[OF demo_world_inv st demo_load demo_world_inv p dec life v demo_codec sv]
    sv show ?thesis by (auto simp: demo_agg_def)
qed

end
