(* ===== verification/Redelivery.thy ===== *)
theory Redelivery
  imports Prelude
begin

text \<open>
  At-least-once delivery as a specification. A sender that restarts from a durable position
  sends chunks of its source list, each of which starts no later than what it has already
  covered. The relay's publishing, a subscription's deliveries and a projection's applications
  all have this shape; a receiver that drops known keys turns it back into the source.
\<close>

text \<open>\<open>redelivered xs n ys\<close>: \<open>ys\<close> was delivered from \<open>xs\<close> and covers its first \<open>n\<close> entries.\<close>

inductive redelivered :: "'a list \<Rightarrow> nat \<Rightarrow> 'a list \<Rightarrow> bool" for xs where
  start: "redelivered xs 0 []"
| chunk: "redelivered xs n ys \<Longrightarrow> i \<le> n \<Longrightarrow> j \<le> length xs \<Longrightarrow>
    redelivered xs (max n j) (ys @ drop i (take j xs))"

inductive_cases redelivered_cases: "redelivered xs n ys"

lemma redelivered_Nil [simp]: "redelivered [] n ys \<longleftrightarrow> n = 0 \<and> ys = []"
proof
  show "redelivered [] n ys \<Longrightarrow> n = 0 \<and> ys = []" by (induction rule: redelivered.induct) auto
qed (auto intro: redelivered.start)

lemma redelivered_le: "redelivered xs n ys \<Longrightarrow> n \<le> length xs"
  by (induction rule: redelivered.induct) auto

lemma redelivered_append: "redelivered xs n ys \<Longrightarrow> redelivered (xs @ zs) n ys"
proof (induction rule: redelivered.induct)
  case (chunk n ys i j)
  from redelivered.chunk[OF chunk.IH chunk.hyps(2), of j] chunk.hyps(3) show ?case by simp
qed (rule redelivered.start)

lemma redelivered_prefix: "redelivered xs n ys \<Longrightarrow> prefix xs xs' \<Longrightarrow> redelivered xs' n ys"
  by (auto simp: prefix_def redelivered_append)

text \<open>A chunk given by its neighbours in the source.\<close>

lemma redelivered_chunk:
  assumes "redelivered (pre @ mid @ post) n ys" "length pre \<le> n"
  shows "redelivered (pre @ mid @ post) (max n (length pre + length mid)) (ys @ mid)"
  using redelivered.chunk[OF assms, of "length pre + length mid"] by simp

lemma redelivered_set: "redelivered xs n ys \<Longrightarrow> set ys = set (take n xs)"
proof (induction rule: redelivered.induct)
  case (chunk n ys i j)
  have "set (drop i (take j xs)) \<subseteq> set (take (max n j) xs)"
    using set_take_subset_set_take[of j "max n j" xs] set_drop_subset[of i "take j xs"] by simp
  moreover have "set (take (max n j) xs) \<subseteq> set (take n xs) \<union> set (drop i (take j xs))"
  proof (cases "n \<le> j")
    case True
    have "take j xs = take n xs @ drop n (take j xs)"
      using append_take_drop_id[of n "take j xs"] True by (simp add: min_def)
    moreover have "set (drop n (take j xs)) \<subseteq> set (drop i (take j xs))"
      using chunk.hyps(2) by (simp add: set_drop_subset_set_drop)
    ultimately show ?thesis using True by (metis Un_mono max_absorb2 order_refl set_append)
  qed (simp add: max_def)
  moreover have "set (take n xs) \<subseteq> set (take (max n j) xs)"
    by (simp add: set_take_subset_set_take)
  ultimately show ?case using chunk.IH by auto
qed simp

lemma redelivered_map: "redelivered xs n ys \<Longrightarrow> redelivered (map f xs) n (map f ys)"
proof (induction rule: redelivered.induct)
  case (chunk n ys i j)
  from redelivered.chunk[OF chunk.IH chunk.hyps(2), of j] chunk.hyps(3) show ?case
    by (simp add: drop_map take_map)
qed (simp add: redelivered.start)

text \<open>Whoever has read part of a redelivery has itself a redelivery, of no more.\<close>

lemma redelivered_take: "redelivered xs n ys \<Longrightarrow> \<exists>m\<le>n. redelivered xs m (take k ys)"
proof (induction rule: redelivered.induct)
  case start
  then show ?case using redelivered.start by force
next
  case (chunk n ys i j)
  show ?case
  proof (cases "k \<le> length ys")
    case True
    from chunk.IH obtain m where "m \<le> n" "redelivered xs m (take k ys)" by blast
    with True show ?thesis by (intro exI[of _ m]) simp
  next
    case False
    let ?j = "min j (i + (k - length ys))"
    have "take k (ys @ drop i (take j xs)) = ys @ drop i (take ?j xs)"
      using False by (simp add: take_drop min.commute add.commute)
    moreover have "redelivered xs (max n ?j) (ys @ drop i (take ?j xs))"
      using redelivered.chunk[OF chunk.hyps(1,2), of ?j] chunk.hyps(3) by simp
    ultimately show ?thesis by (intro exI[of _ "max n ?j"]) auto
  qed
qed

section \<open>Keeping the first of each key\<close>

text \<open>What a receiver that ignores known keys keeps.\<close>

fun firsts :: "('a \<Rightarrow> 'k) \<Rightarrow> 'a list \<Rightarrow> 'a list" where
  "firsts f [] = []"
| "firsts f (x # xs) = x # filter (\<lambda>y. f y \<noteq> f x) (firsts f xs)"

lemma firsts_keys [simp]: "f ` set (firsts f xs) = f ` set xs"
proof (induction xs)
  case (Cons x xs)
  have "f ` set (filter (\<lambda>y. f y \<noteq> f x) (firsts f xs)) = f ` set (firsts f xs) - {f x}" by auto
  with Cons show ?case by auto
qed simp

lemma set_firsts: "set (firsts f xs) \<subseteq> set xs"
  by (induction xs) auto

lemma filter_filter_notin:
  "filter (\<lambda>z. f z \<notin> K) (filter (\<lambda>z. f z \<noteq> k) zs) = filter (\<lambda>z. f z \<notin> insert k K) zs"
  by (simp add: conj_commute)

lemma firsts_append:
  "firsts f (xs @ ys) = firsts f xs @ filter (\<lambda>z. f z \<notin> f ` set xs) (firsts f ys)"
proof (induction xs)
  case (Cons x xs)
  have "filter (\<lambda>z. f z \<noteq> f x) (filter (\<lambda>z. f z \<notin> f ` set xs) (firsts f ys)) =
        filter (\<lambda>z. f z \<notin> f ` set (x # xs)) (firsts f ys)"
    by (simp add: conj_commute)
  with Cons show ?case by simp
qed simp

lemma firsts_snoc:
  "firsts f (xs @ [x]) = (if f x \<in> f ` set xs then firsts f xs else firsts f xs @ [x])"
  by (simp add: firsts_append)

lemma firsts_distinct_keys: "distinct (map f (firsts f xs))"
  by (induction xs) (auto simp: distinct_map intro: inj_on_subset)

lemma firsts_id: "distinct (map f xs) \<Longrightarrow> firsts f xs = xs"
proof (induction xs)
  case (Cons x xs)
  then have "filter (\<lambda>y. f y \<noteq> f x) xs = xs" by (intro filter_True) (auto simp: image_iff)
  with Cons show ?case by simp
qed simp

lemma filter_known_empty:
  assumes "f ` set xs \<subseteq> K" shows "filter (\<lambda>z. f z \<notin> K) (firsts f xs) = []"
  using assms set_firsts[of f xs] by (auto simp: filter_empty_conv)

text \<open>Dropping known keys undoes redelivery.\<close>

lemma firsts_redelivered: "redelivered xs n ys \<Longrightarrow> firsts f ys = firsts f (take n xs)"
proof (induction rule: redelivered.induct)
  case (chunk n ys i j)
  let ?K = "f ` set (take n xs)"
  have K: "f ` set ys = ?K" using redelivered_set[OF chunk.hyps(1)] by simp
  show ?case
  proof (cases "j \<le> n")
    case True
    have "set (drop i (take j xs)) \<subseteq> set (take n xs)"
      using set_drop_subset[of i "take j xs"] set_take_subset_set_take[OF True, of xs] by simp
    then have "f ` set (drop i (take j xs)) \<subseteq> ?K" by (rule image_mono)
    from filter_known_empty[OF this] show ?thesis
      unfolding firsts_append K using chunk.IH True by (simp add: max_def)
  next
    case False
    let ?a = "drop i (take n xs)" and ?b = "drop n (take j xs)"
    have ab: "drop i (take j xs) = ?a @ ?b"
    proof -
      have "take j xs = take n xs @ ?b"
        using append_take_drop_id[of n "take j xs"] False by (simp add: min_def)
      moreover have "i \<le> length (take n xs)" using chunk.hyps(2) redelivered_le[OF chunk.hyps(1)] by simp
      ultimately show ?thesis by (metis drop_append diff_is_0_eq drop0)
    qed
    have aK: "f ` set ?a \<subseteq> ?K" by (rule image_mono) (rule set_drop_subset)
    have "filter (\<lambda>z. f z \<notin> ?K) (firsts f (?a @ ?b)) = filter (\<lambda>z. f z \<notin> ?K) (firsts f ?b)"
    proof -
      have "filter (\<lambda>z. f z \<notin> ?K) (filter (\<lambda>z. f z \<notin> f ` set ?a) (firsts f ?b)) =
            filter (\<lambda>z. f z \<notin> ?K) (firsts f ?b)"
        using aK by (auto simp: filter_filter intro!: filter_cong)
      then show ?thesis
        by (simp add: firsts_append filter_known_empty[OF aK] del: filter_filter)
    qed
    moreover have "firsts f (take j xs) = firsts f (take n xs) @ filter (\<lambda>z. f z \<notin> ?K) (firsts f ?b)"
    proof -
      have "take j xs = take n xs @ ?b"
        using append_take_drop_id[of n "take j xs"] False by (simp add: min_def)
      then show ?thesis using firsts_append[of f "take n xs" ?b] by simp
    qed
    ultimately show ?thesis
      unfolding firsts_append K ab using chunk.IH False by (simp add: max_def)
  qed
qed simp

text \<open>When the source has no key twice, what is kept is a beginning of the source.\<close>

lemma firsts_redelivered_id:
  assumes "redelivered xs n ys" "distinct (map f xs)" shows "firsts f ys = take n xs"
proof -
  have "distinct (map f (take n xs))" using assms(2) by (simp add: take_map [symmetric])
  then show ?thesis unfolding firsts_redelivered[OF assms(1)] by (rule firsts_id)
qed

lemma firsts_take_redelivered:
  assumes "redelivered xs n ys" "distinct (map f xs)"
  shows "\<exists>m\<le>n. firsts f (take k ys) = take m xs"
  using redelivered_take[OF assms(1), of k] firsts_redelivered_id[OF _ assms(2)] by blast

end
