(* ===== verification/Broker.thy ===== *)
theory Broker
  imports EventStore Redelivery
begin

text \<open>
  The messaging port (\<open>broker/broker.go\<close>) and the in-memory broker (\<open>broker/memory.go\<close>): the
  message envelope, publishing, and a subscription as the loop that hands one message at a
  time to its handler and advances the group's offset after a success. A handler acts on the
  world the broker lives in, so the loop is given how to reach the broker there.
\<close>

section \<open>Messages\<close>

record 'p message =
  m_id :: string
  m_key :: string
  m_type :: string
  m_version :: int
  m_at :: instant
  m_payload :: 'p
  m_meta :: metadata

text \<open>
  An integration event is what the code uses of its interface value: the name, the contract
  version and its \<open>json.Marshal\<close>.
\<close>

record 'p integration_event =
  ie_name :: string
  ie_version :: int
  ie_json :: "'p res"

definition new_message ::
  "string \<Rightarrow> string \<Rightarrow> instant \<Rightarrow> 'p integration_event \<Rightarrow> metadata \<Rightarrow> 'p message res" where
  "new_message mid key occurred_at e md =
     (case ie_json e of
        Inl err \<Rightarrow> Inl (Wrapf ''broker: encoding %s: %w'' [FStr (ie_name e)] err)
      | Inr payload \<Rightarrow> Inr \<lparr>m_id = mid, m_key = key, m_type = ie_name e, m_version = ie_version e,
                           m_at = occurred_at, m_payload = payload, m_meta = md\<rparr>)"

type_synonym ('w, 'p) publish = "'w \<Rightarrow> string \<Rightarrow> 'p message list \<Rightarrow> 'w \<times> gerr option"
type_synonym ('w, 'p) msg_handler = "'w \<Rightarrow> 'p message \<Rightarrow> 'w \<times> gerr option"

section \<open>The in-memory broker\<close>

record 'p mem_broker =
  mb_topics :: "string \<rightharpoonup> 'p message list"
  mb_offsets :: "(string \<times> string) \<rightharpoonup> nat"
  mb_active :: "(string \<times> string) \<rightharpoonup> bool"

definition new_mem_broker :: "'p mem_broker" where
  "new_mem_broker = \<lparr>mb_topics = Map.empty, mb_offsets = Map.empty, mb_active = Map.empty\<rparr>"

definition mb_publish :: "'p mem_broker \<Rightarrow> string \<Rightarrow> 'p message list \<Rightarrow> 'p mem_broker" where
  "mb_publish b topic msgs = b\<lparr>mb_topics := (mb_topics b)(topic \<mapsto> mget [] (mb_topics b) topic @ msgs)\<rparr>"

text \<open>The three critical sections of the subscription loop.\<close>

definition mb_enter :: "'p mem_broker \<Rightarrow> string \<Rightarrow> string \<Rightarrow> 'p mem_broker res" where
  "mb_enter b topic grp =
     (if mget False (mb_active b) (topic, grp)
      then Inl (Errorf ''broker: group %q already has an active member on topic %q''
                  [FStr grp, FStr topic])
      else Inr (b\<lparr>mb_active := (mb_active b)((topic, grp) \<mapsto> True)\<rparr>))"

definition mb_leave :: "'p mem_broker \<Rightarrow> string \<Rightarrow> string \<Rightarrow> 'p mem_broker" where
  "mb_leave b topic grp = b\<lparr>mb_active := (mb_active b)((topic, grp) := None)\<rparr>"

definition mb_next :: "'p mem_broker \<Rightarrow> string \<Rightarrow> string \<Rightarrow> nat \<times> 'p message option" where
  "mb_next b topic grp =
     (let offset = mget 0 (mb_offsets b) (topic, grp); log = mget [] (mb_topics b) topic
      in (offset, if offset < length log then Some (log ! offset) else None))"

definition mb_commit :: "'p mem_broker \<Rightarrow> string \<Rightarrow> string \<Rightarrow> nat \<Rightarrow> 'p mem_broker" where
  "mb_commit b topic grp offset =
     b\<lparr>mb_offsets := (mb_offsets b)((topic, grp) \<mapsto> offset + 1)\<rparr>"

text \<open>Where the broker lives in the world.\<close>

record ('w, 'p) broker_at =
  ba_get :: "'w \<Rightarrow> 'p mem_broker"
  ba_put :: "'p mem_broker \<Rightarrow> 'w \<Rightarrow> 'w"

text \<open>
  The loop of \<open>Subscribe\<close>. Without fuel left it is still running (\<open>None\<close>). The cursor is
  read again in every round, and advanced from the value read before the handler ran.
\<close>

fun mb_subscribe_loop ::
  "nat \<Rightarrow> 'w ctx_ops \<Rightarrow> ('w, 'p) broker_at \<Rightarrow> string \<Rightarrow> string \<Rightarrow> ('w, 'p) msg_handler \<Rightarrow> 'w \<Rightarrow> 'w option" where
  "mb_subscribe_loop 0 ctx ba topic grp handler w = None"
| "mb_subscribe_loop (Suc n) ctx ba topic grp handler w =
     (case ctx_err ctx w of
        (w1, True) \<Rightarrow> Some w1
      | (w1, False) \<Rightarrow>
          (case mb_next (ba_get ba w1) topic grp of
             (offset, None) \<Rightarrow>
               (case ctx_sleep ctx w1 of
                  (w2, False) \<Rightarrow> Some w2
                | (w2, True) \<Rightarrow> mb_subscribe_loop n ctx ba topic grp handler w2)
           | (offset, Some msg) \<Rightarrow>
               (case handler w1 msg of
                  (w2, Some err) \<Rightarrow>
                    (case ctx_sleep ctx w2 of
                       (w3, False) \<Rightarrow> Some w3
                     | (w3, True) \<Rightarrow> mb_subscribe_loop n ctx ba topic grp handler w3)
                | (w2, None) \<Rightarrow>
                    mb_subscribe_loop n ctx ba topic grp handler
                      (ba_put ba (mb_commit (ba_get ba w2) topic grp offset) w2))))"

definition mb_subscribe ::
  "nat \<Rightarrow> 'w ctx_ops \<Rightarrow> ('w, 'p) broker_at \<Rightarrow> string \<Rightarrow> string \<Rightarrow> ('w, 'p) msg_handler \<Rightarrow> 'w
   \<Rightarrow> ('w \<times> gerr option) option" where
  "mb_subscribe n ctx ba topic grp handler w =
     (case mb_enter (ba_get ba w) topic grp of
        Inl err \<Rightarrow> Some (w, Some err)
      | Inr b \<Rightarrow>
          map_option (\<lambda>w'. (ba_put ba (mb_leave (ba_get ba w') topic grp) w', None))
            (mb_subscribe_loop n ctx ba topic grp handler (ba_put ba b w)))"

lemma mb_topics_simps [simp]:
  "mget [] (mb_topics (mb_publish b t ms)) t' = mget [] (mb_topics b) t' @ (if t' = t then ms else [])"
  "mb_topics (mb_commit b t g k) = mb_topics b" "mb_topics (mb_leave b t g) = mb_topics b"
  "mb_offsets (mb_publish b t ms) = mb_offsets b" "mb_offsets (mb_leave b t g) = mb_offsets b"
  by (simp_all add: mb_publish_def mb_commit_def mb_leave_def)

lemma mb_enter_simps:
  "mb_enter b t g = Inr b' \<Longrightarrow> mb_topics b' = mb_topics b \<and> mb_offsets b' = mb_offsets b"
  by (auto simp: mb_enter_def split: if_splits)

lemma mb_next_Some:
  "mb_next b t g = (k, Some m) \<longleftrightarrow>
   k = mget 0 (mb_offsets b) (t, g) \<and> k < length (mget [] (mb_topics b) t) \<and>
   m = mget [] (mb_topics b) t ! k"
  by (auto simp: mb_next_def Let_def)

section \<open>The publishing contract\<close>

text \<open>
  A nil error means every message was accepted, in order; with an error the broker may have
  accepted some first part of them.
\<close>

locale publisher =
  fixes publish :: "('w, 'p) publish"
    and topic_log :: "'w \<Rightarrow> string \<Rightarrow> 'p message list"
    and pinv :: "'w \<Rightarrow> bool"
  assumes publish_law: "pinv w \<Longrightarrow> publish w topic msgs = (w', r) \<Longrightarrow>
          pinv w' \<and> (\<exists>k. topic_log w' = (topic_log w)(topic := topic_log w topic @ take k msgs) \<and>
                      (r = None \<longrightarrow> length msgs \<le> k))"
begin

lemma publish_ok:
  "pinv w \<Longrightarrow> publish w topic msgs = (w', None) \<Longrightarrow>
   pinv w' \<and> topic_log w' = (topic_log w)(topic := topic_log w topic @ msgs)"
  using publish_law[of w topic msgs w' None] by fastforce

lemma publish_other:
  "pinv w \<Longrightarrow> publish w topic msgs = (w', r) \<Longrightarrow> t \<noteq> topic \<Longrightarrow> topic_log w' t = topic_log w t"
  using publish_law[of w topic msgs w' r] by auto

end

definition mem_publish :: "('p mem_broker, 'p) publish" where
  "mem_publish b topic msgs = (mb_publish b topic msgs, None)"

lemma mem_publish_topics:
  "mget [] (mb_topics (mb_publish b topic msgs)) =
   (mget [] (mb_topics b))(topic := mget [] (mb_topics b) topic @ msgs)"
  by (simp add: fun_eq_iff)

interpretation mem_publisher: publisher mem_publish "\<lambda>b. mget [] (mb_topics b)" "\<lambda>_. True"
  by unfold_locales (metis mem_publish_def mem_publish_topics order_refl prod.inject take_all)

section \<open>The subscription contract\<close>

text \<open>
  What a consumer group's offset means. \<open>settled w m\<close> is whatever the handler's nil result
  stands for; it must outlast everything that happens later. Handlers and the environment
  leave the group's offset alone and only append to the topic.
\<close>

definition group_kept ::
  "('w, 'p) broker_at \<Rightarrow> string \<Rightarrow> string \<Rightarrow> ('w \<Rightarrow> 'p message \<Rightarrow> bool) \<Rightarrow> 'w \<Rightarrow> 'w \<Rightarrow> bool" where
  "group_kept ba t g settled w w' \<longleftrightarrow>
     mget 0 (mb_offsets (ba_get ba w')) (t, g) = mget 0 (mb_offsets (ba_get ba w)) (t, g) \<and>
     prefix (mget [] (mb_topics (ba_get ba w)) t) (mget [] (mb_topics (ba_get ba w')) t) \<and>
     (\<forall>m. settled w m \<longrightarrow> settled w' m)"

definition group_settled ::
  "('w, 'p) broker_at \<Rightarrow> string \<Rightarrow> string \<Rightarrow> ('w \<Rightarrow> 'p message \<Rightarrow> bool) \<Rightarrow> 'w \<Rightarrow> bool" where
  "group_settled ba t g settled w \<longleftrightarrow>
     (let off = mget 0 (mb_offsets (ba_get ba w)) (t, g); ms = mget [] (mb_topics (ba_get ba w)) t in
      off \<le> length ms \<and> (\<forall>m\<in>set (take off ms). settled w m))"

lemma group_settled_kept:
  assumes "group_settled ba t g settled w" "group_kept ba t g settled w w'"
  shows "group_settled ba t g settled w'"
  using assms by (auto simp: group_settled_def group_kept_def Let_def prefix_def)

locale subscriber =
  fixes ctx :: "'w ctx_ops" and ba :: "('w, 'p) broker_at" and handler :: "('w, 'p) msg_handler"
    and topic :: string and grp :: string
    and settled :: "'w \<Rightarrow> 'p message \<Rightarrow> bool" and sinv :: "'w \<Rightarrow> bool"
  assumes put_get: "ba_get ba (ba_put ba b w) = b"
    and put_inv: "sinv (ba_put ba b w) \<longleftrightarrow> sinv w"
    and put_settled: "settled (ba_put ba b w) m \<longleftrightarrow> settled w m"
    and sub_err: "sinv w \<Longrightarrow> ctx_err ctx w = (w', b1) \<Longrightarrow> sinv w' \<and> group_kept ba topic grp settled w w'"
    and sub_sleep: "sinv w \<Longrightarrow> ctx_sleep ctx w = (w', b1) \<Longrightarrow> sinv w' \<and> group_kept ba topic grp settled w w'"
    and sub_handle: "sinv w \<Longrightarrow> handler w m = (w', r) \<Longrightarrow>
          sinv w' \<and> group_kept ba topic grp settled w w' \<and> (r = None \<longrightarrow> settled w' m)"
begin

lemma commit_settled:
  assumes "group_settled ba topic grp settled w" "mb_next (ba_get ba w) topic grp = (k, Some m)"
    and "group_kept ba topic grp settled w w'" "settled w' m"
  shows "group_settled ba topic grp settled (ba_put ba (mb_commit (ba_get ba w') topic grp k) w')"
proof -
  let ?ms = "mget [] (mb_topics (ba_get ba w)) topic" and ?ms' = "mget [] (mb_topics (ba_get ba w')) topic"
  note nx = assms(2)[unfolded mb_next_Some]
  have p: "prefix ?ms ?ms'" using assms(3) by (simp add: group_kept_def)
  then have k: "k < length ?ms'" "?ms' ! k = m" using nx prefix_length_le[OF p]
    by (auto simp: prefix_def nth_append)
  have "set (take (Suc k) ?ms') = insert m (set (take k ?ms'))"
    using k by (simp add: take_Suc_conv_app_nth)
  moreover have "\<forall>x\<in>set (take k ?ms'). settled w' x"
    using group_settled_kept[OF assms(1,3)] nx assms(3)
    by (simp add: group_settled_def group_kept_def Let_def)
  ultimately show ?thesis
    using k(1) assms(4) by (simp add: group_settled_def Let_def put_get put_settled mb_commit_def)
qed

lemma loop_settled:
  assumes "sinv w" "group_settled ba topic grp settled w"
    and "mb_subscribe_loop n ctx ba topic grp handler w = Some w'"
  shows "sinv w' \<and> group_settled ba topic grp settled w'"
  using assms
proof (induction n arbitrary: w)
  case (Suc n)
  obtain w1 b where e: "ctx_err ctx w = (w1, b)" by force
  note e' = sub_err[OF Suc.prems(1) e]
  have s1: "group_settled ba topic grp settled w1" using group_settled_kept[OF Suc.prems(2)] e' by blast
  have rest: "sinv w' \<and> group_settled ba topic grp settled w'"
    if "sinv v" "group_settled ba topic grp settled v"
      "(case ctx_sleep ctx v of (w3, False) \<Rightarrow> Some w3
        | (w3, True) \<Rightarrow> mb_subscribe_loop n ctx ba topic grp handler w3) = Some w'" for v
  proof -
    obtain v' b' where s: "ctx_sleep ctx v = (v', b')" by force
    note s' = sub_sleep[OF that(1) s]
    have "group_settled ba topic grp settled v'" using group_settled_kept[OF that(2)] s' by blast
    with Suc.IH[of v'] s' s that(3) show ?thesis by (auto split: bool.splits)
  qed
  show ?case
  proof (cases b)
    case True
    with Suc.prems(3) e e' s1 show ?thesis by simp
  next
    case nb: False
    obtain k om where nx: "mb_next (ba_get ba w1) topic grp = (k, om)" by force
    show ?thesis
    proof (cases om)
      case None
      with Suc.prems(3) e nb nx rest[of w1] e' s1 show ?thesis by simp
    next
      case (Some m)
      obtain w2 r where h: "handler w1 m = (w2, r)" by force
      note h' = sub_handle[OF conjunct1[OF e'] h]
      have s2: "group_settled ba topic grp settled w2" using group_settled_kept[OF s1] h' by blast
      show ?thesis
      proof (cases r)
        case None
        have "group_settled ba topic grp settled (ba_put ba (mb_commit (ba_get ba w2) topic grp k) w2)"
          by (rule commit_settled[OF s1 nx[unfolded Some]]) (use h' None in auto)
        with Suc.IH[of "ba_put ba (mb_commit (ba_get ba w2) topic grp k) w2"] Suc.prems(3) e nb nx Some h None h'
        show ?thesis by (simp add: put_inv)
      next
        case (Some err)
        with Suc.prems(3) e nb nx \<open>om = Some m\<close> h rest[of w2] h' s2 show ?thesis by simp
      qed
    qed
  qed
qed simp

text \<open>A group's offset never passes a message before its handler has acknowledged it.\<close>

lemma subscribe_settled:
  assumes "sinv w" "group_settled ba topic grp settled w"
    and "mb_subscribe n ctx ba topic grp handler w = Some (w', r)"
  shows "sinv w' \<and> group_settled ba topic grp settled w'"
proof (cases "mb_enter (ba_get ba w) topic grp")
  case (Inl err)
  with assms show ?thesis by (simp add: mb_subscribe_def)
next
  case (Inr b)
  note en = mb_enter_simps[OF Inr]
  have "group_settled ba topic grp settled (ba_put ba b w)"
    using assms(2) en by (simp add: group_settled_def put_get put_settled)
  moreover obtain v where v: "mb_subscribe_loop n ctx ba topic grp handler (ba_put ba b w) = Some v"
      "w' = ba_put ba (mb_leave (ba_get ba v) topic grp) v"
    using assms(3) Inr by (auto simp: mb_subscribe_def)
  ultimately have "sinv v \<and> group_settled ba topic grp settled v"
    using loop_settled[of "ba_put ba b w" n v] assms(1) by (simp add: put_inv)
  then show ?thesis unfolding v(2) by (simp add: group_settled_def put_get put_settled put_inv)
qed

end

end
