(* ===== verification/Checkpoint.thy ===== *)
theory Checkpoint
  imports EventStore
begin

text \<open>
  Named cursors on a sequence (\<open>eventstore/checkpoint.go\<close>): the port and its in-memory
  implementation. A failing \<open>Set\<close> of a remote implementation may or may not have taken
  effect, which is all the contract says of it.
\<close>

record 'w cp_ops =
  cp_get :: "'w \<Rightarrow> string \<Rightarrow> 'w \<times> int res"
  cp_set :: "'w \<Rightarrow> string \<Rightarrow> int \<Rightarrow> 'w \<times> gerr option"

type_synonym mem_checkpoints = "string \<rightharpoonup> int"

definition new_mem_checkpoints :: mem_checkpoints where
  "new_mem_checkpoints = Map.empty"

definition mem_cp_get :: "mem_checkpoints \<Rightarrow> string \<Rightarrow> mem_checkpoints \<times> int res" where
  "mem_cp_get s name = (s, Inr (mget 0 s name))"

definition mem_cp_set :: "mem_checkpoints \<Rightarrow> string \<Rightarrow> int \<Rightarrow> mem_checkpoints \<times> gerr option" where
  "mem_cp_set s name seq = (s(name \<mapsto> seq), None)"

definition mem_cp_ops :: "mem_checkpoints cp_ops" where
  "mem_cp_ops = \<lparr>cp_get = mem_cp_get, cp_set = mem_cp_set\<rparr>"

text \<open>\<open>cp w name\<close> is the position durably recorded for \<open>name\<close>, 0 when there is none.\<close>

locale checkpoint_store =
  fixes cps :: "'w cp_ops"
    and cp :: "'w \<Rightarrow> string \<Rightarrow> int"
    and cinv :: "'w \<Rightarrow> bool"
  assumes get_law: "cinv w \<Longrightarrow> cp_get cps w name = (w', r1) \<Longrightarrow>
          cinv w' \<and> cp w' = cp w \<and> (\<forall>seq. r1 = Inr seq \<longrightarrow> seq = cp w name)"
    and set_law: "cinv w \<Longrightarrow> cp_set cps w name seq = (w', r) \<Longrightarrow>
          cinv w' \<and> (cp w' = (cp w)(name := seq) \<or> r \<noteq> None \<and> cp w' = cp w)"
begin

lemma get_after_set:
  assumes "cinv w" "cp_set cps w name seq = (w1, None)" "cp_get cps w1 name' = (w2, Inr seq')"
  shows "seq' = (if name' = name then seq else cp w name')"
  using set_law[OF assms(1,2)] get_law[of w1 name' w2 "Inr seq'"] assms(3) by auto

text \<open>A write touches its own name only, whatever becomes of it.\<close>

lemma set_other:
  assumes "cinv w" "cp_set cps w name seq = (w1, r)" "name' \<noteq> name"
  shows "cp w1 name' = cp w name'"
  using set_law[OF assms(1,2)] assms(3) by auto

end

interpretation mem_checkpoints: checkpoint_store mem_cp_ops "mget 0" "\<lambda>_. True"
  by unfold_locales (auto simp: mem_cp_ops_def mem_cp_get_def mem_cp_set_def)

end
