(* ===== verification/Tailer.thy ===== *)
theory Tailer
  imports Checkpoint
begin

text \<open>
  The tailing loop. \<open>relay.Relay.Run\<close>, \<open>projection.CatchUp.Run\<close> and
  \<open>projection.InboxReader.Run\<close> are the same loop over a sequenced log: read the cursor once,
  read a batch past it, hand it on, advance the cursor to the batch's last position. The loop
  is written once, with what differs as fields; its two theorems, that the durable position
  stays covered and that it returns, are proved once in the locale \<open>tailer\<close>.
\<close>

text \<open>What became of a batch: all done, shut down midway, or an error that ends the run.\<close>

datatype outcome = Done | Halt | Fail gerr

record ('w, 'x) tail_ops =
  tl_ctx :: "'w ctx_ops"
  tl_get :: "'w \<Rightarrow> 'w \<times> int res"
  tl_read :: "'w \<Rightarrow> int \<Rightarrow> 'w \<times> 'x list res"
  tl_pos :: "'x \<Rightarrow> int"
  tl_batch :: "nat \<Rightarrow> 'w \<Rightarrow> 'x list \<Rightarrow> ('w \<times> outcome) option"
  tl_set :: "'w \<Rightarrow> int \<Rightarrow> 'w \<times> gerr option"
  tl_get_err :: "gerr \<Rightarrow> gerr"
  tl_read_err :: "gerr \<Rightarrow> gerr"
  tl_set_err :: "gerr \<Rightarrow> gerr"

text \<open>Without fuel left the loop is still running (\<open>None\<close>); nil is returned as \<open>None\<close> inside.\<close>

fun tail_loop :: "nat \<Rightarrow> ('w, 'x) tail_ops \<Rightarrow> 'w \<Rightarrow> int \<Rightarrow> ('w \<times> gerr option) option" where
  "tail_loop 0 t w seq = None"
| "tail_loop (Suc n) t w seq =
     (case ctx_err (tl_ctx t) w of
        (w1, True) \<Rightarrow> Some (w1, None)
      | (w1, False) \<Rightarrow>
          (case tl_read t w1 seq of
             (w2, Inl err) \<Rightarrow>
               (case ctx_err (tl_ctx t) w2 of
                  (w3, True) \<Rightarrow> Some (w3, None)
                | (w3, False) \<Rightarrow> Some (w3, Some (tl_read_err t err)))
           | (w2, Inr recs) \<Rightarrow>
               if recs = [] then
                 (case ctx_sleep (tl_ctx t) w2 of
                    (w3, False) \<Rightarrow> Some (w3, None)
                  | (w3, True) \<Rightarrow> tail_loop n t w3 seq)
               else
                 (case tl_batch t n w2 recs of
                    None \<Rightarrow> None
                  | Some (w3, Fail err) \<Rightarrow> Some (w3, Some err)
                  | Some (w3, Halt) \<Rightarrow> Some (w3, None)
                  | Some (w3, Done) \<Rightarrow>
                      let seq' = tl_pos t (last recs) in
                        (case tl_set t w3 seq' of
                           (w4, Some err) \<Rightarrow> Some (w4, Some (tl_set_err t err))
                         | (w4, None) \<Rightarrow> tail_loop n t w4 seq'))))"

definition tail_run :: "nat \<Rightarrow> ('w, 'x) tail_ops \<Rightarrow> 'w \<Rightarrow> ('w \<times> gerr option) option" where
  "tail_run n t w =
     (case tl_get t w of
        (w1, Inl err) \<Rightarrow> Some (w1, Some (tl_get_err t err))
      | (w1, Inr seq) \<Rightarrow> tail_loop n t w1 seq)"

text \<open>What every single step keeps, a run keeps.\<close>

definition keeps :: "('w \<Rightarrow> bool) \<Rightarrow> ('w \<Rightarrow> 'w \<times> 'r) \<Rightarrow> bool" where
  "keeps P op \<longleftrightarrow> (\<forall>w w' r. P w \<longrightarrow> op w = (w', r) \<longrightarrow> P w')"

lemma keepsI [intro]: "(\<And>w w' r. P w \<Longrightarrow> op w = (w', r) \<Longrightarrow> P w') \<Longrightarrow> keeps P op"
  by (auto simp: keeps_def)

lemma keepsD: "keeps P op \<Longrightarrow> P w \<Longrightarrow> op w = (w', r) \<Longrightarrow> P w'"
  by (auto simp: keeps_def)

definition keeps_opt :: "('w \<Rightarrow> bool) \<Rightarrow> ('w \<Rightarrow> ('w \<times> 'r) option) \<Rightarrow> bool" where
  "keeps_opt P op \<longleftrightarrow> (\<forall>w w' r. P w \<longrightarrow> op w = Some (w', r) \<longrightarrow> P w')"

lemma keeps_optI [intro]: "(\<And>w w' r. P w \<Longrightarrow> op w = Some (w', r) \<Longrightarrow> P w') \<Longrightarrow> keeps_opt P op"
  by (auto simp: keeps_opt_def)

lemma keeps_optD: "keeps_opt P op \<Longrightarrow> P w \<Longrightarrow> op w = Some (w', r) \<Longrightarrow> P w'"
  by (auto simp: keeps_opt_def)

lemma tail_loop_stable:
  assumes "keeps P (ctx_err (tl_ctx t))" "keeps P (ctx_sleep (tl_ctx t))"
    and "\<And>s. keeps P (\<lambda>w. tl_read t w s)" "\<And>n xs. keeps_opt P (\<lambda>w. tl_batch t n w xs)"
    and "\<And>s. keeps P (\<lambda>w. tl_set t w s)"
  shows "P w \<Longrightarrow> tail_loop n t w seq = Some (w', r) \<Longrightarrow> P w'"
proof (induction n arbitrary: w seq)
  case (Suc n)
  obtain w1 b where c: "ctx_err (tl_ctx t) w = (w1, b)" by force
  obtain w2 rd where r: "tl_read t w1 seq = (w2, rd)" by force
  have p1: "P w1" by (rule keepsD[OF assms(1) Suc.prems(1) c])
  have p2: "P w2" by (rule keepsD[OF assms(3) p1 r])
  show ?case
  proof (cases rd)
    case (Inl err)
    obtain w3 b3 where c3: "ctx_err (tl_ctx t) w2 = (w3, b3)" by force
    have "P w3" by (rule keepsD[OF assms(1) p2 c3])
    with Suc.prems(2) c r Inl p1 c3 show ?thesis by (auto split: bool.splits)
  next
    case (Inr recs)
    obtain w3 b3 where s: "ctx_sleep (tl_ctx t) w2 = (w3, b3)" by force
    have sl: "P w3" by (rule keepsD[OF assms(2) p2 s])
    show ?thesis
    proof (cases "b \<or> recs = []")
      case True
      with Suc.prems(2) c r Inr s sl p1 p2 Suc.IH[OF sl] show ?thesis by (auto split: bool.splits)
    next
      case False
      then obtain w4 o4 where h: "tl_batch t n w2 recs = Some (w4, o4)"
        using Suc.prems(2) c r Inr by (auto split: option.splits)
      have p4: "P w4" by (rule keeps_optD[OF assms(4) p2 h])
      obtain w5 r5 where st: "tl_set t w4 (tl_pos t (last recs)) = (w5, r5)" by force
      have p5: "P w5" by (rule keepsD[OF assms(5) p4 st])
      show ?thesis
        using Suc.prems(2) c r Inr False h st p4 p5 Suc.IH[OF p5]
        by (cases o4) (auto simp: Let_def split: option.splits)
    qed
  qed
qed simp

lemma tail_run_stable:
  assumes "keeps P (ctx_err (tl_ctx t))" "keeps P (ctx_sleep (tl_ctx t))"
    and "\<And>s. keeps P (\<lambda>w. tl_read t w s)" "\<And>n xs. keeps_opt P (\<lambda>w. tl_batch t n w xs)"
    and "\<And>s. keeps P (\<lambda>w. tl_set t w s)" "keeps P (tl_get t)"
    and "P w" "tail_run n t w = Some (w', r)"
  shows "P w'"
proof -
  obtain w1 g where g: "tl_get t w = (w1, g)" by force
  have p1: "P w1" by (rule keepsD[OF assms(6,7) g])
  show ?thesis
  proof (cases g)
    case (Inl err)
    with assms(8) g p1 show ?thesis by (simp add: tail_run_def)
  next
    case (Inr seq)
    with assms(8) g have "tail_loop n t w1 seq = Some (w', r)" by (simp add: tail_run_def)
    then show ?thesis by (rule tail_loop_stable[OF assms(1-5) p1])
  qed
qed

text \<open>
  \<open>good w\<close>: what the durable position promises holds in \<open>w\<close>; \<open>covered w s\<close>: a cursor at
  \<open>s\<close> may be made durable. \<open>budget\<close> bounds the steps left before the context ends.
\<close>

locale tailer =
  fixes t :: "('w, 'x) tail_ops"
    and good :: "'w \<Rightarrow> bool"
    and covered :: "'w \<Rightarrow> int \<Rightarrow> bool"
    and items :: "'w \<Rightarrow> 'x list"
    and limit :: int
    and budget :: "'w \<Rightarrow> nat"
  assumes t_ctx: "good w \<Longrightarrow> ctx_err (tl_ctx t) w = (w', b) \<Longrightarrow>
          good w' \<and> budget w' \<le> budget w \<and> (\<not> b \<longrightarrow> 0 < budget w') \<and>
          (\<forall>s. covered w s \<longrightarrow> covered w' s)"
    and t_sleep: "good w \<Longrightarrow> ctx_sleep (tl_ctx t) w = (w', b) \<Longrightarrow>
          good w' \<and> budget w' \<le> budget w \<and> (\<forall>s. covered w s \<longrightarrow> covered w' s)"
    and t_get: "good w \<Longrightarrow> tl_get t w = (w', Inr seq) \<Longrightarrow>
          good w' \<and> budget w' \<le> budget w \<and> covered w' seq"
    and t_get_err: "good w \<Longrightarrow> tl_get t w = (w', Inl err) \<Longrightarrow> good w'"
    and t_read: "good w \<Longrightarrow> tl_read t w seq = (w', r1) \<Longrightarrow>
          good w' \<and> budget w' \<le> budget w \<and> (0 < budget w \<longrightarrow> budget w' < budget w) \<and>
          (\<forall>s. covered w s \<longrightarrow> covered w' s) \<and>
          (\<forall>recs. r1 = Inr recs \<longrightarrow> recs = tail_batch (tl_pos t) seq limit (items w'))"
    and t_batch: "good w \<Longrightarrow> covered w seq \<Longrightarrow>
          recs = tail_batch (tl_pos t) seq limit (items w) \<Longrightarrow> recs \<noteq> [] \<Longrightarrow>
          tl_batch t n w recs = Some (w', r2) \<Longrightarrow>
          good w' \<and> budget w' \<le> budget w \<and> (r2 = Done \<longrightarrow> covered w' (tl_pos t (last recs)))"
    and t_batch_fuel: "good w \<Longrightarrow> budget w < n \<Longrightarrow> tl_batch t n w recs \<noteq> None"
    and t_set: "good w \<Longrightarrow> covered w seq \<Longrightarrow> tl_set t w seq = (w', r3) \<Longrightarrow>
          good w' \<and> budget w' \<le> budget w \<and> covered w' seq"
begin

lemma loop_good: "good w \<Longrightarrow> covered w seq \<Longrightarrow> tail_loop n t w seq = Some (w', r) \<Longrightarrow> good w'"
proof (induction n arbitrary: w seq)
  case (Suc n)
  obtain w1 b where c: "ctx_err (tl_ctx t) w = (w1, b)" by force
  note c' = t_ctx[OF Suc.prems(1) c]
  obtain w2 rd where r: "tl_read t w1 seq = (w2, rd)" by force
  have r': "good w2" "covered w2 seq"
      "\<And>recs. rd = Inr recs \<Longrightarrow> recs = tail_batch (tl_pos t) seq limit (items w2)"
    using t_read[of w1 seq w2 rd] c' r Suc.prems(2) by auto
  show ?case
  proof (cases b)
    case True
    with Suc.prems(3) c c' show ?thesis by simp
  next
    case b: False
    show ?thesis
    proof (cases rd)
      case (Inl err)
      with Suc.prems(3) b c r r'(1) t_ctx[of w2] show ?thesis
        by (auto split: prod.splits bool.splits)
    next
      case (Inr recs)
      show ?thesis
      proof (cases "recs = []")
        case True
        obtain w3 b3 where s: "ctx_sleep (tl_ctx t) w2 = (w3, b3)" by force
        with t_sleep[OF r'(1) s] r'(2) Suc.IH[of w3 seq] Suc.prems(3) b c r Inr True
        show ?thesis by (auto split: bool.splits)
      next
        case False
        obtain w3 o3 where h: "tl_batch t n w2 recs = Some (w3, o3)"
          using Suc.prems(3) b c r Inr False by (auto split: option.splits)
        note h' = t_batch[OF r'(1,2) r'(3)[OF Inr] False h]
        show ?thesis
        proof (cases o3)
          case Done
          let ?s = "tl_pos t (last recs)"
          obtain w4 r4 where s: "tl_set t w3 ?s = (w4, r4)" by force
          have "good w4" "covered w4 ?s" using t_set[of w3 ?s, OF _ _ s] h' Done by auto
          with Suc.IH[of w4 ?s] Suc.prems(3) b c r Inr False h Done s
          show ?thesis by (auto simp: Let_def split: option.splits)
        qed (use Suc.prems(3) b c r Inr False h h' in auto)
      qed
    qed
  qed
qed simp

text \<open>Whatever a run met (faults, a shutdown, an error), it leaves a covered position.\<close>

lemma run_good:
  assumes "good w" "tail_run n t w = Some (w', r)" shows "good w'"
proof -
  obtain w1 g where g: "tl_get t w = (w1, g)" by force
  show ?thesis
  proof (cases g)
    case (Inl err)
    with assms t_get_err[of w w1 err] g show ?thesis by (simp add: tail_run_def)
  next
    case (Inr seq)
    with assms t_get[of w w1 seq] g loop_good[of w1 seq n w' r] show ?thesis
      by (simp add: tail_run_def)
  qed
qed

lemma loop_returns:
  "good w \<Longrightarrow> covered w seq \<Longrightarrow> budget w < n \<Longrightarrow> tail_loop n t w seq \<noteq> None"
proof (induction n arbitrary: w seq)
  case (Suc n)
  obtain w1 b where c: "ctx_err (tl_ctx t) w = (w1, b)" by force
  note c' = t_ctx[OF Suc.prems(1) c]
  show ?case
  proof (cases b)
    case True
    with c show ?thesis by simp
  next
    case b: False
    obtain w2 rd where r: "tl_read t w1 seq = (w2, rd)" by force
    have r': "good w2" "covered w2 seq" "budget w2 < n"
        "\<And>recs. rd = Inr recs \<Longrightarrow> recs = tail_batch (tl_pos t) seq limit (items w2)"
      using t_read[of w1 seq w2 rd] c' r b Suc.prems(2,3) by auto
    show ?thesis
    proof (cases rd)
      case (Inl err)
      with c b r show ?thesis by (auto split: prod.splits bool.splits)
    next
      case (Inr recs)
      show ?thesis
      proof (cases "recs = []")
        case True
        obtain w3 b3 where s: "ctx_sleep (tl_ctx t) w2 = (w3, b3)" by force
        with t_sleep[OF r'(1) s] r'(2,3) Suc.IH[of w3 seq] b c r Inr True
        show ?thesis by (auto split: bool.splits)
      next
        case False
        obtain w3 o3 where h: "tl_batch t n w2 recs = Some (w3, o3)"
          using t_batch_fuel[OF r'(1,3), of recs] by auto
        note h' = t_batch[OF r'(1,2) r'(4)[OF Inr] False h]
        show ?thesis
        proof (cases o3)
          case Done
          let ?s = "tl_pos t (last recs)"
          obtain w4 r4 where s: "tl_set t w3 ?s = (w4, r4)" by force
          have "good w4" "covered w4 ?s" "budget w4 < n"
            using t_set[of w3 ?s, OF _ _ s] h' Done r'(3) by auto
          with Suc.IH[of w4 ?s] b c r Inr False h Done s
          show ?thesis by (auto simp: Let_def split: option.splits)
        qed (use b c r Inr False h in auto)
      qed
    qed
  qed
qed simp

text \<open>Fuel past the budget is enough: the run returns.\<close>

lemma run_returns:
  assumes "good w" "budget w < n" shows "tail_run n t w \<noteq> None"
proof -
  obtain w1 g where g: "tl_get t w = (w1, g)" by force
  show ?thesis
  proof (cases g)
    case (Inr seq)
    with assms t_get[of w w1 seq] g loop_returns[of w1 seq n] show ?thesis
      by (simp add: tail_run_def)
  qed (simp add: g tail_run_def)
qed

end

end
