(* ===== verification/Relay.thy ===== *)
theory Relay
  imports Repository Broker Tailer
begin

text \<open>
  The polling relay (\<open>relay/relay.go\<close>): it tails the event store, translates domain events
  into messages, publishes them per topic and advances its checkpoint. The lemmas are proved
  over the ports it is given: a log that grows under it, a checkpoint that may fail either
  way, a broker that may accept part of a publish.
\<close>

section \<open>Configuration and registration\<close>

record relay_config =
  rc_name :: string
  rc_topic :: string
  rc_poll :: int
  rc_batch :: int
  rc_backoff :: int

definition relay_defaults :: "relay_config \<Rightarrow> relay_config" where
  "relay_defaults cfg = cfg\<lparr>
     rc_poll := if rc_poll cfg \<le> 0 then 200000000 else rc_poll cfg,
     rc_batch := if rc_batch cfg \<le> 0 then 100 else rc_batch cfg,
     rc_backoff := if rc_backoff cfg \<le> 0 then 1000000000 else rc_backoff cfg\<rparr>"

text \<open>
  A translator maps a domain event to an integration event or keeps it private; a route
  controls topic and envelope itself.
\<close>

record ('w, 'p, 'e) relay =
  rl_store :: "('w, 'p) store_ops"
  rl_registry :: "('p, 'e) registry"
  rl_publish :: "('w, 'p) publish"
  rl_cps :: "'w cp_ops"
  rl_cfg :: relay_config
  rl_translators :: "string \<rightharpoonup> ('e \<Rightarrow> 'p integration_event option)"
  rl_routes :: "string \<rightharpoonup> ('p recorded \<Rightarrow> 'e \<Rightarrow> (string \<times> 'p message) option res)"

definition new_relay ::
  "('w, 'p) store_ops \<Rightarrow> ('p, 'e) registry \<Rightarrow> ('w, 'p) publish \<Rightarrow> 'w cp_ops \<Rightarrow> relay_config
   \<Rightarrow> ('w, 'p, 'e) relay option" where
  "new_relay store registry publish cps cfg =
     (if rc_name cfg = [] \<or> rc_topic cfg = [] then None
      else Some \<lparr>rl_store = store, rl_registry = registry, rl_publish = publish, rl_cps = cps,
                 rl_cfg = relay_defaults cfg, rl_translators = Map.empty, rl_routes = Map.empty\<rparr>)"

definition relay_add_translator ::
  "string \<Rightarrow> ('e \<Rightarrow> 'p integration_event option) \<Rightarrow> ('w, 'p, 'e) relay \<Rightarrow> ('w, 'p, 'e) relay option" where
  "relay_add_translator name fn r =
     (if rl_translators r name \<noteq> None then None
      else if rl_routes r name \<noteq> None then None
      else Some (r\<lparr>rl_translators := (rl_translators r)(name \<mapsto> fn)\<rparr>))"

definition relay_add_route ::
  "string \<Rightarrow> ('p recorded \<Rightarrow> 'e \<Rightarrow> (string \<times> 'p message) option res) \<Rightarrow> ('w, 'p, 'e) relay
   \<Rightarrow> ('w, 'p, 'e) relay option" where
  "relay_add_route name fn r =
     (if rl_routes r name \<noteq> None then None
      else if rl_translators r name \<noteq> None then None
      else Some (r\<lparr>rl_routes := (rl_routes r)(name \<mapsto> fn)\<rparr>))"

section \<open>Translation\<close>

definition message_id :: "'p recorded \<Rightarrow> string" where
  "message_id rec = si_category (rec_stream rec) @ ''/'' @ si_id (rec_stream rec) @ ''#'' @
     itoa (rec_version rec)"

definition relay_translate ::
  "('w, 'p, 'e) relay \<Rightarrow> 'p recorded \<Rightarrow> (string \<times> 'p message) option res" where
  "relay_translate r rec =
     (case rl_routes r (rec_name rec) of
        Some route \<Rightarrow>
          (case decode (rl_registry r) rec of Inl err \<Rightarrow> Inl err | Inr event \<Rightarrow> route rec event)
      | None \<Rightarrow>
          (case rl_translators r (rec_name rec) of
             None \<Rightarrow> Inr None
           | Some translator \<Rightarrow>
               (case decode (rl_registry r) rec of
                  Inl err \<Rightarrow> Inl err
                | Inr event \<Rightarrow>
                    (case translator event of
                       None \<Rightarrow> Inr None
                     | Some integration \<Rightarrow>
                         (case new_message (message_id rec) (si_id (rec_stream rec)) (rec_at rec)
                                 integration (rec_meta rec) of
                            Inl err \<Rightarrow> Inl err
                          | Inr msg \<Rightarrow> Inr (Some (rc_topic (rl_cfg r), msg)))))))"

section \<open>One batch\<close>

text \<open>Grouping by topic: \<open>topics\<close> in the order first met, \<open>by_topic\<close> in log order.\<close>

fun group_loop ::
  "('w, 'p, 'e) relay \<Rightarrow> 'p recorded list \<Rightarrow> string list \<Rightarrow> (string \<rightharpoonup> 'p message list)
   \<Rightarrow> (string list \<times> (string \<rightharpoonup> 'p message list)) res" where
  "group_loop r [] topics by_topic = Inr (topics, by_topic)"
| "group_loop r (rec # recs) topics by_topic =
     (case relay_translate r rec of
        Inl err \<Rightarrow> Inl err
      | Inr None \<Rightarrow> group_loop r recs topics by_topic
      | Inr (Some (topic, msg)) \<Rightarrow>
          group_loop r recs
            (if by_topic topic = None then topics @ [topic] else topics)
            (by_topic(topic \<mapsto> mget [] by_topic topic @ [msg])))"

fun publish_with_retry ::
  "nat \<Rightarrow> 'w ctx_ops \<Rightarrow> ('w, 'p) publish \<Rightarrow> 'w \<Rightarrow> string \<Rightarrow> 'p message list \<Rightarrow> ('w \<times> bool) option" where
  "publish_with_retry 0 ctx pub w topic msgs = None"
| "publish_with_retry (Suc n) ctx pub w topic msgs =
     (case pub w topic msgs of
        (w1, None) \<Rightarrow> Some (w1, True)
      | (w1, Some err) \<Rightarrow>
          (case ctx_sleep ctx w1 of
             (w2, False) \<Rightarrow> Some (w2, False)
           | (w2, True) \<Rightarrow> publish_with_retry n ctx pub w2 topic msgs))"

fun publish_topics ::
  "nat \<Rightarrow> 'w ctx_ops \<Rightarrow> ('w, 'p) publish \<Rightarrow> (string \<rightharpoonup> 'p message list) \<Rightarrow> 'w \<Rightarrow> string list
   \<Rightarrow> ('w \<times> bool) option" where
  "publish_topics n ctx pub by_topic w [] = Some (w, True)"
| "publish_topics n ctx pub by_topic w (topic # topics) =
     (case publish_with_retry n ctx pub w topic (mget [] by_topic topic) of
        None \<Rightarrow> None
      | Some (w1, False) \<Rightarrow> Some (w1, False)
      | Some (w1, True) \<Rightarrow> publish_topics n ctx pub by_topic w1 topics)"

definition relay_batch ::
  "'w ctx_ops \<Rightarrow> ('w, 'p, 'e) relay \<Rightarrow> nat \<Rightarrow> 'w \<Rightarrow> 'p recorded list \<Rightarrow> ('w \<times> outcome) option" where
  "relay_batch ctx r n w recs =
     (case group_loop r recs [] Map.empty of
        Inl err \<Rightarrow> Some (w, Fail (Wrapf ''relay %s: %w'' [FStr (rc_name (rl_cfg r))] err))
      | Inr (topics, by_topic) \<Rightarrow>
          (case publish_topics n ctx (rl_publish r) by_topic w topics of
             None \<Rightarrow> None
           | Some (w1, True) \<Rightarrow> Some (w1, Done)
           | Some (w1, False) \<Rightarrow> Some (w1, Halt)))"

section \<open>The run\<close>

definition relay_ops :: "'w ctx_ops \<Rightarrow> ('w, 'p, 'e) relay \<Rightarrow> ('w, 'p recorded) tail_ops" where
  "relay_ops ctx r =
     (let name = rc_name (rl_cfg r) in
      \<lparr>tl_ctx = ctx,
       tl_get = (\<lambda>w. cp_get (rl_cps r) w name),
       tl_read = (\<lambda>w seq. st_read_all (rl_store r) w seq (rc_batch (rl_cfg r))),
       tl_pos = rec_seq,
       tl_batch = relay_batch ctx r,
       tl_set = (\<lambda>w seq. cp_set (rl_cps r) w name seq),
       tl_get_err = Wrapf ''relay %s: %w'' [FStr name],
       tl_read_err = Wrapf ''relay %s: read: %w'' [FStr name],
       tl_set_err = Wrapf ''relay %s: checkpoint: %w'' [FStr name]\<rparr>)"

definition relay_run ::
  "nat \<Rightarrow> 'w ctx_ops \<Rightarrow> ('w, 'p, 'e) relay \<Rightarrow> 'w \<Rightarrow> ('w \<times> gerr option) option" where
  "relay_run n ctx r w = tail_run n (relay_ops ctx r) w"

text \<open>What the ports and the context keep, a run keeps.\<close>

lemma publish_with_retry_stable:
  assumes "\<And>t ms. keeps P (\<lambda>w. pub w t ms)" "keeps P (ctx_sleep ctx)"
  shows "P w \<Longrightarrow> publish_with_retry n ctx pub w t ms = Some (w', b) \<Longrightarrow> P w'"
proof (induction n arbitrary: w)
  case (Suc n)
  obtain w1 r1 where p: "pub w t ms = (w1, r1)" by force
  obtain w2 b2 where s: "ctx_sleep ctx w1 = (w2, b2)" by force
  have "P w1" by (rule keepsD[OF assms(1) Suc.prems(1) p])
  moreover from this have "P w2" by (rule keepsD[OF assms(2) _ s])
  ultimately show ?case using Suc p s by (auto split: option.splits bool.splits)
qed simp

lemma publish_topics_stable:
  assumes "\<And>t ms. keeps P (\<lambda>w. pub w t ms)" "keeps P (ctx_sleep ctx)"
  shows "P w \<Longrightarrow> publish_topics n ctx pub bt w ts = Some (w', b) \<Longrightarrow> P w'"
proof (induction ts arbitrary: w)
  case (Cons t ts)
  then obtain w1 b1 where p: "publish_with_retry n ctx pub w t (mget [] bt t) = Some (w1, b1)"
    by (auto split: option.splits)
  have "P w1" by (rule publish_with_retry_stable[OF assms Cons.prems(1) p])
  with Cons p show ?case by (auto split: bool.splits)
qed simp

lemma relay_batch_stable:
  assumes "\<And>t ms. keeps P (\<lambda>w. rl_publish rl w t ms)" "keeps P (ctx_sleep ctx)"
  shows "keeps_opt P (\<lambda>w. relay_batch ctx rl n w xs)"
proof
  fix w w' r assume P: "P w" and b: "relay_batch ctx rl n w xs = Some (w', r)"
  show "P w'"
  proof (cases "group_loop rl xs [] Map.empty")
    case (Inl err)
    with b P show ?thesis by (simp add: relay_batch_def)
  next
    case (Inr g)
    obtain topics bt where g: "g = (topics, bt)" by force
    with b Inr obtain b1 where "publish_topics n ctx (rl_publish rl) bt w topics = Some (w', b1)"
      by (auto simp: relay_batch_def split: option.splits bool.splits)
    then show ?thesis by (rule publish_topics_stable[OF assms P])
  qed
qed

lemma relay_run_stable:
  assumes "\<And>t ms. keeps P (\<lambda>w. rl_publish rl w t ms)" "keeps P (ctx_sleep ctx)" "keeps P (ctx_err ctx)"
    and "\<And>a l. keeps P (\<lambda>w. st_read_all (rl_store rl) w a l)"
    and "keeps P (\<lambda>w. cp_get (rl_cps rl) w (rc_name (rl_cfg rl)))"
    and "\<And>s. keeps P (\<lambda>w. cp_set (rl_cps rl) w (rc_name (rl_cfg rl)) s)"
    and "P w" "relay_run n ctx rl w = Some (w', r)"
  shows "P w'"
  by (rule tail_run_stable[where P = P and t = "relay_ops ctx rl" and w = w and n = n and r = r])
    (use assms relay_batch_stable[OF assms(1,2)] in \<open>simp_all add: relay_ops_def relay_run_def Let_def\<close>)

section \<open>What a log says is to be published\<close>

definition rl_out :: "('w, 'p, 'e) relay \<Rightarrow> string \<Rightarrow> 'p recorded \<Rightarrow> 'p message list" where
  "rl_out r t rec =
     (case relay_translate r rec of
        Inr (Some (topic, msg)) \<Rightarrow> if topic = t then [msg] else []
      | _ \<Rightarrow> [])"

text \<open>The messages a log holds for one topic, in log order.\<close>

definition outbox :: "('w, 'p, 'e) relay \<Rightarrow> string \<Rightarrow> 'p recorded list \<Rightarrow> 'p message list" where
  "outbox r t recs = concat (map (rl_out r t) recs)"

lemma outbox_append [log_simps]: "outbox r t (xs @ ys) = outbox r t xs @ outbox r t ys"
  by (simp add: outbox_def)

lemma outbox_Nil [simp]: "outbox r t [] = []"
  by (simp add: outbox_def)

lemma outbox_Cons: "outbox r t (x # xs) = rl_out r t x @ outbox r t xs"
  by (simp add: outbox_def)

lemma outbox_prefix: "prefix xs ys \<Longrightarrow> prefix (outbox r t xs) (outbox r t ys)"
  by (auto simp: prefix_def outbox_append)

lemma group_loop_spec:
  assumes "group_loop r recs topics bt = Inr (topics', bt')"
    and "distinct topics" "dom bt = set topics"
  shows "distinct topics' \<and> dom bt' = set topics' \<and>
    (\<forall>t. mget [] bt' t = mget [] bt t @ outbox r t recs)"
  using assms
proof (induction recs arbitrary: topics bt)
  case (Cons rec recs)
  consider "relay_translate r rec = Inr None"
    | topic msg where "relay_translate r rec = Inr (Some (topic, msg))"
    using Cons.prems(1) by (auto split: sum.splits option.splits)
  then show ?case
  proof cases
    case 1
    with Cons show ?thesis by (simp add: outbox_Cons rl_out_def)
  next
    case (2 topic msg)
    let ?topics = "if bt topic = None then topics @ [topic] else topics"
    let ?bt = "bt(topic \<mapsto> mget [] bt topic @ [msg])"
    have d: "distinct ?topics" "dom ?bt = set ?topics"
      using Cons.prems(2,3) by (auto simp: domIff)
    have g: "group_loop r recs ?topics ?bt = Inr (topics', bt')"
      using Cons.prems(1) 2 by simp
    show ?thesis using Cons.IH[OF g d] 2 by (auto simp: outbox_Cons rl_out_def)
  qed
qed simp

lemma group_loop_topics:
  assumes "group_loop r recs [] Map.empty = Inr (topics, bt)"
  shows "(\<forall>t. mget [] bt t = outbox r t recs) \<and> (\<forall>t. t \<notin> set topics \<longrightarrow> outbox r t recs = [])"
proof -
  have s: "dom bt = set topics" "\<And>t. mget [] bt t = outbox r t recs"
    using group_loop_spec[OF assms] by auto
  have "outbox r t recs = []" if "t \<notin> set topics" for t
  proof -
    have "bt t = None" using that s(1) by (metis domIff)
    then show ?thesis using s(2)[of t] by (simp add: mget_def)
  qed
  with s(2) show ?thesis by blast
qed


section \<open>The relay over its ports\<close>

text \<open>
  The ports share one world. What each port leaves alone is part of the interface: reading the
  log moves no cursor and publishes nothing, and so on; the log may grow under every call.
  A failing publish is a happening of the environment, of which \<open>budget\<close> counts the rest.
\<close>

locale relay_env =
  event_store "rl_store r" log inv + checkpoint_store "rl_cps r" cp inv +
  publisher "rl_publish r" tlog inv
  for r :: "('w, 'p, 'e) relay" and log :: "'w \<Rightarrow> 'p recorded list" and inv :: "'w \<Rightarrow> bool"
    and cp :: "'w \<Rightarrow> string \<Rightarrow> int" and tlog :: "'w \<Rightarrow> string \<Rightarrow> 'p message list" +
  fixes ctx :: "'w ctx_ops" and budget :: "'w \<Rightarrow> nat"
  assumes read_frame: "inv w \<Longrightarrow> st_read_all (rl_store r) w after limit = (w', r1) \<Longrightarrow>
          cp w' = cp w \<and> tlog w' = tlog w \<and> budget w' \<le> budget w \<and>
          (0 < budget w \<longrightarrow> budget w' < budget w)"
    and get_frame: "inv w \<Longrightarrow> cp_get (rl_cps r) w name = (w', r2) \<Longrightarrow>
          prefix (log w) (log w') \<and> tlog w' = tlog w \<and> budget w' \<le> budget w"
    and set_frame: "inv w \<Longrightarrow> cp_set (rl_cps r) w name seq = (w', r3) \<Longrightarrow>
          prefix (log w) (log w') \<and> tlog w' = tlog w \<and> budget w' \<le> budget w"
    and publish_frame: "inv w \<Longrightarrow> rl_publish r w topic msgs = (w', r4) \<Longrightarrow>
          prefix (log w) (log w') \<and> cp w' = cp w \<and> budget w' \<le> budget w \<and>
          (r4 \<noteq> None \<longrightarrow> budget w' < budget w)"
    and err_frame: "inv w \<Longrightarrow> ctx_err ctx w = (w', b) \<Longrightarrow>
          inv w' \<and> prefix (log w) (log w') \<and> cp w' = cp w \<and> tlog w' = tlog w \<and>
          budget w' \<le> budget w \<and> (\<not> b \<longrightarrow> 0 < budget w')"
    and sleep_frame: "inv w \<Longrightarrow> ctx_sleep ctx w = (w', b) \<Longrightarrow>
          inv w' \<and> prefix (log w) (log w') \<and> cp w' = cp w \<and> tlog w' = tlog w \<and>
          budget w' \<le> budget w"

text \<open>
  \<open>sent_upto\<close>: topic \<open>t\<close> holds a redelivery of what the log says for it, covering at least
  its first \<open>k\<close> messages.
\<close>

definition sent_upto ::
  "('w, 'p, 'e) relay \<Rightarrow> 'p recorded list \<Rightarrow> 'p message list \<Rightarrow> string \<Rightarrow> nat \<Rightarrow> bool" where
  "sent_upto r l sent t k \<longleftrightarrow> (\<exists>n\<ge>k. redelivered (outbox r t l) n sent)"

lemma sent_upto_grow: "sent_upto r l s t k \<Longrightarrow> prefix l l' \<Longrightarrow> sent_upto r l' s t k"
  by (auto simp: sent_upto_def intro: redelivered_prefix outbox_prefix)

lemma sent_upto_less: "sent_upto r l s t k \<Longrightarrow> k' \<le> k \<Longrightarrow> sent_upto r l s t k'"
  unfolding sent_upto_def by (meson order_trans)

lemma sent_upto_chunk:
  assumes "sent_upto r (A @ recs @ B) s t k" "length (outbox r t A) \<le> k"
  shows "sent_upto r (A @ recs @ B) (s @ take j (outbox r t recs)) t
    (max k (length (outbox r t A) + min j (length (outbox r t recs))))"
proof -
  let ?a = "length (outbox r t A)" and ?m = "min j (length (outbox r t recs))"
  from assms(1) obtain n where n: "k \<le> n" "redelivered (outbox r t (A @ recs @ B)) n s"
    by (auto simp: sent_upto_def)
  have "redelivered (outbox r t (A @ recs @ B)) (max n (?a + ?m))
      (s @ drop ?a (take (?a + ?m) (outbox r t (A @ recs @ B))))"
    by (rule redelivered.chunk[OF n(2)]) (use assms(2) n(1) in \<open>auto simp: outbox_append\<close>)
  moreover have "drop ?a (take (?a + ?m) (outbox r t (A @ recs @ B))) = take j (outbox r t recs)"
    by (auto simp: outbox_append min_def)
  ultimately show ?thesis using n(1) by (auto simp: sent_upto_def intro!: exI[of _ "max n (?a + ?m)"])
qed

definition all_sent ::
  "('w, 'p, 'e) relay \<Rightarrow> 'p recorded list \<Rightarrow> (string \<Rightarrow> 'p message list) \<Rightarrow> (string \<Rightarrow> nat) \<Rightarrow> bool" where
  "all_sent r l sent K \<longleftrightarrow> (\<forall>t. sent_upto r l (sent t) t (K t))"

lemma all_sent_grow: "all_sent r l s K \<Longrightarrow> prefix l l' \<Longrightarrow> all_sent r l' s K"
  by (auto simp: all_sent_def intro: sent_upto_grow)

lemma all_sent_less: "all_sent r l s K \<Longrightarrow> (\<And>t. K' t \<le> K t) \<Longrightarrow> all_sent r l s K'"
  by (auto simp: all_sent_def intro: sent_upto_less)

context relay_env
begin

text \<open>One attempt to publish the batch's messages for one topic.\<close>

lemma attempt_sent:
  assumes "inv w" "prefix (A @ recs) (log w)" "all_sent r (log w) (tlog w) K"
    and "length (outbox r t A) \<le> K t" "rl_publish r w t (outbox r t recs) = (w', res1)"
  shows "inv w' \<and> prefix (log w) (log w') \<and> cp w' = cp w \<and> budget w' \<le> budget w \<and>
    all_sent r (log w') (tlog w') K \<and>
    (res1 = None \<longrightarrow> all_sent r (log w') (tlog w') (\<lambda>a. if a = t then max (K t) (length (outbox r t (A @ recs))) else K a)) \<and>
    (res1 \<noteq> None \<longrightarrow> budget w' < budget w)"
proof -
  note f = publish_frame[OF assms(1,5)]
  obtain B where B: "log w' = A @ recs @ B"
    using prefix_order.trans[OF assms(2)] f by (auto simp: prefix_def)
  from publish_law[OF assms(1,5)] obtain k where
    k: "inv w'" "tlog w' = (tlog w)(t := tlog w t @ take k (outbox r t recs))"
       "res1 = None \<longrightarrow> length (outbox r t recs) \<le> k" by blast
  let ?k = "max (K t) (length (outbox r t A) + min k (length (outbox r t recs)))"
  have g: "all_sent r (log w') (tlog w) K" using all_sent_grow[OF assms(3)] f by blast
  then have "sent_upto r (log w') (tlog w t) t (K t)" by (simp add: all_sent_def)
  then have "sent_upto r (log w') (tlog w' t) t ?k"
    using sent_upto_chunk[of r A recs B "tlog w t" t "K t" k] assms(4) by (simp add: B k(2))
  then have st: "all_sent r (log w') (tlog w') (\<lambda>a. if a = t then ?k else K a)"
    using g by (auto simp: all_sent_def k(2))
  have "all_sent r (log w') (tlog w') K" by (rule all_sent_less[OF st]) simp
  moreover have "all_sent r (log w') (tlog w') (\<lambda>a. if a = t then max (K t) (length (outbox r t (A @ recs))) else K a)"
    if "res1 = None"
    by (rule all_sent_less[OF st]) (use that k(3) in \<open>auto simp: outbox_append min_def\<close>)
  ultimately show ?thesis using k(1) f by blast
qed

lemma retry_sent:
  assumes "inv w" "prefix (A @ recs) (log w)" "all_sent r (log w) (tlog w) K"
    and "length (outbox r t A) \<le> K t"
    and "publish_with_retry n ctx (rl_publish r) w t (outbox r t recs) = Some (w', b)"
  shows "inv w' \<and> prefix (log w) (log w') \<and> cp w' = cp w \<and> budget w' \<le> budget w \<and>
    all_sent r (log w') (tlog w') K \<and>
    (b \<longrightarrow> all_sent r (log w') (tlog w') (\<lambda>a. if a = t then max (K t) (length (outbox r t (A @ recs))) else K a))"
  using assms(1-3,5)
proof (induction n arbitrary: w)
  case (Suc n)
  obtain w1 r1 where p: "rl_publish r w t (outbox r t recs) = (w1, r1)" by force
  note a = attempt_sent[OF Suc.prems(1-3) assms(4) p]
  show ?case
  proof (cases r1)
    case None
    with Suc.prems(4) p a show ?thesis by auto
  next
    case (Some err)
    obtain w2 b2 where s: "ctx_sleep ctx w1 = (w2, b2)" by force
    have a1: "inv w1" "prefix (log w) (log w1)" "cp w1 = cp w" "budget w1 \<le> budget w"
        "all_sent r (log w1) (tlog w1) K" using a by auto
    from sleep_frame[OF a1(1) s] have
      f: "inv w2" "prefix (log w1) (log w2)" "cp w2 = cp w1" "tlog w2 = tlog w1" "budget w2 \<le> budget w1"
      by auto
    have w2: "prefix (log w) (log w2)" "all_sent r (log w2) (tlog w2) K"
      using prefix_order.trans[OF a1(2) f(2)] all_sent_grow[OF a1(5) f(2)] f(4) by auto
    show ?thesis
    proof (cases b2)
      case True
      with Suc.prems(4) p Some s have "publish_with_retry n ctx (rl_publish r) w2 t (outbox r t recs) = Some (w', b)"
        by simp
      from Suc.IH[OF f(1) prefix_order.trans[OF Suc.prems(2) w2(1)] w2(2) this] w2(1) f a1
      show ?thesis using prefix_order.trans[OF w2(1)] by auto
    next
      case False
      with Suc.prems(4) p Some s f w2 a1 show ?thesis by auto
    qed
  qed
qed simp

lemma retry_returns:
  "inv w \<Longrightarrow> budget w < n \<Longrightarrow> publish_with_retry n ctx (rl_publish r) w t msgs \<noteq> None"
proof (induction n arbitrary: w)
  case (Suc n)
  obtain w1 r1 where p: "rl_publish r w t msgs = (w1, r1)" by force
  have i: "inv w1" using publish_law[OF Suc.prems(1) p] by auto
  obtain w2 b2 where s: "ctx_sleep ctx w1 = (w2, b2)" by force
  show ?case
  proof (cases "r1 = None")
    case False
    then have "budget w2 < n" "inv w2"
      using publish_frame[OF Suc.prems(1) p] sleep_frame[OF i s] Suc.prems(2) by auto
    with Suc.IH[of w2] p s False show ?thesis by (auto split: bool.splits)
  qed (simp add: p)
qed simp

text \<open>All topics of the batch.\<close>

lemma topics_sent:
  assumes "inv w" "prefix (A @ recs) (log w)" "all_sent r (log w) (tlog w) K"
    and "\<And>t. length (outbox r t A) \<le> K t" "\<And>t. mget [] bt t = outbox r t recs"
    and "publish_topics n ctx (rl_publish r) bt w topics = Some (w', b)"
  shows "inv w' \<and> prefix (log w) (log w') \<and> cp w' = cp w \<and> budget w' \<le> budget w \<and>
    all_sent r (log w') (tlog w') K \<and>
    (b \<longrightarrow> all_sent r (log w') (tlog w')
       (\<lambda>t. if t \<in> set topics then max (K t) (length (outbox r t (A @ recs))) else K t))"
  using assms(1-4,6)
proof (induction topics arbitrary: w K)
  case (Cons t ts)
  obtain w1 b1 where p: "publish_with_retry n ctx (rl_publish r) w t (outbox r t recs) = Some (w1, b1)"
    using Cons.prems(5) assms(5) by (auto split: option.splits)
  note a = retry_sent[OF Cons.prems(1-4) p]
  show ?case
  proof (cases b1)
    case False
    with Cons.prems(5) assms(5) p a show ?thesis by auto
  next
    case True
    let ?K = "\<lambda>a. if a = t then max (K t) (length (outbox r t (A @ recs))) else K a"
    have w1: "inv w1" "prefix (log w) (log w1)" "cp w1 = cp w" "budget w1 \<le> budget w"
        "all_sent r (log w1) (tlog w1) ?K" using a True by auto
    have pts: "publish_topics n ctx (rl_publish r) bt w1 ts = Some (w', b)"
      using Cons.prems(5) assms(5) p True by simp
    have le: "length (outbox r t' A) \<le> ?K t'" for t' using Cons.prems(4)[of t'] by auto
    note IH = Cons.IH[OF w1(1) prefix_order.trans[OF Cons.prems(2) w1(2)] w1(5) le pts]
    have "all_sent r (log w') (tlog w') K"
      using IH all_sent_less[of r "log w'" "tlog w'" ?K K] by auto
    moreover have "all_sent r (log w') (tlog w')
        (\<lambda>t'. if t' \<in> set (t # ts) then max (K t') (length (outbox r t' (A @ recs))) else K t')" if b
    proof -
      from IH that have "all_sent r (log w') (tlog w')
          (\<lambda>t'. if t' \<in> set ts then max (?K t') (length (outbox r t' (A @ recs))) else ?K t')" by blast
      then show ?thesis by (rule all_sent_less) auto
    qed
    ultimately show ?thesis using IH w1 prefix_order.trans[OF w1(2)] by auto
  qed
qed auto

lemma topics_return:
  "inv w \<Longrightarrow> budget w < n \<Longrightarrow> publish_topics n ctx (rl_publish r) bt w topics \<noteq> None"
proof (induction topics arbitrary: w)
  case (Cons t ts)
  obtain w1 b1 where p: "publish_with_retry n ctx (rl_publish r) w t (mget [] bt t) = Some (w1, b1)"
    using retry_returns[OF Cons.prems] by fastforce
  have "inv w1 \<and> budget w1 \<le> budget w"
    using p Cons.prems(1)
  proof (induction n arbitrary: w)
    case (Suc n)
    obtain w2 r2 where q: "rl_publish r w t (mget [] bt t) = (w2, r2)" by force
    have i: "inv w2" "budget w2 \<le> budget w"
      using publish_law[OF Suc.prems(2) q] publish_frame[OF Suc.prems(2) q] by auto
    obtain w3 b3 where s: "ctx_sleep ctx w2 = (w3, b3)" by force
    have "inv w3" "budget w3 \<le> budget w" using sleep_frame[OF i(1) s] i(2) by auto
    with Suc.IH[of w3] Suc.prems(1) q s i show ?case
      by (auto split: option.splits bool.splits)
  qed simp
  with Cons p show ?case by (auto split: bool.splits)
qed simp

text \<open>What a durable position promises, and when a cursor may become durable.\<close>

definition sent_count :: "'w \<Rightarrow> int \<Rightarrow> string \<Rightarrow> nat" where
  "sent_count w s t = length (outbox r t (upto_pos rec_seq s (log w)))"

definition cp_at :: "'w \<Rightarrow> int" where
  "cp_at w = cp w (rc_name (rl_cfg r))"

definition relay_good :: "'w \<Rightarrow> bool" where
  "relay_good w \<longleftrightarrow> inv w \<and> cp_at w \<le> last_pos rec_seq (log w) \<and>
     all_sent r (log w) (tlog w) (sent_count w (cp_at w))"

definition relay_covered :: "'w \<Rightarrow> int \<Rightarrow> bool" where
  "relay_covered w s \<longleftrightarrow> s \<le> last_pos rec_seq (log w) \<and>
     all_sent r (log w) (tlog w) (\<lambda>t. max (sent_count w (cp_at w) t) (sent_count w s t))"

lemma sent_count_grow:
  "inv w' \<Longrightarrow> prefix (log w) (log w') \<Longrightarrow> s \<le> last_pos rec_seq (log w) \<Longrightarrow>
   sent_count w' s = sent_count w s"
  using upto_pos_grow[OF wf_log_pos[OF log_wf]] by (simp add: sent_count_def fun_eq_iff)

text \<open>A step that neither publishes nor moves the cursor keeps both.\<close>

lemma frame_good:
  assumes "relay_good w" "inv w'" "prefix (log w) (log w')" "cp w' = cp w" "tlog w' = tlog w"
  shows "relay_good w' \<and> (\<forall>s. relay_covered w s \<longrightarrow> relay_covered w' s)"
proof -
  have lp: "last_pos rec_seq (log w) \<le> last_pos rec_seq (log w')"
    by (rule last_pos_mono[OF wf_log_pos[OF log_wf[OF assms(2)]] assms(3)])
  have c: "cp_at w' = cp_at w" by (simp add: cp_at_def assms(4))
  show ?thesis
    using assms lp c sent_count_grow[OF assms(2,3)] all_sent_grow[OF _ assms(3)]
    by (auto simp: relay_good_def relay_covered_def)
qed

lemma covered_cp: "relay_good w \<Longrightarrow> relay_covered w (cp_at w)"
  by (simp add: relay_good_def relay_covered_def)

lemma batch_covers:
  assumes "relay_good w" "relay_covered w seq"
    and recs: "recs = tail_batch rec_seq seq (rc_batch (rl_cfg r)) (log w)" "recs \<noteq> []"
    and run: "relay_batch ctx r n w recs = Some (w', out)"
  shows "relay_good w' \<and> budget w' \<le> budget w \<and>
    (out = Done \<longrightarrow> relay_covered w' (rec_seq (last recs)))"
proof (cases "group_loop r recs [] Map.empty")
  case (Inl err)
  with run have "w' = w" "out \<noteq> Done" by (auto simp: relay_batch_def)
  with assms(1) show ?thesis by simp
next
  case (Inr g)
  obtain topics bt where g: "group_loop r recs [] Map.empty = Inr (topics, bt)"
    using Inr by (cases g) auto
  note gt = group_loop_topics[OF g]
  let ?A = "upto_pos rec_seq seq (log w)"
  let ?K = "\<lambda>t. max (sent_count w (cp_at w) t) (sent_count w seq t)"
  have i: "inv w" "pos_log rec_seq (log w)"
    using assms(1) wf_log_pos[OF log_wf] by (auto simp: relay_good_def)
  from tail_batch_split[OF i(2)] recs obtain rest where
    sp: "log w = ?A @ recs @ rest" "upto_pos rec_seq (rec_seq (last recs)) (log w) = ?A @ recs"
    by (auto simp: last_pos_def)
  have pre: "prefix (?A @ recs) (log w)" by (subst (2) sp(1)) simp
  have K: "all_sent r (log w) (tlog w) ?K" using assms(2) by (simp add: relay_covered_def)
  have A: "length (outbox r t ?A) \<le> ?K t" for t by (simp add: sent_count_def)
  obtain b where pt: "publish_topics n ctx (rl_publish r) bt w topics = Some (w', b)"
    and o: "out = (if b then Done else Halt)"
    using run g by (auto simp: relay_batch_def split: option.splits bool.splits)
  have m: "mget [] bt t = outbox r t recs" for t using gt by blast
  note ts = topics_sent[OF i(1) pre K A m pt]
  have w': "inv w'" "prefix (log w) (log w')" "cp w' = cp w" "budget w' \<le> budget w"
      "all_sent r (log w') (tlog w') ?K" using ts by auto
  have lp: "last_pos rec_seq (log w) \<le> last_pos rec_seq (log w')"
    by (rule last_pos_mono[OF wf_log_pos[OF log_wf[OF w'(1)]] w'(2)])
  have cpw: "cp_at w' = cp_at w" "cp_at w \<le> last_pos rec_seq (log w)"
    using w'(3) assms(1) by (simp_all add: cp_at_def relay_good_def)
  note sc = sent_count_grow[OF w'(1,2)]
  have good: "relay_good w'"
    using w'(1) lp cpw sc[OF cpw(2)] all_sent_less[OF w'(5), of "sent_count w (cp_at w)"]
    by (auto simp: relay_good_def)
  have ll: "rec_seq (last recs) \<le> last_pos rec_seq (log w)"
  proof (rule pos_log_le_last[OF i(2)])
    have "last recs \<in> set (?A @ recs @ rest)" using recs(2) by simp
    then show "last recs \<in> set (log w)" using sp(1) by metis
  qed
  have "relay_covered w' (rec_seq (last recs))" if b
  proof -
    from ts that have F: "all_sent r (log w') (tlog w')
        (\<lambda>t. if t \<in> set topics then max (?K t) (length (outbox r t (?A @ recs))) else ?K t)" by blast
    have "sent_count w (rec_seq (last recs)) t = length (outbox r t (?A @ recs))" for t
      by (simp add: sent_count_def sp(2))
    moreover have "length (outbox r t (?A @ recs)) \<le> ?K t" if "t \<notin> set topics" for t
      using A[of t] gt that by (simp add: outbox_append)
    ultimately have "all_sent r (log w') (tlog w')
        (\<lambda>t. max (sent_count w (cp_at w) t) (sent_count w (rec_seq (last recs)) t))"
      by (intro all_sent_less[OF F]) auto
    then show ?thesis using ll lp cpw sc[OF cpw(2)] sc[OF ll] by (simp add: relay_covered_def)
  qed
  with good w'(4) o show ?thesis by auto
qed

lemma batch_returns:
  assumes "inv w" "budget w < n" shows "relay_batch ctx r n w recs \<noteq> None"
proof (cases "group_loop r recs [] Map.empty")
  case (Inr g)
  obtain topics bt where "g = (topics, bt)" by force
  with Inr topics_return[OF assms, of bt topics] show ?thesis
    by (auto simp: relay_batch_def split: option.splits bool.splits)
qed (simp add: relay_batch_def)

lemma set_covers:
  assumes "relay_good w" "relay_covered w seq"
    and "cp_set (rl_cps r) w (rc_name (rl_cfg r)) seq = (w', r3)"
  shows "relay_good w' \<and> budget w' \<le> budget w \<and> relay_covered w' seq"
proof -
  have i: "inv w" using assms(1) by (simp add: relay_good_def)
  note l = set_law[OF i assms(3)] set_frame[OF i assms(3)]
  have w': "inv w'" "prefix (log w) (log w')" "tlog w' = tlog w" using l by auto
  have lp: "last_pos rec_seq (log w) \<le> last_pos rec_seq (log w')"
    by (rule last_pos_mono[OF wf_log_pos[OF log_wf[OF w'(1)]] w'(2)])
  have s: "seq \<le> last_pos rec_seq (log w)" "cp_at w \<le> last_pos rec_seq (log w)"
    using assms(1,2) by (simp_all add: relay_covered_def relay_good_def)
  note sc = sent_count_grow[OF w'(1,2)]
  have a: "all_sent r (log w') (tlog w') (\<lambda>t. max (sent_count w (cp_at w) t) (sent_count w seq t))"
    unfolding w'(3) by (rule all_sent_grow[OF _ w'(2)]) (use assms(2) in \<open>simp add: relay_covered_def\<close>)
  have c: "cp_at w' = seq \<or> cp_at w' = cp_at w" using l by (auto simp: cp_at_def)
  have "all_sent r (log w') (tlog w') (sent_count w' (cp_at w'))"
    by (rule all_sent_less[OF a]) (use c s sc in auto)
  moreover have "all_sent r (log w') (tlog w') (\<lambda>t. max (sent_count w' (cp_at w') t) (sent_count w' seq t))"
    by (rule all_sent_less[OF a]) (use c s sc in auto)
  ultimately show ?thesis using w' l lp s c by (auto simp: relay_good_def relay_covered_def)
qed

end

sublocale relay_env \<subseteq> tail: tailer "relay_ops ctx r" relay_good relay_covered log
  "rc_batch (rl_cfg r)" budget
proof unfold_locales
  fix w w' b assume g: "relay_good w" and c: "ctx_err (tl_ctx (relay_ops ctx r)) w = (w', b)"
  have i: "inv w" using g by (simp add: relay_good_def)
  from c have "ctx_err ctx w = (w', b)" by (simp add: relay_ops_def Let_def)
  from err_frame[OF i this] frame_good[OF g, of w'] show "relay_good w' \<and> budget w' \<le> budget w \<and>
      (\<not> b \<longrightarrow> 0 < budget w') \<and> (\<forall>s. relay_covered w s \<longrightarrow> relay_covered w' s)" by auto
next
  fix w w' b assume g: "relay_good w" and c: "ctx_sleep (tl_ctx (relay_ops ctx r)) w = (w', b)"
  have i: "inv w" using g by (simp add: relay_good_def)
  from c have "ctx_sleep ctx w = (w', b)" by (simp add: relay_ops_def Let_def)
  from sleep_frame[OF i this] frame_good[OF g, of w'] show "relay_good w' \<and> budget w' \<le> budget w \<and>
      (\<forall>s. relay_covered w s \<longrightarrow> relay_covered w' s)" by auto
next
  fix w w' seq assume g: "relay_good w" and c: "tl_get (relay_ops ctx r) w = (w', Inr seq)"
  have i: "inv w" using g by (simp add: relay_good_def)
  from c have c': "cp_get (rl_cps r) w (rc_name (rl_cfg r)) = (w', Inr seq)"
    by (simp add: relay_ops_def Let_def)
  from get_frame[OF i c'] get_law[OF i c'] frame_good[OF g, of w'] covered_cp[OF g]
  show "relay_good w' \<and> budget w' \<le> budget w \<and> relay_covered w' seq" by (auto simp: cp_at_def)
next
  fix w w' err assume g: "relay_good w" and c: "tl_get (relay_ops ctx r) w = (w', Inl err)"
  have i: "inv w" using g by (simp add: relay_good_def)
  from c have c': "cp_get (rl_cps r) w (rc_name (rl_cfg r)) = (w', Inl err)"
    by (simp add: relay_ops_def Let_def)
  from get_frame[OF i c'] get_law[OF i c'] frame_good[OF g, of w'] show "relay_good w'" by auto
next
  fix w seq w' r1 assume g: "relay_good w" and c: "tl_read (relay_ops ctx r) w seq = (w', r1)"
  have i: "inv w" using g by (simp add: relay_good_def)
  from c have c': "st_read_all (rl_store r) w seq (rc_batch (rl_cfg r)) = (w', r1)"
    by (simp add: relay_ops_def Let_def)
  have p: "tl_pos (relay_ops ctx r) = rec_seq" by (simp add: relay_ops_def Let_def)
  from read_law[OF i c'] read_frame[OF i c'] frame_good[OF g, of w']
  show "relay_good w' \<and> budget w' \<le> budget w \<and> (0 < budget w \<longrightarrow> budget w' < budget w) \<and>
      (\<forall>s. relay_covered w s \<longrightarrow> relay_covered w' s) \<and>
      (\<forall>recs. r1 = Inr recs \<longrightarrow>
        recs = tail_batch (tl_pos (relay_ops ctx r)) seq (rc_batch (rl_cfg r)) (log w'))"
    unfolding p by auto
next
  fix w seq recs n w' r2
  assume "relay_good w" "relay_covered w seq"
    "recs = tail_batch (tl_pos (relay_ops ctx r)) seq (rc_batch (rl_cfg r)) (log w)" "recs \<noteq> []"
    "tl_batch (relay_ops ctx r) n w recs = Some (w', r2)"
  then show "relay_good w' \<and> budget w' \<le> budget w \<and>
      (r2 = Done \<longrightarrow> relay_covered w' (tl_pos (relay_ops ctx r) (last recs)))"
    using batch_covers[of w seq recs n w' r2] by (simp add: relay_ops_def Let_def)
next
  fix w n and recs :: "'p recorded list" assume g: "relay_good w" "budget w < n"
  then show "tl_batch (relay_ops ctx r) n w recs \<noteq> None"
    using batch_returns[of w n recs] by (simp add: relay_ops_def Let_def relay_good_def)
next
  fix w seq w' r3
  assume "relay_good w" "relay_covered w seq" "tl_set (relay_ops ctx r) w seq = (w', r3)"
  then show "relay_good w' \<and> budget w' \<le> budget w \<and> relay_covered w' seq"
    using set_covers[of w seq w' r3] by (simp add: relay_ops_def Let_def)
qed

context relay_env
begin

text \<open>
  What consumers may rely on after any run: a topic is a redelivery of the log's messages
  for it that covers at least everything up to the checkpoint.
\<close>

lemma run_delivers:
  assumes "relay_good w" "relay_run n ctx r w = Some (w', res1)"
  shows "relay_good w'"
  using tail.run_good[OF assms(1)] assms(2) by (simp add: relay_run_def)

lemma run_terminates: "relay_good w \<Longrightarrow> budget w < n \<Longrightarrow> relay_run n ctx r w \<noteq> None"
  using tail.run_returns by (simp add: relay_run_def)

lemma good_topic:
  assumes "relay_good w"
  shows "\<exists>m. sent_count w (cp_at w) t \<le> m \<and> redelivered (outbox r t (log w)) m (tlog w t)"
  using assms by (auto simp: relay_good_def all_sent_def sent_upto_def)

end


section \<open>Message identifiers\<close>

lemma message_id_inj:
  assumes "message_id x = message_id y"
    and "CHR ''/'' \<notin> set (si_category (rec_stream x))" "CHR ''/'' \<notin> set (si_category (rec_stream y))"
  shows "rec_stream x = rec_stream y \<and> rec_version x = rec_version y"
proof -
  let ?p = "\<lambda>r. si_category (rec_stream r) @ CHR ''/'' # si_id (rec_stream r)"
  have "?p x @ CHR ''#'' # itoa (rec_version x) = ?p y @ CHR ''#'' # itoa (rec_version y)"
    using assms(1) by (simp add: message_id_def)
  then have v: "?p x = ?p y" "rec_version x = rec_version y"
    using suffix_itoa_inj[of "?p x" "CHR ''#''" "rec_version x" "?p y" "rec_version y"]
    by (auto simp: is_digit_def)
  have "rev (si_id (rec_stream x)) @ CHR ''/'' # rev (si_category (rec_stream x)) =
        rev (si_id (rec_stream y)) @ CHR ''/'' # rev (si_category (rec_stream y))"
    using arg_cong[OF v(1), of rev] by simp
  from split_at_last[OF this] assms(2,3) have
    "rev (si_id (rec_stream x)) = rev (si_id (rec_stream y))"
    "rev (si_category (rec_stream x)) = rev (si_category (rec_stream y))" by auto
  with v(2) show ?thesis by (cases "rec_stream x"; cases "rec_stream y") auto
qed

text \<open>Stream and version identify an entry of a log.\<close>

lemma wf_log_versions_distinct:
  assumes "wf_log l" shows "distinct (map (\<lambda>r. (rec_stream r, rec_version r)) l)"
proof -
  have "i = j" if ij: "i < j" "j < length l" "rec_stream (l ! i) = rec_stream (l ! j)"
      "rec_version (l ! i) = rec_version (l ! j)" for i j
  proof -
    let ?st = "rec_stream (l ! i)"
    have "l = take j l @ l ! j # drop (Suc j) l" using ij by (simp add: id_take_nth_drop)
    then have s: "stream_recs l ?st = stream_recs (take j l) ?st @ l ! j # stream_recs (drop (Suc j) l) ?st"
      using ij(3) by (metis (mono_tags, lifting) filter.simps(2) filter_append stream_recs_def)
    have "l ! i \<in> set (take j l)" using ij by (auto simp: in_set_conv_nth)
    then have m: "l ! i \<in> set (stream_recs (take j l) ?st)" by (simp add: stream_recs_def)
    have "distinct (map rec_version (stream_recs l ?st))"
      using assms by (simp add: wf_log_def distinct_map inj_on_def)
    moreover have "rec_version (l ! j) \<in> rec_version ` set (stream_recs (take j l) ?st)"
      using m ij(4) by (metis imageI)
    ultimately show ?thesis unfolding s by auto
  qed
  then show ?thesis
    unfolding distinct_conv_nth by (metis (no_types, lifting) length_map linorder_neqE_nat nth_map prod.inject)
qed

text \<open>
  A route that identifies its message by \<open>MessageID\<close>, as the routes are told to; translators
  always do.
\<close>

definition route_ids :: "('w, 'p, 'e) relay \<Rightarrow> bool" where
  "route_ids r \<longleftrightarrow> (\<forall>name route rec e t m. rl_routes r name = Some route \<longrightarrow>
     route rec e = Inr (Some (t, m)) \<longrightarrow> m_id m = message_id rec)"

lemma rl_out_id:
  assumes "route_ids r" "m \<in> set (rl_out r t rec)" shows "m_id m = message_id rec"
proof -
  from assms(2) have t: "relay_translate r rec = Inr (Some (t, m))"
    by (auto simp: rl_out_def split: sum.splits option.splits prod.splits if_splits)
  show ?thesis
  proof (cases "rl_routes r (rec_name rec)")
    case None
    with t show ?thesis
      by (auto simp: relay_translate_def new_message_def split: sum.splits option.splits)
  next
    case (Some route)
    with t obtain e where "route rec e = Inr (Some (t, m))"
      by (auto simp: relay_translate_def split: sum.splits)
    with Some assms(1) show ?thesis unfolding route_ids_def by blast
  qed
qed

lemma rl_out_short: "length (rl_out r t rec) \<le> 1"
  by (auto simp: rl_out_def split: sum.splits option.splits prod.splits)

lemma outbox_ids_distinct:
  assumes "route_ids r" "wf_log l" "\<And>x. x \<in> set l \<Longrightarrow> CHR ''/'' \<notin> set (si_category (rec_stream x))"
  shows "distinct (map m_id (outbox r t l))"
proof -
  have "distinct (map message_id l)"
  proof -
    have "distinct (map (\<lambda>r. (rec_stream r, rec_version r)) l)" by (rule wf_log_versions_distinct[OF assms(2)])
    then have d: "distinct l" and i: "inj_on (\<lambda>r. (rec_stream r, rec_version r)) (set l)"
      by (auto simp: distinct_map)
    have "inj_on message_id (set l)"
    proof (rule inj_onI)
      fix x y assume x: "x \<in> set l" "y \<in> set l" "message_id x = message_id y"
      with message_id_inj[OF x(3) assms(3)[OF x(1)] assms(3)[OF x(2)]] inj_onD[OF i, of x y]
      show "x = y" by simp
    qed
    with d show ?thesis by (simp add: distinct_map)
  qed
  then show ?thesis
  proof (induction l)
    case (Cons x xs)
    have sub: "m_id ` set (outbox r t ys) \<subseteq> message_id ` set ys" for ys
      using rl_out_id[OF assms(1)] by (auto simp: outbox_def)
    have "distinct (map m_id (rl_out r t x))"
      using rl_out_short[of r t x] by (cases "rl_out r t x") auto
    moreover have "m_id ` set (rl_out r t x) \<subseteq> {message_id x}" using rl_out_id[OF assms(1)] by auto
    moreover have "message_id x \<notin> m_id ` set (outbox r t xs)" using Cons.prems sub[of xs] by auto
    ultimately show ?case using Cons by (auto simp: outbox_Cons)
  qed simp
qed

end
