(* ===== verification/Feeder.thy ===== *)
theory Feeder
  imports Tailer Redelivery
begin

text \<open>
  Tailing readers that hand their batch on item by item and stop at the first error:
  \<open>projection.CatchUp\<close> and \<open>projection.InboxReader\<close>. The locale \<open>feeder\<close> shows once what a
  read model has received after any number of runs: a redelivery of the wanted items of its
  log. \<open>R w zs\<close> says what the world owes to the items applied so far, in order, whichever
  reader applied them.
\<close>

fun each_item :: "('w \<Rightarrow> 'x \<Rightarrow> 'w \<times> gerr option) \<Rightarrow> 'w \<Rightarrow> 'x list \<Rightarrow> 'w \<times> gerr option" where
  "each_item step w [] = (w, None)"
| "each_item step w (x # xs) =
     (case step w x of
        (w1, Some err) \<Rightarrow> (w1, Some err)
      | (w1, None) \<Rightarrow> each_item step w1 xs)"

definition item_batch :: "('w \<Rightarrow> 'x \<Rightarrow> 'w \<times> gerr option) \<Rightarrow> 'w \<Rightarrow> 'x list \<Rightarrow> 'w \<times> outcome" where
  "item_batch step w xs =
     (case each_item step w xs of
        (w1, None) \<Rightarrow> (w1, Done)
      | (w1, Some err) \<Rightarrow> (w1, Fail err))"

text \<open>\<open>fed\<close>: the applied items of one reader redeliver at least the first \<open>k\<close> it wants.\<close>

definition fed :: "('x \<Rightarrow> bool) \<Rightarrow> ('x \<Rightarrow> 'a) \<Rightarrow> ('a \<Rightarrow> bool) \<Rightarrow> 'x list \<Rightarrow> 'a list \<Rightarrow> nat \<Rightarrow> bool" where
  "fed wanted emb mine l zs k \<longleftrightarrow>
     (\<exists>n\<ge>k. redelivered (map emb (filter wanted l)) n (filter mine zs))"

lemma fed_grow: "fed w i m l zs k \<Longrightarrow> prefix l l' \<Longrightarrow> fed w i m l' zs k"
  unfolding fed_def prefix_def using redelivered_append by fastforce

lemma fed_less: "fed w i m l zs k \<Longrightarrow> k' \<le> k \<Longrightarrow> fed w i m l zs k'"
  unfolding fed_def by (meson order_trans)

lemma fed_other: "\<not> m z \<Longrightarrow> fed w i m l (zs @ [z]) k = fed w i m l zs k"
  by (simp add: fed_def)

lemma fed_item:
  assumes "fed w i m (A @ x # B) zs k" "length (filter w A) \<le> k" "w x" "m (i x)"
  shows "fed w i m (A @ x # B) (zs @ [i x]) (max k (length (filter w (A @ [x]))))"
proof -
  from assms(1) obtain n where n: "k \<le> n" "redelivered (map i (filter w (A @ x # B))) n (filter m zs)"
    by (auto simp: fed_def)
  let ?a = "length (filter w A)"
  have "redelivered (map i (filter w (A @ x # B))) (max n (?a + 1))
      (filter m zs @ drop ?a (take (?a + 1) (map i (filter w (A @ x # B)))))"
    by (rule redelivered.chunk[OF n(2)]) (use assms(2,3) n(1) in auto)
  moreover have "drop ?a (take (?a + 1) (map i (filter w (A @ x # B)))) = [i x]"
    using assms(3) by simp
  ultimately show ?thesis
    using n(1) assms(3,4) by (auto simp: fed_def intro!: exI[of _ "max n (?a + 1)"])
qed

locale feeder =
  fixes t :: "('w, 'x) tail_ops"
    and step :: "'w \<Rightarrow> 'x \<Rightarrow> 'w \<times> gerr option"
    and wanted :: "'x \<Rightarrow> bool" and emb :: "'x \<Rightarrow> 'a" and mine :: "'a \<Rightarrow> bool"
    and R :: "'w \<Rightarrow> 'a list \<Rightarrow> bool"
    and items :: "'w \<Rightarrow> 'x list" and limit :: int
    and cursor :: "'w \<Rightarrow> int" and budget :: "'w \<Rightarrow> nat"
  assumes f_batch: "tl_batch t n w xs = Some (item_batch step w xs)"
    and f_mine: "wanted x \<Longrightarrow> mine (emb x)"
    and f_log: "R w zs \<Longrightarrow> pos_log (tl_pos t) (items w)"
    and f_err: "R w zs \<Longrightarrow> ctx_err (tl_ctx t) w = (w', b) \<Longrightarrow>
          R w' zs \<and> prefix (items w) (items w') \<and> cursor w' = cursor w \<and>
          budget w' \<le> budget w \<and> (\<not> b \<longrightarrow> 0 < budget w')"
    and f_sleep: "R w zs \<Longrightarrow> ctx_sleep (tl_ctx t) w = (w', b) \<Longrightarrow>
          R w' zs \<and> prefix (items w) (items w') \<and> cursor w' = cursor w \<and> budget w' \<le> budget w"
    and f_get: "R w zs \<Longrightarrow> tl_get t w = (w', g) \<Longrightarrow>
          R w' zs \<and> prefix (items w) (items w') \<and> cursor w' = cursor w \<and> budget w' \<le> budget w \<and>
          (\<forall>seq. g = Inr seq \<longrightarrow> seq = cursor w)"
    and f_read: "R w zs \<Longrightarrow> tl_read t w seq = (w', rd) \<Longrightarrow>
          R w' zs \<and> prefix (items w) (items w') \<and> cursor w' = cursor w \<and> budget w' \<le> budget w \<and>
          (0 < budget w \<longrightarrow> budget w' < budget w) \<and>
          (\<forall>xs. rd = Inr xs \<longrightarrow> xs = tail_batch (tl_pos t) seq limit (items w'))"
    and f_step: "R w zs \<Longrightarrow> step w x = (w', e) \<Longrightarrow>
          prefix (items w) (items w') \<and> cursor w' = cursor w \<and> budget w' \<le> budget w \<and>
          (if wanted x then R w' (zs @ [emb x]) \<or> e \<noteq> None \<and> R w' zs else R w' zs)"
    and f_set: "R w zs \<Longrightarrow> tl_set t w seq = (w', e) \<Longrightarrow>
          R w' zs \<and> prefix (items w) (items w') \<and> budget w' \<le> budget w \<and>
          (cursor w' = seq \<or> e \<noteq> None \<and> cursor w' = cursor w)"
begin

definition count_at :: "'w \<Rightarrow> int \<Rightarrow> nat" where
  "count_at w s = length (filter wanted (upto_pos (tl_pos t) s (items w)))"

definition fed_good :: "'w \<Rightarrow> bool" where
  "fed_good w \<longleftrightarrow> cursor w \<le> last_pos (tl_pos t) (items w) \<and>
     (\<exists>zs. R w zs \<and> fed wanted emb mine (items w) zs (count_at w (cursor w)))"

definition fed_covered :: "'w \<Rightarrow> int \<Rightarrow> bool" where
  "fed_covered w s \<longleftrightarrow> s \<le> last_pos (tl_pos t) (items w) \<and>
     (\<exists>zs. R w zs \<and>
        fed wanted emb mine (items w) zs (max (count_at w (cursor w)) (count_at w s)))"

lemma count_grow:
  "R w' zs \<Longrightarrow> prefix (items w) (items w') \<Longrightarrow> s \<le> last_pos (tl_pos t) (items w) \<Longrightarrow>
   count_at w' s = count_at w s"
  using upto_pos_grow[OF f_log] by (simp add: count_at_def)

lemma last_grow:
  "R w' zs \<Longrightarrow> prefix (items w) (items w') \<Longrightarrow>
   last_pos (tl_pos t) (items w) \<le> last_pos (tl_pos t) (items w')"
  by (rule last_pos_mono[OF f_log])

lemma frame_fed:
  assumes "fed_good w" "\<And>zs. R w zs \<Longrightarrow> R w' zs" "prefix (items w) (items w')" "cursor w' = cursor w"
  shows "fed_good w' \<and> (\<forall>s. fed_covered w s \<longrightarrow> fed_covered w' s)"
proof
  from assms(1) obtain zs where
    z: "R w zs" "fed wanted emb mine (items w) zs (count_at w (cursor w))"
       "cursor w \<le> last_pos (tl_pos t) (items w)" by (auto simp: fed_good_def)
  note z' = assms(2)[OF z(1)]
  have c: "cursor w' \<le> last_pos (tl_pos t) (items w')"
    using z(3) last_grow[OF z' assms(3)] assms(4) by simp
  then show "fed_good w'"
    using z' count_grow[OF z' assms(3) z(3)] fed_grow[OF z(2) assms(3)] assms(4)
    by (auto simp: fed_good_def)
  show "\<forall>s. fed_covered w s \<longrightarrow> fed_covered w' s"
  proof (intro allI impI)
    fix s assume "fed_covered w s"
    then obtain zs where y: "R w zs" "s \<le> last_pos (tl_pos t) (items w)"
        "fed wanted emb mine (items w) zs (max (count_at w (cursor w)) (count_at w s))"
      by (auto simp: fed_covered_def)
    note y' = assms(2)[OF y(1)]
    show "fed_covered w' s"
      using y' y(2) last_grow[OF y' assms(3)] count_grow[OF y' assms(3) z(3)]
        count_grow[OF y' assms(3) y(2)] fed_grow[OF y(3) assms(3)] assms(4)
      by (auto simp: fed_covered_def)
  qed
qed

lemma covered_cursor: "fed_good w \<Longrightarrow> fed_covered w (cursor w)"
  by (simp add: fed_good_def fed_covered_def)

text \<open>The items of a batch, one by one.\<close>

lemma each_item_fed:
  assumes "R w zs" "prefix (A @ xs) (items w)" "fed wanted emb mine (items w) zs k"
    and "length (filter wanted A) \<le> k" "each_item step w xs = (w', e)"
  shows "\<exists>zs'. R w' zs' \<and> prefix (items w) (items w') \<and> cursor w' = cursor w \<and> budget w' \<le> budget w \<and>
    fed wanted emb mine (items w') zs' k \<and>
    (e = None \<longrightarrow> fed wanted emb mine (items w') zs' (max k (length (filter wanted (A @ xs)))))"
  using assms
proof (induction xs arbitrary: w zs A k)
  case Nil
  then show ?case by (auto simp: max_def)
next
  case (Cons x xs)
  obtain w1 e1 where s: "step w x = (w1, e1)" by force
  note st = f_step[OF Cons.prems(1) s]
  have p: "prefix (items w) (items w1)" using st by blast
  then obtain B where B: "items w1 = A @ x # B" "prefix xs B"
    using Cons.prems(2) by (auto simp: prefix_def)
  have k1: "fed wanted emb mine (items w1) zs k" using fed_grow[OF Cons.prems(3) p] .
  have item: "fed wanted emb mine (items w1) (zs @ [emb x]) (max k (length (filter wanted (A @ [x]))))"
    if "wanted x"
    using fed_item[of wanted emb mine A x B zs k] k1 that f_mine Cons.prems(4) by (simp add: B(1))
  show ?case
  proof (cases e1)
    case (Some err)
    then have w': "w' = w1" "e = Some err" using Cons.prems(5) s by simp_all
    show ?thesis
    proof (cases "R w1 zs")
      case True
      with w' st k1 show ?thesis by auto
    next
      case False
      with st have "wanted x" "R w1 (zs @ [emb x])" by (auto split: if_splits)
      with item[OF this(1)] w' st show ?thesis by (auto intro!: exI[of _ "zs @ [emb x]"] elim: fed_less)
    qed
  next
    case None
    let ?zs = "if wanted x then zs @ [emb x] else zs"
    let ?k = "max k (length (filter wanted (A @ [x])))"
    have R1: "R w1 ?zs" using st None by auto
    have f1: "fed wanted emb mine (items w1) ?zs ?k"
      using item k1 Cons.prems(4) by (auto simp: max_def)
    have pre: "prefix ((A @ [x]) @ xs) (items w1)" using B by (auto simp: prefix_def)
    have run: "each_item step w1 xs = (w', e)" using Cons.prems(5) s None by simp
    obtain zs' where z: "R w' zs'" "prefix (items w1) (items w')" "cursor w' = cursor w1"
        "budget w' \<le> budget w1" "fed wanted emb mine (items w') zs' ?k"
        "e = None \<longrightarrow> fed wanted emb mine (items w') zs' (max ?k (length (filter wanted ((A @ [x]) @ xs))))"
      using Cons.IH[OF R1 pre f1 _ run] by auto
    have "fed wanted emb mine (items w') zs' (max k (length (filter wanted (A @ x # xs))))" if "e = None"
      using z(6) that by (auto elim!: fed_less)
    then show ?thesis
      using z st prefix_order.trans[OF p z(2)] fed_less[OF z(5), of k] by (intro exI[of _ zs']) auto
  qed
qed

lemma batch_fed:
  assumes "fed_good w" "fed_covered w seq" "xs = tail_batch (tl_pos t) seq limit (items w)" "xs \<noteq> []"
    and "tl_batch t n w xs = Some (w', out)"
  shows "fed_good w' \<and> budget w' \<le> budget w \<and> (out = Done \<longrightarrow> fed_covered w' (tl_pos t (last xs)))"
proof -
  let ?f = "tl_pos t" and ?s = "tl_pos t (last xs)"
  let ?A = "upto_pos ?f seq (items w)"
  let ?k = "max (count_at w (cursor w)) (count_at w seq)"
  obtain e where e: "each_item step w xs = (w', e)" and o: "out = Done \<longleftrightarrow> e = None"
    using assms(5) by (auto simp: f_batch item_batch_def split: prod.splits option.splits)
  from assms(2) obtain zs where z: "R w zs" "fed wanted emb mine (items w) zs ?k"
    by (auto simp: fed_covered_def)
  have c: "cursor w \<le> last_pos ?f (items w)" using assms(1) by (simp add: fed_good_def)
  from tail_batch_split[OF f_log[OF z(1)]] assms(3,4) obtain rest where
    sp: "items w = ?A @ xs @ rest" "upto_pos ?f ?s (items w) = ?A @ xs"
    by (auto simp: last_pos_def)
  have pre: "prefix (?A @ xs) (items w)" by (subst (2) sp(1)) simp
  have A: "length (filter wanted ?A) \<le> ?k" by (simp add: count_at_def)
  obtain zs' where z': "R w' zs'" "prefix (items w) (items w')" "cursor w' = cursor w"
      "budget w' \<le> budget w" "fed wanted emb mine (items w') zs' ?k"
      "e = None \<longrightarrow> fed wanted emb mine (items w') zs' (max ?k (length (filter wanted (?A @ xs))))"
    using each_item_fed[OF z(1) pre z(2) A e] by blast
  have ll: "?s \<le> last_pos ?f (items w)"
  proof (rule pos_log_le_last[OF f_log[OF z(1)]])
    have "last xs \<in> set (?A @ xs @ rest)" using assms(4) by simp
    then show "last xs \<in> set (items w)" using sp(1) by metis
  qed
  note grow = last_grow[OF z'(1,2)] count_grow[OF z'(1,2)]
  have "fed_good w'"
    using z'(1,3) c grow(1) grow(2)[OF c] fed_less[OF z'(5), of "count_at w (cursor w)"]
    by (auto simp: fed_good_def)
  moreover have "fed_covered w' ?s" if "e = None"
  proof -
    have "count_at w ?s = length (filter wanted (?A @ xs))" by (simp add: count_at_def sp(2))
    with z'(6) that have "fed wanted emb mine (items w') zs' (max (count_at w (cursor w)) (count_at w ?s))"
      by (auto elim!: fed_less)
    then show ?thesis using z'(1,3) ll grow(1) grow(2)[OF c] grow(2)[OF ll]
      by (auto simp: fed_covered_def)
  qed
  ultimately show ?thesis using z'(4) o by auto
qed

lemma set_fed:
  assumes "fed_good w" "fed_covered w seq" "tl_set t w seq = (w', e)"
  shows "fed_good w' \<and> budget w' \<le> budget w \<and> fed_covered w' seq"
proof -
  let ?k = "max (count_at w (cursor w)) (count_at w seq)"
  from assms(2) obtain zs where z: "R w zs" "fed wanted emb mine (items w) zs ?k"
      "seq \<le> last_pos (tl_pos t) (items w)" by (auto simp: fed_covered_def)
  have c: "cursor w \<le> last_pos (tl_pos t) (items w)" using assms(1) by (simp add: fed_good_def)
  from f_set[OF z(1) assms(3)] have s: "R w' zs" "prefix (items w) (items w')" "budget w' \<le> budget w"
      "cursor w' = seq \<or> cursor w' = cursor w" by auto
  note grow = last_grow[OF s(1,2)] count_grow[OF s(1,2)]
  have f: "fed wanted emb mine (items w') zs ?k" by (rule fed_grow[OF z(2) s(2)])
  have "fed wanted emb mine (items w') zs (count_at w' (cursor w'))"
    "fed wanted emb mine (items w') zs (max (count_at w' (cursor w')) (count_at w' seq))"
    by (rule fed_less[OF f], use s(4) grow(2)[OF c] grow(2)[OF z(3)] in auto)+
  then show ?thesis using s c z(3) grow(1) by (auto simp: fed_good_def fed_covered_def)
qed

end

sublocale feeder \<subseteq> tail: tailer t fed_good fed_covered items limit budget
proof unfold_locales
  fix w w' b assume g: "fed_good w" and c: "ctx_err (tl_ctx t) w = (w', b)"
  obtain zs where "R w zs" using g by (auto simp: fed_good_def)
  from f_err[OF this c] f_err[OF _ c] frame_fed[OF g, of w']
  show "fed_good w' \<and> budget w' \<le> budget w \<and> (\<not> b \<longrightarrow> 0 < budget w') \<and>
      (\<forall>s. fed_covered w s \<longrightarrow> fed_covered w' s)" by blast
next
  fix w w' b assume g: "fed_good w" and c: "ctx_sleep (tl_ctx t) w = (w', b)"
  obtain zs where "R w zs" using g by (auto simp: fed_good_def)
  from f_sleep[OF this c] f_sleep[OF _ c] frame_fed[OF g, of w']
  show "fed_good w' \<and> budget w' \<le> budget w \<and> (\<forall>s. fed_covered w s \<longrightarrow> fed_covered w' s)" by blast
next
  fix w w' seq assume g: "fed_good w" and c: "tl_get t w = (w', Inr seq)"
  obtain zs where "R w zs" using g by (auto simp: fed_good_def)
  from f_get[OF this c] f_get[OF _ c] frame_fed[OF g, of w'] covered_cursor[OF g]
  show "fed_good w' \<and> budget w' \<le> budget w \<and> fed_covered w' seq" by blast
next
  fix w w' err assume g: "fed_good w" and c: "tl_get t w = (w', Inl err)"
  obtain zs where "R w zs" using g by (auto simp: fed_good_def)
  from f_get[OF this c] f_get[OF _ c] frame_fed[OF g, of w'] show "fed_good w'" by blast
next
  fix w seq w' r1 assume g: "fed_good w" and c: "tl_read t w seq = (w', r1)"
  obtain zs where "R w zs" using g by (auto simp: fed_good_def)
  from f_read[OF this c] f_read[OF _ c] frame_fed[OF g, of w']
  show "fed_good w' \<and> budget w' \<le> budget w \<and> (0 < budget w \<longrightarrow> budget w' < budget w) \<and>
      (\<forall>s. fed_covered w s \<longrightarrow> fed_covered w' s) \<and>
      (\<forall>recs. r1 = Inr recs \<longrightarrow> recs = tail_batch (tl_pos t) seq limit (items w'))" by blast
next
  fix w seq recs n w' r2
  assume "fed_good w" "fed_covered w seq" "recs = tail_batch (tl_pos t) seq limit (items w)"
    "recs \<noteq> []" "tl_batch t n w recs = Some (w', r2)"
  then show "fed_good w' \<and> budget w' \<le> budget w \<and> (r2 = Done \<longrightarrow> fed_covered w' (tl_pos t (last recs)))"
    by (rule batch_fed)
next
  fix w n recs show "tl_batch t n w recs \<noteq> None" by (simp add: f_batch)
next
  fix w seq w' r3 assume "fed_good w" "fed_covered w seq" "tl_set t w seq = (w', r3)"
  then show "fed_good w' \<and> budget w' \<le> budget w \<and> fed_covered w' seq" by (rule set_fed)
qed

end
