(* ===== verification/Projection.thy ===== *)
theory Projection
  imports Registry Broker Feeder
begin

text \<open>
  Read models (\<open>projection/projection.go\<close>, \<open>catchup.go\<close>, \<open>inbox.go\<close>, \<open>wait.go\<close>): a
  projection's handlers, the runner over the service's own event store, the inbox of foreign
  messages with its writer and reader, resetting, and the wait for a checkpoint. Handlers act
  on the world; the two runners are instances of the tailing loop.
\<close>

section \<open>Projections\<close>

record meta =
  pm_stream :: stream_id
  pm_version :: int
  pm_seq :: int
  pm_at :: instant
  pm_meta :: metadata

record ('w, 'p, 'e) projection =
  pj_name :: string
  pj_domain :: "string \<rightharpoonup> ('w \<Rightarrow> 'e \<Rightarrow> meta \<Rightarrow> 'w \<times> gerr option)"
  pj_foreign :: "string \<rightharpoonup> ('w, 'p) msg_handler"

definition new_projection :: "string \<Rightarrow> ('w, 'p, 'e) projection option" where
  "new_projection name =
     (if name = [] then None
      else Some \<lparr>pj_name = name, pj_domain = Map.empty, pj_foreign = Map.empty\<rparr>)"

text \<open>Registration; a duplicate panics (\<open>None\<close>). The type parameter gives name and decoder.\<close>

definition pj_on ::
  "string \<Rightarrow> ('w \<Rightarrow> 'e \<Rightarrow> meta \<Rightarrow> 'w \<times> gerr option) \<Rightarrow> ('w, 'p, 'e) projection
   \<Rightarrow> ('w, 'p, 'e) projection option" where
  "pj_on name fn p =
     (if pj_domain p name \<noteq> None then None
      else Some (p\<lparr>pj_domain := (pj_domain p)(name \<mapsto> fn)\<rparr>))"

definition integration_key :: "string \<Rightarrow> int \<Rightarrow> string" where
  "integration_key name version = name @ ''@v'' @ itoa version"

definition pj_on_integration ::
  "string \<Rightarrow> int \<Rightarrow> ('p \<Rightarrow> 'c res) \<Rightarrow> ('w \<Rightarrow> 'c \<Rightarrow> 'p message \<Rightarrow> 'w \<times> gerr option)
   \<Rightarrow> ('w, 'p, 'e) projection \<Rightarrow> ('w, 'p, 'e) projection option" where
  "pj_on_integration name version unmarshal fn p =
     (let key = integration_key name version in
      if pj_foreign p key \<noteq> None then None
      else Some (p\<lparr>pj_foreign := (pj_foreign p)(key \<mapsto> (\<lambda>w msg.
        case unmarshal (m_payload msg) of
          Inl err \<Rightarrow> (w, Some (Wrapf ''projection %s: decoding %s (message %s): %w''
                            [FStr (pj_name p), FStr key, FStr (m_id msg)] err))
        | Inr e \<Rightarrow> fn w e msg))\<rparr>))"

definition store_checkpoint :: "('w, 'p, 'e) projection \<Rightarrow> string" where
  "store_checkpoint p = ''projection.'' @ pj_name p @ ''.store''"

definition inbox_checkpoint :: "('w, 'p, 'e) projection \<Rightarrow> string" where
  "inbox_checkpoint p = ''projection.'' @ pj_name p @ ''.inbox''"

definition reset_projection ::
  "'w cp_ops \<Rightarrow> ('w, 'p, 'e) projection \<Rightarrow> 'w \<Rightarrow> 'w \<times> gerr option" where
  "reset_projection cps p w =
     (case cp_set cps w (store_checkpoint p) 0 of
        (w1, Some err) \<Rightarrow> (w1, Some (Wrapf ''projection %s: reset: %w'' [FStr (pj_name p)] err))
      | (w1, None) \<Rightarrow>
          (case cp_set cps w1 (inbox_checkpoint p) 0 of
             (w2, Some err) \<Rightarrow> (w2, Some (Wrapf ''projection %s: reset: %w'' [FStr (pj_name p)] err))
           | (w2, None) \<Rightarrow> (w2, None)))"

section \<open>Observation\<close>

datatype source = SourceStore | SourceInbox

record item =
  it_projection :: string
  it_source :: source
  it_name :: string
  it_id :: string
  it_meta :: metadata

text \<open>
  An observer starts something (it may move the world, as a span does) and optionally returns
  a completion to be told the handler's error.
\<close>

type_synonym 'w observer = "'w \<Rightarrow> item \<Rightarrow> 'w \<times> ('w \<Rightarrow> gerr option \<Rightarrow> 'w) option"

record 'w pj_config =
  pc_poll :: int
  pc_batch :: int
  pc_observe :: "'w observer option"

definition pj_defaults :: "'w pj_config \<Rightarrow> 'w pj_config" where
  "pj_defaults c = c\<lparr>
     pc_poll := if pc_poll c \<le> 0 then 200000000 else pc_poll c,
     pc_batch := if pc_batch c \<le> 0 then 100 else pc_batch c\<rparr>"

definition observe ::
  "'w pj_config \<Rightarrow> item \<Rightarrow> ('w \<Rightarrow> 'w \<times> gerr option) \<Rightarrow> 'w \<Rightarrow> 'w \<times> gerr option" where
  "observe c it fn w =
     (case pc_observe c of
        None \<Rightarrow> fn w
      | Some obs \<Rightarrow>
          (case obs w it of
             (w1, done1) \<Rightarrow>
               (case fn w1 of
                  (w2, err) \<Rightarrow> ((case done1 of None \<Rightarrow> w2 | Some d \<Rightarrow> d w2 err), err))))"

section \<open>The runner over the own store\<close>

record ('w, 'p, 'e) catch_up =
  cu_projection :: "('w, 'p, 'e) projection"
  cu_store :: "('w, 'p) store_ops"
  cu_registry :: "('p, 'e) registry"
  cu_cps :: "'w cp_ops"
  cu_cfg :: "'w pj_config"

definition new_catch_up ::
  "('w, 'p, 'e) projection \<Rightarrow> ('w, 'p) store_ops \<Rightarrow> ('p, 'e) registry \<Rightarrow> 'w cp_ops \<Rightarrow> 'w pj_config
   \<Rightarrow> ('w, 'p, 'e) catch_up" where
  "new_catch_up p store registry cps cfg =
     \<lparr>cu_projection = p, cu_store = store, cu_registry = registry, cu_cps = cps,
      cu_cfg = pj_defaults cfg\<rparr>"

definition meta_of :: "'p recorded \<Rightarrow> meta" where
  "meta_of rec = \<lparr>pm_stream = rec_stream rec, pm_version = rec_version rec, pm_seq = rec_seq rec,
     pm_at = rec_at rec, pm_meta = rec_meta rec\<rparr>"

definition store_item :: "('w, 'p, 'e) projection \<Rightarrow> 'p recorded \<Rightarrow> item" where
  "store_item p rec = \<lparr>it_projection = pj_name p, it_source = SourceStore, it_name = rec_name rec,
     it_id = si_category (rec_stream rec) @ ''/'' @ si_id (rec_stream rec) @ ''#'' @ itoa (rec_version rec),
     it_meta = rec_meta rec\<rparr>"

definition catch_up_step :: "('w, 'p, 'e) catch_up \<Rightarrow> 'w \<Rightarrow> 'p recorded \<Rightarrow> 'w \<times> gerr option" where
  "catch_up_step c w rec =
     (let p = cu_projection c; name = store_checkpoint p in
      case pj_domain p (rec_name rec) of
        None \<Rightarrow> (w, None)
      | Some handler \<Rightarrow>
          (case decode (cu_registry c) rec of
             Inl err \<Rightarrow> (w, Some (Wrapf ''%s: %w'' [FStr name] err))
           | Inr event \<Rightarrow>
               (case observe (cu_cfg c) (store_item p rec) (\<lambda>w. handler w event (meta_of rec)) w of
                  (w1, None) \<Rightarrow> (w1, None)
                | (w1, Some err) \<Rightarrow>
                    (w1, Some (Wrapf ''%s: handling %s at seq %d: %w''
                                 [FStr name, FStr (rec_name rec), FInt (rec_seq rec)] err)))))"

definition catch_up_ops :: "'w ctx_ops \<Rightarrow> ('w, 'p, 'e) catch_up \<Rightarrow> ('w, 'p recorded) tail_ops" where
  "catch_up_ops ctx c =
     (let name = store_checkpoint (cu_projection c) in
      \<lparr>tl_ctx = ctx,
       tl_get = (\<lambda>w. cp_get (cu_cps c) w name),
       tl_read = (\<lambda>w seq. st_read_all (cu_store c) w seq (pc_batch (cu_cfg c))),
       tl_pos = rec_seq,
       tl_batch = (\<lambda>n w recs. Some (item_batch (catch_up_step c) w recs)),
       tl_set = (\<lambda>w seq. cp_set (cu_cps c) w name seq),
       tl_get_err = Wrapf ''%s: %w'' [FStr name],
       tl_read_err = Wrapf ''%s: read: %w'' [FStr name],
       tl_set_err = Wrapf ''%s: checkpoint: %w'' [FStr name]\<rparr>)"

definition catch_up_run ::
  "nat \<Rightarrow> 'w ctx_ops \<Rightarrow> ('w, 'p, 'e) catch_up \<Rightarrow> 'w \<Rightarrow> ('w \<times> gerr option) option" where
  "catch_up_run n ctx c w = tail_run n (catch_up_ops ctx c) w"

section \<open>The inbox\<close>

record 'p inbox_message =
  im_seq :: int
  im_msg :: "'p message"

record ('w, 'p) inbox_ops =
  ib_append :: "'w \<Rightarrow> 'p message \<Rightarrow> 'w \<times> gerr option"
  ib_read_all :: "'w \<Rightarrow> int \<Rightarrow> int \<Rightarrow> 'w \<times> 'p inbox_message list res"
  ib_head :: "'w \<Rightarrow> 'w \<times> int res"

record 'p mem_inbox =
  mi_msgs :: "'p inbox_message list"
  mi_by_id :: "string \<rightharpoonup> bool"

definition new_mem_inbox :: "'p mem_inbox" where
  "new_mem_inbox = \<lparr>mi_msgs = [], mi_by_id = Map.empty\<rparr>"

definition mi_append :: "'p mem_inbox \<Rightarrow> 'p message \<Rightarrow> 'p mem_inbox" where
  "mi_append i msg =
     (if mget False (mi_by_id i) (m_id msg) then i
      else i\<lparr>mi_by_id := (mi_by_id i)(m_id msg \<mapsto> True),
             mi_msgs := mi_msgs i @ [\<lparr>im_seq = int (length (mi_msgs i)) + 1, im_msg = msg\<rparr>]\<rparr>)"

definition mi_read_all :: "'p mem_inbox \<Rightarrow> int \<Rightarrow> int \<Rightarrow> 'p inbox_message list" where
  "mi_read_all i after limit = read_loop im_seq after limit [] (mi_msgs i)"

definition mi_head :: "'p mem_inbox \<Rightarrow> int" where
  "mi_head i = (if mi_msgs i = [] then 0 else im_seq (last (mi_msgs i)))"

text \<open>The writer: what it hands to \<open>Subscribe\<close>.\<close>

definition inbox_writer_handler :: "('w, 'p) inbox_ops \<Rightarrow> ('w, 'p) msg_handler" where
  "inbox_writer_handler ib = (\<lambda>w msg. ib_append ib w msg)"

section \<open>The runner over the inbox\<close>

record ('w, 'p, 'e) inbox_reader =
  ir_projection :: "('w, 'p, 'e) projection"
  ir_inbox :: "('w, 'p) inbox_ops"
  ir_cps :: "'w cp_ops"
  ir_cfg :: "'w pj_config"

definition new_inbox_reader ::
  "('w, 'p, 'e) projection \<Rightarrow> ('w, 'p) inbox_ops \<Rightarrow> 'w cp_ops \<Rightarrow> 'w pj_config
   \<Rightarrow> ('w, 'p, 'e) inbox_reader" where
  "new_inbox_reader p ib cps cfg =
     \<lparr>ir_projection = p, ir_inbox = ib, ir_cps = cps, ir_cfg = pj_defaults cfg\<rparr>"

definition inbox_item :: "('w, 'p, 'e) projection \<Rightarrow> 'p message \<Rightarrow> item" where
  "inbox_item p msg = \<lparr>it_projection = pj_name p, it_source = SourceInbox, it_name = m_type msg,
     it_id = m_id msg, it_meta = m_meta msg\<rparr>"

definition inbox_step ::
  "('w, 'p, 'e) inbox_reader \<Rightarrow> 'w \<Rightarrow> 'p inbox_message \<Rightarrow> 'w \<times> gerr option" where
  "inbox_step c w im =
     (let p = ir_projection c; msg = im_msg im in
      case pj_foreign p (integration_key (m_type msg) (m_version msg)) of
        None \<Rightarrow> (w, None)
      | Some handler \<Rightarrow>
          (case observe (ir_cfg c) (inbox_item p msg) (\<lambda>w. handler w msg) w of
             (w1, None) \<Rightarrow> (w1, None)
           | (w1, Some err) \<Rightarrow>
               (w1, Some (Wrapf ''%s: handling %s (message %s): %w''
                            [FStr (inbox_checkpoint p), FStr (m_type msg), FStr (m_id msg)] err))))"

definition inbox_reader_ops ::
  "'w ctx_ops \<Rightarrow> ('w, 'p, 'e) inbox_reader \<Rightarrow> ('w, 'p inbox_message) tail_ops" where
  "inbox_reader_ops ctx c =
     (let name = inbox_checkpoint (ir_projection c) in
      \<lparr>tl_ctx = ctx,
       tl_get = (\<lambda>w. cp_get (ir_cps c) w name),
       tl_read = (\<lambda>w seq. ib_read_all (ir_inbox c) w seq (pc_batch (ir_cfg c))),
       tl_pos = im_seq,
       tl_batch = (\<lambda>n w msgs. Some (item_batch (inbox_step c) w msgs)),
       tl_set = (\<lambda>w seq. cp_set (ir_cps c) w name seq),
       tl_get_err = Wrapf ''%s: %w'' [FStr name],
       tl_read_err = Wrapf ''%s: read: %w'' [FStr name],
       tl_set_err = Wrapf ''%s: checkpoint: %w'' [FStr name]\<rparr>)"

definition inbox_reader_run ::
  "nat \<Rightarrow> 'w ctx_ops \<Rightarrow> ('w, 'p, 'e) inbox_reader \<Rightarrow> 'w \<Rightarrow> ('w \<times> gerr option) option" where
  "inbox_reader_run n ctx c w = tail_run n (inbox_reader_ops ctx c) w"

section \<open>Waiting for a checkpoint\<close>

text \<open>
  The poll interval a caller may set does not change what the wait reads. The result carries
  \<open>None\<close> for nil; \<open>ctx_cause\<close> is what \<open>ctx.Err()\<close> returns once the context has ended.
\<close>

fun wait_loop ::
  "nat \<Rightarrow> 'w ctx_ops \<Rightarrow> 'w cp_ops \<Rightarrow> gerr \<Rightarrow> string \<Rightarrow> int \<Rightarrow> 'w \<Rightarrow> ('w \<times> gerr option) option" where
  "wait_loop 0 ctx cps ctx_cause name seq w = None"
| "wait_loop (Suc n) ctx cps ctx_cause name seq w =
     (case cp_get cps w name of
        (w1, Inl err) \<Rightarrow> Some (w1, Some (Wrapf ''wait for %s: %w'' [FStr name] err))
      | (w1, Inr cur) \<Rightarrow>
          if seq \<le> cur then Some (w1, None)
          else (case ctx_sleep ctx w1 of
                  (w2, False) \<Rightarrow> Some (w2, Some (Wrapf ''wait for %s at seq %d (checkpoint at %d): %w''
                                   [FStr name, FInt seq, FInt cur] ctx_cause))
                | (w2, True) \<Rightarrow> wait_loop n ctx cps ctx_cause name seq w2))"

definition wait_for_checkpoint ::
  "nat \<Rightarrow> 'w ctx_ops \<Rightarrow> 'w cp_ops \<Rightarrow> gerr \<Rightarrow> string \<Rightarrow> int \<Rightarrow> 'w \<Rightarrow> ('w \<times> gerr option) option" where
  "wait_for_checkpoint n ctx cps ctx_cause name seq w =
     (if seq \<le> 0 then Some (w, None) else wait_loop n ctx cps ctx_cause name seq w)"


section \<open>Names\<close>

lemma integration_key_inj: "integration_key n v = integration_key n' v' \<Longrightarrow> n = n' \<and> v = v'"
  using suffix_itoa_inj[of "n @ ''@''" "CHR ''v''" v "n' @ ''@''" v']
  by (simp add: integration_key_def is_digit_def)

lemma checkpoint_names:
  "store_checkpoint p = store_checkpoint q \<longleftrightarrow> pj_name p = pj_name q"
  "inbox_checkpoint p = inbox_checkpoint q \<longleftrightarrow> pj_name p = pj_name q"
  "store_checkpoint p \<noteq> inbox_checkpoint q"
proof -
  have "last (store_checkpoint p) \<noteq> last (inbox_checkpoint q)"
    by (simp add: store_checkpoint_def inbox_checkpoint_def)
  then show "store_checkpoint p \<noteq> inbox_checkpoint q" by metis
qed (simp_all add: store_checkpoint_def inbox_checkpoint_def)

section \<open>The inbox contract\<close>

text \<open>
  What the writer and the reader rely on: an append with a nil error leaves the message's ID
  known, nothing known is stored twice, and what is stored keeps its place.
\<close>

definition inbox_ids :: "'p inbox_message list \<Rightarrow> string set" where
  "inbox_ids l = (\<lambda>im. m_id (im_msg im)) ` set l"

definition inbox_step_ok ::
  "'p inbox_message list \<Rightarrow> 'p message \<Rightarrow> gerr option \<Rightarrow> 'p inbox_message list \<Rightarrow> bool" where
  "inbox_step_ok l msg r l' \<longleftrightarrow>
     (if m_id msg \<in> inbox_ids l then l' = l
      else (\<exists>s. l' = l @ [\<lparr>im_seq = s, im_msg = msg\<rparr>]) \<or> r \<noteq> None \<and> l' = l)"

lemma inbox_step_firsts:
  assumes "map im_msg l = firsts m_id ms" "inbox_step_ok l msg r l'"
  shows "map im_msg l' = firsts m_id (ms @ [msg]) \<or> r \<noteq> None \<and> map im_msg l' = firsts m_id ms"
proof -
  have "inbox_ids l = m_id ` set (map im_msg l)" by (auto simp: inbox_ids_def)
  then have "inbox_ids l = m_id ` set ms" using assms(1) by simp
  then show ?thesis
    using assms by (auto simp: inbox_step_ok_def firsts_snoc split: if_splits)
qed

locale inbox_port =
  fixes ib :: "('w, 'p) inbox_ops"
    and ilog :: "'w \<Rightarrow> 'p inbox_message list"
    and iinv :: "'w \<Rightarrow> bool"
  assumes ilog_pos: "iinv w \<Longrightarrow> pos_log im_seq (ilog w)"
    and ib_append_law: "iinv w \<Longrightarrow> ib_append ib w msg = (w', r1) \<Longrightarrow>
          iinv w' \<and> (\<exists>pre. prefix (ilog w) pre \<and> inbox_step_ok pre msg r1 (ilog w'))"
    and ib_read_law: "iinv w \<Longrightarrow> ib_read_all ib w after limit = (w', r2) \<Longrightarrow>
          iinv w' \<and> prefix (ilog w) (ilog w') \<and>
          (\<forall>ms. r2 = Inr ms \<longrightarrow> ms = tail_batch im_seq after limit (ilog w'))"
    and ib_head_law: "iinv w \<Longrightarrow> ib_head ib w = (w', r3) \<Longrightarrow>
          iinv w' \<and> prefix (ilog w) (ilog w') \<and> (\<forall>h. r3 = Inr h \<longrightarrow> h = last_pos im_seq (ilog w'))"
begin

lemma append_known:
  "iinv w \<Longrightarrow> ib_append ib w msg = (w', None) \<Longrightarrow> m_id msg \<in> inbox_ids (ilog w')"
  using ib_append_law[of w msg w' None] by (auto simp: inbox_step_ok_def inbox_ids_def split: if_splits)

end

definition mem_inbox_ops :: "('p mem_inbox, 'p) inbox_ops" where
  "mem_inbox_ops =
     \<lparr>ib_append = (\<lambda>i msg. (mi_append i msg, None)),
      ib_read_all = (\<lambda>i after limit. (i, Inr (mi_read_all i after limit))),
      ib_head = (\<lambda>i. (i, Inr (mi_head i)))\<rparr>"

definition mi_inv :: "'p mem_inbox \<Rightarrow> bool" where
  "mi_inv i \<longleftrightarrow> map im_seq (mi_msgs i) = map (\<lambda>k. int k + 1) [0..<length (mi_msgs i)] \<and>
     (\<forall>x. mget False (mi_by_id i) x \<longleftrightarrow> x \<in> inbox_ids (mi_msgs i))"

lemma numbered_pos_log:
  assumes "map f xs = map (\<lambda>k. int k + 1) [0..<length xs]" shows "pos_log f xs"
proof -
  have "sorted_wrt (<) (map (\<lambda>k. int k + 1) [0..<length xs])"
    by (simp add: sorted_wrt_map sorted_wrt_iff_nth_less)
  moreover have "0 < f x" if "x \<in> set xs" for x
  proof -
    from that have "f x \<in> set (map f xs)" by simp
    then show ?thesis unfolding assms by auto
  qed
  ultimately show ?thesis unfolding pos_log_def assms by auto
qed

lemma mi_inv_new [simp]: "mi_inv new_mem_inbox"
  by (simp add: mi_inv_def new_mem_inbox_def inbox_ids_def)

lemma mi_append_ok:
  assumes "mi_inv i"
  shows "mi_inv (mi_append i msg) \<and> inbox_step_ok (mi_msgs i) msg None (mi_msgs (mi_append i msg))"
  using assms by (auto simp: mi_inv_def mi_append_def inbox_step_ok_def inbox_ids_def)

interpretation mem_inbox: inbox_port mem_inbox_ops mi_msgs mi_inv
  by unfold_locales
    (auto simp: mem_inbox_ops_def mi_read_all_def read_loop_tail_batch mi_head_def last_pos_def
      mi_inv_def[of w for w] numbered_pos_log mi_append_ok[unfolded mi_inv_def])

end
