(* ===== verification/Cqrs.thy ===== *)
theory Cqrs
  imports EventStore
begin

text \<open>
  The command bus and the query bus (\<open>cqrs/command.go\<close>, \<open>cqrs/query.go\<close>): registration,
  middleware order, and the retry loop with its split between definitive and transient
  errors. Commands are one type \<open>'c\<close> with their \<open>CommandName\<close>; handlers act on the world.
\<close>

section \<open>Retry policy\<close>

record retry_policy =
  ry_attempts :: int
  ry_backoff :: int
  ry_should :: "(gerr \<Rightarrow> bool) option"

definition retry_defaults :: "retry_policy \<Rightarrow> retry_policy" where
  "retry_defaults p = p\<lparr>
     ry_attempts := if ry_attempts p \<le> 0 then 3 else ry_attempts p,
     ry_backoff := if ry_backoff p \<le> 0 then 25000000 else ry_backoff p,
     ry_should := Some (case ry_should p of None \<Rightarrow> (\<lambda>err. \<not> is_domain err) | Some f \<Rightarrow> f)\<rparr>"

text \<open>The method value after defaults are in place; a nil function would panic.\<close>

definition should_retry :: "retry_policy \<Rightarrow> gerr \<Rightarrow> bool" where
  "should_retry p err = (case ry_should p of None \<Rightarrow> False | Some f \<Rightarrow> f err)"

section \<open>The command bus\<close>

type_synonym ('w, 'c) cmd_handler = "'w \<Rightarrow> 'c \<Rightarrow> 'w \<times> gerr option"
type_synonym ('w, 'c) middleware = "('w, 'c) cmd_handler \<Rightarrow> ('w, 'c) cmd_handler"

record ('w, 'c) bus =
  bus_handlers :: "string \<rightharpoonup> ('w, 'c) cmd_handler"
  bus_middleware :: "('w, 'c) middleware list"
  bus_retry :: retry_policy

definition with_middleware :: "('w, 'c) middleware list \<Rightarrow> ('w, 'c) bus \<Rightarrow> ('w, 'c) bus" where
  "with_middleware mw b = b\<lparr>bus_middleware := bus_middleware b @ mw\<rparr>"

definition with_retry_policy :: "retry_policy \<Rightarrow> ('w, 'c) bus \<Rightarrow> ('w, 'c) bus" where
  "with_retry_policy p b = b\<lparr>bus_retry := p\<rparr>"

definition new_bus :: "(('w, 'c) bus \<Rightarrow> ('w, 'c) bus) list \<Rightarrow> ('w, 'c) bus" where
  "new_bus opts =
     (let b = fold (\<lambda>opt b. opt b) opts
        \<lparr>bus_handlers = Map.empty, bus_middleware = [],
         bus_retry = \<lparr>ry_attempts = 0, ry_backoff = 0, ry_should = None\<rparr>\<rparr>
      in b\<lparr>bus_retry := retry_defaults (bus_retry b)\<rparr>)"

definition handle_command ::
  "('w, 'c) bus \<Rightarrow> string \<Rightarrow> ('w, 'c) cmd_handler \<Rightarrow> ('w, 'c) bus option" where
  "handle_command b name fn =
     (if name = [] then None
      else if bus_handlers b name \<noteq> None then None
      else Some (b\<lparr>bus_handlers := (bus_handlers b)(name \<mapsto> fn)\<rparr>))"

text \<open>The loop of \<open>withRetry\<close>, from attempt number \<open>attempt\<close> on.\<close>

function retry_loop ::
  "'w ctx_ops \<Rightarrow> retry_policy \<Rightarrow> ('w, 'c) cmd_handler \<Rightarrow> int \<Rightarrow> 'w \<Rightarrow> 'c \<Rightarrow> 'w \<times> gerr option" where
  "retry_loop ctx p h attempt w cmd =
     (case h w cmd of
        (w1, None) \<Rightarrow> (w1, None)
      | (w1, Some err) \<Rightarrow>
          if ry_attempts p \<le> attempt \<or> \<not> should_retry p err then (w1, Some err)
          else (case ctx_sleep ctx w1 of
                  (w2, False) \<Rightarrow> (w2, Some err)
                | (w2, True) \<Rightarrow> retry_loop ctx p h (attempt + 1) w2 cmd))"
  by pat_completeness auto
termination
  by (relation "measure (\<lambda>(ctx, p, h, attempt, w, cmd). nat (ry_attempts p - attempt))") auto

declare retry_loop.simps [simp del]

definition with_retry :: "'w ctx_ops \<Rightarrow> ('w, 'c) bus \<Rightarrow> ('w, 'c) cmd_handler \<Rightarrow> ('w, 'c) cmd_handler" where
  "with_retry ctx b h = retry_loop ctx (bus_retry b) h 1"

definition dispatch ::
  "'w ctx_ops \<Rightarrow> ('c \<Rightarrow> string) \<Rightarrow> ('w, 'c) bus \<Rightarrow> 'w \<Rightarrow> 'c \<Rightarrow> 'w \<times> gerr option" where
  "dispatch ctx nm b w cmd =
     (case bus_handlers b (nm cmd) of
        None \<Rightarrow> (w, Some (Errorf ''cqrs: no handler for command %q'' [FStr (nm cmd)]))
      | Some h \<Rightarrow> foldr (\<lambda>mw final. mw final) (bus_middleware b) (with_retry ctx b h) w cmd)"

section \<open>The query bus\<close>

type_synonym ('w, 'q, 'a) query_handler = "'w \<Rightarrow> 'q \<Rightarrow> 'w \<times> 'a res"

record ('w, 'q, 'a) query_bus =
  qb_handlers :: "string \<rightharpoonup> ('w, 'q, 'a) query_handler"
  qb_middleware :: "(('w, 'q, 'a) query_handler \<Rightarrow> ('w, 'q, 'a) query_handler) list"

definition new_query_bus ::
  "(('w, 'q, 'a) query_handler \<Rightarrow> ('w, 'q, 'a) query_handler) list \<Rightarrow> ('w, 'q, 'a) query_bus" where
  "new_query_bus mw = \<lparr>qb_handlers = Map.empty, qb_middleware = mw\<rparr>"

definition handle_query ::
  "('w, 'q, 'a) query_bus \<Rightarrow> string \<Rightarrow> ('w, 'q, 'a) query_handler \<Rightarrow> ('w, 'q, 'a) query_bus option" where
  "handle_query b name fn =
     (if name = [] then None
      else if qb_handlers b name \<noteq> None then None
      else Some (b\<lparr>qb_handlers := (qb_handlers b)(name \<mapsto> fn)\<rparr>))"

definition query_dispatch ::
  "('q \<Rightarrow> string) \<Rightarrow> ('w, 'q, 'a) query_bus \<Rightarrow> 'w \<Rightarrow> 'q \<Rightarrow> 'w \<times> 'a res" where
  "query_dispatch nm b w q =
     (case qb_handlers b (nm q) of
        None \<Rightarrow> (w, Inl (Errorf ''cqrs: no handler for query %q'' [FStr (nm q)]))
      | Some h \<Rightarrow> foldr (\<lambda>mw final. mw final) (qb_middleware b) h w q)"

text \<open>\<open>cast\<close> is the type assertion on the result; the printed types are left out of the error.\<close>

definition ask ::
  "('q \<Rightarrow> string) \<Rightarrow> ('a \<Rightarrow> 'r option) \<Rightarrow> ('w, 'q, 'a) query_bus \<Rightarrow> 'w \<Rightarrow> 'q \<Rightarrow> 'w \<times> 'r res" where
  "ask nm cast b w q =
     (case query_dispatch nm b w q of
        (w1, Inl err) \<Rightarrow> (w1, Inl err)
      | (w1, Inr v) \<Rightarrow>
          (w1, case cast v of
             Some r \<Rightarrow> Inr r
           | None \<Rightarrow> Inl (Errorf ''cqrs: query %q returned %T, caller wants %T'' [FStr (nm q)])))"

section \<open>Attempts\<close>

text \<open>
  The specification of retrying: \<open>tries \<dots> w k w' r\<close> when attempt number \<open>k\<close> of the handler left
  the world \<open>w'\<close> with result \<open>r\<close>, all earlier attempts having failed with an error worth a
  retry and the wait between attempts having run out.
\<close>

inductive tries ::
  "'w ctx_ops \<Rightarrow> (gerr \<Rightarrow> bool) \<Rightarrow> ('w, 'c) cmd_handler \<Rightarrow> 'c \<Rightarrow> 'w \<Rightarrow> nat \<Rightarrow> 'w \<Rightarrow> gerr option \<Rightarrow> bool"
  for ctx should h cmd w where
  first: "h w cmd = (w', r) \<Longrightarrow> tries ctx should h cmd w 1 w' r"
| again: "tries ctx should h cmd w k w1 (Some err) \<Longrightarrow> should err \<Longrightarrow> ctx_sleep ctx w1 = (w2, True) \<Longrightarrow>
    h w2 cmd = (w', r) \<Longrightarrow> tries ctx should h cmd w (Suc k) w' r"

inductive_cases tries_cases: "tries ctx should h cmd w k w' r"

lemma tries_pos: "tries ctx should h cmd w k w' r \<Longrightarrow> 0 < k"
  by (induction rule: tries.induct) auto

lemma tries_shift:
  assumes "h w cmd = (w1, Some err)" "should err" "ctx_sleep ctx w1 = (w2, True)"
    and "tries ctx should h cmd w2 k w' r"
  shows "tries ctx should h cmd w (Suc k) w' r"
  using assms(4)
proof (induction rule: tries.induct)
  case (first w' r)
  have "tries ctx should h cmd w (Suc 0) w1 (Some err)"
    using tries.first[where h = h and w = w and cmd = cmd, OF assms(1)] by simp
  from tries.again[OF this assms(2,3) first] show ?case by simp
next
  case (again k w1 err w2 w' r)
  then show ?case by (blast intro: tries.again)
qed

text \<open>Every outcome of the loop is the outcome of some attempt, and says why it was the last.\<close>

definition last_try ::
  "'w ctx_ops \<Rightarrow> retry_policy \<Rightarrow> ('w, 'c) cmd_handler \<Rightarrow> 'c \<Rightarrow> 'w \<Rightarrow> nat \<Rightarrow> nat \<Rightarrow> 'w \<Rightarrow> gerr option \<Rightarrow> bool" where
  "last_try ctx p h cmd w most k w' r \<longleftrightarrow>
     (\<exists>w1. tries ctx (should_retry p) h cmd w k w1 r \<and>
        (case r of
           None \<Rightarrow> w' = w1
         | Some err \<Rightarrow> if should_retry p err \<and> k < most then ctx_sleep ctx w1 = (w', False) else w' = w1))"

lemma last_try_first:
  assumes "h w cmd = (w1, r1)" "\<And>err. r1 = Some err \<Longrightarrow> \<not> should_retry p err \<or> most \<le> 1"
  shows "last_try ctx p h cmd w most 1 w1 r1"
proof -
  have "tries ctx (should_retry p) h cmd w 1 w1 r1" using assms(1) by (rule tries.first)
  moreover have "case r1 of None \<Rightarrow> w1 = w1
      | Some err \<Rightarrow> if should_retry p err \<and> 1 < most then ctx_sleep ctx w1 = (w1, False) else w1 = w1"
    using assms(2) by (cases r1) fastforce+
  ultimately show ?thesis unfolding last_try_def by blast
qed

lemma last_try_ended:
  assumes "h w cmd = (w1, Some err)" "should_retry p err" "1 < most" "ctx_sleep ctx w1 = (w2, False)"
  shows "last_try ctx p h cmd w most 1 w2 (Some err)"
proof -
  have "tries ctx (should_retry p) h cmd w 1 w1 (Some err)" using assms(1) by (rule tries.first)
  then show ?thesis unfolding last_try_def using assms(2-4) by auto
qed

lemma last_try_again:
  assumes "h w cmd = (w1, Some err)" "should_retry p err" "ctx_sleep ctx w1 = (w2, True)"
    and "last_try ctx p h cmd w2 most k w' r"
  shows "last_try ctx p h cmd w (Suc most) (Suc k) w' r"
proof -
  from assms(4) obtain wx where t: "tries ctx (should_retry p) h cmd w2 k wx r"
    and c: "case r of None \<Rightarrow> w' = wx
      | Some err \<Rightarrow> if should_retry p err \<and> k < most then ctx_sleep ctx wx = (w', False) else w' = wx"
    unfolding last_try_def by blast
  have "tries ctx (should_retry p) h cmd w (Suc k) wx r"
    using tries_shift[where h = h and w = w and cmd = cmd and should = "should_retry p", OF assms(1-3) t] .
  moreover have "case r of None \<Rightarrow> w' = wx
      | Some err \<Rightarrow> if should_retry p err \<and> Suc k < Suc most then ctx_sleep ctx wx = (w', False)
          else w' = wx"
    using c by (simp only: Suc_less_eq)
  ultimately show ?thesis unfolding last_try_def by blast
qed

lemma retry_loop_last_try:
  assumes "0 < attempt"
  shows "retry_loop ctx p h attempt w cmd = (w', r) \<Longrightarrow>
    \<exists>k. k \<le> max 1 (nat (ry_attempts p - attempt + 1)) \<and>
      last_try ctx p h cmd w (max 1 (nat (ry_attempts p - attempt + 1))) k w' r"
  using assms
proof (induction ctx p h attempt w cmd rule: retry_loop.induct)
  case (1 ctx p h attempt w cmd)
  let ?m = "max 1 (nat (ry_attempts p - attempt + 1))"
  obtain w1 r1 where h: "h w cmd = (w1, r1)" by force
  note t1 = tries.first[where h = h and w = w and cmd = cmd and ctx = ctx and should = "should_retry p", OF h]
  show ?case
  proof (cases "r1 = None \<or> (\<exists>err. r1 = Some err \<and> (ry_attempts p \<le> attempt \<or> \<not> should_retry p err))")
    case True
    then have "w' = w1" "r = r1"
      using "1.prems"(1) h by (auto simp: retry_loop.simps[of ctx p h attempt])
    moreover have "last_try ctx p h cmd w ?m 1 w1 r1"
      by (rule last_try_first[where h = h and w = w and cmd = cmd, OF h]) (use True in auto)
    moreover have "(1::nat) \<le> ?m" by simp
    ultimately show ?thesis by blast
  next
    case False
    then obtain err where e: "r1 = Some err" "attempt < ry_attempts p" "should_retry p err" by force
    obtain w2 b where s: "ctx_sleep ctx w1 = (w2, b)" by force
    have h1: "h w cmd = (w1, Some err)" using h e(1) by simp
    show ?thesis
    proof (cases b)
      case False
      then have "w' = w2" "r = Some err"
        using "1.prems"(1) h e s by (auto simp: retry_loop.simps[of ctx p h attempt])
      moreover have "last_try ctx p h cmd w ?m 1 w2 (Some err)"
        by (rule last_try_ended[where h = h and w = w and cmd = cmd, OF h1 e(3)]) (use e s False in auto)
      moreover have "(1::nat) \<le> ?m" by simp
      ultimately show ?thesis by blast
    next
      case True
      then have run: "retry_loop ctx p h (attempt + 1) w2 cmd = (w', r)"
        using "1.prems"(1) h e s by (simp add: retry_loop.simps[of ctx p h attempt])
      have ne: "\<not> (ry_attempts p \<le> attempt \<or> \<not> should_retry p err)" using e by simp
      have m: "Suc (max 1 (nat (ry_attempts p - (attempt + 1) + 1))) = ?m"
        using e(2) by simp
      have T: "b = True" using True by simp
      from "1.IH"[OF h[symmetric] e(1) ne s[symmetric] T run] "1.prems"(2) obtain k where
        k: "k \<le> max 1 (nat (ry_attempts p - (attempt + 1) + 1))"
           "last_try ctx p h cmd w2 (max 1 (nat (ry_attempts p - (attempt + 1) + 1))) k w' r" by auto
      have s1: "ctx_sleep ctx w1 = (w2, True)" using s True by simp
      have "last_try ctx p h cmd w ?m (Suc k) w' r"
        using last_try_again[where h = h and w = w and cmd = cmd, OF h1 e(3) s1 k(2)] unfolding m .
      moreover have "Suc k \<le> ?m" using k(1) m by linarith
      ultimately show ?thesis by blast
    qed
  qed
qed

lemma new_bus_attempts: "0 < ry_attempts (bus_retry (new_bus opts))"
  by (simp add: new_bus_def Let_def retry_defaults_def)

lemma default_should:
  "should_retry (retry_defaults \<lparr>ry_attempts = a, ry_backoff = b, ry_should = None\<rparr>) err \<longleftrightarrow> \<not> is_domain err"
  by (simp add: should_retry_def retry_defaults_def)


text \<open>What handlers, waits and middleware relate, a dispatch relates.\<close>

lemma retry_loop_rel:
  assumes "\<And>w. R w w" "\<And>u v w. R u v \<Longrightarrow> R v w \<Longrightarrow> R u w" "\<And>w. R w (fst (h w cmd))" "\<And>w. R w (fst (ctx_sleep ctx w))"
  shows "R w (fst (retry_loop ctx p h attempt w cmd))"
  using assms(3,4)
proof (induction ctx p h attempt w cmd rule: retry_loop.induct)
  case (1 ctx p h attempt w cmd)
  obtain w1 r1 where h: "h w cmd = (w1, r1)" by force
  have r1: "R w w1" using "1.prems"(1)[of w] h by simp
  obtain w2 b where s: "ctx_sleep ctx w1 = (w2, b)" by force
  have r2: "R w w2" using "1.prems"(2)[of w1] s assms(2)[OF r1, of w2] by simp
  have "R w (fst (retry_loop ctx p h (attempt + 1) w2 cmd))"
    if "r1 = Some err" "\<not> (ry_attempts p \<le> attempt \<or> \<not> should_retry p err)" "b = True" for err
    by (rule assms(2)[OF r2 "1.IH"[OF h[symmetric] that(1,2) s[symmetric] that(3) "1.prems"]])
  with h s r1 r2 show ?case
    by (subst retry_loop.simps) (auto split: option.splits bool.splits)
qed

lemma dispatch_rel:
  assumes "\<And>w. R w w" "\<And>u v w. R u v \<Longrightarrow> R v w \<Longrightarrow> R u w" "\<And>w. R w (fst (ctx_sleep ctx w))"
    and "\<And>n h w cmd. bus_handlers b n = Some h \<Longrightarrow> R w (fst (h w cmd))"
    and "\<And>mw h w cmd. mw \<in> set (bus_middleware b) \<Longrightarrow> (\<And>w cmd. R w (fst (h w cmd))) \<Longrightarrow> R w (fst (mw h w cmd))"
  shows "R w (fst (dispatch ctx nm b w cmd))"
proof (cases "bus_handlers b (nm cmd)")
  case None
  with assms(1) show ?thesis by (simp add: dispatch_def)
next
  case (Some h)
  have "R w (fst (with_retry ctx b h w cmd))" for w cmd
    unfolding with_retry_def by (rule retry_loop_rel[OF assms(1,2) assms(4)[OF Some] assms(3)])
  then have "R w (fst (foldr (\<lambda>mw final. mw final) ms (with_retry ctx b h) w cmd))"
    if "set ms \<subseteq> set (bus_middleware b)" for ms w cmd
    using that by (induction ms arbitrary: w cmd) (auto intro: assms(5))
  with Some show ?thesis by (simp add: dispatch_def)
qed

section \<open>Properties\<close>

text \<open>
  C40. Dispatch tries, and only tries, as the error split allows: the result is the result of
  attempt number k of the registered handler, every earlier attempt failed with an error that
  is no domain error, k never exceeds the configured attempts, and the last attempt is the
  last for a reason: it succeeded, or its error is definitive, or the attempts are used up, or
  the context ended while waiting. Middleware wraps this loop, the first listed outermost.
\<close>

theorem dispatch_retries_transient_only:
  assumes "bus_handlers b (nm cmd) = Some h" "bus_retry b = retry_defaults p" "ry_should p = None"
    and "with_retry ctx b h w cmd = (w', r)"
  shows "(\<exists>k. int k \<le> ry_attempts (bus_retry b) \<and>
      last_try ctx (bus_retry b) h cmd w (nat (ry_attempts (bus_retry b))) k w' r) \<and>
    (\<forall>err. should_retry (bus_retry b) err \<longleftrightarrow> \<not> is_domain err) \<and>
    dispatch ctx nm (b\<lparr>bus_middleware := []\<rparr>) w cmd = (w', r) \<and>
    (\<forall>mw. dispatch ctx nm (b\<lparr>bus_middleware := mw # bus_middleware b\<rparr>) w cmd =
      mw (\<lambda>w cmd'. foldr (\<lambda>mw final. mw final) (bus_middleware b) (with_retry ctx b h) w cmd') w cmd)"
proof -
  let ?p = "bus_retry b"
  have pos: "0 < ry_attempts ?p" using assms(2) by (simp add: retry_defaults_def)
  have m: "max 1 (nat (ry_attempts ?p - 1 + 1)) = nat (ry_attempts ?p)" using pos by simp
  obtain k where k: "k \<le> nat (ry_attempts ?p)"
      "last_try ctx ?p h cmd w (nat (ry_attempts ?p)) k w' r"
    using retry_loop_last_try[of 1 ctx ?p h w cmd w' r] assms(4) unfolding with_retry_def m by auto
  have "should_retry ?p err \<longleftrightarrow> \<not> is_domain err" for err
    using assms(2,3) by (simp add: should_retry_def retry_defaults_def)
  moreover have wr: "with_retry ctx (b\<lparr>bus_middleware := ms\<rparr>) h = with_retry ctx b h" for ms
    by (simp add: with_retry_def)
  ultimately show ?thesis
    using k pos assms(1,4) by (intro conjI exI[of _ k]) (auto simp: dispatch_def)
qed


text \<open>Witness: a handler that meets one version conflict, then succeeds; the world counts calls.\<close>

definition demo_ctx :: "'w ctx_ops" where
  "demo_ctx = \<lparr>ctx_err = (\<lambda>w. (w, False)), ctx_sleep = (\<lambda>w. (w, True))\<rparr>"

definition demo_handler :: "(nat, unit) cmd_handler" where
  "demo_handler w c = (w + 1, if w = 0 then Some (conflict_error demo_stream 1 0) else None)"

definition demo_bus :: "(nat, unit) bus" where
  "demo_bus = \<lparr>bus_handlers = [''c'' \<mapsto> demo_handler], bus_middleware = [],
     bus_retry = retry_defaults \<lparr>ry_attempts = 0, ry_backoff = 0, ry_should = None\<rparr>\<rparr>"

theorem dispatch_retries_transient_only_witness:
  "dispatch demo_ctx (\<lambda>_. ''c'') demo_bus 0 () = (2, None) \<and>
   (\<exists>k\<le>3. last_try demo_ctx (bus_retry demo_bus) demo_handler () 0 3 k 2 None)"
proof -
  have s: "should_retry (bus_retry demo_bus) (conflict_error demo_stream 1 0)"
    using default_should[of 0 0] by (simp add: demo_bus_def)
  have a: "ry_attempts (bus_retry demo_bus) = 3" by (simp add: demo_bus_def retry_defaults_def)
  have wr: "with_retry demo_ctx demo_bus demo_handler 0 () = (2, None)"
    using s a by (simp add: with_retry_def retry_loop.simps demo_handler_def demo_ctx_def numeral_2_eq_2)
  have h: "bus_handlers demo_bus ((\<lambda>_. ''c'') ()) = Some demo_handler" by (simp add: demo_bus_def)
  have p: "bus_retry demo_bus = retry_defaults \<lparr>ry_attempts = 0, ry_backoff = 0, ry_should = None\<rparr>"
    by (simp add: demo_bus_def)
  note t = dispatch_retries_transient_only[where b = demo_bus and nm = "\<lambda>_. ''c''", OF h p _ wr]
  have "demo_bus\<lparr>bus_middleware := []\<rparr> = demo_bus" by (simp add: demo_bus_def)
  with t a show ?thesis by auto
qed

end
