(* ===== verification/CqrsWire.thy ===== *)
theory CqrsWire
  imports Cqrs Broker
begin

text \<open>
  Commands between services (\<open>cqrs/wire.go\<close>): the command envelope, the registry of command
  decoders, the deduplicator port with its in-memory implementation, and the consumer that
  bridges a subscription to the bus.
\<close>

section \<open>Envelope and registry\<close>

text \<open>
  A command value is what the code uses of it: its name, its \<open>json.Marshal\<close>, and its contract
  version when it is a \<open>VersionedCommand\<close>.
\<close>

record 'p command_value =
  cv_name :: string
  cv_json :: "'p res"
  cv_version :: "int option"

definition command_version :: "'p command_value \<Rightarrow> int" where
  "command_version cmd = (case cv_version cmd of None \<Rightarrow> 1 | Some v \<Rightarrow> v)"

definition new_command_message ::
  "string \<Rightarrow> string \<Rightarrow> instant \<Rightarrow> 'p command_value \<Rightarrow> metadata \<Rightarrow> 'p message res" where
  "new_command_message mid key occurred_at cmd md =
     (case cv_json cmd of
        Inl err \<Rightarrow> Inl (Wrapf ''cqrs: encoding %s: %w'' [FStr (cv_name cmd)] err)
      | Inr payload \<Rightarrow> Inr \<lparr>m_id = mid, m_key = key, m_type = cv_name cmd,
                           m_version = command_version cmd, m_at = occurred_at,
                           m_payload = payload, m_meta = md\<rparr>)"

type_synonym ('p, 'c) cmd_registry = "string \<rightharpoonup> ('p \<Rightarrow> 'c res)"

definition new_cmd_registry :: "('p, 'c) cmd_registry" where
  "new_cmd_registry = Map.empty"

definition register_command ::
  "string \<Rightarrow> ('p \<Rightarrow> 'c res) \<Rightarrow> ('p, 'c) cmd_registry \<Rightarrow> ('p, 'c) cmd_registry option" where
  "register_command name unmarshal r =
     (if name = [] then None
      else if r name \<noteq> None then None
      else Some (r(name \<mapsto> (\<lambda>payload. case unmarshal payload of
             Inl err \<Rightarrow> Inl (Wrapf ''cqrs: decoding %s: %w'' [FStr name] err)
           | Inr c \<Rightarrow> Inr c))))"

definition decode_command :: "('p, 'c) cmd_registry \<Rightarrow> 'p message \<Rightarrow> 'c res" where
  "decode_command r msg =
     (case r (m_type msg) of
        None \<Rightarrow> Inl (Errorf ''cqrs: unregistered command %q (message %s)''
                     [FStr (m_type msg), FStr (m_id msg)])
      | Some dec \<Rightarrow> dec (m_payload msg))"

section \<open>Deduplication\<close>

record 'w dedup_ops =
  dd_processed :: "'w \<Rightarrow> string \<Rightarrow> 'w \<times> bool res"
  dd_mark :: "'w \<Rightarrow> string \<Rightarrow> 'w \<times> gerr option"

type_synonym mem_dedup = "string \<rightharpoonup> bool"

definition new_mem_dedup :: mem_dedup where
  "new_mem_dedup = Map.empty"

definition mem_processed :: "mem_dedup \<Rightarrow> string \<Rightarrow> bool" where
  "mem_processed d mid = mget False d mid"

definition mem_mark :: "mem_dedup \<Rightarrow> string \<Rightarrow> mem_dedup" where
  "mem_mark d mid = d(mid \<mapsto> True)"

section \<open>The consumer\<close>

text \<open>\<open>OnRejected\<close> is optional and may do anything to the world.\<close>

record ('w, 'p, 'c) consumer =
  cn_bus :: "('w, 'c) bus"
  cn_registry :: "('p, 'c) cmd_registry"
  cn_dedup :: "'w dedup_ops"
  cn_on_rejected :: "('w \<Rightarrow> 'p message \<Rightarrow> gerr \<Rightarrow> 'w) option"

definition consumer_reject :: "('w, 'p, 'c) consumer \<Rightarrow> 'w \<Rightarrow> 'p message \<Rightarrow> gerr \<Rightarrow> 'w" where
  "consumer_reject c w msg err = (case cn_on_rejected c of None \<Rightarrow> w | Some f \<Rightarrow> f w msg err)"

definition consumer_handler ::
  "'w ctx_ops \<Rightarrow> ('c \<Rightarrow> string) \<Rightarrow> ('w, 'p, 'c) consumer \<Rightarrow> ('w, 'p) msg_handler" where
  "consumer_handler ctx nm c = (\<lambda>w msg.
     (case dd_processed (cn_dedup c) w (m_id msg) of
        (w1, Inl err) \<Rightarrow> (w1, Some err)
      | (w1, Inr seen) \<Rightarrow>
          if seen then (w1, None)
          else
            (case decode_command (cn_registry c) msg of
               Inl err \<Rightarrow> dd_mark (cn_dedup c) (consumer_reject c w1 msg err) (m_id msg)
             | Inr cmd \<Rightarrow>
                 (case dispatch ctx nm (cn_bus c) w1 cmd of
                    (w2, Some err) \<Rightarrow>
                      if is_domain err
                      then dd_mark (cn_dedup c) (consumer_reject c w2 msg err) (m_id msg)
                      else (w2, Some err)
                  | (w2, None) \<Rightarrow> dd_mark (cn_dedup c) w2 (m_id msg)))))"

section \<open>The deduplicator contract\<close>

text \<open>
  \<open>marked w\<close> are the IDs durably recorded; a failed mark may have taken effect. A lookup that
  answers does so for the state it saw.
\<close>

locale deduplicator =
  fixes dd :: "'w dedup_ops"
    and marked :: "'w \<Rightarrow> string set"
    and dinv :: "'w \<Rightarrow> bool"
  assumes processed_law: "dinv w \<Longrightarrow> dd_processed dd w mid = (w', r1) \<Longrightarrow>
          dinv w' \<and> marked w' = marked w \<and> (\<forall>b. r1 = Inr b \<longrightarrow> (b \<longleftrightarrow> mid \<in> marked w))"
    and mark_law: "dinv w \<Longrightarrow> dd_mark dd w mid = (w', r2) \<Longrightarrow>
          dinv w' \<and> (marked w' = insert mid (marked w) \<or> r2 \<noteq> None \<and> marked w' = marked w)"
begin

text \<open>A known message is acknowledged without decoding or dispatching it.\<close>

lemma handler_known:
  assumes "dinv w" "m_id msg \<in> marked w" "cn_dedup c = dd"
    and "consumer_handler ctx nm c w msg = (w', r)"
  shows "marked w' = marked w \<and> (\<exists>r1. dd_processed dd w (m_id msg) = (w', r1)) \<and>
    (r = None \<longleftrightarrow> (\<exists>b. snd (dd_processed dd w (m_id msg)) = Inr b))"
proof -
  obtain w1 r1 where p: "dd_processed dd w (m_id msg) = (w1, r1)" by force
  note l = processed_law[OF assms(1) p]
  show ?thesis
    using assms(2-4) p l by (auto simp: consumer_handler_def split: sum.splits)
qed

text \<open>An acknowledgement is never given before the message is marked.\<close>

lemma handler_ack:
  assumes "dinv w" "cn_dedup c = dd"
    and "\<And>w w' cmd r. dinv w \<Longrightarrow> dispatch ctx nm (cn_bus c) w cmd = (w', r) \<Longrightarrow> dinv w' \<and> marked w \<subseteq> marked w'"
    and "\<And>w err. dinv w \<Longrightarrow> dinv (consumer_reject c w msg err) \<and> marked w \<subseteq> marked (consumer_reject c w msg err)"
    and "consumer_handler ctx nm c w msg = (w', None)"
  shows "dinv w' \<and> m_id msg \<in> marked w'"
proof -
  obtain w1 r1 where p: "dd_processed dd w (m_id msg) = (w1, r1)" by force
  note l = processed_law[OF assms(1) p]
  have mark: "dinv w'' \<and> m_id msg \<in> marked w''" if "dinv v" "dd_mark dd v (m_id msg) = (w'', None)" for v w''
    using mark_law[OF that] by auto
  consider (err) e where "r1 = Inl e" | (seen) "r1 = Inr True" | (new) "r1 = Inr False"
    by (cases r1) auto
  then show ?thesis
  proof cases
    case err
    with assms(2,5) p show ?thesis by (simp add: consumer_handler_def)
  next
    case seen
    have "m_id msg \<in> marked w" using l seen by blast
    moreover have "w' = w1" using assms(2,5) p seen by (simp add: consumer_handler_def)
    ultimately show ?thesis using l by simp
  next
    case new
    have h: "consumer_handler ctx nm c w msg = (case decode_command (cn_registry c) msg of
        Inl err \<Rightarrow> dd_mark dd (consumer_reject c w1 msg err) (m_id msg)
      | Inr cmd \<Rightarrow> (case dispatch ctx nm (cn_bus c) w1 cmd of
          (w2, Some err) \<Rightarrow> if is_domain err then dd_mark dd (consumer_reject c w2 msg err) (m_id msg) else (w2, Some err)
        | (w2, None) \<Rightarrow> dd_mark dd w2 (m_id msg)))"
      using p new unfolding consumer_handler_def assms(2)[symmetric] by simp
    show ?thesis
    proof (cases "decode_command (cn_registry c) msg")
      case (Inl err)
      with h assms(5) mark[of "consumer_reject c w1 msg err"] assms(4)[of w1 err] l show ?thesis by simp
    next
      case (Inr cmd)
      obtain w2 r2 where d: "dispatch ctx nm (cn_bus c) w1 cmd = (w2, r2)" by force
      have i: "dinv w2" using assms(3)[of w1 cmd w2 r2] d l by simp
      show ?thesis
      proof (cases r2)
        case None
        with h Inr d assms(5) mark[OF i] show ?thesis by simp
      next
        case (Some err)
        with h Inr d assms(5) mark[of "consumer_reject c w2 msg err"] assms(4)[OF i, of err] show ?thesis
          by (simp split: if_splits)
      qed
    qed
  qed
qed

end

definition mem_dedup_ops :: "mem_dedup dedup_ops" where
  "mem_dedup_ops = \<lparr>dd_processed = (\<lambda>d mid. (d, Inr (mem_processed d mid))),
     dd_mark = (\<lambda>d mid. (mem_mark d mid, None))\<rparr>"

interpretation mem_dedup: deduplicator mem_dedup_ops "\<lambda>d. {mid. mget False d mid}" "\<lambda>_. True"
  by unfold_locales (auto simp: mem_dedup_ops_def mem_processed_def mem_mark_def)

end
