(* ===== verification/Saga.thy ===== *)
theory Saga
  imports Repository CqrsWire Relay
begin

text \<open>
  The saga engine (\<open>saga/saga.go\<close>, \<open>saga/runner.go\<close>): definitions with their event handlers,
  the three framework events of a saga's stream, the instance as an event-sourced aggregate
  whose Apply runs the handler, and the runner that records a received envelope together with
  everything it decided in one append.
\<close>

section \<open>Definitions\<close>

record 'p out_command =
  oc_topic :: string
  oc_key :: string
  oc_cmd :: "'p command_value"

record 'p decisions =
  ds_commands :: "'p out_command list"
  ds_end :: bool

definition no_decisions :: "'p decisions" where
  "no_decisions = \<lparr>ds_commands = [], ds_end = False\<rparr>"

definition saga_send :: "'p out_command list \<Rightarrow> 'p decisions" where
  "saga_send cmds = \<lparr>ds_commands = cmds, ds_end = False\<rparr>"

definition saga_end :: "'p decisions" where
  "saga_end = \<lparr>ds_commands = [], ds_end = True\<rparr>"

text \<open>\<open>eh_handle\<close> gets the saga's state through a pointer: it may change it and then fail.\<close>

record ('s, 'p) ev_handler =
  eh_correlate :: "'p message \<Rightarrow> string res"
  eh_handle :: "'s \<Rightarrow> 'p message \<Rightarrow> 's \<times> 'p decisions res"

record ('s, 'p) saga_def =
  sd_name :: string
  sd_handlers :: "string \<rightharpoonup> ('s, 'p) ev_handler"

definition new_saga :: "string \<Rightarrow> ('s, 'p) saga_def option" where
  "new_saga name = (if name = [] then None else Some \<lparr>sd_name = name, sd_handlers = Map.empty\<rparr>)"

definition saga_category :: "('s, 'p) saga_def \<Rightarrow> string" where
  "saga_category d = ''saga.'' @ sd_name d"

definition event_key :: "string \<Rightarrow> int \<Rightarrow> string" where
  "event_key name version = name @ ''@v'' @ itoa version"

definition saga_decode ::
  "('s, 'p) saga_def \<Rightarrow> string \<Rightarrow> ('p \<Rightarrow> 'c res) \<Rightarrow> 'p message \<Rightarrow> 'c res" where
  "saga_decode d key unmarshal msg =
     (case unmarshal (m_payload msg) of
        Inl err \<Rightarrow> Inl (Wrapf ''saga %s: decoding %s (message %s): %w''
                     [FStr (sd_name d), FStr key, FStr (m_id msg)] err)
      | Inr e \<Rightarrow> Inr e)"

definition on_event ::
  "string \<Rightarrow> int \<Rightarrow> ('p \<Rightarrow> 'c res) \<Rightarrow> ('c \<Rightarrow> string) \<Rightarrow> ('s \<Rightarrow> 'c \<Rightarrow> 's \<times> 'p decisions res)
   \<Rightarrow> ('s, 'p) saga_def \<Rightarrow> ('s, 'p) saga_def option" where
  "on_event name version unmarshal correlate handle d =
     (let key = event_key name version in
      if sd_handlers d key \<noteq> None then None
      else Some (d\<lparr>sd_handlers := (sd_handlers d)(key \<mapsto>
        \<lparr>eh_correlate = (\<lambda>msg. case saga_decode d key unmarshal msg of
             Inl err \<Rightarrow> Inl err | Inr e \<Rightarrow> Inr (correlate e)),
         eh_handle = (\<lambda>s msg. case saga_decode d key unmarshal msg of
             Inl err \<Rightarrow> (s, Inl err) | Inr e \<Rightarrow> handle s e)\<rparr>)\<rparr>))"

section \<open>Stream events\<close>

record 'p command_requested =
  cq_topic :: string
  cq_key :: string
  cq_name :: string
  cq_version :: int
  cq_payload :: 'p
  cq_meta :: metadata

text \<open>\<open>OtherEvent\<close> is an event of another type with its name: the default branch of Apply.\<close>

datatype ('p, 'x) saga_event =
    EventReceived "'p message"
  | CommandRequested "'p command_requested"
  | SagaEnded
  | OtherEvent string 'x

fun saga_event_name :: "('p, 'x) saga_event \<Rightarrow> string" where
  "saga_event_name (EventReceived m) = ''saga.event_received''"
| "saga_event_name (CommandRequested c) = ''saga.command_requested''"
| "saga_event_name SagaEnded = ''saga.ended''"
| "saga_event_name (OtherEvent n x) = n"

text \<open>\<open>RegisterEvents\<close>, given the three JSON decoders.\<close>

definition register_saga_events ::
  "('p \<Rightarrow> ('p, 'x) saga_event res) \<Rightarrow> ('p \<Rightarrow> ('p, 'x) saga_event res) \<Rightarrow> ('p \<Rightarrow> ('p, 'x) saga_event res)
   \<Rightarrow> ('p, ('p, 'x) saga_event) registry \<Rightarrow> ('p, ('p, 'x) saga_event) registry option" where
  "register_saga_events un_received un_requested un_ended r =
     Option.bind (register ''saga.event_received'' un_received r) (\<lambda>r1.
     Option.bind (register ''saga.command_requested'' un_requested r1) (\<lambda>r2.
     register ''saga.ended'' un_ended r2))"

text \<open>The route for recorded commands; another event under its name is a failed assertion.\<close>

definition command_route :: "'p recorded \<Rightarrow> ('p, 'x) saga_event \<Rightarrow> (string \<times> 'p message) option res" where
  "command_route rec e =
     (case e of
        CommandRequested cr \<Rightarrow>
          Inr (Some (cq_topic cr,
            \<lparr>m_id = message_id rec, m_key = cq_key cr, m_type = cq_name cr, m_version = cq_version cr,
             m_at = rec_at rec, m_payload = cq_payload cr, m_meta = cq_meta cr\<rparr>))
      | _ \<Rightarrow> Inl (ErrNew ''panic: interface conversion''))"

definition register_command_routing ::
  "('w, 'p, ('p, 'x) saga_event) relay \<Rightarrow> ('w, 'p, ('p, 'x) saga_event) relay option" where
  "register_command_routing r = relay_add_route ''saga.command_requested'' command_route r"

section \<open>The instance\<close>

record ('s, 'p) saga_inst =
  in_state :: 's
  in_ended :: bool
  in_seen :: "string \<rightharpoonup> bool"
  in_last :: "'p decisions"

definition new_instance :: "'s \<Rightarrow> ('s, 'p) saga_inst" where
  "new_instance s0 = \<lparr>in_state = s0, in_ended = False, in_seen = Map.empty, in_last = no_decisions\<rparr>"

definition saga_apply :: "('s, 'p) saga_def \<Rightarrow> (('s, 'p) saga_inst, ('p, 'x) saga_event) applier" where
  "saga_apply d i e =
     (case e of
        EventReceived env \<Rightarrow>
          (let i1 = i\<lparr>in_seen := (in_seen i)(m_id env \<mapsto> True)\<rparr> in
           case sd_handlers d (event_key (m_type env) (m_version env)) of
             None \<Rightarrow> (i1\<lparr>in_last := no_decisions\<rparr>, None)
           | Some handler \<Rightarrow>
               (case eh_handle handler (in_state i1) env of
                  (s, Inl err) \<Rightarrow> (i1\<lparr>in_state := s\<rparr>, Some err)
                | (s, Inr ds) \<Rightarrow> (i1\<lparr>in_state := s, in_last := ds\<rparr>, None)))
      | CommandRequested c \<Rightarrow> (i, None)
      | SagaEnded \<Rightarrow> (i\<lparr>in_ended := True\<rparr>, None)
      | OtherEvent n x \<Rightarrow>
          (i, Some (Errorf ''saga %s: unknown stream event %q'' [FStr (sd_name d), FStr n])))"

section \<open>The runner\<close>

type_synonym ('w, 's, 'p, 'x) saga_repo = "('w, 'p, ('p, 'x) saga_event, ('s, 'p) saga_inst) repository"

record ('w, 's, 'p, 'x) runner =
  rn_def :: "('s, 'p) saga_def"
  rn_repo :: "('w, 's, 'p, 'x) saga_repo"
  rn_retries :: nat

definition new_runner ::
  "('s, 'p) saga_def \<Rightarrow> 's \<Rightarrow> ('w, 'p) store_ops \<Rightarrow> ('p, ('p, 'x) saga_event) registry
   \<Rightarrow> (('p, 'x) saga_event \<Rightarrow> 'p res) \<Rightarrow> ('w, 's, 'p, 'x) runner" where
  "new_runner d s0 store registry marshal =
     \<lparr>rn_def = d,
      rn_repo = \<lparr>rp_store = store, rp_registry = registry, rp_category = saga_category d,
        rp_zero = new_instance s0, rp_name = saga_event_name, rp_apply = saga_apply d,
        rp_marshal = marshal\<rparr>,
      rn_retries = 3\<rparr>"

type_synonym ('s, 'p, 'x) saga_agg = "(('s, 'p) saga_inst, ('p, 'x) saga_event) aggregate"

definition saga_raise ::
  "('s, 'p) saga_def \<Rightarrow> ('s, 'p, 'x) saga_agg \<Rightarrow> ('p, 'x) saga_event \<Rightarrow> ('s, 'p, 'x) saga_agg \<times> gerr option" where
  "saga_raise d a e = raise_event saga_event_name (saga_apply d) a e"

text \<open>The loop over the decided commands.\<close>

fun record_commands ::
  "('s, 'p) saga_def \<Rightarrow> string \<Rightarrow> metadata \<Rightarrow> ('s, 'p, 'x) saga_agg \<Rightarrow> 'p out_command list
   \<Rightarrow> ('s, 'p, 'x) saga_agg \<times> gerr option" where
  "record_commands d sid md a [] = (a, None)"
| "record_commands d sid md a (out # outs) =
     (if oc_topic out = [] then
        (a, Some (Errorf ''saga %s/%s: command %s has no topic''
                    [FStr (sd_name d), FStr sid, FStr (cv_name (oc_cmd out))]))
      else
        (case cv_json (oc_cmd out) of
           Inl err \<Rightarrow> (a, Some (Wrapf ''saga %s/%s: encoding %s: %w''
                        [FStr (sd_name d), FStr sid, FStr (cv_name (oc_cmd out))] err))
         | Inr payload \<Rightarrow>
             (case saga_raise d a (CommandRequested
                 \<lparr>cq_topic = oc_topic out,
                  cq_key = (if oc_key out = [] then sid else oc_key out),
                  cq_name = cv_name (oc_cmd out), cq_version = command_version (oc_cmd out),
                  cq_payload = payload, cq_meta = md\<rparr>) of
                (a1, Some err) \<Rightarrow> (a1, Some err)
              | (a1, None) \<Rightarrow> record_commands d sid md a1 outs)))"

text \<open>
  Everything between the load and the save: \<open>None\<close> means nothing to do. \<open>amb\<close> is what
  \<open>MetadataFromContext\<close> gives.
\<close>

definition saga_decide ::
  "('s, 'p) saga_def \<Rightarrow> string \<Rightarrow> metadata \<Rightarrow> 'p message \<Rightarrow> ('s, 'p, 'x) saga_agg
   \<Rightarrow> ('s, 'p, 'x) saga_agg option res" where
  "saga_decide d sid amb msg a =
     (if in_ended (agg_state a) \<or> mget False (in_seen (agg_state a)) (m_id msg) then Inr None
      else case saga_raise d a (EventReceived msg) of
        (a1, Some err) \<Rightarrow> Inl err
      | (a1, None) \<Rightarrow>
          (let ds = in_last (agg_state a1); md = (if amb = fmempty then m_meta msg else amb) in
           case record_commands d sid md a1 (ds_commands ds) of
             (a2, Some err) \<Rightarrow> Inl err
           | (a2, None) \<Rightarrow>
               if ds_end ds then
                 (case saga_raise d a2 SagaEnded of
                    (a3, Some err) \<Rightarrow> Inl err
                  | (a3, None) \<Rightarrow> Inr (Some a3))
               else Inr (Some a2)))"

definition saga_process ::
  "('w, 's, 'p, 'x) runner \<Rightarrow> metadata \<Rightarrow> 'w \<Rightarrow> string \<Rightarrow> 'p message \<Rightarrow> 'w \<times> bool \<times> gerr option" where
  "saga_process rn amb w sid msg =
     (case repo_load (rn_repo rn) w sid of
        (w1, r) \<Rightarrow>
          (case (case r of
                   Inr a \<Rightarrow> Inr a
                 | Inl err \<Rightarrow> if errors_is err ErrNotFound
                            then Inr (new_aggregate (rp_zero (rn_repo rn))) else Inl err) of
             Inl err \<Rightarrow> (w1, True, Some err)
           | Inr inst \<Rightarrow>
               (case saga_decide (rn_def rn) sid amb msg inst of
                  Inl err \<Rightarrow> (w1, True, Some err)
                | Inr None \<Rightarrow> (w1, True, None)
                | Inr (Some inst') \<Rightarrow>
                    (case repo_save (rn_repo rn) amb None w1 sid inst' of
                       (w2, pos, inst'', Some err) \<Rightarrow>
                         (w2, \<not> errors_is err ErrVersionConflict, Some err)
                     | (w2, pos, inst'', None) \<Rightarrow> (w2, True, None)))))"

text \<open>The attempts left count down from the conflict retries.\<close>

fun saga_attempts ::
  "('w, 's, 'p, 'x) runner \<Rightarrow> metadata \<Rightarrow> 'w \<Rightarrow> string \<Rightarrow> 'p message \<Rightarrow> nat \<Rightarrow> 'w \<times> gerr option" where
  "saga_attempts rn amb w sid msg k =
     (case saga_process rn amb w sid msg of
        (w1, done1, err) \<Rightarrow>
          if err = None \<or> done1 then (w1, err)
          else (case k of 0 \<Rightarrow> (w1, err) | Suc k' \<Rightarrow> saga_attempts rn amb w1 sid msg k'))"

declare saga_attempts.simps [simp del]

definition saga_handler :: "('w, 's, 'p, 'x) runner \<Rightarrow> metadata \<Rightarrow> ('w, 'p) msg_handler" where
  "saga_handler rn amb = (\<lambda>w msg.
     (case sd_handlers (rn_def rn) (event_key (m_type msg) (m_version msg)) of
        None \<Rightarrow> (w, None)
      | Some handler \<Rightarrow>
          (case eh_correlate handler msg of
             Inl err \<Rightarrow> (w, None)
           | Inr sid \<Rightarrow>
               if sid = [] then (w, None)
               else saga_attempts rn amb w sid msg (rn_retries rn))))"


section \<open>What one delivery records\<close>

definition received :: "('p, 'x) saga_event list \<Rightarrow> string list" where
  "received es = concat (map (\<lambda>e. case e of EventReceived m \<Rightarrow> [m_id m] | _ \<Rightarrow> []) es)"

lemma received_simps [simp]:
  "received [] = []" "received (EventReceived m # es) = m_id m # received es"
  "received (CommandRequested c # es) = received es" "received (SagaEnded # es) = received es"
  "received (OtherEvent n x # es) = received es" "received (es @ fs) = received es @ received fs"
  by (simp_all add: received_def)

lemma received_commands [simp]: "received (map (\<lambda>x. CommandRequested (f x)) xs) = []"
  by (induction xs) auto

definition requested :: "string \<Rightarrow> metadata \<Rightarrow> 'p out_command \<Rightarrow> 'p command_requested" where
  "requested sid md out =
     \<lparr>cq_topic = oc_topic out, cq_key = (if oc_key out = [] then sid else oc_key out),
      cq_name = cv_name (oc_cmd out), cq_version = command_version (oc_cmd out),
      cq_payload = projr (cv_json (oc_cmd out)), cq_meta = md\<rparr>"

definition decided :: "string \<Rightarrow> metadata \<Rightarrow> 'p message \<Rightarrow> 'p decisions \<Rightarrow> ('p, 'x) saga_event list" where
  "decided sid amb msg ds =
     EventReceived msg #
     map (\<lambda>out. CommandRequested (requested sid (if amb = fmempty then m_meta msg else amb) out)) (ds_commands ds) @
     (if ds_end ds then [SagaEnded] else [])"

text \<open>What the handler says of a message in a given instance: the state and decisions it leaves.\<close>

definition reaction :: "('s, 'p) saga_def \<Rightarrow> ('s, 'p) saga_inst \<Rightarrow> 'p message \<Rightarrow> 'p decisions" where
  "reaction d i msg = (case sd_handlers d (event_key (m_type msg) (m_version msg)) of
     None \<Rightarrow> no_decisions
   | Some handler \<Rightarrow>
       (case eh_handle handler (in_state i) msg of (s, Inl err) \<Rightarrow> in_last i | (s, Inr ds) \<Rightarrow> ds))"

lemma reaction_apply: "saga_apply d i (EventReceived msg) = (i', e) \<Longrightarrow> in_last i' = reaction d i msg"
  by (auto simp: reaction_def saga_apply_def Let_def split: option.splits prod.splits sum.splits)

lemma saga_apply_seen:
  "saga_apply d i e = (i', None) \<Longrightarrow>
   (mget False (in_seen i') x \<longleftrightarrow> mget False (in_seen i) x \<or> x \<in> set (received [e])) \<and>
   (in_ended i' \<longleftrightarrow> in_ended i \<or> e = SagaEnded)"
  by (auto simp: saga_apply_def Let_def split: saga_event.splits option.splits prod.splits sum.splits if_splits)

lemma replay_seen:
  "replay (saga_apply d) i es = Some i' \<Longrightarrow>
   (mget False (in_seen i') x \<longleftrightarrow> mget False (in_seen i) x \<or> x \<in> set (received es)) \<and>
   (in_ended i' \<longleftrightarrow> in_ended i \<or> SagaEnded \<in> set es)"
proof (induction es arbitrary: i)
  case (Cons e es)
  then obtain i1 where i1: "saga_apply d i e = (i1, None)" "replay (saga_apply d) i1 es = Some i'"
    by (auto split: prod.splits option.splits)
  have "set (received (e # es)) = set (received [e]) \<union> set (received es)" by (cases e) auto
  with Cons.IH[OF i1(2)] saga_apply_seen[OF i1(1)] show ?case by auto
qed simp

lemma new_instance_seen [simp]:
  "\<not> mget False (in_seen (new_instance s)) x" "\<not> in_ended (new_instance s)"
  by (simp_all add: new_instance_def)

lemma saga_raise_quiet:
  assumes "saga_raise d a e = (a', None)" "e = CommandRequested c \<or> e = SagaEnded"
  shows "agg_pending a' = agg_pending a @ [e] \<and> agg_version a' = agg_version a"
  using assms by (auto simp: saga_raise_def raise_ok_iff)

lemma record_commands_ok:
  "record_commands d sid md a outs = (a', None) \<Longrightarrow>
   agg_pending a' = agg_pending a @ map (\<lambda>out. CommandRequested (requested sid md out)) outs \<and>
   agg_version a' = agg_version a \<and>
   (\<forall>out\<in>set outs. oc_topic out \<noteq> [] \<and> cv_json (oc_cmd out) \<in> range Inr) \<and>
   (\<forall>z c. agg_inv (saga_apply d) z c a \<longrightarrow> agg_inv (saga_apply d) z c a')"
proof (induction outs arbitrary: a)
  case (Cons out outs)
  obtain payload where p: "oc_topic out \<noteq> []" "cv_json (oc_cmd out) = Inr payload"
    using Cons.prems by (cases "cv_json (oc_cmd out)") (auto split: if_splits)
  then have q: "requested sid md out = \<lparr>cq_topic = oc_topic out,
      cq_key = (if oc_key out = [] then sid else oc_key out), cq_name = cv_name (oc_cmd out),
      cq_version = command_version (oc_cmd out), cq_payload = payload, cq_meta = md\<rparr>"
    by (simp add: requested_def)
  obtain a1 where a1: "saga_raise d a (CommandRequested (requested sid md out)) = (a1, None)"
    "record_commands d sid md a1 outs = (a', None)"
    using Cons.prems p unfolding q by (auto split: prod.splits option.splits)
  note qu = saga_raise_quiet[OF a1(1), of "requested sid md out"]
  have "agg_inv (saga_apply d) z c a1" if "agg_inv (saga_apply d) z c a" for z c
    using agg_inv_raise[OF that] a1(1) by (simp add: saga_raise_def)
  with Cons.IH[OF a1(2)] qu p show ?case by auto
qed simp

lemma saga_decide_ok:
  assumes "saga_decide d sid amb msg a = Inr (Some a')"
  shows "agg_pending a' = agg_pending a @ decided sid amb msg (reaction d (agg_state a) msg) \<and>
    agg_version a' = agg_version a \<and> \<not> in_ended (agg_state a) \<and>
    \<not> mget False (in_seen (agg_state a)) (m_id msg) \<and>
    (\<forall>z c. agg_inv (saga_apply d) z c a \<longrightarrow> agg_inv (saga_apply d) z c a')"
proof -
  let ?md = "if amb = fmempty then m_meta msg else amb"
  have n: "\<not> in_ended (agg_state a)" "\<not> mget False (in_seen (agg_state a)) (m_id msg)"
    using assms by (auto simp: saga_decide_def split: if_splits)
  obtain a1 where a1: "saga_raise d a (EventReceived msg) = (a1, None)"
    using assms n by (auto simp: saga_decide_def split: prod.splits option.splits)
  have r1: "agg_pending a1 = agg_pending a @ [EventReceived msg]" "agg_version a1 = agg_version a"
      "in_last (agg_state a1) = reaction d (agg_state a) msg"
    using a1 by (auto simp: saga_raise_def raise_ok_iff reaction_apply)
  let ?ds = "reaction d (agg_state a) msg"
  obtain a2 where a2: "record_commands d sid ?md a1 (ds_commands ?ds) = (a2, None)"
    using assms n a1 r1(3) by (auto simp: saga_decide_def Let_def split: prod.splits option.splits)
  note r2 = record_commands_ok[OF a2]
  have inv2: "agg_inv (saga_apply d) z c a2" if "agg_inv (saga_apply d) z c a" for z c
    using agg_inv_raise[OF that, of saga_event_name] a1 r2 unfolding saga_raise_def by blast
  show ?thesis
  proof (cases "ds_end ?ds")
    case False
    then have "a' = a2" using assms n a1 a2 r1(3) by (auto simp: saga_decide_def Let_def)
    with n r1 r2 inv2 False show ?thesis by (auto simp: decided_def)
  next
    case True
    then have a3: "saga_raise d a2 SagaEnded = (a', None)"
      using assms n a1 a2 r1(3) by (auto simp: saga_decide_def Let_def split: prod.splits option.splits)
    have "agg_pending a' = agg_pending a2 @ [SagaEnded]" "agg_version a' = agg_version a2"
      using a3 by (auto simp: saga_raise_def raise_ok_iff)
    moreover have "agg_inv (saga_apply d) z c a'" if "agg_inv (saga_apply d) z c a" for z c
      using agg_inv_raise[OF inv2[OF that]] a3 by (simp add: saga_raise_def)
    ultimately show ?thesis using n r1 r2 True by (auto simp: decided_def)
  qed
qed

text \<open>A runner whose repository is the one \<open>NewRunner\<close> builds.\<close>

definition runner_ok :: "('w, 's, 'p, 'x) runner \<Rightarrow> 's \<Rightarrow> bool" where
  "runner_ok rn s0 \<longleftrightarrow> rp_apply (rn_repo rn) = saga_apply (rn_def rn) \<and>
     rp_zero (rn_repo rn) = new_instance s0 \<and> rp_name (rn_repo rn) = saga_event_name"

lemma runner_ok_new: "runner_ok (new_runner d s0 store registry marshal) s0"
  by (simp add: runner_ok_def new_runner_def)

definition saga_stream :: "('w, 's, 'p, 'x) runner \<Rightarrow> string \<Rightarrow> stream_id" where
  "saga_stream rn sid = rp_stream (rn_repo rn) sid"

text \<open>The two ways a delivery ends well, as what they say of the log.\<close>

definition saga_noop :: "('w, 's, 'p, 'x) runner \<Rightarrow> string \<Rightarrow> 'p message \<Rightarrow> 'p recorded list \<Rightarrow> bool" where
  "saga_noop rn sid msg l \<longleftrightarrow>
     (\<exists>es. decode_all (rp_registry (rn_repo rn)) (stream_recs l (saga_stream rn sid)) = Inr es \<and>
        (m_id msg \<in> set (received es) \<or> SagaEnded \<in> set es))"

definition saga_step ::
  "('w, 's, 'p, 'x) runner \<Rightarrow> 's \<Rightarrow> metadata \<Rightarrow> string \<Rightarrow> 'p message \<Rightarrow> 'p recorded list \<Rightarrow> 'p recorded list
   \<Rightarrow> bool" where
  "saga_step rn s0 amb sid msg pre new \<longleftrightarrow>
     (\<exists>es i data.
       decode_all (rp_registry (rn_repo rn)) (stream_recs pre (saga_stream rn sid)) = Inr es \<and>
       replay (saga_apply (rn_def rn)) (new_instance s0) es = Some i \<and>
       m_id msg \<notin> set (received es) \<and> SagaEnded \<notin> set es \<and>
       replay (saga_apply (rn_def rn)) i
         (decided sid amb msg (reaction (rn_def rn) i msg) :: ('p, 'x) saga_event list) \<noteq> None \<and>
       encode_all (rn_repo rn) amb (decided sid amb msg (reaction (rn_def rn) i msg)) = Inr data \<and>
       appended (saga_stream rn sid) data new)"

definition saga_recorded ::
  "('w, 's, 'p, 'x) runner \<Rightarrow> 's \<Rightarrow> metadata \<Rightarrow> string \<Rightarrow> 'p message \<Rightarrow> 'p recorded list \<Rightarrow> 'p recorded list
   \<Rightarrow> bool" where
  "saga_recorded rn s0 amb sid msg l l' \<longleftrightarrow>
     (\<exists>pre new. l' = pre @ new \<and> prefix l pre \<and> saga_step rn s0 amb sid msg pre new)"

context event_store
begin

lemma saga_loaded:
  assumes "inv w" "runner_ok rn s0" "rp_store (rn_repo rn) = ops" "repo_load (rn_repo rn) w sid = (w1, Inr a)"
  shows "\<exists>es. decode_all (rp_registry (rn_repo rn)) (stream_recs (log w1) (saga_stream rn sid)) = Inr es \<and>
    agg_inv (saga_apply (rn_def rn)) (new_instance s0) es a \<and> agg_pending a = []"
proof -
  note l = repo_load_ok[OF assms(1,3,4)]
  have r: "rp_apply (rn_repo rn) = saga_apply (rn_def rn)" "rp_zero (rn_repo rn) = new_instance s0"
      "rp_name (rn_repo rn) = saga_event_name" "rp_stream (rn_repo rn) sid = saga_stream rn sid"
    using assms(2) by (simp_all add: runner_ok_def saga_stream_def)
  from l obtain es where
    e: "decode_all (rp_registry (rn_repo rn)) (stream_recs (log w1) (saga_stream rn sid)) = Inr es"
       "rehydrate saga_event_name (saga_apply (rn_def rn)) (new_aggregate (new_instance s0)) es = (a, None)"
    unfolding r by (elim conjE exE)
  from agg_inv_rehydrate[OF e(2)] e(1) show ?thesis by (intro exI[of _ es]) simp
qed

text \<open>
  One delivery that ends without an error either loaded the instance, found the message already
  received or the saga ended, and did nothing more, or appended exactly what was decided, behind a
  stream that had not moved since it was read.
\<close>

lemma saga_process_ok:
  fixes rn :: "('w, 's, 'p, 'x) runner"
  assumes "inv w" "runner_ok rn s0" "rp_store (rn_repo rn) = ops"
    and "saga_process rn amb w sid msg = (w', done1, None)"
  shows "inv w' \<and> prefix (log w) (log w') \<and>
    ((\<exists>a. repo_load (rn_repo rn) w sid = (w', Inr a)) \<and> saga_noop rn sid msg (log w') \<or>
     saga_recorded rn s0 amb sid msg (log w) (log w'))"
proof -
  let ?rp = "rn_repo rn" and ?d = "rn_def rn" and ?st = "saga_stream rn sid"
  have st: "?st = rp_stream ?rp sid" by (simp add: saga_stream_def)
  obtain w1 r where l: "repo_load ?rp w sid = (w1, r)" by force
  define inst where "inst = (case r of Inr a \<Rightarrow> a | Inl err \<Rightarrow> new_aggregate (new_instance s0))"
  have i1: "inv w1" "prefix (log w) (log w1)"
  proof -
    obtain r1 where "st_load ops w ?st 0 = (w1, r1)"
      using l assms(3) st by (auto simp: repo_load_def split: prod.splits sum.splits)
    from load_law[OF assms(1) this] show "inv w1" "prefix (log w) (log w1)" by auto
  qed
  have zero: "rp_zero ?rp = new_instance s0" using assms(2) by (simp add: runner_ok_def)
  have sel: "r = Inr inst \<or> (\<exists>err. r = Inl err \<and> errors_is err ErrNotFound \<and> inst = new_aggregate (new_instance s0))"
    using assms(4) l by (auto simp: saga_process_def inst_def split: sum.splits if_splits)
  text \<open>The instance is that of the events the stream holds, if its version is the stream's.\<close>
  have es: "\<exists>es. agg_inv (saga_apply ?d) (new_instance s0) es inst \<and> agg_pending inst = [] \<and>
      (\<forall>l'. prefix (log w1) l' \<longrightarrow> stream_version l' ?st = agg_version inst \<longrightarrow>
         decode_all (rp_registry ?rp) (stream_recs l' ?st) = Inr es) \<and>
      (r = Inr inst \<longrightarrow> decode_all (rp_registry ?rp) (stream_recs (log w1) ?st) = Inr es)"
  proof (cases "r = Inr inst")
    case True
    from saga_loaded[OF assms(1-3) l[unfolded True]] obtain es where
      e: "decode_all (rp_registry ?rp) (stream_recs (log w1) ?st) = Inr es"
         "agg_inv (saga_apply ?d) (new_instance s0) es inst" "agg_pending inst = []" by blast
    have v: "agg_version inst = stream_version (log w1) ?st"
      using repo_load_version[OF assms(1,3) l[unfolded True]] st by simp
    have "stream_recs l' ?st = stream_recs (log w1) ?st"
      if "prefix (log w1) l'" "stream_version l' ?st = agg_version inst" for l'
      using prefix_filter_eq[OF that(1), of "\<lambda>r. rec_stream r = ?st"] that(2) v
      unfolding stream_version_def stream_recs_def by (metis of_nat_eq_iff)
    with e show ?thesis by auto
  next
    case False
    with sel have n: "inst = new_aggregate (new_instance s0)" by blast
    then have "agg_inv (saga_apply ?d) (new_instance s0) [] inst" by (simp add: agg_inv_new)
    moreover have "decode_all (rp_registry ?rp) (stream_recs l' ?st) = Inr []"
      if "stream_version l' ?st = agg_version inst" for l'
      using that n by (simp add: new_aggregate_def stream_version_def)
    ultimately show ?thesis using False n by (intro exI[of _ "[]"]) (auto simp: new_aggregate_def)
  qed
  then obtain es where e: "agg_inv (saga_apply ?d) (new_instance s0) es inst" "agg_pending inst = []"
      "\<And>l'. prefix (log w1) l' \<Longrightarrow> stream_version l' ?st = agg_version inst \<Longrightarrow>
         decode_all (rp_registry ?rp) (stream_recs l' ?st) = Inr es"
      "r = Inr inst \<Longrightarrow> decode_all (rp_registry ?rp) (stream_recs (log w1) ?st) = Inr es" by blast
  have rep: "replay (saga_apply ?d) (new_instance s0) es = Some (agg_state inst)"
    using e(1,2) by (simp add: agg_inv_def)
  have seen: "mget False (in_seen (agg_state inst)) x \<longleftrightarrow> x \<in> set (received es)"
    "in_ended (agg_state inst) \<longleftrightarrow> SagaEnded \<in> set es" for x
    using replay_seen[OF rep] by auto
  have rest: "(case saga_decide ?d sid amb msg inst of
       Inl err \<Rightarrow> (w1, True, Some err)
     | Inr None \<Rightarrow> (w1, True, None)
     | Inr (Some inst') \<Rightarrow> (case repo_save ?rp amb None w1 sid inst' of
          (w2, pos, inst'', Some err) \<Rightarrow> (w2, \<not> errors_is err ErrVersionConflict, Some err)
        | (w2, pos, inst'', None) \<Rightarrow> (w2, True, None))) = (w', done1, None)"
    using assms(4) l sel zero by (auto simp: saga_process_def)
  show ?thesis
  proof (cases "saga_decide ?d sid amb msg inst")
    case (Inl err)
    with rest show ?thesis by simp
  next
    case (Inr oi)
    show ?thesis
    proof (cases oi)
      case None
      then have w': "w' = w1" using rest Inr by simp
      have se: "in_ended (agg_state inst) \<or> mget False (in_seen (agg_state inst)) (m_id msg)"
        using Inr None by (auto simp: saga_decide_def Let_def split: if_splits prod.splits option.splits)
      have ri: "r = Inr inst" using sel se by (auto simp: new_aggregate_def)
      from e(4)[OF this] se seen have "saga_noop rn sid msg (log w1)"
        unfolding saga_noop_def by blast
      moreover have "repo_load ?rp w sid = (w', Inr inst)" using l ri w' by simp
      ultimately show ?thesis using w' i1 by blast
    next
      case (Some inst')
      note dec = saga_decide_ok[OF Inr[unfolded Some]]
      obtain w2 pos i2 err where sv: "repo_save ?rp amb None w1 sid inst' = (w2, pos, i2, err)"
        by (cases "repo_save ?rp amb None w1 sid inst'") auto
      have w2: "w2 = w'" "err = None" using rest Inr Some sv by (auto split: option.splits)
      have ne: "agg_pending inst' \<noteq> []" using dec by (simp add: decided_def)
      from repo_save_ok[OF i1(1) assms(3) sv[unfolded w2] ne] obtain data pre new where
        s: "encode_all ?rp amb (agg_pending inst') = Inr data" "prefix (log w1) pre"
           "log w' = pre @ new" "stream_version pre ?st = agg_version inst'"
           "appended ?st data new" "inv w'"
        unfolding st by blast
      have d: "decode_all (rp_registry ?rp) (stream_recs pre ?st) = Inr es"
        using e(3)[OF s(2)] s(4) dec by simp
      have p: "prefix (log w) pre" using prefix_order.trans[OF i1(2) s(2)] .
      have pend: "agg_pending inst' = decided sid amb msg (reaction ?d (agg_state inst) msg)"
        using dec e(2) by simp
      have ns: "m_id msg \<notin> set (received es)" "SagaEnded \<notin> set es" using dec seen by auto
      have "agg_inv (saga_apply ?d) (new_instance s0) es inst'" using dec e(1) by blast
      then have "replay (saga_apply ?d) (new_instance s0) (es @ agg_pending inst') \<noteq> None"
        by (simp add: agg_inv_def)
      then have rp: "replay (saga_apply ?d) (agg_state inst)
          (decided sid amb msg (reaction ?d (agg_state inst) msg) :: ('p, 'x) saga_event list) \<noteq> None"
        unfolding pend using rep by (simp add: replay_append)
      have "saga_step rn s0 amb sid msg pre new"
        unfolding saga_step_def
        by (intro exI conjI, rule d, rule rep, rule ns(1), rule ns(2), rule rp,
            rule s(1)[unfolded pend], rule s(5))
      then have "saga_recorded rn s0 amb sid msg (log w) (log w')"
        unfolding saga_recorded_def using s(3) p by blast
      moreover have "prefix (log w) (log w')" using p s(3) by simp
      ultimately show ?thesis using s(6) by blast
    qed
  qed
qed

end

section \<open>The history of an instance\<close>

text \<open>
  The reference semantics of a saga: feed it the messages one by one, each in the state the
  earlier ones left. A log that only deliveries have written to an instance's stream is such
  a history, whatever other streams received in between.
\<close>

fun saga_history ::
  "('s, 'p) saga_def \<Rightarrow> ('s, 'p) saga_inst \<Rightarrow> string \<Rightarrow> (metadata \<times> 'p message) list \<Rightarrow> ('p, 'x) saga_event list" where
  "saga_history d i sid [] = []"
| "saga_history d i sid ((amb, msg) # bs) =
     (let es = decided sid amb msg (reaction d i msg) in
      es @ saga_history d (case replay (saga_apply d) i es of None \<Rightarrow> i | Some i' \<Rightarrow> i') sid bs)"

inductive saga_log :: "('w, 's, 'p, 'x) runner \<Rightarrow> 's \<Rightarrow> string \<Rightarrow> 'p recorded list \<Rightarrow> bool" for rn s0 sid where
  unborn: "stream_recs l (saga_stream rn sid) = [] \<Longrightarrow> saga_log rn s0 sid l"
| elsewhere: "saga_log rn s0 sid l \<Longrightarrow> stream_recs new (saga_stream rn sid) = [] \<Longrightarrow> saga_log rn s0 sid (l @ new)"
| delivery: "saga_log rn s0 sid pre \<Longrightarrow> saga_step rn s0 amb sid msg pre new \<Longrightarrow> saga_log rn s0 sid (pre @ new)"

lemma saga_history_snoc:
  "replay (saga_apply d) i (saga_history d i sid bs :: ('p, 'x) saga_event list) = Some i' \<Longrightarrow>
   (saga_history d i sid (bs @ [(amb, msg)]) :: ('p, 'x) saga_event list) =
     saga_history d i sid bs @ decided sid amb msg (reaction d i' msg)"
proof (induction bs arbitrary: i)
  case (Cons b bs)
  obtain amb1 m1 where b: "b = (amb1, m1)" by force
  let ?es = "decided sid amb1 m1 (reaction d i m1) :: ('p, 'x) saga_event list"
  from Cons.prems b obtain i1 where i1: "replay (saga_apply d) i ?es = Some i1"
      "replay (saga_apply d) i1 (saga_history d i1 sid bs :: ('p, 'x) saga_event list) = Some i'"
    by (auto simp: Let_def replay_append bind_eq_Some_conv)
  with Cons.IH[OF i1(2)] b show ?case by (simp add: Let_def)
qed simp

lemma received_decided [simp]: "received (decided sid amb msg ds) = [m_id msg]"
  by (simp add: decided_def)

lemma received_history: "received (saga_history d i sid bs) = map (\<lambda>b. m_id (snd b)) bs"
  by (induction d i sid bs rule: saga_history.induct) (simp_all add: Let_def)

lemma saga_log_history:
  fixes rn :: "('w, 's, 'p, 'x) runner"
  assumes "saga_log rn s0 sid l"
    and "codec_ok (rp_name (rn_repo rn)) (rp_marshal (rn_repo rn)) (rp_registry (rn_repo rn))"
  shows "\<exists>bs. decode_all (rp_registry (rn_repo rn)) (stream_recs l (saga_stream rn sid)) =
       Inr (saga_history (rn_def rn) (new_instance s0) sid bs) \<and>
     distinct (map (\<lambda>b. m_id (snd b)) bs) \<and>
     SagaEnded \<notin> set (saga_history (rn_def rn) (new_instance s0) sid (butlast bs) :: ('p, 'x) saga_event list) \<and>
     replay (saga_apply (rn_def rn)) (new_instance s0)
       (saga_history (rn_def rn) (new_instance s0) sid bs :: ('p, 'x) saga_event list) \<noteq> None"
  using assms(1)
proof (induction rule: saga_log.induct)
  case (unborn l)
  then show ?case by (intro exI[of _ "[]"]) simp
next
  case (elsewhere l new)
  then show ?case by (simp add: stream_recs_append)
next
  case (delivery pre amb msg new)
  let ?H = "saga_history (rn_def rn) (new_instance s0) sid :: _ \<Rightarrow> ('p, 'x) saga_event list"
  obtain bs where bs: "decode_all (rp_registry (rn_repo rn)) (stream_recs pre (saga_stream rn sid)) = Inr (?H bs)"
      "distinct (map (\<lambda>b. m_id (snd b)) bs)" using delivery.IH by blast
  from delivery.hyps(2) bs(1) obtain i data where
    s: "replay (saga_apply (rn_def rn)) (new_instance s0) (?H bs) = Some i"
       "m_id msg \<notin> set (received (?H bs))" "SagaEnded \<notin> set (?H bs)"
       "replay (saga_apply (rn_def rn)) i
          (decided sid amb msg (reaction (rn_def rn) i msg) :: ('p, 'x) saga_event list) \<noteq> None"
       "encode_all (rn_repo rn) amb (decided sid amb msg (reaction (rn_def rn) i msg)) = Inr data"
       "appended (saga_stream rn sid) data new"
    by (auto simp: saga_step_def)
  note sn = saga_history_snoc[OF s(1), of amb msg]
  have "decode_all (rp_registry (rn_repo rn)) new = Inr (decided sid amb msg (reaction (rn_def rn) i msg))"
    by (rule decode_all_encode_all[OF assms(2) s(5)]) (use s(6) in \<open>simp add: appended_def\<close>)
  then have "decode_all (rp_registry (rn_repo rn)) (stream_recs (pre @ new) (saga_stream rn sid)) =
      Inr (?H (bs @ [(amb, msg)]))"
    using bs(1) s(6) sn by (simp add: stream_recs_append appended_recs decode_all_append)
  moreover have "distinct (map (\<lambda>b. m_id (snd b)) (bs @ [(amb, msg)]))"
    using bs(2) s(2) by (simp add: received_history)
  moreover have "replay (saga_apply (rn_def rn)) (new_instance s0) (?H (bs @ [(amb, msg)])) \<noteq> None"
    unfolding sn using s(1,4) by (simp add: replay_append)
  moreover have "SagaEnded \<notin> set (?H (butlast (bs @ [(amb, msg)])))" using s(3) by simp
  ultimately show ?case by blast
qed

end
