(* ===== verification/World.thy ===== *)
theory World
  imports Relay Projection Saga
begin

text \<open>
  One world for the ports: the in-memory implementations side by side, and an environment. The
  environment is a schedule of happenings, one for each call that leaves the process: other
  writers append to the store first, then the call goes through, is refused, or takes effect
  (for a publish, in part) while its caller gets an error. The context ends when the schedule
  does, so a finite schedule is a run of the process up to its shutdown or crash, and any
  schedule stands for any such run. The locales of the ports and of their clients are
  interpreted here.
\<close>

section \<open>Happenings\<close>

text \<open>
  A fault is its error text and how much of the call took effect before it: nothing for 0, all
  of it for a positive number, except for a publish, where it counts messages.
\<close>

record 'p happening =
  hp_now :: instant
  hp_appends :: "(stream_id \<times> 'p event_data list) list"
  hp_fault :: "(string \<times> nat) option"

definition calm :: "instant \<Rightarrow> 'p happening" where
  "calm t = \<lparr>hp_now = t, hp_appends = [], hp_fault = None\<rparr>"

record ('p, 'v) world =
  wd_store :: "'p mem_store"
  wd_cps :: mem_checkpoints
  wd_broker :: "'p mem_broker"
  wd_inbox :: "'p mem_inbox"
  wd_dedup :: mem_dedup
  wd_view :: 'v
  wd_now :: instant
  wd_sched :: "'p happening list"

definition new_world :: "'v \<Rightarrow> 'p happening list \<Rightarrow> ('p, 'v) world" where
  "new_world v sched = \<lparr>wd_store = new_mem_store, wd_cps = new_mem_checkpoints,
     wd_broker = new_mem_broker, wd_inbox = new_mem_inbox, wd_dedup = new_mem_dedup,
     wd_view = v, wd_now = 0, wd_sched = sched\<rparr>"

text \<open>Other writers know the version they append at, so their appends succeed.\<close>

fun foreign_appends ::
  "instant \<Rightarrow> (stream_id \<times> 'p event_data list) list \<Rightarrow> 'p mem_store \<Rightarrow> 'p mem_store" where
  "foreign_appends now [] s = s"
| "foreign_appends now ((st, evs) # rest) s =
     foreign_appends now rest
       (fst (mem_append now s st (int (length (mget [] (ms_streams s) st))) evs))"

definition tick :: "('p, 'v) world \<Rightarrow> ('p, 'v) world \<times> (string \<times> nat) option" where
  "tick w = (case wd_sched w of
     [] \<Rightarrow> (w, None)
   | h # hs \<Rightarrow> (w\<lparr>wd_sched := hs, wd_now := hp_now h,
                  wd_store := foreign_appends (hp_now h) (hp_appends h) (wd_store w)\<rparr>, hp_fault h))"

text \<open>A call with a result, and one with only an error.\<close>

definition faulty ::
  "(('p, 'v) world \<Rightarrow> ('p, 'v) world \<times> 'a res) \<Rightarrow> ('p, 'v) world \<Rightarrow> ('p, 'v) world \<times> 'a res" where
  "faulty op w = (case tick w of
     (w1, None) \<Rightarrow> op w1
   | (w1, Some (msg, k)) \<Rightarrow> (if k = 0 then w1 else fst (op w1), Inl (ErrExt msg)))"

definition faulty_unit ::
  "(('p, 'v) world \<Rightarrow> ('p, 'v) world \<times> gerr option) \<Rightarrow> ('p, 'v) world \<Rightarrow> ('p, 'v) world \<times> gerr option" where
  "faulty_unit op w = (case tick w of
     (w1, None) \<Rightarrow> op w1
   | (w1, Some (msg, k)) \<Rightarrow> (if k = 0 then w1 else fst (op w1), Some (ErrExt msg)))"

section \<open>The ports of the world\<close>

definition wd_append ::
  "stream_id \<Rightarrow> int \<Rightarrow> 'p event_data list \<Rightarrow> ('p, 'v) world \<Rightarrow> ('p, 'v) world \<times> int res" where
  "wd_append st v evs w =
     (case mem_append (wd_now w) (wd_store w) st v evs of (s, r) \<Rightarrow> (w\<lparr>wd_store := s\<rparr>, r))"

definition wd_store_ops :: "(('p, 'v) world, 'p) store_ops" where
  "wd_store_ops =
     \<lparr>st_append = (\<lambda>w st v evs. faulty (wd_append st v evs) w),
      st_load = (\<lambda>w st after. faulty (\<lambda>w. (w, Inr (mem_load (wd_store w) st after))) w),
      st_read_all = (\<lambda>w after limit. faulty (\<lambda>w. (w, Inr (mem_read_all (wd_store w) after limit))) w),
      st_head = (\<lambda>w. faulty (\<lambda>w. (w, Inr (mem_head (wd_store w)))) w)\<rparr>"

definition wd_cp_ops :: "('p, 'v) world cp_ops" where
  "wd_cp_ops =
     \<lparr>cp_get = (\<lambda>w name. faulty (\<lambda>w. (w, snd (mem_cp_get (wd_cps w) name))) w),
      cp_set = (\<lambda>w name seq. faulty_unit (\<lambda>w. (w\<lparr>wd_cps := fst (mem_cp_set (wd_cps w) name seq)\<rparr>, None)) w)\<rparr>"

definition wd_publish :: "(('p, 'v) world, 'p) publish" where
  "wd_publish w topic msgs = (case tick w of
     (w1, None) \<Rightarrow> (w1\<lparr>wd_broker := mb_publish (wd_broker w1) topic msgs\<rparr>, None)
   | (w1, Some (msg, k)) \<Rightarrow>
       (w1\<lparr>wd_broker := mb_publish (wd_broker w1) topic (take k msgs)\<rparr>, Some (ErrExt msg)))"

definition wd_inbox_ops :: "(('p, 'v) world, 'p) inbox_ops" where
  "wd_inbox_ops =
     \<lparr>ib_append = (\<lambda>w msg. faulty_unit (\<lambda>w. (w\<lparr>wd_inbox := mi_append (wd_inbox w) msg\<rparr>, None)) w),
      ib_read_all = (\<lambda>w after limit. faulty (\<lambda>w. (w, Inr (mi_read_all (wd_inbox w) after limit))) w),
      ib_head = (\<lambda>w. faulty (\<lambda>w. (w, Inr (mi_head (wd_inbox w)))) w)\<rparr>"

definition wd_dedup_ops :: "('p, 'v) world dedup_ops" where
  "wd_dedup_ops =
     \<lparr>dd_processed = (\<lambda>w mid. faulty (\<lambda>w. (w, Inr (mem_processed (wd_dedup w) mid))) w),
      dd_mark = (\<lambda>w mid. faulty_unit (\<lambda>w. (w\<lparr>wd_dedup := mem_mark (wd_dedup w) mid\<rparr>, None)) w)\<rparr>"

definition wd_ctx :: "('p, 'v) world ctx_ops" where
  "wd_ctx =
     \<lparr>ctx_err = (\<lambda>w. (w, wd_sched w = [])),
      ctx_sleep = (\<lambda>w. let w1 = fst (tick w) in (w1, wd_sched w1 \<noteq> []))\<rparr>"

definition wd_broker_at :: "(('p, 'v) world, 'p) broker_at" where
  "wd_broker_at = \<lparr>ba_get = wd_broker, ba_put = (\<lambda>b w. w\<lparr>wd_broker := b\<rparr>)\<rparr>"

section \<open>What a call changes\<close>

definition wd_log :: "('p, 'v) world \<Rightarrow> 'p recorded list" where
  "wd_log w = ms_all (wd_store w)"

definition wd_cp :: "('p, 'v) world \<Rightarrow> string \<Rightarrow> int" where
  "wd_cp w = mget 0 (wd_cps w)"

definition wd_topic :: "('p, 'v) world \<Rightarrow> string \<Rightarrow> 'p message list" where
  "wd_topic w = mget [] (mb_topics (wd_broker w))"

definition wd_ilog :: "('p, 'v) world \<Rightarrow> 'p inbox_message list" where
  "wd_ilog w = mi_msgs (wd_inbox w)"

definition wd_inv :: "('p, 'v) world \<Rightarrow> bool" where
  "wd_inv w \<longleftrightarrow> mem_inv (wd_store w) \<and> mi_inv (wd_inbox w)"

definition wd_budget :: "('p, 'v) world \<Rightarrow> nat" where
  "wd_budget w = length (wd_sched w)"

lemma wd_inv_new [simp]: "wd_inv (new_world v sched)"
  by (simp add: wd_inv_def new_world_def mem_inv_new)

lemma foreign_appends_ok:
  "mem_inv s \<Longrightarrow> mem_inv (foreign_appends now as s) \<and> prefix (ms_all s) (ms_all (foreign_appends now as s))"
proof (induction as arbitrary: s)
  case (Cons a as)
  obtain st evs where a: "a = (st, evs)" by force
  obtain s1 r where s1: "mem_append now s st (int (length (mget [] (ms_streams s) st))) evs = (s1, r)" by force
  from mem_append_meets_spec[OF Cons.prems s1] have
    m: "mem_inv s1" "prefix (ms_all s) (ms_all s1)" using append_spec_prefix by auto
  from Cons.IH[OF m(1)] m(2) a s1 show ?case using prefix_order.trans[OF m(2)] by auto
qed simp

text \<open>The frame of the environment: what one happening may change.\<close>

definition same_ports :: "('p, 'v) world \<Rightarrow> ('p, 'v) world \<Rightarrow> bool" where
  "same_ports w w' \<longleftrightarrow> wd_cps w' = wd_cps w \<and> wd_broker w' = wd_broker w \<and> wd_inbox w' = wd_inbox w \<and>
     wd_dedup w' = wd_dedup w \<and> wd_view w' = wd_view w"

lemma tick_ok:
  assumes "wd_inv w" "tick w = (w1, f)"
  shows "wd_inv w1 \<and> prefix (wd_log w) (wd_log w1) \<and> same_ports w w1 \<and> wd_budget w1 \<le> wd_budget w \<and>
    (0 < wd_budget w \<longrightarrow> wd_budget w1 < wd_budget w) \<and> (f \<noteq> None \<longrightarrow> wd_budget w1 < wd_budget w)"
  using assms foreign_appends_ok[of "wd_store w"]
  by (auto simp: tick_def wd_inv_def wd_log_def same_ports_def wd_budget_def split: list.splits)

lemma faulty_cases:
  assumes "faulty op w = (w', r)"
  obtains w1 where "tick w = (w1, None)" "op w1 = (w', r)"
  | w1 msg k where "tick w = (w1, Some (msg, k))" "r = Inl (ErrExt msg)" "w' = w1 \<or> w' = fst (op w1)"
  using assms by (auto simp: faulty_def split: prod.splits option.splits if_splits)

lemma faulty_unit_cases:
  assumes "faulty_unit op w = (w', r)"
  obtains w1 where "tick w = (w1, None)" "op w1 = (w', r)"
  | w1 msg k where "tick w = (w1, Some (msg, k))" "r = Some (ErrExt msg)" "w' = w1 \<or> w' = fst (op w1)"
  using assms by (auto simp: faulty_unit_def split: prod.splits option.splits if_splits)

text \<open>A read: the world after it is the world of the happening.\<close>

lemma faulty_read:
  assumes "wd_inv w" "faulty (\<lambda>w. (w, Inr (g w))) w = (w', r)"
  shows "wd_inv w' \<and> prefix (wd_log w) (wd_log w') \<and> same_ports w w' \<and> wd_budget w' \<le> wd_budget w \<and>
    (0 < wd_budget w \<longrightarrow> wd_budget w' < wd_budget w) \<and> (\<forall>x. r = Inr x \<longrightarrow> x = g w')"
  using assms(2)
proof (cases rule: faulty_cases)
  case (1 w1)
  with tick_ok[OF assms(1), of w1] show ?thesis by auto
next
  case (2 w1 msg k)
  with tick_ok[OF assms(1), of w1] show ?thesis by auto
qed

lemma wd_append_ok:
  assumes "wd_inv w" "wd_append st v evs w = (w', r)"
  shows "wd_inv w' \<and> append_spec (wd_log w) st v evs r (wd_log w') \<and> same_ports w w' \<and> wd_budget w' = wd_budget w"
  using assms mem_append_meets_spec[of "wd_store w" "wd_now w" st v evs]
  by (auto simp: wd_append_def wd_inv_def wd_log_def same_ports_def wd_budget_def split: prod.splits)

lemma append_spec_weaken:
  assumes "prefix l l1" "append_spec l1 st v evs r l'" shows "append_spec l st v evs r l'"
proof -
  have t: "prefix l p" if "prefix l1 p" for p using assms(1) that by (rule prefix_order.trans)
  show ?thesis
    using assms(2) t unfolding append_spec_def by (cases r) (simp_all split: if_splits, blast+)
qed

lemma append_spec_fault:
  assumes "append_spec l st v evs r l'" shows "append_spec l st v evs (Inl (ErrExt msg)) l'"
  using append_spec_prefix[OF assms] by (auto simp: append_spec_def ErrVersionConflict_def)

lemma wd_st_append_ok:
  assumes "wd_inv w" "faulty (wd_append st v evs) w = (w', r)"
  shows "wd_inv w' \<and> append_spec (wd_log w) st v evs r (wd_log w') \<and> same_ports w w' \<and>
    wd_budget w' \<le> wd_budget w"
  using assms(2)
proof (cases rule: faulty_cases)
  case (1 w1)
  note t = tick_ok[OF assms(1) 1(1)]
  with wd_append_ok[of w1 st v evs w' r] 1 show ?thesis
    by (auto simp: same_ports_def intro: append_spec_weaken)
next
  case (2 w1 msg k)
  note t = tick_ok[OF assms(1) 2(1)]
  obtain w2 r2 where w2: "wd_append st v evs w1 = (w2, r2)" by force
  note a = wd_append_ok[OF _ w2]
  have r: "append_spec (wd_log w) st v evs (Inl (ErrExt msg)) (wd_log w2)"
    by (rule append_spec_fault[OF append_spec_weaken]) (use t a in auto)
  have r0: "append_spec (wd_log w) st v evs (Inl (ErrExt msg)) (wd_log w1)"
    using t by (auto simp: append_spec_def ErrVersionConflict_def)
  show ?thesis using 2 t a w2 r r0 by (auto simp: same_ports_def)
qed

interpretation wd_store: event_store wd_store_ops wd_log wd_inv
proof unfold_locales
  fix w :: "('a, 'b) world" assume "wd_inv w"
  then show "wf_log (wd_log w)" by (simp add: wd_inv_def wd_log_def mem_inv_wf)
next
  fix w w' :: "('a, 'b) world" and st v evs r
  assume "wd_inv w" "st_append wd_store_ops w st v evs = (w', r)"
  then show "wd_inv w' \<and> append_spec (wd_log w) st v evs r (wd_log w')"
    using wd_st_append_ok[of w st v evs w' r] by (simp add: wd_store_ops_def)
next
  fix w w' :: "('a, 'b) world" and st after r1
  assume a: "wd_inv w" "st_load wd_store_ops w st after = (w', r1)"
  then have f: "faulty (\<lambda>w. (w, Inr (mem_load (wd_store w) st after))) w = (w', r1)"
    by (simp add: wd_store_ops_def)
  note fr = faulty_read[OF a(1) f]
  then have "mem_load (wd_store w') st after = load_spec (wd_log w') st after"
    by (simp add: wd_log_def wd_inv_def mem_load_spec)
  with fr show "wd_inv w' \<and> prefix (wd_log w) (wd_log w') \<and>
      (\<forall>recs. r1 = Inr recs \<longrightarrow> recs = load_spec (wd_log w') st after)" by simp
next
  fix w w' :: "('a, 'b) world" and after limit r1
  assume a: "wd_inv w" "st_read_all wd_store_ops w after limit = (w', r1)"
  then have f: "faulty (\<lambda>w. (w, Inr (mem_read_all (wd_store w) after limit))) w = (w', r1)"
    by (simp add: wd_store_ops_def)
  from faulty_read[OF a(1) f] show "wd_inv w' \<and> prefix (wd_log w) (wd_log w') \<and>
      (\<forall>recs. r1 = Inr recs \<longrightarrow> recs = tail_batch rec_seq after limit (wd_log w'))"
    by (auto simp: wd_log_def mem_read_all_def read_loop_tail_batch)
next
  fix w w' :: "('a, 'b) world" and r
  assume a: "wd_inv w" "st_head wd_store_ops w = (w', r)"
  then have f: "faulty (\<lambda>w. (w, Inr (mem_head (wd_store w)))) w = (w', r)"
    by (simp add: wd_store_ops_def)
  from faulty_read[OF a(1) f] show "wd_inv w' \<and> prefix (wd_log w) (wd_log w') \<and>
      (\<forall>h. r = Inr h \<longrightarrow> h = last_pos rec_seq (wd_log w'))"
    by (auto simp: wd_log_def mem_head_last)
qed


section \<open>The other ports\<close>

lemma wd_read_ok:
  assumes "wd_inv w" "st_read_all wd_store_ops w after limit = (w', r)"
  shows "wd_inv w' \<and> prefix (wd_log w) (wd_log w') \<and> same_ports w w' \<and> wd_budget w' \<le> wd_budget w \<and>
    (0 < wd_budget w \<longrightarrow> wd_budget w' < wd_budget w) \<and>
    (\<forall>recs. r = Inr recs \<longrightarrow> recs = tail_batch rec_seq after limit (wd_log w'))"
  using faulty_read[OF assms(1), of "\<lambda>w. mem_read_all (wd_store w) after limit" w' r] assms(2)
  by (simp add: wd_store_ops_def wd_log_def mem_read_all_def read_loop_tail_batch)

lemma wd_get_ok:
  assumes "wd_inv w" "cp_get wd_cp_ops w name = (w', r)"
  shows "wd_inv w' \<and> prefix (wd_log w) (wd_log w') \<and> same_ports w w' \<and> wd_budget w' \<le> wd_budget w \<and>
    (\<forall>seq. r = Inr seq \<longrightarrow> seq = wd_cp w' name)"
  using faulty_read[OF assms(1), of "\<lambda>w. wd_cp w name" w' r] assms(2)
  by (simp add: wd_cp_ops_def mem_cp_get_def wd_cp_def)

lemma wd_set_ok:
  assumes "wd_inv w" "cp_set wd_cp_ops w name seq = (w', r)"
  shows "wd_inv w' \<and> prefix (wd_log w) (wd_log w') \<and> wd_budget w' \<le> wd_budget w \<and>
    wd_broker w' = wd_broker w \<and> wd_inbox w' = wd_inbox w \<and> wd_dedup w' = wd_dedup w \<and> wd_view w' = wd_view w \<and>
    (wd_cp w' = (wd_cp w)(name := seq) \<or> r \<noteq> None \<and> wd_cp w' = wd_cp w)"
proof -
  let ?op = "\<lambda>w. (w\<lparr>wd_cps := fst (mem_cp_set (wd_cps w) name seq)\<rparr>, None :: gerr option)"
  have f: "faulty_unit ?op w = (w', r)" using assms(2) by (simp add: wd_cp_ops_def)
  have u: "mget 0 (m(name \<mapsto> seq)) = (mget 0 m)(name := seq)" for m :: mem_checkpoints
    by (simp add: fun_eq_iff)
  from f show ?thesis
  proof (cases rule: faulty_unit_cases)
    case (1 w1)
    with tick_ok[OF assms(1) 1(1)] u show ?thesis
      by (auto simp: same_ports_def mem_cp_set_def wd_inv_def wd_log_def wd_budget_def wd_cp_def)
  next
    case (2 w1 msg k)
    with tick_ok[OF assms(1) 2(1)] u show ?thesis
      by (auto simp: same_ports_def mem_cp_set_def wd_inv_def wd_log_def wd_budget_def wd_cp_def)
  qed
qed

lemma wd_publish_ok:
  assumes "wd_inv w" "wd_publish w topic msgs = (w', r)"
  shows "wd_inv w' \<and> prefix (wd_log w) (wd_log w') \<and> wd_budget w' \<le> wd_budget w \<and>
    (r \<noteq> None \<longrightarrow> wd_budget w' < wd_budget w) \<and> wd_cps w' = wd_cps w \<and> wd_inbox w' = wd_inbox w \<and>
    wd_dedup w' = wd_dedup w \<and> wd_view w' = wd_view w \<and> mb_offsets (wd_broker w') = mb_offsets (wd_broker w) \<and>
    (\<exists>k. wd_topic w' = (wd_topic w)(topic := wd_topic w topic @ take k msgs) \<and>
       (r = None \<longrightarrow> length msgs \<le> k))"
proof -
  obtain w1 f where t: "tick w = (w1, f)" by force
  note tk = tick_ok[OF assms(1) t]
  have u: "wd_topic (w1\<lparr>wd_broker := mb_publish (wd_broker w1) topic ms\<rparr>) =
      (wd_topic w)(topic := wd_topic w topic @ ms)" for ms
    using tk by (simp add: wd_topic_def mem_publish_topics same_ports_def)
  show ?thesis
  proof (cases f)
    case None
    then have "w' = w1\<lparr>wd_broker := mb_publish (wd_broker w1) topic msgs\<rparr>" "r = None"
      using assms(2) t by (auto simp: wd_publish_def)
    with tk u[of msgs] show ?thesis
      by (auto simp: wd_inv_def wd_log_def wd_budget_def same_ports_def intro!: exI[of _ "length msgs"])
  next
    case (Some mk)
    obtain m k where mk: "mk = (m, k)" by force
    then have "w' = w1\<lparr>wd_broker := mb_publish (wd_broker w1) topic (take k msgs)\<rparr>" "r \<noteq> None"
      using assms(2) t Some by (auto simp: wd_publish_def)
    with tk u[of "take k msgs"] Some show ?thesis
      by (auto simp: wd_inv_def wd_log_def wd_budget_def same_ports_def intro!: exI[of _ k])
  qed
qed

lemma wd_ctx_err: "ctx_err wd_ctx w = (w', b) \<Longrightarrow> w' = w \<and> (b \<longleftrightarrow> wd_budget w = 0)"
  by (auto simp: wd_ctx_def wd_budget_def)

lemma wd_ctx_sleep:
  assumes "wd_inv w" "ctx_sleep wd_ctx w = (w', b)"
  shows "wd_inv w' \<and> prefix (wd_log w) (wd_log w') \<and> same_ports w w' \<and> wd_budget w' \<le> wd_budget w \<and>
    (b \<longrightarrow> wd_budget w' < wd_budget w)"
proof -
  obtain w1 f where t: "tick w = (w1, f)" by force
  with assms tick_ok[OF assms(1) t] have "w' = w1" "b \<longleftrightarrow> wd_budget w1 \<noteq> 0"
    by (auto simp: wd_ctx_def wd_budget_def Let_def)
  with tick_ok[OF assms(1) t] show ?thesis by auto
qed

interpretation wd_checkpoints: checkpoint_store wd_cp_ops wd_cp wd_inv
proof unfold_locales
  fix w w' :: "('a, 'b) world" and name r1
  assume "wd_inv w" "cp_get wd_cp_ops w name = (w', r1)"
  note k = wd_get_ok[OF this]
  then have "wd_cp w' = wd_cp w" by (simp add: same_ports_def wd_cp_def)
  with k show "wd_inv w' \<and> wd_cp w' = wd_cp w \<and> (\<forall>seq. r1 = Inr seq \<longrightarrow> seq = wd_cp w name)"
    by simp
next
  fix w w' :: "('a, 'b) world" and name seq r
  assume "wd_inv w" "cp_set wd_cp_ops w name seq = (w', r)"
  from wd_set_ok[OF this]
  show "wd_inv w' \<and> (wd_cp w' = (wd_cp w)(name := seq) \<or> r \<noteq> None \<and> wd_cp w' = wd_cp w)" by blast
qed

interpretation wd_publisher: publisher wd_publish wd_topic wd_inv
proof unfold_locales
  fix w w' :: "('a, 'b) world" and topic msgs r
  assume "wd_inv w" "wd_publish w topic msgs = (w', r)"
  from wd_publish_ok[OF this] show "wd_inv w' \<and>
      (\<exists>k. wd_topic w' = (wd_topic w)(topic := wd_topic w topic @ take k msgs) \<and> (r = None \<longrightarrow> length msgs \<le> k))"
    by blast
qed

lemma wd_ib_append_ok:
  assumes "wd_inv w" "ib_append wd_inbox_ops w msg = (w', r)"
  shows "wd_inv w' \<and> prefix (wd_log w) (wd_log w') \<and> wd_budget w' \<le> wd_budget w \<and>
    wd_cps w' = wd_cps w \<and> wd_broker w' = wd_broker w \<and> wd_dedup w' = wd_dedup w \<and> wd_view w' = wd_view w \<and>
    inbox_step_ok (wd_ilog w) msg r (wd_ilog w')"
proof -
  let ?op = "\<lambda>w. (w\<lparr>wd_inbox := mi_append (wd_inbox w) msg\<rparr>, None :: gerr option)"
  have f: "faulty_unit ?op w = (w', r)" using assms(2) by (simp add: wd_inbox_ops_def)
  have weak: "inbox_step_ok l msg None l' \<Longrightarrow> inbox_step_ok l msg (Some e) l'" for l l' e
    by (auto simp: inbox_step_ok_def split: if_splits)
  have idle: "inbox_step_ok l msg (Some e) l" for l e by (simp add: inbox_step_ok_def)
  from f show ?thesis
  proof (cases rule: faulty_unit_cases)
    case (1 w1)
    then have w': "w' = w1\<lparr>wd_inbox := mi_append (wd_inbox w1) msg\<rparr>" "r = None" by auto
    note tk = tick_ok[OF assms(1) 1(1)]
    have "wd_inv w1" using tk by blast
    then have m: "mi_inv (mi_append (wd_inbox w1) msg)"
        "inbox_step_ok (wd_ilog w) msg r (mi_msgs (mi_append (wd_inbox w1) msg))"
      using mi_append_ok[of "wd_inbox w1" msg] tk w'(2)
      by (simp_all add: wd_inv_def same_ports_def wd_ilog_def)
    from tk m show ?thesis unfolding w'(1)
      by (simp add: same_ports_def wd_inv_def wd_log_def wd_budget_def wd_ilog_def)
  next
    case (2 w1 msg' k)
    then have w': "w' = w1 \<or> w' = w1\<lparr>wd_inbox := mi_append (wd_inbox w1) msg\<rparr>" by auto
    note tk = tick_ok[OF assms(1) 2(1)]
    have "wd_inv w1" using tk by blast
    then have m: "mi_inv (mi_append (wd_inbox w1) msg)"
        "inbox_step_ok (wd_ilog w) msg r (mi_msgs (mi_append (wd_inbox w1) msg))"
      using mi_append_ok[of "wd_inbox w1" msg] tk 2(2) weak
      by (simp_all add: wd_inv_def same_ports_def wd_ilog_def)
    from w' show ?thesis
    proof
      assume "w' = w1"
      with tk idle 2(2) show ?thesis by (simp add: same_ports_def wd_ilog_def)
    next
      assume "w' = w1\<lparr>wd_inbox := mi_append (wd_inbox w1) msg\<rparr>"
      with tk m show ?thesis
        by (simp add: same_ports_def wd_inv_def wd_log_def wd_budget_def wd_ilog_def)
    qed
  qed
qed

lemma wd_ib_read_ok:
  assumes "wd_inv w" "ib_read_all wd_inbox_ops w after limit = (w', r)"
  shows "wd_inv w' \<and> prefix (wd_log w) (wd_log w') \<and> same_ports w w' \<and> wd_budget w' \<le> wd_budget w \<and>
    (0 < wd_budget w \<longrightarrow> wd_budget w' < wd_budget w) \<and>
    (\<forall>ms. r = Inr ms \<longrightarrow> ms = tail_batch im_seq after limit (wd_ilog w'))"
  using faulty_read[OF assms(1), of "\<lambda>w. mi_read_all (wd_inbox w) after limit" w' r] assms(2)
  by (simp add: wd_inbox_ops_def wd_ilog_def mi_read_all_def read_loop_tail_batch)

lemma wd_ilog_pos: "wd_inv w \<Longrightarrow> pos_log im_seq (wd_ilog w)"
  by (simp add: wd_inv_def mi_inv_def wd_ilog_def numbered_pos_log)

interpretation wd_inbox: inbox_port wd_inbox_ops wd_ilog wd_inv
proof unfold_locales
  fix w :: "('a, 'b) world" assume "wd_inv w"
  then show "pos_log im_seq (wd_ilog w)" by (rule wd_ilog_pos)
next
  fix w w' :: "('a, 'b) world" and msg r1
  assume "wd_inv w" "ib_append wd_inbox_ops w msg = (w', r1)"
  from wd_ib_append_ok[OF this] show "wd_inv w' \<and>
      (\<exists>pre. prefix (wd_ilog w) pre \<and> inbox_step_ok pre msg r1 (wd_ilog w'))" by blast
next
  fix w w' :: "('a, 'b) world" and after limit r2
  assume "wd_inv w" "ib_read_all wd_inbox_ops w after limit = (w', r2)"
  note rd = wd_ib_read_ok[OF this]
  then have "wd_ilog w' = wd_ilog w" by (simp add: same_ports_def wd_ilog_def)
  with rd show "wd_inv w' \<and> prefix (wd_ilog w) (wd_ilog w') \<and>
      (\<forall>ms. r2 = Inr ms \<longrightarrow> ms = tail_batch im_seq after limit (wd_ilog w'))" by simp
next
  fix w w' :: "('a, 'b) world" and r3
  assume a: "wd_inv w" "ib_head wd_inbox_ops w = (w', r3)"
  have "faulty (\<lambda>w. (w, Inr (mi_head (wd_inbox w)))) w = (w', r3)" using a(2) by (simp add: wd_inbox_ops_def)
  note rd = faulty_read[OF a(1) this]
  then have "wd_ilog w' = wd_ilog w" by (simp add: same_ports_def wd_ilog_def)
  moreover have "mi_head (wd_inbox w') = last_pos im_seq (wd_ilog w')"
    by (simp add: wd_ilog_def mi_head_def last_pos_def)
  ultimately show "wd_inv w' \<and> prefix (wd_ilog w) (wd_ilog w') \<and> (\<forall>h. r3 = Inr h \<longrightarrow> h = last_pos im_seq (wd_ilog w'))"
    using rd by simp
qed

definition wd_marked :: "('p, 'v) world \<Rightarrow> string set" where
  "wd_marked w = {mid. mget False (wd_dedup w) mid}"

interpretation wd_dedup: deduplicator wd_dedup_ops wd_marked wd_inv
proof unfold_locales
  fix w w' :: "('a, 'b) world" and mid r1
  assume a: "wd_inv w" "dd_processed wd_dedup_ops w mid = (w', r1)"
  have "faulty (\<lambda>w. (w, Inr (mem_processed (wd_dedup w) mid))) w = (w', r1)"
    using a(2) by (simp add: wd_dedup_ops_def)
  note fr = faulty_read[OF a(1) this]
  then have "wd_dedup w' = wd_dedup w" by (simp add: same_ports_def)
  then have "wd_marked w' = wd_marked w" "mem_processed (wd_dedup w') mid \<longleftrightarrow> mid \<in> wd_marked w"
    by (simp_all add: wd_marked_def mem_processed_def)
  with fr show "wd_inv w' \<and> wd_marked w' = wd_marked w \<and> (\<forall>b. r1 = Inr b \<longrightarrow> (b \<longleftrightarrow> mid \<in> wd_marked w))"
    by blast
next
  fix w w' :: "('a, 'b) world" and mid r2
  assume a: "wd_inv w" "dd_mark wd_dedup_ops w mid = (w', r2)"
  let ?op = "\<lambda>w. (w\<lparr>wd_dedup := mem_mark (wd_dedup w) mid\<rparr>, None :: gerr option)"
  have "faulty_unit ?op w = (w', r2)" using a(2) by (simp add: wd_dedup_ops_def)
  moreover have i: "wd_inv w1 \<and> wd_marked w1 = wd_marked w \<and> wd_inv (fst (?op w1)) \<and>
      wd_marked (fst (?op w1)) = insert mid (wd_marked w)" if "tick w = (w1, f)" for w1 f
    using tick_ok[OF a(1) that] by (simp add: same_ports_def wd_inv_def wd_marked_def mem_mark_def) auto
  ultimately show "wd_inv w' \<and> (wd_marked w' = insert mid (wd_marked w) \<or> r2 \<noteq> None \<and> wd_marked w' = wd_marked w)"
  proof (cases rule: faulty_unit_cases)
    case (1 w1)
    with i[OF 1(1)] show ?thesis by (metis fst_conv)
  next
    case (2 w1 msg k)
    with i[OF 2(1)] show ?thesis by (metis option.distinct(1))
  qed
qed

section \<open>Subscriptions in the world\<close>

lemma wd_quiet_kept:
  assumes "same_ports w w'" "\<And>m. settled w m \<Longrightarrow> settled w' m"
  shows "group_kept wd_broker_at t g settled w w'"
  using assms by (simp add: group_kept_def wd_broker_at_def same_ports_def)

interpretation wd_writer: subscriber wd_ctx wd_broker_at "inbox_writer_handler wd_inbox_ops" topic grp
  "\<lambda>w m. m_id m \<in> inbox_ids (wd_ilog w)" wd_inv for topic grp
proof (unfold_locales, goal_cases)
  case (4 w w' b)
  then show ?case using wd_ctx_err[of w w' b] by (simp add: group_kept_def)
next
  case (5 w w' b)
  then show ?case using wd_ctx_sleep[OF 5]
    by (auto simp: same_ports_def wd_ilog_def intro!: wd_quiet_kept)
next
  case (6 w m w' r)
  note a = wd_ib_append_ok[OF 6(1), of m w' r] 6(2)
  have "inbox_ids (wd_ilog w) \<subseteq> inbox_ids (wd_ilog w') \<and> (r = None \<longrightarrow> m_id m \<in> inbox_ids (wd_ilog w'))"
    using a by (auto simp: inbox_writer_handler_def inbox_step_ok_def inbox_ids_def split: if_splits)
  with a show ?case by (auto simp: group_kept_def wd_broker_at_def inbox_writer_handler_def)
qed (simp_all add: wd_broker_at_def wd_inv_def wd_ilog_def)

text \<open>What a command consumer may ask of handlers, middleware and \<open>OnRejected\<close>.\<close>

definition courteous :: "('p, 'v) world \<Rightarrow> ('p, 'v) world \<Rightarrow> bool" where
  "courteous w w' \<longleftrightarrow> (wd_inv w \<longrightarrow> wd_inv w' \<and> wd_marked w \<subseteq> wd_marked w' \<and>
     mb_offsets (wd_broker w') = mb_offsets (wd_broker w) \<and> (\<forall>t. prefix (wd_topic w t) (wd_topic w' t)))"

lemma courteous_refl: "courteous w w"
  by (simp add: courteous_def)

lemma courteous_trans: "courteous u v \<Longrightarrow> courteous v w \<Longrightarrow> courteous u w"
  unfolding courteous_def by (metis subset_trans prefix_order.trans)

lemma quiet_courteous: "wd_inv w' \<Longrightarrow> same_ports w w' \<Longrightarrow> courteous w w'"
  by (simp add: courteous_def same_ports_def wd_marked_def wd_topic_def)

lemma ctx_sleep_courteous: "courteous w (fst (ctx_sleep wd_ctx w))"
  using wd_ctx_sleep[of w] quiet_courteous[of "fst (ctx_sleep wd_ctx w)" w]
  by (cases "ctx_sleep wd_ctx w") (auto simp: courteous_def)

lemma wd_mark_ok:
  assumes "wd_inv w" "dd_mark wd_dedup_ops w mid = (w', r)"
  shows "courteous w w' \<and> (r = None \<longrightarrow> mid \<in> wd_marked w')"
proof -
  note m = wd_dedup.mark_law[OF assms]
  let ?op = "\<lambda>w. (w\<lparr>wd_dedup := mem_mark (wd_dedup w) mid\<rparr>, None :: gerr option)"
  have "faulty_unit ?op w = (w', r)" using assms(2) by (simp add: wd_dedup_ops_def)
  then have "wd_broker w' = wd_broker w"
    using tick_ok[OF assms(1)] by (cases rule: faulty_unit_cases) (auto simp: same_ports_def)
  with m show ?thesis by (auto simp: courteous_def wd_topic_def)
qed

text \<open>The pieces a consumer is built from, given that its callbacks are courteous.\<close>

definition consumer_ok :: "(('p, 'v) world, 'p, 'c) consumer \<Rightarrow> bool" where
  "consumer_ok c \<longleftrightarrow> cn_dedup c = wd_dedup_ops \<and>
     (\<forall>n h w cmd. bus_handlers (cn_bus c) n = Some h \<longrightarrow> courteous w (fst (h w cmd))) \<and>
     (\<forall>mw\<in>set (bus_middleware (cn_bus c)). \<forall>h. (\<forall>w cmd. courteous w (fst (h w cmd))) \<longrightarrow>
        (\<forall>w cmd. courteous w (fst (mw h w cmd)))) \<and>
     (\<forall>w msg err. courteous w (consumer_reject c w msg err))"

lemma consumer_courteous:
  assumes "wd_inv w" "consumer_ok c" "consumer_handler wd_ctx nm c w msg = (w', r)"
  shows "courteous w w' \<and> wd_inv w' \<and> (r = None \<longrightarrow> m_id msg \<in> wd_marked w')"
proof -
  note C = courteous_def
  have dd: "cn_dedup c = wd_dedup_ops" using assms(2) by (simp add: consumer_ok_def)
  have rj: "courteous v (consumer_reject c v msg err)" for v err
    using assms(2) by (simp add: consumer_ok_def)
  have dp: "courteous v (fst (dispatch wd_ctx nm (cn_bus c) v cmd))" for v cmd
    by (rule dispatch_rel) (use assms(2) courteous_refl courteous_trans ctx_sleep_courteous in
      \<open>unfold consumer_ok_def, blast+\<close>)
  obtain w1 r1 where p: "dd_processed wd_dedup_ops w (m_id msg) = (w1, r1)" by force
  note pl = wd_dedup.processed_law[OF assms(1) p]
  have c1: "courteous w w1"
  proof -
    have "faulty (\<lambda>w. (w, Inr (mem_processed (wd_dedup w) (m_id msg)))) w = (w1, r1)"
      using p by (simp add: wd_dedup_ops_def)
    from faulty_read[OF assms(1) this] show ?thesis by (auto intro: quiet_courteous)
  qed
  have mark: "courteous w w'' \<and> wd_inv w'' \<and> (r'' = None \<longrightarrow> m_id msg \<in> wd_marked w'')"
    if "courteous w v" "dd_mark wd_dedup_ops v (m_id msg) = (w'', r'')" for v w'' r''
  proof -
    have v: "wd_inv v" using that(1) assms(1) by (simp add: C)
    note m = wd_mark_ok[OF v that(2)]
    have "courteous w w''" using courteous_trans[OF that(1)] m by blast
    with m v show ?thesis by (simp add: C)
  qed
  consider (err) e where "r1 = Inl e" | (seen) "r1 = Inr True" | (new) "r1 = Inr False"
    by (cases r1) auto
  then show ?thesis
  proof cases
    case err
    with assms(3) p dd c1 pl show ?thesis by (auto simp: consumer_handler_def)
  next
    case seen
    with assms(3) p dd c1 pl show ?thesis by (auto simp: consumer_handler_def)
  next
    case new
    show ?thesis
    proof (cases "decode_command (cn_registry c) msg")
      case (Inl err)
      with assms(3) p dd new have "dd_mark wd_dedup_ops (consumer_reject c w1 msg err) (m_id msg) = (w', r)"
        by (simp add: consumer_handler_def)
      from mark[OF courteous_trans[OF c1 rj] this] show ?thesis .
    next
      case (Inr cmd)
      obtain w2 r2 where d: "dispatch wd_ctx nm (cn_bus c) w1 cmd = (w2, r2)" by force
      have c2: "courteous w w2" using courteous_trans[OF c1 dp[of w1 cmd]] d by simp
      show ?thesis
      proof (cases r2)
        case None
        with assms(3) p dd new Inr d have "dd_mark wd_dedup_ops w2 (m_id msg) = (w', r)"
          by (simp add: consumer_handler_def)
        from mark[OF c2 this] show ?thesis .
      next
        case (Some err)
        show ?thesis
        proof (cases "is_domain err")
          case True
          with assms(3) p dd new Inr d Some have
            "dd_mark wd_dedup_ops (consumer_reject c w2 msg err) (m_id msg) = (w', r)"
            by (simp add: consumer_handler_def)
          from mark[OF courteous_trans[OF c2 rj] this] show ?thesis .
        next
          case False
          with assms(1,3) p dd new Inr d Some c2 show ?thesis by (auto simp: consumer_handler_def C)
        qed
      qed
    qed
  qed
qed

lemma consumer_subscriber:
  assumes "consumer_ok c"
  shows "subscriber wd_ctx wd_broker_at (consumer_handler wd_ctx nm c) topic grp
    (\<lambda>w m. m_id m \<in> wd_marked w) wd_inv"
proof (unfold_locales, goal_cases)
  case (4 w w' b)
  then show ?case using wd_ctx_err[of w w' b] by (simp add: group_kept_def)
next
  case (5 w w' b)
  then show ?case using wd_ctx_sleep[OF 5]
    by (auto simp: same_ports_def wd_marked_def intro!: wd_quiet_kept)
next
  case (6 w m w' r)
  from consumer_courteous[OF 6(1) assms 6(2)] 6(1) show ?case
    by (auto simp: courteous_def group_kept_def wd_broker_at_def wd_topic_def)
qed (simp_all add: wd_broker_at_def wd_inv_def wd_marked_def)

section \<open>The relay in the world\<close>

definition wd_relay ::
  "('p, 'e) registry \<Rightarrow> relay_config \<Rightarrow> (string \<rightharpoonup> ('e \<Rightarrow> 'p integration_event option))
   \<Rightarrow> (string \<rightharpoonup> ('p recorded \<Rightarrow> 'e \<Rightarrow> (string \<times> 'p message) option res)) \<Rightarrow> (('p, 'v) world, 'p, 'e) relay" where
  "wd_relay registry cfg translators routes =
     \<lparr>rl_store = wd_store_ops, rl_registry = registry, rl_publish = wd_publish, rl_cps = wd_cp_ops,
      rl_cfg = relay_defaults cfg, rl_translators = translators, rl_routes = routes\<rparr>"

lemma wd_relay_ports [simp]:
  "rl_store (wd_relay g c t q) = wd_store_ops" "rl_cps (wd_relay g c t q) = wd_cp_ops"
  "rl_publish (wd_relay g c t q) = wd_publish"
  by (simp_all add: wd_relay_def)

interpretation wd_relay: relay_env "wd_relay registry cfg translators routes" wd_log wd_inv wd_cp wd_topic
  wd_ctx wd_budget for registry cfg translators routes
proof -
  note st = wd_store.event_store_axioms
  note cs = wd_checkpoints.checkpoint_store_axioms
  note pb = wd_publisher.publisher_axioms
  show "relay_env (wd_relay registry cfg translators routes) wd_log wd_inv wd_cp wd_topic wd_ctx wd_budget"
  proof (intro relay_env.intro relay_env_axioms.intro, goal_cases)
    case 1 show ?case using st by simp
  next
    case 2 show ?case using cs by simp
  next
    case 3 show ?case using pb by simp
  next
    case (4 w after limit w' r1)
    with wd_read_ok[of w after limit w' r1] show ?case by (auto simp: same_ports_def wd_cp_def wd_topic_def)
  next
    case (5 w name w' r2)
    with wd_get_ok[of w name w' r2] show ?case by (auto simp: same_ports_def wd_topic_def)
  next
    case (6 w name seq w' r3)
    with wd_set_ok[of w name seq w' r3] show ?case by (auto simp: wd_topic_def)
  next
    case (7 w topic msgs w' r4)
    with wd_publish_ok[of w topic msgs w' r4] show ?case by (auto simp: wd_cp_def)
  next
    case (8 w w' b)
    with wd_ctx_err[of w w' b] show ?case by auto
  next
    case (9 w w' b)
    with wd_ctx_sleep[of w w' b] show ?case by (auto simp: same_ports_def wd_cp_def wd_topic_def)
  qed
qed

end
