(* ===== verification/System.thy ===== *)
theory System
  imports World
begin

text \<open>
  A service in the world: its relay, its inbox writer on the relay's topic, and a projection
  fed by both runners. The steps of the system are whole runs of these processes, each under a
  schedule of its own that may cut it off after any call, so a reachable world is what is left
  after any sequence of runs, crashes, restarts and rebuilds.
\<close>

section \<open>The service\<close>

text \<open>The projection's handlers are given by what they do to the read model.\<close>

record ('p, 'e, 'v) service =
  sv_registry :: "('p, 'e) registry"
  sv_relay_cfg :: relay_config
  sv_translators :: "string \<rightharpoonup> ('e \<Rightarrow> 'p integration_event option)"
  sv_routes :: "string \<rightharpoonup> ('p recorded \<Rightarrow> 'e \<Rightarrow> (string \<times> 'p message) option res)"
  sv_name :: string
  sv_domain :: "string \<rightharpoonup> ('v \<Rightarrow> 'e \<Rightarrow> meta \<Rightarrow> 'v \<times> gerr option)"
  sv_foreign :: "string \<rightharpoonup> ('v \<Rightarrow> 'p message \<Rightarrow> 'v \<times> gerr option)"
  sv_batch :: int
  sv_group :: string
  sv_init :: 'v

definition on_view ::
  "('v \<Rightarrow> 'v \<times> gerr option) \<Rightarrow> ('p, 'v) world \<Rightarrow> ('p, 'v) world \<times> gerr option" where
  "on_view f = faulty_unit (\<lambda>w. case f (wd_view w) of (v, e) \<Rightarrow> (w\<lparr>wd_view := v\<rparr>, e))"

definition sv_relay :: "('p, 'e, 'v) service \<Rightarrow> (('p, 'v) world, 'p, 'e) relay" where
  "sv_relay sv = wd_relay (sv_registry sv) (sv_relay_cfg sv) (sv_translators sv) (sv_routes sv)"

definition sv_projection :: "('p, 'e, 'v) service \<Rightarrow> (('p, 'v) world, 'p, 'e) projection" where
  "sv_projection sv =
     \<lparr>pj_name = sv_name sv,
      pj_domain = (\<lambda>n. map_option (\<lambda>h w e m. on_view (\<lambda>v. h v e m) w) (sv_domain sv n)),
      pj_foreign = (\<lambda>k. map_option (\<lambda>h w msg. on_view (\<lambda>v. h v msg) w) (sv_foreign sv k))\<rparr>"

definition sv_config :: "('p, 'e, 'v) service \<Rightarrow> ('p, 'v) world pj_config" where
  "sv_config sv = \<lparr>pc_poll = 0, pc_batch = sv_batch sv, pc_observe = None\<rparr>"

definition sv_catch_up :: "('p, 'e, 'v) service \<Rightarrow> (('p, 'v) world, 'p, 'e) catch_up" where
  "sv_catch_up sv = new_catch_up (sv_projection sv) wd_store_ops (sv_registry sv) wd_cp_ops (sv_config sv)"

definition sv_reader :: "('p, 'e, 'v) service \<Rightarrow> (('p, 'v) world, 'p, 'e) inbox_reader" where
  "sv_reader sv = new_inbox_reader (sv_projection sv) wd_inbox_ops wd_cp_ops (sv_config sv)"

definition sv_topic :: "('p, 'e, 'v) service \<Rightarrow> string" where
  "sv_topic sv = rc_topic (sv_relay_cfg sv)"

definition sv_writer_run ::
  "('p, 'e, 'v) service \<Rightarrow> nat \<Rightarrow> ('p, 'v) world \<Rightarrow> (('p, 'v) world \<times> gerr option) option" where
  "sv_writer_run sv n w =
     mb_subscribe n wd_ctx wd_broker_at (sv_topic sv) (sv_group sv) (inbox_writer_handler wd_inbox_ops) w"

definition store_cp :: "('p, 'e, 'v) service \<Rightarrow> string" where
  "store_cp sv = store_checkpoint (sv_projection sv)"

definition inbox_cp :: "('p, 'e, 'v) service \<Rightarrow> string" where
  "inbox_cp sv = inbox_checkpoint (sv_projection sv)"

definition relay_cp :: "('p, 'e, 'v) service \<Rightarrow> string" where
  "relay_cp sv = rc_name (sv_relay_cfg sv)"

text \<open>The relay's checkpoint is not one of the projection's.\<close>

definition names_ok :: "('p, 'e, 'v) service \<Rightarrow> bool" where
  "names_ok sv \<longleftrightarrow> relay_cp sv \<noteq> store_cp sv \<and> relay_cp sv \<noteq> inbox_cp sv"

lemma cps_distinct [simp]: "store_cp sv \<noteq> inbox_cp sv" "inbox_cp sv \<noteq> store_cp sv"
  using checkpoint_names(3)[of "sv_projection sv" "sv_projection sv"]
  unfolding store_cp_def inbox_cp_def by (metis, metis)

section \<open>What the projection's handlers do to the read model\<close>

definition wants_event :: "('p, 'e, 'v) service \<Rightarrow> 'p recorded \<Rightarrow> bool" where
  "wants_event sv rec \<longleftrightarrow> sv_domain sv (rec_name rec) \<noteq> None"

definition wants_msg :: "('p, 'e, 'v) service \<Rightarrow> 'p inbox_message \<Rightarrow> bool" where
  "wants_msg sv im \<longleftrightarrow> sv_foreign sv (integration_key (m_type (im_msg im)) (m_version (im_msg im))) \<noteq> None"

definition eff :: "('p, 'e, 'v) service \<Rightarrow> 'p recorded + 'p inbox_message \<Rightarrow> 'v \<Rightarrow> 'v" where
  "eff sv z v = (case z of
     Inl rec \<Rightarrow> (case sv_domain sv (rec_name rec) of
        None \<Rightarrow> v
      | Some h \<Rightarrow> (case decode (sv_registry sv) rec of Inl err \<Rightarrow> v | Inr e \<Rightarrow> fst (h v e (meta_of rec))))
   | Inr im \<Rightarrow> (case sv_foreign sv (integration_key (m_type (im_msg im)) (m_version (im_msg im))) of
        None \<Rightarrow> v
      | Some h \<Rightarrow> fst (h v (im_msg im))))"

lemma on_view_ok:
  assumes "wd_inv w" "on_view f w = (w', e)"
  shows "wd_inv w' \<and> prefix (wd_log w) (wd_log w') \<and> wd_budget w' \<le> wd_budget w \<and>
    wd_cps w' = wd_cps w \<and> wd_broker w' = wd_broker w \<and> wd_inbox w' = wd_inbox w \<and> wd_dedup w' = wd_dedup w \<and>
    (wd_view w' = fst (f (wd_view w)) \<or> e \<noteq> None \<and> wd_view w' = wd_view w)"
proof -
  let ?op = "\<lambda>w. case f (wd_view w) of (v, e) \<Rightarrow> (w\<lparr>wd_view := v\<rparr>, e)"
  from assms(2) have fu: "faulty_unit ?op w = (w', e)" by (simp add: on_view_def)
  then show ?thesis
  proof (cases rule: faulty_unit_cases)
    case (1 w1)
    with tick_ok[OF assms(1) 1(1)] show ?thesis
      by (cases "f (wd_view w1)") (auto simp: same_ports_def wd_inv_def wd_log_def wd_budget_def)
  next
    case (2 w1 msg k)
    with tick_ok[OF assms(1) 2(1)] show ?thesis
      by (cases "f (wd_view w1)") (auto simp: same_ports_def wd_inv_def wd_log_def wd_budget_def)
  qed
qed

section \<open>The two feeders\<close>

definition event_count :: "('p, 'e, 'v) service \<Rightarrow> int \<Rightarrow> 'p recorded list \<Rightarrow> nat" where
  "event_count sv s l = length (filter (wants_event sv) (upto_pos rec_seq s l))"

definition msg_count :: "('p, 'e, 'v) service \<Rightarrow> int \<Rightarrow> 'p inbox_message list \<Rightarrow> nat" where
  "msg_count sv s l = length (filter (wants_msg sv) (upto_pos im_seq s l))"

abbreviation "fed_events sv \<equiv> fed (wants_event sv) Inl isl"
abbreviation "fed_msgs sv \<equiv> fed (wants_msg sv) Inr (\<lambda>z. \<not> isl z)"

text \<open>What a run of one feeder leaves as it was in the world \<open>w0\<close> it started from.\<close>

definition feed_frame :: "string \<Rightarrow> ('p, 'v) world \<Rightarrow> ('p, 'v) world \<Rightarrow> bool" where
  "feed_frame name w0 w \<longleftrightarrow> wd_broker w = wd_broker w0 \<and> wd_inbox w = wd_inbox w0 \<and>
     wd_dedup w = wd_dedup w0 \<and> (\<forall>n. n \<noteq> name \<longrightarrow> wd_cp w n = wd_cp w0 n) \<and> prefix (wd_log w0) (wd_log w)"

lemma feed_frame_step:
  assumes "feed_frame name w0 w" "wd_broker w' = wd_broker w" "wd_inbox w' = wd_inbox w"
    "wd_dedup w' = wd_dedup w" "prefix (wd_log w) (wd_log w')"
    "\<And>n. n \<noteq> name \<Longrightarrow> wd_cp w' n = wd_cp w n"
  shows "feed_frame name w0 w'"
  using assms prefix_order.trans[of "wd_log w0" "wd_log w" "wd_log w'"] by (simp add: feed_frame_def)

lemma feed_frame_refl [simp]: "feed_frame name w w"
  by (simp add: feed_frame_def)

definition cu_R ::
  "('p, 'e, 'v) service \<Rightarrow> ('p, 'v) world \<Rightarrow> ('p, 'v) world \<Rightarrow> ('p recorded + 'p inbox_message) list \<Rightarrow> bool" where
  "cu_R sv w0 w zs \<longleftrightarrow> wd_inv w \<and> feed_frame (store_cp sv) w0 w \<and>
     wd_view w = fold (eff sv) zs (sv_init sv) \<and>
     fed_msgs sv (wd_ilog w0) zs (msg_count sv (wd_cp w0 (inbox_cp sv)) (wd_ilog w0))"

definition ir_R ::
  "('p, 'e, 'v) service \<Rightarrow> ('p, 'v) world \<Rightarrow> ('p, 'v) world \<Rightarrow> ('p recorded + 'p inbox_message) list \<Rightarrow> bool" where
  "ir_R sv w0 w zs \<longleftrightarrow> wd_inv w \<and> feed_frame (inbox_cp sv) w0 w \<and>
     wd_view w = fold (eff sv) zs (sv_init sv) \<and>
     fed_events sv (wd_log w0) zs (event_count sv (wd_cp w0 (store_cp sv)) (wd_log w0))"

lemma cu_R_quiet:
  assumes "cu_R sv w0 w zs" "wd_inv w'" "prefix (wd_log w) (wd_log w')" "same_ports w w'"
  shows "cu_R sv w0 w' zs"
proof -
  have "wd_cp w' = wd_cp w" using assms(4) by (simp add: same_ports_def wd_cp_def)
  then show ?thesis
    using assms feed_frame_step[of "store_cp sv" w0 w w'] by (simp add: cu_R_def same_ports_def)
qed

lemma ir_R_quiet:
  assumes "ir_R sv w0 w zs" "wd_inv w'" "prefix (wd_log w) (wd_log w')" "same_ports w w'"
  shows "ir_R sv w0 w' zs"
proof -
  have "wd_cp w' = wd_cp w" using assms(4) by (simp add: same_ports_def wd_cp_def)
  then show ?thesis
    using assms feed_frame_step[of "inbox_cp sv" w0 w w'] by (simp add: ir_R_def same_ports_def)
qed

text \<open>One item: it is applied, or the step fails with the view as it was.\<close>

lemma cu_step_ok:
  assumes "cu_R sv w0 w zs" "catch_up_step (sv_catch_up sv) w rec = (w', e)"
  shows "prefix (wd_log w) (wd_log w') \<and> wd_cp w' = wd_cp w \<and> wd_budget w' \<le> wd_budget w \<and>
    (if wants_event sv rec then cu_R sv w0 w' (zs @ [Inl rec]) \<or> e \<noteq> None \<and> cu_R sv w0 w' zs
     else cu_R sv w0 w' zs)"
proof (cases "sv_domain sv (rec_name rec)")
  case None
  then have "w' = w" "e = None"
    using assms(2) by (auto simp: catch_up_step_def sv_catch_up_def new_catch_up_def sv_projection_def Let_def)
  with assms(1) None show ?thesis by (simp add: wants_event_def)
next
  case (Some h)
  show ?thesis
  proof (cases "decode (sv_registry sv) rec")
    case (Inl err)
    then have "w' = w" "e \<noteq> None"
      using assms(2) Some
      by (auto simp: catch_up_step_def sv_catch_up_def new_catch_up_def sv_projection_def Let_def)
    with assms(1) Some show ?thesis by (simp add: wants_event_def)
  next
    case (Inr ev)
    obtain w1 e1 where o: "on_view (\<lambda>v. h v ev (meta_of rec)) w = (w1, e1)" by force
    then have w': "w' = w1" "e = None \<longleftrightarrow> e1 = None"
      using assms(2) Some Inr
      by (auto simp: catch_up_step_def sv_catch_up_def new_catch_up_def sv_projection_def Let_def
          observe_def pj_defaults_def sv_config_def split: option.splits)
    have i: "wd_inv w" using assms(1) by (simp add: cu_R_def)
    note v = on_view_ok[OF i o]
    have c: "wd_cp w1 = wd_cp w" using v by (simp add: wd_cp_def)
    have ff: "feed_frame (store_cp sv) w0 w1"
      by (rule feed_frame_step[of _ _ w]) (use assms(1) v c in \<open>auto simp: cu_R_def\<close>)
    have ef: "eff sv (Inl rec) x = fst (h x ev (meta_of rec))" for x using Some Inr by (simp add: eff_def)
    have "cu_R sv w0 w1 (zs @ [Inl rec])" if "wd_view w1 = fst (h (wd_view w) ev (meta_of rec))"
      using assms(1) v ff ef that by (simp add: cu_R_def fed_other)
    moreover have "cu_R sv w0 w1 zs" if "wd_view w1 = wd_view w"
      using assms(1) v ff that by (simp add: cu_R_def)
    ultimately show ?thesis using v c w' Some by (auto simp: wants_event_def)
  qed
qed

lemma ir_step_ok:
  assumes "ir_R sv w0 w zs" "inbox_step (sv_reader sv) w im = (w', e)"
  shows "prefix (wd_log w) (wd_log w') \<and> wd_ilog w' = wd_ilog w \<and> wd_cp w' = wd_cp w \<and> wd_budget w' \<le> wd_budget w \<and>
    (if wants_msg sv im then ir_R sv w0 w' (zs @ [Inr im]) \<or> e \<noteq> None \<and> ir_R sv w0 w' zs
     else ir_R sv w0 w' zs)"
proof (cases "sv_foreign sv (integration_key (m_type (im_msg im)) (m_version (im_msg im)))")
  case None
  then have "w' = w" "e = None"
    using assms(2) by (auto simp: inbox_step_def sv_reader_def new_inbox_reader_def sv_projection_def Let_def)
  with assms(1) None show ?thesis by (simp add: wants_msg_def)
next
  case (Some h)
  obtain w1 e1 where o: "on_view (\<lambda>v. h v (im_msg im)) w = (w1, e1)" by force
  then have w': "w' = w1" "e = None \<longleftrightarrow> e1 = None"
    using assms(2) Some
    by (auto simp: inbox_step_def sv_reader_def new_inbox_reader_def sv_projection_def Let_def
        observe_def pj_defaults_def sv_config_def split: option.splits)
  have i: "wd_inv w" using assms(1) by (simp add: ir_R_def)
  note v = on_view_ok[OF i o]
  have c: "wd_cp w1 = wd_cp w" "wd_ilog w1 = wd_ilog w" using v by (simp_all add: wd_cp_def wd_ilog_def)
  have ff: "feed_frame (inbox_cp sv) w0 w1"
    by (rule feed_frame_step[of _ _ w]) (use assms(1) v c in \<open>auto simp: ir_R_def\<close>)
  have ef: "eff sv (Inr im) x = fst (h x (im_msg im))" for x using Some by (simp add: eff_def)
  have "ir_R sv w0 w1 (zs @ [Inr im])" if "wd_view w1 = fst (h (wd_view w) (im_msg im))"
    using assms(1) v ff ef that by (simp add: ir_R_def fed_other)
  moreover have "ir_R sv w0 w1 zs" if "wd_view w1 = wd_view w"
    using assms(1) v ff that by (simp add: ir_R_def)
  ultimately show ?thesis using v c w' Some by (auto simp: wants_msg_def)
qed


definition sv_limit :: "('p, 'e, 'v) service \<Rightarrow> int" where
  "sv_limit sv = (if sv_batch sv \<le> 0 then 100 else sv_batch sv)"

lemma cu_ops_simps:
  "tl_ctx (catch_up_ops wd_ctx (sv_catch_up sv)) = wd_ctx"
  "tl_get (catch_up_ops wd_ctx (sv_catch_up sv)) w = cp_get wd_cp_ops w (store_cp sv)"
  "tl_read (catch_up_ops wd_ctx (sv_catch_up sv)) w seq = st_read_all wd_store_ops w seq (sv_limit sv)"
  "tl_pos (catch_up_ops wd_ctx (sv_catch_up sv)) = rec_seq"
  "tl_batch (catch_up_ops wd_ctx (sv_catch_up sv)) n w recs = Some (item_batch (catch_up_step (sv_catch_up sv)) w recs)"
  "tl_set (catch_up_ops wd_ctx (sv_catch_up sv)) w seq = cp_set wd_cp_ops w (store_cp sv) seq"
  by (simp_all add: catch_up_ops_def sv_catch_up_def new_catch_up_def Let_def store_cp_def pj_defaults_def
      sv_config_def sv_limit_def)

lemma ir_ops_simps:
  "tl_ctx (inbox_reader_ops wd_ctx (sv_reader sv)) = wd_ctx"
  "tl_get (inbox_reader_ops wd_ctx (sv_reader sv)) w = cp_get wd_cp_ops w (inbox_cp sv)"
  "tl_read (inbox_reader_ops wd_ctx (sv_reader sv)) w seq = ib_read_all wd_inbox_ops w seq (sv_limit sv)"
  "tl_pos (inbox_reader_ops wd_ctx (sv_reader sv)) = im_seq"
  "tl_batch (inbox_reader_ops wd_ctx (sv_reader sv)) n w ms = Some (item_batch (inbox_step (sv_reader sv)) w ms)"
  "tl_set (inbox_reader_ops wd_ctx (sv_reader sv)) w seq = cp_set wd_cp_ops w (inbox_cp sv) seq"
  by (simp_all add: inbox_reader_ops_def sv_reader_def new_inbox_reader_def Let_def inbox_cp_def pj_defaults_def
      sv_config_def sv_limit_def)

lemma same_ports_cp: "same_ports w w' \<Longrightarrow> wd_cp w' = wd_cp w"
  by (simp add: same_ports_def wd_cp_def)

lemma same_ports_ilog: "same_ports w w' \<Longrightarrow> wd_ilog w' = wd_ilog w"
  by (simp add: same_ports_def wd_ilog_def)

interpretation sv_cu: feeder "catch_up_ops wd_ctx (sv_catch_up sv)" "catch_up_step (sv_catch_up sv)"
  "wants_event sv" Inl isl "cu_R sv w0" wd_log "sv_limit sv" "\<lambda>w. wd_cp w (store_cp sv)" wd_budget
  for sv :: "('p, 'e, 'v) service" and w0
proof (unfold_locales, unfold cu_ops_simps, goal_cases)
  case (3 w zs) then show ?case using wf_log_pos[OF wd_store.log_wf] by (auto simp: cu_R_def)
next
  case (4 w zs w' b)
  with wd_ctx_err[of w w' b] show ?case by auto
next
  case (5 w zs w' b)
  have i: "wd_inv w" using 5(1) by (simp add: cu_R_def)
  note k = wd_ctx_sleep[OF i 5(2)]
  with cu_R_quiet[OF 5(1), of w'] same_ports_cp[of w w'] show ?case by auto
next
  case (6 w zs w' g)
  have i: "wd_inv w" using 6(1) by (simp add: cu_R_def)
  note k = wd_get_ok[OF i 6(2)]
  with cu_R_quiet[OF 6(1), of w'] same_ports_cp[of w w'] show ?case by auto
next
  case (7 w zs seq w' rd)
  have i: "wd_inv w" using 7(1) by (simp add: cu_R_def)
  note k = wd_read_ok[OF i 7(2)]
  with cu_R_quiet[OF 7(1), of w'] same_ports_cp[of w w'] show ?case by auto
next
  case (8 w zs x w' e)
  note k = cu_step_ok[OF 8]
  then show ?case by (cases "wants_event sv x") auto
next
  case (9 w zs seq w' e)
  have i: "wd_inv w" using 9(1) by (simp add: cu_R_def)
  note k = wd_set_ok[OF i 9(2)]
  have "feed_frame (store_cp sv) w0 w'"
    by (rule feed_frame_step[of _ _ w]) (use 9(1) k in \<open>auto simp: cu_R_def\<close>)
  with k 9(1) show ?case by (auto simp: cu_R_def)
qed simp_all

interpretation sv_ir: feeder "inbox_reader_ops wd_ctx (sv_reader sv)" "inbox_step (sv_reader sv)"
  "wants_msg sv" Inr "\<lambda>z. \<not> isl z" "ir_R sv w0" wd_ilog "sv_limit sv" "\<lambda>w. wd_cp w (inbox_cp sv)" wd_budget
  for sv :: "('p, 'e, 'v) service" and w0
proof (unfold_locales, unfold ir_ops_simps, goal_cases)
  case (3 w zs) then show ?case using wd_ilog_pos by (auto simp: ir_R_def)
next
  case (4 w zs w' b)
  with wd_ctx_err[of w w' b] show ?case by auto
next
  case (5 w zs w' b)
  have i: "wd_inv w" using 5(1) by (simp add: ir_R_def)
  note k = wd_ctx_sleep[OF i 5(2)]
  with ir_R_quiet[OF 5(1), of w'] same_ports_cp[of w w'] same_ports_ilog[of w w'] show ?case by auto
next
  case (6 w zs w' g)
  have i: "wd_inv w" using 6(1) by (simp add: ir_R_def)
  note k = wd_get_ok[OF i 6(2)]
  with ir_R_quiet[OF 6(1), of w'] same_ports_cp[of w w'] same_ports_ilog[of w w'] show ?case by auto
next
  case (7 w zs seq w' rd)
  have i: "wd_inv w" using 7(1) by (simp add: ir_R_def)
  note k = wd_ib_read_ok[OF i 7(2)]
  with ir_R_quiet[OF 7(1), of w'] same_ports_cp[of w w'] same_ports_ilog[of w w'] show ?case by auto
next
  case (8 w zs x w' e)
  note k = ir_step_ok[OF 8]
  then show ?case by (cases "wants_msg sv x") auto
next
  case (9 w zs seq w' e)
  have i: "wd_inv w" using 9(1) by (simp add: ir_R_def)
  note k = wd_set_ok[OF i 9(2)]
  have "feed_frame (inbox_cp sv) w0 w'"
    by (rule feed_frame_step[of _ _ w]) (use 9(1) k in \<open>auto simp: ir_R_def\<close>)
  with k 9(1) show ?case by (auto simp: ir_R_def wd_ilog_def)
qed simp_all

section \<open>The system invariant\<close>

definition relay_ok :: "('p, 'e, 'v) service \<Rightarrow> ('p, 'v) world \<Rightarrow> bool" where
  "relay_ok sv w \<longleftrightarrow> wd_inv w \<and> wd_cp w (relay_cp sv) \<le> last_pos rec_seq (wd_log w) \<and>
     (\<forall>t. \<exists>n. length (outbox (sv_relay sv) t (upto_pos rec_seq (wd_cp w (relay_cp sv)) (wd_log w))) \<le> n \<and>
        redelivered (outbox (sv_relay sv) t (wd_log w)) n (wd_topic w t))"

definition inbox_ok :: "('p, 'e, 'v) service \<Rightarrow> ('p, 'v) world \<Rightarrow> bool" where
  "inbox_ok sv w \<longleftrightarrow> (\<exists>n. mget 0 (mb_offsets (wd_broker w)) (sv_topic sv, sv_group sv) \<le> n \<and>
     n \<le> length (wd_topic w (sv_topic sv)) \<and>
     map im_msg (wd_ilog w) = firsts m_id (take n (wd_topic w (sv_topic sv))))"

definition view_ok :: "('p, 'e, 'v) service \<Rightarrow> ('p, 'v) world \<Rightarrow> bool" where
  "view_ok sv w \<longleftrightarrow> wd_cp w (store_cp sv) \<le> last_pos rec_seq (wd_log w) \<and>
     wd_cp w (inbox_cp sv) \<le> last_pos im_seq (wd_ilog w) \<and>
     (\<exists>zs. wd_view w = fold (eff sv) zs (sv_init sv) \<and>
        fed_events sv (wd_log w) zs (event_count sv (wd_cp w (store_cp sv)) (wd_log w)) \<and>
        fed_msgs sv (wd_ilog w) zs (msg_count sv (wd_cp w (inbox_cp sv)) (wd_ilog w)))"

definition sys_inv :: "('p, 'e, 'v) service \<Rightarrow> ('p, 'v) world \<Rightarrow> bool" where
  "sys_inv sv w \<longleftrightarrow> relay_ok sv w \<and> inbox_ok sv w \<and> view_ok sv w"

lemma sys_inv_wd: "sys_inv sv w \<Longrightarrow> wd_inv w"
  by (simp add: sys_inv_def relay_ok_def)

lemma relay_ok_good:
  fixes sv :: "('p, 'e, 'v) service"
  shows "relay_ok sv w \<longleftrightarrow> wd_relay.relay_good TYPE('e) (sv_registry sv) (sv_relay_cfg sv) (sv_translators sv) (sv_routes sv) w"
  unfolding relay_ok_def wd_relay.relay_good_def wd_relay.cp_at_def wd_relay.sent_count_def all_sent_def
    sent_upto_def sv_relay_def relay_cp_def
  by (simp add: wd_relay_def relay_defaults_def)

lemma event_count_grow:
  assumes "wd_inv w'" "prefix (wd_log w) (wd_log w')" "s \<le> last_pos rec_seq (wd_log w)"
  shows "event_count sv s (wd_log w') = event_count sv s (wd_log w)"
  using upto_pos_grow[OF wf_log_pos[OF wd_store.log_wf[OF assms(1)]] assms(2,3)] by (simp add: event_count_def)

lemma msg_count_grow:
  assumes "wd_inv w'" "prefix (wd_ilog w) (wd_ilog w')" "s \<le> last_pos im_seq (wd_ilog w)"
  shows "msg_count sv s (wd_ilog w') = msg_count sv s (wd_ilog w)"
  using upto_pos_grow[OF wd_ilog_pos[OF assms(1)] assms(2,3)] by (simp add: msg_count_def)

lemma wd_last_grow:
  "wd_inv w' \<Longrightarrow> prefix (wd_log w) (wd_log w') \<Longrightarrow> last_pos rec_seq (wd_log w) \<le> last_pos rec_seq (wd_log w')"
  by (rule last_pos_mono[OF wf_log_pos[OF wd_store.log_wf]])

lemma wd_ilast_grow:
  "wd_inv w' \<Longrightarrow> prefix (wd_ilog w) (wd_ilog w') \<Longrightarrow> last_pos im_seq (wd_ilog w) \<le> last_pos im_seq (wd_ilog w')"
  by (rule last_pos_mono[OF wd_ilog_pos])

text \<open>What the other processes do to a part of the invariant that is not theirs.\<close>

lemma relay_ok_frame:
  assumes "relay_ok sv w" "wd_inv w'" "prefix (wd_log w) (wd_log w')"
    and "wd_cp w' (relay_cp sv) = wd_cp w (relay_cp sv)" "wd_topic w' = wd_topic w"
  shows "relay_ok sv w'"
proof -
  let ?o = "outbox (sv_relay sv)" and ?s = "wd_cp w (relay_cp sv)"
  have le: "?s \<le> last_pos rec_seq (wd_log w)" using assms(1) by (simp add: relay_ok_def)
  have u: "upto_pos rec_seq ?s (wd_log w') = upto_pos rec_seq ?s (wd_log w)"
    by (rule upto_pos_grow[OF wf_log_pos[OF wd_store.log_wf[OF assms(2)]] assms(3) le])
  have "\<exists>n. length (?o t (upto_pos rec_seq ?s (wd_log w))) \<le> n \<and> redelivered (?o t (wd_log w')) n (wd_topic w t)" for t
    using assms(1) redelivered_prefix[OF _ outbox_prefix[OF assms(3)], of "sv_relay sv" t]
    unfolding relay_ok_def by meson
  then show ?thesis using assms(2,4,5) le wd_last_grow[OF assms(2,3)] u by (simp add: relay_ok_def)
qed

lemma inbox_ok_frame:
  assumes "inbox_ok sv w" "prefix (wd_topic w (sv_topic sv)) (wd_topic w' (sv_topic sv))"
    "mb_offsets (wd_broker w') = mb_offsets (wd_broker w)" "wd_ilog w' = wd_ilog w"
  shows "inbox_ok sv w'"
proof -
  from assms(1) obtain n where n: "mget 0 (mb_offsets (wd_broker w)) (sv_topic sv, sv_group sv) \<le> n"
     "n \<le> length (wd_topic w (sv_topic sv))"
     "map im_msg (wd_ilog w) = firsts m_id (take n (wd_topic w (sv_topic sv)))"
    by (auto simp: inbox_ok_def)
  moreover have "take n (wd_topic w' (sv_topic sv)) = take n (wd_topic w (sv_topic sv))"
    using assms(2) n(2) by (auto simp: prefix_def)
  moreover have "n \<le> length (wd_topic w' (sv_topic sv))"
    using n(2) prefix_length_le[OF assms(2)] by simp
  ultimately show ?thesis using assms(3,4) by (auto simp: inbox_ok_def)
qed

lemma view_ok_frame:
  assumes "view_ok sv w" "wd_inv w'" "prefix (wd_log w) (wd_log w')" "prefix (wd_ilog w) (wd_ilog w')"
    and "wd_view w' = wd_view w" "wd_cp w' (store_cp sv) = wd_cp w (store_cp sv)"
    and "wd_cp w' (inbox_cp sv) = wd_cp w (inbox_cp sv)"
  shows "view_ok sv w'"
proof -
  have le: "wd_cp w (store_cp sv) \<le> last_pos rec_seq (wd_log w)" "wd_cp w (inbox_cp sv) \<le> last_pos im_seq (wd_ilog w)"
    using assms(1) by (simp_all add: view_ok_def)
  from assms(1) obtain zs where z: "wd_view w = fold (eff sv) zs (sv_init sv)"
      "fed_events sv (wd_log w) zs (event_count sv (wd_cp w (store_cp sv)) (wd_log w))"
      "fed_msgs sv (wd_ilog w) zs (msg_count sv (wd_cp w (inbox_cp sv)) (wd_ilog w))"
    by (auto simp: view_ok_def)
  note f = fed_grow[OF z(2) assms(3)] fed_grow[OF z(3) assms(4)]
  show ?thesis
    unfolding view_ok_def assms(5-7) event_count_grow[OF assms(2,3) le(1)] msg_count_grow[OF assms(2,4) le(2)]
    using le wd_last_grow[OF assms(2,3)] wd_ilast_grow[OF assms(2,4)] z(1) f by auto
qed


text \<open>Nothing but the log moved, as when the environment takes its turn.\<close>

lemma sys_inv_quiet:
  assumes "sys_inv sv w" "wd_inv w'" "prefix (wd_log w) (wd_log w')" "same_ports w w'"
  shows "sys_inv sv w'"
proof -
  from assms(4) have c: "wd_cp w' = wd_cp w" "wd_topic w' = wd_topic w" "wd_ilog w' = wd_ilog w"
      "wd_view w' = wd_view w" "wd_broker w' = wd_broker w"
    by (simp_all add: same_ports_def wd_cp_def wd_topic_def wd_ilog_def)
  have "relay_ok sv w'" by (rule relay_ok_frame[of _ w]) (use assms c in \<open>auto simp: sys_inv_def\<close>)
  moreover have "inbox_ok sv w'" by (rule inbox_ok_frame[of _ w]) (use assms c in \<open>auto simp: sys_inv_def\<close>)
  moreover have "view_ok sv w'" by (rule view_ok_frame[of _ w]) (use assms c in \<open>auto simp: sys_inv_def\<close>)
  ultimately show ?thesis by (simp add: sys_inv_def)
qed

lemma sys_tick: "sys_inv sv w \<Longrightarrow> tick w = (w', f) \<Longrightarrow> sys_inv sv w'"
  using sys_inv_quiet[of sv w w'] tick_ok[OF sys_inv_wd] by blast

section \<open>The processes keep the invariant\<close>

definition relay_frame :: "string \<Rightarrow> ('p, 'v) world \<Rightarrow> ('p, 'v) world \<Rightarrow> bool" where
  "relay_frame name w0 w \<longleftrightarrow> wd_inv w \<and> prefix (wd_log w0) (wd_log w) \<and> wd_inbox w = wd_inbox w0 \<and>
     wd_dedup w = wd_dedup w0 \<and> wd_view w = wd_view w0 \<and>
     mb_offsets (wd_broker w) = mb_offsets (wd_broker w0) \<and>
     (\<forall>n. n \<noteq> name \<longrightarrow> wd_cp w n = wd_cp w0 n) \<and> (\<forall>t. prefix (wd_topic w0 t) (wd_topic w t))"

lemma relay_frame_quiet:
  assumes "relay_frame name w0 w" "wd_inv w'" "prefix (wd_log w) (wd_log w')" "same_ports w w'"
  shows "relay_frame name w0 w'"
proof -
  have "wd_cp w' = wd_cp w" "wd_topic w' = wd_topic w"
    using assms(4) by (simp_all add: same_ports_def wd_cp_def wd_topic_def)
  with assms prefix_order.trans[of "wd_log w0" "wd_log w" "wd_log w'"] show ?thesis
    by (simp add: relay_frame_def same_ports_def)
qed

lemma relay_run_frame:
  assumes "wd_inv w0" "relay_run n wd_ctx (sv_relay sv) w0 = Some (w', r)"
  shows "relay_frame (relay_cp sv) w0 w'"
proof (rule relay_run_stable[where P = "relay_frame (relay_cp sv) w0" and rl = "sv_relay sv" and ctx = wd_ctx
    and w = w0 and n = n and r = r])
  let ?P = "relay_frame (relay_cp sv) w0"
  have inv: "wd_inv w" if "?P w" for w using that by (simp add: relay_frame_def)
  have rl: "rl_publish (sv_relay sv) = wd_publish" "rl_store (sv_relay sv) = wd_store_ops"
      "rl_cps (sv_relay sv) = wd_cp_ops" "rc_name (rl_cfg (sv_relay sv)) = relay_cp sv"
    by (simp_all add: sv_relay_def relay_cp_def) (simp add: wd_relay_def relay_defaults_def)
  show "keeps ?P (\<lambda>w. rl_publish (sv_relay sv) w t ms)" for t ms
    unfolding rl
  proof
    fix w w' r assume P: "?P w" and p: "wd_publish w t ms = (w', r)"
    note k = wd_publish_ok[OF inv[OF P] p]
    have "prefix (wd_topic w0 x) (wd_topic w' x)" for x
      using k P by (auto simp: relay_frame_def intro: prefix_order.trans)
    then show "?P w'"
      using k P prefix_order.trans[of "wd_log w0" "wd_log w" "wd_log w'"] by (simp add: relay_frame_def wd_cp_def)
  qed
  show "keeps ?P (ctx_sleep wd_ctx)"
  proof
    fix w w' r assume P: "?P w" and p: "ctx_sleep wd_ctx w = (w', r)"
    from wd_ctx_sleep[OF inv[OF P] p] relay_frame_quiet[OF P] show "?P w'" by blast
  qed
  show "keeps ?P (ctx_err wd_ctx)"
    using wd_ctx_err by blast
  show "keeps ?P (\<lambda>w. st_read_all (rl_store (sv_relay sv)) w a l)" for a l
    unfolding rl
  proof
    fix w w' r assume P: "?P w" and p: "st_read_all wd_store_ops w a l = (w', r)"
    from wd_read_ok[OF inv[OF P] p] relay_frame_quiet[OF P] show "?P w'" by blast
  qed
  show "keeps ?P (\<lambda>w. cp_get (rl_cps (sv_relay sv)) w (rc_name (rl_cfg (sv_relay sv))))"
    unfolding rl
  proof
    fix w w' r assume P: "?P w" and p: "cp_get wd_cp_ops w (relay_cp sv) = (w', r)"
    from wd_get_ok[OF inv[OF P] p] relay_frame_quiet[OF P] show "?P w'" by blast
  qed
  show "keeps ?P (\<lambda>w. cp_set (rl_cps (sv_relay sv)) w (rc_name (rl_cfg (sv_relay sv))) s)" for s
    unfolding rl
  proof
    fix w w' r assume P: "?P w" and p: "cp_set wd_cp_ops w (relay_cp sv) s = (w', r)"
    note k = wd_set_ok[OF inv[OF P] p]
    have "wd_cp w' x = wd_cp w x" if "x \<noteq> relay_cp sv" for x using k that by auto
    with k P prefix_order.trans[of "wd_log w0" "wd_log w" "wd_log w'"] show "?P w'"
      by (simp add: relay_frame_def wd_topic_def)
  qed
  show "?P w0" using assms(1) by (simp add: relay_frame_def)
  show "relay_run n wd_ctx (sv_relay sv) w0 = Some (w', r)" by (rule assms(2))
qed

lemma sys_relay:
  assumes "sys_inv sv w" "names_ok sv" "relay_run n wd_ctx (sv_relay sv) w = Some (w', r)"
  shows "sys_inv sv w'"
proof -
  have f: "relay_frame (relay_cp sv) w w'" by (rule relay_run_frame[OF sys_inv_wd[OF assms(1)] assms(3)])
  have "relay_ok sv w'"
    using assms(1,3) wd_relay.run_delivers unfolding sys_inv_def relay_ok_good sv_relay_def by blast
  moreover have "inbox_ok sv w'"
    by (rule inbox_ok_frame[of _ w]) (use assms(1) f in \<open>auto simp: sys_inv_def relay_frame_def wd_ilog_def\<close>)
  moreover have "view_ok sv w'"
    by (rule view_ok_frame[of _ w])
      (use assms(1,2) f in \<open>auto simp: sys_inv_def relay_frame_def names_ok_def wd_ilog_def\<close>)
  ultimately show ?thesis by (simp add: sys_inv_def)
qed

lemma feed_frame_topics: "feed_frame name w0 w \<Longrightarrow> wd_topic w = wd_topic w0 \<and> wd_ilog w = wd_ilog w0"
  by (simp add: feed_frame_def wd_topic_def wd_ilog_def)

lemma sys_catch_up:
  fixes sv :: "('p, 'e, 'v) service"
  assumes "sys_inv sv w" "names_ok sv" "catch_up_run n wd_ctx (sv_catch_up sv) w = Some (w', r)"
  shows "sys_inv sv w'"
proof -
  from assms(1) obtain zs where z: "wd_view w = fold (eff sv) zs (sv_init sv)"
      "fed_events sv (wd_log w) zs (event_count sv (wd_cp w (store_cp sv)) (wd_log w))"
      "fed_msgs sv (wd_ilog w) zs (msg_count sv (wd_cp w (inbox_cp sv)) (wd_ilog w))"
      and le: "wd_cp w (store_cp sv) \<le> last_pos rec_seq (wd_log w)"
        "wd_cp w (inbox_cp sv) \<le> last_pos im_seq (wd_ilog w)"
    by (auto simp: sys_inv_def view_ok_def)
  have R: "cu_R sv w w zs" using z sys_inv_wd[OF assms(1)] by (simp add: cu_R_def)
  have "sv_cu.fed_good TYPE('e) sv w w"
    unfolding sv_cu.fed_good_def sv_cu.count_at_def cu_ops_simps
    using R z(2) le(1) by (auto simp: event_count_def)
  from sv_cu.tail.run_good[OF this] assms(3) have "sv_cu.fed_good TYPE('e) sv w w'"
    unfolding catch_up_run_def by blast
  then obtain zs' where g: "wd_cp w' (store_cp sv) \<le> last_pos rec_seq (wd_log w')" "cu_R sv w w' zs'"
      "fed_events sv (wd_log w') zs' (event_count sv (wd_cp w' (store_cp sv)) (wd_log w'))"
    unfolding sv_cu.fed_good_def sv_cu.count_at_def cu_ops_simps by (auto simp: event_count_def)
  have f: "feed_frame (store_cp sv) w w'" "wd_inv w'" using g(2) by (simp_all add: cu_R_def)
  note ft = feed_frame_topics[OF f(1)]
  have cps: "wd_cp w' (inbox_cp sv) = wd_cp w (inbox_cp sv)" "wd_cp w' (relay_cp sv) = wd_cp w (relay_cp sv)"
    using f(1) assms(2) by (simp_all add: feed_frame_def names_ok_def)
  have "relay_ok sv w'"
    by (rule relay_ok_frame[of _ w]) (use assms(1) f ft cps in \<open>auto simp: sys_inv_def feed_frame_def\<close>)
  moreover have "inbox_ok sv w'"
    by (rule inbox_ok_frame[of _ w]) (use assms(1) f ft in \<open>auto simp: sys_inv_def feed_frame_def\<close>)
  moreover have "view_ok sv w'"
    using g ft cps(1) le(2) by (auto simp: view_ok_def cu_R_def)
  ultimately show ?thesis by (simp add: sys_inv_def)
qed

lemma sys_reader:
  fixes sv :: "('p, 'e, 'v) service"
  assumes "sys_inv sv w" "names_ok sv" "inbox_reader_run n wd_ctx (sv_reader sv) w = Some (w', r)"
  shows "sys_inv sv w'"
proof -
  from assms(1) obtain zs where z: "wd_view w = fold (eff sv) zs (sv_init sv)"
      "fed_events sv (wd_log w) zs (event_count sv (wd_cp w (store_cp sv)) (wd_log w))"
      "fed_msgs sv (wd_ilog w) zs (msg_count sv (wd_cp w (inbox_cp sv)) (wd_ilog w))"
      and le: "wd_cp w (store_cp sv) \<le> last_pos rec_seq (wd_log w)"
        "wd_cp w (inbox_cp sv) \<le> last_pos im_seq (wd_ilog w)"
    by (auto simp: sys_inv_def view_ok_def)
  have R: "ir_R sv w w zs" using z sys_inv_wd[OF assms(1)] by (simp add: ir_R_def)
  have "sv_ir.fed_good TYPE('e) sv w w"
    unfolding sv_ir.fed_good_def sv_ir.count_at_def ir_ops_simps
    using R z(3) le(2) by (auto simp: msg_count_def)
  from sv_ir.tail.run_good[OF this] assms(3) have "sv_ir.fed_good TYPE('e) sv w w'"
    unfolding inbox_reader_run_def by blast
  then obtain zs' where g: "wd_cp w' (inbox_cp sv) \<le> last_pos im_seq (wd_ilog w')" "ir_R sv w w' zs'"
      "fed_msgs sv (wd_ilog w') zs' (msg_count sv (wd_cp w' (inbox_cp sv)) (wd_ilog w'))"
    unfolding sv_ir.fed_good_def sv_ir.count_at_def ir_ops_simps by (auto simp: msg_count_def)
  have f: "feed_frame (inbox_cp sv) w w'" "wd_inv w'" using g(2) by (simp_all add: ir_R_def)
  note ft = feed_frame_topics[OF f(1)]
  have p: "prefix (wd_log w) (wd_log w')" using f(1) by (simp add: feed_frame_def)
  have cps: "wd_cp w' (store_cp sv) = wd_cp w (store_cp sv)" "wd_cp w' (relay_cp sv) = wd_cp w (relay_cp sv)"
    using f(1) assms(2) by (simp_all add: feed_frame_def names_ok_def)
  have "relay_ok sv w'"
    by (rule relay_ok_frame[of _ w]) (use assms(1) f ft cps p in \<open>auto simp: sys_inv_def\<close>)
  moreover have "inbox_ok sv w'"
    by (rule inbox_ok_frame[of _ w]) (use assms(1) f ft in \<open>auto simp: sys_inv_def feed_frame_def\<close>)
  moreover have "fed_events sv (wd_log w') zs' (event_count sv (wd_cp w' (store_cp sv)) (wd_log w'))"
    unfolding cps(1) event_count_grow[OF f(2) p le(1)]
    by (rule fed_grow[OF _ p]) (use g(2) in \<open>simp add: ir_R_def\<close>)
  then have "view_ok sv w'"
    using g cps(1) le(1) wd_last_grow[OF f(2) p] by (auto simp: view_ok_def ir_R_def)
  ultimately show ?thesis by (simp add: sys_inv_def)
qed

text \<open>The writer: one delivery, then the loop.\<close>

lemma firsts_deliver:
  assumes "k \<le> n" "k < length l" "n \<le> length l"
  shows "firsts f (take n l @ [l ! k]) = firsts f (take (max n (k + 1)) l)"
proof (cases "k = n")
  case True
  with assms show ?thesis by (simp add: take_Suc_conv_app_nth)
next
  case False
  then have "k < n" using assms(1) by simp
  then have "take n l ! k \<in> set (take n l)" using assms(3) by (intro nth_mem) simp
  then have "l ! k \<in> set (take n l)" using \<open>k < n\<close> by simp
  moreover have "max n (k + 1) = n" using \<open>k < n\<close> by simp
  ultimately show ?thesis by (simp add: firsts_snoc)
qed

lemma writer_loop_inv:
  assumes "sys_inv sv w"
    and "mb_subscribe_loop n wd_ctx wd_broker_at (sv_topic sv) (sv_group sv) (inbox_writer_handler wd_inbox_ops) w = Some w'"
  shows "sys_inv sv w'"
  using assms
proof (induction n arbitrary: w)
  case (Suc n)
  let ?T = "sv_topic sv" and ?G = "sv_group sv"
  have i: "wd_inv w" by (rule sys_inv_wd[OF Suc.prems(1)])
  have sleep: "sys_inv sv v'" if "sys_inv sv v" "ctx_sleep wd_ctx v = (v', b)" for v v' b
    using sys_inv_quiet[OF that(1)] wd_ctx_sleep[OF sys_inv_wd[OF that(1)] that(2)] by blast
  show ?case
  proof (cases "ctx_err wd_ctx w")
    case (Pair w1 b)
    then have w1: "w1 = w" using wd_ctx_err by blast
    show ?thesis
    proof (cases b)
      case True
      with Suc.prems Pair w1 show ?thesis by simp
    next
      case nb: False
      show ?thesis
      proof (cases "mb_next (wd_broker w) ?T ?G")
        case (Pair k om)
        note nx = this
        show ?thesis
        proof (cases om)
          case None
          obtain w2 b2 where s: "ctx_sleep wd_ctx w = (w2, b2)" by force
          have "sys_inv sv w2" by (rule sleep[OF Suc.prems(1) s])
          with Suc.prems(2) Suc.IH[of w2] \<open>ctx_err wd_ctx w = (w1, b)\<close> nb w1 nx None s show ?thesis
            by (auto simp: wd_broker_at_def split: bool.splits)
        next
          case (Some msg)
          obtain w2 r2 where h: "ib_append wd_inbox_ops w msg = (w2, r2)" by force
          note a = wd_ib_append_ok[OF i h]
          from nx Some have m: "k = mget 0 (mb_offsets (wd_broker w)) (?T, ?G)"
              "k < length (wd_topic w ?T)" "msg = wd_topic w ?T ! k"
            using mb_next_Some[of "wd_broker w" ?T ?G k msg] by (auto simp: wd_topic_def)
          from Suc.prems(1) obtain m where n: "k \<le> m" "m \<le> length (wd_topic w ?T)"
              "map im_msg (wd_ilog w) = firsts m_id (take m (wd_topic w ?T))"
            unfolding sys_inv_def inbox_ok_def m(1)[symmetric] by blast
          have t2: "wd_topic w2 = wd_topic w" "wd_cp w2 = wd_cp w" "mb_offsets (wd_broker w2) = mb_offsets (wd_broker w)"
            using a by (simp_all add: wd_topic_def wd_cp_def)
          have il: "map im_msg (wd_ilog w2) = firsts m_id (take (max m (k + 1)) (wd_topic w ?T)) \<or>
              r2 \<noteq> None \<and> map im_msg (wd_ilog w2) = firsts m_id (take m (wd_topic w ?T))"
            using inbox_step_firsts[OF n(3)] a firsts_deliver[OF n(1) m(2) n(2), of m_id] m(3) by metis
          have ipre: "prefix (wd_ilog w) (wd_ilog w2)"
            using a by (auto simp: inbox_step_ok_def split: if_splits)
          have rv: "relay_ok sv w2" "view_ok sv w2"
            by (rule relay_ok_frame[of _ w], use Suc.prems(1) a t2 in \<open>auto simp: sys_inv_def\<close>)
              (rule view_ok_frame[of _ w], use Suc.prems(1) a t2 ipre in \<open>auto simp: sys_inv_def\<close>)
          have "inbox_ok sv w2"
          proof (cases "map im_msg (wd_ilog w2) = firsts m_id (take m (wd_topic w ?T))")
            case True
            then show ?thesis using n(1,2) unfolding inbox_ok_def t2 m(1)[symmetric]
              by (intro exI[of _ m]) simp
          next
            case False
            with il have "map im_msg (wd_ilog w2) = firsts m_id (take (max m (k + 1)) (wd_topic w ?T))" by blast
            then show ?thesis using n(1,2) m(2) unfolding inbox_ok_def t2 m(1)[symmetric]
              by (intro exI[of _ "max m (k + 1)"]) simp
          qed
          then have s2: "sys_inv sv w2" using rv by (simp add: sys_inv_def)
          show ?thesis
          proof (cases r2)
            case None
            let ?w3 = "w2\<lparr>wd_broker := mb_commit (wd_broker w2) ?T ?G k\<rparr>"
            have e: "wd_log ?w3 = wd_log w2" "wd_cp ?w3 = wd_cp w2" "wd_topic ?w3 = wd_topic w2"
                "wd_ilog ?w3 = wd_ilog w2" "wd_view ?w3 = wd_view w2" "wd_inv ?w3 = wd_inv w2"
              by (simp_all add: wd_log_def wd_cp_def wd_topic_def wd_ilog_def wd_inv_def)
            have o: "mget 0 (mb_offsets (wd_broker ?w3)) (?T, ?G) = k + 1" by (simp add: mb_commit_def)
            have "inbox_ok sv ?w3"
              unfolding inbox_ok_def e o t2
              using il None m(2) n(2) by (intro exI[of _ "max m (k + 1)"]) auto
            then have "sys_inv sv ?w3" using rv unfolding sys_inv_def relay_ok_def view_ok_def e by blast
            with Suc.prems(2) Suc.IH[of ?w3] \<open>ctx_err wd_ctx w = (w1, b)\<close> nb w1 nx Some h None show ?thesis
              by (simp add: wd_broker_at_def inbox_writer_handler_def)
          next
            case (Some err)
            obtain w3 b3 where s: "ctx_sleep wd_ctx w2 = (w3, b3)" by force
            have "sys_inv sv w3" by (rule sleep[OF s2 s])
            with Suc.prems(2) Suc.IH[of w3] \<open>ctx_err wd_ctx w = (w1, b)\<close> nb w1 nx \<open>om = Some msg\<close> h Some s
            show ?thesis
              by (auto simp: wd_broker_at_def inbox_writer_handler_def split: bool.splits)
          qed
        qed
      qed
    qed
  qed
qed simp

lemma sys_broker_flags:
  assumes "sys_inv sv w" "mb_topics b = mb_topics (wd_broker w)" "mb_offsets b = mb_offsets (wd_broker w)"
  shows "sys_inv sv (w\<lparr>wd_broker := b\<rparr>)"
  using assms
  by (simp add: sys_inv_def relay_ok_def inbox_ok_def view_ok_def wd_log_def wd_cp_def wd_topic_def
      wd_ilog_def wd_inv_def)

lemma sys_writer:
  assumes "sys_inv sv w" "sv_writer_run sv n w = Some (w', r)"
  shows "sys_inv sv w'"
proof (cases "mb_enter (wd_broker w) (sv_topic sv) (sv_group sv)")
  case (Inl err)
  with assms show ?thesis by (auto simp: sv_writer_run_def mb_subscribe_def wd_broker_at_def)
next
  case (Inr b)
  note e = mb_enter_simps[OF Inr]
  have s1: "sys_inv sv (w\<lparr>wd_broker := b\<rparr>)" using sys_broker_flags[OF assms(1)] e by blast
  obtain w2 where w2: "mb_subscribe_loop n wd_ctx wd_broker_at (sv_topic sv) (sv_group sv)
      (inbox_writer_handler wd_inbox_ops) (w\<lparr>wd_broker := b\<rparr>) = Some w2"
      "w' = w2\<lparr>wd_broker := mb_leave (wd_broker w2) (sv_topic sv) (sv_group sv)\<rparr>"
    using assms(2) Inr by (auto simp: sv_writer_run_def mb_subscribe_def wd_broker_at_def)
  have "sys_inv sv w2" by (rule writer_loop_inv[OF s1 w2(1)])
  then show ?thesis unfolding w2(2) by (rule sys_broker_flags) simp_all
qed

text \<open>The rebuild: truncate the read tables, reset both checkpoints.\<close>

lemma sys_rebuild:
  assumes "sys_inv sv w" "names_ok sv"
    and "reset_projection wd_cp_ops (sv_projection sv) (w\<lparr>wd_view := sv_init sv\<rparr>) = (w', None)"
  shows "sys_inv sv w' \<and> wd_view w' = sv_init sv \<and> wd_cp w' (store_cp sv) = 0 \<and> wd_cp w' (inbox_cp sv) = 0"
proof -
  let ?w = "w\<lparr>wd_view := sv_init sv\<rparr>"
  obtain w1 where s1: "cp_set wd_cp_ops ?w (store_cp sv) 0 = (w1, None)"
    and s2: "cp_set wd_cp_ops w1 (inbox_cp sv) 0 = (w', None)"
    using assms(3) by (auto simp: reset_projection_def store_cp_def inbox_cp_def split: prod.splits option.splits)
  have i0: "wd_inv ?w" using sys_inv_wd[OF assms(1)] by (simp add: wd_inv_def)
  note k1 = wd_set_ok[OF i0 s1]
  then have i1: "wd_inv w1" by blast
  note k2 = wd_set_ok[OF i1 s2]
  have f: "prefix (wd_log w) (wd_log w')" "wd_inv w'" "wd_topic w' = wd_topic w" "wd_ilog w' = wd_ilog w"
      "mb_offsets (wd_broker w') = mb_offsets (wd_broker w)" "wd_view w' = sv_init sv"
    using k1 k2 prefix_order.trans[of "wd_log ?w" "wd_log w1" "wd_log w'"]
    by (simp_all add: wd_log_def wd_topic_def wd_ilog_def)
  have c: "wd_cp w' = (wd_cp w)(store_cp sv := 0, inbox_cp sv := 0)"
    using k1 k2 by (simp add: wd_cp_def)
  have "relay_ok sv w'"
    by (rule relay_ok_frame[of _ w]) (use assms(1,2) f c in \<open>auto simp: sys_inv_def names_ok_def\<close>)
  moreover have "inbox_ok sv w'"
    by (rule inbox_ok_frame[of _ w]) (use assms(1) f in \<open>auto simp: sys_inv_def\<close>)
  moreover have "view_ok sv w'"
  proof -
    have z: "0 \<le> last_pos rec_seq (wd_log w')" "0 \<le> last_pos im_seq (wd_ilog w')"
      using wf_log_pos[OF wd_store.log_wf[OF f(2)]] wd_ilog_pos[OF f(2)]
      by (auto simp: last_pos_def pos_log_def intro: less_imp_le)
    have n: "event_count sv 0 (wd_log w') = 0" "msg_count sv 0 (wd_ilog w') = 0"
      using upto_pos_zero[OF wf_log_pos[OF wd_store.log_wf[OF f(2)]]] upto_pos_zero[OF wd_ilog_pos[OF f(2)]]
      by (simp_all add: event_count_def msg_count_def)
    have "fed_events sv (wd_log w') [] 0" "fed_msgs sv (wd_ilog w') [] 0"
      unfolding fed_def using redelivered.start by fastforce+
    then show ?thesis unfolding view_ok_def c using z n f(6) by (auto intro!: exI[of _ "[]"])
  qed
  ultimately show ?thesis using f c by (simp add: sys_inv_def)
qed

text \<open>A new schedule: the next process starts.\<close>

lemma sys_restart: "sys_inv sv w \<Longrightarrow> sys_inv sv (w\<lparr>wd_sched := s\<rparr>)"
  by (simp add: sys_inv_def relay_ok_def inbox_ok_def view_ok_def wd_log_def wd_cp_def wd_topic_def
      wd_ilog_def wd_inv_def)

lemma sys_inv_new: "sys_inv sv (new_world (sv_init sv) sched)"
proof -
  let ?w = "new_world (sv_init sv) sched"
  have e: "wd_log ?w = []" "wd_ilog ?w = []" "wd_cp ?w n = 0" "wd_topic ?w t = []"
      "mget 0 (mb_offsets (wd_broker ?w)) k = 0" "wd_view ?w = sv_init sv" for n t k
    by (simp_all add: wd_log_def wd_ilog_def wd_cp_def wd_topic_def new_world_def new_mem_store_def
        new_mem_inbox_def new_mem_checkpoints_def new_mem_broker_def)
  have "view_ok sv ?w"
    unfolding view_ok_def e
    by (intro conjI exI[of _ "[]"])
      (simp_all add: event_count_def msg_count_def upto_pos_def fed_def)
  moreover have "inbox_ok sv ?w" unfolding inbox_ok_def e by simp
  moreover have "relay_ok sv ?w"
    unfolding relay_ok_def e by (simp add: upto_pos_def)
  ultimately show ?thesis by (simp add: sys_inv_def)
qed

section \<open>Reachable worlds\<close>

inductive sys_reach :: "('p, 'e, 'v) service \<Rightarrow> ('p, 'v) world \<Rightarrow> bool" for sv where
  boot: "sys_reach sv (new_world (sv_init sv) sched)"
| restart: "sys_reach sv w \<Longrightarrow> sys_reach sv (w\<lparr>wd_sched := sched\<rparr>)"
| happens: "sys_reach sv w \<Longrightarrow> tick w = (w', f) \<Longrightarrow> sys_reach sv w'"
| relays: "sys_reach sv w \<Longrightarrow> relay_run n wd_ctx (sv_relay sv) w = Some (w', r) \<Longrightarrow> sys_reach sv w'"
| writes: "sys_reach sv w \<Longrightarrow> sv_writer_run sv n w = Some (w', r) \<Longrightarrow> sys_reach sv w'"
| catches_up: "sys_reach sv w \<Longrightarrow> catch_up_run n wd_ctx (sv_catch_up sv) w = Some (w', r) \<Longrightarrow> sys_reach sv w'"
| reads: "sys_reach sv w \<Longrightarrow> inbox_reader_run n wd_ctx (sv_reader sv) w = Some (w', r) \<Longrightarrow> sys_reach sv w'"
| rebuilds: "sys_reach sv w \<Longrightarrow>
    reset_projection wd_cp_ops (sv_projection sv) (w\<lparr>wd_view := sv_init sv\<rparr>) = (w', None) \<Longrightarrow> sys_reach sv w'"

lemma sys_reach_inv: "sys_reach sv w \<Longrightarrow> names_ok sv \<Longrightarrow> sys_inv sv w"
proof (induction rule: sys_reach.induct)
  case (rebuilds w w')
  then show ?case using sys_rebuild by blast
qed (blast intro: sys_inv_new sys_restart sys_tick sys_relay sys_writer sys_catch_up sys_reader)+


section \<open>Enough fuel\<close>

text \<open>
  Every loop observes the context in each round and makes at least one call in it, so fuel past
  the length of the schedule is enough for a run to return.
\<close>

lemma writer_loop_returns:
  "wd_inv w \<Longrightarrow> wd_budget w < n \<Longrightarrow>
   mb_subscribe_loop n wd_ctx wd_broker_at topic grp (inbox_writer_handler wd_inbox_ops) w \<noteq> None"
proof (induction n arbitrary: w)
  case (Suc n)
  show ?case
  proof (cases "wd_budget w = 0")
    case True
    then have "ctx_err wd_ctx w = (w, True)" by (simp add: wd_ctx_def wd_budget_def)
    then show ?thesis by simp
  next
    case False
    then have e: "ctx_err wd_ctx w = (w, False)" by (simp add: wd_ctx_def wd_budget_def)
    obtain k om where nx: "mb_next (wd_broker w) topic grp = (k, om)" by force
    have sl: "\<exists>v' b. ctx_sleep wd_ctx v = (v', b) \<and> wd_inv v' \<and> wd_budget v' \<le> wd_budget v \<and>
        (b \<longrightarrow> wd_budget v' < wd_budget v)" if "wd_inv v" for v
      using wd_ctx_sleep[OF that] by (cases "ctx_sleep wd_ctx v") auto
    show ?thesis
    proof (cases om)
      case None
      obtain v b where s: "ctx_sleep wd_ctx w = (v, b)" "wd_inv v" "wd_budget v \<le> wd_budget w"
          "b \<longrightarrow> wd_budget v < wd_budget w" using sl[OF Suc.prems(1)] by blast
      with Suc.IH[of v] Suc.prems(2) e nx None show ?thesis
        by (auto simp: wd_broker_at_def split: bool.splits)
    next
      case (Some msg)
      obtain w2 r2 where h: "ib_append wd_inbox_ops w msg = (w2, r2)" by force
      note a = wd_ib_append_ok[OF Suc.prems(1) h]
      have lt: "wd_budget w2 < wd_budget w"
      proof -
        have "faulty_unit (\<lambda>w. (w\<lparr>wd_inbox := mi_append (wd_inbox w) msg\<rparr>, None)) w = (w2, r2)"
          using h by (simp add: wd_inbox_ops_def)
        then show ?thesis
          using tick_ok[OF Suc.prems(1)] False
          by (cases rule: faulty_unit_cases) (fastforce simp: wd_budget_def)+
      qed
      show ?thesis
      proof (cases r2)
        case None
        let ?w3 = "w2\<lparr>wd_broker := mb_commit (wd_broker w2) topic grp k\<rparr>"
        have "wd_inv ?w3" "wd_budget ?w3 < n" using a lt Suc.prems(2) by (simp_all add: wd_inv_def wd_budget_def)
        with Suc.IH[of ?w3] e nx Some h None show ?thesis
          by (simp add: wd_broker_at_def inbox_writer_handler_def)
      next
        case (Some err)
        have i2: "wd_inv w2" using a by blast
        obtain v b where s: "ctx_sleep wd_ctx w2 = (v, b)" "wd_inv v" "wd_budget v \<le> wd_budget w2"
          using sl[OF i2] by blast
        with Suc.IH[of v] Suc.prems(2) lt e nx \<open>om = Some msg\<close> h Some show ?thesis
          by (auto simp: wd_broker_at_def inbox_writer_handler_def split: bool.splits)
      qed
    qed
  qed
qed simp

lemma writer_returns:
  assumes "wd_inv w" "wd_budget w < n" shows "sv_writer_run sv n w \<noteq> None"
proof (cases "mb_enter (wd_broker w) (sv_topic sv) (sv_group sv)")
  case (Inr b)
  have "wd_inv (w\<lparr>wd_broker := b\<rparr>)" "wd_budget (w\<lparr>wd_broker := b\<rparr>) < n"
    using assms by (simp_all add: wd_inv_def wd_budget_def)
  from writer_loop_returns[OF this, of "sv_topic sv" "sv_group sv"] Inr show ?thesis
    by (auto simp: sv_writer_run_def mb_subscribe_def wd_broker_at_def)
qed (simp add: sv_writer_run_def mb_subscribe_def wd_broker_at_def)

lemma sys_inv_fed_good:
  fixes sv :: "('p, 'e, 'v) service"
  assumes "sys_inv sv w"
  shows "sv_cu.fed_good TYPE('e) sv w w" "sv_ir.fed_good TYPE('e) sv w w"
proof -
  from assms obtain zs where z: "wd_view w = fold (eff sv) zs (sv_init sv)"
      "fed_events sv (wd_log w) zs (event_count sv (wd_cp w (store_cp sv)) (wd_log w))"
      "fed_msgs sv (wd_ilog w) zs (msg_count sv (wd_cp w (inbox_cp sv)) (wd_ilog w))"
      and le: "wd_cp w (store_cp sv) \<le> last_pos rec_seq (wd_log w)"
        "wd_cp w (inbox_cp sv) \<le> last_pos im_seq (wd_ilog w)"
    by (auto simp: sys_inv_def view_ok_def)
  have R: "cu_R sv w w zs" "ir_R sv w w zs" using z sys_inv_wd[OF assms] by (simp_all add: cu_R_def ir_R_def)
  show "sv_cu.fed_good TYPE('e) sv w w"
    unfolding sv_cu.fed_good_def sv_cu.count_at_def cu_ops_simps using R z(2) le(1) by (auto simp: event_count_def)
  show "sv_ir.fed_good TYPE('e) sv w w"
    unfolding sv_ir.fed_good_def sv_ir.count_at_def ir_ops_simps using R z(3) le(2) by (auto simp: msg_count_def)
qed

lemma runs_return:
  fixes sv :: "('p, 'e, 'v) service"
  assumes "sys_inv sv w" "wd_budget w < n"
  shows "relay_run n wd_ctx (sv_relay sv) w \<noteq> None" "catch_up_run n wd_ctx (sv_catch_up sv) w \<noteq> None"
    "inbox_reader_run n wd_ctx (sv_reader sv) w \<noteq> None" "sv_writer_run sv n w \<noteq> None"
proof -
  have "wd_relay.relay_good TYPE('e) (sv_registry sv) (sv_relay_cfg sv) (sv_translators sv) (sv_routes sv) w"
    using assms(1) relay_ok_good[of sv w] by (simp add: sys_inv_def)
  from wd_relay.run_terminates[OF this assms(2)] show "relay_run n wd_ctx (sv_relay sv) w \<noteq> None"
    by (simp add: sv_relay_def)
  show "catch_up_run n wd_ctx (sv_catch_up sv) w \<noteq> None"
    unfolding catch_up_run_def by (rule sv_cu.tail.run_returns[OF sys_inv_fed_good(1)[OF assms(1)] assms(2)])
  show "inbox_reader_run n wd_ctx (sv_reader sv) w \<noteq> None"
    unfolding inbox_reader_run_def by (rule sv_ir.tail.run_returns[OF sys_inv_fed_good(2)[OF assms(1)] assms(2)])
  show "sv_writer_run sv n w \<noteq> None" by (rule writer_returns[OF sys_inv_wd[OF assms(1)] assms(2)])
qed

section \<open>Handlers as the projection package asks for them\<close>

text \<open>
  Idempotent and commutative effects on a set of items: a redelivered and interleaved history
  comes to the same as applying each item once, in any order.
\<close>

definition harmless :: "('p, 'e, 'v) service \<Rightarrow> ('p recorded + 'p inbox_message) set \<Rightarrow> bool" where
  "harmless sv S \<longleftrightarrow> (\<forall>x\<in>S. \<forall>y\<in>S. \<forall>v. eff sv x (eff sv y v) = eff sv y (eff sv x v)) \<and>
     (\<forall>x\<in>S. \<forall>v. eff sv x (eff sv x v) = eff sv x v)"

text \<open>The items two logs hold for a service's handlers.\<close>

definition handled :: "('p, 'e, 'v) service \<Rightarrow> ('p, 'v) world \<Rightarrow> ('p recorded + 'p inbox_message) set" where
  "handled sv w = Inl ` set (filter (wants_event sv) (wd_log w)) \<union> Inr ` set (filter (wants_msg sv) (wd_ilog w))"

lemma harmless_swap:
  assumes "harmless sv S" "x \<in> S" "set zs \<subseteq> S"
  shows "eff sv x (fold (eff sv) zs v) = fold (eff sv) zs (eff sv x v)"
  using assms(3)
proof (induction zs arbitrary: v)
  case (Cons z zs)
  have "eff sv x (eff sv z v) = eff sv z (eff sv x v)"
    using assms(1,2) Cons.prems unfolding harmless_def by simp
  with Cons show ?case by simp
qed simp

lemma harmless_absorb:
  assumes "harmless sv S" "set zs \<subseteq> S" "x \<in> set zs"
  shows "eff sv x (fold (eff sv) zs v) = fold (eff sv) zs v"
  using assms(2,3)
proof (induction zs arbitrary: v)
  case (Cons z zs)
  show ?case
  proof (cases "x = z")
    case True
    have "eff sv z (eff sv z v) = eff sv z v" using assms(1) Cons.prems unfolding harmless_def by simp
    with True harmless_swap[OF assms(1), of z zs "eff sv z v"] Cons.prems show ?thesis by simp
  next
    case False
    with Cons show ?thesis by simp
  qed
qed simp

lemma harmless_fold_subset:
  assumes "harmless sv S" "set zs \<subseteq> S" "set ys \<subseteq> set zs"
  shows "fold (eff sv) ys (fold (eff sv) zs v) = fold (eff sv) zs v"
  using assms(3) harmless_absorb[OF assms(1,2)] by (induction ys) auto

lemma harmless_fold_swap:
  assumes "harmless sv S" "set ys \<subseteq> S" "set zs \<subseteq> S"
  shows "fold (eff sv) ys (fold (eff sv) zs v) = fold (eff sv) zs (fold (eff sv) ys v)"
  using assms(2)
proof (induction ys arbitrary: v)
  case (Cons y ys)
  with harmless_swap[OF assms(1) _ assms(3), of y v] show ?case by simp
qed simp

lemma harmless_fold_set:
  assumes "harmless sv S" "set zs \<subseteq> S" "set ys = set zs"
  shows "fold (eff sv) ys v = fold (eff sv) zs v"
  using harmless_fold_subset[OF assms(1), of zs ys v] harmless_fold_subset[OF assms(1), of ys zs v]
    harmless_fold_swap[OF assms(1), of ys zs v] assms(2,3) by simp

lemma fed_sets:
  assumes "fed_events sv l zs k" "fed_msgs sv il zs k'"
  obtains n m where "k \<le> n" "n \<le> length (filter (wants_event sv) l)" "k' \<le> m"
    "m \<le> length (filter (wants_msg sv) il)"
    "set zs = Inl ` set (take n (filter (wants_event sv) l)) \<union> Inr ` set (take m (filter (wants_msg sv) il))"
proof -
  from assms obtain n m where
    n: "k \<le> n" "redelivered (map Inl (filter (wants_event sv) l)) n (filter isl zs)" and
    m: "k' \<le> m" "redelivered (map Inr (filter (wants_msg sv) il)) m (filter (\<lambda>z. \<not> isl z) zs)"
    by (auto simp: fed_def)
  have "set zs = set (filter isl zs) \<union> set (filter (\<lambda>z. \<not> isl z) zs)" by auto
  also have "\<dots> = Inl ` set (take n (filter (wants_event sv) l)) \<union> Inr ` set (take m (filter (wants_msg sv) il))"
    using redelivered_set[OF n(2)] redelivered_set[OF m(2)] by (simp add: take_map)
  finally show ?thesis
    using that n(1) m(1) redelivered_le[OF n(2)] redelivered_le[OF m(2)] by simp
qed

text \<open>Both runners at the end of their logs.\<close>

definition caught_up :: "('p, 'e, 'v) service \<Rightarrow> ('p, 'v) world \<Rightarrow> bool" where
  "caught_up sv w \<longleftrightarrow> last_pos rec_seq (wd_log w) \<le> wd_cp w (store_cp sv) \<and>
     last_pos im_seq (wd_ilog w) \<le> wd_cp w (inbox_cp sv)"

definition full_view :: "('p, 'e, 'v) service \<Rightarrow> 'p recorded list \<Rightarrow> 'p inbox_message list \<Rightarrow> 'v" where
  "full_view sv l il =
     fold (eff sv) (map Inl (filter (wants_event sv) l) @ map Inr (filter (wants_msg sv) il)) (sv_init sv)"

lemma view_caught_up:
  assumes "sys_inv sv w" "harmless sv (handled sv w)" "caught_up sv w"
  shows "wd_view w = full_view sv (wd_log w) (wd_ilog w)"
proof -
  have c: "event_count sv (wd_cp w (store_cp sv)) (wd_log w) = length (filter (wants_event sv) (wd_log w))"
    "msg_count sv (wd_cp w (inbox_cp sv)) (wd_ilog w) = length (filter (wants_msg sv) (wd_ilog w))"
    using assms(3) upto_pos_last[OF wf_log_pos[OF wd_store.log_wf[OF sys_inv_wd[OF assms(1)]]]]
      upto_pos_last[OF wd_ilog_pos[OF sys_inv_wd[OF assms(1)]]]
    by (simp_all add: caught_up_def event_count_def msg_count_def)
  from assms(1) obtain zs where z: "wd_view w = fold (eff sv) zs (sv_init sv)"
      "fed_events sv (wd_log w) zs (length (filter (wants_event sv) (wd_log w)))"
      "fed_msgs sv (wd_ilog w) zs (length (filter (wants_msg sv) (wd_ilog w)))"
    unfolding sys_inv_def view_ok_def c by blast
  have "set zs = set (map Inl (filter (wants_event sv) (wd_log w)) @ map Inr (filter (wants_msg sv) (wd_ilog w)))"
    by (rule fed_sets[OF z(2,3)]) simp
  then show ?thesis unfolding z(1) full_view_def
    by (intro harmless_fold_set[OF assms(2)]) (auto simp: handled_def)
qed

section \<open>Waiting for a projection\<close>

lemma wait_loop_reaches:
  assumes "\<And>v v' b. sys_reach sv v \<Longrightarrow> ctx_sleep ctx v = (v', b) \<Longrightarrow> sys_reach sv v'" "names_ok sv"
  shows "sys_reach sv w \<Longrightarrow> wait_loop n ctx wd_cp_ops cause name seq w = Some (w', None) \<Longrightarrow>
    sys_reach sv w' \<and> seq \<le> wd_cp w' name"
proof (induction n arbitrary: w)
  case (Suc n)
  obtain w1 r where g: "cp_get wd_cp_ops w name = (w1, r)" by force
  have i: "wd_inv w" by (rule sys_inv_wd[OF sys_reach_inv[OF Suc.prems(1) assms(2)]])
  have r1: "sys_reach sv w1"
  proof -
    have "faulty (\<lambda>w. (w, snd (mem_cp_get (wd_cps w) name))) w = (w1, r)" using g by (simp add: wd_cp_ops_def)
    then have "\<exists>f. tick w = (w1, f)" by (cases rule: faulty_cases) auto
    then show ?thesis using sys_reach.happens[OF Suc.prems(1)] by blast
  qed
  obtain cur where c: "r = Inr cur" using Suc.prems(2) g by (cases r) auto
  have cur: "cur = wd_cp w1 name" using wd_get_ok[OF i g] c by simp
  show ?case
  proof (cases "seq \<le> cur")
    case True
    with Suc.prems(2) g c cur r1 show ?thesis by simp
  next
    case False
    obtain w2 b where s: "ctx_sleep ctx w1 = (w2, b)" by force
    with Suc.prems(2) g c False have "b" "wait_loop n ctx wd_cp_ops cause name seq w2 = Some (w', None)"
      by (auto split: bool.splits)
    with Suc.IH[OF assms(1)[OF r1 s]] show ?thesis by blast
  qed
qed simp

text \<open>What the checkpoint says has been applied has been applied.\<close>

lemma checkpoint_applied:
  assumes "sys_inv sv w"
  shows "\<exists>zs. wd_view w = fold (eff sv) zs (sv_init sv) \<and>
    set zs \<subseteq> Inl ` set (wd_log w) \<union> Inr ` set (wd_ilog w) \<and>
    (\<forall>rec\<in>set (wd_log w). wants_event sv rec \<longrightarrow> rec_seq rec \<le> wd_cp w (store_cp sv) \<longrightarrow> Inl rec \<in> set zs)"
proof -
  let ?s = "wd_cp w (store_cp sv)"
  from assms obtain zs where z: "wd_view w = fold (eff sv) zs (sv_init sv)"
      "fed_events sv (wd_log w) zs (event_count sv ?s (wd_log w))"
      "fed_msgs sv (wd_ilog w) zs (msg_count sv (wd_cp w (inbox_cp sv)) (wd_ilog w))"
    by (auto simp: sys_inv_def view_ok_def)
  obtain n m where nm: "event_count sv ?s (wd_log w) \<le> n"
     "set zs = Inl ` set (take n (filter (wants_event sv) (wd_log w))) \<union>
       Inr ` set (take m (filter (wants_msg sv) (wd_ilog w)))"
    by (rule fed_sets[OF z(2,3)]) (rule that)
  have pos: "pos_log rec_seq (wd_log w)" by (rule wf_log_pos[OF wd_store.log_wf[OF sys_inv_wd[OF assms]]])
  have pre: "prefix (filter (wants_event sv) (upto_pos rec_seq ?s (wd_log w))) (filter (wants_event sv) (wd_log w))"
    by (rule filter_prefix[OF upto_pos_prefix[OF pos]])
  have "Inl rec \<in> set zs" if "rec \<in> set (wd_log w)" "wants_event sv rec" "rec_seq rec \<le> ?s" for rec
  proof -
    have "rec \<in> set (filter (wants_event sv) (upto_pos rec_seq ?s (wd_log w)))"
      using that by (simp add: upto_pos_def)
    moreover have "set (filter (wants_event sv) (upto_pos rec_seq ?s (wd_log w))) \<subseteq>
        set (take n (filter (wants_event sv) (wd_log w)))"
      using pre nm(1) unfolding event_count_def prefix_def
      by (metis append_eq_conv_conj set_take_subset_set_take)
    ultimately show ?thesis using nm(2) by blast
  qed
  moreover have "set zs \<subseteq> Inl ` set (wd_log w) \<union> Inr ` set (wd_ilog w)"
    unfolding nm(2) using set_take_subset[of n "filter (wants_event sv) (wd_log w)"]
      set_take_subset[of m "filter (wants_msg sv) (wd_ilog w)"] by auto
  ultimately show ?thesis using z(1) by blast
qed

end
