(* ===== verification/Delivery.thy ===== *)
theory Delivery
  imports World
begin

text \<open>
  What deliveries come to in the world: commands consumed from a topic (\<open>cqrs/wire.go\<close> over a
  subscription) and messages fed to a saga (\<open>saga/runner.go\<close> over the store).
\<close>

section \<open>Properties\<close>

text \<open>
  No command is passed over: after any run of a command consumer on a topic, through faults
  of the deduplicator, transient handler errors and a context that ends anywhere, every message
  below the group's offset is durably marked as processed, decoded or rejected.
\<close>

theorem committed_commands_are_marked:
  assumes "consumer_ok c" "wd_inv w"
    and "group_settled wd_broker_at topic grp (\<lambda>w m. m_id m \<in> wd_marked w) w"
    and "mb_subscribe n wd_ctx wd_broker_at topic grp (consumer_handler wd_ctx nm c) w = Some (w', r)"
  shows "group_settled wd_broker_at topic grp (\<lambda>w m. m_id m \<in> wd_marked w) w'"
  using subscriber.subscribe_settled[OF consumer_subscriber[OF assms(1)] assms(2-4)] by blast

text \<open>
  A command that is marked is never executed again: its redelivery is acknowledged without
  decoding it and without calling the bus or \<open>OnRejected\<close>; no checkpoint, topic, offset, inbox,
  mark or view changes.
\<close>

theorem marked_command_is_inert:
  assumes "wd_inv w" "m_id msg \<in> wd_marked w" "cn_dedup c = wd_dedup_ops"
    and "consumer_handler wd_ctx nm c w msg = (w', r)"
  shows "same_ports w w' \<and> (r = None \<longleftrightarrow> (\<exists>b. snd (dd_processed wd_dedup_ops w (m_id msg)) = Inr b))"
proof -
  note k = wd_dedup.handler_known[OF assms]
  then obtain r1 where p: "dd_processed wd_dedup_ops w (m_id msg) = (w', r1)" by blast
  then have "faulty (\<lambda>w. (w, Inr (mem_processed (wd_dedup w) (m_id msg)))) w = (w', r1)"
    by (simp add: wd_dedup_ops_def)
  from faulty_read[OF assms(1) this] k show ?thesis by blast
qed

text \<open>
  C20. One delivery to a saga is atomic: a delivery answered without an error either found the
  message received before (or the saga ended) and did nothing but that load, or appended, in one append
  behind a stream that had not moved since it was read, the received message, the commands the
  handler decided on it in the replayed state, and the end if it decided that.
\<close>

theorem saga_delivery_atomic:
  assumes "wd_inv w" "runner_ok rn s0" "rp_store (rn_repo rn) = wd_store_ops"
    and "saga_process rn amb w sid msg = (w', done1, None)"
  shows "prefix (wd_log w) (wd_log w') \<and>
    ((\<exists>a. repo_load (rn_repo rn) w sid = (w', Inr a)) \<and> saga_noop rn sid msg (wd_log w') \<or>
     saga_recorded rn s0 amb sid msg (wd_log w) (wd_log w'))"
  using wd_store.saga_process_ok[OF assms] by blast

text \<open>
  Exactly once per instance: a log in which only such deliveries wrote to the instance's
  stream decodes to the reference history of pairwise different messages, each fed to the
  handler once, in the state the earlier ones left; nothing follows the end of the saga, and
  the whole stream replays.
\<close>

theorem saga_feeds_each_message_once:
  fixes rn :: "('w, 's, 'p, 'x) runner"
  assumes "saga_log rn s0 sid l"
    and "codec_ok (rp_name (rn_repo rn)) (rp_marshal (rn_repo rn)) (rp_registry (rn_repo rn))"
  shows "\<exists>bs. decode_all (rp_registry (rn_repo rn)) (stream_recs l (saga_stream rn sid)) =
       Inr (saga_history (rn_def rn) (new_instance s0) sid bs) \<and>
     distinct (map (\<lambda>b. m_id (snd b)) bs) \<and>
     SagaEnded \<notin> set (saga_history (rn_def rn) (new_instance s0) sid (butlast bs) :: ('p, 'x) saga_event list) \<and>
     replay (saga_apply (rn_def rn)) (new_instance s0)
       (saga_history (rn_def rn) (new_instance s0) sid bs :: ('p, 'x) saga_event list) \<noteq> None"
  by (rule saga_log_history[OF assms])

section \<open>Witnesses\<close>

text \<open>One command on a topic, a handler that stores it in the view.\<close>

definition demo_command :: "string message" where
  "demo_command = \<lparr>m_id = ''c1'', m_key = ''42'', m_type = ''reserve'', m_version = 1, m_at = 1,
     m_payload = ''x'', m_meta = fmempty\<rparr>"

definition demo_consumer :: "((string, string list) world, string, string) consumer" where
  "demo_consumer = \<lparr>cn_bus = \<lparr>bus_handlers = [''reserve'' \<mapsto> (\<lambda>w c. (w\<lparr>wd_view := c # wd_view w\<rparr>, None))],
       bus_middleware = [], bus_retry = retry_defaults \<lparr>ry_attempts = 0, ry_backoff = 0, ry_should = None\<rparr>\<rparr>,
     cn_registry = [''reserve'' \<mapsto> Inr], cn_dedup = wd_dedup_ops, cn_on_rejected = None\<rparr>"

definition demo_queue :: "string happening list \<Rightarrow> (string, string list) world" where
  "demo_queue sched = (new_world [] sched)\<lparr>wd_broker := mb_publish new_mem_broker ''commands'' [demo_command]\<rparr>"

definition demo_handled :: "(string, string list) world" where
  "demo_handled = (demo_queue [])\<lparr>wd_dedup := [''c1'' \<mapsto> True], wd_view := [''x''], wd_now := 2,
     wd_broker := (mb_publish new_mem_broker ''commands'' [demo_command])
       \<lparr>mb_offsets := [(''commands'', ''inventory'') \<mapsto> 1]\<rparr>\<rparr>"

lemma demo_consumer_ok: "consumer_ok demo_consumer"
  by (auto simp: consumer_ok_def demo_consumer_def consumer_reject_def courteous_def wd_inv_def wd_marked_def
      wd_topic_def split: if_splits)

lemma demo_queue_inv: "wd_inv (demo_queue s)"
  by (simp add: demo_queue_def wd_inv_def new_world_def mem_inv_new)

lemma demo_consumed:
  "mb_subscribe (Suc (Suc 0)) wd_ctx wd_broker_at ''commands'' ''inventory''
     (consumer_handler wd_ctx (\<lambda>_. ''reserve'') demo_consumer) (demo_queue [calm 1, calm 2]) =
   Some (demo_handled, None)"
  by (simp add: mb_subscribe_def mb_enter_def mb_leave_def mb_next_def mb_commit_def wd_broker_at_def mget_def
      demo_queue_def demo_handled_def new_world_def mb_publish_def new_mem_broker_def demo_command_def
      wd_ctx_def consumer_handler_def demo_consumer_def wd_dedup_ops_def faulty_def faulty_unit_def tick_def
      calm_def mem_processed_def mem_mark_def decode_command_def dispatch_def with_retry_def
      retry_loop.simps new_mem_dedup_def Let_def empty_upd_None)

theorem committed_commands_are_marked_witness:
  "group_settled wd_broker_at ''commands'' ''inventory'' (\<lambda>w m. m_id m \<in> wd_marked w) demo_handled \<and>
   mget 0 (mb_offsets (wd_broker demo_handled)) (''commands'', ''inventory'') = 1"
proof -
  have "group_settled wd_broker_at ''commands'' ''inventory'' (\<lambda>w m. m_id m \<in> wd_marked w) (demo_queue [calm 1, calm 2])"
    by (simp add: group_settled_def wd_broker_at_def demo_queue_def mb_publish_def new_mem_broker_def Let_def)
  from committed_commands_are_marked[OF demo_consumer_ok demo_queue_inv this demo_consumed]
  show ?thesis by (simp add: demo_handled_def)
qed

theorem marked_command_is_inert_witness:
  "\<exists>w'. consumer_handler wd_ctx (\<lambda>_. ''reserve'') demo_consumer demo_handled demo_command = (w', None) \<and>
     wd_view w' = [''x'']"
proof -
  obtain w' r where h: "consumer_handler wd_ctx (\<lambda>_. ''reserve'') demo_consumer demo_handled demo_command = (w', r)"
    by force
  have i: "wd_inv demo_handled"
    using demo_queue_inv[of "[]"] by (simp add: demo_handled_def wd_inv_def)
  have m: "m_id demo_command \<in> wd_marked demo_handled" "cn_dedup demo_consumer = wd_dedup_ops"
    by (simp_all add: wd_marked_def demo_handled_def demo_command_def demo_consumer_def)
  have "\<exists>b. snd (dd_processed wd_dedup_ops demo_handled (m_id demo_command)) = Inr b"
    by (simp add: wd_dedup_ops_def faulty_def tick_def demo_handled_def demo_queue_def new_world_def)
  with marked_command_is_inert[OF i m h] h show ?thesis
    by (simp add: same_ports_def demo_handled_def)
qed

text \<open>
  A saga that answers an event with a command and ends. The payload codec of the witness knows
  the three stream events of that one exchange.
\<close>

definition demo_paid :: "string message" where
  "demo_paid = \<lparr>m_id = ''e1'', m_key = ''42'', m_type = ''paid'', m_version = 1, m_at = 1, m_payload = ''p'',
     m_meta = fmempty\<rparr>"

definition demo_ship :: "string out_command" where
  "demo_ship = \<lparr>oc_topic = ''shipping'', oc_key = [], oc_cmd = \<lparr>cv_name = ''ship'', cv_json = Inr ''s'', cv_version = None\<rparr>\<rparr>"

definition demo_saga :: "(nat, string) saga_def" where
  "demo_saga = \<lparr>sd_name = ''fulfillment'', sd_handlers = [''paid@v1'' \<mapsto>
     \<lparr>eh_correlate = (\<lambda>m. Inr (m_key m)),
      eh_handle = (\<lambda>s m. (s + 1, Inr \<lparr>ds_commands = [demo_ship], ds_end = True\<rparr>))\<rparr>]\<rparr>"

definition demo_decided :: "(string, unit) saga_event list" where
  "demo_decided = decided ''42'' fmempty demo_paid \<lparr>ds_commands = [demo_ship], ds_end = True\<rparr>"

definition demo_saga_marshal :: "(string, unit) saga_event \<Rightarrow> string res" where
  "demo_saga_marshal e = (if e = demo_decided ! 0 then Inr ''r'' else if e = demo_decided ! 1 then Inr ''c''
     else if e = demo_decided ! 2 then Inr ''e'' else Inl (ErrNew ''unsupported''))"

definition demo_saga_registry :: "(string, (string, unit) saga_event) registry" where
  "demo_saga_registry =
     [''saga.event_received'' \<mapsto> \<lparr>re_decode = (\<lambda>p. Inr (demo_decided ! 0)), re_upcasters = []\<rparr>,
      ''saga.command_requested'' \<mapsto> \<lparr>re_decode = (\<lambda>p. Inr (demo_decided ! 1)), re_upcasters = []\<rparr>,
      ''saga.ended'' \<mapsto> \<lparr>re_decode = (\<lambda>p. Inr (demo_decided ! 2)), re_upcasters = []\<rparr>]"

definition demo_runner :: "((string, unit) world, nat, string, unit) runner" where
  "demo_runner = new_runner demo_saga 0 wd_store_ops demo_saga_registry demo_saga_marshal"

lemma demo_decided_list:
  "demo_decided = [EventReceived demo_paid,
     CommandRequested \<lparr>cq_topic = ''shipping'', cq_key = ''42'', cq_name = ''ship'', cq_version = 1,
       cq_payload = ''s'', cq_meta = fmempty\<rparr>, SagaEnded]"
  by (simp add: demo_decided_def decided_def requested_def demo_ship_def command_version_def demo_paid_def)

lemma demo_saga_codec:
  "codec_ok (rp_name (rn_repo demo_runner)) (rp_marshal (rn_repo demo_runner)) (rp_registry (rn_repo demo_runner))"
  by (auto simp: codec_ok_def demo_runner_def new_runner_def demo_saga_marshal_def demo_saga_registry_def
      demo_decided_list split: if_splits)

lemma demo_event_key: "event_key ''paid'' 1 = ''paid@v1''"
  by code_simp

definition demo_saga_data :: "string event_data list" where
  "demo_saga_data = map (\<lambda>(n, p). \<lparr>ed_name = n, ed_schema = 1, ed_payload = p, ed_meta = fmempty\<rparr>)
     [(''saga.event_received'', ''r''), (''saga.command_requested'', ''c''), (''saga.ended'', ''e'')]"

definition demo_saga_world :: "(string, unit) world" where
  "demo_saga_world = fst (wd_append \<lparr>si_category = ''saga.fulfillment'', si_id = ''42''\<rparr> 0 demo_saga_data (new_world () []))"

lemma demo_reaction: "reaction demo_saga (new_instance 0) demo_paid = \<lparr>ds_commands = [demo_ship], ds_end = True\<rparr>"
  by (simp add: reaction_def demo_saga_def demo_paid_def demo_event_key)

lemma demo_saga_encode:
  "encode_all (rn_repo demo_runner) fmempty demo_decided = Inr demo_saga_data"
  by (simp add: demo_decided_list demo_saga_data_def encode_def schema_version_def demo_runner_def new_runner_def
      demo_saga_registry_def demo_saga_marshal_def)

definition demo_saga_agg :: "((nat, string) saga_inst, (string, unit) saga_event) aggregate" where
  "demo_saga_agg = \<lparr>agg_version = 0, agg_pending = demo_decided,
     agg_state = \<lparr>in_state = 1, in_ended = True, in_seen = [''e1'' \<mapsto> True],
       in_last = \<lparr>ds_commands = [demo_ship], ds_end = True\<rparr>\<rparr>\<rparr>"

lemma demo_saga_decides:
  "saga_decide demo_saga ''42'' fmempty demo_paid (new_aggregate (new_instance 0)) = Inr (Some demo_saga_agg)"
  by (simp add: saga_decide_def new_aggregate_def new_instance_def saga_raise_def raise_event_def saga_apply_def
      demo_saga_def demo_paid_def demo_event_key demo_ship_def demo_saga_agg_def demo_decided_list
      command_version_def mget_def Let_def)

lemma demo_saga_loads:
  "repo_load (rn_repo demo_runner) (new_world () []) ''42'' =
   (new_world () [], Inl (Wrapf ''%w: %s/%s'' [FStr ''saga.fulfillment'', FStr ''42''] ErrNotFound))"
  by (simp add: repo_load_def demo_runner_def new_runner_def wd_store_ops_def faulty_def tick_def new_world_def
      mem_load_def new_mem_store_def rp_stream_def saga_category_def demo_saga_def)

lemma demo_saga_saves:
  "repo_save (rn_repo demo_runner) fmempty None (new_world () []) ''42'' demo_saga_agg =
   (demo_saga_world, None, fst (take_uncommitted demo_saga_agg), None)"
proof -
  have u: "uncommitted_events demo_saga_agg = demo_decided" "agg_version demo_saga_agg = 0" "demo_decided \<noteq> []"
    by (simp_all add: uncommitted_events_def demo_saga_agg_def demo_decided_list)
  have st: "rp_store (rn_repo demo_runner) = wd_store_ops"
    "rp_stream (rn_repo demo_runner) ''42'' = \<lparr>si_category = ''saga.fulfillment'', si_id = ''42''\<rparr>"
    by (simp_all add: demo_runner_def new_runner_def rp_stream_def saga_category_def demo_saga_def)
  have "\<exists>n. st_append wd_store_ops (new_world () []) \<lparr>si_category = ''saga.fulfillment'', si_id = ''42''\<rparr> 0
      demo_saga_data = (demo_saga_world, Inr n)"
    by (simp add: wd_store_ops_def faulty_def tick_def new_world_def wd_append_def mem_append_def new_mem_store_def
        demo_saga_world_def demo_saga_data_def)
  then show ?thesis by (auto simp: repo_save_def u demo_saga_encode st record_position_def)
qed

lemma demo_saga_processed:
  "saga_process demo_runner fmempty (new_world () []) ''42'' demo_paid = (demo_saga_world, True, None)"
proof -
  have d: "rn_def demo_runner = demo_saga" "rp_zero (rn_repo demo_runner) = new_instance 0"
    by (simp_all add: demo_runner_def new_runner_def)
  show ?thesis
    by (simp add: saga_process_def demo_saga_loads d demo_saga_decides demo_saga_saves)
qed

lemma demo_saga_log:
  "wd_log (new_world () [] :: (string, unit) world) = []"
  "map ed_of (wd_log demo_saga_world) = demo_saga_data"
  "\<forall>r\<in>set (wd_log demo_saga_world). rec_stream r = \<lparr>si_category = ''saga.fulfillment'', si_id = ''42''\<rparr>"
  by (simp_all add: wd_log_def demo_saga_world_def wd_append_def new_world_def new_mem_store_def mem_append_def
      demo_saga_data_def mem_record_def ed_of_def)

lemma demo_runner_facts:
  "runner_ok demo_runner 0" "rp_store (rn_repo demo_runner) = wd_store_ops" "rn_def demo_runner = demo_saga"
  "saga_stream demo_runner ''42'' = \<lparr>si_category = ''saga.fulfillment'', si_id = ''42''\<rparr>"
  by (simp_all add: runner_ok_new demo_runner_def)
    (simp_all add: new_runner_def saga_stream_def rp_stream_def saga_category_def demo_saga_def)

theorem saga_delivery_atomic_witness:
  "saga_recorded demo_runner 0 fmempty ''42'' demo_paid [] (wd_log demo_saga_world)"
  using saga_delivery_atomic[OF _ demo_runner_facts(1,2) demo_saga_processed] demo_saga_loads demo_saga_log(1) by simp

lemma demo_decided_replays: "replay (saga_apply demo_saga) (new_instance 0) demo_decided \<noteq> None"
  by (simp add: demo_decided_list saga_apply_def demo_saga_def demo_paid_def demo_event_key Let_def)

lemma demo_saga_step: "saga_step demo_runner 0 fmempty ''42'' demo_paid [] (wd_log demo_saga_world)"
proof -
  have d: "decided ''42'' fmempty demo_paid (reaction demo_saga (new_instance 0) demo_paid) = demo_decided"
    by (simp add: demo_reaction demo_decided_def)
  have "appended (saga_stream demo_runner ''42'') demo_saga_data (wd_log demo_saga_world)"
    using demo_saga_log by (simp add: appended_def demo_runner_facts)
  then show ?thesis
    unfolding saga_step_def demo_runner_facts(3)
    by (intro exI[of _ "[]"] exI[of _ "new_instance 0"] exI[of _ demo_saga_data])
      (simp add: d demo_decided_replays demo_saga_encode stream_recs_def)
qed

theorem saga_feeds_each_message_once_witness:
  "\<exists>bs. decode_all demo_saga_registry (wd_log demo_saga_world) = Inr (saga_history demo_saga (new_instance 0) ''42'' bs) \<and>
     distinct (map (\<lambda>b. m_id (snd b)) bs)"
proof -
  have l: "saga_log demo_runner 0 ''42'' ([] @ wd_log demo_saga_world)"
    by (rule saga_log.delivery[OF saga_log.unborn demo_saga_step]) (simp add: stream_recs_def)
  have "stream_recs ([] @ wd_log demo_saga_world) (saga_stream demo_runner ''42'') = wd_log demo_saga_world"
    using demo_saga_log(3) by (simp add: stream_recs_def demo_runner_facts(4) filter_True)
  with saga_feeds_each_message_once[OF l demo_saga_codec] show ?thesis
    by (auto simp: demo_runner_facts(3)) (auto simp: demo_runner_def new_runner_def)
qed

end
