(* ===== verification/Json.thy ===== *)
theory Json
  imports KernelId
begin

text \<open>
  What the services use of \<open>encoding/json\<close>: payloads as syntax trees, decoding into Go
  structs with its rules for absent members, null, member names, duplicates and type
  mismatches, and encoding with its coercion of invalid UTF-8. Printing a tree and parsing it
  back are the library's and stay outside.
\<close>

section \<open>Syntax trees\<close>

text \<open>A number literal is an integer literal or one with a fraction or an exponent.\<close>

datatype json =
    JNull
  | JBool bool
  | JInt int
  | JReal string
  | JStr string
  | JArr "json list"
  | JObj "(string \<times> json) list"

section \<open>Text\<close>

definition byte_in :: "nat \<Rightarrow> nat \<Rightarrow> char \<Rightarrow> bool" where
  "byte_in lo hi c \<longleftrightarrow> lo \<le> (of_char c :: nat) \<and> (of_char c :: nat) \<le> hi"

text \<open>The number of bytes of the valid rune a text starts with, 0 when there is none.\<close>

definition rune_len :: "string \<Rightarrow> nat" where
  "rune_len s = (case s of
     [] \<Rightarrow> 0
   | a # s1 \<Rightarrow>
      if byte_in 0 127 a then 1
      else (case s1 of
         [] \<Rightarrow> 0
       | b # s2 \<Rightarrow>
          if byte_in 194 223 a then (if byte_in 128 191 b then 2 else 0)
          else (case s2 of
             [] \<Rightarrow> 0
           | c # s3 \<Rightarrow>
              if byte_in 224 239 a then
                (if byte_in (if byte_in 224 224 a then 160 else 128) (if byte_in 237 237 a then 159 else 191) b
                    \<and> byte_in 128 191 c then 3 else 0)
              else (case s3 of
                 [] \<Rightarrow> 0
               | d # s4 \<Rightarrow>
                  if byte_in 240 244 a
                     \<and> byte_in (if byte_in 240 240 a then 144 else 128) (if byte_in 244 244 a then 143 else 191) b
                     \<and> byte_in 128 191 c \<and> byte_in 128 191 d
                  then 4 else 0))))"

lemma rune_len_le: "rune_len s \<le> length s"
  by (simp add: rune_len_def split: list.splits)

text \<open>Marshalling replaces every byte that starts no valid rune by U+FFFD.\<close>

definition replacement :: string where
  "replacement = [char_of (239::nat), char_of (191::nat), char_of (189::nat)]"

function utf8_fix :: "string \<Rightarrow> string" where
  "utf8_fix [] = []"
| "utf8_fix (c # cs) =
     (let n = rune_len (c # cs) in
      if n = 0 then replacement @ utf8_fix cs else take n (c # cs) @ utf8_fix (drop n (c # cs)))"
  by pat_completeness auto
termination by (relation "measure length") auto

declare utf8_fix.simps(2) [simp del]

definition utf8_valid :: "string \<Rightarrow> bool" where
  "utf8_valid s \<longleftrightarrow> utf8_fix s = s"

lemma utf8_fix_valid: "utf8_valid s \<Longrightarrow> utf8_fix s = s"
  by (simp add: utf8_valid_def)

lemma utf8_fix_ascii [simp]: "list_all is_ascii s \<Longrightarrow> utf8_fix s = s"
proof (induction s)
  case (Cons c cs)
  then have "rune_len (c # cs) = 1" by (simp add: rune_len_def byte_in_def is_ascii_def)
  with Cons show ?case by (simp add: utf8_fix.simps(2))
qed simp

lemma rune_len_take:
  assumes "rune_len s \<noteq> 0" shows "rune_len (take (rune_len s) s @ x) = rune_len s"
proof -
  consider "s = []" | a where "s = [a]" | a b where "s = [a, b]" | a b c where "s = [a, b, c]"
    | a b c d t where "s = a # b # c # d # t"
    by (metis list.exhaust)
  then show ?thesis
    by cases (use assms in \<open>auto simp: rune_len_def split: if_splits\<close>)
qed

lemma rune_len_replacement: "rune_len (replacement @ x) = 3"
  by (simp add: rune_len_def replacement_def byte_in_def)

lemma utf8_fix_rune:
  assumes "rune_len s \<noteq> 0" shows "utf8_fix (take (rune_len s) s @ x) = take (rune_len s) s @ utf8_fix x"
proof -
  let ?n = "rune_len s"
  have l: "length (take ?n s) = ?n" using rune_len_le[of s] by simp
  have s: "s \<noteq> []" using assms by (auto simp: rune_len_def)
  then obtain c cs where c: "take ?n s @ x = c # cs"
    using assms by (cases "take ?n s @ x") auto
  have "utf8_fix (c # cs) = take ?n (c # cs) @ utf8_fix (drop ?n (c # cs))"
    using rune_len_take[OF assms, of x] assms by (simp add: utf8_fix.simps(2) c Let_def)
  then show ?thesis using l unfolding c[symmetric] by simp
qed

text \<open>What was stored once is stored the same ever after.\<close>

lemma utf8_fix_idem [simp]: "utf8_fix (utf8_fix s) = utf8_fix s"
proof (induction s rule: utf8_fix.induct)
  case (2 c cs)
  show ?case
  proof (cases "rune_len (c # cs) = 0")
    case True
    have "utf8_fix (replacement @ x) = replacement @ utf8_fix x" for x
      using utf8_fix_rune[of "replacement @ []" x] rune_len_replacement[of "[]"]
      by (simp add: replacement_def)
    with True 2 show ?thesis by (simp add: utf8_fix.simps(2))
  next
    case False
    with 2 utf8_fix_rune[OF False] show ?thesis by (simp add: utf8_fix.simps(2)[of c cs] Let_def)
  qed
qed simp

lemma utf8_valid_fix [simp]: "utf8_valid (utf8_fix s)"
  by (simp add: utf8_valid_def)

lemma utf8_valid_ascii: "list_all is_ascii s \<Longrightarrow> utf8_valid s"
  by (simp add: utf8_valid_def)

lemma utf8_fix_Nil_iff [simp]: "utf8_fix s = [] \<longleftrightarrow> s = []"
  by (cases s) (auto simp: utf8_fix.simps(2) Let_def replacement_def)

text \<open>
  Member names are compared exactly first and then under simple case folding. Only two
  non-ASCII runes fold to an ASCII letter (the long s and the Kelvin sign), and every name
  the sources declare is ASCII, so all other runes may stand for themselves.
\<close>

definition ascii_upper :: "char \<Rightarrow> char" where
  "ascii_upper c = (let n = (of_char c :: nat) in if 97 \<le> n \<and> n \<le> 122 then char_of (n - 32) else c)"

fun fold_name :: "string \<Rightarrow> string" where
  "fold_name [] = []"
| "fold_name (c # cs) =
     (case cs of
        b # cs1 \<Rightarrow>
          if byte_in 197 197 c \<and> byte_in 191 191 b then CHR ''S'' # fold_name cs1
          else (case cs1 of
             d # cs2 \<Rightarrow>
               if byte_in 226 226 c \<and> byte_in 132 132 b \<and> byte_in 170 170 d
               then CHR ''K'' # fold_name cs2 else ascii_upper c # fold_name cs
           | [] \<Rightarrow> ascii_upper c # fold_name cs)
      | [] \<Rightarrow> [ascii_upper c])"

section \<open>Decoding\<close>

text \<open>
  A decoder gets the target's present value. A type mismatch leaves the value and is kept, as
  the first of its kind, until the whole text was read (\<open>Inr (v, Some err)\<close>); an error from an
  \<open>UnmarshalJSON\<close> or \<open>UnmarshalText\<close> hook stops the decoding (\<open>Inl\<close>).
\<close>

type_synonym 's jdec = "'s \<Rightarrow> json \<Rightarrow> gerr + 's \<times> gerr option"

definition type_mismatch :: "string \<Rightarrow> gerr" where
  "type_mismatch what = Errorf ''json: cannot unmarshal %s into Go value'' [FStr what]"

definition json_kind :: "json \<Rightarrow> string" where
  "json_kind j = (case j of JNull \<Rightarrow> ''null'' | JBool b \<Rightarrow> ''bool'' | JInt i \<Rightarrow> ''number''
     | JReal r \<Rightarrow> ''number'' | JStr s \<Rightarrow> ''string'' | JArr js \<Rightarrow> ''array'' | JObj ms \<Rightarrow> ''object'')"

definition mismatch :: "'s \<Rightarrow> json \<Rightarrow> gerr + 's \<times> gerr option" where
  "mismatch old j = Inr (old, Some (type_mismatch (json_kind j)))"

text \<open>The text of a string literal is coerced to valid UTF-8 when it is unquoted.\<close>

definition dec_string :: "string jdec" where
  "dec_string old j = (case j of JStr s \<Rightarrow> Inr (utf8_fix s, None) | JNull \<Rightarrow> Inr (old, None) | _ \<Rightarrow> mismatch old j)"

definition in_int64 :: "int \<Rightarrow> bool" where
  "in_int64 i \<longleftrightarrow> int64_min \<le> i \<and> i \<le> int64_max"

lemma in_int64_zero [simp]: "in_int64 0"
  by (simp add: in_int64_def int64_min_def int64_max_def)

text \<open>\<open>int\<close> and \<open>int64\<close> on a 64-bit platform.\<close>

definition dec_int :: "int jdec" where
  "dec_int old j = (case j of
     JInt i \<Rightarrow> if in_int64 i then Inr (i, None) else mismatch old j
   | JNull \<Rightarrow> Inr (old, None) | _ \<Rightarrow> mismatch old j)"

text \<open>A target with an \<open>UnmarshalJSON\<close> hook gets every text, null included.\<close>

definition dec_hook :: "(json \<Rightarrow> 's res) \<Rightarrow> 's jdec" where
  "dec_hook hook old j = (case hook j of Inl err \<Rightarrow> Inl err | Inr v \<Rightarrow> Inr (v, None))"

text \<open>A target with an \<open>UnmarshalText\<close> hook gets strings; null leaves it.\<close>

definition dec_text :: "('s \<Rightarrow> string \<Rightarrow> 's \<times> gerr option) \<Rightarrow> 's jdec" where
  "dec_text hook old j = (case j of
     JStr s \<Rightarrow> (case hook old (utf8_fix s) of (v, Some err) \<Rightarrow> Inl err | (v, None) \<Rightarrow> Inr (v, None))
   | JNull \<Rightarrow> Inr (old, None) | _ \<Rightarrow> mismatch old j)"

definition dec_field :: "('s \<Rightarrow> 'f) \<Rightarrow> ('f \<Rightarrow> 's \<Rightarrow> 's) \<Rightarrow> 'f jdec \<Rightarrow> 's jdec" where
  "dec_field get put dec s j = (case dec (get s) j of
     Inl err \<Rightarrow> Inl err | Inr (v, e) \<Rightarrow> Inr (put v s, e))"

definition find_field :: "(string \<times> 's jdec) list \<Rightarrow> string \<Rightarrow> 's jdec option" where
  "find_field fs k = (case map_of fs k of
     Some d \<Rightarrow> Some d
   | None \<Rightarrow> map_option snd (find (\<lambda>f. fold_name (fst f) = fold_name k) fs))"

fun dec_members ::
  "(string \<times> 's jdec) list \<Rightarrow> 's \<Rightarrow> gerr option \<Rightarrow> (string \<times> json) list \<Rightarrow> gerr + 's \<times> gerr option" where
  "dec_members fs s saved [] = Inr (s, saved)"
| "dec_members fs s saved ((k, v) # ms) =
     (case find_field fs k of
        None \<Rightarrow> dec_members fs s saved ms
      | Some d \<Rightarrow>
          (case d s v of
             Inl err \<Rightarrow> Inl err
           | Inr (s1, e) \<Rightarrow> dec_members fs s1 (if saved = None then e else saved) ms))"

definition dec_struct :: "(string \<times> 's jdec) list \<Rightarrow> 's jdec" where
  "dec_struct fs s j = (case j of
     JObj ms \<Rightarrow> dec_members fs s None ms | JNull \<Rightarrow> Inr (s, None) | _ \<Rightarrow> mismatch s j)"

text \<open>\<open>json.Unmarshal\<close> into a fresh variable: an error hides the value.\<close>

definition json_unmarshal :: "'s jdec \<Rightarrow> 's \<Rightarrow> json \<Rightarrow> 's res" where
  "json_unmarshal dec zero j = (case dec zero j of
     Inl err \<Rightarrow> Inl err | Inr (v, Some err) \<Rightarrow> Inl err | Inr (v, None) \<Rightarrow> Inr v)"

section \<open>Encoding\<close>

definition jstr :: "string \<Rightarrow> json" where
  "jstr s = JStr (utf8_fix s)"

lemma dec_string_jstr [simp]: "dec_string old (jstr s) = Inr (utf8_fix s, None)"
  by (simp add: dec_string_def jstr_def)

section \<open>What decoding keeps\<close>

text \<open>A fact about a struct that no field decoder breaks holds of what is decoded.\<close>

lemma dec_members_keeps:
  assumes "\<And>k d s v s1 e. (k, d) \<in> set fs \<Longrightarrow> P s \<Longrightarrow> d s v = Inr (s1, e) \<Longrightarrow> P s1"
  shows "P s \<Longrightarrow> dec_members fs s saved ms = Inr (s', e') \<Longrightarrow> P s'"
proof (induction ms arbitrary: s saved)
  case (Cons m ms)
  obtain k v where m: "m = (k, v)" by force
  show ?case
  proof (cases "find_field fs k")
    case None
    with Cons m show ?thesis by simp
  next
    case (Some d)
    then have "\<exists>k. (k, d) \<in> set fs"
      by (auto simp: find_field_def find_Some_iff dest: map_of_SomeD split: option.splits)
         (metis nth_mem prod.collapse)
    then obtain k' where d: "(k', d) \<in> set fs" by blast
    from Cons.prems(2) Some m obtain s1 e1 where v: "d s v = Inr (s1, e1)"
      by (auto split: sum.splits)
    from Cons.IH[OF assms[OF d Cons.prems(1) v]] Cons.prems(2) Some v m show ?thesis by simp
  qed
qed simp

lemma json_unmarshal_keeps:
  assumes "\<And>k d s v s1 e. (k, d) \<in> set fs \<Longrightarrow> P s \<Longrightarrow> d s v = Inr (s1, e) \<Longrightarrow> P s1"
    and "P zero" "json_unmarshal (dec_struct fs) zero j = Inr v"
  shows "P v"
proof (cases j)
  case (JObj ms)
  with assms(3) have m: "dec_members fs zero None ms = Inr (v, None)"
    by (auto simp: json_unmarshal_def dec_struct_def split: sum.splits option.splits)
  show ?thesis by (rule dec_members_keeps[where P = P, OF _ assms(2) m]) (rule assms(1))
qed (use assms(2,3) in \<open>auto simp: json_unmarshal_def dec_struct_def mismatch_def\<close>)

named_theorems json_simps \<open>evaluating a decoder on what an encoder gives\<close>

lemmas [json_simps] =
  json_unmarshal_def dec_struct_def dec_field_def dec_string_def dec_int_def dec_hook_def
  dec_text_def find_field_def jstr_def

end
