(* ===== verification/Contracts.thy ===== *)
theory Contracts
  imports Json CqrsWire
begin

text \<open>
  The public contracts of the example system (\<open>gohex-example/contracts/contracts.go\<close>): the
  integration events and commands as structs with their JSON decoding and encoding, their
  names and versions, and the topics they travel on.
\<close>

named_theorems wire \<open>a contract survives its JSON\<close>

section \<open>Topics\<close>

definition TopicOrderingEvents :: string where "TopicOrderingEvents = ''ordering.events''"
definition TopicBillingEvents :: string where "TopicBillingEvents = ''billing.events''"
definition TopicInventoryEvents :: string where "TopicInventoryEvents = ''inventory.events''"
definition TopicShippingEvents :: string where "TopicShippingEvents = ''shipping.events''"
definition TopicBillingCommands :: string where "TopicBillingCommands = ''billing.commands''"
definition TopicInventoryCommands :: string where "TopicInventoryCommands = ''inventory.commands''"
definition TopicShippingCommands :: string where "TopicShippingCommands = ''shipping.commands''"

lemmas topic_defs =
  TopicOrderingEvents_def TopicBillingEvents_def TopicInventoryEvents_def TopicShippingEvents_def
  TopicBillingCommands_def TopicInventoryCommands_def TopicShippingCommands_def

section \<open>Integration events\<close>

record order_placed_v1 =
  opv_order_id :: string
  opv_customer_id :: string
  opv_cents :: int
  opv_currency :: string
  opv_qty :: int

definition unmarshal_order_placed_v1 :: "json \<Rightarrow> order_placed_v1 res" where
  "unmarshal_order_placed_v1 = json_unmarshal (dec_struct [
     (''order_id'', dec_field opv_order_id (\<lambda>v. opv_order_id_update (\<lambda>_. v)) dec_string),
     (''customer_id'', dec_field opv_customer_id (\<lambda>v. opv_customer_id_update (\<lambda>_. v)) dec_string),
     (''cents'', dec_field opv_cents (\<lambda>v. opv_cents_update (\<lambda>_. v)) dec_int),
     (''currency'', dec_field opv_currency (\<lambda>v. opv_currency_update (\<lambda>_. v)) dec_string),
     (''qty'', dec_field opv_qty (\<lambda>v. opv_qty_update (\<lambda>_. v)) dec_int)])
     \<lparr>opv_order_id = [], opv_customer_id = [], opv_cents = 0, opv_currency = [], opv_qty = 0\<rparr>"

definition marshal_order_placed_v1 :: "order_placed_v1 \<Rightarrow> json res" where
  "marshal_order_placed_v1 e = Inr (JObj [
     (''order_id'', jstr (opv_order_id e)),
     (''customer_id'', jstr (opv_customer_id e)),
     (''cents'', JInt (opv_cents e)),
     (''currency'', jstr (opv_currency e)),
     (''qty'', JInt (opv_qty e))])"

definition order_placed_v1_event :: "order_placed_v1 \<Rightarrow> json integration_event" where
  "order_placed_v1_event e = \<lparr>ie_name = ''ordering.order_placed'', ie_version = 1, ie_json = marshal_order_placed_v1 e\<rparr>"

record payment_captured_v1 =
  pcv_order_id :: string
  pcv_cents :: int

definition unmarshal_payment_captured_v1 :: "json \<Rightarrow> payment_captured_v1 res" where
  "unmarshal_payment_captured_v1 = json_unmarshal (dec_struct [
     (''order_id'', dec_field pcv_order_id (\<lambda>v. pcv_order_id_update (\<lambda>_. v)) dec_string),
     (''cents'', dec_field pcv_cents (\<lambda>v. pcv_cents_update (\<lambda>_. v)) dec_int)])
     \<lparr>pcv_order_id = [], pcv_cents = 0\<rparr>"

definition marshal_payment_captured_v1 :: "payment_captured_v1 \<Rightarrow> json res" where
  "marshal_payment_captured_v1 e = Inr (JObj [
     (''order_id'', jstr (pcv_order_id e)),
     (''cents'', JInt (pcv_cents e))])"

definition payment_captured_v1_event :: "payment_captured_v1 \<Rightarrow> json integration_event" where
  "payment_captured_v1_event e = \<lparr>ie_name = ''billing.payment_captured'', ie_version = 1, ie_json = marshal_payment_captured_v1 e\<rparr>"

record payment_failed_v1 =
  pfv_order_id :: string
  pfv_reason :: string

definition unmarshal_payment_failed_v1 :: "json \<Rightarrow> payment_failed_v1 res" where
  "unmarshal_payment_failed_v1 = json_unmarshal (dec_struct [
     (''order_id'', dec_field pfv_order_id (\<lambda>v. pfv_order_id_update (\<lambda>_. v)) dec_string),
     (''reason'', dec_field pfv_reason (\<lambda>v. pfv_reason_update (\<lambda>_. v)) dec_string)])
     \<lparr>pfv_order_id = [], pfv_reason = []\<rparr>"

definition marshal_payment_failed_v1 :: "payment_failed_v1 \<Rightarrow> json res" where
  "marshal_payment_failed_v1 e = Inr (JObj [
     (''order_id'', jstr (pfv_order_id e)),
     (''reason'', jstr (pfv_reason e))])"

definition payment_failed_v1_event :: "payment_failed_v1 \<Rightarrow> json integration_event" where
  "payment_failed_v1_event e = \<lparr>ie_name = ''billing.payment_failed'', ie_version = 1, ie_json = marshal_payment_failed_v1 e\<rparr>"

record payment_refunded_v1 =
  prv_order_id :: string

definition unmarshal_payment_refunded_v1 :: "json \<Rightarrow> payment_refunded_v1 res" where
  "unmarshal_payment_refunded_v1 = json_unmarshal (dec_struct [
     (''order_id'', dec_field prv_order_id (\<lambda>v. prv_order_id_update (\<lambda>_. v)) dec_string)])
     \<lparr>prv_order_id = []\<rparr>"

definition marshal_payment_refunded_v1 :: "payment_refunded_v1 \<Rightarrow> json res" where
  "marshal_payment_refunded_v1 e = Inr (JObj [
     (''order_id'', jstr (prv_order_id e))])"

definition payment_refunded_v1_event :: "payment_refunded_v1 \<Rightarrow> json integration_event" where
  "payment_refunded_v1_event e = \<lparr>ie_name = ''billing.payment_refunded'', ie_version = 1, ie_json = marshal_payment_refunded_v1 e\<rparr>"

record stock_reserved_v1 =
  srv_order_id :: string
  srv_qty :: int

definition unmarshal_stock_reserved_v1 :: "json \<Rightarrow> stock_reserved_v1 res" where
  "unmarshal_stock_reserved_v1 = json_unmarshal (dec_struct [
     (''order_id'', dec_field srv_order_id (\<lambda>v. srv_order_id_update (\<lambda>_. v)) dec_string),
     (''qty'', dec_field srv_qty (\<lambda>v. srv_qty_update (\<lambda>_. v)) dec_int)])
     \<lparr>srv_order_id = [], srv_qty = 0\<rparr>"

definition marshal_stock_reserved_v1 :: "stock_reserved_v1 \<Rightarrow> json res" where
  "marshal_stock_reserved_v1 e = Inr (JObj [
     (''order_id'', jstr (srv_order_id e)),
     (''qty'', JInt (srv_qty e))])"

definition stock_reserved_v1_event :: "stock_reserved_v1 \<Rightarrow> json integration_event" where
  "stock_reserved_v1_event e = \<lparr>ie_name = ''inventory.stock_reserved'', ie_version = 1, ie_json = marshal_stock_reserved_v1 e\<rparr>"

record stock_rejected_v1 =
  sjv_order_id :: string
  sjv_reason :: string

definition unmarshal_stock_rejected_v1 :: "json \<Rightarrow> stock_rejected_v1 res" where
  "unmarshal_stock_rejected_v1 = json_unmarshal (dec_struct [
     (''order_id'', dec_field sjv_order_id (\<lambda>v. sjv_order_id_update (\<lambda>_. v)) dec_string),
     (''reason'', dec_field sjv_reason (\<lambda>v. sjv_reason_update (\<lambda>_. v)) dec_string)])
     \<lparr>sjv_order_id = [], sjv_reason = []\<rparr>"

definition marshal_stock_rejected_v1 :: "stock_rejected_v1 \<Rightarrow> json res" where
  "marshal_stock_rejected_v1 e = Inr (JObj [
     (''order_id'', jstr (sjv_order_id e)),
     (''reason'', jstr (sjv_reason e))])"

definition stock_rejected_v1_event :: "stock_rejected_v1 \<Rightarrow> json integration_event" where
  "stock_rejected_v1_event e = \<lparr>ie_name = ''inventory.stock_rejected'', ie_version = 1, ie_json = marshal_stock_rejected_v1 e\<rparr>"

record shipment_dispatched_v1 =
  sdv_order_id :: string

definition unmarshal_shipment_dispatched_v1 :: "json \<Rightarrow> shipment_dispatched_v1 res" where
  "unmarshal_shipment_dispatched_v1 = json_unmarshal (dec_struct [
     (''order_id'', dec_field sdv_order_id (\<lambda>v. sdv_order_id_update (\<lambda>_. v)) dec_string)])
     \<lparr>sdv_order_id = []\<rparr>"

definition marshal_shipment_dispatched_v1 :: "shipment_dispatched_v1 \<Rightarrow> json res" where
  "marshal_shipment_dispatched_v1 e = Inr (JObj [
     (''order_id'', jstr (sdv_order_id e))])"

definition shipment_dispatched_v1_event :: "shipment_dispatched_v1 \<Rightarrow> json integration_event" where
  "shipment_dispatched_v1_event e = \<lparr>ie_name = ''shipping.shipment_dispatched'', ie_version = 1, ie_json = marshal_shipment_dispatched_v1 e\<rparr>"

section \<open>Commands\<close>

record capture_payment_cmd =
  cpc_order_id :: string
  cpc_cents :: int

definition unmarshal_capture_payment_cmd :: "json \<Rightarrow> capture_payment_cmd res" where
  "unmarshal_capture_payment_cmd = json_unmarshal (dec_struct [
     (''order_id'', dec_field cpc_order_id (\<lambda>v. cpc_order_id_update (\<lambda>_. v)) dec_string),
     (''cents'', dec_field cpc_cents (\<lambda>v. cpc_cents_update (\<lambda>_. v)) dec_int)])
     \<lparr>cpc_order_id = [], cpc_cents = 0\<rparr>"

definition marshal_capture_payment_cmd :: "capture_payment_cmd \<Rightarrow> json res" where
  "marshal_capture_payment_cmd e = Inr (JObj [
     (''order_id'', jstr (cpc_order_id e)),
     (''cents'', JInt (cpc_cents e))])"

definition capture_payment_cmd_value :: "capture_payment_cmd \<Rightarrow> json command_value" where
  "capture_payment_cmd_value c = \<lparr>cv_name = ''billing.capture_payment'', cv_json = marshal_capture_payment_cmd c, cv_version = None\<rparr>"

record refund_payment_cmd =
  rpc_order_id :: string

definition unmarshal_refund_payment_cmd :: "json \<Rightarrow> refund_payment_cmd res" where
  "unmarshal_refund_payment_cmd = json_unmarshal (dec_struct [
     (''order_id'', dec_field rpc_order_id (\<lambda>v. rpc_order_id_update (\<lambda>_. v)) dec_string)])
     \<lparr>rpc_order_id = []\<rparr>"

definition marshal_refund_payment_cmd :: "refund_payment_cmd \<Rightarrow> json res" where
  "marshal_refund_payment_cmd e = Inr (JObj [
     (''order_id'', jstr (rpc_order_id e))])"

definition refund_payment_cmd_value :: "refund_payment_cmd \<Rightarrow> json command_value" where
  "refund_payment_cmd_value c = \<lparr>cv_name = ''billing.refund_payment'', cv_json = marshal_refund_payment_cmd c, cv_version = None\<rparr>"

record reserve_stock_cmd =
  rsc_order_id :: string
  rsc_qty :: int

definition unmarshal_reserve_stock_cmd :: "json \<Rightarrow> reserve_stock_cmd res" where
  "unmarshal_reserve_stock_cmd = json_unmarshal (dec_struct [
     (''order_id'', dec_field rsc_order_id (\<lambda>v. rsc_order_id_update (\<lambda>_. v)) dec_string),
     (''qty'', dec_field rsc_qty (\<lambda>v. rsc_qty_update (\<lambda>_. v)) dec_int)])
     \<lparr>rsc_order_id = [], rsc_qty = 0\<rparr>"

definition marshal_reserve_stock_cmd :: "reserve_stock_cmd \<Rightarrow> json res" where
  "marshal_reserve_stock_cmd e = Inr (JObj [
     (''order_id'', jstr (rsc_order_id e)),
     (''qty'', JInt (rsc_qty e))])"

definition reserve_stock_cmd_value :: "reserve_stock_cmd \<Rightarrow> json command_value" where
  "reserve_stock_cmd_value c = \<lparr>cv_name = ''inventory.reserve_stock'', cv_json = marshal_reserve_stock_cmd c, cv_version = None\<rparr>"

record create_shipment_cmd =
  csc_order_id :: string

definition unmarshal_create_shipment_cmd :: "json \<Rightarrow> create_shipment_cmd res" where
  "unmarshal_create_shipment_cmd = json_unmarshal (dec_struct [
     (''order_id'', dec_field csc_order_id (\<lambda>v. csc_order_id_update (\<lambda>_. v)) dec_string)])
     \<lparr>csc_order_id = []\<rparr>"

definition marshal_create_shipment_cmd :: "create_shipment_cmd \<Rightarrow> json res" where
  "marshal_create_shipment_cmd e = Inr (JObj [
     (''order_id'', jstr (csc_order_id e))])"

definition create_shipment_cmd_value :: "create_shipment_cmd \<Rightarrow> json command_value" where
  "create_shipment_cmd_value c = \<lparr>cv_name = ''shipping.create_shipment'', cv_json = marshal_create_shipment_cmd c, cv_version = None\<rparr>"

section \<open>Over the wire\<close>

text \<open>
  What a service sends is what the other decodes, up to the coercion of invalid UTF-8;
  integers are those of the Go types.
\<close>

lemma order_placed_v1_wire [wire]:
  "in_int64 (opv_cents e) \<Longrightarrow> in_int64 (opv_qty e) \<Longrightarrow> marshal_order_placed_v1 e = Inr j \<Longrightarrow>
   unmarshal_order_placed_v1 j = Inr (e\<lparr>opv_order_id := utf8_fix (opv_order_id e), opv_customer_id := utf8_fix (opv_customer_id e), opv_currency := utf8_fix (opv_currency e)\<rparr>)"
  by (cases e) (auto simp: unmarshal_order_placed_v1_def marshal_order_placed_v1_def json_simps)

lemma payment_captured_v1_wire [wire]:
  "in_int64 (pcv_cents e) \<Longrightarrow> marshal_payment_captured_v1 e = Inr j \<Longrightarrow>
   unmarshal_payment_captured_v1 j = Inr (e\<lparr>pcv_order_id := utf8_fix (pcv_order_id e)\<rparr>)"
  by (cases e) (auto simp: unmarshal_payment_captured_v1_def marshal_payment_captured_v1_def json_simps)

lemma payment_failed_v1_wire [wire]:
  "marshal_payment_failed_v1 e = Inr j \<Longrightarrow>
   unmarshal_payment_failed_v1 j = Inr (e\<lparr>pfv_order_id := utf8_fix (pfv_order_id e), pfv_reason := utf8_fix (pfv_reason e)\<rparr>)"
  by (cases e) (auto simp: unmarshal_payment_failed_v1_def marshal_payment_failed_v1_def json_simps)

lemma payment_refunded_v1_wire [wire]:
  "marshal_payment_refunded_v1 e = Inr j \<Longrightarrow>
   unmarshal_payment_refunded_v1 j = Inr (e\<lparr>prv_order_id := utf8_fix (prv_order_id e)\<rparr>)"
  by (cases e) (auto simp: unmarshal_payment_refunded_v1_def marshal_payment_refunded_v1_def json_simps)

lemma stock_reserved_v1_wire [wire]:
  "in_int64 (srv_qty e) \<Longrightarrow> marshal_stock_reserved_v1 e = Inr j \<Longrightarrow>
   unmarshal_stock_reserved_v1 j = Inr (e\<lparr>srv_order_id := utf8_fix (srv_order_id e)\<rparr>)"
  by (cases e) (auto simp: unmarshal_stock_reserved_v1_def marshal_stock_reserved_v1_def json_simps)

lemma stock_rejected_v1_wire [wire]:
  "marshal_stock_rejected_v1 e = Inr j \<Longrightarrow>
   unmarshal_stock_rejected_v1 j = Inr (e\<lparr>sjv_order_id := utf8_fix (sjv_order_id e), sjv_reason := utf8_fix (sjv_reason e)\<rparr>)"
  by (cases e) (auto simp: unmarshal_stock_rejected_v1_def marshal_stock_rejected_v1_def json_simps)

lemma shipment_dispatched_v1_wire [wire]:
  "marshal_shipment_dispatched_v1 e = Inr j \<Longrightarrow>
   unmarshal_shipment_dispatched_v1 j = Inr (e\<lparr>sdv_order_id := utf8_fix (sdv_order_id e)\<rparr>)"
  by (cases e) (auto simp: unmarshal_shipment_dispatched_v1_def marshal_shipment_dispatched_v1_def json_simps)

lemma capture_payment_cmd_wire [wire]:
  "in_int64 (cpc_cents e) \<Longrightarrow> marshal_capture_payment_cmd e = Inr j \<Longrightarrow>
   unmarshal_capture_payment_cmd j = Inr (e\<lparr>cpc_order_id := utf8_fix (cpc_order_id e)\<rparr>)"
  by (cases e) (auto simp: unmarshal_capture_payment_cmd_def marshal_capture_payment_cmd_def json_simps)

lemma refund_payment_cmd_wire [wire]:
  "marshal_refund_payment_cmd e = Inr j \<Longrightarrow>
   unmarshal_refund_payment_cmd j = Inr (e\<lparr>rpc_order_id := utf8_fix (rpc_order_id e)\<rparr>)"
  by (cases e) (auto simp: unmarshal_refund_payment_cmd_def marshal_refund_payment_cmd_def json_simps)

lemma reserve_stock_cmd_wire [wire]:
  "in_int64 (rsc_qty e) \<Longrightarrow> marshal_reserve_stock_cmd e = Inr j \<Longrightarrow>
   unmarshal_reserve_stock_cmd j = Inr (e\<lparr>rsc_order_id := utf8_fix (rsc_order_id e)\<rparr>)"
  by (cases e) (auto simp: unmarshal_reserve_stock_cmd_def marshal_reserve_stock_cmd_def json_simps)

lemma create_shipment_cmd_wire [wire]:
  "marshal_create_shipment_cmd e = Inr j \<Longrightarrow>
   unmarshal_create_shipment_cmd j = Inr (e\<lparr>csc_order_id := utf8_fix (csc_order_id e)\<rparr>)"
  by (cases e) (auto simp: unmarshal_create_shipment_cmd_def marshal_create_shipment_cmd_def json_simps)

end
