(* ===== verification/Decider.thy ===== *)
theory Decider
  imports Repository
begin

text \<open>
  Command handlers of the shape all services share: load an aggregate, decide, save. The
  interleavings of any number of such handlers over one store are a step relation: what a
  handler decided on is kept as an attempt, which may be saved at any later time, after any
  number of other saves, more than once, or never. The locale states what a decision function
  owes to the invariant of its streams; optimistic concurrency then gives the invariant for
  every reachable store.
\<close>

section \<open>Handlers and attempts\<close>

type_synonym ('s, 'e, 'c) decision = "'c \<Rightarrow> ('s, 'e) aggregate res \<Rightarrow> gerr option + ('s, 'e) aggregate"

definition serve ::
  "('w, 'p, 'e, 's) repository \<Rightarrow> metadata \<Rightarrow> ('s, 'e, 'c) decision \<Rightarrow> ('c \<Rightarrow> string) \<Rightarrow> 'w \<Rightarrow> 'c
   \<Rightarrow> 'w \<times> gerr option" where
  "serve rp md decide key w c =
     (case repo_load rp w (key c) of
        (w1, lr) \<Rightarrow>
          (case decide c lr of
             Inl r \<Rightarrow> (w1, r)
           | Inr a \<Rightarrow> (case repo_save rp md None w1 (key c) a of (w2, pos, a2, err) \<Rightarrow> (w2, err))))"

text \<open>The repository over the in-memory store, at the time \<open>now\<close>.\<close>

definition rp_at ::
  "('p mem_store, 'p, 'e, 's) repository \<Rightarrow> instant \<Rightarrow> ('p mem_store, 'p, 'e, 's) repository" where
  "rp_at rp now = rp\<lparr>rp_store := mem_ops now\<rparr>"

lemma rp_at_simps [simp]:
  "rp_store (rp_at rp now) = mem_ops now" "rp_registry (rp_at rp now) = rp_registry rp"
  "rp_category (rp_at rp now) = rp_category rp" "rp_zero (rp_at rp now) = rp_zero rp"
  "rp_name (rp_at rp now) = rp_name rp" "rp_apply (rp_at rp now) = rp_apply rp"
  "rp_marshal (rp_at rp now) = rp_marshal rp" "rp_stream (rp_at rp now) aid = rp_stream rp aid"
  by (simp_all add: rp_at_def rp_stream_def)

lemma encode_all_rp_at [simp]: "encode_all (rp_at rp now) md es = encode_all rp md es"
  by (induction es) (auto split: sum.splits)

inductive served ::
  "('p mem_store, 'p, 'e, 's) repository \<Rightarrow> ('s, 'e, 'c) decision \<Rightarrow> ('c \<Rightarrow> string) \<Rightarrow> ('c \<Rightarrow> bool)
   \<Rightarrow> 'p mem_store \<Rightarrow> (string \<times> ('s, 'e) aggregate) set \<Rightarrow> bool"
  for rp decide key ok where
  start: "mem_inv w \<Longrightarrow> \<forall>r\<in>set (ms_all w). si_category (rec_stream r) \<noteq> rp_category rp \<Longrightarrow>
    served rp decide key ok w {}"
| decides: "served rp decide key ok w A \<Longrightarrow> ok c \<Longrightarrow>
    decide c (snd (repo_load (rp_at rp now) w (key c))) = Inr a \<Longrightarrow>
    served rp decide key ok w (insert (key c, a) A)"
| saves: "served rp decide key ok w A \<Longrightarrow> (aid, a) \<in> A \<Longrightarrow>
    repo_save (rp_at rp now) md None w aid a = (w', pos, a', err) \<Longrightarrow> served rp decide key ok w' A"
| others: "served rp decide key ok w A \<Longrightarrow> si_category st \<noteq> rp_category rp \<Longrightarrow>
    mem_append now w st v evs = (w', r) \<Longrightarrow> served rp decide key ok w' A"

text \<open>A handler's run is one way through the relation.\<close>

lemma served_serve:
  assumes "served rp decide key ok w A" "ok c" "serve (rp_at rp now) md decide key w c = (w', err)"
  shows "\<exists>A'. served rp decide key ok w' A'"
proof -
  obtain lr where l: "repo_load (rp_at rp now) w (key c) = (w, lr)"
    by (simp add: repo_load_def mem_ops_def)
  show ?thesis
  proof (cases "decide c lr")
    case (Inl r)
    with l assms show ?thesis by (auto simp: serve_def)
  next
    case (Inr a)
    with l have "served rp decide key ok w (insert (key c, a) A)"
      by (intro served.decides[where now = now, OF assms(1,2)]) simp
    moreover obtain pos a2 where "repo_save (rp_at rp now) md None w (key c) a = (w', pos, a2, err)"
      using assms(3) l Inr by (auto simp: serve_def split: prod.splits)
    ultimately show ?thesis using served.saves by blast
  qed
qed

section \<open>What decisions owe to their streams\<close>

text \<open>\<open>norm\<close> is what saving and loading make of an event, where it can be encoded at all.\<close>

definition stores :: "('w, 'p, 'e, 's) repository \<Rightarrow> ('e \<Rightarrow> 'e) \<Rightarrow> 'e \<Rightarrow> bool" where
  "stores rp norm e \<longleftrightarrow> (\<forall>d rec md. encode (rp_name rp) (rp_marshal rp) (rp_registry rp) e = Inr d \<longrightarrow>
     ed_of rec = d\<lparr>ed_meta := md\<rparr> \<longrightarrow> decode (rp_registry rp) rec = Inr (norm e))"

lemma storesI:
  assumes "\<And>p. rp_marshal rp e = Inr p \<Longrightarrow>
      \<exists>dec. rp_registry rp (rp_name rp e) = Some \<lparr>re_decode = dec, re_upcasters = []\<rparr> \<and> dec p = Inr (norm e)"
  shows "stores rp norm e"
  unfolding stores_def
proof (intro allI impI)
  fix d rec md
  assume e: "encode (rp_name rp) (rp_marshal rp) (rp_registry rp) e = Inr d"
    and r: "ed_of rec = d\<lparr>ed_meta := md\<rparr>"
  from e obtain ent p where p: "rp_marshal rp e = Inr p" "rp_registry rp (rp_name rp e) = Some ent"
      "d = \<lparr>ed_name = rp_name rp e, ed_schema = 1 + int (length (re_upcasters ent)), ed_payload = p,
            ed_meta = fmempty\<rparr>"
    by (auto simp: encode_ok_iff)
  from assms[OF p(1)] p(2) obtain dec where
    "ent = \<lparr>re_decode = dec, re_upcasters = []\<rparr>" "dec p = Inr (norm e)" by auto
  with p r show "decode (rp_registry rp) rec = Inr (norm e)"
    unfolding decode_lifts_iff by (auto simp: ed_of_def)
qed

text \<open>Events a save can encode; a save with any other event fails and changes nothing.\<close>

definition encodable :: "('w, 'p, 'e, 's) repository \<Rightarrow> 'e list \<Rightarrow> bool" where
  "encodable rp es \<longleftrightarrow> (\<forall>e\<in>set es. \<exists>p. rp_marshal rp e = Inr p)"

lemma encode_all_encodable: "encode_all rp md es = Inr ds \<Longrightarrow> encodable rp es"
  by (induction es arbitrary: ds) (auto simp: encodable_def encode_def split: sum.splits)

lemma decode_all_stored:
  assumes "encode_all rp md es = Inr ds" "map ed_of recs = ds" "\<forall>e\<in>set es. stores rp norm e"
  shows "decode_all (rp_registry rp) recs = Inr (map norm es)"
  using assms
proof (induction es arbitrary: ds recs)
  case (Cons e es)
  from Cons.prems(1) obtain d ds' where
    d: "encode (rp_name rp) (rp_marshal rp) (rp_registry rp) e = Inr d"
       "encode_all rp md es = Inr ds'" "ds = d\<lparr>ed_meta := md\<rparr> # ds'"
    by (auto split: sum.splits)
  with Cons.prems(2) obtain rec recs' where
    r: "recs = rec # recs'" "ed_of rec = d\<lparr>ed_meta := md\<rparr>" "map ed_of recs' = ds'" by auto
  have "decode (rp_registry rp) rec = Inr (norm e)"
    using Cons.prems(3) d(1) r(2) by (auto simp: stores_def)
  with Cons.IH[OF d(2) r(3)] Cons.prems(3) r(1) show ?case by simp
qed simp

text \<open>Saving one event at the stream's version.\<close>

lemma save_one:
  assumes "mem_inv w" "agg_pending a = [e]" "agg_version a = stream_version (ms_all w) (rp_stream rp aid)"
    and "rp_registry rp (rp_name rp e) \<noteq> None" "rp_marshal rp e = Inr p" "stores rp norm e"
    and "repo_save (rp_at rp now) md None w aid a = (w', pos, a', err)"
  shows "err = None \<and> mem_inv w' \<and> (\<exists>rec. ms_all w' = ms_all w @ [rec] \<and> rec_stream rec = rp_stream rp aid \<and>
    rec_meta rec = md \<and> decode (rp_registry rp) rec = Inr (norm e))"
proof -
  from assms(4,5) obtain d where
    d: "encode (rp_name rp) (rp_marshal rp) (rp_registry rp) e = Inr d"
    by (auto simp: encode_def schema_version_def)
  obtain w1 new where a: "mem_append now w (rp_stream rp aid) (agg_version a) [d\<lparr>ed_meta := md\<rparr>] =
        (w1, Inr (last_pos rec_seq (ms_all w1)))"
      "ms_all w1 = ms_all w @ new" "appended (rp_stream rp aid) [d\<lparr>ed_meta := md\<rparr>] new" "mem_inv w1"
    using mem_append_ok[OF assms(1) _ assms(3)[symmetric], of "[d\<lparr>ed_meta := md\<rparr>]" now] by blast
  from a(3) obtain rec where new: "new = [rec]" "ed_of rec = d\<lparr>ed_meta := md\<rparr>" "rec_stream rec = rp_stream rp aid"
    by (auto simp: appended_def)
  have "rec_meta rec = md" using arg_cong[OF new(2), of ed_meta] by (simp add: ed_of_def)
  moreover have "decode (rp_registry rp) rec = Inr (norm e)"
    using assms(6) d new(2) by (auto simp: stores_def)
  moreover have "w' = w1" "err = None"
    using assms(2,7) d a(1) by (simp_all add: repo_save_def uncommitted_events_def mem_ops_def)
  ultimately show ?thesis using a(2,4) new by simp
qed

text \<open>The store has grown by one record of the stream, which decodes to the event.\<close>

definition appends_event ::
  "('p, 'e) registry \<Rightarrow> stream_id \<Rightarrow> 'e \<Rightarrow> 'p mem_store \<Rightarrow> 'p mem_store \<Rightarrow> bool" where
  "appends_event reg st e w w' \<longleftrightarrow> mem_inv w' \<and>
     (\<exists>rec. ms_all w' = ms_all w @ [rec] \<and> rec_stream rec = st \<and> decode reg rec = Inr e)"

text \<open>What a load answers for a stream whose events are \<open>es\<close>.\<close>

definition loaded :: "('w, 'p, 'e, 's) repository \<Rightarrow> 'e list \<Rightarrow> ('s, 'e) aggregate res \<Rightarrow> bool" where
  "loaded rp es lr \<longleftrightarrow>
     (if es = [] then \<exists>err. lr = Inl err \<and> errors_is err ErrNotFound
      else \<exists>a. lr = Inr a \<and> rehydrate (rp_name rp) (rp_apply rp) (new_aggregate (rp_zero rp)) es = (a, None))"

locale decider =
  fixes rp :: "('p mem_store, 'p, 'e, 's) repository"
    and decide :: "('s, 'e, 'c) decision"
    and key :: "'c \<Rightarrow> string"
    and ok :: "'c \<Rightarrow> bool"
    and norm :: "'e \<Rightarrow> 'e"
    and J :: "string \<Rightarrow> 'e list \<Rightarrow> bool"
  assumes J_Nil: "J aid []"
    and J_replays: "J aid es \<Longrightarrow> \<exists>s. replay (rp_apply rp) (rp_zero rp) es = Some s"
    and decide_J: "ok c \<Longrightarrow> J (key c) es \<Longrightarrow> loaded rp es lr \<Longrightarrow> decide c lr = Inr a \<Longrightarrow>
          0 \<le> agg_version a \<and> agg_version a \<le> int (length es) \<and>
          (\<forall>e\<in>set (agg_pending a). stores rp norm e) \<and>
          (encodable rp (agg_pending a) \<longrightarrow>
           J (key c) (take (nat (agg_version a)) es @ map norm (agg_pending a)))"
begin

definition stream_of :: "'p mem_store \<Rightarrow> string \<Rightarrow> 'e list \<Rightarrow> bool" where
  "stream_of w aid es \<longleftrightarrow> decode_all (rp_registry rp) (stream_recs (ms_all w) (rp_stream rp aid)) = Inr es"

definition attempt_ok :: "string \<Rightarrow> ('s, 'e) aggregate \<Rightarrow> 'e list \<Rightarrow> bool" where
  "attempt_ok aid a es \<longleftrightarrow> 0 \<le> agg_version a \<and> agg_version a \<le> int (length es) \<and>
     (\<forall>e\<in>set (agg_pending a). stores rp norm e) \<and>
     (encodable rp (agg_pending a) \<longrightarrow> J aid (take (nat (agg_version a)) es @ map norm (agg_pending a)))"

definition served_inv :: "'p mem_store \<Rightarrow> (string \<times> ('s, 'e) aggregate) set \<Rightarrow> bool" where
  "served_inv w A \<longleftrightarrow> mem_inv w \<and> (\<forall>aid. \<exists>es. stream_of w aid es \<and> J aid es) \<and>
     (\<forall>aid a es. (aid, a) \<in> A \<longrightarrow> stream_of w aid es \<longrightarrow> attempt_ok aid a es)"

lemma attempt_ok_grow: "attempt_ok aid a es \<Longrightarrow> attempt_ok aid a (es @ new)"
  by (auto simp: attempt_ok_def)

lemma served_inv_J: "served_inv w A \<Longrightarrow> stream_of w aid es \<Longrightarrow> J aid es"
  unfolding served_inv_def stream_of_def by (metis sum.inject(2))

text \<open>A load of a stream that keeps the invariant answers as \<open>loaded\<close> says.\<close>

lemma load_loaded:
  assumes "mem_inv w" "stream_of w aid es" "J aid es"
  shows "loaded rp es (snd (repo_load (rp_at rp now) w aid))"
proof -
  have recs: "mem_load w (rp_stream rp aid) 0 = stream_recs (ms_all w) (rp_stream rp aid)"
    using assms(1) mem_inv_wf[of w] by (simp add: mem_load_spec load_spec_all)
  have len: "length es = length (stream_recs (ms_all w) (rp_stream rp aid))"
    using assms(2) decode_all_length by (fastforce simp: stream_of_def)
  show ?thesis
  proof (cases "es = []")
    case True
    with len recs show ?thesis by (simp add: loaded_def repo_load_def mem_ops_def)
  next
    case False
    from J_replays[OF assms(3)] obtain s where
      "replay (rp_apply rp) (rp_zero rp) es = Some s" by blast
    then have "replay (rp_apply rp) (agg_state (new_aggregate (rp_zero rp) :: ('s, 'e) aggregate)) es = Some s"
      by (simp add: new_aggregate_def)
    note reh = rehydrate_replay[OF this, of "rp_name rp"]
    have "stream_recs (ms_all w) (rp_stream rp aid) \<noteq> []" using False len by auto
    with False recs assms(2) reh show ?thesis
      by (simp add: loaded_def repo_load_def mem_ops_def stream_of_def)
  qed
qed

lemma load_answers:
  assumes "mem_inv w" "J aid es" "rp' = rp_at rp now"
    and "decode_all (rp_registry rp) (stream_recs (ms_all w) (rp_stream rp aid)) = Inr es"
    and "repo_load rp' w aid = (w', lr)"
  shows "w' = w \<and> loaded rp' es lr"
proof -
  have "w' = w" using assms(3,5) by (simp add: repo_load_def mem_ops_def)
  moreover have "loaded rp es lr"
    using load_loaded[OF assms(1) _ assms(2), of now] assms(3-5) by (simp add: stream_of_def)
  ultimately show ?thesis using assms(3) by (simp add: loaded_def)
qed

lemma served_inv_decides:
  assumes "served_inv w A" "ok c" "decide c (snd (repo_load (rp_at rp now) w (key c))) = Inr a"
  shows "served_inv w (insert (key c, a) A)"
proof -
  have "attempt_ok (key c) a es" if es: "stream_of w (key c) es" for es
  proof -
    have "J (key c) es" by (rule served_inv_J[OF assms(1) es])
    with decide_J[OF assms(2) this load_loaded assms(3)] es assms(1) show ?thesis
      by (simp add: attempt_ok_def served_inv_def)
  qed
  with assms(1) show ?thesis by (auto simp: served_inv_def)
qed

text \<open>Streams other than the one written keep what they hold.\<close>

lemma served_inv_append:
  assumes "served_inv w A" "mem_inv w'" "ms_all w' = ms_all w @ new" "\<forall>r\<in>set new. rec_stream r = st"
    and "\<And>aid. rp_stream rp aid = st \<Longrightarrow> \<exists>es es'. stream_of w aid es \<and>
           decode_all (rp_registry rp) new = Inr es' \<and> J aid (es @ es')"
  shows "served_inv w' A"
proof -
  have grow: "\<exists>es'. stream_of w' aid (es @ es') \<and> J aid (es @ es')" if es: "stream_of w aid es" for aid es
  proof (cases "rp_stream rp aid = st")
    case True
    then have "stream_recs (ms_all w') (rp_stream rp aid) = stream_recs (ms_all w) (rp_stream rp aid) @ new"
      using assms(3,4) by (simp add: stream_recs_def filter_True)
    with es assms(5)[OF True] show ?thesis
      by (auto simp: stream_of_def decode_all_append)
  next
    case False
    then have "stream_recs new (rp_stream rp aid) = []"
      using assms(4) by (auto simp: stream_recs_def filter_empty_conv)
    then have "stream_of w' aid es" using es assms(3) by (simp add: stream_of_def stream_recs_append)
    moreover have "J aid es" by (rule served_inv_J[OF assms(1) es])
    ultimately show ?thesis by (intro exI[of _ "[]"]) simp
  qed
  have "attempt_ok aid a es" if "(aid, a) \<in> A" "stream_of w' aid es" for aid a es
  proof -
    obtain es0 where es0: "stream_of w aid es0" using assms(1) unfolding served_inv_def by blast
    from grow[OF es0] obtain es' where "stream_of w' aid (es0 @ es')" by blast
    with that(2) have "es = es0 @ es'" by (simp add: stream_of_def)
    with assms(1) that(1) es0 show ?thesis by (auto simp: served_inv_def intro: attempt_ok_grow)
  qed
  moreover have "\<exists>es. stream_of w' aid es \<and> J aid es" for aid
  proof -
    obtain es0 where "stream_of w aid es0" using assms(1) unfolding served_inv_def by blast
    from grow[OF this] show ?thesis by blast
  qed
  ultimately show ?thesis using assms(2) by (simp add: served_inv_def)
qed

lemma served_inv_saves:
  assumes "served_inv w A" "(aid, a) \<in> A" "repo_save (rp_at rp now) md None w aid a = (w', pos, a', err)"
  shows "served_inv w' A"
proof (cases "agg_pending a = [] \<or> w' = w")
  case True
  with assms show ?thesis by (auto simp: repo_save_def uncommitted_events_def)
next
  case False
  have inv: "mem_inv w" using assms(1) by (simp add: served_inv_def)
  obtain es where es: "stream_of w aid es" using assms(1) unfolding served_inv_def by blast
  then have at: "attempt_ok aid a es" using assms(1,2) by (auto simp: served_inv_def)
  have len: "int (length es) = stream_version (ms_all w) (rp_stream rp aid)"
    using es decode_all_length by (fastforce simp: stream_of_def stream_version_def)
  from False assms(3) obtain data where
    d: "encode_all rp md (agg_pending a) = Inr data"
    by (auto simp: repo_save_def uncommitted_events_def split: sum.splits)
  have ne: "data \<noteq> []" using encode_all_length[OF d] False by auto
  have v: "stream_version (ms_all w) (rp_stream rp aid) = agg_version a"
  proof (rule ccontr)
    assume "\<not> ?thesis"
    from mem_append_conflict[OF inv ne this, of now] assms(3) d False show False
      by (auto simp: repo_save_def uncommitted_events_def mem_ops_def)
  qed
  from mem_append_ok[OF inv ne v, of now] assms(3) d False obtain new where
    new: "ms_all w' = ms_all w @ new" "appended (rp_stream rp aid) data new" "mem_inv w'"
    by (auto simp: repo_save_def uncommitted_events_def mem_ops_def)
  have dec: "decode_all (rp_registry rp) new = Inr (map norm (agg_pending a))"
    using decode_all_stored[OF d] new(2) at by (simp add: appended_def attempt_ok_def)
  have "J aid (es @ map norm (agg_pending a))" using at len v encode_all_encodable[OF d] by (simp add: attempt_ok_def)
  moreover have "aid' = aid" if "rp_stream rp aid' = rp_stream rp aid" for aid'
    using that by (simp add: rp_stream_def)
  ultimately show ?thesis
    using new es dec by (intro served_inv_append[OF assms(1) new(3,1)]) (auto simp: appended_def)
qed

lemma served_inv_others:
  assumes "served_inv w A" "si_category st \<noteq> rp_category rp" "mem_append now w st v evs = (w', r)"
  shows "served_inv w' A"
proof -
  have inv: "mem_inv w" using assms(1) by (simp add: served_inv_def)
  consider "w' = w" | "evs \<noteq> []" "stream_version (ms_all w) st = v"
    using assms(3) mem_append_conflict[OF inv, of evs st v now] by (cases "evs = []") auto
  then show ?thesis
  proof cases
    case 2
    from mem_append_ok[OF inv 2, of now] assms(3) obtain new where
      new: "ms_all w' = ms_all w @ new" "appended st evs new" "mem_inv w'" by auto
    have "rp_stream rp aid \<noteq> st" for aid using assms(2) by (auto simp: rp_stream_def)
    with new show ?thesis
      by (intro served_inv_append[OF assms(1) new(3,1)]) (auto simp: appended_def)
  qed (use assms(1) in simp)
qed

lemma served_served_inv: "served rp decide key ok w A \<Longrightarrow> served_inv w A"
proof (induction rule: served.induct)
  case (start w)
  then have "stream_recs (ms_all w) (rp_stream rp aid) = []" for aid
    by (auto simp: stream_recs_def filter_empty_conv rp_stream_def)
  with start J_Nil show ?case by (simp add: served_inv_def stream_of_def)
next
  case (decides w A c now a)
  then show ?case by (blast intro: served_inv_decides)
next
  case (saves w A aid a now md w' pos a' err)
  then show ?case by (blast intro: served_inv_saves)
next
  case (others w A st now v evs w' r)
  then show ?case by (blast intro: served_inv_others)
qed

lemma serve_loads:
  assumes "mem_inv w" "stream_of w (key c) es" "J (key c) es"
  obtains lr where "loaded rp es lr" "serve (rp_at rp now) md decide key w c = (case decide c lr of
      Inl r \<Rightarrow> (w, r) | Inr a \<Rightarrow> (case repo_save (rp_at rp now) md None w (key c) a of (w2, pos, a2, err) \<Rightarrow> (w2, err)))"
proof -
  obtain lr where l: "repo_load (rp_at rp now) w (key c) = (w, lr)" by (simp add: repo_load_def mem_ops_def)
  with load_loaded[OF assms, of now] have "loaded rp es lr" by simp
  with l that show thesis by (simp add: serve_def)
qed

text \<open>A decision for one event, on a stream nobody else writes to meanwhile, is saved.\<close>

lemma serve_one:
  assumes "mem_inv w" "stream_of w (key c) es" "J (key c) es"
    and "\<And>lr. loaded rp es lr \<Longrightarrow> \<exists>a. decide c lr = Inr a \<and> agg_pending a = [e] \<and> agg_version a = int (length es)"
    and "rp_registry rp (rp_name rp e) \<noteq> None" "rp_marshal rp e = Inr p" "stores rp norm e"
  shows "\<exists>w'. serve (rp_at rp now) md decide key w c = (w', None) \<and>
    appends_event (rp_registry rp) (rp_stream rp (key c)) (norm e) w w'"
proof -
  from serve_loads[OF assms(1-3), of now md] obtain lr where lr: "loaded rp es lr"
    "serve (rp_at rp now) md decide key w c = (case decide c lr of
      Inl r \<Rightarrow> (w, r) | Inr a \<Rightarrow> (case repo_save (rp_at rp now) md None w (key c) a of (w2, pos, a2, err) \<Rightarrow> (w2, err)))" by blast
  from assms(4)[OF lr(1)] obtain a where a: "decide c lr = Inr a" "agg_pending a = [e]" "agg_version a = int (length es)" by blast
  have len: "int (length es) = stream_version (ms_all w) (rp_stream rp (key c))"
    using assms(2) decode_all_length by (fastforce simp: stream_of_def stream_version_def)
  obtain w' pos a2 err where sv: "repo_save (rp_at rp now) md None w (key c) a = (w', pos, a2, err)"
    by (cases "repo_save (rp_at rp now) md None w (key c) a") auto
  from save_one[OF assms(1) a(2) a(3)[unfolded len] assms(5-7) sv] lr(2) a(1) sv show ?thesis
    by (auto simp: appends_event_def)
qed

text \<open>A decision for nothing leaves the store alone.\<close>

lemma serve_none:
  assumes "mem_inv w" "stream_of w (key c) es" "J (key c) es" "\<And>lr. loaded rp es lr \<Longrightarrow> \<exists>r. decide c lr = Inl r \<and> P r"
  shows "\<exists>r. serve (rp_at rp now) md decide key w c = (w, r) \<and> P r"
proof -
  from serve_loads[OF assms(1-3), of now md] obtain lr where lr: "loaded rp es lr"
    "serve (rp_at rp now) md decide key w c = (case decide c lr of
      Inl r \<Rightarrow> (w, r) | Inr a \<Rightarrow> (case repo_save (rp_at rp now) md None w (key c) a of (w2, pos, a2, err) \<Rightarrow> (w2, err)))" by blast
  from assms(4)[OF lr(1)] obtain r where "decide c lr = Inl r" "P r" by blast
  with lr(2) show ?thesis by simp
qed

lemma stream_of_append:
  assumes "stream_of w aid es" "ms_all w' = ms_all w @ [rec]" "rec_stream rec = rp_stream rp aid" "decode (rp_registry rp) rec = Inr e"
  shows "stream_of w' aid (es @ [e])"
  using assms by (simp add: stream_of_def stream_recs_append decode_all_append) (simp add: stream_recs_def)

text \<open>What the services state: every stream of theirs decodes to a history with the invariant.\<close>

lemma served_history:
  assumes "served rp decide key ok w A"
  shows "\<exists>es. decode_all (rp_registry rp) (stream_recs (ms_all w) (rp_stream rp aid)) = Inr es \<and> J aid es"
  using served_served_inv[OF assms] by (auto simp: served_inv_def stream_of_def)

end

end
