(* ===== verification/Billing.thy ===== *)
theory Billing
  imports Contracts Decider Relay
begin

text \<open>
  The billing service (\<open>gohex-example/billing/internal\<close>): the Payment aggregate and its events
  (\<open>domain/payment.go\<close>), the replay-safe command handlers and the registrations
  (\<open>app/app.go\<close>).
\<close>

section \<open>The Payment aggregate\<close>

definition CaptureLimitCents :: int where
  "CaptureLimitCents = 99999"

definition ErrNotCaptured :: gerr where
  "ErrNotCaptured = new_domain_error ''not_captured'' ''the payment was never captured''"

definition ErrAlreadyRefunded :: gerr where
  "ErrAlreadyRefunded = new_domain_error ''already_refunded'' ''the payment is already refunded''"

definition BillingErrInvalidAmount :: gerr where
  "BillingErrInvalidAmount = new_domain_error ''invalid_amount'' ''amount must be positive''"

record amount =
  am_cents :: int

definition new_amount :: "int \<Rightarrow> amount res" where
  "new_amount cents = (if cents \<le> 0 then Inl BillingErrInvalidAmount else Inr \<lparr>am_cents = cents\<rparr>)"

text \<open>The events of the context; \<open>OtherPaymentEvent\<close> is any other event, by its name.\<close>

datatype payment_event =
    PaymentCaptured string int
  | PaymentFailed string string
  | PaymentRefunded string
  | OtherPaymentEvent string

fun payment_event_name :: "payment_event \<Rightarrow> string" where
  "payment_event_name (PaymentCaptured oid cents) = ''billing.payment_captured''"
| "payment_event_name (PaymentFailed oid reason) = ''billing.payment_failed''"
| "payment_event_name (PaymentRefunded oid) = ''billing.payment_refunded''"
| "payment_event_name (OtherPaymentEvent n) = n"

datatype payment_status = StatusNone | StatusCaptured | StatusFailed | StatusRefunded

record payment =
  py_order :: string
  py_status :: payment_status

definition zero_payment :: payment where
  "zero_payment = \<lparr>py_order = [], py_status = StatusNone\<rparr>"

definition payment_apply :: "(payment, payment_event) applier" where
  "payment_apply p e = (case e of
     PaymentCaptured oid cents \<Rightarrow> (p\<lparr>py_order := oid, py_status := StatusCaptured\<rparr>, None)
   | PaymentFailed oid reason \<Rightarrow> (p\<lparr>py_order := oid, py_status := StatusFailed\<rparr>, None)
   | PaymentRefunded oid \<Rightarrow> (p\<lparr>py_status := StatusRefunded\<rparr>, None)
   | OtherPaymentEvent n \<Rightarrow> (p, Some (Errorf ''payment: unknown event %q'' [FStr n])))"

type_synonym payment_agg = "(payment, payment_event) aggregate"

definition payment_raise :: "payment_agg \<Rightarrow> payment_event \<Rightarrow> payment_agg \<times> gerr option" where
  "payment_raise = raise_event payment_event_name payment_apply"

definition payment_capture :: "string \<Rightarrow> amount \<Rightarrow> payment_agg res" where
  "payment_capture order amount =
     (let p = new_aggregate zero_payment in
      if CaptureLimitCents < am_cents amount then
        (case payment_raise p (PaymentFailed order ''amount exceeds capture limit'') of
           (p1, Some err) \<Rightarrow> Inl err | (p1, None) \<Rightarrow> Inr p1)
      else
        (case payment_raise p (PaymentCaptured order (am_cents amount)) of
           (p1, Some err) \<Rightarrow> Inl err | (p1, None) \<Rightarrow> Inr p1))"

definition payment_refund :: "payment_agg \<Rightarrow> payment_agg \<times> gerr option" where
  "payment_refund p = (case py_status (agg_state p) of
     StatusRefunded \<Rightarrow> (p, Some ErrAlreadyRefunded)
   | StatusCaptured \<Rightarrow> payment_raise p (PaymentRefunded (py_order (agg_state p)))
   | _ \<Rightarrow> (p, Some ErrNotCaptured))"

section \<open>Events in JSON\<close>

definition marshal_payment_event :: "payment_event \<Rightarrow> json res" where
  "marshal_payment_event e = (case e of
     PaymentCaptured oid cents \<Rightarrow> Inr (JObj [(''order_id'', jstr oid), (''cents'', JInt cents)])
   | PaymentFailed oid reason \<Rightarrow> Inr (JObj [(''order_id'', jstr oid), (''reason'', jstr reason)])
   | PaymentRefunded oid \<Rightarrow> Inr (JObj [(''order_id'', jstr oid)])
   | OtherPaymentEvent n \<Rightarrow> Inl (ErrNew ''json: unsupported type''))"

text \<open>The structs are decoded field by field, here into the constructor's arguments.\<close>

definition unmarshal_payment_captured :: "json \<Rightarrow> payment_event res" where
  "unmarshal_payment_captured j = map_sum id (\<lambda>(oid, cents). PaymentCaptured oid cents)
     (json_unmarshal (dec_struct [
        (''order_id'', dec_field fst (\<lambda>v. apfst (\<lambda>_. v)) dec_string),
        (''cents'', dec_field snd (\<lambda>v. apsnd (\<lambda>_. v)) dec_int)]) ([], 0) j)"

definition unmarshal_payment_failed :: "json \<Rightarrow> payment_event res" where
  "unmarshal_payment_failed j = map_sum id (\<lambda>(oid, reason). PaymentFailed oid reason)
     (json_unmarshal (dec_struct [
        (''order_id'', dec_field fst (\<lambda>v. apfst (\<lambda>_. v)) dec_string),
        (''reason'', dec_field snd (\<lambda>v. apsnd (\<lambda>_. v)) dec_string)]) ([], []) j)"

definition unmarshal_payment_refunded :: "json \<Rightarrow> payment_event res" where
  "unmarshal_payment_refunded j = map_sum id PaymentRefunded
     (json_unmarshal (dec_struct [(''order_id'', dec_field id (\<lambda>v _. v) dec_string)]) [] j)"

section \<open>Registrations\<close>

definition register_billing_events ::
  "(json, payment_event) registry \<Rightarrow> (json, payment_event) registry option" where
  "register_billing_events r =
     Option.bind (register ''billing.payment_captured'' unmarshal_payment_captured r) (\<lambda>r1.
     Option.bind (register ''billing.payment_failed'' unmarshal_payment_failed r1) (\<lambda>r2.
     register ''billing.payment_refunded'' unmarshal_payment_refunded r2))"

definition billing_registry :: "(json, payment_event) registry" where
  "billing_registry = the (register_billing_events new_registry)"

datatype billing_command =
    CapturePayment capture_payment_cmd
  | RefundPayment refund_payment_cmd

fun billing_command_name :: "billing_command \<Rightarrow> string" where
  "billing_command_name (CapturePayment c) = ''billing.capture_payment''"
| "billing_command_name (RefundPayment c) = ''billing.refund_payment''"

definition register_billing_commands ::
  "(json, billing_command) cmd_registry \<Rightarrow> (json, billing_command) cmd_registry option" where
  "register_billing_commands r =
     Option.bind (register_command ''billing.capture_payment''
         (\<lambda>j. map_sum id CapturePayment (unmarshal_capture_payment_cmd j)) r) (\<lambda>r1.
     register_command ''billing.refund_payment''
         (\<lambda>j. map_sum id RefundPayment (unmarshal_refund_payment_cmd j)) r1)"

text \<open>A translator is only given events that were decoded under its name.\<close>

definition register_billing_translators ::
  "('w, json, payment_event) relay \<Rightarrow> ('w, json, payment_event) relay option" where
  "register_billing_translators r =
     Option.bind (relay_add_translator ''billing.payment_captured'' (\<lambda>e. case e of
         PaymentCaptured oid cents \<Rightarrow>
           Some (payment_captured_v1_event \<lparr>pcv_order_id = oid, pcv_cents = cents\<rparr>)
       | _ \<Rightarrow> None) r) (\<lambda>r1.
     Option.bind (relay_add_translator ''billing.payment_failed'' (\<lambda>e. case e of
         PaymentFailed oid reason \<Rightarrow>
           Some (payment_failed_v1_event \<lparr>pfv_order_id = oid, pfv_reason = reason\<rparr>)
       | _ \<Rightarrow> None) r1) (\<lambda>r2.
     relay_add_translator ''billing.payment_refunded'' (\<lambda>e. case e of
         PaymentRefunded oid \<Rightarrow> Some (payment_refunded_v1_event \<lparr>prv_order_id = oid\<rparr>)
       | _ \<Rightarrow> None) r2))"

section \<open>Command handlers\<close>

type_synonym 'w payments = "('w, json, payment_event, payment) repository"

definition new_payments :: "('w, json) store_ops \<Rightarrow> (json, payment_event) registry \<Rightarrow> 'w payments" where
  "new_payments store registry =
     \<lparr>rp_store = store, rp_registry = registry, rp_category = ''payment'', rp_zero = zero_payment,
      rp_name = payment_event_name, rp_apply = payment_apply, rp_marshal = marshal_payment_event\<rparr>"

lemma new_payments_simps [simp]:
  "rp_store (new_payments st reg) = st" "rp_registry (new_payments st reg) = reg"
  "rp_category (new_payments st reg) = ''payment''" "rp_zero (new_payments st reg) = zero_payment"
  "rp_name (new_payments st reg) = payment_event_name" "rp_apply (new_payments st reg) = payment_apply"
  "rp_marshal (new_payments st reg) = marshal_payment_event"
  "rp_stream (new_payments st reg) aid = \<lparr>si_category = ''payment'', si_id = aid\<rparr>"
  by (simp_all add: new_payments_def rp_stream_def)

lemma new_payments_at [simp]: "rp_at (new_payments st reg) now = new_payments (mem_ops now) reg"
  by (simp add: rp_at_def new_payments_def)

text \<open>No position is captured in a consumer's context; \<open>md\<close> is the context's metadata.\<close>

definition capture_payment ::
  "'w payments \<Rightarrow> metadata \<Rightarrow> 'w \<Rightarrow> capture_payment_cmd \<Rightarrow> 'w \<times> gerr option" where
  "capture_payment payments md w cmd =
     (case repo_load payments w (cpc_order_id cmd) of
        (w1, Inr p) \<Rightarrow> (w1, None)
      | (w1, Inl err) \<Rightarrow>
          if \<not> errors_is err ErrNotFound then (w1, Some err)
          else (case new_amount (cpc_cents cmd) of
             Inl err \<Rightarrow> (w1, Some err)
           | Inr amount \<Rightarrow>
               (case payment_capture (cpc_order_id cmd) amount of
                  Inl err \<Rightarrow> (w1, Some err)
                | Inr p \<Rightarrow>
                    (case repo_save payments md None w1 (cpc_order_id cmd) p of
                       (w2, pos, p2, err) \<Rightarrow> (w2, err)))))"

definition refund_payment ::
  "'w payments \<Rightarrow> metadata \<Rightarrow> 'w \<Rightarrow> refund_payment_cmd \<Rightarrow> 'w \<times> gerr option" where
  "refund_payment payments md w cmd =
     (case repo_load payments w (rpc_order_id cmd) of
        (w1, Inl err) \<Rightarrow> (w1, Some err)
      | (w1, Inr p) \<Rightarrow>
          (case payment_refund p of
             (p1, Some err) \<Rightarrow> if errors_is err ErrAlreadyRefunded then (w1, None) else (w1, Some err)
           | (p1, None) \<Rightarrow>
               (case repo_save payments md None w1 (rpc_order_id cmd) p1 of
                  (w2, pos, p2, err) \<Rightarrow> (w2, err))))"

text \<open>Registering wraps a handler in the assertion that the command has its type.\<close>

definition wrong_command :: gerr where
  "wrong_command = ErrNew ''panic: interface conversion''"

definition billing_register ::
  "'w payments \<Rightarrow> metadata \<Rightarrow> ('w, billing_command) bus \<Rightarrow> ('w, billing_command) bus option" where
  "billing_register payments md bus =
     Option.bind (handle_command bus ''billing.capture_payment'' (\<lambda>w c. case c of
         CapturePayment x \<Rightarrow> capture_payment payments md w x | _ \<Rightarrow> (w, Some wrong_command))) (\<lambda>b1.
     handle_command b1 ''billing.refund_payment'' (\<lambda>w c. case c of
         RefundPayment x \<Rightarrow> refund_payment payments md w x | _ \<Rightarrow> (w, Some wrong_command)))"

section \<open>The handlers as decisions\<close>

fun billing_key :: "billing_command \<Rightarrow> string" where
  "billing_key (CapturePayment c) = cpc_order_id c"
| "billing_key (RefundPayment c) = rpc_order_id c"

text \<open>Commands as Go values: the amount is a 64-bit integer.\<close>

fun billing_ok :: "billing_command \<Rightarrow> bool" where
  "billing_ok (CapturePayment c) = in_int64 (cpc_cents c)"
| "billing_ok (RefundPayment c) = True"

fun billing_decide :: "(payment, payment_event, billing_command) decision" where
  "billing_decide (CapturePayment c) lr = (case lr of
     Inr p \<Rightarrow> Inl None
   | Inl err \<Rightarrow> if \<not> errors_is err ErrNotFound then Inl (Some err)
       else (case new_amount (cpc_cents c) of
          Inl err \<Rightarrow> Inl (Some err)
        | Inr amount \<Rightarrow> (case payment_capture (cpc_order_id c) amount of
             Inl err \<Rightarrow> Inl (Some err) | Inr p \<Rightarrow> Inr p)))"
| "billing_decide (RefundPayment c) lr = (case lr of
     Inl err \<Rightarrow> Inl (Some err)
   | Inr p \<Rightarrow> (case payment_refund p of
        (p1, Some err) \<Rightarrow> Inl (if errors_is err ErrAlreadyRefunded then None else Some err)
      | (p1, None) \<Rightarrow> Inr p1))"

lemma billing_serves:
  "serve payments md billing_decide billing_key w (CapturePayment c) = capture_payment payments md w c"
  "serve payments md billing_decide billing_key w (RefundPayment c1) = refund_payment payments md w c1"
  by (auto simp: serve_def capture_payment_def refund_payment_def split: prod.splits sum.splits option.splits)

text \<open>What saving and loading make of an event: invalid UTF-8 is coerced.\<close>

fun stored_payment_event :: "payment_event \<Rightarrow> payment_event" where
  "stored_payment_event (PaymentCaptured oid cents) = PaymentCaptured (utf8_fix oid) cents"
| "stored_payment_event (PaymentFailed oid reason) = PaymentFailed (utf8_fix oid) (utf8_fix reason)"
| "stored_payment_event (PaymentRefunded oid) = PaymentRefunded (utf8_fix oid)"
| "stored_payment_event (OtherPaymentEvent n) = OtherPaymentEvent n"

text \<open>The histories a payment can have: decided once, refunded at most once and after a capture.\<close>

definition payment_history :: "string \<Rightarrow> payment_event list \<Rightarrow> bool" where
  "payment_history order es \<longleftrightarrow>
     (let o' = utf8_fix order in
      es = [] \<or> es = [PaymentFailed o' ''amount exceeds capture limit''] \<or>
      (\<exists>c. 0 < c \<and> c \<le> CaptureLimitCents \<and>
         (es = [PaymentCaptured o' c] \<or> es = [PaymentCaptured o' c, PaymentRefunded o'])))"

lemma billing_registry_entries:
  "register_billing_events new_registry = Some billing_registry"
  "billing_registry ''billing.payment_captured'' = Some \<lparr>re_decode = (\<lambda>payload. case unmarshal_payment_captured payload of
      Inl err \<Rightarrow> Inl (Wrapf ''eventstore: decoding %s: %w'' [FStr ''billing.payment_captured''] err) | Inr e \<Rightarrow> Inr e), re_upcasters = []\<rparr>"
  "billing_registry ''billing.payment_failed'' = Some \<lparr>re_decode = (\<lambda>payload. case unmarshal_payment_failed payload of
      Inl err \<Rightarrow> Inl (Wrapf ''eventstore: decoding %s: %w'' [FStr ''billing.payment_failed''] err) | Inr e \<Rightarrow> Inr e), re_upcasters = []\<rparr>"
  "billing_registry ''billing.payment_refunded'' = Some \<lparr>re_decode = (\<lambda>payload. case unmarshal_payment_refunded payload of
      Inl err \<Rightarrow> Inl (Wrapf ''eventstore: decoding %s: %w'' [FStr ''billing.payment_refunded''] err) | Inr e \<Rightarrow> Inr e), re_upcasters = []\<rparr>"
  by (simp_all add: billing_registry_def register_billing_events_def register_def new_registry_def)

lemma payment_event_stored:
  assumes "case e of PaymentCaptured oid c \<Rightarrow> in_int64 c | _ \<Rightarrow> True"
  shows "stores (new_payments ops billing_registry) stored_payment_event e"
  by (rule storesI) (use assms in \<open>cases e; auto simp: marshal_payment_event_def
      billing_registry_entries unmarshal_payment_captured_def unmarshal_payment_failed_def
      unmarshal_payment_refunded_def json_simps\<close>)

lemmas billing_domain_defs =
  payment_capture_def payment_refund_def payment_raise_def raise_event_def payment_apply_def
  new_amount_def zero_payment_def new_aggregate_def

lemma billing_decide_ok:
  assumes "billing_ok c" "payment_history (billing_key c) es"
    "loaded (new_payments ops billing_registry) es lr" "billing_decide c lr = Inr a"
  shows "0 \<le> agg_version a \<and> agg_version a \<le> int (length es) \<and>
    (\<forall>e\<in>set (agg_pending a). stores (new_payments ops billing_registry) stored_payment_event e) \<and>
    payment_history (billing_key c)
      (take (nat (agg_version a)) es @ map stored_payment_event (agg_pending a))"
proof (cases c)
  case (CapturePayment x)
  then show ?thesis
    using assms
    by (auto simp: loaded_def billing_domain_defs payment_history_def Let_def CaptureLimitCents_def is_ascii_def
        intro!: payment_event_stored split: sum.splits if_splits)
next
  case (RefundPayment x)
  from assms(3,4) RefundPayment obtain p where p: "lr = Inr p"
    "rehydrate payment_event_name payment_apply (new_aggregate zero_payment) es = (p, None)" "es \<noteq> []"
    by (auto simp: loaded_def split: if_splits)
  then show ?thesis
    using assms RefundPayment
    by (auto simp: payment_history_def Let_def rehydrate_def billing_domain_defs
        intro!: payment_event_stored) blast+
qed

lemma payment_history_replays:
  "payment_history order es \<Longrightarrow> \<exists>s. replay payment_apply zero_payment es = Some s"
  by (auto simp: payment_history_def Let_def payment_apply_def)

interpretation payments: decider "new_payments (mem_ops 0) billing_registry" billing_decide billing_key
  billing_ok stored_payment_event payment_history
proof
  fix aid show "payment_history aid []" by (simp add: payment_history_def)
next
  fix aid es assume "payment_history aid es"
  then show "\<exists>s. replay (rp_apply (new_payments (mem_ops 0) billing_registry))
      (rp_zero (new_payments (mem_ops 0) billing_registry)) es = Some s"
    by (simp add: payment_history_replays)
qed (blast dest: billing_decide_ok)

lemma capture_undecided:
  assumes "mem_inv w" "in_int64 cents" "0 < cents"
    and "decode_all billing_registry (stream_recs (ms_all w) \<lparr>si_category = ''payment'', si_id = order\<rparr>) = Inr []"
  shows "\<exists>w'. capture_payment (new_payments (mem_ops now) billing_registry) md w \<lparr>cpc_order_id = order, cpc_cents = cents\<rparr> = (w', None) \<and>
    appends_event billing_registry \<lparr>si_category = ''payment'', si_id = order\<rparr>
      (if CaptureLimitCents < cents then PaymentFailed (utf8_fix order) ''amount exceeds capture limit''
       else PaymentCaptured (utf8_fix order) cents) w w'"
proof -
  let ?c = "CapturePayment \<lparr>cpc_order_id = order, cpc_cents = cents\<rparr>"
  let ?e = "if CaptureLimitCents < cents then PaymentFailed order ''amount exceeds capture limit'' else PaymentCaptured order cents"
  have s: "payments.stream_of w (billing_key ?c) []" using assms(4) by (simp add: payments.stream_of_def)
  have d: "\<exists>a. billing_decide ?c lr = Inr a \<and> agg_pending a = [?e] \<and> agg_version a = int (length [])"
    if "loaded (new_payments (mem_ops 0) billing_registry) [] lr" for lr
    using that assms(3) by (auto simp: loaded_def billing_domain_defs)
  obtain p where p: "marshal_payment_event ?e = Inr p"
    by (cases "CaptureLimitCents < cents") (simp_all add: marshal_payment_event_def)
  have st: "stores (new_payments (mem_ops 0) billing_registry) stored_payment_event ?e"
    by (rule payment_event_stored) (use assms(2) in simp)
  have "\<exists>w'. serve (rp_at (new_payments (mem_ops 0) billing_registry) now) md billing_decide billing_key w ?c = (w', None) \<and>
      appends_event (rp_registry (new_payments (mem_ops 0) billing_registry)) (rp_stream (new_payments (mem_ops 0) billing_registry) (billing_key ?c))
        (stored_payment_event ?e) w w'"
    by (rule payments.serve_one[OF assms(1) s payments.J_Nil d _ _ st]) (auto simp: p billing_registry_entries)
  then show ?thesis by (simp add: billing_serves is_ascii_def split: if_splits)
qed

lemma refund_captured:
  assumes "mem_inv w" "payment_history order es" "es = [PaymentCaptured (utf8_fix order) c]"
    and "decode_all billing_registry (stream_recs (ms_all w) \<lparr>si_category = ''payment'', si_id = order\<rparr>) = Inr es"
  shows "\<exists>w'. refund_payment (new_payments (mem_ops now) billing_registry) md w \<lparr>rpc_order_id = order\<rparr> = (w', None) \<and>
    appends_event billing_registry \<lparr>si_category = ''payment'', si_id = order\<rparr> (PaymentRefunded (utf8_fix order)) w w'"
proof -
  let ?c = "RefundPayment \<lparr>rpc_order_id = order\<rparr>" and ?e = "PaymentRefunded (utf8_fix order)"
  have s: "payments.stream_of w (billing_key ?c) es" using assms(4) by (simp add: payments.stream_of_def)
  have d: "\<exists>a. billing_decide ?c lr = Inr a \<and> agg_pending a = [?e] \<and> agg_version a = int (length es)"
    if "loaded (new_payments (mem_ops 0) billing_registry) es lr" for lr
    using that assms(3) by (auto simp: loaded_def rehydrate_def billing_domain_defs)
  obtain p where p: "marshal_payment_event ?e = Inr p" by (simp add: marshal_payment_event_def)
  have st: "stores (new_payments (mem_ops 0) billing_registry) stored_payment_event ?e"
    by (rule payment_event_stored) simp
  have "\<exists>w'. serve (rp_at (new_payments (mem_ops 0) billing_registry) now) md billing_decide billing_key w ?c = (w', None) \<and>
      appends_event (rp_registry (new_payments (mem_ops 0) billing_registry)) (rp_stream (new_payments (mem_ops 0) billing_registry) (billing_key ?c))
        (stored_payment_event ?e) w w'"
    by (rule payments.serve_one[OF assms(1) s _ d _ _ st]) (use assms(2) in \<open>auto simp: p billing_registry_entries\<close>)
  then show ?thesis by (simp add: billing_serves)
qed

text \<open>Everything else leaves the store alone.\<close>

lemma capture_otherwise:
  assumes "mem_inv w" "payment_history order es" "es \<noteq> [] \<or> cents \<le> 0"
    and "decode_all billing_registry (stream_recs (ms_all w) \<lparr>si_category = ''payment'', si_id = order\<rparr>) = Inr es"
  shows "capture_payment (new_payments (mem_ops now) billing_registry) md w \<lparr>cpc_order_id = order, cpc_cents = cents\<rparr> =
    (w, if es \<noteq> [] then None else Some BillingErrInvalidAmount)"
proof -
  let ?c = "CapturePayment \<lparr>cpc_order_id = order, cpc_cents = cents\<rparr>"
  have s: "payments.stream_of w (billing_key ?c) es" using assms(4) by (simp add: payments.stream_of_def)
  have j: "payment_history (billing_key ?c) es" using assms(2) by simp
  have d: "\<exists>r. billing_decide ?c lr = Inl r \<and> r = (if es \<noteq> [] then None else Some BillingErrInvalidAmount)"
    if "loaded (new_payments (mem_ops 0) billing_registry) es lr" for lr
    using that assms(3) by (auto simp: loaded_def new_amount_def split: if_splits)
  from payments.serve_none[OF assms(1) s j d, of now md] show ?thesis by (simp add: billing_serves)
qed

lemma refund_otherwise:
  assumes "mem_inv w" "payment_history order es" "\<forall>c. es \<noteq> [PaymentCaptured (utf8_fix order) c]"
    and "decode_all billing_registry (stream_recs (ms_all w) \<lparr>si_category = ''payment'', si_id = order\<rparr>) = Inr es"
  shows "\<exists>r. refund_payment (new_payments (mem_ops now) billing_registry) md w \<lparr>rpc_order_id = order\<rparr> = (w, r) \<and>
    (case es of [] \<Rightarrow> \<exists>e. r = Some e \<and> errors_is e ErrNotFound | [PaymentFailed oid reason] \<Rightarrow> r = Some ErrNotCaptured | _ \<Rightarrow> r = None)"
proof -
  let ?c = "RefundPayment \<lparr>rpc_order_id = order\<rparr>"
  have s: "payments.stream_of w (billing_key ?c) es" using assms(4) by (simp add: payments.stream_of_def)
  have j: "payment_history (billing_key ?c) es" using assms(2) by simp
  have d: "\<exists>r. billing_decide ?c lr = Inl r \<and>
      (case es of [] \<Rightarrow> \<exists>e. r = Some e \<and> errors_is e ErrNotFound | [PaymentFailed oid reason] \<Rightarrow> r = Some ErrNotCaptured | _ \<Rightarrow> r = None)"
    if "loaded (new_payments (mem_ops 0) billing_registry) es lr" for lr
    using that assms(2,3) by (auto simp: payment_history_def Let_def loaded_def rehydrate_def billing_domain_defs
        ErrAlreadyRefunded_def ErrNotCaptured_def new_domain_error_def domain_error_is_def)
  from payments.serve_none[OF assms(1) s j d, of now md] show ?thesis by (simp add: billing_serves)
qed

text \<open>The store has grown by one record that decodes to the event.\<close>

definition adds_event :: "json mem_store \<Rightarrow> json mem_store \<Rightarrow> payment_event \<Rightarrow> bool" where
  "adds_event w w' e \<longleftrightarrow> (\<exists>rec. ms_all w' = ms_all w @ [rec] \<and> decode billing_registry rec = Inr e)"

section \<open>Properties\<close>

text \<open>
  C12. No order is charged twice, above the limit, or refunded without having been charged:
  whatever any number of concurrent handlers did with any commands, redelivered and retried at
  will, between other writes of the store, the payment stream of every order decodes to one of
  the allowed histories: nothing, one declined capture, one capture of 1 to 99,999 cents, or
  that capture followed by one refund.
\<close>

theorem payments_charge_at_most_once:
  assumes "served (new_payments (mem_ops 0) billing_registry) billing_decide billing_key billing_ok w A"
  shows "\<exists>es. decode_all billing_registry
      (stream_recs (ms_all w) \<lparr>si_category = ''payment'', si_id = order\<rparr>) = Inr es \<and>
    payment_history order es \<and>
    length (filter (\<lambda>e. \<exists>oid c. e = PaymentCaptured oid c) es) \<le> 1 \<and>
    (\<forall>oid c. PaymentCaptured oid c \<in> set es \<longrightarrow> 0 < c \<and> c \<le> CaptureLimitCents) \<and>
    (\<forall>oid. PaymentRefunded oid \<in> set es \<longrightarrow> (\<exists>c. hd es = PaymentCaptured oid c))"
proof -
  obtain es where es: "decode_all billing_registry
      (stream_recs (ms_all w) \<lparr>si_category = ''payment'', si_id = order\<rparr>) = Inr es" "payment_history order es"
    using payments.served_history[OF assms, of order] by auto
  from es(2) have "length (filter (\<lambda>e. \<exists>oid c. e = PaymentCaptured oid c) es) \<le> 1 \<and>
      (\<forall>oid c. PaymentCaptured oid c \<in> set es \<longrightarrow> 0 < c \<and> c \<le> CaptureLimitCents) \<and>
      (\<forall>oid. PaymentRefunded oid \<in> set es \<longrightarrow> (\<exists>c. hd es = PaymentCaptured oid c))"
    unfolding payment_history_def Let_def by (elim disjE exE conjE) simp_all
  with es show ?thesis by blast
qed


text \<open>Witness: an order of 500 cents, captured in an empty store.\<close>

definition demo_captured :: "json mem_store" where
  "demo_captured = fst (capture_payment (new_payments (mem_ops 7) billing_registry) fmempty new_mem_store
     \<lparr>cpc_order_id = ''o-1'', cpc_cents = 500\<rparr>)"

lemma demo_captured_eq: "demo_captured =
  \<lparr>ms_all = [\<lparr>rec_seq = 1, rec_stream = \<lparr>si_category = ''payment'', si_id = ''o-1''\<rparr>, rec_version = 1,
      rec_name = ''billing.payment_captured'', rec_schema = 1,
      rec_payload = JObj [(''order_id'', JStr ''o-1''), (''cents'', JInt 500)], rec_meta = fmempty, rec_at = 7\<rparr>],
   ms_streams = [\<lparr>si_category = ''payment'', si_id = ''o-1''\<rparr> \<mapsto> [0]]\<rparr>"
  by (simp add: demo_captured_def capture_payment_def repo_load_def mem_ops_def mem_load_def new_mem_store_def
      billing_domain_defs CaptureLimitCents_def repo_save_def uncommitted_events_def encode_def
      schema_version_def billing_registry_entries marshal_payment_event_def mem_append_def mem_record_def
      jstr_def is_ascii_def)

lemma demo_captured_decodes:
  "decode_all billing_registry (stream_recs (ms_all demo_captured) \<lparr>si_category = ''payment'', si_id = ''o-1''\<rparr>) =
     Inr [PaymentCaptured ''o-1'' 500]"
  by (simp add: demo_captured_eq stream_recs_def decode_def billing_registry_entries lift_loop.simps
      unmarshal_payment_captured_def json_simps in_int64_def int64_min_def int64_max_def is_ascii_def)

lemma demo_captured_inv: "mem_inv demo_captured"
  by (auto simp: demo_captured_eq mem_inv_def wf_log_def pos_log_def stream_recs_def)

theorem payments_charge_at_most_once_witness:
  "payment_history ''o-1'' [PaymentCaptured ''o-1'' 500]"
proof -
  let ?rp = "new_payments (mem_ops 0) billing_registry"
  have "served ?rp billing_decide billing_key billing_ok new_mem_store {}"
    by (rule served.start[OF mem_inv_new]) (simp add: new_mem_store_def)
  moreover have "serve (rp_at ?rp 7) fmempty billing_decide billing_key new_mem_store
      (CapturePayment \<lparr>cpc_order_id = ''o-1'', cpc_cents = 500\<rparr>) =
      (demo_captured, snd (capture_payment (new_payments (mem_ops 7) billing_registry) fmempty new_mem_store
         \<lparr>cpc_order_id = ''o-1'', cpc_cents = 500\<rparr>))"
    by (simp add: billing_serves demo_captured_def)
  ultimately obtain A where "served ?rp billing_decide billing_key billing_ok demo_captured A"
    using served_serve[of ?rp billing_decide billing_key billing_ok new_mem_store "{}"
        "CapturePayment \<lparr>cpc_order_id = ''o-1'', cpc_cents = 500\<rparr>" 7 fmempty]
    by (auto simp: in_int64_def int64_min_def int64_max_def)
  from payments_charge_at_most_once[OF this, of "''o-1''"] demo_captured_decodes show ?thesis by auto
qed


end
