(* ===== verification/Inventory.thy ===== *)
theory Inventory
  imports Contracts Decider Relay
begin

text \<open>
  The inventory service (\<open>gohex-example/inventory/internal\<close>): the Reservation aggregate
  (\<open>domain/reservation.go\<close>), its replay-safe command handler and registrations
  (\<open>app/app.go\<close>).
\<close>

section \<open>The Reservation aggregate\<close>

definition AvailableStock :: int where
  "AvailableStock = 10"

definition InventoryErrInvalidQuantity :: gerr where
  "InventoryErrInvalidQuantity = new_domain_error ''invalid_quantity'' ''quantity must be positive''"

record stock_qty =
  sq_n :: int

definition new_stock_qty :: "int \<Rightarrow> stock_qty res" where
  "new_stock_qty n = (if n \<le> 0 then Inl InventoryErrInvalidQuantity else Inr \<lparr>sq_n = n\<rparr>)"

datatype stock_event =
    StockReserved string int
  | StockRejected string string
  | OtherStockEvent string

fun stock_event_name :: "stock_event \<Rightarrow> string" where
  "stock_event_name (StockReserved oid qty) = ''inventory.stock_reserved''"
| "stock_event_name (StockRejected oid reason) = ''inventory.stock_rejected''"
| "stock_event_name (OtherStockEvent n) = n"

record reservation =
  rv_order :: string
  rv_decided :: bool

definition zero_reservation :: reservation where
  "zero_reservation = \<lparr>rv_order = [], rv_decided = False\<rparr>"

definition reservation_apply :: "(reservation, stock_event) applier" where
  "reservation_apply r e = (case e of
     StockReserved oid qty \<Rightarrow> (r\<lparr>rv_order := oid, rv_decided := True\<rparr>, None)
   | StockRejected oid reason \<Rightarrow> (r\<lparr>rv_order := oid, rv_decided := True\<rparr>, None)
   | OtherStockEvent n \<Rightarrow> (r, Some (Errorf ''reservation: unknown event %q'' [FStr n])))"

type_synonym reservation_agg = "(reservation, stock_event) aggregate"

definition reservation_raise :: "reservation_agg \<Rightarrow> stock_event \<Rightarrow> reservation_agg \<times> gerr option" where
  "reservation_raise = raise_event stock_event_name reservation_apply"

definition reservation_reserve :: "string \<Rightarrow> stock_qty \<Rightarrow> reservation_agg res" where
  "reservation_reserve order qty =
     (let r = new_aggregate zero_reservation in
      if AvailableStock < sq_n qty then
        (case reservation_raise r (StockRejected order ''insufficient stock'') of
           (r1, Some err) \<Rightarrow> Inl err | (r1, None) \<Rightarrow> Inr r1)
      else
        (case reservation_raise r (StockReserved order (sq_n qty)) of
           (r1, Some err) \<Rightarrow> Inl err | (r1, None) \<Rightarrow> Inr r1))"

section \<open>Events in JSON\<close>

definition marshal_stock_event :: "stock_event \<Rightarrow> json res" where
  "marshal_stock_event e = (case e of
     StockReserved oid qty \<Rightarrow> Inr (JObj [(''order_id'', jstr oid), (''qty'', JInt qty)])
   | StockRejected oid reason \<Rightarrow> Inr (JObj [(''order_id'', jstr oid), (''reason'', jstr reason)])
   | OtherStockEvent n \<Rightarrow> Inl (ErrNew ''json: unsupported type''))"

definition unmarshal_stock_reserved :: "json \<Rightarrow> stock_event res" where
  "unmarshal_stock_reserved j = map_sum id (\<lambda>(oid, qty). StockReserved oid qty)
     (json_unmarshal (dec_struct [
        (''order_id'', dec_field fst (\<lambda>v. apfst (\<lambda>_. v)) dec_string),
        (''qty'', dec_field snd (\<lambda>v. apsnd (\<lambda>_. v)) dec_int)]) ([], 0) j)"

definition unmarshal_stock_rejected :: "json \<Rightarrow> stock_event res" where
  "unmarshal_stock_rejected j = map_sum id (\<lambda>(oid, reason). StockRejected oid reason)
     (json_unmarshal (dec_struct [
        (''order_id'', dec_field fst (\<lambda>v. apfst (\<lambda>_. v)) dec_string),
        (''reason'', dec_field snd (\<lambda>v. apsnd (\<lambda>_. v)) dec_string)]) ([], []) j)"

section \<open>Registrations\<close>

definition register_stock_events ::
  "(json, stock_event) registry \<Rightarrow> (json, stock_event) registry option" where
  "register_stock_events r =
     Option.bind (register ''inventory.stock_reserved'' unmarshal_stock_reserved r) (\<lambda>r1.
     register ''inventory.stock_rejected'' unmarshal_stock_rejected r1)"

definition stock_registry :: "(json, stock_event) registry" where
  "stock_registry = the (register_stock_events new_registry)"

text \<open>The service consumes one command, so its commands are that type.\<close>

definition register_stock_commands ::
  "(json, reserve_stock_cmd) cmd_registry \<Rightarrow> (json, reserve_stock_cmd) cmd_registry option" where
  "register_stock_commands r = register_command ''inventory.reserve_stock'' unmarshal_reserve_stock_cmd r"

definition register_stock_translators ::
  "('w, json, stock_event) relay \<Rightarrow> ('w, json, stock_event) relay option" where
  "register_stock_translators r =
     Option.bind (relay_add_translator ''inventory.stock_reserved'' (\<lambda>e. case e of
         StockReserved oid qty \<Rightarrow> Some (stock_reserved_v1_event \<lparr>srv_order_id = oid, srv_qty = qty\<rparr>)
       | _ \<Rightarrow> None) r) (\<lambda>r1.
     relay_add_translator ''inventory.stock_rejected'' (\<lambda>e. case e of
         StockRejected oid reason \<Rightarrow> Some (stock_rejected_v1_event \<lparr>sjv_order_id = oid, sjv_reason = reason\<rparr>)
       | _ \<Rightarrow> None) r1)"

section \<open>The command handler\<close>

type_synonym 'w reservations = "('w, json, stock_event, reservation) repository"

definition new_reservations :: "('w, json) store_ops \<Rightarrow> (json, stock_event) registry \<Rightarrow> 'w reservations" where
  "new_reservations store registry =
     \<lparr>rp_store = store, rp_registry = registry, rp_category = ''reservation'', rp_zero = zero_reservation,
      rp_name = stock_event_name, rp_apply = reservation_apply, rp_marshal = marshal_stock_event\<rparr>"

lemma new_reservations_simps [simp]:
  "rp_store (new_reservations st reg) = st" "rp_registry (new_reservations st reg) = reg"
  "rp_category (new_reservations st reg) = ''reservation''" "rp_zero (new_reservations st reg) = zero_reservation"
  "rp_name (new_reservations st reg) = stock_event_name" "rp_apply (new_reservations st reg) = reservation_apply"
  "rp_marshal (new_reservations st reg) = marshal_stock_event"
  "rp_stream (new_reservations st reg) aid = \<lparr>si_category = ''reservation'', si_id = aid\<rparr>"
  by (simp_all add: new_reservations_def rp_stream_def)

lemma new_reservations_at [simp]: "rp_at (new_reservations st reg) now = new_reservations (mem_ops now) reg"
  by (simp add: rp_at_def new_reservations_def)

definition reserve_stock ::
  "'w reservations \<Rightarrow> metadata \<Rightarrow> 'w \<Rightarrow> reserve_stock_cmd \<Rightarrow> 'w \<times> gerr option" where
  "reserve_stock reservations md w cmd =
     (case repo_load reservations w (rsc_order_id cmd) of
        (w1, Inr p) \<Rightarrow> (w1, None)
      | (w1, Inl err) \<Rightarrow>
          if \<not> errors_is err ErrNotFound then (w1, Some err)
          else (case new_stock_qty (rsc_qty cmd) of
             Inl err \<Rightarrow> (w1, Some err)
           | Inr qty \<Rightarrow>
               (case reservation_reserve (rsc_order_id cmd) qty of
                  Inl err \<Rightarrow> (w1, Some err)
                | Inr r \<Rightarrow>
                    (case repo_save reservations md None w1 (rsc_order_id cmd) r of
                       (w2, pos, r2, err) \<Rightarrow> (w2, err)))))"

definition stock_register ::
  "'w reservations \<Rightarrow> metadata \<Rightarrow> ('w, reserve_stock_cmd) bus \<Rightarrow> ('w, reserve_stock_cmd) bus option" where
  "stock_register reservations md bus =
     handle_command bus ''inventory.reserve_stock'' (reserve_stock reservations md)"

section \<open>The handler as a decision\<close>

definition stock_decide :: "(reservation, stock_event, reserve_stock_cmd) decision" where
  "stock_decide c lr = (case lr of
     Inr r \<Rightarrow> Inl None
   | Inl err \<Rightarrow> if \<not> errors_is err ErrNotFound then Inl (Some err)
       else (case new_stock_qty (rsc_qty c) of
          Inl err \<Rightarrow> Inl (Some err)
        | Inr qty \<Rightarrow> (case reservation_reserve (rsc_order_id c) qty of
             Inl err \<Rightarrow> Inl (Some err) | Inr r \<Rightarrow> Inr r)))"

definition stock_ok :: "reserve_stock_cmd \<Rightarrow> bool" where
  "stock_ok c \<longleftrightarrow> in_int64 (rsc_qty c)"

lemma stock_serves: "serve reservations md stock_decide rsc_order_id w c = reserve_stock reservations md w c"
  by (auto simp: serve_def reserve_stock_def stock_decide_def split: prod.splits sum.splits)

fun stored_stock_event :: "stock_event \<Rightarrow> stock_event" where
  "stored_stock_event (StockReserved oid qty) = StockReserved (utf8_fix oid) qty"
| "stored_stock_event (StockRejected oid reason) = StockRejected (utf8_fix oid) (utf8_fix reason)"
| "stored_stock_event (OtherStockEvent n) = OtherStockEvent n"

definition reservation_history :: "string \<Rightarrow> stock_event list \<Rightarrow> bool" where
  "reservation_history order es \<longleftrightarrow>
     es = [] \<or> es = [StockRejected (utf8_fix order) ''insufficient stock''] \<or>
     (\<exists>q. 0 < q \<and> q \<le> AvailableStock \<and> es = [StockReserved (utf8_fix order) q])"

lemma stock_registry_entries:
  "register_stock_events new_registry = Some stock_registry"
  "stock_registry ''inventory.stock_reserved'' = Some \<lparr>re_decode = (\<lambda>payload. case unmarshal_stock_reserved payload of
      Inl err \<Rightarrow> Inl (Wrapf ''eventstore: decoding %s: %w'' [FStr ''inventory.stock_reserved''] err) | Inr e \<Rightarrow> Inr e), re_upcasters = []\<rparr>"
  "stock_registry ''inventory.stock_rejected'' = Some \<lparr>re_decode = (\<lambda>payload. case unmarshal_stock_rejected payload of
      Inl err \<Rightarrow> Inl (Wrapf ''eventstore: decoding %s: %w'' [FStr ''inventory.stock_rejected''] err) | Inr e \<Rightarrow> Inr e), re_upcasters = []\<rparr>"
  by (simp_all add: stock_registry_def register_stock_events_def register_def new_registry_def)

lemma stock_event_stored:
  assumes "case e of StockReserved oid q \<Rightarrow> in_int64 q | _ \<Rightarrow> True"
  shows "stores (new_reservations ops stock_registry) stored_stock_event e"
  by (rule storesI) (use assms in \<open>cases e; auto simp: marshal_stock_event_def stock_registry_entries
      unmarshal_stock_reserved_def unmarshal_stock_rejected_def json_simps\<close>)

lemmas inventory_domain_defs =
  reservation_reserve_def reservation_raise_def raise_event_def reservation_apply_def
  new_stock_qty_def zero_reservation_def new_aggregate_def

lemma stock_decide_ok:
  assumes "stock_ok c" "reservation_history (rsc_order_id c) es"
    "loaded (new_reservations ops stock_registry) es lr" "stock_decide c lr = Inr a"
  shows "0 \<le> agg_version a \<and> agg_version a \<le> int (length es) \<and>
    (\<forall>e\<in>set (agg_pending a). stores (new_reservations ops stock_registry) stored_stock_event e) \<and>
    reservation_history (rsc_order_id c)
      (take (nat (agg_version a)) es @ map stored_stock_event (agg_pending a))"
  using assms
  by (auto simp: stock_decide_def stock_ok_def loaded_def inventory_domain_defs reservation_history_def
      Let_def AvailableStock_def is_ascii_def intro!: stock_event_stored split: sum.splits if_splits)

interpretation reservations: decider "new_reservations (mem_ops 0) stock_registry" stock_decide
  rsc_order_id stock_ok stored_stock_event reservation_history
proof
  fix aid show "reservation_history aid []" by (simp add: reservation_history_def)
next
  fix aid es assume "reservation_history aid es"
  then show "\<exists>s. replay (rp_apply (new_reservations (mem_ops 0) stock_registry))
      (rp_zero (new_reservations (mem_ops 0) stock_registry)) es = Some s"
    by (auto simp: reservation_history_def reservation_apply_def)
qed (blast dest: stock_decide_ok)

section \<open>The handler on a stream\<close>

lemma reserve_undecided:
  assumes "mem_inv w" "in_int64 qty" "0 < qty"
    and "decode_all stock_registry (stream_recs (ms_all w) \<lparr>si_category = ''reservation'', si_id = order\<rparr>) = Inr []"
  shows "\<exists>w'. reserve_stock (new_reservations (mem_ops now) stock_registry) md w \<lparr>rsc_order_id = order, rsc_qty = qty\<rparr> = (w', None) \<and>
    appends_event stock_registry \<lparr>si_category = ''reservation'', si_id = order\<rparr>
      (if AvailableStock < qty then StockRejected (utf8_fix order) ''insufficient stock''
       else StockReserved (utf8_fix order) qty) w w'"
proof -
  let ?rp = "new_reservations (mem_ops 0) stock_registry" and ?c = "\<lparr>rsc_order_id = order, rsc_qty = qty\<rparr>"
  let ?e = "if AvailableStock < qty then StockRejected order ''insufficient stock'' else StockReserved order qty"
  have s: "reservations.stream_of w (rsc_order_id ?c) []" using assms(4) by (simp add: reservations.stream_of_def)
  have d: "\<exists>a. stock_decide ?c lr = Inr a \<and> agg_pending a = [?e] \<and> agg_version a = int (length [])"
    if "loaded ?rp [] lr" for lr
    using that assms(3) by (auto simp: stock_decide_def loaded_def inventory_domain_defs)
  obtain p where p: "marshal_stock_event ?e = Inr p"
    by (cases "AvailableStock < qty") (simp_all add: marshal_stock_event_def)
  have st: "stores ?rp stored_stock_event ?e"
    by (rule stock_event_stored) (use assms(2) in simp)
  have "\<exists>w'. serve (rp_at ?rp now) md stock_decide rsc_order_id w ?c = (w', None) \<and>
      appends_event (rp_registry ?rp) (rp_stream ?rp (rsc_order_id ?c)) (stored_stock_event ?e) w w'"
    by (rule reservations.serve_one[OF assms(1) s reservations.J_Nil d _ _ st]) (auto simp: p stock_registry_entries)
  then show ?thesis by (simp add: stock_serves is_ascii_def split: if_splits)
qed

lemma reserve_decided:
  assumes "mem_inv w" "reservation_history order es" "es \<noteq> []"
    and "decode_all stock_registry (stream_recs (ms_all w) \<lparr>si_category = ''reservation'', si_id = order\<rparr>) = Inr es"
  shows "reserve_stock (new_reservations (mem_ops now) stock_registry) md w \<lparr>rsc_order_id = order, rsc_qty = qty\<rparr> = (w, None)"
proof -
  let ?c = "\<lparr>rsc_order_id = order, rsc_qty = qty\<rparr>"
  have s: "reservations.stream_of w (rsc_order_id ?c) es" using assms(4) by (simp add: reservations.stream_of_def)
  have j: "reservation_history (rsc_order_id ?c) es" using assms(2) by simp
  have d: "\<exists>r. stock_decide ?c lr = Inl r \<and> r = None" if "loaded (new_reservations (mem_ops 0) stock_registry) es lr" for lr
    using that assms(3) by (auto simp: stock_decide_def loaded_def)
  from reservations.serve_none[OF assms(1) s j d, of now md] show ?thesis by (simp add: stock_serves)
qed

section \<open>Properties\<close>

text \<open>
  C14. Stock is decided once per order and never beyond what there is: whatever any number of
  concurrent handlers did with any commands, the reservation stream of every order decodes to
  nothing, one rejection, or one reservation of 1 to 10 units.
\<close>

theorem stock_decided_at_most_once:
  assumes "served (new_reservations (mem_ops 0) stock_registry) stock_decide rsc_order_id stock_ok w A"
  shows "\<exists>es. decode_all stock_registry
      (stream_recs (ms_all w) \<lparr>si_category = ''reservation'', si_id = order\<rparr>) = Inr es \<and>
    reservation_history order es \<and> length es \<le> 1 \<and>
    (\<forall>oid q. StockReserved oid q \<in> set es \<longrightarrow> oid = utf8_fix order \<and> 0 < q \<and> q \<le> AvailableStock)"
proof -
  obtain es where es: "decode_all stock_registry
      (stream_recs (ms_all w) \<lparr>si_category = ''reservation'', si_id = order\<rparr>) = Inr es" "reservation_history order es"
    using reservations.served_history[OF assms, of order] by auto
  from es(2) have "length es \<le> 1 \<and>
      (\<forall>oid q. StockReserved oid q \<in> set es \<longrightarrow> oid = utf8_fix order \<and> 0 < q \<and> q \<le> AvailableStock)"
    unfolding reservation_history_def by (elim disjE exE conjE) simp_all
  with es show ?thesis by blast
qed

text \<open>Witness: a command for 11 units in an empty store.\<close>

definition demo_reservation :: reserve_stock_cmd where
  "demo_reservation = \<lparr>rsc_order_id = ''o-1'', rsc_qty = 11\<rparr>"

definition demo_rejected :: "json mem_store" where
  "demo_rejected = fst (reserve_stock (new_reservations (mem_ops 7) stock_registry) fmempty new_mem_store demo_reservation)"

lemma demo_rejected_eq: "demo_rejected =
  \<lparr>ms_all = [\<lparr>rec_seq = 1, rec_stream = \<lparr>si_category = ''reservation'', si_id = ''o-1''\<rparr>, rec_version = 1,
      rec_name = ''inventory.stock_rejected'', rec_schema = 1,
      rec_payload = JObj [(''order_id'', JStr ''o-1''), (''reason'', JStr ''insufficient stock'')],
      rec_meta = fmempty, rec_at = 7\<rparr>],
   ms_streams = [\<lparr>si_category = ''reservation'', si_id = ''o-1''\<rparr> \<mapsto> [0]]\<rparr>"
  by (simp add: demo_rejected_def demo_reservation_def reserve_stock_def repo_load_def mem_ops_def mem_load_def
      new_mem_store_def inventory_domain_defs AvailableStock_def repo_save_def uncommitted_events_def encode_def
      schema_version_def stock_registry_entries marshal_stock_event_def mem_append_def mem_record_def
      jstr_def is_ascii_def)

theorem stock_decided_at_most_once_witness:
  "reservation_history ''o-1'' [StockRejected ''o-1'' ''insufficient stock'']"
proof -
  let ?rp = "new_reservations (mem_ops 0) stock_registry"
  have s: "served ?rp stock_decide rsc_order_id stock_ok new_mem_store {}"
    by (rule served.start[OF mem_inv_new]) (simp add: new_mem_store_def)
  have v: "serve (rp_at ?rp 7) fmempty stock_decide rsc_order_id new_mem_store demo_reservation =
      (demo_rejected, snd (reserve_stock (new_reservations (mem_ops 7) stock_registry) fmempty new_mem_store
         demo_reservation))"
    by (simp add: stock_serves demo_rejected_def)
  have k: "stock_ok demo_reservation"
    by (simp add: stock_ok_def demo_reservation_def in_int64_def int64_min_def int64_max_def)
  obtain A where "served ?rp stock_decide rsc_order_id stock_ok demo_rejected A"
    using served_serve[OF s k v] by blast
  moreover have "decode_all stock_registry
      (stream_recs (ms_all demo_rejected) \<lparr>si_category = ''reservation'', si_id = ''o-1''\<rparr>) =
      Inr [StockRejected ''o-1'' ''insufficient stock'']"
    by (simp add: demo_rejected_eq stream_recs_def decode_def stock_registry_entries lift_loop.simps
        unmarshal_stock_rejected_def json_simps is_ascii_def)
  ultimately show ?thesis using stock_decided_at_most_once[of demo_rejected A "''o-1''"] by auto
qed

end
