(* ===== verification/Shipping.thy ===== *)
theory Shipping
  imports Contracts Decider Relay
begin

text \<open>
  The shipping service (\<open>gohex-example/shipping/internal\<close>): the Shipment aggregate
  (\<open>domain/shipment.go\<close>), its replay-safe command handler and registrations (\<open>app/app.go\<close>).
\<close>

section \<open>The Shipment aggregate\<close>

datatype shipment_event =
    ShipmentDispatched string
  | OtherShipmentEvent string

fun shipment_event_name :: "shipment_event \<Rightarrow> string" where
  "shipment_event_name (ShipmentDispatched oid) = ''shipping.shipment_dispatched''"
| "shipment_event_name (OtherShipmentEvent n) = n"

record shipment =
  sh_order :: string
  sh_dispatched :: bool

definition zero_shipment :: shipment where
  "zero_shipment = \<lparr>sh_order = [], sh_dispatched = False\<rparr>"

definition shipment_apply :: "(shipment, shipment_event) applier" where
  "shipment_apply s e = (case e of
     ShipmentDispatched oid \<Rightarrow> (s\<lparr>sh_order := oid, sh_dispatched := True\<rparr>, None)
   | OtherShipmentEvent n \<Rightarrow> (s, Some (Errorf ''shipment: unknown event %q'' [FStr n])))"

type_synonym shipment_agg = "(shipment, shipment_event) aggregate"

definition shipment_create :: "string \<Rightarrow> shipment_agg res" where
  "shipment_create order =
     (case raise_event shipment_event_name shipment_apply (new_aggregate zero_shipment) (ShipmentDispatched order) of
        (s, Some err) \<Rightarrow> Inl err | (s, None) \<Rightarrow> Inr s)"

section \<open>Events in JSON and registrations\<close>

definition marshal_shipment_event :: "shipment_event \<Rightarrow> json res" where
  "marshal_shipment_event e = (case e of
     ShipmentDispatched oid \<Rightarrow> Inr (JObj [(''order_id'', jstr oid)])
   | OtherShipmentEvent n \<Rightarrow> Inl (ErrNew ''json: unsupported type''))"

definition unmarshal_shipment_dispatched :: "json \<Rightarrow> shipment_event res" where
  "unmarshal_shipment_dispatched j = map_sum id ShipmentDispatched
     (json_unmarshal (dec_struct [(''order_id'', dec_field id (\<lambda>v _. v) dec_string)]) [] j)"

definition register_shipment_events ::
  "(json, shipment_event) registry \<Rightarrow> (json, shipment_event) registry option" where
  "register_shipment_events r = register ''shipping.shipment_dispatched'' unmarshal_shipment_dispatched r"

definition shipment_registry :: "(json, shipment_event) registry" where
  "shipment_registry = the (register_shipment_events new_registry)"

definition register_shipment_commands ::
  "(json, create_shipment_cmd) cmd_registry \<Rightarrow> (json, create_shipment_cmd) cmd_registry option" where
  "register_shipment_commands r = register_command ''shipping.create_shipment'' unmarshal_create_shipment_cmd r"

definition register_shipment_translators ::
  "('w, json, shipment_event) relay \<Rightarrow> ('w, json, shipment_event) relay option" where
  "register_shipment_translators r =
     relay_add_translator ''shipping.shipment_dispatched'' (\<lambda>e. case e of
         ShipmentDispatched oid \<Rightarrow> Some (shipment_dispatched_v1_event \<lparr>sdv_order_id = oid\<rparr>)
       | _ \<Rightarrow> None) r"

section \<open>The command handler\<close>

type_synonym 'w shipments = "('w, json, shipment_event, shipment) repository"

definition new_shipments :: "('w, json) store_ops \<Rightarrow> (json, shipment_event) registry \<Rightarrow> 'w shipments" where
  "new_shipments store registry =
     \<lparr>rp_store = store, rp_registry = registry, rp_category = ''shipment'', rp_zero = zero_shipment,
      rp_name = shipment_event_name, rp_apply = shipment_apply, rp_marshal = marshal_shipment_event\<rparr>"

lemma new_shipments_simps [simp]:
  "rp_store (new_shipments st reg) = st" "rp_registry (new_shipments st reg) = reg"
  "rp_category (new_shipments st reg) = ''shipment''" "rp_zero (new_shipments st reg) = zero_shipment"
  "rp_name (new_shipments st reg) = shipment_event_name" "rp_apply (new_shipments st reg) = shipment_apply"
  "rp_marshal (new_shipments st reg) = marshal_shipment_event"
  "rp_stream (new_shipments st reg) aid = \<lparr>si_category = ''shipment'', si_id = aid\<rparr>"
  by (simp_all add: new_shipments_def rp_stream_def)

lemma new_shipments_at [simp]: "rp_at (new_shipments st reg) now = new_shipments (mem_ops now) reg"
  by (simp add: rp_at_def new_shipments_def)

definition create_shipment ::
  "'w shipments \<Rightarrow> metadata \<Rightarrow> 'w \<Rightarrow> create_shipment_cmd \<Rightarrow> 'w \<times> gerr option" where
  "create_shipment shipments md w cmd =
     (case repo_load shipments w (csc_order_id cmd) of
        (w1, Inr s) \<Rightarrow> (w1, None)
      | (w1, Inl err) \<Rightarrow>
          if \<not> errors_is err ErrNotFound then (w1, Some err)
          else (case shipment_create (csc_order_id cmd) of
             Inl err \<Rightarrow> (w1, Some err)
           | Inr s \<Rightarrow>
               (case repo_save shipments md None w1 (csc_order_id cmd) s of
                  (w2, pos, s2, err) \<Rightarrow> (w2, err))))"

definition shipment_register ::
  "'w shipments \<Rightarrow> metadata \<Rightarrow> ('w, create_shipment_cmd) bus \<Rightarrow> ('w, create_shipment_cmd) bus option" where
  "shipment_register shipments md bus =
     handle_command bus ''shipping.create_shipment'' (create_shipment shipments md)"

section \<open>The handler as a decision\<close>

definition shipment_decide :: "(shipment, shipment_event, create_shipment_cmd) decision" where
  "shipment_decide c lr = (case lr of
     Inr s \<Rightarrow> Inl None
   | Inl err \<Rightarrow> if \<not> errors_is err ErrNotFound then Inl (Some err)
       else (case shipment_create (csc_order_id c) of Inl err \<Rightarrow> Inl (Some err) | Inr s \<Rightarrow> Inr s))"

lemma shipment_serves:
  "serve shipments md shipment_decide csc_order_id w c = create_shipment shipments md w c"
  by (auto simp: serve_def create_shipment_def shipment_decide_def split: prod.splits sum.splits)

fun stored_shipment_event :: "shipment_event \<Rightarrow> shipment_event" where
  "stored_shipment_event (ShipmentDispatched oid) = ShipmentDispatched (utf8_fix oid)"
| "stored_shipment_event (OtherShipmentEvent n) = OtherShipmentEvent n"

definition shipment_history :: "string \<Rightarrow> shipment_event list \<Rightarrow> bool" where
  "shipment_history order es \<longleftrightarrow> es = [] \<or> es = [ShipmentDispatched (utf8_fix order)]"

lemma shipment_registry_entries:
  "register_shipment_events new_registry = Some shipment_registry"
  "shipment_registry ''shipping.shipment_dispatched'' = Some \<lparr>re_decode = (\<lambda>payload. case unmarshal_shipment_dispatched payload of
      Inl err \<Rightarrow> Inl (Wrapf ''eventstore: decoding %s: %w'' [FStr ''shipping.shipment_dispatched''] err) | Inr e \<Rightarrow> Inr e), re_upcasters = []\<rparr>"
  by (simp_all add: shipment_registry_def register_shipment_events_def register_def new_registry_def)

lemma shipment_event_stored: "stores (new_shipments ops shipment_registry) stored_shipment_event e"
  by (rule storesI) (cases e; auto simp: marshal_shipment_event_def shipment_registry_entries
      unmarshal_shipment_dispatched_def json_simps)

lemmas shipping_domain_defs =
  shipment_create_def raise_event_def shipment_apply_def zero_shipment_def new_aggregate_def

lemma shipment_decide_ok:
  assumes "shipment_history (csc_order_id c) es"
    "loaded (new_shipments ops shipment_registry) es lr" "shipment_decide c lr = Inr a"
  shows "0 \<le> agg_version a \<and> agg_version a \<le> int (length es) \<and>
    (\<forall>e\<in>set (agg_pending a). stores (new_shipments ops shipment_registry) stored_shipment_event e) \<and>
    shipment_history (csc_order_id c) (take (nat (agg_version a)) es @ map stored_shipment_event (agg_pending a))"
  using assms
  by (auto simp: shipment_decide_def loaded_def shipping_domain_defs shipment_history_def
      shipment_event_stored split: sum.splits if_splits)

interpretation shipments: decider "new_shipments (mem_ops 0) shipment_registry" shipment_decide
  csc_order_id "\<lambda>c. True" stored_shipment_event shipment_history
proof
  fix aid show "shipment_history aid []" by (simp add: shipment_history_def)
next
  fix aid es assume "shipment_history aid es"
  then show "\<exists>s. replay (rp_apply (new_shipments (mem_ops 0) shipment_registry))
      (rp_zero (new_shipments (mem_ops 0) shipment_registry)) es = Some s"
    by (auto simp: shipment_history_def shipment_apply_def)
qed (blast dest: shipment_decide_ok)

section \<open>The handler on a stream\<close>

lemma ship_undispatched:
  assumes "mem_inv w"
    and "decode_all shipment_registry (stream_recs (ms_all w) \<lparr>si_category = ''shipment'', si_id = order\<rparr>) = Inr []"
  shows "\<exists>w'. create_shipment (new_shipments (mem_ops now) shipment_registry) md w \<lparr>csc_order_id = order\<rparr> = (w', None) \<and>
    appends_event shipment_registry \<lparr>si_category = ''shipment'', si_id = order\<rparr> (ShipmentDispatched (utf8_fix order)) w w'"
proof -
  let ?rp = "new_shipments (mem_ops 0) shipment_registry" and ?c = "\<lparr>csc_order_id = order\<rparr>" and ?e = "ShipmentDispatched order"
  have s: "shipments.stream_of w (csc_order_id ?c) []" using assms(2) by (simp add: shipments.stream_of_def)
  have d: "\<exists>a. shipment_decide ?c lr = Inr a \<and> agg_pending a = [?e] \<and> agg_version a = int (length [])"
    if "loaded ?rp [] lr" for lr
    using that by (auto simp: shipment_decide_def loaded_def shipping_domain_defs)
  have "\<exists>w'. serve (rp_at ?rp now) md shipment_decide csc_order_id w ?c = (w', None) \<and>
      appends_event (rp_registry ?rp) (rp_stream ?rp (csc_order_id ?c)) (stored_shipment_event ?e) w w'"
    by (rule shipments.serve_one[OF assms(1) s shipments.J_Nil d _ _ shipment_event_stored])
       (auto simp: marshal_shipment_event_def shipment_registry_entries)
  then show ?thesis by (simp add: shipment_serves)
qed

lemma ship_dispatched:
  assumes "mem_inv w" "shipment_history order es" "es \<noteq> []"
    and "decode_all shipment_registry (stream_recs (ms_all w) \<lparr>si_category = ''shipment'', si_id = order\<rparr>) = Inr es"
  shows "create_shipment (new_shipments (mem_ops now) shipment_registry) md w \<lparr>csc_order_id = order\<rparr> = (w, None)"
proof -
  let ?c = "\<lparr>csc_order_id = order\<rparr>"
  have s: "shipments.stream_of w (csc_order_id ?c) es" using assms(4) by (simp add: shipments.stream_of_def)
  have j: "shipment_history (csc_order_id ?c) es" using assms(2) by simp
  have d: "\<exists>r. shipment_decide ?c lr = Inl r \<and> r = None" if "loaded (new_shipments (mem_ops 0) shipment_registry) es lr" for lr
    using that assms(3) by (auto simp: shipment_decide_def loaded_def)
  from shipments.serve_none[OF assms(1) s j d, of now md] show ?thesis by (simp add: shipment_serves)
qed

section \<open>Properties\<close>

text \<open>
  An order is shipped at most once: whatever any number of concurrent handlers did with
  any commands, the shipment stream of every order is empty or a single dispatch, and a
  command for an order already shipped succeeds without writing anything.
\<close>

theorem shipped_at_most_once:
  assumes "served (new_shipments (mem_ops 0) shipment_registry) shipment_decide csc_order_id (\<lambda>c. True) w A"
  shows "\<exists>es. decode_all shipment_registry
      (stream_recs (ms_all w) \<lparr>si_category = ''shipment'', si_id = order\<rparr>) = Inr es \<and>
    (es = [] \<or> es = [ShipmentDispatched (utf8_fix order)] \<and>
      create_shipment (new_shipments (mem_ops now) shipment_registry) md w \<lparr>csc_order_id = order\<rparr> = (w, None))"
proof -
  obtain es where es: "decode_all shipment_registry
      (stream_recs (ms_all w) \<lparr>si_category = ''shipment'', si_id = order\<rparr>) = Inr es" "shipment_history order es"
    using shipments.served_history[OF assms, of order] by auto
  have inv: "mem_inv w" using shipments.served_served_inv[OF assms] by (simp add: shipments.served_inv_def)
  have "es = [] \<or> create_shipment (new_shipments (mem_ops now) shipment_registry) md w \<lparr>csc_order_id = order\<rparr> = (w, None)"
    using ship_dispatched[OF inv es(2) _ es(1), of now md] by blast
  with es show ?thesis by (auto simp: shipment_history_def)
qed

text \<open>Witness: an order shipped from an empty store.\<close>

definition demo_shipped :: "json mem_store" where
  "demo_shipped = fst (create_shipment (new_shipments (mem_ops 7) shipment_registry) fmempty new_mem_store
     \<lparr>csc_order_id = ''o-1''\<rparr>)"

lemma demo_shipped_eq: "demo_shipped =
  \<lparr>ms_all = [\<lparr>rec_seq = 1, rec_stream = \<lparr>si_category = ''shipment'', si_id = ''o-1''\<rparr>, rec_version = 1,
      rec_name = ''shipping.shipment_dispatched'', rec_schema = 1,
      rec_payload = JObj [(''order_id'', JStr ''o-1'')], rec_meta = fmempty, rec_at = 7\<rparr>],
   ms_streams = [\<lparr>si_category = ''shipment'', si_id = ''o-1''\<rparr> \<mapsto> [0]]\<rparr>"
  by (simp add: demo_shipped_def create_shipment_def repo_load_def mem_ops_def mem_load_def
      new_mem_store_def shipping_domain_defs repo_save_def uncommitted_events_def encode_def
      schema_version_def shipment_registry_entries marshal_shipment_event_def mem_append_def mem_record_def
      jstr_def is_ascii_def)

theorem shipped_at_most_once_witness:
  "create_shipment (new_shipments (mem_ops 9) shipment_registry) fmempty demo_shipped \<lparr>csc_order_id = ''o-1''\<rparr> =
     (demo_shipped, None)"
proof -
  let ?rp = "new_shipments (mem_ops 0) shipment_registry"
  have "served ?rp shipment_decide csc_order_id (\<lambda>c. True) new_mem_store {}"
    by (rule served.start[OF mem_inv_new]) (simp add: new_mem_store_def)
  moreover have "serve (rp_at ?rp 7) fmempty shipment_decide csc_order_id new_mem_store \<lparr>csc_order_id = ''o-1''\<rparr> =
      (demo_shipped, snd (create_shipment (new_shipments (mem_ops 7) shipment_registry) fmempty new_mem_store
         \<lparr>csc_order_id = ''o-1''\<rparr>))"
    by (simp add: shipment_serves demo_shipped_def)
  ultimately obtain A where "served ?rp shipment_decide csc_order_id (\<lambda>c. True) demo_shipped A"
    using served_serve[of ?rp shipment_decide csc_order_id "\<lambda>c. True"] by blast
  from shipped_at_most_once[OF this, of "''o-1''" 9 fmempty] show ?thesis
    by (auto simp: demo_shipped_eq stream_recs_def)
       (simp add: decode_def shipment_registry_entries lift_loop.simps unmarshal_shipment_dispatched_def json_simps is_ascii_def)
qed

end
