(* ===== verification/Ordering.thy ===== *)
theory Ordering
  imports Contracts Decider Saga
begin

text \<open>
  The ordering service's domain and commands (\<open>gohex-example/ordering/internal/domain/order.go\<close>,
  \<open>app/app.go\<close>): the value objects with their JSON hooks, the Order aggregate, registrations, and
  the handlers of the two commands. Ordering hosts a saga, so its registry knows the saga's
  stream events too: a domain event of the service is the saga engine's \<open>OtherEvent\<close>.
\<close>

section \<open>Errors and value objects\<close>

definition ErrEmptyOrder :: gerr where
  "ErrEmptyOrder = new_domain_error ''empty_order'' ''an order needs a positive total''"

definition ErrInvalidAmount :: gerr where
  "ErrInvalidAmount = new_domain_error ''invalid_amount'' ''amount must be positive''"

definition ErrInvalidCurrency :: gerr where
  "ErrInvalidCurrency = new_domain_error ''invalid_currency'' ''currency must be a 3-letter code''"

definition ErrInvalidQuantity :: gerr where
  "ErrInvalidQuantity = new_domain_error ''invalid_quantity'' ''quantity must be positive''"

definition ErrEmptyReason :: gerr where
  "ErrEmptyReason = new_domain_error ''empty_reason'' ''a notification needs a reason''"

datatype order_tag = OrderTag
datatype customer_tag = CustomerTag
type_synonym order_id = "order_tag ident"
type_synonym customer_id = "customer_tag ident"

record money =
  mo_cents :: int
  mo_currency :: string

definition zero_money :: money where
  "zero_money = \<lparr>mo_cents = 0, mo_currency = []\<rparr>"

definition new_money :: "int \<Rightarrow> string \<Rightarrow> money res" where
  "new_money cents currency =
     (if cents \<le> 0 then Inl ErrInvalidAmount
      else if length currency \<noteq> 3 then Inl ErrInvalidCurrency
      else Inr \<lparr>mo_cents = cents, mo_currency = currency\<rparr>)"

definition money_is_zero :: "money \<Rightarrow> bool" where
  "money_is_zero m \<longleftrightarrow> m = zero_money"

text \<open>An error of a \<open>MarshalJSON\<close> or \<open>MarshalText\<close> hook comes wrapped out of \<open>json.Marshal\<close>.\<close>

definition hook_error :: "gerr \<Rightarrow> gerr" where
  "hook_error err = Wrapf ''json: error calling a marshal hook: %w'' [] err"

definition marshal_money :: "money \<Rightarrow> json res" where
  "marshal_money m =
     (if money_is_zero m then Inl (Wrapf ''%w: marshaling zero Money'' [] ErrInvalidAmount)
      else Inr (JObj [(''cents'', JInt (mo_cents m)), (''currency'', jstr (mo_currency m))]))"

definition unmarshal_money :: "json \<Rightarrow> money res" where
  "unmarshal_money j =
     (case json_unmarshal (dec_struct [
         (''cents'', dec_field fst (\<lambda>v. apfst (\<lambda>_. v)) dec_int),
         (''currency'', dec_field snd (\<lambda>v. apsnd (\<lambda>_. v)) dec_string)]) (0, []) j of
        Inl err \<Rightarrow> Inl err
      | Inr (cents, currency) \<Rightarrow> new_money cents currency)"

record quantity =
  qu_n :: int

definition zero_quantity :: quantity where
  "zero_quantity = \<lparr>qu_n = 0\<rparr>"

definition new_quantity :: "int \<Rightarrow> quantity res" where
  "new_quantity n = (if n \<le> 0 then Inl ErrInvalidQuantity else Inr \<lparr>qu_n = n\<rparr>)"

definition marshal_quantity :: "quantity \<Rightarrow> json res" where
  "marshal_quantity q =
     (if qu_n q \<le> 0 then Inl (Wrapf ''%w: marshaling zero Quantity'' [] ErrInvalidQuantity)
      else Inr (JInt (qu_n q)))"

definition unmarshal_quantity :: "json \<Rightarrow> quantity res" where
  "unmarshal_quantity j = (case json_unmarshal dec_int 0 j of Inl err \<Rightarrow> Inl err | Inr n \<Rightarrow> new_quantity n)"

section \<open>Events\<close>

record order_placed =
  op_id :: order_id
  op_customer :: customer_id
  op_total :: money
  op_qty :: quantity

record customer_notified =
  cf_id :: order_id
  cf_reason :: string

datatype order_event =
    OrderPlaced order_placed
  | CustomerNotified customer_notified

fun order_event_name :: "order_event \<Rightarrow> string" where
  "order_event_name (OrderPlaced p) = ''ordering.order_placed''"
| "order_event_name (CustomerNotified n) = ''ordering.customer_notified''"

type_synonym ordering_event = "(json, order_event) saga_event"

definition own_event :: "order_event \<Rightarrow> ordering_event" where
  "own_event e = OtherEvent (order_event_name e) e"

text \<open>Several hooks in one struct: the first that fails makes \<open>json.Marshal\<close> fail.\<close>

definition marshal_order_event :: "order_event \<Rightarrow> json res" where
  "marshal_order_event e = (case e of
     OrderPlaced p \<Rightarrow>
       (case marshal_text (op_id p) of Inl err \<Rightarrow> Inl (hook_error err) | Inr i \<Rightarrow>
       (case marshal_text (op_customer p) of Inl err \<Rightarrow> Inl (hook_error err) | Inr c \<Rightarrow>
       (case marshal_money (op_total p) of Inl err \<Rightarrow> Inl (hook_error err) | Inr t \<Rightarrow>
       (case marshal_quantity (op_qty p) of Inl err \<Rightarrow> Inl (hook_error err) | Inr q \<Rightarrow>
          Inr (JObj [(''id'', jstr i), (''customer'', jstr c), (''total'', t), (''qty'', q)])))))
   | CustomerNotified n \<Rightarrow>
       (case marshal_text (cf_id n) of Inl err \<Rightarrow> Inl (hook_error err) | Inr i \<Rightarrow>
          Inr (JObj [(''id'', jstr i), (''reason'', jstr (cf_reason n))])))"

text \<open>The text hook of an identifier; \<open>ParseID\<close> reading out of range would be a panic.\<close>

definition dec_id :: "(string \<Rightarrow> string) \<Rightarrow> 't ident jdec" where
  "dec_id uni = dec_text (\<lambda>old s. case unmarshal_text uni old s of
     None \<Rightarrow> (old, Some (ErrNew ''panic: index out of range'')) | Some r \<Rightarrow> r)"

definition unmarshal_order_placed :: "(string \<Rightarrow> string) \<Rightarrow> json \<Rightarrow> order_placed res" where
  "unmarshal_order_placed uni = json_unmarshal (dec_struct [
     (''id'', dec_field op_id (\<lambda>v. op_id_update (\<lambda>_. v)) (dec_id uni)),
     (''customer'', dec_field op_customer (\<lambda>v. op_customer_update (\<lambda>_. v)) (dec_id uni)),
     (''total'', dec_field op_total (\<lambda>v. op_total_update (\<lambda>_. v)) (dec_hook unmarshal_money)),
     (''qty'', dec_field op_qty (\<lambda>v. op_qty_update (\<lambda>_. v)) (dec_hook unmarshal_quantity))])
     \<lparr>op_id = zero_id, op_customer = zero_id, op_total = zero_money, op_qty = zero_quantity\<rparr>"

definition unmarshal_customer_notified :: "(string \<Rightarrow> string) \<Rightarrow> json \<Rightarrow> customer_notified res" where
  "unmarshal_customer_notified uni = json_unmarshal (dec_struct [
     (''id'', dec_field cf_id (\<lambda>v. cf_id_update (\<lambda>_. v)) (dec_id uni)),
     (''reason'', dec_field cf_reason (\<lambda>v. cf_reason_update (\<lambda>_. v)) dec_string)])
     \<lparr>cf_id = zero_id, cf_reason = []\<rparr>"

section \<open>The Order aggregate\<close>

record order =
  or_id :: order_id
  or_customer :: customer_id
  or_total :: money
  or_qty :: quantity
  or_notified :: "string \<rightharpoonup> bool"

definition zero_order :: order where
  "zero_order = \<lparr>or_id = zero_id, or_customer = zero_id, or_total = zero_money, or_qty = zero_quantity,
     or_notified = Map.empty\<rparr>"

definition order_apply :: "(order, ordering_event) applier" where
  "order_apply o1 e = (case e of
     OtherEvent n (OrderPlaced ev) \<Rightarrow>
       (o1\<lparr>or_id := op_id ev, or_customer := op_customer ev, or_total := op_total ev, or_qty := op_qty ev\<rparr>, None)
   | OtherEvent n (CustomerNotified ev) \<Rightarrow>
       (o1\<lparr>or_notified := (or_notified o1)(cf_reason ev \<mapsto> True)\<rparr>, None)
   | _ \<Rightarrow> (o1, Some (Errorf ''order: unknown event %q'' [FStr (saga_event_name e)])))"

type_synonym order_agg = "(order, ordering_event) aggregate"

definition order_raise :: "order_agg \<Rightarrow> order_event \<Rightarrow> order_agg \<times> gerr option" where
  "order_raise a e = raise_event saga_event_name order_apply a (own_event e)"

definition order_place :: "order_id \<Rightarrow> customer_id \<Rightarrow> money \<Rightarrow> quantity \<Rightarrow> order_agg res" where
  "order_place i customer tot qty =
     (if money_is_zero tot then Inl ErrEmptyOrder
      else case order_raise (new_aggregate zero_order)
             (OrderPlaced \<lparr>op_id = i, op_customer = customer, op_total = tot, op_qty = qty\<rparr>) of
        (a, Some err) \<Rightarrow> Inl err
      | (a, None) \<Rightarrow> Inr a)"

definition order_notify :: "order_agg \<Rightarrow> string \<Rightarrow> order_agg \<times> gerr option" where
  "order_notify a reason =
     (if reason = [] then (a, Some ErrEmptyReason)
      else if mget False (or_notified (agg_state a)) reason then (a, None)
      else order_raise a (CustomerNotified \<lparr>cf_id = or_id (agg_state a), cf_reason = reason\<rparr>))"

section \<open>Registrations\<close>

text \<open>The JSON of the saga's own stream events, as \<open>encoding/json\<close> derives it.\<close>

record saga_codec =
  sc_marshal :: "ordering_event \<Rightarrow> json res"
  sc_received :: "json \<Rightarrow> ordering_event res"
  sc_requested :: "json \<Rightarrow> ordering_event res"
  sc_ended :: "json \<Rightarrow> ordering_event res"

definition marshal_ordering_event :: "saga_codec \<Rightarrow> ordering_event \<Rightarrow> json res" where
  "marshal_ordering_event sc e = (case e of OtherEvent n x \<Rightarrow> marshal_order_event x | _ \<Rightarrow> sc_marshal sc e)"

definition register_ordering_events ::
  "(string \<Rightarrow> string) \<Rightarrow> saga_codec \<Rightarrow> (json, ordering_event) registry \<Rightarrow> (json, ordering_event) registry option" where
  "register_ordering_events uni sc r =
     Option.bind (register ''ordering.order_placed''
         (\<lambda>j. map_sum id (\<lambda>p. own_event (OrderPlaced p)) (unmarshal_order_placed uni j)) r) (\<lambda>r1.
     Option.bind (register ''ordering.customer_notified''
         (\<lambda>j. map_sum id (\<lambda>n. own_event (CustomerNotified n)) (unmarshal_customer_notified uni j)) r1) (\<lambda>r2.
     register_saga_events (sc_received sc) (sc_requested sc) (sc_ended sc) r2))"

definition ordering_registry :: "(string \<Rightarrow> string) \<Rightarrow> saga_codec \<Rightarrow> (json, ordering_event) registry" where
  "ordering_registry uni sc = the (register_ordering_events uni sc new_registry)"

definition register_ordering_translators ::
  "('w, json, ordering_event) relay \<Rightarrow> ('w, json, ordering_event) relay option" where
  "register_ordering_translators r =
     Option.bind (relay_add_translator ''ordering.order_placed'' (\<lambda>e. case e of
         OtherEvent n (OrderPlaced p) \<Rightarrow> Some (order_placed_v1_event
           \<lparr>opv_order_id = id_string (op_id p), opv_customer_id = id_string (op_customer p),
            opv_cents = mo_cents (op_total p), opv_currency = mo_currency (op_total p),
            opv_qty = qu_n (op_qty p)\<rparr>)
       | _ \<Rightarrow> None) r) register_command_routing"

section \<open>Commands\<close>

record place_order_cmd =
  po_id :: order_id
  po_customer :: customer_id
  po_total :: money
  po_qty :: quantity

record notify_customer_cmd =
  nc_order_id :: string
  nc_reason :: string

datatype ordering_command =
    PlaceOrder place_order_cmd
  | NotifyCustomer notify_customer_cmd

fun ordering_command_name :: "ordering_command \<Rightarrow> string" where
  "ordering_command_name (PlaceOrder c) = ''ordering.place_order''"
| "ordering_command_name (NotifyCustomer c) = ''ordering.notify_customer''"

type_synonym 'w orders = "('w, json, ordering_event, order) repository"

definition new_orders ::
  "('w, json) store_ops \<Rightarrow> (json, ordering_event) registry \<Rightarrow> saga_codec \<Rightarrow> 'w orders" where
  "new_orders store registry sc =
     \<lparr>rp_store = store, rp_registry = registry, rp_category = ''order'', rp_zero = zero_order,
      rp_name = saga_event_name, rp_apply = order_apply, rp_marshal = marshal_ordering_event sc\<rparr>"

lemma new_orders_simps [simp]:
  "rp_store (new_orders st reg sc) = st" "rp_registry (new_orders st reg sc) = reg"
  "rp_category (new_orders st reg sc) = ''order''" "rp_zero (new_orders st reg sc) = zero_order"
  "rp_name (new_orders st reg sc) = saga_event_name" "rp_apply (new_orders st reg sc) = order_apply"
  "rp_marshal (new_orders st reg sc) = marshal_ordering_event sc"
  "rp_stream (new_orders st reg sc) aid = \<lparr>si_category = ''order'', si_id = aid\<rparr>"
  by (simp_all add: new_orders_def rp_stream_def)

lemma new_orders_at [simp]: "rp_at (new_orders st reg sc) now = new_orders (mem_ops now) reg sc"
  by (simp add: rp_at_def new_orders_def)

definition place_order :: "'w orders \<Rightarrow> metadata \<Rightarrow> 'w \<Rightarrow> place_order_cmd \<Rightarrow> 'w \<times> gerr option" where
  "place_order orders md w cmd =
     (case order_place (po_id cmd) (po_customer cmd) (po_total cmd) (po_qty cmd) of
        Inl err \<Rightarrow> (w, Some err)
      | Inr a \<Rightarrow> (case repo_save orders md None w (id_string (po_id cmd)) a of (w2, pos, a2, err) \<Rightarrow> (w2, err)))"

definition notify_customer ::
  "(string \<Rightarrow> string) \<Rightarrow> 'w orders \<Rightarrow> metadata \<Rightarrow> 'w \<Rightarrow> notify_customer_cmd \<Rightarrow> 'w \<times> gerr option" where
  "notify_customer uni orders md w cmd =
     (case (parse_id uni (nc_order_id cmd) :: order_id res option) of
        None \<Rightarrow> (w, Some (ErrNew ''panic: index out of range''))
      | Some (Inl err) \<Rightarrow> (w, Some err)
      | Some (Inr i) \<Rightarrow>
          (case repo_load orders w (id_string i) of
             (w1, Inl err) \<Rightarrow> (w1, Some err)
           | (w1, Inr a) \<Rightarrow>
               (case order_notify a (nc_reason cmd) of
                  (a1, Some err) \<Rightarrow> (w1, Some err)
                | (a1, None) \<Rightarrow>
                    (case repo_save orders md None w1 (id_string i) a1 of (w2, pos, a2, err) \<Rightarrow> (w2, err)))))"

definition wrong_ordering_command :: gerr where
  "wrong_ordering_command = ErrNew ''panic: interface conversion''"

definition ordering_register ::
  "(string \<Rightarrow> string) \<Rightarrow> 'w orders \<Rightarrow> metadata \<Rightarrow> ('w, ordering_command) bus \<Rightarrow> ('w, ordering_command) bus option" where
  "ordering_register uni orders md bus =
     Option.bind (handle_command bus ''ordering.place_order'' (\<lambda>w c. case c of
         PlaceOrder x \<Rightarrow> place_order orders md w x | _ \<Rightarrow> (w, Some wrong_ordering_command))) (\<lambda>b1.
     handle_command b1 ''ordering.notify_customer'' (\<lambda>w c. case c of
         NotifyCustomer x \<Rightarrow> notify_customer uni orders md w x | _ \<Rightarrow> (w, Some wrong_ordering_command)))"

section \<open>Values the packages can construct\<close>

text \<open>
  Unexported fields make constructors and decoders the only source of values, so every value
  is the zero value or a parsed one.
\<close>

definition money_valid :: "money \<Rightarrow> bool" where
  "money_valid m \<longleftrightarrow> 0 < mo_cents m \<and> in_int64 (mo_cents m) \<and> length (mo_currency m) = 3 \<and> utf8_valid (mo_currency m)"

definition quantity_valid :: "quantity \<Rightarrow> bool" where
  "quantity_valid q \<longleftrightarrow> 0 < qu_n q \<and> in_int64 (qu_n q)"

definition id_ok :: "'t ident \<Rightarrow> bool" where
  "id_ok i \<longleftrightarrow> i = zero_id \<or> canonical (id_value i)"

definition order_placed_ok :: "order_placed \<Rightarrow> bool" where
  "order_placed_ok p \<longleftrightarrow> id_ok (op_id p) \<and> id_ok (op_customer p) \<and>
     (op_total p = zero_money \<or> money_valid (op_total p)) \<and>
     (op_qty p = zero_quantity \<or> quantity_valid (op_qty p))"

definition order_placed_valid :: "order_placed \<Rightarrow> bool" where
  "order_placed_valid p \<longleftrightarrow> canonical (id_value (op_id p)) \<and> canonical (id_value (op_customer p)) \<and>
     money_valid (op_total p) \<and> quantity_valid (op_qty p)"

lemma id_ok_zero [simp]: "id_ok zero_id"
  by (simp add: id_ok_def)

lemma dec_int_range: "dec_int old j = Inr (i, e) \<Longrightarrow> in_int64 old \<Longrightarrow> in_int64 i"
  by (auto simp: dec_int_def mismatch_def split: json.splits if_splits)

lemma dec_string_valid: "dec_string old j = Inr (s, e) \<Longrightarrow> utf8_valid old \<Longrightarrow> utf8_valid s"
  by (auto simp: dec_string_def mismatch_def split: json.splits)

lemma dec_id_ok:
  assumes "uni_ok uni" "dec_id uni old j = Inr (i, e)" "id_ok old" shows "id_ok i"
proof (cases j)
  case (JStr s)
  let ?s = "utf8_fix s"
  have "parse_id uni ?s = Some (Inr i') \<Longrightarrow> canonical (id_value i')" for i' :: "'a ident"
  proof -
    assume p: "parse_id uni ?s = Some (Inr i')"
    then have l: "length ?s = 36" by (auto simp: parse_id_def split: if_splits)
    show ?thesis
    proof (cases "list_all is_ascii ?s")
      case True
      from p show ?thesis unfolding parse_id_ascii[OF l True] by (auto split: if_splits)
    next
      case False
      with p show ?thesis by (auto simp: parse_id_def l Let_def parse_loop_non_ascii[OF assms(1) l])
    qed
  qed
  with assms(2,3) JStr show ?thesis
    by (auto simp: dec_id_def dec_text_def unmarshal_text_def id_ok_def split: sum.splits option.splits)
qed (use assms in \<open>auto simp: dec_id_def dec_text_def mismatch_def\<close>)

lemma unmarshal_money_valid:
  assumes "unmarshal_money j = Inr m" shows "money_valid m"
proof -
  obtain c s where cs: "json_unmarshal (dec_struct [
         (''cents'', dec_field fst (\<lambda>v. apfst (\<lambda>_. v)) dec_int),
         (''currency'', dec_field snd (\<lambda>v. apsnd (\<lambda>_. v)) dec_string)]) (0, []) j = Inr (c, s)" "new_money c s = Inr m"
    using assms by (auto simp: unmarshal_money_def split: sum.splits prod.splits)
  have "in_int64 (fst (c, s)) \<and> utf8_valid (snd (c, s))"
    by (rule json_unmarshal_keeps[where P = "\<lambda>v. in_int64 (fst v) \<and> utf8_valid (snd v)", OF _ _ cs(1)])
       (auto simp: dec_field_def utf8_valid_ascii split: sum.splits intro: dec_int_range dec_string_valid)
  with cs(2) show ?thesis by (auto simp: new_money_def money_valid_def split: if_splits)
qed

lemma unmarshal_quantity_valid: "unmarshal_quantity j = Inr q \<Longrightarrow> quantity_valid q"
  by (auto simp: unmarshal_quantity_def json_unmarshal_def new_quantity_def quantity_valid_def dec_int_def mismatch_def
      split: sum.splits json.splits if_splits)

lemma unmarshal_order_placed_ok:
  assumes "uni_ok uni" "unmarshal_order_placed uni j = Inr p" shows "order_placed_ok p"
  by (rule json_unmarshal_keeps[where P = order_placed_ok, OF _ _ assms(2)[unfolded unmarshal_order_placed_def]])
     ((auto simp: order_placed_ok_def dec_field_def dec_hook_def split: sum.splits
         dest!: unmarshal_money_valid unmarshal_quantity_valid; (erule (1) dec_id_ok[OF assms(1)])?),
      simp add: order_placed_ok_def)

lemma unmarshal_canonical: "canonical s \<Longrightarrow> dec_id uni old (jstr s) = Inr (ID s, None)"
  by (simp add: dec_id_def dec_text_def jstr_def unmarshal_text_def parse_id_canonical canonical_lower_id(1))

lemma money_roundtrip:
  "money_valid m \<Longrightarrow> \<exists>j. marshal_money m = Inr j \<and> unmarshal_money j = Inr m"
  by (auto simp: marshal_money_def unmarshal_money_def money_is_zero_def zero_money_def money_valid_def json_simps
      utf8_fix_valid new_money_def)

lemma quantity_roundtrip:
  "quantity_valid q \<Longrightarrow> \<exists>j. marshal_quantity q = Inr j \<and> unmarshal_quantity j = Inr q"
  by (auto simp: marshal_quantity_def unmarshal_quantity_def quantity_valid_def json_simps new_quantity_def)

lemma id_ok_marshal: "id_ok i \<Longrightarrow> marshal_text i = Inr t \<Longrightarrow> canonical (id_value i) \<and> t = id_value i"
  by (auto simp: id_ok_def marshal_text_def id_is_zero_def zero_id_def split: if_splits)

lemma order_placed_marshal_valid:
  assumes "order_placed_ok p" "marshal_order_event (OrderPlaced p) = Inr j"
  shows "order_placed_valid p"
  using assms
  by (auto simp: order_placed_ok_def order_placed_valid_def marshal_order_event_def marshal_money_def money_is_zero_def
      marshal_quantity_def zero_quantity_def split: sum.splits if_splits dest: id_ok_marshal)

lemma marshal_canonical: "canonical (id_value i) \<Longrightarrow> marshal_text i = Inr (id_value i)"
  using canonical_lower_id(3) by (auto simp: marshal_text_def id_is_zero_def)

lemma order_placed_roundtrip:
  assumes "order_placed_valid p"
  shows "\<exists>j. marshal_order_event (OrderPlaced p) = Inr j \<and> unmarshal_order_placed uni j = Inr p"
proof -
  have c: "canonical (id_value (op_id p))" "canonical (id_value (op_customer p))"
    using assms by (auto simp: order_placed_valid_def)
  obtain t where t: "marshal_money (op_total p) = Inr t" "unmarshal_money t = Inr (op_total p)"
    using money_roundtrip assms by (auto simp: order_placed_valid_def)
  obtain q where q: "marshal_quantity (op_qty p) = Inr q" "unmarshal_quantity q = Inr (op_qty p)"
    using quantity_roundtrip assms by (auto simp: order_placed_valid_def)
  show ?thesis
    by (cases p)
       (use t q c in \<open>simp add: marshal_order_event_def marshal_canonical unmarshal_canonical unmarshal_order_placed_def json_unmarshal_def
          dec_struct_def dec_field_def dec_hook_def find_field_def\<close>)
qed

lemma customer_notified_roundtrip:
  assumes "canonical (id_value (cf_id n))" "utf8_valid (cf_reason n)"
  shows "\<exists>j. marshal_order_event (CustomerNotified n) = Inr j \<and> unmarshal_customer_notified uni j = Inr n"
  by (cases n) (use assms in \<open>simp add: marshal_order_event_def marshal_canonical unmarshal_canonical
      unmarshal_customer_notified_def json_unmarshal_def dec_struct_def dec_field_def find_field_def utf8_fix_valid\<close>)

section \<open>The handlers as decisions\<close>

fun ordering_key :: "(string \<Rightarrow> string) \<Rightarrow> ordering_command \<Rightarrow> string" where
  "ordering_key uni (PlaceOrder c) = id_value (po_id c)"
| "ordering_key uni (NotifyCustomer c) =
     (case (parse_id uni (nc_order_id c) :: order_id res option) of Some (Inr i) \<Rightarrow> id_value i | _ \<Rightarrow> [])"

fun ordering_decide :: "(string \<Rightarrow> string) \<Rightarrow> (order, ordering_event, ordering_command) decision" where
  "ordering_decide uni (PlaceOrder c) lr =
     (case order_place (po_id c) (po_customer c) (po_total c) (po_qty c) of Inl err \<Rightarrow> Inl (Some err) | Inr a \<Rightarrow> Inr a)"
| "ordering_decide uni (NotifyCustomer c) lr =
     (case (parse_id uni (nc_order_id c) :: order_id res option) of
        None \<Rightarrow> Inl (Some (ErrNew ''panic: index out of range''))
      | Some (Inl err) \<Rightarrow> Inl (Some err)
      | Some (Inr i) \<Rightarrow> (case lr of
          Inl err \<Rightarrow> Inl (Some err)
        | Inr a \<Rightarrow> (case order_notify a (nc_reason c) of (a1, Some err) \<Rightarrow> Inl (Some err) | (a1, None) \<Rightarrow> Inr a1)))"

fun ordering_ok :: "ordering_command \<Rightarrow> bool" where
  "ordering_ok (PlaceOrder c) = order_placed_ok
     \<lparr>op_id = po_id c, op_customer = po_customer c, op_total = po_total c, op_qty = po_qty c\<rparr>"
| "ordering_ok (NotifyCustomer c) = utf8_valid (nc_reason c)"

text \<open>Over the in-memory store, where a load changes nothing.\<close>

lemma ordering_serves:
  "serve (new_orders (mem_ops now) reg sc) md (ordering_decide uni) (ordering_key uni) w (PlaceOrder c) =
     place_order (new_orders (mem_ops now) reg sc) md w c"
  "serve (new_orders (mem_ops now) reg sc) md (ordering_decide uni) (ordering_key uni) w (NotifyCustomer n) =
     notify_customer uni (new_orders (mem_ops now) reg sc) md w n"
  by (auto simp: serve_def place_order_def notify_customer_def repo_load_def mem_ops_def id_string_def
      split: prod.splits sum.splits option.splits)

definition order_history :: "string \<Rightarrow> ordering_event list \<Rightarrow> bool" where
  "order_history aid es \<longleftrightarrow> es = [] \<or>
     (\<exists>p rs. es = own_event (OrderPlaced p) #
          map (\<lambda>r. own_event (CustomerNotified \<lparr>cf_id = op_id p, cf_reason = r\<rparr>)) rs \<and>
        id_value (op_id p) = aid \<and> order_placed_valid p \<and> distinct rs \<and> [] \<notin> set rs \<and>
        (\<forall>r\<in>set rs. utf8_valid r))"

lemma ordering_registry_entries:
  "register_ordering_events uni sc new_registry = Some (ordering_registry uni sc)"
  "ordering_registry uni sc ''ordering.order_placed'' = Some \<lparr>re_decode = (\<lambda>payload.
      case map_sum id (\<lambda>p. own_event (OrderPlaced p)) (unmarshal_order_placed uni payload) of
      Inl err \<Rightarrow> Inl (Wrapf ''eventstore: decoding %s: %w'' [FStr ''ordering.order_placed''] err) | Inr e \<Rightarrow> Inr e),
      re_upcasters = []\<rparr>"
  "ordering_registry uni sc ''ordering.customer_notified'' = Some \<lparr>re_decode = (\<lambda>payload.
      case map_sum id (\<lambda>n. own_event (CustomerNotified n)) (unmarshal_customer_notified uni payload) of
      Inl err \<Rightarrow> Inl (Wrapf ''eventstore: decoding %s: %w'' [FStr ''ordering.customer_notified''] err) | Inr e \<Rightarrow> Inr e),
      re_upcasters = []\<rparr>"
  by (simp_all add: ordering_registry_def register_ordering_events_def register_saga_events_def register_def new_registry_def)

lemma order_placed_stored:
  assumes "order_placed_ok p"
  shows "stores (new_orders ops (ordering_registry uni sc) sc) id (own_event (OrderPlaced p))"
proof (rule storesI)
  fix j assume "rp_marshal (new_orders ops (ordering_registry uni sc) sc) (own_event (OrderPlaced p)) = Inr j"
  then have j: "marshal_order_event (OrderPlaced p) = Inr j"
    by (simp add: marshal_ordering_event_def own_event_def)
  have "unmarshal_order_placed uni j = Inr p"
    using order_placed_roundtrip[OF order_placed_marshal_valid[OF assms j], of uni] j by simp
  then show "\<exists>dec. rp_registry (new_orders ops (ordering_registry uni sc) sc)
        (rp_name (new_orders ops (ordering_registry uni sc) sc) (own_event (OrderPlaced p))) =
      Some \<lparr>re_decode = dec, re_upcasters = []\<rparr> \<and> dec j = Inr (id (own_event (OrderPlaced p)))"
    by (simp add: own_event_def ordering_registry_entries)
qed

lemma customer_notified_stored:
  assumes "canonical (id_value (cf_id n))" "utf8_valid (cf_reason n)"
  shows "stores (new_orders ops (ordering_registry uni sc) sc) id (own_event (CustomerNotified n))"
proof (rule storesI)
  fix j assume "rp_marshal (new_orders ops (ordering_registry uni sc) sc) (own_event (CustomerNotified n)) = Inr j"
  then have "unmarshal_customer_notified uni j = Inr n"
    using customer_notified_roundtrip[OF assms, of uni] by (simp add: marshal_ordering_event_def own_event_def)
  then show "\<exists>dec. rp_registry (new_orders ops (ordering_registry uni sc) sc)
        (rp_name (new_orders ops (ordering_registry uni sc) sc) (own_event (CustomerNotified n))) =
      Some \<lparr>re_decode = dec, re_upcasters = []\<rparr> \<and> dec j = Inr (id (own_event (CustomerNotified n)))"
    by (simp add: own_event_def ordering_registry_entries)
qed

text \<open>The state a history leaves: what was placed, and the reasons notified.\<close>

lemma notified_replay:
  "replay order_apply o1 (map (\<lambda>r. own_event (CustomerNotified \<lparr>cf_id = i, cf_reason = r\<rparr>)) rs) =
     Some (o1\<lparr>or_notified := fold (\<lambda>r m. m(r \<mapsto> True)) rs (or_notified o1)\<rparr>)"
  by (induction rs arbitrary: o1) (simp_all add: order_apply_def own_event_def)

lemma fold_notified: "mget False (fold (\<lambda>r m. m(r \<mapsto> True)) rs m) x \<longleftrightarrow> x \<in> set rs \<or> mget False m x"
  by (induction rs arbitrary: m) auto

definition placed_order :: "order_placed \<Rightarrow> string list \<Rightarrow> order" where
  "placed_order p rs = \<lparr>or_id = op_id p, or_customer = op_customer p, or_total = op_total p, or_qty = op_qty p,
     or_notified = fold (\<lambda>r m. m(r \<mapsto> True)) rs Map.empty\<rparr>"

lemma placed_replay:
  "replay order_apply zero_order (own_event (OrderPlaced p) #
     map (\<lambda>r. own_event (CustomerNotified \<lparr>cf_id = i, cf_reason = r\<rparr>)) rs) = Some (placed_order p rs)"
proof -
  have "order_apply zero_order (own_event (OrderPlaced p)) =
      (\<lparr>or_id = op_id p, or_customer = op_customer p, or_total = op_total p, or_qty = op_qty p,
        or_notified = Map.empty\<rparr>, None)"
    by (simp add: order_apply_def own_event_def zero_order_def)
  then show ?thesis by (simp add: notified_replay placed_order_def)
qed

lemma order_history_replays: "order_history aid es \<Longrightarrow> \<exists>s. replay order_apply zero_order es = Some s"
  using placed_replay by (auto simp: order_history_def)

lemma order_place_ok:
  "order_place i c t q = Inr a \<Longrightarrow> agg_version a = 0 \<and>
   agg_pending a = [own_event (OrderPlaced \<lparr>op_id = i, op_customer = c, op_total = t, op_qty = q\<rparr>)]"
  by (auto simp: order_place_def order_raise_def new_aggregate_def raise_event_def order_apply_def own_event_def
      split: if_splits)

lemma order_notify_ok:
  assumes "order_notify a r = (a', None)" "agg_pending a = []"
  shows "agg_version a' = agg_version a \<and> r \<noteq> [] \<and>
    agg_pending a' = (if mget False (or_notified (agg_state a)) r then []
      else [own_event (CustomerNotified \<lparr>cf_id = or_id (agg_state a), cf_reason = r\<rparr>)])"
  using assms
  by (auto simp: order_notify_def order_raise_def raise_event_def order_apply_def own_event_def split: if_splits)

lemma ordering_decide_ok:
  assumes "ordering_ok c" "order_history (ordering_key uni c) es"
    and ld: "loaded (new_orders ops (ordering_registry uni sc) sc) es lr"
    and "ordering_decide uni c lr = Inr a"
  shows "0 \<le> agg_version a \<and> agg_version a \<le> int (length es) \<and>
    (\<forall>e\<in>set (agg_pending a). stores (new_orders ops (ordering_registry uni sc) sc) id e) \<and>
    (encodable (new_orders ops (ordering_registry uni sc) sc) (agg_pending a) \<longrightarrow>
     order_history (ordering_key uni c) (take (nat (agg_version a)) es @ map id (agg_pending a)))"
proof (cases c)
  case (PlaceOrder x)
  let ?p = "\<lparr>op_id = po_id x, op_customer = po_customer x, op_total = po_total x, op_qty = po_qty x\<rparr>"
  have ok: "order_placed_ok ?p" using assms(1) PlaceOrder by simp
  have a: "agg_version a = 0" "agg_pending a = [own_event (OrderPlaced ?p)]"
    using assms(4) PlaceOrder order_place_ok by (auto split: sum.splits)
  have "order_placed_valid ?p" if "encodable (new_orders ops (ordering_registry uni sc) sc) (agg_pending a)"
    using that order_placed_marshal_valid[OF ok]
    by (auto simp: a encodable_def marshal_ordering_event_def own_event_def)
  with a order_placed_stored[OF ok] PlaceOrder show ?thesis
    by (auto simp: order_history_def intro!: exI[of _ ?p] exI[of _ "[]"])
next
  case (NotifyCustomer x)
  then obtain i a0 where i: "(parse_id uni (nc_order_id x) :: order_id res option) = Some (Inr i)"
      "lr = Inr a0" "order_notify a0 (nc_reason x) = (a, None)"
    using assms(4) by (auto split: option.splits sum.splits prod.splits)
  from i(2) ld have es: "es \<noteq> []" and
    reh: "rehydrate saga_event_name order_apply (new_aggregate zero_order) es = (a0, None)"
    by (auto simp: loaded_def split: if_splits)
  have key: "ordering_key uni c = id_value i" using NotifyCustomer i(1) by simp
  from assms(2) es obtain p rs where p:
    "es = own_event (OrderPlaced p) # map (\<lambda>r. own_event (CustomerNotified \<lparr>cf_id = op_id p, cf_reason = r\<rparr>)) rs"
    "id_value (op_id p) = id_value i" "order_placed_valid p" "distinct rs" "[] \<notin> set rs" "\<forall>r\<in>set rs. utf8_valid r"
    by (auto simp: order_history_def key)
  have a0: "agg_state a0 = placed_order p rs" "agg_version a0 = int (length es)" "agg_pending a0 = []"
    using reh placed_replay[of p "op_id p" rs] unfolding p(1)[symmetric]
    by (auto simp: rehydrate_ok_iff new_aggregate_def)
  have no: "mget False (or_notified (agg_state a0)) r \<longleftrightarrow> r \<in> set rs" for r
    by (simp add: a0(1) placed_order_def fold_notified)
  note a = order_notify_ok[OF i(3) a0(3)]
  have v: "utf8_valid (nc_reason x)" using assms(1) NotifyCustomer by simp
  show ?thesis
  proof (cases "nc_reason x \<in> set rs")
    case True
    with a a0(2) no assms(2) show ?thesis by simp
  next
    case False
    let ?n = "\<lparr>cf_id = op_id p, cf_reason = nc_reason x\<rparr>"
    have pend: "agg_pending a = [own_event (CustomerNotified ?n)]"
      using False a no by (simp add: a0(1) placed_order_def)
    have "stores (new_orders ops (ordering_registry uni sc) sc) id (own_event (CustomerNotified ?n))"
      by (rule customer_notified_stored) (use p(3) v in \<open>simp_all add: order_placed_valid_def\<close>)
    moreover have "order_history (id_value i) (es @ [own_event (CustomerNotified ?n)])"
      unfolding order_history_def
      by (intro disjI2 exI[of _ p] exI[of _ "rs @ [nc_reason x]"]) (use p False a v in auto)
    moreover have "agg_version a = int (length es)" using a a0(2) by simp
    ultimately show ?thesis using pend by (simp add: key)
  qed
qed

interpretation orders: decider "new_orders (mem_ops 0) (ordering_registry uni sc) sc" "ordering_decide uni"
  "ordering_key uni" ordering_ok id order_history for uni sc
proof
  fix aid show "order_history aid []" by (simp add: order_history_def)
next
  fix aid es assume "order_history aid es"
  then show "\<exists>s. replay (rp_apply (new_orders (mem_ops 0) (ordering_registry uni sc) sc))
      (rp_zero (new_orders (mem_ops 0) (ordering_registry uni sc) sc)) es = Some s"
    by (simp add: order_history_replays)
qed (blast dest: ordering_decide_ok)

section \<open>Properties\<close>


text \<open>
  C15. An order is placed once and its customer told each thing once: whatever any number of
  concurrent handlers and notification workers did with any commands, redelivered and retried
  at will, the order's stream decodes to nothing or to one complete placement followed by
  notifications with pairwise different reasons, none of them empty.
\<close>

theorem orders_placed_and_notified_once:
  assumes "served (new_orders (mem_ops 0) (ordering_registry uni sc) sc) (ordering_decide uni)
      (ordering_key uni) ordering_ok w A"
  shows "\<exists>es. decode_all (ordering_registry uni sc)
      (stream_recs (ms_all w) \<lparr>si_category = ''order'', si_id = aid\<rparr>) = Inr es \<and>
    (es = [] \<or> (\<exists>p rs. order_placed_valid p \<and> id_value (op_id p) = aid \<and>
       es = own_event (OrderPlaced p) #
         map (\<lambda>r. own_event (CustomerNotified \<lparr>cf_id = op_id p, cf_reason = r\<rparr>)) rs \<and>
       distinct rs \<and> [] \<notin> set rs))"
  using orders.served_history[OF assms, of aid] by (auto simp: order_history_def)

text \<open>Witness: an order of 500 cents, placed and notified once in an empty store.\<close>

definition demo_order_id :: string where
  "demo_order_id = ''a0b1c2d3-e4f5-6789-abcd-ef0123456789''"

lemma demo_order_id_canonical: "canonical demo_order_id"
  unfolding demo_order_id_def by code_simp

definition demo_placed :: order_placed where
  "demo_placed = \<lparr>op_id = ID demo_order_id, op_customer = ID demo_order_id,
     op_total = \<lparr>mo_cents = 500, mo_currency = ''THB''\<rparr>, op_qty = \<lparr>qu_n = 2\<rparr>\<rparr>"

lemma demo_placed_valid: "order_placed_valid demo_placed"
  using demo_order_id_canonical
  by (simp add: order_placed_valid_def demo_placed_def money_valid_def quantity_valid_def in_int64_def int64_min_def
      int64_max_def utf8_valid_ascii is_ascii_def)

lemma demo_placed_ok: "order_placed_ok demo_placed"
  using demo_placed_valid by (simp add: order_placed_ok_def order_placed_valid_def id_ok_def)


definition demo_codec :: saga_codec where
  "demo_codec = \<lparr>sc_marshal = (\<lambda>e. Inl (ErrNew ''unsupported'')), sc_received = (\<lambda>j. Inl (ErrNew ''unsupported'')),
     sc_requested = (\<lambda>j. Inl (ErrNew ''unsupported'')), sc_ended = (\<lambda>j. Inl (ErrNew ''unsupported''))\<rparr>"

definition demo_orders :: "json mem_store orders" where
  "demo_orders = new_orders (mem_ops 7) (ordering_registry demo_uni demo_codec) demo_codec"

definition demo_place :: place_order_cmd where
  "demo_place = \<lparr>po_id = op_id demo_placed, po_customer = op_customer demo_placed, po_total = op_total demo_placed,
     po_qty = op_qty demo_placed\<rparr>"

lemma demo_order_placed:
  "\<exists>w. place_order (new_orders (mem_ops now) (ordering_registry demo_uni sc) sc) fmempty new_mem_store demo_place = (w, None) \<and> mem_inv w \<and>
     decode_all (ordering_registry demo_uni sc)
       (stream_recs (ms_all w) \<lparr>si_category = ''order'', si_id = demo_order_id\<rparr>) = Inr [own_event (OrderPlaced demo_placed)]"
proof -
  let ?rp = "new_orders (mem_ops 0) (ordering_registry demo_uni sc) sc" and ?at = "new_orders (mem_ops now) (ordering_registry demo_uni sc) sc"
  have at: "rp_at ?rp now = ?at" by simp
  obtain a where a: "order_place (po_id demo_place) (po_customer demo_place) (po_total demo_place) (po_qty demo_place) = Inr a"
    by (simp add: order_place_def demo_place_def demo_placed_def money_is_zero_def zero_money_def order_raise_def
        raise_event_def order_apply_def own_event_def)
  have p: "\<lparr>op_id = po_id demo_place, op_customer = po_customer demo_place, op_total = po_total demo_place,
      op_qty = po_qty demo_place\<rparr> = demo_placed"
    by (simp add: demo_place_def demo_placed_def)
  have pend: "agg_version a = 0" "agg_pending a = [own_event (OrderPlaced demo_placed)]"
    using order_place_ok[OF a] p by simp_all
  obtain j where j: "marshal_order_event (OrderPlaced demo_placed) = Inr j"
    using order_placed_roundtrip[OF demo_placed_valid, of demo_uni] by blast
  obtain w err where w: "place_order ?at fmempty new_mem_store demo_place = (w, err)" by force
  then obtain pos a' where sv: "repo_save ?at fmempty None new_mem_store (id_string (po_id demo_place)) a = (w, pos, a', err)"
    using a by (auto simp: place_order_def split: prod.splits)
  have "err = None \<and> mem_inv w \<and> (\<exists>rec. ms_all w = [rec] \<and> rec_stream rec = rp_stream ?rp (id_string (po_id demo_place)) \<and>
      decode (rp_registry ?rp) rec = Inr (own_event (OrderPlaced demo_placed)))"
    using save_one[OF mem_inv_new pend(2) _ _ _ order_placed_stored[OF demo_placed_ok] sv[unfolded at[symmetric]]] pend(1) j
    by (auto simp: new_mem_store_def stream_version_def stream_recs_def own_event_def ordering_registry_entries
        marshal_ordering_event_def)
  with w show ?thesis
    by (auto simp: stream_recs_def demo_place_def demo_placed_def id_string_def)
qed

lemma demo_order_stored:
  "\<exists>w. place_order demo_orders fmempty new_mem_store demo_place = (w, None) \<and> mem_inv w \<and>
     decode_all (ordering_registry demo_uni demo_codec)
       (stream_recs (ms_all w) \<lparr>si_category = ''order'', si_id = demo_order_id\<rparr>) = Inr [own_event (OrderPlaced demo_placed)]"
  using demo_order_placed[of 7 demo_codec] by (simp add: demo_orders_def)

theorem orders_placed_and_notified_once_witness:
  "\<exists>w. place_order demo_orders fmempty new_mem_store demo_place = (w, None) \<and>
     (\<exists>es. decode_all (ordering_registry demo_uni demo_codec)
        (stream_recs (ms_all w) \<lparr>si_category = ''order'', si_id = demo_order_id\<rparr>) = Inr es)"
proof -
  let ?rp = "new_orders (mem_ops 0) (ordering_registry demo_uni demo_codec) demo_codec"
  have at: "rp_at ?rp 7 = demo_orders" by (simp add: demo_orders_def)
  obtain w where w: "place_order demo_orders fmempty new_mem_store demo_place = (w, None)"
    using demo_order_stored by blast
  have s0: "served ?rp (ordering_decide demo_uni) (ordering_key demo_uni) ordering_ok new_mem_store {}"
    by (rule served.start[OF mem_inv_new]) (simp add: new_mem_store_def)
  have k: "ordering_ok (PlaceOrder demo_place)"
    using demo_placed_ok by (simp add: demo_place_def demo_placed_def)
  have v: "serve (rp_at ?rp 7) fmempty (ordering_decide demo_uni) (ordering_key demo_uni) new_mem_store
      (PlaceOrder demo_place) = (w, None)"
    using w unfolding at by (simp only: demo_orders_def ordering_serves)
  obtain A where "served ?rp (ordering_decide demo_uni) (ordering_key demo_uni) ordering_ok w A"
    using served_serve[OF s0 k v] by blast
  from orders_placed_and_notified_once[OF this, of demo_order_id] w show ?thesis by auto
qed

end
