(* ===== verification/Fulfillment.thy ===== *)
theory Fulfillment
  imports Ordering
begin

text \<open>
  The order-fulfillment saga (\<open>gohex-example/ordering/internal/app/saga.go\<close>): its state, topics
  and handlers as registered with the saga engine, against the workflow its comment draws.
\<close>

section \<open>The definition\<close>

record fulfillment =
  fl_cents :: int
  fl_qty :: int

definition zero_fulfillment :: fulfillment where
  "zero_fulfillment = \<lparr>fl_cents = 0, fl_qty = 0\<rparr>"

definition SagaTopics :: "string list" where
  "SagaTopics = [TopicOrderingEvents, TopicBillingEvents, TopicInventoryEvents, TopicShippingEvents]"

definition out_command :: "string \<Rightarrow> json command_value \<Rightarrow> json out_command" where
  "out_command topic cmd = \<lparr>oc_topic = topic, oc_key = [], oc_cmd = cmd\<rparr>"

definition on_order_placed :: "fulfillment \<Rightarrow> order_placed_v1 \<Rightarrow> fulfillment \<times> json decisions res" where
  "on_order_placed s e = (s\<lparr>fl_cents := opv_cents e, fl_qty := opv_qty e\<rparr>,
     Inr (saga_send [out_command TopicBillingCommands (capture_payment_cmd_value
       \<lparr>cpc_order_id = opv_order_id e, cpc_cents = opv_cents e\<rparr>)]))"

definition on_payment_captured :: "fulfillment \<Rightarrow> payment_captured_v1 \<Rightarrow> fulfillment \<times> json decisions res" where
  "on_payment_captured s e = (s, Inr (saga_send [out_command TopicInventoryCommands (reserve_stock_cmd_value
     \<lparr>rsc_order_id = pcv_order_id e, rsc_qty = fl_qty s\<rparr>)]))"

definition on_payment_failed :: "fulfillment \<Rightarrow> payment_failed_v1 \<Rightarrow> fulfillment \<times> json decisions res" where
  "on_payment_failed s e = (s, Inr saga_end)"

definition on_stock_reserved :: "fulfillment \<Rightarrow> stock_reserved_v1 \<Rightarrow> fulfillment \<times> json decisions res" where
  "on_stock_reserved s e = (s, Inr (saga_send [out_command TopicShippingCommands (create_shipment_cmd_value
     \<lparr>csc_order_id = srv_order_id e\<rparr>)]))"

definition on_stock_rejected :: "fulfillment \<Rightarrow> stock_rejected_v1 \<Rightarrow> fulfillment \<times> json decisions res" where
  "on_stock_rejected s e = (s, Inr \<lparr>ds_commands = [out_command TopicBillingCommands (refund_payment_cmd_value
     \<lparr>rpc_order_id = sjv_order_id e\<rparr>)], ds_end = True\<rparr>)"

definition on_shipment_dispatched :: "fulfillment \<Rightarrow> shipment_dispatched_v1 \<Rightarrow> fulfillment \<times> json decisions res" where
  "on_shipment_dispatched s e = (s, Inr saga_end)"

definition new_fulfillment_saga :: "(fulfillment, json) saga_def option" where
  "new_fulfillment_saga =
     Option.bind (new_saga ''order_fulfillment'') (\<lambda>d0.
     Option.bind (on_event ''ordering.order_placed'' 1 unmarshal_order_placed_v1 opv_order_id on_order_placed d0) (\<lambda>d1.
     Option.bind (on_event ''billing.payment_captured'' 1 unmarshal_payment_captured_v1 pcv_order_id on_payment_captured d1) (\<lambda>d2.
     Option.bind (on_event ''billing.payment_failed'' 1 unmarshal_payment_failed_v1 pfv_order_id on_payment_failed d2) (\<lambda>d3.
     Option.bind (on_event ''inventory.stock_reserved'' 1 unmarshal_stock_reserved_v1 srv_order_id on_stock_reserved d3) (\<lambda>d4.
     Option.bind (on_event ''inventory.stock_rejected'' 1 unmarshal_stock_rejected_v1 sjv_order_id on_stock_rejected d4) (\<lambda>d5.
     on_event ''shipping.shipment_dispatched'' 1 unmarshal_shipment_dispatched_v1 sdv_order_id on_shipment_dispatched d5))))))"

definition fulfillment_saga :: "(fulfillment, json) saga_def" where
  "fulfillment_saga = the new_fulfillment_saga"

section \<open>Facts the saga reacts to\<close>

text \<open>The contracts as one type: what an envelope says, if it carries one of the six.\<close>

datatype fact =
    PlacedFact order_placed_v1
  | CapturedFact payment_captured_v1
  | FailedFact payment_failed_v1
  | ReservedFact stock_reserved_v1
  | RejectedFact stock_rejected_v1
  | DispatchedFact shipment_dispatched_v1

fun fact_order :: "fact \<Rightarrow> string" where
  "fact_order (PlacedFact e) = opv_order_id e"
| "fact_order (CapturedFact e) = pcv_order_id e"
| "fact_order (FailedFact e) = pfv_order_id e"
| "fact_order (ReservedFact e) = srv_order_id e"
| "fact_order (RejectedFact e) = sjv_order_id e"
| "fact_order (DispatchedFact e) = sdv_order_id e"

definition as_fact :: "('c \<Rightarrow> fact) \<Rightarrow> 'c res \<Rightarrow> fact option" where
  "as_fact f r = (case r of Inl err \<Rightarrow> None | Inr e \<Rightarrow> Some (f e))"

definition fact_of :: "json message \<Rightarrow> fact option" where
  "fact_of m =
     (let p = m_payload m in
      if m_version m \<noteq> 1 then None
      else if m_type m = ''ordering.order_placed'' then as_fact PlacedFact (unmarshal_order_placed_v1 p)
      else if m_type m = ''billing.payment_captured'' then as_fact CapturedFact (unmarshal_payment_captured_v1 p)
      else if m_type m = ''billing.payment_failed'' then as_fact FailedFact (unmarshal_payment_failed_v1 p)
      else if m_type m = ''inventory.stock_reserved'' then as_fact ReservedFact (unmarshal_stock_reserved_v1 p)
      else if m_type m = ''inventory.stock_rejected'' then as_fact RejectedFact (unmarshal_stock_rejected_v1 p)
      else if m_type m = ''shipping.shipment_dispatched'' then as_fact DispatchedFact (unmarshal_shipment_dispatched_v1 p)
      else None)"

fun react :: "fulfillment \<Rightarrow> fact \<Rightarrow> fulfillment \<times> json decisions res" where
  "react s (PlacedFact e) = on_order_placed s e"
| "react s (CapturedFact e) = on_payment_captured s e"
| "react s (FailedFact e) = on_payment_failed s e"
| "react s (ReservedFact e) = on_stock_reserved s e"
| "react s (RejectedFact e) = on_stock_rejected s e"
| "react s (DispatchedFact e) = on_shipment_dispatched s e"

text \<open>Keys of different contracts differ, so no registration is a duplicate and none shadows another.\<close>

lemma event_key_inj: "event_key n v = event_key n' v' \<Longrightarrow> n = n' \<and> v = v'"
  using suffix_itoa_inj[of "n @ ''@''" "CHR ''v''" v "n' @ ''@''" v']
  by (simp add: event_key_def is_digit_def)

lemma event_key_eq [simp]: "event_key n v = event_key n' v' \<longleftrightarrow> n = n' \<and> v = v'"
  using event_key_inj by blast

text \<open>What a registration puts under its key.\<close>

definition handles ::
  "('s, 'p) ev_handler \<Rightarrow> ('p \<Rightarrow> 'c res) \<Rightarrow> ('c \<Rightarrow> string) \<Rightarrow> ('s \<Rightarrow> 'c \<Rightarrow> 's \<times> 'p decisions res) \<Rightarrow> bool" where
  "handles h un corr fn \<longleftrightarrow> (\<forall>m. case un (m_payload m) of
     Inl err \<Rightarrow> (\<exists>e. eh_correlate h m = Inl e)
   | Inr e \<Rightarrow> eh_correlate h m = Inr (corr e) \<and> (\<forall>s. eh_handle h s m = fn s e))"

lemma on_event_handles:
  assumes "hs (event_key n v) = None"
  shows "\<exists>h. on_event n v un corr fn \<lparr>sd_name = nm, sd_handlers = hs\<rparr> =
      Some \<lparr>sd_name = nm, sd_handlers = hs(event_key n v \<mapsto> h)\<rparr> \<and> handles h un corr fn"
  using assms by (auto simp: on_event_def handles_def saga_decode_def Let_def split: sum.splits)

lemma fulfillment_registered:
  obtains h1 h2 h3 h4 h5 h6 where "new_fulfillment_saga = Some fulfillment_saga"
    "fulfillment_saga = \<lparr>sd_name = ''order_fulfillment'', sd_handlers =
       [event_key ''ordering.order_placed'' 1 \<mapsto> h1, event_key ''billing.payment_captured'' 1 \<mapsto> h2,
        event_key ''billing.payment_failed'' 1 \<mapsto> h3, event_key ''inventory.stock_reserved'' 1 \<mapsto> h4,
        event_key ''inventory.stock_rejected'' 1 \<mapsto> h5, event_key ''shipping.shipment_dispatched'' 1 \<mapsto> h6]\<rparr>"
    "handles h1 unmarshal_order_placed_v1 opv_order_id on_order_placed"
    "handles h2 unmarshal_payment_captured_v1 pcv_order_id on_payment_captured"
    "handles h3 unmarshal_payment_failed_v1 pfv_order_id on_payment_failed"
    "handles h4 unmarshal_stock_reserved_v1 srv_order_id on_stock_reserved"
    "handles h5 unmarshal_stock_rejected_v1 sjv_order_id on_stock_rejected"
    "handles h6 unmarshal_shipment_dispatched_v1 sdv_order_id on_shipment_dispatched"
proof -
  let ?K1 = "event_key ''ordering.order_placed'' 1" and ?K2 = "event_key ''billing.payment_captured'' 1"
  let ?K3 = "event_key ''billing.payment_failed'' 1" and ?K4 = "event_key ''inventory.stock_reserved'' 1"
  let ?K5 = "event_key ''inventory.stock_rejected'' 1" and ?K6 = "event_key ''shipping.shipment_dispatched'' 1"
  let ?d = "\<lambda>hs. \<lparr>sd_name = ''order_fulfillment'', sd_handlers = hs\<rparr>"
  obtain h1 where h1: "on_event ''ordering.order_placed'' 1 unmarshal_order_placed_v1 opv_order_id on_order_placed
        (?d Map.empty) = Some (?d [?K1 \<mapsto> h1])" "handles h1 unmarshal_order_placed_v1 opv_order_id on_order_placed"
    using on_event_handles[of "Map.empty" "''ordering.order_placed''" 1 unmarshal_order_placed_v1 opv_order_id on_order_placed "''order_fulfillment''"] by auto
  obtain h2 where h2: "on_event ''billing.payment_captured'' 1 unmarshal_payment_captured_v1 pcv_order_id
        on_payment_captured (?d [?K1 \<mapsto> h1]) = Some (?d [?K1 \<mapsto> h1, ?K2 \<mapsto> h2])"
      "handles h2 unmarshal_payment_captured_v1 pcv_order_id on_payment_captured"
    using on_event_handles[of "[?K1 \<mapsto> h1]" "''billing.payment_captured''" 1 unmarshal_payment_captured_v1 pcv_order_id on_payment_captured "''order_fulfillment''"] by auto
  obtain h3 where h3: "on_event ''billing.payment_failed'' 1 unmarshal_payment_failed_v1 pfv_order_id
        on_payment_failed (?d [?K1 \<mapsto> h1, ?K2 \<mapsto> h2]) = Some (?d [?K1 \<mapsto> h1, ?K2 \<mapsto> h2, ?K3 \<mapsto> h3])"
      "handles h3 unmarshal_payment_failed_v1 pfv_order_id on_payment_failed"
    using on_event_handles[of "[?K1 \<mapsto> h1, ?K2 \<mapsto> h2]" "''billing.payment_failed''" 1 unmarshal_payment_failed_v1 pfv_order_id on_payment_failed "''order_fulfillment''"] by auto
  obtain h4 where h4: "on_event ''inventory.stock_reserved'' 1 unmarshal_stock_reserved_v1 srv_order_id
        on_stock_reserved (?d [?K1 \<mapsto> h1, ?K2 \<mapsto> h2, ?K3 \<mapsto> h3]) =
        Some (?d [?K1 \<mapsto> h1, ?K2 \<mapsto> h2, ?K3 \<mapsto> h3, ?K4 \<mapsto> h4])"
      "handles h4 unmarshal_stock_reserved_v1 srv_order_id on_stock_reserved"
    using on_event_handles[of "[?K1 \<mapsto> h1, ?K2 \<mapsto> h2, ?K3 \<mapsto> h3]" "''inventory.stock_reserved''" 1 unmarshal_stock_reserved_v1 srv_order_id on_stock_reserved "''order_fulfillment''"] by auto
  obtain h5 where h5: "on_event ''inventory.stock_rejected'' 1 unmarshal_stock_rejected_v1 sjv_order_id
        on_stock_rejected (?d [?K1 \<mapsto> h1, ?K2 \<mapsto> h2, ?K3 \<mapsto> h3, ?K4 \<mapsto> h4]) =
        Some (?d [?K1 \<mapsto> h1, ?K2 \<mapsto> h2, ?K3 \<mapsto> h3, ?K4 \<mapsto> h4, ?K5 \<mapsto> h5])"
      "handles h5 unmarshal_stock_rejected_v1 sjv_order_id on_stock_rejected"
    using on_event_handles[of "[?K1 \<mapsto> h1, ?K2 \<mapsto> h2, ?K3 \<mapsto> h3, ?K4 \<mapsto> h4]" "''inventory.stock_rejected''" 1 unmarshal_stock_rejected_v1 sjv_order_id on_stock_rejected "''order_fulfillment''"] by auto
  obtain h6 where h6: "on_event ''shipping.shipment_dispatched'' 1 unmarshal_shipment_dispatched_v1 sdv_order_id
        on_shipment_dispatched (?d [?K1 \<mapsto> h1, ?K2 \<mapsto> h2, ?K3 \<mapsto> h3, ?K4 \<mapsto> h4, ?K5 \<mapsto> h5]) =
        Some (?d [?K1 \<mapsto> h1, ?K2 \<mapsto> h2, ?K3 \<mapsto> h3, ?K4 \<mapsto> h4, ?K5 \<mapsto> h5, ?K6 \<mapsto> h6])"
      "handles h6 unmarshal_shipment_dispatched_v1 sdv_order_id on_shipment_dispatched"
    using on_event_handles[of "[?K1 \<mapsto> h1, ?K2 \<mapsto> h2, ?K3 \<mapsto> h3, ?K4 \<mapsto> h4, ?K5 \<mapsto> h5]" "''shipping.shipment_dispatched''" 1 unmarshal_shipment_dispatched_v1 sdv_order_id on_shipment_dispatched "''order_fulfillment''"] by auto
  have r: "new_fulfillment_saga = Some (?d [?K1 \<mapsto> h1, ?K2 \<mapsto> h2, ?K3 \<mapsto> h3, ?K4 \<mapsto> h4, ?K5 \<mapsto> h5, ?K6 \<mapsto> h6])"
    by (simp add: new_fulfillment_saga_def new_saga_def h1(1) h2(1) h3(1) h4(1) h5(1) h6(1) del: fun_upd_apply)
  have d: "fulfillment_saga = ?d [?K1 \<mapsto> h1, ?K2 \<mapsto> h2, ?K3 \<mapsto> h3, ?K4 \<mapsto> h4, ?K5 \<mapsto> h5, ?K6 \<mapsto> h6]"
    by (simp only: fulfillment_saga_def r option.sel)
  show ?thesis by (rule that[OF r[folded d] d h1(2) h2(2) h3(2) h4(2) h5(2) h6(2)])
qed

lemma new_fulfillment_saga_some: "new_fulfillment_saga = Some fulfillment_saga"
  by (rule fulfillment_registered)

lemma fulfillment_name [simp]: "sd_name fulfillment_saga = ''order_fulfillment''"
  by (rule fulfillment_registered) (metis saga_def.select_convs(1))

lemma as_fact_iff: "as_fact c r = Some f \<longleftrightarrow> (\<exists>e. r = Inr e \<and> f = c e)"
  by (auto simp: as_fact_def split: sum.splits)

text \<open>Looking a message up: a fact has its handler, anything else none or one that cannot decode it.\<close>

lemma fulfillment_fact:
  assumes "fact_of m = Some f"
  shows "\<exists>h. sd_handlers fulfillment_saga (event_key (m_type m) (m_version m)) = Some h \<and>
    eh_correlate h m = Inr (fact_order f) \<and> (\<forall>s. eh_handle h s m = react s f)"
proof -
  obtain h1 h2 h3 h4 h5 h6 where hs: "fulfillment_saga = \<lparr>sd_name = ''order_fulfillment'', sd_handlers =
       [event_key ''ordering.order_placed'' 1 \<mapsto> h1, event_key ''billing.payment_captured'' 1 \<mapsto> h2,
        event_key ''billing.payment_failed'' 1 \<mapsto> h3, event_key ''inventory.stock_reserved'' 1 \<mapsto> h4,
        event_key ''inventory.stock_rejected'' 1 \<mapsto> h5, event_key ''shipping.shipment_dispatched'' 1 \<mapsto> h6]\<rparr>"
    and h: "handles h1 unmarshal_order_placed_v1 opv_order_id on_order_placed"
    "handles h2 unmarshal_payment_captured_v1 pcv_order_id on_payment_captured"
    "handles h3 unmarshal_payment_failed_v1 pfv_order_id on_payment_failed"
    "handles h4 unmarshal_stock_reserved_v1 srv_order_id on_stock_reserved"
    "handles h5 unmarshal_stock_rejected_v1 sjv_order_id on_stock_rejected"
    "handles h6 unmarshal_shipment_dispatched_v1 sdv_order_id on_shipment_dispatched"
    by (rule fulfillment_registered)
  have v: "m_version m = 1" using assms by (auto simp: fact_of_def Let_def split: if_splits)
  from assms v show ?thesis
    unfolding hs
    by (simp add: fact_of_def Let_def as_fact_iff split: if_split_asm)
       (use h[unfolded handles_def, THEN spec[of _ m]] in auto)
qed

lemma fulfillment_no_fact:
  assumes "fact_of m = None" "sd_handlers fulfillment_saga (event_key (m_type m) (m_version m)) = Some h"
  shows "\<exists>err. eh_correlate h m = Inl err"
proof -
  obtain h1 h2 h3 h4 h5 h6 where hs: "fulfillment_saga = \<lparr>sd_name = ''order_fulfillment'', sd_handlers =
       [event_key ''ordering.order_placed'' 1 \<mapsto> h1, event_key ''billing.payment_captured'' 1 \<mapsto> h2,
        event_key ''billing.payment_failed'' 1 \<mapsto> h3, event_key ''inventory.stock_reserved'' 1 \<mapsto> h4,
        event_key ''inventory.stock_rejected'' 1 \<mapsto> h5, event_key ''shipping.shipment_dispatched'' 1 \<mapsto> h6]\<rparr>"
    and h: "handles h1 unmarshal_order_placed_v1 opv_order_id on_order_placed"
    "handles h2 unmarshal_payment_captured_v1 pcv_order_id on_payment_captured"
    "handles h3 unmarshal_payment_failed_v1 pfv_order_id on_payment_failed"
    "handles h4 unmarshal_stock_reserved_v1 srv_order_id on_stock_reserved"
    "handles h5 unmarshal_stock_rejected_v1 sjv_order_id on_stock_rejected"
    "handles h6 unmarshal_shipment_dispatched_v1 sdv_order_id on_shipment_dispatched"
    by (rule fulfillment_registered)
  have v: "m_version m = 1" using assms(2) by (auto simp: hs split: if_split_asm)
  have n: "as_fact c r = None \<Longrightarrow> \<exists>err. r = Inl err" for c and r :: "'c res"
    by (auto simp: as_fact_def split: sum.splits)
  from assms v show ?thesis
    unfolding hs
    by (simp add: fact_of_def Let_def split: if_split_asm)
       (use h[unfolded handles_def, THEN spec[of _ m]] in \<open>auto dest!: n\<close>)
qed

section \<open>The workflow as drawn\<close>

text \<open>
  placed: capture payment; payment captured: reserve stock; payment failed: end; stock
  reserved: ship; stock rejected: refund, end; shipped: end. A command is its topic, its name
  and its JSON.
\<close>

fun workflow :: "fulfillment \<Rightarrow> fact \<Rightarrow> (string \<times> string \<times> json) list \<times> bool" where
  "workflow s (PlacedFact e) = ([(''billing.commands'', ''billing.capture_payment'',
     JObj [(''order_id'', jstr (opv_order_id e)), (''cents'', JInt (opv_cents e))])], False)"
| "workflow s (CapturedFact e) = ([(''inventory.commands'', ''inventory.reserve_stock'',
     JObj [(''order_id'', jstr (pcv_order_id e)), (''qty'', JInt (fl_qty s))])], False)"
| "workflow s (FailedFact e) = ([], True)"
| "workflow s (ReservedFact e) = ([(''shipping.commands'', ''shipping.create_shipment'',
     JObj [(''order_id'', jstr (srv_order_id e))])], False)"
| "workflow s (RejectedFact e) = ([(''billing.commands'', ''billing.refund_payment'',
     JObj [(''order_id'', jstr (sjv_order_id e))])], True)"
| "workflow s (DispatchedFact e) = ([], True)"

definition wire_commands :: "json decisions \<Rightarrow> (string \<times> string \<times> json) list" where
  "wire_commands ds = map (\<lambda>out. (oc_topic out, cv_name (oc_cmd out), projr (cv_json (oc_cmd out)))) (ds_commands ds)"

lemmas fulfillment_defs =
  on_order_placed_def on_payment_captured_def on_payment_failed_def on_stock_reserved_def on_stock_rejected_def
  on_shipment_dispatched_def saga_send_def saga_end_def out_command_def topic_defs
  capture_payment_cmd_value_def reserve_stock_cmd_value_def create_shipment_cmd_value_def refund_payment_cmd_value_def
  marshal_capture_payment_cmd_def marshal_reserve_stock_cmd_def marshal_create_shipment_cmd_def
  marshal_refund_payment_cmd_def

lemma react_workflow:
  "\<exists>s' ds. react s f = (s', Inr ds) \<and> (wire_commands ds, ds_end ds) = workflow s f \<and>
     (\<forall>out\<in>set (ds_commands ds). oc_topic out \<noteq> [] \<and> oc_key out = [] \<and> cv_json (oc_cmd out) \<in> range Inr \<and>
        command_version (oc_cmd out) = 1) \<and>
     s' = (case f of PlacedFact e \<Rightarrow> \<lparr>fl_cents = opv_cents e, fl_qty = opv_qty e\<rparr> | _ \<Rightarrow> s)"
  by (cases f; cases s) (simp_all add: fulfillment_defs wire_commands_def command_version_def)

section \<open>Properties\<close>


end
