(* ===== verification/Postgres.thy ===== *)
theory Postgres
  imports Json Checkpoint "HOL-Library.Char_ord" "HOL-Library.List_Lexorder"
begin

text \<open>
  The PostgreSQL event store (\<open>eventstore-postgres/store.go\<close>, \<open>checkpoints.go\<close>). The adapter is
  written over a record of the statements it sends. The server behind them is the transaction
  semantics the adapter documents its reliance on: statements see what is committed plus the own
  transaction, the advisory lock keeps other appenders out until the transaction ends, identity
  values are handed out once and may be lost, and any call may fail with or without effect.
\<close>

section \<open>Metadata columns\<close>

text \<open>\<open>json.Marshal\<close> and \<open>json.Unmarshal\<close> of a metadata map, as a jsonb column keeps it.\<close>

record md_codec =
  mc_enc :: "metadata \<Rightarrow> json res"
  mc_dec :: "json \<Rightarrow> metadata res"

definition marshal_metadata :: "md_codec \<Rightarrow> metadata \<Rightarrow> json res" where
  "marshal_metadata mc m = (if m = fmempty then Inr (JObj []) else mc_enc mc m)"

definition unmarshal_metadata :: "md_codec \<Rightarrow> json \<Rightarrow> metadata res" where
  "unmarshal_metadata mc j = (if j = JObj [] then Inr fmempty else mc_dec mc j)"

section \<open>Rows and statements\<close>

record 'p event_row =
  er_seq :: int
  er_stream :: stream_id
  er_version :: int
  er_name :: string
  er_schema :: int
  er_payload :: 'p
  er_meta :: json
  er_at :: instant

text \<open>The \<open>integer\<close> columns are four bytes wide, the \<open>bigint\<close> ones eight.\<close>

definition in_int4 :: "int \<Rightarrow> bool" where
  "in_int4 n \<longleftrightarrow> - (2 ^ 31) \<le> n \<and> n < 2 ^ 31"

definition int4_error :: gerr where
  "int4_error = ErrExt ''value out of range for int4''"

definition duplicate_error :: gerr where
  "duplicate_error = ErrExt ''duplicate key value violates unique constraint''"

text \<open>A new row as a function of the columns the server fills: the identity and \<open>now()\<close>.\<close>

definition new_row ::
  "stream_id \<Rightarrow> int \<Rightarrow> 'p event_data \<Rightarrow> json \<Rightarrow> int \<Rightarrow> instant \<Rightarrow> 'p event_row" where
  "new_row st version e md seq at = \<lparr>er_seq = seq, er_stream = st, er_version = version, er_name = ed_name e,
     er_schema = ed_schema e, er_payload = ed_payload e, er_meta = md, er_at = at\<rparr>"

definition version_sql :: "stream_id \<Rightarrow> 'p event_row list \<Rightarrow> int" where
  "version_sql st rows = (let vs = map er_version (filter (\<lambda>r. er_stream r = st) rows) in
     if vs = [] then 0 else Max (set vs))"

definition load_sql :: "stream_id \<Rightarrow> int \<Rightarrow> 'p event_row list \<Rightarrow> 'p event_row list" where
  "load_sql st after rows = sort_key er_version (filter (\<lambda>r. er_stream r = st \<and> after < er_version r) rows)"

definition read_sql :: "int \<Rightarrow> int \<Rightarrow> 'p event_row list \<Rightarrow> 'p event_row list" where
  "read_sql after limit rows = (let rs = sort_key er_seq (filter (\<lambda>r. after < er_seq r) rows) in
     if 0 < limit then take (nat limit) rs else rs)"

definition head_sql :: "'p event_row list \<Rightarrow> int" where
  "head_sql rows = (if rows = [] then 0 else Max (set (map er_seq rows)))"

text \<open>What the adapter sends: a transaction's statements, and single queries on a snapshot.\<close>

record ('w, 'p) pg_pool =
  px_begin :: "'w \<Rightarrow> 'w \<times> gerr option"
  px_lock :: "'w \<Rightarrow> 'w \<times> gerr option"
  px_version :: "'w \<Rightarrow> stream_id \<Rightarrow> 'w \<times> int res"
  px_insert :: "'w \<Rightarrow> (int \<Rightarrow> instant \<Rightarrow> 'p event_row) \<Rightarrow> 'w \<times> int res"
  px_commit :: "'w \<Rightarrow> 'w \<times> gerr option"
  px_rollback :: "'w \<Rightarrow> 'w"
  px_events :: "'w \<Rightarrow> 'w \<times> 'p event_row list res"

section \<open>The adapter\<close>

fun pg_insert_loop ::
  "md_codec \<Rightarrow> ('w, 'p) pg_pool \<Rightarrow> stream_id \<Rightarrow> int \<Rightarrow> int \<Rightarrow> int \<Rightarrow> 'w \<Rightarrow> 'p event_data list \<Rightarrow> 'w \<times> int res" where
  "pg_insert_loop mc pool st expected i last_seq w [] = (w, Inr last_seq)"
| "pg_insert_loop mc pool st expected i last_seq w (e # es) =
     (case marshal_metadata mc (ed_meta e) of
        Inl err \<Rightarrow> (w, Inl (Wrapf ''espostgres: append: metadata: %w'' [] err))
      | Inr md \<Rightarrow>
          (case px_insert pool w (new_row st (expected + i + 1) e md) of
             (w1, Inl err) \<Rightarrow> (w1, Inl (Wrapf ''espostgres: append: insert: %w'' [] err))
           | (w1, Inr seq) \<Rightarrow> pg_insert_loop mc pool st expected (i + 1) seq w1 es))"

definition pg_append ::
  "md_codec \<Rightarrow> ('w, 'p) pg_pool \<Rightarrow> 'w \<Rightarrow> stream_id \<Rightarrow> int \<Rightarrow> 'p event_data list \<Rightarrow> 'w \<times> int res" where
  "pg_append mc pool w st expected evs =
     (if evs = [] then (w, Inr 0)
      else case px_begin pool w of
        (w1, Some err) \<Rightarrow> (w1, Inl (Wrapf ''espostgres: append: begin: %w'' [] err))
      | (w1, None) \<Rightarrow>
      (case px_lock pool w1 of
        (w2, Some err) \<Rightarrow> (px_rollback pool w2, Inl (Wrapf ''espostgres: append: lock: %w'' [] err))
      | (w2, None) \<Rightarrow>
      (case px_version pool w2 st of
        (w3, Inl err) \<Rightarrow> (px_rollback pool w3, Inl (Wrapf ''espostgres: append: current version: %w'' [] err))
      | (w3, Inr current) \<Rightarrow>
      if current \<noteq> expected then (px_rollback pool w3, Inl (conflict_error st current expected))
      else case pg_insert_loop mc pool st expected 0 0 w3 evs of
        (w4, Inl err) \<Rightarrow> (px_rollback pool w4, Inl err)
      | (w4, Inr last_seq) \<Rightarrow>
      (case px_commit pool w4 of
        (w5, Some err) \<Rightarrow> (px_rollback pool w5, Inl (Wrapf ''espostgres: append: commit: %w'' [] err))
      | (w5, None) \<Rightarrow> (px_rollback pool w5, Inr last_seq)))))"

definition scan_event :: "md_codec \<Rightarrow> 'p event_row \<Rightarrow> 'p recorded res" where
  "scan_event mc r = (case unmarshal_metadata mc (er_meta r) of
     Inl err \<Rightarrow> Inl (Wrapf ''espostgres: scan metadata: %w'' [] err)
   | Inr md \<Rightarrow> Inr \<lparr>rec_seq = er_seq r, rec_stream = er_stream r, rec_version = er_version r,
       rec_name = er_name r, rec_schema = er_schema r, rec_payload = er_payload r, rec_meta = md, rec_at = er_at r\<rparr>)"

fun scan_events :: "md_codec \<Rightarrow> 'p recorded list \<Rightarrow> 'p event_row list \<Rightarrow> 'p recorded list res" where
  "scan_events mc out [] = Inr out"
| "scan_events mc out (r # rs) = (case scan_event mc r of
     Inl err \<Rightarrow> Inl err | Inr rec \<Rightarrow> scan_events mc (out @ [rec]) rs)"

definition pg_load ::
  "md_codec \<Rightarrow> ('w, 'p) pg_pool \<Rightarrow> 'w \<Rightarrow> stream_id \<Rightarrow> int \<Rightarrow> 'w \<times> 'p recorded list res" where
  "pg_load mc pool w st after = (case px_events pool w of
     (w1, Inl err) \<Rightarrow> (w1, Inl (Wrapf ''espostgres: load: %w'' [] err))
   | (w1, Inr rows) \<Rightarrow> (w1, scan_events mc [] (load_sql st after rows)))"

definition pg_read_all ::
  "md_codec \<Rightarrow> ('w, 'p) pg_pool \<Rightarrow> 'w \<Rightarrow> int \<Rightarrow> int \<Rightarrow> 'w \<times> 'p recorded list res" where
  "pg_read_all mc pool w after limit = (case px_events pool w of
     (w1, Inl err) \<Rightarrow> (w1, Inl (Wrapf ''espostgres: readall: %w'' [] err))
   | (w1, Inr rows) \<Rightarrow> (w1, scan_events mc [] (read_sql after limit rows)))"

definition pg_head :: "('w, 'p) pg_pool \<Rightarrow> 'w \<Rightarrow> 'w \<times> int res" where
  "pg_head pool w = (case px_events pool w of
     (w1, Inl err) \<Rightarrow> (w1, Inl (Wrapf ''espostgres: head: %w'' [] err))
   | (w1, Inr rows) \<Rightarrow> (w1, Inr (head_sql rows)))"

definition pg_store_ops :: "md_codec \<Rightarrow> ('w, 'p) pg_pool \<Rightarrow> ('w, 'p) store_ops" where
  "pg_store_ops mc pool = \<lparr>st_append = pg_append mc pool, st_load = pg_load mc pool,
     st_read_all = pg_read_all mc pool, st_head = pg_head pool\<rparr>"

section \<open>Checkpoints\<close>

record 'w cp_pool =
  cx_get :: "'w \<Rightarrow> string \<Rightarrow> 'w \<times> int res"
  cx_set :: "'w \<Rightarrow> string \<Rightarrow> int \<Rightarrow> 'w \<times> gerr option"

definition pg_cp_get :: "'w cp_pool \<Rightarrow> 'w \<Rightarrow> string \<Rightarrow> 'w \<times> int res" where
  "pg_cp_get pool w name = (case cx_get pool w name of
     (w1, Inl err) \<Rightarrow> (w1, Inl (Wrapf ''espostgres: checkpoint get %s: %w'' [FStr name] err))
   | (w1, Inr seq) \<Rightarrow> (w1, Inr seq))"

definition pg_cp_set :: "'w cp_pool \<Rightarrow> 'w \<Rightarrow> string \<Rightarrow> int \<Rightarrow> 'w \<times> gerr option" where
  "pg_cp_set pool w name seq = (case cx_set pool w name seq of
     (w1, Some err) \<Rightarrow> (w1, Some (Wrapf ''espostgres: checkpoint set %s: %w'' [FStr name] err))
   | (w1, None) \<Rightarrow> (w1, None))"

definition pg_cp_ops :: "'w cp_pool \<Rightarrow> 'w cp_ops" where
  "pg_cp_ops pool = \<lparr>cp_get = pg_cp_get pool, cp_set = pg_cp_set pool\<rparr>"

section \<open>The server\<close>

text \<open>
  What happens before a statement reaches the server: other appenders commit transactions, identity
  values get lost; then the statement runs, or fails, or runs and the answer is lost.
\<close>

record 'p db_happening =
  dh_now :: instant
  dh_others :: "(stream_id \<times> ('p event_data \<times> json) list) list"
  dh_gap :: nat
  dh_fault :: "(string \<times> bool) option"

record 'p db =
  db_events :: "'p event_row list"
  db_next :: int
  db_tx :: "'p event_row list"
  db_locked :: bool
  db_started :: instant
  db_cps :: "string \<rightharpoonup> int"
  db_sched :: "'p db_happening list"

definition new_db :: "'p db_happening list \<Rightarrow> 'p db" where
  "new_db sched = \<lparr>db_events = [], db_next = 1, db_tx = [], db_locked = False, db_started = 0, db_cps = Map.empty,
     db_sched = sched\<rparr>"

fun commit_rows :: "instant \<Rightarrow> stream_id \<Rightarrow> ('p event_data \<times> json) list \<Rightarrow> 'p db \<Rightarrow> 'p db" where
  "commit_rows now st [] d = d"
| "commit_rows now st ((e, md) # es) d = commit_rows now st es
     (d\<lparr>db_events := db_events d @ [new_row st (version_sql st (db_events d) + 1) e md (db_next d) now],
        db_next := db_next d + 1\<rparr>)"

text \<open>Nobody else appends while the lock is taken. When nothing more happens the clock stands still.\<close>

definition db_tick :: "'p db \<Rightarrow> 'p db \<times> instant \<times> (string \<times> bool) option" where
  "db_tick d = (case db_sched d of
     [] \<Rightarrow> (d, db_started d, None)
   | h # hs \<Rightarrow>
       (let d1 = d\<lparr>db_sched := hs, db_next := db_next d + int (dh_gap h)\<rparr> in
        (if db_locked d then d1 else fold (\<lambda>(st, es) d. commit_rows (dh_now h) st es d) (dh_others h) d1,
         dh_now h, dh_fault h)))"

definition db_call :: "(instant \<Rightarrow> 'p db \<Rightarrow> 'p db \<times> 'a res) \<Rightarrow> 'p db \<Rightarrow> 'p db \<times> 'a res" where
  "db_call f d = (case db_tick d of
     (d1, now, None) \<Rightarrow> f now d1
   | (d1, now, Some (msg, True)) \<Rightarrow> (fst (f now d1), Inl (ErrExt msg))
   | (d1, now, Some (msg, False)) \<Rightarrow> (d1, Inl (ErrExt msg)))"

definition db_unit :: "(instant \<Rightarrow> 'p db \<Rightarrow> 'p db) \<Rightarrow> 'p db \<Rightarrow> 'p db \<times> gerr option" where
  "db_unit f d = (case db_call (\<lambda>now d. (f now d, Inr ())) d of
     (d1, Inl err) \<Rightarrow> (d1, Some err) | (d1, Inr u) \<Rightarrow> (d1, None))"

definition db_insert :: "(int \<Rightarrow> instant \<Rightarrow> 'p event_row) \<Rightarrow> 'p db \<Rightarrow> 'p db \<times> int res" where
  "db_insert mk d =
     (let row = mk (db_next d) (db_started d); d1 = d\<lparr>db_next := db_next d + 1\<rparr> in
      if \<not> in_int4 (er_schema row) then (d, Inl int4_error)
      else if \<exists>r\<in>set (db_events d @ db_tx d). er_stream r = er_stream row \<and> er_version r = er_version row
      then (d1, Inl duplicate_error)
      else (d1\<lparr>db_tx := db_tx d @ [row]\<rparr>, Inr (er_seq row)))"

definition db_pool :: "('p db, 'p) pg_pool" where
  "db_pool = \<lparr>px_begin = db_unit (\<lambda>now d. d\<lparr>db_tx := [], db_started := now\<rparr>),
     px_lock = db_unit (\<lambda>now d. d\<lparr>db_locked := True\<rparr>),
     px_version = (\<lambda>d st. db_call (\<lambda>now d. (d, Inr (version_sql st (db_events d @ db_tx d)))) d),
     px_insert = (\<lambda>d mk. db_call (\<lambda>now d. db_insert mk d) d),
     px_commit = db_unit (\<lambda>now d. d\<lparr>db_events := db_events d @ db_tx d, db_tx := [], db_locked := False\<rparr>),
     px_rollback = (\<lambda>d. d\<lparr>db_tx := [], db_locked := False\<rparr>),
     px_events = db_call (\<lambda>now d. (d, Inr (db_events d)))\<rparr>"

definition db_cp_pool :: "'p db cp_pool" where
  "db_cp_pool = \<lparr>cx_get = (\<lambda>d name. db_call (\<lambda>now d. (d, Inr (mget 0 (db_cps d) name))) d),
     cx_set = (\<lambda>d name seq. db_unit (\<lambda>now d. d\<lparr>db_cps := (db_cps d)(name \<mapsto> seq)\<rparr>) d)\<rparr>"

lemma db_pool_simps:
  "px_begin db_pool = db_unit (\<lambda>now d. d\<lparr>db_tx := [], db_started := now\<rparr>)"
  "px_lock db_pool = db_unit (\<lambda>now d. d\<lparr>db_locked := True\<rparr>)"
  "px_version db_pool d st = db_call (\<lambda>now d. (d, Inr (version_sql st (db_events d @ db_tx d)))) d"
  "px_insert db_pool d mk = db_call (\<lambda>now d. db_insert mk d) d"
  "px_commit db_pool = db_unit (\<lambda>now d. d\<lparr>db_events := db_events d @ db_tx d, db_tx := [], db_locked := False\<rparr>)"
  "px_events db_pool = db_call (\<lambda>now d. (d, Inr (db_events d)))"
  by (simp_all add: db_pool_def)

section \<open>The table and the log\<close>

definition rec_of :: "md_codec \<Rightarrow> 'p event_row \<Rightarrow> 'p recorded" where
  "rec_of mc r = \<lparr>rec_seq = er_seq r, rec_stream = er_stream r, rec_version = er_version r,
     rec_name = er_name r, rec_schema = er_schema r, rec_payload = er_payload r,
     rec_meta = projr (unmarshal_metadata mc (er_meta r)), rec_at = er_at r\<rparr>"

lemma rec_of_simps [simp]:
  "rec_seq (rec_of mc r) = er_seq r" "rec_stream (rec_of mc r) = er_stream r"
  "rec_version (rec_of mc r) = er_version r"
  by (simp_all add: rec_of_def)

definition meta_readable :: "md_codec \<Rightarrow> json \<Rightarrow> bool" where
  "meta_readable mc j \<longleftrightarrow> (\<exists>m. unmarshal_metadata mc j = Inr m)"

text \<open>A table the adapter can read back: a well-formed log below the next identity value.\<close>

definition rows_ok :: "md_codec \<Rightarrow> 'p event_row list \<Rightarrow> int \<Rightarrow> bool" where
  "rows_ok mc rows next \<longleftrightarrow> wf_log (map (rec_of mc) rows) \<and> 0 < next \<and>
     (\<forall>r\<in>set rows. er_seq r < next \<and> meta_readable mc (er_meta r))"

lemma scan_event_ok: "meta_readable mc (er_meta r) \<Longrightarrow> scan_event mc r = Inr (rec_of mc r)"
  by (auto simp: scan_event_def rec_of_def meta_readable_def)

lemma scan_events_ok:
  "\<forall>r\<in>set rows. meta_readable mc (er_meta r) \<Longrightarrow> scan_events mc out rows = Inr (out @ map (rec_of mc) rows)"
  by (induction rows arbitrary: out) (simp_all add: scan_event_ok)

lemma stream_recs_rows:
  "stream_recs (map (rec_of mc) rows) st = map (rec_of mc) (filter (\<lambda>r. er_stream r = st) rows)"
  by (simp add: stream_recs_def filter_map comp_def)

lemma stream_versions:
  assumes "rows_ok mc rows next"
  shows "map er_version (filter (\<lambda>r. er_stream r = st) rows) =
    map (\<lambda>i. int i + 1) [0..<length (filter (\<lambda>r. er_stream r = st) rows)]"
proof -
  have "map rec_version (stream_recs (map (rec_of mc) rows) st) =
      map (\<lambda>i. int i + 1) [0..<length (stream_recs (map (rec_of mc) rows) st)]"
    using assms unfolding rows_ok_def wf_log_def by blast
  then show ?thesis by (simp add: stream_recs_rows comp_def)
qed

lemma Max_upto: "Max ((\<lambda>i. int i + 1) ` {0..<Suc n}) = int n + 1"
  by (rule Max_eqI) auto

lemma version_sql_is:
  assumes "rows_ok mc rows next"
  shows "version_sql st rows = stream_version (map (rec_of mc) rows) st"
proof (cases "filter (\<lambda>r. er_stream r = st) rows")
  case Nil
  then show ?thesis by (simp add: version_sql_def stream_version_def stream_recs_rows)
next
  case (Cons r rs)
  then obtain n where n: "length (filter (\<lambda>r. er_stream r = st) rows) = Suc n" by simp
  have "set (map er_version (filter (\<lambda>r. er_stream r = st) rows)) = (\<lambda>i. int i + 1) ` {0..<Suc n}"
    unfolding stream_versions[OF assms] n by (simp only: set_map set_upt)
  then show ?thesis using Cons n
    by (simp add: version_sql_def stream_version_def stream_recs_rows Let_def Max_upto del: set_map)
qed

lemma sorted_versions:
  assumes "rows_ok mc rows next"
  shows "sorted (map er_version (filter (\<lambda>r. er_stream r = st) rows))"
  unfolding stream_versions[OF assms] by (simp add: sorted_map sorted_wrt_iff_nth_less)

lemma sorted_seqs: "rows_ok mc rows next \<Longrightarrow> sorted_wrt (<) (map er_seq rows)"
  by (auto simp: rows_ok_def wf_log_def pos_log_def comp_def)

lemma rows_ok_mono: "rows_ok mc rows n \<Longrightarrow> n \<le> m \<Longrightarrow> rows_ok mc rows m"
  by (auto simp: rows_ok_def)

text \<open>The one step everything is made of: a row with the next identity and the next version.\<close>

lemma rows_ok_push:
  assumes ok: "rows_ok mc rows next" and "meta_readable mc md" "next \<le> seq"
  shows "rows_ok mc (rows @ [new_row st (stream_version (map (rec_of mc) rows) st + 1) e md seq at]) (seq + 1)"
proof -
  let ?r = "new_row st (stream_version (map (rec_of mc) rows) st + 1) e md seq at"
  have "pos_log rec_seq (map (rec_of mc) rows @ [rec_of mc ?r])"
    using assms by (auto simp: rows_ok_def wf_log_def pos_log_def sorted_wrt_append new_row_def)
  moreover have "appended st [ed_of (rec_of mc ?r)] [rec_of mc ?r]"
    by (simp add: appended_def new_row_def)
  ultimately have "wf_log (map (rec_of mc) rows @ [rec_of mc ?r])"
    using ok by (intro wf_log_append) (auto simp: rows_ok_def new_row_def)
  then show ?thesis using assms by (auto simp: rows_ok_def new_row_def)
qed

section \<open>Between the statements\<close>

definition sched_ok :: "md_codec \<Rightarrow> 'p db_happening list \<Rightarrow> bool" where
  "sched_ok mc hs \<longleftrightarrow> (\<forall>h\<in>set hs. \<forall>(st, es)\<in>set (dh_others h). \<forall>(e, md)\<in>set es. meta_readable mc md)"

definition db_ok :: "md_codec \<Rightarrow> 'p db \<Rightarrow> bool" where
  "db_ok mc d \<longleftrightarrow> rows_ok mc (db_events d @ db_tx d) (db_next d) \<and> sched_ok mc (db_sched d) \<and>
     (db_locked d \<or> db_tx d = [])"

definition pg_inv :: "md_codec \<Rightarrow> 'p db \<Rightarrow> bool" where
  "pg_inv mc d \<longleftrightarrow> db_ok mc d \<and> \<not> db_locked d"

definition pg_log :: "md_codec \<Rightarrow> 'p db \<Rightarrow> 'p recorded list" where
  "pg_log mc d = map (rec_of mc) (db_events d)"

definition tx_log :: "md_codec \<Rightarrow> 'p db \<Rightarrow> 'p recorded list" where
  "tx_log mc d = map (rec_of mc) (db_tx d)"

lemma pg_inv_new: "sched_ok mc sched \<Longrightarrow> pg_inv mc (new_db sched)"
  by (simp add: pg_inv_def db_ok_def new_db_def rows_ok_def)

lemma commit_rows_ok:
  assumes "db_ok mc d" "db_tx d = []" "\<forall>(e, md)\<in>set es. meta_readable mc md" "d' = commit_rows now st es d"
  shows "db_ok mc d' \<and> db_tx d' = [] \<and> prefix (pg_log mc d) (pg_log mc d') \<and> db_locked d' = db_locked d"
  using assms
proof (induction es arbitrary: d)
  case (Cons x es)
  obtain e md where x: "x = (e, md)" by force
  let ?r = "new_row st (version_sql st (db_events d) + 1) e md (db_next d) now"
  let ?d = "d\<lparr>db_events := db_events d @ [?r], db_next := db_next d + 1\<rparr>"
  have rows: "rows_ok mc (db_events d) (db_next d)" using Cons.prems(1,2) by (simp add: db_ok_def)
  have "rows_ok mc (db_events d @ [?r]) (db_next d + 1)"
    unfolding version_sql_is[OF rows] using rows_ok_push[OF rows] Cons.prems(3) x by simp
  then have "db_ok mc ?d" using Cons.prems(1,2) by (simp add: db_ok_def)
  from Cons.IH[OF this] Cons.prems(2-4) x show ?case
    by (auto simp: pg_log_def prefix_def)
qed simp

lemma others_ok:
  assumes "db_ok mc d" "db_tx d = []" "\<forall>(st, es)\<in>set xs. \<forall>(e, md)\<in>set es. meta_readable mc md"
    and "d' = fold (\<lambda>(st, es) d. commit_rows now st es d) xs d"
  shows "db_ok mc d' \<and> db_tx d' = [] \<and> prefix (pg_log mc d) (pg_log mc d') \<and> db_locked d' = db_locked d"
  using assms
proof (induction xs arbitrary: d)
  case (Cons x xs)
  obtain st es where x: "x = (st, es)" by force
  from Cons.prems(3) x have m: "\<forall>(e, md)\<in>set es. meta_readable mc md" by simp
  note c = commit_rows_ok[OF Cons.prems(1,2) m refl, of now st]
  from Cons.IH[of "commit_rows now st es d"] c Cons.prems(3,4) x show ?case
    by (auto intro: prefix_order.trans)
qed simp

lemma db_tick_ok:
  assumes "db_ok mc d" "db_tick d = (d', now, f)"
  shows "db_ok mc d' \<and> db_locked d' = db_locked d \<and> prefix (pg_log mc d) (pg_log mc d') \<and>
    (db_locked d \<longrightarrow> db_events d' = db_events d \<and> db_tx d' = db_tx d \<and> db_next d \<le> db_next d')"
proof (cases "db_sched d")
  case Nil
  with assms show ?thesis by (simp add: db_tick_def)
next
  case (Cons h hs)
  let ?d1 = "d\<lparr>db_sched := hs, db_next := db_next d + int (dh_gap h)\<rparr>"
  have ok: "db_ok mc ?d1" "\<forall>(st, es)\<in>set (dh_others h). \<forall>(e, md)\<in>set es. meta_readable mc md"
    using assms(1) Cons rows_ok_mono[of mc "db_events d @ db_tx d" "db_next d" "db_next d + int (dh_gap h)"]
    by (auto simp: db_ok_def sched_ok_def)
  show ?thesis
  proof (cases "db_locked d")
    case True
    with assms(2) Cons ok show ?thesis by (auto simp: db_tick_def pg_log_def)
  next
    case False
    then have "db_tx ?d1 = []" using assms(1) by (simp add: db_ok_def)
    from others_ok[OF ok(1) this ok(2) refl, of "dh_now h"] assms(2) Cons False show ?thesis
      by (auto simp: db_tick_def pg_log_def)
  qed
qed

text \<open>A call is a tick and then, unless it fails before, its statement.\<close>

lemma db_call_cases:
  assumes "db_call f d = (d', r)" "db_ok mc d"
  obtains d1 now where "db_ok mc d1" "db_locked d1 = db_locked d" "prefix (pg_log mc d) (pg_log mc d1)"
      "db_locked d \<longrightarrow> db_events d1 = db_events d \<and> db_tx d1 = db_tx d \<and> db_next d \<le> db_next d1"
      "f now d1 = (d', r) \<or> (\<exists>msg. r = Inl (ErrExt msg) \<and> (d' = d1 \<or> d' = fst (f now d1)))"
proof -
  obtain d1 now flt where t: "db_tick d = (d1, now, flt)" by (cases "db_tick d") auto
  note ok = db_tick_ok[OF assms(2) t]
  show ?thesis
    by (rule that[of d1 now]) (use ok assms(1) t in \<open>auto simp: db_call_def split: option.splits bool.splits prod.splits\<close>)
qed

lemma db_unit_cases:
  assumes "db_unit f d = (d', r)" "db_ok mc d"
  obtains d1 now where "db_ok mc d1" "db_locked d1 = db_locked d" "prefix (pg_log mc d) (pg_log mc d1)"
      "db_locked d \<longrightarrow> db_events d1 = db_events d \<and> db_tx d1 = db_tx d \<and> db_next d \<le> db_next d1"
      "r = None \<and> d' = f now d1 \<or> (\<exists>msg. r = Some (ErrExt msg) \<and> (d' = d1 \<or> d' = f now d1))"
proof -
  obtain r' where c: "db_call (\<lambda>now d. (f now d, Inr ())) d = (d', r')" "r = (case r' of Inl err \<Rightarrow> Some err | Inr u \<Rightarrow> None)"
    using assms(1) by (auto simp: db_unit_def split: prod.splits sum.splits)
  from db_call_cases[OF c(1) assms(2)] obtain d1 now where d1: "db_ok mc d1" "db_locked d1 = db_locked d"
      "prefix (pg_log mc d) (pg_log mc d1)"
      "db_locked d \<longrightarrow> db_events d1 = db_events d \<and> db_tx d1 = db_tx d \<and> db_next d \<le> db_next d1"
      "(f now d1, Inr ()) = (d', r') \<or> (\<exists>msg. r' = Inl (ErrExt msg) \<and> (d' = d1 \<or> d' = f now d1))"
    by (metis fst_conv)
  show ?thesis by (rule that[OF d1(1-4)]) (use d1(5) c(2) in auto)
qed

section \<open>The append transaction\<close>

lemma wf_log_prefixD: assumes "wf_log (xs @ ys)" shows "wf_log xs"
proof -
  have "map rec_version (stream_recs xs st) = map (\<lambda>i. int i + 1) [0..<length (stream_recs xs st)]" for st
  proof -
    let ?n = "length (stream_recs xs st)"
    have "take ?n (map rec_version (stream_recs (xs @ ys) st)) =
        take ?n (map (\<lambda>i. int i + 1) [0..<length (stream_recs (xs @ ys) st)])"
      using assms by (simp only: wf_log_def)
    then show ?thesis by (simp add: stream_recs_append take_map)
  qed
  then show ?thesis using assms by (simp add: wf_log_def pos_log_append)
qed

lemma rows_ok_prefixD: "rows_ok mc (xs @ ys) next \<Longrightarrow> rows_ok mc xs next"
  using wf_log_prefixD by (auto simp: rows_ok_def)

lemma db_ok_rows: "db_ok mc d \<Longrightarrow> rows_ok mc (db_events d) (db_next d)"
  using rows_ok_prefixD by (auto simp: db_ok_def)

lemma rollback_ok:
  "db_ok mc d \<Longrightarrow> pg_inv mc (px_rollback db_pool d) \<and> pg_log mc (px_rollback db_pool d) = pg_log mc d"
  using db_ok_rows[of mc d] by (simp add: pg_inv_def db_ok_def db_pool_def pg_log_def)

text \<open>An open transaction that holds the lock and has inserted \<open>evs\<close> behind the log \<open>l\<close>.\<close>

definition tx_ok :: "md_codec \<Rightarrow> 'p db \<Rightarrow> 'p recorded list \<Rightarrow> stream_id \<Rightarrow> 'p event_data list \<Rightarrow> bool" where
  "tx_ok mc d l st evs \<longleftrightarrow> db_ok mc d \<and> db_locked d \<and> pg_log mc d = l \<and> appended st evs (tx_log mc d)"

lemma not_conflict [simp]:
  "Wrapf f xs e \<noteq> ErrVersionConflict" "ErrExt msg \<noteq> ErrVersionConflict"
  "int4_error \<noteq> ErrVersionConflict" "duplicate_error \<noteq> ErrVersionConflict"
  "\<not> errors_is int4_error ErrVersionConflict" "\<not> errors_is duplicate_error ErrVersionConflict"
  by (simp_all add: int4_error_def duplicate_error_def ErrVersionConflict_def)

lemma db_insert_ok:
  assumes "tx_ok mc d l st evs" "unmarshal_metadata mc md = Inr (ed_meta e)"
    and "db_insert (new_row st (stream_version l st + int (length evs) + 1) e md) d = (d', r)"
  shows "db_ok mc d' \<and> db_locked d' \<and> pg_log mc d' = l \<and>
    (case r of Inl err \<Rightarrow> err \<in> {int4_error, duplicate_error}
     | Inr seq \<Rightarrow> tx_ok mc d' l st (evs @ [e]) \<and> seq = last_pos rec_seq (tx_log mc d'))"
proof -
  have rows: "rows_ok mc (db_events d @ db_tx d) (db_next d)" and l: "pg_log mc d = l"
    and a: "appended st evs (tx_log mc d)" and sch: "sched_ok mc (db_sched d)" and lk: "db_locked d"
    using assms(1) by (auto simp: tx_ok_def db_ok_def)
  let ?r = "new_row st (stream_version l st + int (length evs) + 1) e md (db_next d) (db_started d)"
  have "length (tx_log mc d) = length evs" using a by (auto simp: appended_def)
  then have v: "stream_version (map (rec_of mc) (db_events d @ db_tx d)) st = stream_version l st + int (length evs)"
    using a l by (simp add: pg_log_def[symmetric] tx_log_def[symmetric] stream_version_def stream_recs_append appended_recs)
  have mr: "meta_readable mc md" using assms(2) by (simp add: meta_readable_def)
  have push: "rows_ok mc ((db_events d @ db_tx d) @ [?r]) (db_next d + 1)"
    using rows_ok_push[OF rows mr order_refl, of st e "db_started d"] unfolding v .
  have next1: "rows_ok mc (db_events d @ db_tx d) (db_next d + 1)" by (rule rows_ok_mono[OF rows]) simp
  have "ed_of (rec_of mc ?r) = e" using assms(2) by (simp add: ed_of_def rec_of_def new_row_def)
  then have app: "appended st (evs @ [e]) (tx_log mc d @ [rec_of mc ?r])"
    using a by (simp add: appended_def new_row_def)
  show ?thesis
    using assms(3) rows push next1 app lk sch l
    by (auto simp: db_insert_def Let_def tx_ok_def db_ok_def pg_log_def tx_log_def last_pos_def new_row_def split: if_splits)
qed

locale metadata_codec =
  fixes mc :: md_codec
  assumes mc_law: "\<exists>j. mc_enc mc m = Inr j \<and> mc_dec mc j = Inr m"
    and mc_empty: "mc_dec mc (JObj []) = Inr fmempty"
begin

lemma marshal_readable:
  obtains j where "marshal_metadata mc m = Inr j" "unmarshal_metadata mc j = Inr m"
proof (cases "m = fmempty")
  case True
  with that show ?thesis by (simp add: marshal_metadata_def unmarshal_metadata_def)
next
  case False
  obtain j where j: "mc_enc mc m = Inr j" "mc_dec mc j = Inr m" using mc_law by blast
  with mc_empty False have "j \<noteq> JObj []" by auto
  with that[of j] j False show ?thesis by (simp add: marshal_metadata_def unmarshal_metadata_def)
qed

lemma insert_loop_ok:
  assumes "tx_ok mc d l st done1" "pg_insert_loop mc db_pool st (stream_version l st) (int (length done1)) last_seq d es = (d', r)"
    and "last_seq = last_pos rec_seq (tx_log mc d)"
  shows "db_ok mc d' \<and> db_locked d' \<and> pg_log mc d' = l \<and>
    (case r of Inl err \<Rightarrow> \<not> errors_is err ErrVersionConflict
     | Inr seq \<Rightarrow> tx_ok mc d' l st (done1 @ es) \<and> seq = last_pos rec_seq (tx_log mc d'))"
  using assms
proof (induction es arbitrary: d done1 last_seq)
  case Nil
  then show ?case by (auto simp: tx_ok_def)
next
  case (Cons e es)
  obtain md where md: "marshal_metadata mc (ed_meta e) = Inr md" "unmarshal_metadata mc md = Inr (ed_meta e)"
    by (rule marshal_readable)
  let ?mk = "new_row st (stream_version l st + int (length done1) + 1) e md"
  obtain d1 r1 where c: "db_call (\<lambda>now d. db_insert ?mk d) d = (d1, r1)" by force
  have dok: "db_ok mc d" "db_locked d" using Cons.prems(1) by (auto simp: tx_ok_def)
  from db_call_cases[OF c dok(1)] obtain d0 now where d0: "db_ok mc d0" "db_locked d0 = db_locked d"
      "db_locked d \<longrightarrow> db_events d0 = db_events d \<and> db_tx d0 = db_tx d \<and> db_next d \<le> db_next d0"
      "db_insert ?mk d0 = (d1, r1) \<or> (\<exists>msg. r1 = Inl (ErrExt msg) \<and> (d1 = d0 \<or> d1 = fst (db_insert ?mk d0)))"
    by metis
  have t0: "tx_ok mc d0 l st done1"
    using Cons.prems(1) d0(1-3) dok(2) by (simp add: tx_ok_def pg_log_def tx_log_def)
  obtain d2 r2 where i: "db_insert ?mk d0 = (d2, r2)" by force
  note ins = db_insert_ok[OF t0 md(2) i]
  have step: "pg_insert_loop mc db_pool st (stream_version l st) (int (length done1)) last_seq d (e # es) =
    (case r1 of Inl err \<Rightarrow> (d1, Inl (Wrapf ''espostgres: append: insert: %w'' [] err))
     | Inr seq \<Rightarrow> pg_insert_loop mc db_pool st (stream_version l st) (int (length done1) + 1) seq d1 es)"
    using c by (simp add: md(1) db_pool_simps split: sum.split)
  show ?case
  proof (cases r1)
    case (Inr seq)
    then have "d1 = d2" "r2 = Inr seq" using d0(4) i by auto
    with ins have t1: "tx_ok mc d1 l st (done1 @ [e])" and sq: "seq = last_pos rec_seq (tx_log mc d1)" by auto
    have n: "int (length (done1 @ [e])) = int (length done1) + 1" by simp
    from Cons.IH[OF t1 _ sq, unfolded n] Cons.prems(2) step Inr show ?thesis by (cases r) auto
  next
    case (Inl err)
    have "db_ok mc d1 \<and> db_locked d1 \<and> pg_log mc d1 = l"
      using d0(4) i ins t0 by (auto simp: tx_ok_def)
    moreover have "err \<in> {int4_error, duplicate_error} \<or> (\<exists>msg. err = ErrExt msg)"
      using d0(4) i ins Inl by auto
    ultimately show ?thesis using Cons.prems(2) step Inl by auto
  qed
qed

text \<open>The transaction up to its first insert: at the lock, nothing but faults and lost identities goes on.\<close>

lemma tx_opened:
  assumes "pg_inv mc d" "px_begin db_pool d = (d1, None)" "px_lock db_pool d1 = (d2, None)"
  shows "tx_ok mc d2 (pg_log mc d2) st [] \<and> prefix (pg_log mc d) (pg_log mc d2)"
proof -
  have ok: "db_ok mc d" "\<not> db_locked d" using assms(1) by (auto simp: pg_inv_def)
  obtain d0 t0 where d0: "db_ok mc d0" "\<not> db_locked d0" "prefix (pg_log mc d) (pg_log mc d0)"
      "d1 = d0\<lparr>db_tx := [], db_started := t0\<rparr>"
    by (rule db_unit_cases[OF assms(2)[unfolded db_pool_simps] ok(1)]) (use ok(2) in auto)
  then have d1: "db_ok mc d1" "\<not> db_locked d1" "pg_log mc d1 = pg_log mc d0"
    using db_ok_rows[of mc d0] by (auto simp: db_ok_def pg_log_def)
  obtain d0' where "db_ok mc d0'" "\<not> db_locked d0'" "prefix (pg_log mc d1) (pg_log mc d0')" "d2 = d0'\<lparr>db_locked := True\<rparr>"
    by (rule db_unit_cases[OF assms(3)[unfolded db_pool_simps] d1(1)]) (use d1(2) in auto)
  then show ?thesis
    using d0 d1(3) by (auto simp: tx_ok_def db_ok_def pg_log_def tx_log_def appended_def intro: prefix_order.trans)
qed

lemma begin_failed:
  assumes "pg_inv mc d" "px_begin db_pool d = (d1, Some err)"
  shows "pg_inv mc d1 \<and> prefix (pg_log mc d) (pg_log mc d1) \<and> (\<exists>msg. err = ErrExt msg)"
proof -
  have ok: "db_ok mc d" "\<not> db_locked d" using assms(1) by (auto simp: pg_inv_def)
  show ?thesis
    by (rule db_unit_cases[OF assms(2)[unfolded db_pool_simps] ok(1)])
       (use ok(2) db_ok_rows in \<open>auto simp: pg_inv_def db_ok_def pg_log_def\<close>)
qed

lemma lock_failed:
  assumes "pg_inv mc d" "px_begin db_pool d = (d1, None)" "px_lock db_pool d1 = (d2, Some err)"
  shows "db_ok mc d2 \<and> prefix (pg_log mc d) (pg_log mc d2) \<and> (\<exists>msg. err = ErrExt msg)"
proof -
  have ok: "db_ok mc d" "\<not> db_locked d" using assms(1) by (auto simp: pg_inv_def)
  obtain d0 t0 where d0: "db_ok mc d0" "\<not> db_locked d0" "prefix (pg_log mc d) (pg_log mc d0)"
      "d1 = d0\<lparr>db_tx := [], db_started := t0\<rparr>"
    by (rule db_unit_cases[OF assms(2)[unfolded db_pool_simps] ok(1)]) (use ok(2) in auto)
  then have d1: "db_ok mc d1" "\<not> db_locked d1" "pg_log mc d1 = pg_log mc d0"
    using db_ok_rows[of mc d0] by (auto simp: db_ok_def pg_log_def)
  show ?thesis
    by (rule db_unit_cases[OF assms(3)[unfolded db_pool_simps] d1(1)])
       (use d0 d1 in \<open>auto simp: db_ok_def pg_log_def intro: prefix_order.trans\<close>)
qed

lemma version_read:
  assumes "tx_ok mc d l st []" "px_version db_pool d st = (d1, r)"
  shows "tx_ok mc d1 l st [] \<and> (case r of Inl err \<Rightarrow> \<exists>msg. err = ErrExt msg | Inr v \<Rightarrow> v = stream_version l st)"
proof -
  have ok: "db_ok mc d" "db_locked d" "db_tx d = []" using assms(1) by (auto simp: tx_ok_def appended_def tx_log_def)
  obtain d0 now where d0: "db_ok mc d0" "db_locked d0" "db_events d0 = db_events d" "db_tx d0 = []"
      "(d0, Inr (version_sql st (db_events d0 @ db_tx d0))) = (d1, r) \<or> (\<exists>msg. r = Inl (ErrExt msg) \<and> d1 = d0)"
    by (rule db_call_cases[OF assms(2)[unfolded db_pool_simps] ok(1)]) (use ok(2,3) in auto)
  have t: "tx_ok mc d0 l st []" using assms(1) d0(1-4) ok(3) by (simp add: tx_ok_def pg_log_def tx_log_def)
  have "version_sql st (db_events d0 @ db_tx d0) = stream_version l st"
    using version_sql_is[OF db_ok_rows[OF d0(1)], of st] d0(4) t by (simp add: tx_ok_def pg_log_def)
  with d0(5) t show ?thesis by auto
qed

lemma committed:
  assumes "tx_ok mc d l st evs" "px_commit db_pool d = (d1, r)"
  shows "db_ok mc d1 \<and> (case r of
     Some err \<Rightarrow> (\<exists>msg. err = ErrExt msg) \<and> (pg_log mc d1 = l \<or> (\<exists>new. appended st evs new \<and> pg_log mc d1 = l @ new))
   | None \<Rightarrow> appended st evs (tx_log mc d) \<and> pg_log mc d1 = l @ tx_log mc d)"
proof -
  have ok: "db_ok mc d" "db_locked d" using assms(1) by (auto simp: tx_ok_def)
  obtain d0 where d0: "db_ok mc d0" "db_locked d0" "db_events d0 = db_events d" "db_tx d0 = db_tx d"
      "r = None \<and> d1 = d0\<lparr>db_events := db_events d0 @ db_tx d0, db_tx := [], db_locked := False\<rparr> \<or>
       (\<exists>msg. r = Some (ErrExt msg) \<and> (d1 = d0 \<or> d1 = d0\<lparr>db_events := db_events d0 @ db_tx d0, db_tx := [], db_locked := False\<rparr>))"
    by (rule db_unit_cases[OF assms(2)[unfolded db_pool_simps] ok(1)]) (use ok(2) in auto)
  then show ?thesis
    using assms(1) by (auto simp: tx_ok_def db_ok_def pg_log_def tx_log_def)
qed

text \<open>What is left of an append once its transaction holds the lock.\<close>

definition locked_append :: "'p db \<Rightarrow> stream_id \<Rightarrow> int \<Rightarrow> 'p event_data list \<Rightarrow> 'p db \<times> int res" where
  "locked_append d st v evs = (case px_version db_pool d st of
     (w3, Inl err) \<Rightarrow> (px_rollback db_pool w3, Inl (Wrapf ''espostgres: append: current version: %w'' [] err))
   | (w3, Inr current) \<Rightarrow>
      if current \<noteq> v then (px_rollback db_pool w3, Inl (conflict_error st current v))
      else case pg_insert_loop mc db_pool st v 0 0 w3 evs of
        (w4, Inl err) \<Rightarrow> (px_rollback db_pool w4, Inl err)
      | (w4, Inr last_seq) \<Rightarrow>
      (case px_commit db_pool w4 of
        (w5, Some err) \<Rightarrow> (px_rollback db_pool w5, Inl (Wrapf ''espostgres: append: commit: %w'' [] err))
      | (w5, None) \<Rightarrow> (px_rollback db_pool w5, Inr last_seq)))"

lemma locked_append_commits:
  assumes "tx_ok mc d4 l st evs" "seq = last_pos rec_seq (tx_log mc d4)" "px_commit db_pool d4 = (d5, r5)" "evs \<noteq> []"
    and "d' = px_rollback db_pool d5"
    and "r = (case r5 of Some err \<Rightarrow> Inl (Wrapf ''espostgres: append: commit: %w'' [] err) | None \<Rightarrow> Inr seq)"
  shows "pg_inv mc d' \<and> append_spec l st (stream_version l st) evs r (pg_log mc d')"
proof -
  note cm = committed[OF assms(1,3)]
  have rb: "pg_inv mc d'" "pg_log mc d' = pg_log mc d5" using rollback_ok[of mc d5] cm assms(5) by auto
  show ?thesis
  proof (cases r5)
    case None
    with cm have a: "appended st evs (tx_log mc d4)" "pg_log mc d5 = l @ tx_log mc d4" by auto
    then have "tx_log mc d4 \<noteq> []" using assms(4) by (auto simp: appended_def)
    then have "seq = last_pos rec_seq (pg_log mc d5)" using a(2) assms(2) by (simp add: last_pos_def)
    then show ?thesis using rb a None assms(4,6) by (auto simp: append_spec_def)
  next
    case (Some err)
    then have "prefix l (pg_log mc d5)" using cm by auto
    then show ?thesis using rb Some cm assms(6) by (auto simp: append_spec_def)
  qed
qed

lemma locked_append_ok:
  assumes "tx_ok mc d l st []" "locked_append d st v evs = (d', r)" "evs \<noteq> []"
  shows "pg_inv mc d' \<and> append_spec l st v evs r (pg_log mc d')"
proof -
  obtain d3 r3 where q: "px_version db_pool d st = (d3, r3)" by force
  from version_read[OF assms(1) q] have t3: "tx_ok mc d3 l st []"
    and r3: "case r3 of Inl err \<Rightarrow> \<exists>msg. err = ErrExt msg | Inr v \<Rightarrow> v = stream_version l st" by auto
  have d3: "pg_inv mc (px_rollback db_pool d3)" "pg_log mc (px_rollback db_pool d3) = l"
    using t3 rollback_ok[of mc d3] by (auto simp: tx_ok_def)
  consider (fault) err where "r3 = Inl err" | (stale) cur where "r3 = Inr cur" "cur \<noteq> v" | (current) "r3 = Inr v"
    by (cases r3) auto
  then show ?thesis
  proof cases
    case fault
    with r3 d3 q assms(2) show ?thesis by (auto simp: locked_append_def append_spec_def)
  next
    case stale
    with r3 d3 q assms(2) show ?thesis by (auto simp: locked_append_def append_spec_def)
  next
    case current
    then have v: "v = stream_version l st" using r3 by simp
    obtain d4 r4 where i: "pg_insert_loop mc db_pool st v 0 0 d3 evs = (d4, r4)" by force
    have lp: "0 = last_pos rec_seq (tx_log mc d3)" using t3 by (auto simp: tx_ok_def appended_def last_pos_def)
    have il: "db_ok mc d4 \<and> pg_log mc d4 = l \<and> (case r4 of Inl err \<Rightarrow> \<not> errors_is err ErrVersionConflict
         | Inr seq \<Rightarrow> tx_ok mc d4 l st evs \<and> seq = last_pos rec_seq (tx_log mc d4))"
      using insert_loop_ok[OF t3 _ lp, of evs d4 r4] i v by (cases r4) simp_all
    show ?thesis
    proof (cases r4)
      case (Inl err)
      with il rollback_ok[of mc d4] q i current assms(2) show ?thesis by (auto simp: locked_append_def append_spec_def)
    next
      case (Inr seq)
      obtain d5 r5 where c: "px_commit db_pool d4 = (d5, r5)" by force
      have "d' = px_rollback db_pool d5 \<and>
          r = (case r5 of Some err \<Rightarrow> Inl (Wrapf ''espostgres: append: commit: %w'' [] err) | None \<Rightarrow> Inr seq)"
        using assms(2) q i c Inr current by (auto simp: locked_append_def split: option.splits)
      with locked_append_commits[of d4 l st evs seq d5 r5 d' r] il Inr c assms(3) v show ?thesis by simp
    qed
  qed
qed

lemma append_spec_grow:
  assumes "append_spec l st v evs r l'" "prefix l0 l" shows "append_spec l0 st v evs r l'"
proof (cases r)
  case (Inl e)
  with assms show ?thesis by (auto simp: append_spec_def intro: prefix_order.trans)
next
  case (Inr seq)
  show ?thesis
  proof (cases "evs = []")
    case True
    with assms Inr show ?thesis by (auto simp: append_spec_def intro: prefix_order.trans)
  next
    case False
    with assms(1) Inr obtain pre new where "prefix l pre" "l' = pre @ new" "stream_version pre st = v"
        "appended st evs new" "seq = last_pos rec_seq l'" by (auto simp: append_spec_def)
    with prefix_order.trans[OF assms(2)] Inr False show ?thesis unfolding append_spec_def by fastforce
  qed
qed

lemma pg_append_meets_spec:
  assumes "pg_inv mc d" "pg_append mc db_pool d st v evs = (d', r)"
  shows "pg_inv mc d' \<and> append_spec (pg_log mc d) st v evs r (pg_log mc d')"
proof -
  obtain d1 r1 where b: "px_begin db_pool d = (d1, r1)" by force
  obtain d2 r2 where k: "px_lock db_pool d1 = (d2, r2)" by force
  consider "evs = []" | (unopened) err where "evs \<noteq> []" "r1 = Some err" | (unlocked) err where "evs \<noteq> []" "r1 = None" "r2 = Some err"
    | (opened) "evs \<noteq> []" "r1 = None" "r2 = None" by (cases r1; cases r2) auto
  then show ?thesis
  proof cases
    case 1
    with assms show ?thesis by (auto simp: pg_append_def append_spec_def)
  next
    case unopened
    with begin_failed[OF assms(1)] b assms(2) show ?thesis by (auto simp: pg_append_def append_spec_def)
  next
    case unlocked
    then have "db_ok mc d2 \<and> prefix (pg_log mc d) (pg_log mc d2) \<and> (\<exists>msg. err = ErrExt msg)"
      using lock_failed[OF assms(1), of d1 d2 err] b k by simp
    with rollback_ok[of mc d2] unlocked b k assms(2) show ?thesis by (auto simp: pg_append_def append_spec_def)
  next
    case opened
    then have o: "tx_ok mc d2 (pg_log mc d2) st []" "prefix (pg_log mc d) (pg_log mc d2)"
      using tx_opened[OF assms(1), of d1 d2 st] b k by simp_all
    have "locked_append d2 st v evs = (d', r)"
      using opened b k assms(2) by (simp add: pg_append_def locked_append_def)
    from locked_append_ok[OF o(1) this opened(1)] append_spec_grow[OF _ o(2)] show ?thesis by blast
  qed
qed

section \<open>The reads\<close>

lemma load_sql_is:
  assumes "rows_ok mc rows next"
  shows "map (rec_of mc) (load_sql st after rows) = load_spec (map (rec_of mc) rows) st after"
    "set (load_sql st after rows) \<subseteq> set rows"
proof -
  have "filter (\<lambda>r. er_stream r = st \<and> after < er_version r) rows =
      filter (\<lambda>r. after < er_version r) (filter (\<lambda>r. er_stream r = st) rows)" by (simp add: conj_commute)
  then have "load_sql st after rows = filter (\<lambda>r. after < er_version r) (filter (\<lambda>r. er_stream r = st) rows)"
    using sorted_filter[OF sorted_versions[OF assms], of "\<lambda>r. after < er_version r" st]
    by (simp add: load_sql_def sort_key_id_if_sorted del: filter_filter)
  then show "map (rec_of mc) (load_sql st after rows) = load_spec (map (rec_of mc) rows) st after"
    "set (load_sql st after rows) \<subseteq> set rows"
    by (auto simp: load_spec_def stream_recs_rows filter_map comp_def)
qed

lemma read_sql_is:
  assumes "rows_ok mc rows next"
  shows "map (rec_of mc) (read_sql after limit rows) = tail_batch rec_seq after limit (map (rec_of mc) rows)"
    "set (read_sql after limit rows) \<subseteq> set rows"
proof -
  have "sorted (map er_seq rows)" using sorted_seqs[OF assms] by (rule strict_sorted_imp_sorted)
  then have "read_sql after limit rows = take_limit limit (filter (\<lambda>r. after < er_seq r) rows)"
    by (simp add: read_sql_def sort_key_id_if_sorted sorted_filter take_limit_def Let_def)
  then show "map (rec_of mc) (read_sql after limit rows) = tail_batch rec_seq after limit (map (rec_of mc) rows)"
    "set (read_sql after limit rows) \<subseteq> set rows"
    by (auto simp: tail_batch_def take_limit_def filter_map comp_def take_map dest: in_set_takeD split: if_splits)
qed

lemma head_sql_is:
  assumes "rows_ok mc rows next" shows "head_sql rows = last_pos rec_seq (map (rec_of mc) rows)"
proof (cases "rows = []")
  case False
  have p: "pos_log rec_seq (map (rec_of mc) rows)" using assms by (auto simp: rows_ok_def wf_log_pos)
  have "er_seq r \<le> er_seq (last rows)" if "r \<in> set rows" for r
    using pos_log_le_last[OF p, of "rec_of mc r"] that False by (simp add: last_pos_def last_map)
  then have "Max (er_seq ` set rows) = er_seq (last rows)" using False by (intro Max_eqI) auto
  with False show ?thesis by (simp add: head_sql_def last_pos_def last_map)
qed (simp add: head_sql_def last_pos_def)

lemma events_read:
  assumes "pg_inv mc d" "px_events db_pool d = (d', r)"
  shows "pg_inv mc d' \<and> prefix (pg_log mc d) (pg_log mc d') \<and> rows_ok mc (db_events d') (db_next d') \<and>
    (case r of Inl err \<Rightarrow> True | Inr rows \<Rightarrow> rows = db_events d')"
proof -
  have ok: "db_ok mc d" "\<not> db_locked d" using assms(1) by (auto simp: pg_inv_def)
  show ?thesis
    by (rule db_call_cases[OF assms(2)[unfolded db_pool_simps] ok(1)])
       (use ok(2) db_ok_rows in \<open>auto simp: pg_inv_def\<close>)
qed

lemma scan_rows:
  assumes "rows_ok mc rows next" "set xs \<subseteq> set rows" shows "scan_events mc [] xs = Inr (map (rec_of mc) xs)"
  using assms by (subst scan_events_ok) (auto simp: rows_ok_def)

end

text \<open>The adapter fulfils the port's contract, with the table as the log.\<close>

sublocale metadata_codec \<subseteq> pg: event_store "pg_store_ops mc db_pool" "pg_log mc" "pg_inv mc"
proof (unfold_locales, goal_cases)
  case (1 w)
  then show ?case using db_ok_rows by (auto simp: pg_inv_def pg_log_def rows_ok_def)
next
  case (2 w st v evs w' r)
  then show ?case using pg_append_meets_spec by (simp add: pg_store_ops_def)
next
  case (3 w st after w' r1)
  obtain d r where q: "px_events db_pool w = (d, r)" by force
  note ev = events_read[OF 3(1) q]
  from 3(2) q ev show ?case
    by (auto simp: pg_store_ops_def pg_load_def pg_log_def load_sql_is(1) scan_rows[OF _ load_sql_is(2)] split: sum.splits)
next
  case (4 w after limit w' r1)
  obtain d r where q: "px_events db_pool w = (d, r)" by force
  note ev = events_read[OF 4(1) q]
  from 4(2) q ev show ?case
    by (auto simp: pg_store_ops_def pg_read_all_def pg_log_def read_sql_is(1) scan_rows[OF _ read_sql_is(2)] split: sum.splits)
next
  case (5 w w' r)
  obtain d r where q: "px_events db_pool w = (d, r)" by force
  note ev = events_read[OF 5(1) q]
  from 5(2) q ev show ?case
    by (auto simp: pg_store_ops_def pg_head_def pg_log_def head_sql_is split: sum.splits)
qed

context metadata_codec begin

lemmas pg_log_wf = pg.log_wf
lemmas pg_append_law = pg.append_law
lemmas pg_append_grows = pg.append_grows
lemmas pg_load_law = pg.load_law
lemmas pg_read_law = pg.read_law
lemmas pg_head_law = pg.head_law

end

section \<open>Text metadata\<close>

text \<open>A map of texts as \<open>encoding/json\<close> writes it: one object, its keys in order.\<close>

definition text_codec :: md_codec where
  "text_codec = \<lparr>mc_enc = (\<lambda>m. Inr (JObj (map (\<lambda>(k, v). (k, JStr v)) (sorted_list_of_fmap m)))),
     mc_dec = (\<lambda>j. case j of
        JObj ms \<Rightarrow> Inr (fmap_of_list (map (\<lambda>(k, v). (k, case v of JStr s \<Rightarrow> s | _ \<Rightarrow> [])) ms))
      | _ \<Rightarrow> Inl (type_mismatch ''map''))\<rparr>"

lemma fmap_of_sorted_list: "fmap_of_list (sorted_list_of_fmap m) = m"
  by (rule fmap_ext) (simp add: fmlookup_of_list)

interpretation text_codec: metadata_codec text_codec
proof
  fix m :: metadata
  have "map (\<lambda>(k, v). (k, case v of JStr s \<Rightarrow> s | _ \<Rightarrow> [])) (map (\<lambda>(k, v). (k, JStr v)) (sorted_list_of_fmap m)) =
      sorted_list_of_fmap m"
    by (simp add: comp_def case_prod_unfold)
  then show "\<exists>j. mc_enc text_codec m = Inr j \<and> mc_dec text_codec j = Inr m"
    by (simp add: text_codec_def fmap_of_sorted_list)
qed (simp add: text_codec_def)

section \<open>Checkpoints keep what was set\<close>

lemma db_tick_cps: "db_tick d = (d', now, f) \<Longrightarrow> db_cps d' = db_cps d"
proof -
  have c: "db_cps (commit_rows now st es d) = db_cps d" for now st es and d :: "'a db"
    by (induction now st es d rule: commit_rows.induct) simp_all
  have "db_cps (fold (\<lambda>(st, es) d. commit_rows now st es d) xs d) = db_cps d" for now xs and d :: "'a db"
    by (induction xs arbitrary: d) (auto simp: c)
  then show "db_tick d = (d', now, f) \<Longrightarrow> db_cps d' = db_cps d"
    by (auto simp: db_tick_def Let_def split: list.splits if_splits)
qed

lemma mget_fun_upd: "mget z (m(k \<mapsto> v)) = (mget z m)(k := v)"
  by (rule ext) (simp add: mget_if)

interpretation db_checkpoints: checkpoint_store "pg_cp_ops db_cp_pool" "\<lambda>d. mget 0 (db_cps d)" "\<lambda>_. True"
proof (unfold_locales, goal_cases)
  case (1 w name w' r1)
  obtain d now f where t: "db_tick w = (d, now, f)" by (cases "db_tick w") auto
  with 1(2) db_tick_cps[OF t] show ?case
    by (cases f) (auto simp: pg_cp_ops_def pg_cp_get_def db_cp_pool_def db_call_def split: bool.splits)
next
  case (2 w name seq w' r)
  obtain d now f where t: "db_tick w = (d, now, f)" by (cases "db_tick w") auto
  with 2(2) db_tick_cps[OF t] show ?case
    by (cases f) (auto simp: pg_cp_ops_def pg_cp_set_def db_cp_pool_def db_unit_def db_call_def mget_fun_upd split: bool.splits)
qed

section \<open>The contract and tailing\<close>


text \<open>What a process and everybody else may do to the store after a read.\<close>

inductive pg_runs :: "md_codec \<Rightarrow> 'p db \<Rightarrow> 'p db \<Rightarrow> bool" for mc d where
  here: "pg_runs mc d d"
| append: "pg_runs mc d d1 \<Longrightarrow> pg_append mc db_pool d1 st v evs = (d2, r) \<Longrightarrow> pg_runs mc d d2"
| load: "pg_runs mc d d1 \<Longrightarrow> pg_load mc db_pool d1 st after = (d2, r1) \<Longrightarrow> pg_runs mc d d2"
| read: "pg_runs mc d d1 \<Longrightarrow> pg_read_all mc db_pool d1 after limit = (d2, r1) \<Longrightarrow> pg_runs mc d d2"
| head: "pg_runs mc d d1 \<Longrightarrow> pg_head db_pool d1 = (d2, r) \<Longrightarrow> pg_runs mc d d2"

lemma pg_runs_grow:
  assumes "pg_runs mc d d'" "metadata_codec mc" "pg_inv mc d"
  shows "pg_inv mc d' \<and> prefix (pg_log mc d) (pg_log mc d')"
  using assms(1,3)
proof (induction rule: pg_runs.induct)
  case here
  then show ?case by simp
next
  case (append d1 st v evs d2 r)
  have "st_append (pg_store_ops mc db_pool) d1 st v evs = (d2, r)" using append(2) by (simp add: pg_store_ops_def)
  with metadata_codec.pg_append_law[OF assms(2)] metadata_codec.pg_append_grows[OF assms(2)] append(3,4) show ?case
    by (meson prefix_order.trans)
next
  case (load d1 st after d2 r1)
  have "st_load (pg_store_ops mc db_pool) d1 st after = (d2, r1)" using load(2) by (simp add: pg_store_ops_def)
  with metadata_codec.pg_load_law[OF assms(2)] load(3,4) show ?case by (meson prefix_order.trans)
next
  case (read d1 after limit d2 r1)
  have "st_read_all (pg_store_ops mc db_pool) d1 after limit = (d2, r1)" using read(2) by (simp add: pg_store_ops_def)
  with metadata_codec.pg_read_law[OF assms(2)] read(3,4) show ?case by (meson prefix_order.trans)
next
  case (head d1 d2 r)
  have "st_head (pg_store_ops mc db_pool) d1 = (d2, r)" using head(2) by (simp add: pg_store_ops_def)
  with metadata_codec.pg_head_law[OF assms(2)] head(3,4) show ?case by (meson prefix_order.trans)
qed


section \<open>Witnesses\<close>

definition demo_pg_stream :: stream_id where
  "demo_pg_stream = \<lparr>si_category = ''order'', si_id = ''42''\<rparr>"

definition demo_pg_event :: "string event_data" where
  "demo_pg_event = \<lparr>ed_name = ''placed'', ed_schema = 1, ed_payload = ''a'', ed_meta = fmempty\<rparr>"

text \<open>Another appender is one transaction ahead, and two identity values are lost.\<close>

definition demo_pg :: "string db" where
  "demo_pg = new_db [\<lparr>dh_now = 5, dh_others = [(demo_pg_stream, [(demo_pg_event, JObj [])])], dh_gap = 2, dh_fault = None\<rparr>]"

lemma demo_pg_inv: "pg_inv text_codec demo_pg"
  unfolding demo_pg_def
  by (rule pg_inv_new) (simp add: sched_ok_def meta_readable_def unmarshal_metadata_def)

lemmas demo_pg_simps = demo_pg_def new_db_def demo_pg_event_def demo_pg_stream_def db_pool_def db_unit_def db_call_def
  db_tick_def db_insert_def version_sql_def new_row_def in_int4_def marshal_metadata_def



end
