(* ===== verification/Summary.thy ===== *)
theory Summary
  imports Ordering Projection Postgres
begin

text \<open>
  The order_summary read model: its port (\<open>ports/ports.go\<close>), the statements of the PostgreSQL
  adapters over their two tables (\<open>adapters/postgres/summary.go\<close>, \<open>notifications.go\<close>), and the
  projection that feeds them (\<open>app/projection.go\<close>). A statement is its effect on the tables; how
  the pool runs it (at most once, perhaps with an error after it took effect) is an argument.
\<close>

section \<open>The ports\<close>

definition ErrOrderNotFound :: gerr where
  "ErrOrderNotFound = new_domain_error ''not_found'' ''order does not exist''"

definition RankPlaced :: int where "RankPlaced = 1"
definition RankPaid :: int where "RankPaid = 2"
definition RankReserved :: int where "RankReserved = 3"
definition RankShipped :: int where "RankShipped = 4"
definition RankPaymentFailed :: int where "RankPaymentFailed = 10"
definition RankRejected :: int where "RankRejected = 11"
definition RankRefunded :: int where "RankRefunded = 12"

lemmas rank_defs =
  RankPlaced_def RankPaid_def RankReserved_def RankShipped_def RankPaymentFailed_def RankRejected_def
  RankRefunded_def

record order_summary =
  os_order_id :: string
  os_customer_id :: string
  os_cents :: int
  os_currency :: string
  os_qty :: int
  os_status :: string
  os_placed_at :: instant

record pending_notification =
  pn_id :: int
  pn_order_id :: string
  pn_reason :: string
  pn_meta :: metadata

record 'w notification_queue =
  nq_enqueue :: "'w \<Rightarrow> string \<Rightarrow> string \<Rightarrow> metadata \<Rightarrow> 'w \<times> gerr option"
  nq_pending :: "'w \<Rightarrow> int \<Rightarrow> 'w \<times> pending_notification list res"
  nq_mark_sent :: "'w \<Rightarrow> int \<Rightarrow> 'w \<times> gerr option"

record 'w summary_store =
  ss_upsert_placed :: "'w \<Rightarrow> order_summary \<Rightarrow> 'w \<times> gerr option"
  ss_set_status :: "'w \<Rightarrow> string \<Rightarrow> string \<Rightarrow> int \<Rightarrow> 'w \<times> gerr option"
  ss_get :: "'w \<Rightarrow> string \<Rightarrow> 'w \<times> order_summary res"

section \<open>The tables\<close>

text \<open>The column \<open>updated_at\<close> is written and never read, so it is left out.\<close>

record summary_row =
  sr_customer_id :: string
  sr_cents :: int
  sr_currency :: string
  sr_qty :: int
  sr_status :: string
  sr_rank :: int
  sr_placed_at :: "instant option"

definition default_row :: summary_row where
  "default_row = \<lparr>sr_customer_id = [], sr_cents = 0, sr_currency = [], sr_qty = 0, sr_status = [],
     sr_rank = 0, sr_placed_at = None\<rparr>"

record notification_row =
  nr_id :: int
  nr_order_id :: string
  nr_reason :: string
  nr_meta :: json
  nr_sent_at :: "instant option"

text \<open>\<open>rs_next\<close> is the identity sequence of the worklist; a conflicting insert consumes a value too.\<close>

record read_side =
  rs_rows :: "string \<rightharpoonup> summary_row"
  rs_queue :: "notification_row list"
  rs_next :: int

section \<open>The statements\<close>

definition upsert_placed_sql :: "order_summary \<Rightarrow> read_side \<Rightarrow> read_side res" where
  "upsert_placed_sql s v =
     (if \<not> in_int4 (os_qty s) then Inl int4_error
      else Inr (v\<lparr>rs_rows := (rs_rows v)(os_order_id s \<mapsto>
        (case rs_rows v (os_order_id s) of
           None \<Rightarrow> \<lparr>sr_customer_id = os_customer_id s, sr_cents = os_cents s, sr_currency = os_currency s,
             sr_qty = os_qty s, sr_status = ''placed'', sr_rank = RankPlaced, sr_placed_at = Some (os_placed_at s)\<rparr>
         | Some r \<Rightarrow> r\<lparr>sr_customer_id := os_customer_id s, sr_cents := os_cents s, sr_currency := os_currency s,
             sr_qty := os_qty s, sr_placed_at := Some (os_placed_at s),
             sr_status := if RankPlaced \<le> sr_rank r then sr_status r else ''placed'',
             sr_rank := max (sr_rank r) RankPlaced\<rparr>))\<rparr>))"

definition set_status_sql :: "string \<Rightarrow> string \<Rightarrow> int \<Rightarrow> read_side \<Rightarrow> read_side res" where
  "set_status_sql oid status rank v =
     (if \<not> in_int4 rank then Inl int4_error
      else Inr (v\<lparr>rs_rows := (rs_rows v)(oid \<mapsto>
        (case rs_rows v oid of
           None \<Rightarrow> default_row\<lparr>sr_status := status, sr_rank := rank\<rparr>
         | Some r \<Rightarrow> r\<lparr>sr_status := if rank \<le> sr_rank r then sr_status r else status,
             sr_rank := max (sr_rank r) rank\<rparr>))\<rparr>))"

text \<open>\<open>coalesce(placed_at, 'epoch')\<close>: the epoch is instant 0.\<close>

definition get_sql :: "string \<Rightarrow> read_side \<Rightarrow> order_summary option" where
  "get_sql oid v = map_option (\<lambda>r. \<lparr>os_order_id = oid, os_customer_id = sr_customer_id r, os_cents = sr_cents r,
     os_currency = sr_currency r, os_qty = sr_qty r, os_status = sr_status r,
     os_placed_at = (case sr_placed_at r of None \<Rightarrow> 0 | Some t \<Rightarrow> t)\<rparr>) (rs_rows v oid)"

definition enqueue_sql :: "string \<Rightarrow> string \<Rightarrow> json \<Rightarrow> read_side \<Rightarrow> read_side res" where
  "enqueue_sql oid reason md v =
     Inr (if \<exists>r\<in>set (rs_queue v). nr_order_id r = oid \<and> nr_reason r = reason
       then v\<lparr>rs_next := rs_next v + 1\<rparr>
       else v\<lparr>rs_queue := rs_queue v @ [\<lparr>nr_id = rs_next v, nr_order_id = oid, nr_reason = reason, nr_meta = md,
                nr_sent_at = None\<rparr>], rs_next := rs_next v + 1\<rparr>)"

definition pending_sql :: "int \<Rightarrow> read_side \<Rightarrow> notification_row list" where
  "pending_sql limit v = take (nat limit) (sort_key nr_id (filter (\<lambda>r. nr_sent_at r = None) (rs_queue v)))"

definition mark_sent_sql :: "instant \<Rightarrow> int \<Rightarrow> read_side \<Rightarrow> read_side res" where
  "mark_sent_sql now nid v = Inr (v\<lparr>rs_queue := map (\<lambda>r. if nr_id r = nid \<and> nr_sent_at r = None
     then r\<lparr>nr_sent_at := Some now\<rparr> else r) (rs_queue v)\<rparr>)"

section \<open>The adapters\<close>

text \<open>
  What the adapters use of the pool: \<open>Exec\<close> runs one statement as its own transaction, a read
  sees one snapshot of the tables. \<open>pl_now\<close> is the database's clock.
\<close>

record 'w pool =
  pl_exec :: "'w \<Rightarrow> (read_side \<Rightarrow> read_side res) \<Rightarrow> 'w \<times> gerr option"
  pl_query :: "'w \<Rightarrow> 'w \<times> read_side res"
  pl_now :: "'w \<Rightarrow> instant"

definition pg_upsert_placed :: "'w pool \<Rightarrow> 'w \<Rightarrow> order_summary \<Rightarrow> 'w \<times> gerr option" where
  "pg_upsert_placed pool w s =
     (case pl_exec pool w (upsert_placed_sql s) of
        (w1, Some err) \<Rightarrow> (w1, Some (Wrapf ''ordering/postgres: upsert %s: %w'' [FStr (os_order_id s)] err))
      | (w1, None) \<Rightarrow> (w1, None))"

definition pg_set_status :: "'w pool \<Rightarrow> 'w \<Rightarrow> string \<Rightarrow> string \<Rightarrow> int \<Rightarrow> 'w \<times> gerr option" where
  "pg_set_status pool w oid status rank =
     (case pl_exec pool w (set_status_sql oid status rank) of
        (w1, Some err) \<Rightarrow> (w1, Some (Wrapf ''ordering/postgres: set status %s: %w'' [FStr oid] err))
      | (w1, None) \<Rightarrow> (w1, None))"

definition pg_get :: "'w pool \<Rightarrow> 'w \<Rightarrow> string \<Rightarrow> 'w \<times> order_summary res" where
  "pg_get pool w oid =
     (case pl_query pool w of
        (w1, Inl err) \<Rightarrow> (w1, Inl (Wrapf ''ordering/postgres: get %s: %w'' [FStr oid] err))
      | (w1, Inr v) \<Rightarrow>
          (w1, case get_sql oid v of
             None \<Rightarrow> Inl (Wrapf ''%w: %s'' [FStr oid] ErrOrderNotFound)
           | Some s \<Rightarrow> Inr s))"

definition pg_summary_store :: "'w pool \<Rightarrow> 'w summary_store" where
  "pg_summary_store pool = \<lparr>ss_upsert_placed = pg_upsert_placed pool, ss_set_status = pg_set_status pool,
     ss_get = pg_get pool\<rparr>"

definition pg_enqueue :: "md_codec \<Rightarrow> 'w pool \<Rightarrow> 'w \<Rightarrow> string \<Rightarrow> string \<Rightarrow> metadata \<Rightarrow> 'w \<times> gerr option" where
  "pg_enqueue mc pool w oid reason md =
     (case mc_enc mc md of
        Inl err \<Rightarrow> (w, Some (Wrapf ''ordering/postgres: encoding metadata for %s: %w'' [FStr oid] err))
      | Inr encoded \<Rightarrow>
          (case pl_exec pool w (enqueue_sql oid reason encoded) of
             (w1, Some err) \<Rightarrow> (w1, Some (Wrapf ''ordering/postgres: enqueue %s/%s: %w'' [FStr oid, FStr reason] err))
           | (w1, None) \<Rightarrow> (w1, None)))"

fun scan_pending :: "md_codec \<Rightarrow> pending_notification list \<Rightarrow> notification_row list \<Rightarrow> pending_notification list res" where
  "scan_pending mc out [] = Inr out"
| "scan_pending mc out (r # rs) =
     (case mc_dec mc (nr_meta r) of
        Inl err \<Rightarrow> Inl (Wrapf ''ordering/postgres: decode metadata for %d: %w'' [FInt (nr_id r)] err)
      | Inr md \<Rightarrow> scan_pending mc
          (out @ [\<lparr>pn_id = nr_id r, pn_order_id = nr_order_id r, pn_reason = nr_reason r, pn_meta = md\<rparr>]) rs)"

definition pg_pending :: "md_codec \<Rightarrow> 'w pool \<Rightarrow> 'w \<Rightarrow> int \<Rightarrow> 'w \<times> pending_notification list res" where
  "pg_pending mc pool w limit =
     (case pl_query pool w of
        (w1, Inl err) \<Rightarrow> (w1, Inl (Wrapf ''ordering/postgres: pending notifications: %w'' [] err))
      | (w1, Inr v) \<Rightarrow> (w1, scan_pending mc [] (pending_sql limit v)))"

definition pg_mark_sent :: "'w pool \<Rightarrow> 'w \<Rightarrow> int \<Rightarrow> 'w \<times> gerr option" where
  "pg_mark_sent pool w nid =
     (case pl_exec pool w (mark_sent_sql (pl_now pool w) nid) of
        (w1, Some err) \<Rightarrow> (w1, Some (Wrapf ''ordering/postgres: mark sent %d: %w'' [FInt nid] err))
      | (w1, None) \<Rightarrow> (w1, None))"

definition pg_notification_queue :: "md_codec \<Rightarrow> 'w pool \<Rightarrow> 'w notification_queue" where
  "pg_notification_queue mc pool = \<lparr>nq_enqueue = pg_enqueue mc pool, nq_pending = pg_pending mc pool,
     nq_mark_sent = pg_mark_sent pool\<rparr>"

section \<open>The projection\<close>

definition ForeignTopics :: "string list" where
  "ForeignTopics = [TopicBillingEvents, TopicInventoryEvents, TopicShippingEvents]"

definition ReasonShipped :: string where "ReasonShipped = ''shipped''"
definition ReasonPaymentFailed :: string where "ReasonPaymentFailed = ''payment_failed''"

definition on_placed :: "'w summary_store \<Rightarrow> 'w \<Rightarrow> ordering_event \<Rightarrow> meta \<Rightarrow> 'w \<times> gerr option" where
  "on_placed store w e m = (case e of
     OtherEvent n (OrderPlaced p) \<Rightarrow> ss_upsert_placed store w
       \<lparr>os_order_id = id_string (op_id p), os_customer_id = id_string (op_customer p),
        os_cents = mo_cents (op_total p), os_currency = mo_currency (op_total p), os_qty = qu_n (op_qty p),
        os_status = ''placed'', os_placed_at = pm_at m\<rparr>
   | _ \<Rightarrow> (w, Some (ErrNew ''panic: interface conversion'')))"

definition on_failed :: "'w summary_store \<Rightarrow> 'w notification_queue \<Rightarrow> 'w \<Rightarrow> payment_failed_v1 \<Rightarrow> json message \<Rightarrow> 'w \<times> gerr option" where
  "on_failed store queue w e msg =
     (case ss_set_status store w (pfv_order_id e) ''payment_failed'' RankPaymentFailed of
        (w1, Some err) \<Rightarrow> (w1, Some err)
      | (w1, None) \<Rightarrow> nq_enqueue queue w1 (pfv_order_id e) ReasonPaymentFailed (m_meta msg))"

definition on_shipped :: "'w summary_store \<Rightarrow> 'w notification_queue \<Rightarrow> 'w \<Rightarrow> shipment_dispatched_v1 \<Rightarrow> json message \<Rightarrow> 'w \<times> gerr option" where
  "on_shipped store queue w e msg =
     (case ss_set_status store w (sdv_order_id e) ''shipped'' RankShipped of
        (w1, Some err) \<Rightarrow> (w1, Some err)
      | (w1, None) \<Rightarrow> nq_enqueue queue w1 (sdv_order_id e) ReasonShipped (m_meta msg))"

definition new_order_summary_projection ::
  "'w summary_store \<Rightarrow> 'w notification_queue \<Rightarrow> ('w, json, ordering_event) projection option" where
  "new_order_summary_projection store queue =
     Option.bind (new_projection ''order_summary'') (\<lambda>p0.
     Option.bind (pj_on ''ordering.order_placed'' (on_placed store) p0) (\<lambda>p1.
     Option.bind (pj_on_integration ''billing.payment_captured'' 1 unmarshal_payment_captured_v1
       (\<lambda>w e msg. ss_set_status store w (pcv_order_id e) ''paid'' RankPaid) p1) (\<lambda>p2.
     Option.bind (pj_on_integration ''billing.payment_failed'' 1 unmarshal_payment_failed_v1
       (on_failed store queue) p2) (\<lambda>p3.
     Option.bind (pj_on_integration ''inventory.stock_reserved'' 1 unmarshal_stock_reserved_v1
       (\<lambda>w e msg. ss_set_status store w (srv_order_id e) ''reserved'' RankReserved) p3) (\<lambda>p4.
     Option.bind (pj_on_integration ''inventory.stock_rejected'' 1 unmarshal_stock_rejected_v1
       (\<lambda>w e msg. ss_set_status store w (sjv_order_id e) ''rejected'' RankRejected) p4) (\<lambda>p5.
     Option.bind (pj_on_integration ''billing.payment_refunded'' 1 unmarshal_payment_refunded_v1
       (\<lambda>w e msg. ss_set_status store w (prv_order_id e) ''refunded'' RankRefunded) p5) (\<lambda>p6.
     pj_on_integration ''shipping.shipment_dispatched'' 1 unmarshal_shipment_dispatched_v1
       (on_shipped store queue) p6)))))))"

section \<open>What the projection does with an item\<close>

definition typed_foreign ::
  "string \<Rightarrow> ('p \<Rightarrow> 'c res) \<Rightarrow> ('w \<Rightarrow> 'c \<Rightarrow> 'p message \<Rightarrow> 'w \<times> gerr option) \<Rightarrow> ('w, 'p) msg_handler" where
  "typed_foreign key un fn = (\<lambda>w msg. case un (m_payload msg) of
     Inl err \<Rightarrow> (w, Some (Wrapf ''projection %s: decoding %s (message %s): %w''
                   [FStr ''order_summary'', FStr key, FStr (m_id msg)] err))
   | Inr e \<Rightarrow> fn w e msg)"

lemma integration_key_eq [simp]: "integration_key n v = integration_key n' v' \<longleftrightarrow> n = n' \<and> v = v'"
  using integration_key_inj by blast

lemma pj_on_integration_eq:
  assumes "fs (integration_key n v) = None"
  shows "pj_on_integration n v un fn \<lparr>pj_name = ''order_summary'', pj_domain = ds, pj_foreign = fs\<rparr> =
    Some \<lparr>pj_name = ''order_summary'', pj_domain = ds,
      pj_foreign = fs(integration_key n v \<mapsto> typed_foreign (integration_key n v) un fn)\<rparr>"
proof -
  let ?p = "\<lparr>pj_name = ''order_summary'', pj_domain = ds, pj_foreign = fs\<rparr>"
  have "typed_foreign (integration_key n v) un fn = (\<lambda>w msg. case un (m_payload msg) of
      Inl err \<Rightarrow> (w, Some (Wrapf ''projection %s: decoding %s (message %s): %w''
                        [FStr (pj_name ?p), FStr (integration_key n v), FStr (m_id msg)] err))
    | Inr e \<Rightarrow> fn w e msg)"
    by (simp add: typed_foreign_def cong: sum.case_cong)
  then show ?thesis using assms by (simp add: pj_on_integration_def Let_def)
qed

definition summary_projection ::
  "'w summary_store \<Rightarrow> 'w notification_queue \<Rightarrow> ('w, json, ordering_event) projection" where
  "summary_projection store queue = the (new_order_summary_projection store queue)"

lemma summary_registered:
  "new_order_summary_projection store queue = Some (summary_projection store queue)"
  "summary_projection store queue = \<lparr>pj_name = ''order_summary'', pj_domain = [''ordering.order_placed'' \<mapsto> on_placed store],
     pj_foreign =
      [integration_key ''billing.payment_captured'' 1 \<mapsto> typed_foreign (integration_key ''billing.payment_captured'' 1)
         unmarshal_payment_captured_v1 (\<lambda>w e msg. ss_set_status store w (pcv_order_id e) ''paid'' RankPaid),
       integration_key ''billing.payment_failed'' 1 \<mapsto> typed_foreign (integration_key ''billing.payment_failed'' 1)
         unmarshal_payment_failed_v1 (on_failed store queue),
       integration_key ''inventory.stock_reserved'' 1 \<mapsto> typed_foreign (integration_key ''inventory.stock_reserved'' 1)
         unmarshal_stock_reserved_v1 (\<lambda>w e msg. ss_set_status store w (srv_order_id e) ''reserved'' RankReserved),
       integration_key ''inventory.stock_rejected'' 1 \<mapsto> typed_foreign (integration_key ''inventory.stock_rejected'' 1)
         unmarshal_stock_rejected_v1 (\<lambda>w e msg. ss_set_status store w (sjv_order_id e) ''rejected'' RankRejected),
       integration_key ''billing.payment_refunded'' 1 \<mapsto> typed_foreign (integration_key ''billing.payment_refunded'' 1)
         unmarshal_payment_refunded_v1 (\<lambda>w e msg. ss_set_status store w (prv_order_id e) ''refunded'' RankRefunded),
       integration_key ''shipping.shipment_dispatched'' 1 \<mapsto> typed_foreign (integration_key ''shipping.shipment_dispatched'' 1)
         unmarshal_shipment_dispatched_v1 (on_shipped store queue)]\<rparr>"
proof -
  have "new_order_summary_projection store queue = Some \<lparr>pj_name = ''order_summary'', pj_domain = [''ordering.order_placed'' \<mapsto> on_placed store],
     pj_foreign =
      [integration_key ''billing.payment_captured'' 1 \<mapsto> typed_foreign (integration_key ''billing.payment_captured'' 1)
         unmarshal_payment_captured_v1 (\<lambda>w e msg. ss_set_status store w (pcv_order_id e) ''paid'' RankPaid),
       integration_key ''billing.payment_failed'' 1 \<mapsto> typed_foreign (integration_key ''billing.payment_failed'' 1)
         unmarshal_payment_failed_v1 (on_failed store queue),
       integration_key ''inventory.stock_reserved'' 1 \<mapsto> typed_foreign (integration_key ''inventory.stock_reserved'' 1)
         unmarshal_stock_reserved_v1 (\<lambda>w e msg. ss_set_status store w (srv_order_id e) ''reserved'' RankReserved),
       integration_key ''inventory.stock_rejected'' 1 \<mapsto> typed_foreign (integration_key ''inventory.stock_rejected'' 1)
         unmarshal_stock_rejected_v1 (\<lambda>w e msg. ss_set_status store w (sjv_order_id e) ''rejected'' RankRejected),
       integration_key ''billing.payment_refunded'' 1 \<mapsto> typed_foreign (integration_key ''billing.payment_refunded'' 1)
         unmarshal_payment_refunded_v1 (\<lambda>w e msg. ss_set_status store w (prv_order_id e) ''refunded'' RankRefunded),
       integration_key ''shipping.shipment_dispatched'' 1 \<mapsto> typed_foreign (integration_key ''shipping.shipment_dispatched'' 1)
         unmarshal_shipment_dispatched_v1 (on_shipped store queue)]\<rparr>" (is "_ = Some ?p")
    by (simp add: new_order_summary_projection_def new_projection_def pj_on_def pj_on_integration_eq del: fun_upd_apply)
       (simp add: pj_on_integration_eq)
  then show "new_order_summary_projection store queue = Some (summary_projection store queue)"
    "summary_projection store queue = ?p" by (simp_all only: summary_projection_def option.sel)
qed

end
