(* ===== verification/ReadModel.thy ===== *)
theory ReadModel
  imports Summary
begin

text \<open>
  What the order_summary read model shows: the effect of every item on the two tables, the
  reference definition of the row an order has after any history of items, and the independence of
  the interleaving and of redelivery that the projection's contract promises.
\<close>

section \<open>The tables behind a pool that answers at once\<close>

definition direct_pool :: "read_side pool" where
  "direct_pool = \<lparr>pl_exec = (\<lambda>v f. case f v of Inl err \<Rightarrow> (v, Some err) | Inr v1 \<Rightarrow> (v1, None)),
     pl_query = (\<lambda>v. (v, Inr v)), pl_now = (\<lambda>v. 0)\<rparr>"

lemma direct_pool_simps [simp]:
  "pl_exec direct_pool v f = (case f v of Inl err \<Rightarrow> (v, Some err) | Inr v1 \<Rightarrow> (v1, None))"
  "pl_query direct_pool v = (v, Inr v)"
  by (simp_all add: direct_pool_def)

definition empty_side :: read_side where
  "empty_side = \<lparr>rs_rows = Map.empty, rs_queue = [], rs_next = 1\<rparr>"

type_synonym summary_item = "(ordering_event \<times> meta) + json message"

text \<open>An item as the two runners hand it over: an own event with its meta, or a foreign message.\<close>

definition feed_item ::
  "('w, json, ordering_event) projection \<Rightarrow> summary_item \<Rightarrow> 'w \<Rightarrow> 'w \<times> gerr option" where
  "feed_item p z w = (case z of
     Inl (e, m) \<Rightarrow> (case pj_domain p (saga_event_name e) of None \<Rightarrow> (w, None) | Some h \<Rightarrow> h w e m)
   | Inr msg \<Rightarrow> (case pj_foreign p (integration_key (m_type msg) (m_version msg)) of
       None \<Rightarrow> (w, None) | Some h \<Rightarrow> h w msg))"

definition pg_projection :: "md_codec \<Rightarrow> (read_side, json, ordering_event) projection" where
  "pg_projection mc = summary_projection (pg_summary_store direct_pool) (pg_notification_queue mc direct_pool)"

definition feed_all :: "md_codec \<Rightarrow> summary_item list \<Rightarrow> read_side \<Rightarrow> read_side" where
  "feed_all mc zs v = fold (\<lambda>z v. fst (feed_item (pg_projection mc) z v)) zs v"

section \<open>The reference definition\<close>

datatype row_op = PlaceRow order_summary | MarkRow int

text \<open>The status a rank stands for, as the handlers write it.\<close>

definition status_name :: "int \<Rightarrow> string" where
  "status_name k =
     (if k = RankPlaced then ''placed'' else if k = RankPaid then ''paid''
      else if k = RankReserved then ''reserved'' else if k = RankShipped then ''shipped''
      else if k = RankPaymentFailed then ''payment_failed'' else if k = RankRejected then ''rejected''
      else if k = RankRefunded then ''refunded'' else [])"

fun op_rank :: "row_op \<Rightarrow> int" where
  "op_rank (PlaceRow s) = RankPlaced"
| "op_rank (MarkRow k) = k"

definition placed_summary :: "order_placed \<Rightarrow> meta \<Rightarrow> order_summary" where
  "placed_summary p m = \<lparr>os_order_id = id_string (op_id p), os_customer_id = id_string (op_customer p),
     os_cents = mo_cents (op_total p), os_currency = mo_currency (op_total p), os_qty = qu_n (op_qty p),
     os_status = ''placed'', os_placed_at = pm_at m\<rparr>"

text \<open>What a message says of an order: its ID, the rank of its status, the notice it queues.\<close>

definition foreign_fact :: "json message \<Rightarrow> (string \<times> int \<times> string option) option" where
  "foreign_fact msg =
     (if m_version msg \<noteq> 1 then None
      else if m_type msg = ''billing.payment_captured'' then
        (case unmarshal_payment_captured_v1 (m_payload msg) of Inl err \<Rightarrow> None | Inr e \<Rightarrow> Some (pcv_order_id e, RankPaid, None))
      else if m_type msg = ''billing.payment_failed'' then
        (case unmarshal_payment_failed_v1 (m_payload msg) of Inl err \<Rightarrow> None
         | Inr e \<Rightarrow> Some (pfv_order_id e, RankPaymentFailed, Some ReasonPaymentFailed))
      else if m_type msg = ''inventory.stock_reserved'' then
        (case unmarshal_stock_reserved_v1 (m_payload msg) of Inl err \<Rightarrow> None | Inr e \<Rightarrow> Some (srv_order_id e, RankReserved, None))
      else if m_type msg = ''inventory.stock_rejected'' then
        (case unmarshal_stock_rejected_v1 (m_payload msg) of Inl err \<Rightarrow> None | Inr e \<Rightarrow> Some (sjv_order_id e, RankRejected, None))
      else if m_type msg = ''billing.payment_refunded'' then
        (case unmarshal_payment_refunded_v1 (m_payload msg) of Inl err \<Rightarrow> None | Inr e \<Rightarrow> Some (prv_order_id e, RankRefunded, None))
      else if m_type msg = ''shipping.shipment_dispatched'' then
        (case unmarshal_shipment_dispatched_v1 (m_payload msg) of Inl err \<Rightarrow> None
         | Inr e \<Rightarrow> Some (sdv_order_id e, RankShipped, Some ReasonShipped))
      else None)"

definition item_op :: "summary_item \<Rightarrow> (string \<times> row_op) option" where
  "item_op z = (case z of
     Inl (OtherEvent n (OrderPlaced p), m) \<Rightarrow>
       (if n = ''ordering.order_placed'' \<and> in_int4 (qu_n (op_qty p))
        then Some (id_string (op_id p), PlaceRow (placed_summary p m)) else None)
   | Inl _ \<Rightarrow> None
   | Inr msg \<Rightarrow> map_option (\<lambda>(oid, k, notice). (oid, MarkRow k)) (foreign_fact msg))"

definition item_notice :: "summary_item \<Rightarrow> (string \<times> string) option" where
  "item_notice z = (case z of Inl _ \<Rightarrow> None
   | Inr msg \<Rightarrow> (case foreign_fact msg of Some (oid, k, Some reason) \<Rightarrow> Some (oid, reason) | _ \<Rightarrow> None))"

definition ops_of :: "string \<Rightarrow> summary_item list \<Rightarrow> row_op list" where
  "ops_of oid zs = map snd (filter (\<lambda>x. fst x = oid) (List.map_filter item_op zs))"

fun placed_in :: "row_op list \<Rightarrow> order_summary option" where
  "placed_in [] = None"
| "placed_in (PlaceRow s # ops) = Some s"
| "placed_in (MarkRow k # ops) = placed_in ops"

text \<open>
  An order nobody mentioned is not shown; any other shows the columns of its \<open>OrderPlaced\<close>, or the
  defaults until that arrives, with the status of the highest rank seen.
\<close>

definition shown :: "summary_item list \<Rightarrow> string \<Rightarrow> order_summary option" where
  "shown zs oid =
     (let ops = ops_of oid zs in
      if ops = [] then None
      else Some ((case placed_in ops of Some s \<Rightarrow> s
         | None \<Rightarrow> \<lparr>os_order_id = oid, os_customer_id = [], os_cents = 0, os_currency = [], os_qty = 0,
                     os_status = [], os_placed_at = 0\<rparr>)
        \<lparr>os_status := status_name (Max (set (map op_rank ops)))\<rparr>))"

text \<open>One \<open>OrderPlaced\<close> per order, as the \<open>order\<close> stream allows.\<close>

definition one_placing :: "summary_item set \<Rightarrow> bool" where
  "one_placing S \<longleftrightarrow> (\<forall>y\<in>S. \<forall>z\<in>S. \<forall>oid s t.
     item_op y = Some (oid, PlaceRow s) \<and> item_op z = Some (oid, PlaceRow t) \<longrightarrow> s = t)"

section \<open>The effect of one item\<close>

fun op_row :: "row_op \<Rightarrow> summary_row option \<Rightarrow> summary_row" where
  "op_row (PlaceRow s) old = (case old of
     None \<Rightarrow> \<lparr>sr_customer_id = os_customer_id s, sr_cents = os_cents s, sr_currency = os_currency s,
       sr_qty = os_qty s, sr_status = ''placed'', sr_rank = RankPlaced, sr_placed_at = Some (os_placed_at s)\<rparr>
   | Some r \<Rightarrow> r\<lparr>sr_customer_id := os_customer_id s, sr_cents := os_cents s, sr_currency := os_currency s,
       sr_qty := os_qty s, sr_placed_at := Some (os_placed_at s),
       sr_status := if RankPlaced \<le> sr_rank r then sr_status r else ''placed'',
       sr_rank := max (sr_rank r) RankPlaced\<rparr>)"
| "op_row (MarkRow k) old = (case old of
     None \<Rightarrow> default_row\<lparr>sr_status := status_name k, sr_rank := k\<rparr>
   | Some r \<Rightarrow> r\<lparr>sr_status := if k \<le> sr_rank r then sr_status r else status_name k,
       sr_rank := max (sr_rank r) k\<rparr>)"

definition keys_of :: "read_side \<Rightarrow> (string \<times> string) list" where
  "keys_of v = map (\<lambda>r. (nr_order_id r, nr_reason r)) (rs_queue v)"

definition put_row :: "string \<times> row_op \<Rightarrow> (string \<rightharpoonup> summary_row) \<Rightarrow> (string \<rightharpoonup> summary_row)" where
  "put_row x rows = rows(fst x \<mapsto> op_row (snd x) (rows (fst x)))"

definition put_key :: "'a \<Rightarrow> 'a list \<Rightarrow> 'a list" where
  "put_key k ks = (if k \<in> set ks then ks else ks @ [k])"

lemma status_names [simp]:
  "status_name RankPlaced = ''placed''" "status_name RankPaid = ''paid''" "status_name RankReserved = ''reserved''"
  "status_name RankShipped = ''shipped''" "status_name RankPaymentFailed = ''payment_failed''"
  "status_name RankRejected = ''rejected''" "status_name RankRefunded = ''refunded''"
  by (simp_all add: status_name_def rank_defs)

lemma ranks_fit [simp]:
  "in_int4 RankPlaced" "in_int4 RankPaid" "in_int4 RankReserved" "in_int4 RankShipped"
  "in_int4 RankPaymentFailed" "in_int4 RankRejected" "in_int4 RankRefunded"
  by (simp_all add: in_int4_def rank_defs)

lemma pg_set_status_direct:
  assumes "in_int4 k" "status = status_name k"
  shows "pg_set_status direct_pool v oid status k = (v\<lparr>rs_rows := put_row (oid, MarkRow k) (rs_rows v)\<rparr>, None)"
  using assms by (simp add: pg_set_status_def set_status_sql_def put_row_def)

lemma pg_upsert_direct:
  "pg_upsert_placed direct_pool v s = (if in_int4 (os_qty s)
     then (v\<lparr>rs_rows := put_row (os_order_id s, PlaceRow s) (rs_rows v)\<rparr>, None)
     else (v, Some (Wrapf ''ordering/postgres: upsert %s: %w'' [FStr (os_order_id s)] int4_error)))"
  by (simp add: pg_upsert_placed_def upsert_placed_sql_def put_row_def)

lemma pg_enqueue_direct:
  assumes "mc_enc mc md = Inr j"
  shows "\<exists>q n. pg_enqueue mc direct_pool v oid reason md = (v\<lparr>rs_queue := q, rs_next := n\<rparr>, None) \<and>
    map (\<lambda>r. (nr_order_id r, nr_reason r)) q = put_key (oid, reason) (keys_of v)"
proof (cases "\<exists>r\<in>set (rs_queue v). nr_order_id r = oid \<and> nr_reason r = reason")
  case True
  then show ?thesis using assms
    by (intro exI[of _ "rs_queue v"] exI[of _ "rs_next v + 1"])
       (auto simp: pg_enqueue_def enqueue_sql_def put_key_def keys_of_def)
next
  case False
  then show ?thesis using assms
    by (intro exI[of _ "rs_queue v @ [\<lparr>nr_id = rs_next v, nr_order_id = oid, nr_reason = reason, nr_meta = j,
                nr_sent_at = None\<rparr>]"] exI[of _ "rs_next v + 1"])
       (auto simp: pg_enqueue_def enqueue_sql_def put_key_def keys_of_def)
qed

lemma pg_projection_eq:
  "pj_domain (pg_projection mc) = [''ordering.order_placed'' \<mapsto> on_placed (pg_summary_store direct_pool)]"
  "pj_foreign (pg_projection mc) = pj_foreign (summary_projection (pg_summary_store direct_pool) (pg_notification_queue mc direct_pool))"
  by (simp_all add: pg_projection_def summary_registered(2))

lemma pg_ports [simp]:
  "ss_upsert_placed (pg_summary_store pool) = pg_upsert_placed pool"
  "ss_set_status (pg_summary_store pool) = pg_set_status pool"
  "nq_enqueue (pg_notification_queue mc pool) = pg_enqueue mc pool"
  by (simp_all add: pg_summary_store_def pg_notification_queue_def)

lemma foreign_handler:
  "pj_foreign (summary_projection st queue) (integration_key n v) =
    (if v \<noteq> 1 then None
     else if n = ''billing.payment_captured'' then Some (typed_foreign (integration_key n 1)
       unmarshal_payment_captured_v1 (\<lambda>w e msg. ss_set_status st w (pcv_order_id e) ''paid'' RankPaid))
     else if n = ''billing.payment_failed'' then Some (typed_foreign (integration_key n 1)
       unmarshal_payment_failed_v1 (on_failed st queue))
     else if n = ''inventory.stock_reserved'' then Some (typed_foreign (integration_key n 1)
       unmarshal_stock_reserved_v1 (\<lambda>w e msg. ss_set_status st w (srv_order_id e) ''reserved'' RankReserved))
     else if n = ''inventory.stock_rejected'' then Some (typed_foreign (integration_key n 1)
       unmarshal_stock_rejected_v1 (\<lambda>w e msg. ss_set_status st w (sjv_order_id e) ''rejected'' RankRejected))
     else if n = ''billing.payment_refunded'' then Some (typed_foreign (integration_key n 1)
       unmarshal_payment_refunded_v1 (\<lambda>w e msg. ss_set_status st w (prv_order_id e) ''refunded'' RankRefunded))
     else if n = ''shipping.shipment_dispatched'' then Some (typed_foreign (integration_key n 1)
       unmarshal_shipment_dispatched_v1 (on_shipped st queue))
     else None)"
  by (simp add: summary_registered(2))

text \<open>What a message does to the tables, given its fact.\<close>

definition fact_effect :: "(string \<times> int \<times> string option) option \<Rightarrow> read_side \<Rightarrow> read_side \<Rightarrow> bool" where
  "fact_effect f v v1 \<longleftrightarrow>
     rs_rows v1 = (case f of None \<Rightarrow> rs_rows v | Some (oid, k, _) \<Rightarrow> put_row (oid, MarkRow k) (rs_rows v)) \<and>
     keys_of v1 = (case f of Some (oid, k, Some reason) \<Rightarrow> put_key (oid, reason) (keys_of v) | _ \<Rightarrow> keys_of v)"

lemma fact_effect_none: "fact_effect None v v"
  by (simp add: fact_effect_def)

lemma fact_effect_mark: "fact_effect (Some (oid, k, None)) v (v\<lparr>rs_rows := put_row (oid, MarkRow k) (rs_rows v)\<rparr>)"
  by (simp add: fact_effect_def keys_of_def)

lemma fact_effect_notice:
  assumes "\<And>md. \<exists>j. mc_enc mc md = Inr j"
  shows "fact_effect (Some (oid, k, Some reason)) v
    (fst (pg_enqueue mc direct_pool (v\<lparr>rs_rows := put_row (oid, MarkRow k) (rs_rows v)\<rparr>) oid reason md))"
proof -
  obtain j where "mc_enc mc md = Inr j" using assms by blast
  from pg_enqueue_direct[OF this, of "v\<lparr>rs_rows := put_row (oid, MarkRow k) (rs_rows v)\<rparr>" oid reason]
  obtain q n where "pg_enqueue mc direct_pool (v\<lparr>rs_rows := put_row (oid, MarkRow k) (rs_rows v)\<rparr>) oid reason md =
      (v\<lparr>rs_rows := put_row (oid, MarkRow k) (rs_rows v), rs_queue := q, rs_next := n\<rparr>, None)"
    and "map (\<lambda>r. (nr_order_id r, nr_reason r)) q = put_key (oid, reason) (keys_of v)"
    by (auto simp: keys_of_def)
  then show ?thesis by (simp add: fact_effect_def keys_of_def)
qed

lemma feed_foreign:
  assumes enc: "\<And>md. \<exists>j. mc_enc mc md = Inr j"
  shows "fact_effect (foreign_fact msg) v (fst (feed_item (pg_projection mc) (Inr msg) v))"
proof -
  note hd = feed_item_def pg_projection_def foreign_handler foreign_fact_def typed_foreign_def
    on_failed_def on_shipped_def pg_set_status_direct
  note ef = fact_effect_none fact_effect_mark fact_effect_notice[OF enc]
  consider "m_version msg \<noteq> 1" | "m_version msg = 1" "m_type msg = ''billing.payment_captured''"
    | "m_version msg = 1" "m_type msg = ''billing.payment_failed''"
    | "m_version msg = 1" "m_type msg = ''inventory.stock_reserved''"
    | "m_version msg = 1" "m_type msg = ''inventory.stock_rejected''"
    | "m_version msg = 1" "m_type msg = ''billing.payment_refunded''"
    | "m_version msg = 1" "m_type msg = ''shipping.shipment_dispatched''"
    | "m_version msg = 1" "m_type msg \<noteq> ''billing.payment_captured''" "m_type msg \<noteq> ''billing.payment_failed''"
      "m_type msg \<noteq> ''inventory.stock_reserved''" "m_type msg \<noteq> ''inventory.stock_rejected''"
      "m_type msg \<noteq> ''billing.payment_refunded''" "m_type msg \<noteq> ''shipping.shipment_dispatched''"
    by blast
  then show ?thesis
  proof cases
    case 1 then show ?thesis by (simp add: hd ef)
  next
    case 2 then show ?thesis by (cases "unmarshal_payment_captured_v1 (m_payload msg)") (simp_all add: hd ef)
  next
    case 3 then show ?thesis by (cases "unmarshal_payment_failed_v1 (m_payload msg)") (simp_all add: hd ef)
  next
    case 4 then show ?thesis by (cases "unmarshal_stock_reserved_v1 (m_payload msg)") (simp_all add: hd ef)
  next
    case 5 then show ?thesis by (cases "unmarshal_stock_rejected_v1 (m_payload msg)") (simp_all add: hd ef)
  next
    case 6 then show ?thesis by (cases "unmarshal_payment_refunded_v1 (m_payload msg)") (simp_all add: hd ef)
  next
    case 7 then show ?thesis by (cases "unmarshal_shipment_dispatched_v1 (m_payload msg)") (simp_all add: hd ef)
  next
    case 8 then show ?thesis by (simp add: hd ef)
  qed
qed

lemma feed_item_effect:
  assumes enc: "\<And>md. \<exists>j. mc_enc mc md = Inr j"
  shows "rs_rows (fst (feed_item (pg_projection mc) z v)) =
      (case item_op z of None \<Rightarrow> rs_rows v | Some x \<Rightarrow> put_row x (rs_rows v))"
    and "keys_of (fst (feed_item (pg_projection mc) z v)) =
      (case item_notice z of None \<Rightarrow> keys_of v | Some k \<Rightarrow> put_key k (keys_of v))"
proof -
  have "rs_rows (fst (feed_item (pg_projection mc) z v)) =
      (case item_op z of None \<Rightarrow> rs_rows v | Some x \<Rightarrow> put_row x (rs_rows v)) \<and>
    keys_of (fst (feed_item (pg_projection mc) z v)) =
      (case item_notice z of None \<Rightarrow> keys_of v | Some k \<Rightarrow> put_key k (keys_of v))"
  proof (cases z)
    case (Inl em)
    obtain e m where em: "em = (e, m)" by (cases em)
    show ?thesis
      by (simp add: Inl em feed_item_def pg_projection_eq on_placed_def pg_upsert_direct item_op_def item_notice_def
          placed_summary_def keys_of_def split: saga_event.split order_event.split)
  next
    case (Inr msg)
    show ?thesis using feed_foreign[OF enc, of msg v]
      by (cases "foreign_fact msg")
         (auto simp: Inr item_op_def item_notice_def fact_effect_def split: option.splits prod.splits)
  qed
  then show "rs_rows (fst (feed_item (pg_projection mc) z v)) =
      (case item_op z of None \<Rightarrow> rs_rows v | Some x \<Rightarrow> put_row x (rs_rows v))"
    and "keys_of (fst (feed_item (pg_projection mc) z v)) =
      (case item_notice z of None \<Rightarrow> keys_of v | Some k \<Rightarrow> put_key k (keys_of v))" by simp_all
qed

section \<open>The effect of a history\<close>

lemma feed_all_rows:
  assumes enc: "\<And>md. \<exists>j. mc_enc mc md = Inr j"
  shows "rs_rows (feed_all mc zs v) oid = fold (\<lambda>op r. Some (op_row op r)) (ops_of oid zs) (rs_rows v oid)"
proof (induction zs arbitrary: v)
  case (Cons z zs)
  then show ?case
    by (auto simp: feed_all_def ops_of_def feed_item_effect[OF enc] put_row_def map_filter_simps split: option.split)
qed (simp add: feed_all_def ops_of_def map_filter_simps)

definition notices :: "summary_item list \<Rightarrow> (string \<times> string) set" where
  "notices zs = set (List.map_filter item_notice zs)"

lemma feed_all_keys:
  assumes enc: "\<And>md. \<exists>j. mc_enc mc md = Inr j" and "distinct (keys_of v)"
  shows "distinct (keys_of (feed_all mc zs v)) \<and> set (keys_of (feed_all mc zs v)) = set (keys_of v) \<union> notices zs"
  using assms(2)
proof (induction zs arbitrary: v)
  case (Cons z zs)
  let ?v1 = "fst (feed_item (pg_projection mc) z v)"
  have k: "keys_of ?v1 = (case item_notice z of None \<Rightarrow> keys_of v | Some k \<Rightarrow> put_key k (keys_of v))"
    by (rule feed_item_effect(2)[OF enc])
  then have "distinct (keys_of ?v1)" using Cons.prems by (simp add: put_key_def split: option.split)
  from Cons.IH[OF this] show ?case
    by (auto simp: feed_all_def notices_def map_filter_simps k put_key_def split: option.split)
qed (simp add: feed_all_def notices_def map_filter_simps)

lemma set_map_filter: "y \<in> set (List.map_filter f xs) \<longleftrightarrow> (\<exists>x\<in>set xs. f x = Some y)"
  by (force simp: List.map_filter_def)

text \<open>The row after a nonempty sequence of operations.\<close>

definition row_at :: "int \<Rightarrow> order_summary option \<Rightarrow> summary_row" where
  "row_at k placed = (case placed of
     None \<Rightarrow> default_row\<lparr>sr_status := status_name k, sr_rank := k\<rparr>
   | Some s \<Rightarrow> \<lparr>sr_customer_id = os_customer_id s, sr_cents = os_cents s, sr_currency = os_currency s,
       sr_qty = os_qty s, sr_status = status_name k, sr_rank = k, sr_placed_at = Some (os_placed_at s)\<rparr>)"

fun op_placed :: "row_op \<Rightarrow> order_summary option" where
  "op_placed (PlaceRow s) = Some s"
| "op_placed (MarkRow k) = None"

lemma op_row_none: "op_row op None = row_at (op_rank op) (op_placed op)"
  by (cases op) (simp_all add: row_at_def default_row_def)

lemma op_row_some:
  assumes "\<And>s t. placed = Some s \<Longrightarrow> op_placed op = Some t \<Longrightarrow> s = t"
  shows "op_row op (Some (row_at k placed)) =
    row_at (max k (op_rank op)) (case placed of Some s \<Rightarrow> Some s | None \<Rightarrow> op_placed op)"
proof (cases op)
  case (PlaceRow s)
  show ?thesis
  proof (cases placed)
    case None
    then show ?thesis by (simp add: PlaceRow row_at_def default_row_def max_def)
  next
    case (Some t)
    then have "t = s" using assms PlaceRow by simp
    then show ?thesis by (simp add: PlaceRow Some row_at_def max_def)
  qed
next
  case (MarkRow j)
  then show ?thesis by (cases placed) (simp_all add: row_at_def default_row_def max_def)
qed

definition row_of :: "row_op list \<Rightarrow> order_summary option \<Rightarrow> summary_row" where
  "row_of ops placed = row_at (Max (set (map op_rank ops))) placed"

lemma placed_in_snoc:
  "placed_in (ops @ [op]) = (case placed_in ops of Some s \<Rightarrow> Some s | None \<Rightarrow> op_placed op)"
  by (induction ops rule: placed_in.induct) (cases op; simp)+

lemma placed_in_set: "placed_in ops = Some s \<Longrightarrow> PlaceRow s \<in> set ops"
  by (induction ops rule: placed_in.induct) auto

lemma placed_in_none: "placed_in ops = None \<longleftrightarrow> (\<forall>s. PlaceRow s \<notin> set ops)"
  by (induction ops rule: placed_in.induct) auto

lemma fold_ops_row:
  assumes "\<And>s t. PlaceRow s \<in> set ops \<Longrightarrow> PlaceRow t \<in> set ops \<Longrightarrow> s = t"
  shows "fold (\<lambda>op r. Some (op_row op r)) ops None = (if ops = [] then None else Some (row_of ops (placed_in ops)))"
  using assms
proof (induction ops rule: rev_induct)
  case (snoc op ops)
  show ?case
  proof (cases "ops = []")
    case True
    then show ?thesis by (cases op) (simp_all add: row_of_def op_row_none del: op_row.simps)
  next
    case False
    then have m: "Max (set (map op_rank (ops @ [op]))) = max (Max (set (map op_rank ops))) (op_rank op)"
      by (simp add: Max.insert_remove max.commute)
    have ih: "fold (\<lambda>op r. Some (op_row op r)) ops None = Some (row_of ops (placed_in ops))"
      using snoc False by auto
    have eq: "s = t" if "placed_in ops = Some s" "op_placed op = Some t" for s t
      using that snoc.prems[of s t] placed_in_set[of ops s] by (cases op) simp_all
    show ?thesis
      using op_row_some[OF eq] m by (simp add: ih row_of_def placed_in_snoc del: op_row.simps)
  qed
qed simp

lemma ops_of_set: "op \<in> set (ops_of oid zs) \<longleftrightarrow> (\<exists>z\<in>set zs. item_op z = Some (oid, op))"
  by (force simp: ops_of_def set_map_filter)

lemma one_placing_ops:
  "one_placing (set zs) \<Longrightarrow> PlaceRow s \<in> set (ops_of oid zs) \<Longrightarrow> PlaceRow t \<in> set (ops_of oid zs) \<Longrightarrow> s = t"
  unfolding one_placing_def ops_of_set by blast

lemma rows_after:
  assumes enc: "\<And>md. \<exists>j. mc_enc mc md = Inr j" and "one_placing (set zs)"
  shows "rs_rows (feed_all mc zs empty_side) oid =
    (if ops_of oid zs = [] then None else Some (row_of (ops_of oid zs) (placed_in (ops_of oid zs))))"
  using fold_ops_row[of "ops_of oid zs"] one_placing_ops[OF assms(2)]
  by (simp add: feed_all_rows[OF enc] empty_side_def)

lemma placed_in_id:
  assumes "placed_in (ops_of oid zs) = Some s" shows "os_order_id s = oid"
proof -
  from placed_in_set[OF assms] obtain z where "item_op z = Some (oid, PlaceRow s)" unfolding ops_of_set by blast
  then show ?thesis
    by (auto simp: item_op_def placed_summary_def split: sum.splits prod.splits saga_event.splits order_event.splits if_splits)
qed

lemma get_row_of:
  assumes "rs_rows v oid = (if ops_of oid zs = [] then None else Some (row_of (ops_of oid zs) (placed_in (ops_of oid zs))))"
  shows "get_sql oid v = shown zs oid"
  using assms placed_in_id[of oid zs]
  by (auto simp: get_sql_def shown_def row_of_def row_at_def default_row_def Let_def split: option.split)

text \<open>
  C17. After any history of items in which an order has one \<open>OrderPlaced\<close> event, with any
  repetition and interleaving of own events and foreign messages, \<open>Get\<close> answers exactly the
  reference row of the order: not found if nothing mentioned it, otherwise the columns of its
  placing and the status of the highest rank any of the items gave it. No status is ever
  downgraded, and a foreign fact that overtakes the placing is kept.
\<close>

theorem summary_shows_furthest_status:
  assumes enc: "\<And>md. \<exists>j. mc_enc mc md = Inr j" and "one_placing (set zs)"
  shows "pg_get direct_pool (feed_all mc zs empty_side) oid =
    (feed_all mc zs empty_side,
     case shown zs oid of None \<Rightarrow> Inl (Wrapf ''%w: %s'' [FStr oid] ErrOrderNotFound) | Some s \<Rightarrow> Inr s)"
  using get_row_of[OF rows_after[OF enc assms(2)], of oid] by (simp add: pg_get_def split: option.split)

text \<open>
  C18. Two histories with the same items, in any order and with any repetition, leave the
  same \<open>order_summary\<close> table, and the same notifications are queued, each (order, reason) once:
  the handlers are idempotent and commutative, as the projection's contract asks. This is what
  makes a rebuild from offset zero and a redelivered or overtaken message harmless.
\<close>

theorem summary_is_order_independent:
  assumes enc: "\<And>md. \<exists>j. mc_enc mc md = Inr j" and one: "one_placing (set xs)" and same: "set xs = set ys"
  shows "rs_rows (feed_all mc xs empty_side) = rs_rows (feed_all mc ys empty_side) \<and>
    set (keys_of (feed_all mc xs empty_side)) = set (keys_of (feed_all mc ys empty_side)) \<and>
    distinct (keys_of (feed_all mc xs empty_side))"
proof -
  have ops: "set (ops_of oid xs) = set (ops_of oid ys)" for oid
    unfolding set_eq_iff ops_of_set same by simp
  have "placed_in (ops_of oid xs) = placed_in (ops_of oid ys)" for oid
  proof (cases "placed_in (ops_of oid xs)")
    case None
    with ops[of oid] show ?thesis using placed_in_none by metis
  next
    case (Some s)
    moreover have "placed_in (ops_of oid ys) \<noteq> None"
      using Some ops[of oid] placed_in_set placed_in_none by metis
    ultimately show ?thesis
      using ops[of oid] one_placing_ops[OF one, of s oid] placed_in_set by fastforce
  qed
  moreover have "ops_of oid xs = [] \<longleftrightarrow> ops_of oid ys = []" for oid
    using ops[of oid] by (metis set_empty)
  ultimately have "rs_rows (feed_all mc xs empty_side) oid = rs_rows (feed_all mc ys empty_side) oid" for oid
    using rows_after[OF enc one, of oid] rows_after[OF enc, of ys oid] one same ops[of oid]
    by (simp add: row_of_def)
  moreover have "notices xs = notices ys"
    unfolding notices_def set_eq_iff set_map_filter same by simp
  ultimately show ?thesis
    using feed_all_keys[OF enc, of empty_side xs] feed_all_keys[OF enc, of empty_side ys]
    by (auto simp: empty_side_def keys_of_def)
qed

text \<open>
  C19. The domain takes any positive quantity, the read model's column holds four bytes: an
  order placed with \<open>2\<^sup>3\<^sup>1\<close> units or more is accepted and stored, and the projection's handler
  then fails on its event in every state of the tables, which it leaves as they are. As the runner
  never passes an item whose handler fails, the read model stops at that event for good.
\<close>

theorem large_quantity_never_projected:
  assumes "new_quantity n = Inr q" and "2 ^ 31 \<le> n" and "op_qty p = q"
  shows "feed_item (pg_projection mc) (Inl (own_event (OrderPlaced p), m)) v =
    (v, Some (Wrapf ''ordering/postgres: upsert %s: %w'' [FStr (id_string (op_id p))] int4_error))"
proof -
  have "qu_n (op_qty p) = n" using assms by (auto simp: new_quantity_def split: if_splits)
  then have "\<not> in_int4 (qu_n (op_qty p))" using assms(2) by (simp add: in_int4_def)
  then show ?thesis
    by (simp add: feed_item_def pg_projection_eq own_event_def on_placed_def pg_upsert_direct)
qed

section \<open>Witnesses\<close>

definition demo_mc :: md_codec where
  "demo_mc = \<lparr>mc_enc = (\<lambda>md. Inr (JObj [])), mc_dec = (\<lambda>j. Inr fmempty)\<rparr>"

definition demo_fact :: "string \<Rightarrow> json \<Rightarrow> json message" where
  "demo_fact type payload = \<lparr>m_id = type, m_key = demo_order_id, m_type = type, m_version = 1, m_at = 5,
     m_payload = payload, m_meta = fmempty\<rparr>"

definition demo_meta :: meta where
  "demo_meta = \<lparr>pm_stream = \<lparr>si_category = ''order'', si_id = demo_order_id\<rparr>, pm_version = 1, pm_seq = 1, pm_at = 9,
     pm_meta = fmempty\<rparr>"

text \<open>The shipment overtakes everything else and is redelivered.\<close>

definition demo_items :: "summary_item list" where
  "demo_items =
     [Inr (demo_fact ''shipping.shipment_dispatched'' (JObj [(''order_id'', jstr demo_order_id)])),
      Inr (demo_fact ''billing.payment_captured'' (JObj [(''order_id'', jstr demo_order_id), (''cents'', JInt 500)])),
      Inl (own_event (OrderPlaced demo_placed), demo_meta),
      Inr (demo_fact ''shipping.shipment_dispatched'' (JObj [(''order_id'', jstr demo_order_id)]))]"

lemma demo_order_id_fix [simp]: "utf8_fix demo_order_id = demo_order_id"
  unfolding demo_order_id_def by (simp add: is_ascii_def)

lemma demo_unmarshalled:
  "unmarshal_shipment_dispatched_v1 (JObj [(''order_id'', jstr demo_order_id)]) = Inr \<lparr>sdv_order_id = demo_order_id\<rparr>"
  "unmarshal_payment_captured_v1 (JObj [(''order_id'', jstr demo_order_id), (''cents'', JInt 500)]) =
    Inr \<lparr>pcv_order_id = demo_order_id, pcv_cents = 500\<rparr>"
  using shipment_dispatched_v1_wire[of "\<lparr>sdv_order_id = demo_order_id\<rparr>"]
    payment_captured_v1_wire[of "\<lparr>pcv_order_id = demo_order_id, pcv_cents = 500\<rparr>"]
  by (simp_all add: marshal_shipment_dispatched_v1_def marshal_payment_captured_v1_def in_int64_def int64_min_def int64_max_def)

lemma demo_ops:
  "map item_op demo_items = [Some (demo_order_id, MarkRow RankShipped), Some (demo_order_id, MarkRow RankPaid),
     Some (demo_order_id, PlaceRow (placed_summary demo_placed demo_meta)), Some (demo_order_id, MarkRow RankShipped)]"
  by (simp add: demo_items_def item_op_def demo_fact_def foreign_fact_def demo_unmarshalled own_event_def
      in_int4_def demo_placed_def id_string_def)

lemma demo_one_placing: "one_placing (set demo_items)"
proof -
  have "item_op ` set demo_items = set (map item_op demo_items)" by simp
  then have "Some (oid, PlaceRow s) \<in> item_op ` set demo_items \<Longrightarrow> s = placed_summary demo_placed demo_meta" for oid s
    unfolding demo_ops by auto
  then have "z \<in> set demo_items \<Longrightarrow> item_op z = Some (oid, PlaceRow s) \<Longrightarrow> s = placed_summary demo_placed demo_meta" for z oid s
    by (metis imageI)
  then show ?thesis unfolding one_placing_def by blast
qed

lemma demo_mc_enc: "\<exists>j. mc_enc demo_mc md = Inr j"
  by (simp add: demo_mc_def)

lemma demo_ops_of:
  "ops_of demo_order_id demo_items = [MarkRow RankShipped, MarkRow RankPaid,
     PlaceRow (placed_summary demo_placed demo_meta), MarkRow RankShipped]"
proof -
  have "List.map_filter item_op demo_items = List.map_filter id (map item_op demo_items)"
    by (simp add: List.map_filter_def comp_def filter_map)
  then show ?thesis by (simp add: ops_of_def demo_ops map_filter_simps)
qed

theorem summary_shows_furthest_status_witness:
  "snd (pg_get direct_pool (feed_all demo_mc demo_items empty_side) demo_order_id) =
    Inr (placed_summary demo_placed demo_meta\<lparr>os_status := ''shipped''\<rparr>)"
proof -
  have "shown demo_items demo_order_id = Some (placed_summary demo_placed demo_meta\<lparr>os_status := ''shipped''\<rparr>)"
    by (simp add: shown_def demo_ops_of rank_defs status_name_def)
  then show ?thesis
    by (simp add: summary_shows_furthest_status[OF demo_mc_enc demo_one_placing])
qed

theorem summary_is_order_independent_witness:
  "rs_rows (feed_all demo_mc demo_items empty_side) = rs_rows (feed_all demo_mc (rev demo_items @ demo_items) empty_side) \<and>
    set (keys_of (feed_all demo_mc demo_items empty_side)) =
      set (keys_of (feed_all demo_mc (rev demo_items @ demo_items) empty_side)) \<and>
    distinct (keys_of (feed_all demo_mc demo_items empty_side))"
  by (rule summary_is_order_independent[OF demo_mc_enc demo_one_placing]) simp

theorem large_quantity_never_projected_witness:
  "snd (feed_item (pg_projection demo_mc)
     (Inl (own_event (OrderPlaced (demo_placed\<lparr>op_qty := \<lparr>qu_n = 2 ^ 31\<rparr>\<rparr>)), demo_meta)) empty_side) \<noteq> None"
  using large_quantity_never_projected[of "2 ^ 31" "\<lparr>qu_n = 2 ^ 31\<rparr>" "demo_placed\<lparr>op_qty := \<lparr>qu_n = 2 ^ 31\<rparr>\<rparr>"]
  by (simp add: new_quantity_def)

end
