(* ===== verification/PgInbox.thy ===== *)
theory PgInbox
  imports Postgres Projection CqrsWire
begin

text \<open>
  The PostgreSQL inbox (\<open>projection-postgres/inbox.go\<close>) and deduplicator (\<open>cqrs-postgres/dedup.go\<close>).
  Both send single statements, each its own transaction. Unlike the event store's append, the inbox
  takes no lock, so the server model lets other writers hold an identity value they have not
  committed yet.
\<close>

section \<open>The inbox adapter\<close>

text \<open>\<open>json.Marshal\<close> and \<open>json.Unmarshal\<close> of an envelope, as the jsonb column keeps it.\<close>

record 'p message_json =
  mj_enc :: "'p message \<Rightarrow> json res"
  mj_dec :: "json \<Rightarrow> 'p message res"

record inbox_row =
  ix_seq :: int
  ix_id :: string
  ix_message :: json

record 'w inbox_pool =
  bx_insert :: "'w \<Rightarrow> string \<Rightarrow> json \<Rightarrow> 'w \<times> gerr option"
  bx_rows :: "'w \<Rightarrow> 'w \<times> inbox_row list res"

definition pg_ib_append :: "'p message_json \<Rightarrow> 'w inbox_pool \<Rightarrow> 'w \<Rightarrow> 'p message \<Rightarrow> 'w \<times> gerr option" where
  "pg_ib_append mj pool w msg = (case mj_enc mj msg of
     Inl err \<Rightarrow> (w, Some (Wrapf ''projectionpg: encoding %s: %w'' [FStr (m_id msg)] err))
   | Inr payload \<Rightarrow> (case bx_insert pool w (m_id msg) payload of
       (w1, Some err) \<Rightarrow> (w1, Some (Wrapf ''projectionpg: append %s: %w'' [FStr (m_id msg)] err))
     | (w1, None) \<Rightarrow> (w1, None)))"

definition inbox_read_sql :: "int \<Rightarrow> int \<Rightarrow> inbox_row list \<Rightarrow> inbox_row list" where
  "inbox_read_sql after limit rows = (let rs = sort_key ix_seq (filter (\<lambda>r. after < ix_seq r) rows) in
     if 0 < limit then take (nat limit) rs else rs)"

definition inbox_head_sql :: "inbox_row list \<Rightarrow> int" where
  "inbox_head_sql rows = (if rows = [] then 0 else Max (set (map ix_seq rows)))"

fun scan_inbox :: "'p message_json \<Rightarrow> 'p inbox_message list \<Rightarrow> inbox_row list \<Rightarrow> 'p inbox_message list res" where
  "scan_inbox mj out [] = Inr out"
| "scan_inbox mj out (r # rs) = (case mj_dec mj (ix_message r) of
     Inl err \<Rightarrow> Inl (Wrapf ''projectionpg: decode seq %d: %w'' [FInt (ix_seq r)] err)
   | Inr msg \<Rightarrow> scan_inbox mj (out @ [\<lparr>im_seq = ix_seq r, im_msg = msg\<rparr>]) rs)"

definition pg_ib_read_all ::
  "'p message_json \<Rightarrow> 'w inbox_pool \<Rightarrow> 'w \<Rightarrow> int \<Rightarrow> int \<Rightarrow> 'w \<times> 'p inbox_message list res" where
  "pg_ib_read_all mj pool w after limit = (case bx_rows pool w of
     (w1, Inl err) \<Rightarrow> (w1, Inl (Wrapf ''projectionpg: readall: %w'' [] err))
   | (w1, Inr rows) \<Rightarrow> (w1, scan_inbox mj [] (inbox_read_sql after limit rows)))"

definition pg_ib_head :: "'w inbox_pool \<Rightarrow> 'w \<Rightarrow> 'w \<times> int res" where
  "pg_ib_head pool w = (case bx_rows pool w of
     (w1, Inl err) \<Rightarrow> (w1, Inl (Wrapf ''projectionpg: head: %w'' [] err))
   | (w1, Inr rows) \<Rightarrow> (w1, Inr (inbox_head_sql rows)))"

definition pg_inbox_ops :: "'p message_json \<Rightarrow> 'w inbox_pool \<Rightarrow> ('w, 'p) inbox_ops" where
  "pg_inbox_ops mj pool = \<lparr>ib_append = pg_ib_append mj pool, ib_read_all = pg_ib_read_all mj pool,
     ib_head = pg_ib_head pool\<rparr>"

section \<open>The server\<close>

text \<open>
  Before a statement reaches the server other writers may run their inserts (they take an identity
  value, in \<open>ih_open\<close>) and commit them (\<open>ih_close\<close>, by identity value), and values may get lost.
\<close>

record inbox_happening =
  ih_open :: "(string \<times> json) list"
  ih_close :: "int list"
  ih_gap :: nat
  ih_fault :: "(string \<times> bool) option"

record inbox_db =
  id_rows :: "inbox_row list"
  id_next :: int
  id_open :: "inbox_row list"
  id_sched :: "inbox_happening list"

definition new_inbox_db :: "inbox_happening list \<Rightarrow> inbox_db" where
  "new_inbox_db sched = \<lparr>id_rows = [], id_next = 1, id_open = [], id_sched = sched\<rparr>"

definition taken :: "string \<Rightarrow> inbox_row list \<Rightarrow> bool" where
  "taken mid rows \<longleftrightarrow> (\<exists>r\<in>set rows. ix_id r = mid)"

definition open_insert :: "string \<times> json \<Rightarrow> inbox_db \<Rightarrow> inbox_db" where
  "open_insert x d = (if taken (fst x) (id_rows d @ id_open d) then d\<lparr>id_next := id_next d + 1\<rparr>
     else d\<lparr>id_open := id_open d @ [\<lparr>ix_seq = id_next d, ix_id = fst x, ix_message = snd x\<rparr>], id_next := id_next d + 1\<rparr>)"

definition close_insert :: "int \<Rightarrow> inbox_db \<Rightarrow> inbox_db" where
  "close_insert seq d = d\<lparr>id_rows := id_rows d @ filter (\<lambda>r. ix_seq r = seq) (id_open d),
     id_open := filter (\<lambda>r. ix_seq r \<noteq> seq) (id_open d)\<rparr>"

definition inbox_tick :: "inbox_db \<Rightarrow> inbox_db \<times> (string \<times> bool) option" where
  "inbox_tick d = (case id_sched d of
     [] \<Rightarrow> (d, None)
   | h # hs \<Rightarrow> (fold close_insert (ih_close h) (fold open_insert (ih_open h)
       (d\<lparr>id_sched := hs, id_next := id_next d + int (ih_gap h)\<rparr>)), ih_fault h))"

definition inbox_call :: "(inbox_db \<Rightarrow> inbox_db \<times> 'a) \<Rightarrow> inbox_db \<Rightarrow> inbox_db \<times> 'a res" where
  "inbox_call f d = (case inbox_tick d of
     (d1, None) \<Rightarrow> (case f d1 of (d2, x) \<Rightarrow> (d2, Inr x))
   | (d1, Some (msg, True)) \<Rightarrow> (fst (f d1), Inl (ErrExt msg))
   | (d1, Some (msg, False)) \<Rightarrow> (d1, Inl (ErrExt msg)))"

text \<open>
  The own insert waits for an uncommitted one with the same ID, which then wins; a conflict uses
  up an identity value too.
\<close>

definition own_insert :: "string \<Rightarrow> json \<Rightarrow> inbox_db \<Rightarrow> inbox_db" where
  "own_insert mid j d =
     (let d1 = fold close_insert (map ix_seq (filter (\<lambda>r. ix_id r = mid) (id_open d))) d in
      if taken mid (id_rows d1) then d1\<lparr>id_next := id_next d1 + 1\<rparr>
      else d1\<lparr>id_rows := id_rows d1 @ [\<lparr>ix_seq = id_next d1, ix_id = mid, ix_message = j\<rparr>], id_next := id_next d1 + 1\<rparr>)"

definition inbox_db_pool :: "inbox_db inbox_pool" where
  "inbox_db_pool = \<lparr>bx_insert = (\<lambda>d mid j. case inbox_call (\<lambda>d. (own_insert mid j d, ())) d of
       (d1, Inl err) \<Rightarrow> (d1, Some err) | (d1, Inr u) \<Rightarrow> (d1, None)),
     bx_rows = inbox_call (\<lambda>d. (d, id_rows d))\<rparr>"

section \<open>One writer\<close>

definition alone :: "inbox_db \<Rightarrow> bool" where
  "alone d \<longleftrightarrow> id_open d = [] \<and> (\<forall>h\<in>set (id_sched d). ih_open h = [])"

definition inbox_view :: "'p message_json \<Rightarrow> inbox_row \<Rightarrow> 'p inbox_message" where
  "inbox_view mj r = \<lparr>im_seq = ix_seq r, im_msg = projr (mj_dec mj (ix_message r))\<rparr>"

definition pg_ilog :: "'p message_json \<Rightarrow> inbox_db \<Rightarrow> 'p inbox_message list" where
  "pg_ilog mj d = map (inbox_view mj) (id_rows d)"

definition row_readable :: "'p message_json \<Rightarrow> inbox_row \<Rightarrow> bool" where
  "row_readable mj r \<longleftrightarrow> (\<exists>msg. mj_dec mj (ix_message r) = Inr msg \<and> m_id msg = ix_id r)"

definition pg_iinv :: "'p message_json \<Rightarrow> inbox_db \<Rightarrow> bool" where
  "pg_iinv mj d \<longleftrightarrow> alone d \<and> pos_log ix_seq (id_rows d) \<and> 0 < id_next d \<and>
     (\<forall>r\<in>set (id_rows d). ix_seq r < id_next d \<and> row_readable mj r)"

lemma close_nothing: "id_open d = [] \<Longrightarrow> close_insert seq d = d"
  by (cases d) (simp add: close_insert_def)

lemma inbox_tick_alone:
  assumes "pg_iinv mj d" "inbox_tick d = (d', f)"
  shows "pg_iinv mj d' \<and> id_rows d' = id_rows d"
proof -
  have c: "fold close_insert xs d = d" if "id_open d = []" for xs and d :: inbox_db
    using that by (induction xs) (simp_all add: close_nothing)
  show ?thesis
    using assms by (auto simp: inbox_tick_def pg_iinv_def alone_def c split: list.splits) force
qed

lemma own_insert_alone:
  "pg_iinv mj d \<Longrightarrow> own_insert mid j d = (if taken mid (id_rows d) then d\<lparr>id_next := id_next d + 1\<rparr>
     else d\<lparr>id_rows := id_rows d @ [\<lparr>ix_seq = id_next d, ix_id = mid, ix_message = j\<rparr>], id_next := id_next d + 1\<rparr>)"
  by (simp add: own_insert_def pg_iinv_def alone_def)

lemma pg_ilog_pos: "pg_iinv mj d \<Longrightarrow> pos_log im_seq (pg_ilog mj d)"
  by (simp add: pg_iinv_def pos_log_def pg_ilog_def inbox_view_def comp_def)

lemma ilog_ids: "pg_iinv mj d \<Longrightarrow> mid \<in> inbox_ids (pg_ilog mj d) \<longleftrightarrow> taken mid (id_rows d)"
  by (force simp: pg_iinv_def inbox_ids_def pg_ilog_def inbox_view_def taken_def row_readable_def)

locale message_codec =
  fixes mj :: "'p message_json"
  assumes mj_law: "\<exists>j. mj_enc mj msg = Inr j \<and> mj_dec mj j = Inr msg"
begin

lemma own_insert_ok:
  assumes "pg_iinv mj d" "mj_dec mj j = Inr msg"
  shows "pg_iinv mj (own_insert (m_id msg) j d) \<and> inbox_step_ok (pg_ilog mj d) msg None (pg_ilog mj (own_insert (m_id msg) j d))"
proof -
  note eq = own_insert_alone[OF assms(1), of "m_id msg" j]
  note ids = ilog_ids[OF assms(1), of "m_id msg"]
  show ?thesis
  proof (cases "taken (m_id msg) (id_rows d)")
    case True
    with assms show ?thesis unfolding eq inbox_step_ok_def ids by (auto simp: pg_ilog_def pg_iinv_def alone_def)
  next
    case False
    with assms show ?thesis unfolding eq inbox_step_ok_def ids
      by (auto simp: pg_ilog_def pg_iinv_def alone_def pos_log_def sorted_wrt_append row_readable_def inbox_view_def)
  qed
qed

lemma pg_ib_append_ok:
  assumes "pg_iinv mj d" "pg_ib_append mj inbox_db_pool d msg = (d', r)"
  shows "pg_iinv mj d' \<and> inbox_step_ok (pg_ilog mj d) msg r (pg_ilog mj d')"
proof -
  obtain j where j: "mj_enc mj msg = Inr j" "mj_dec mj j = Inr msg" using mj_law by blast
  obtain d1 f where t: "inbox_tick d = (d1, f)" by force
  from inbox_tick_alone[OF assms(1) t] have d1: "pg_iinv mj d1" "pg_ilog mj d1 = pg_ilog mj d" by (auto simp: pg_ilog_def)
  note ok = own_insert_ok[OF d1(1) j(2)]
  have "r = None \<and> d' = own_insert (m_id msg) j d1 \<or> r \<noteq> None \<and> (d' = d1 \<or> d' = own_insert (m_id msg) j d1)"
    using assms(2) t j(1) by (cases f) (auto simp: pg_ib_append_def inbox_db_pool_def inbox_call_def split: bool.splits)
  then show ?thesis
    using ok d1 by (auto simp: inbox_step_ok_def split: if_splits)
qed

lemma rows_read:
  assumes "pg_iinv mj d" "bx_rows inbox_db_pool d = (d', r)"
  shows "pg_iinv mj d' \<and> pg_ilog mj d' = pg_ilog mj d \<and> (\<forall>rows. r = Inr rows \<longrightarrow> rows = id_rows d')"
proof -
  obtain d1 f where t: "inbox_tick d = (d1, f)" by force
  from inbox_tick_alone[OF assms(1) t] assms(2) t show ?thesis
    by (cases f) (auto simp: inbox_db_pool_def inbox_call_def pg_ilog_def split: bool.splits)
qed

lemma scan_inbox_ok:
  "\<forall>r\<in>set rows. row_readable mj r \<Longrightarrow> scan_inbox mj out rows = Inr (out @ map (inbox_view mj) rows)"
  by (induction rows arbitrary: out) (auto simp: row_readable_def inbox_view_def)

lemma inbox_read_sql_is:
  assumes "pg_iinv mj d"
  shows "scan_inbox mj [] (inbox_read_sql after limit (id_rows d)) = Inr (tail_batch im_seq after limit (pg_ilog mj d))"
proof -
  have "sorted (map ix_seq (id_rows d))"
    using assms strict_sorted_imp_sorted by (auto simp: pg_iinv_def pos_log_def)
  then have s: "inbox_read_sql after limit (id_rows d) = take_limit limit (filter (\<lambda>r. after < ix_seq r) (id_rows d))"
    by (simp add: inbox_read_sql_def sort_key_id_if_sorted sorted_filter take_limit_def Let_def)
  have "\<forall>r\<in>set (inbox_read_sql after limit (id_rows d)). row_readable mj r"
    using assms s by (auto simp: pg_iinv_def take_limit_def dest: in_set_takeD split: if_splits)
  then show ?thesis
    by (simp add: scan_inbox_ok s tail_batch_def take_limit_def pg_ilog_def filter_map comp_def take_map inbox_view_def)
qed

lemma inbox_head_sql_is:
  assumes "pg_iinv mj d" shows "inbox_head_sql (id_rows d) = last_pos im_seq (pg_ilog mj d)"
proof (cases "id_rows d = []")
  case False
  have "ix_seq r \<le> ix_seq (last (id_rows d))" if "r \<in> set (id_rows d)" for r
    using pos_log_le_last[of ix_seq "id_rows d" r] assms that False by (simp add: pg_iinv_def last_pos_def)
  then have "Max (ix_seq ` set (id_rows d)) = ix_seq (last (id_rows d))" using False by (intro Max_eqI) auto
  with False show ?thesis by (simp add: inbox_head_sql_def last_pos_def pg_ilog_def last_map inbox_view_def)
qed (simp add: inbox_head_sql_def last_pos_def pg_ilog_def)

end

text \<open>With a single writer the adapter keeps the inbox's contract.\<close>

sublocale message_codec \<subseteq> pg: inbox_port "pg_inbox_ops mj inbox_db_pool" "pg_ilog mj" "pg_iinv mj"
proof (unfold_locales, goal_cases)
  case (1 w)
  then show ?case by (rule pg_ilog_pos)
next
  case (2 w msg w' r1)
  then show ?case using pg_ib_append_ok by (fastforce simp: pg_inbox_ops_def)
next
  case (3 w after limit w' r2)
  obtain d r where q: "bx_rows inbox_db_pool w = (d, r)" by force
  from 3(2) q rows_read[OF 3(1) q] inbox_read_sql_is[of d after limit] show ?case
    by (auto simp: pg_inbox_ops_def pg_ib_read_all_def split: sum.splits)
next
  case (4 w w' r3)
  obtain d r where q: "bx_rows inbox_db_pool w = (d, r)" by force
  from 4(2) q rows_read[OF 4(1) q] inbox_head_sql_is[of d] show ?case
    by (auto simp: pg_inbox_ops_def pg_ib_head_def split: sum.splits)
qed

text \<open>An envelope as one JSON object; the text of a time is left as the instant it denotes.\<close>

definition envelope_json :: "json message_json" where
  "envelope_json = \<lparr>
     mj_enc = (\<lambda>m. map_sum id (\<lambda>md. JObj [(''id'', JStr (m_id m)), (''key'', JStr (m_key m)), (''type'', JStr (m_type m)),
        (''version'', JInt (m_version m)), (''occurred_at'', JInt (m_at m)), (''payload'', m_payload m),
        (''metadata'', md)]) (mc_enc text_codec (m_meta m))),
     mj_dec = (\<lambda>j. case j of
        JObj [(_, JStr i), (_, JStr k), (_, JStr t), (_, JInt v), (_, JInt at), (_, p), (_, md)] \<Rightarrow>
          map_sum id (\<lambda>m. \<lparr>m_id = i, m_key = k, m_type = t, m_version = v, m_at = at, m_payload = p, m_meta = m\<rparr>)
            (mc_dec text_codec md)
      | _ \<Rightarrow> Inl (type_mismatch ''message''))\<rparr>"

interpretation envelope_json: message_codec envelope_json
proof
  fix msg :: "json message"
  obtain j where "mc_enc text_codec (m_meta msg) = Inr j" "mc_dec text_codec j = Inr (m_meta msg)"
    using text_codec.mc_law by blast
  then show "\<exists>j. mj_enc envelope_json msg = Inr j \<and> mj_dec envelope_json j = Inr msg"
    by (simp add: envelope_json_def)
qed

section \<open>The deduplicator\<close>

record 'w dedup_pool =
  dx_seen :: "'w \<Rightarrow> string \<Rightarrow> 'w \<times> bool res"
  dx_mark :: "'w \<Rightarrow> string \<Rightarrow> 'w \<times> gerr option"

definition pg_processed :: "'w dedup_pool \<Rightarrow> 'w \<Rightarrow> string \<Rightarrow> 'w \<times> bool res" where
  "pg_processed pool w mid = (case dx_seen pool w mid of
     (w1, Inl err) \<Rightarrow> (w1, Inl (Wrapf ''cqrspg: processed %s: %w'' [FStr mid] err))
   | (w1, Inr seen) \<Rightarrow> (w1, Inr seen))"

definition pg_mark_processed :: "'w dedup_pool \<Rightarrow> 'w \<Rightarrow> string \<Rightarrow> 'w \<times> gerr option" where
  "pg_mark_processed pool w mid = (case dx_mark pool w mid of
     (w1, Some err) \<Rightarrow> (w1, Some (Wrapf ''cqrspg: mark %s: %w'' [FStr mid] err))
   | (w1, None) \<Rightarrow> (w1, None))"

definition pg_dedup_ops :: "'w dedup_pool \<Rightarrow> 'w dedup_ops" where
  "pg_dedup_ops pool = \<lparr>dd_processed = pg_processed pool, dd_mark = pg_mark_processed pool\<rparr>"

text \<open>The table \<open>processed_messages\<close>, and for each statement the fault it meets.\<close>

record dedup_db =
  dt_ids :: "string list"
  dt_sched :: "(string \<times> bool) option list"

definition dedup_call :: "(dedup_db \<Rightarrow> dedup_db \<times> 'a) \<Rightarrow> dedup_db \<Rightarrow> dedup_db \<times> 'a res" where
  "dedup_call f d = (case dt_sched d of
     [] \<Rightarrow> map_prod id Inr (f d)
   | None # fs \<Rightarrow> map_prod id Inr (f (d\<lparr>dt_sched := fs\<rparr>))
   | Some (msg, True) # fs \<Rightarrow> (fst (f (d\<lparr>dt_sched := fs\<rparr>)), Inl (ErrExt msg))
   | Some (msg, False) # fs \<Rightarrow> (d\<lparr>dt_sched := fs\<rparr>, Inl (ErrExt msg)))"

definition insert_processed :: "string \<Rightarrow> dedup_db \<Rightarrow> dedup_db" where
  "insert_processed mid d = (if mid \<in> set (dt_ids d) then d else d\<lparr>dt_ids := dt_ids d @ [mid]\<rparr>)"

lemma insert_processed_ids [simp]: "set (dt_ids (insert_processed mid d)) = insert mid (set (dt_ids d))"
  by (auto simp: insert_processed_def)

definition dedup_db_pool :: "dedup_db dedup_pool" where
  "dedup_db_pool = \<lparr>dx_seen = (\<lambda>d mid. dedup_call (\<lambda>d. (d, mid \<in> set (dt_ids d))) d),
     dx_mark = (\<lambda>d mid. case dedup_call (\<lambda>d. (insert_processed mid d, ())) d of
       (d1, Inl err) \<Rightarrow> (d1, Some err) | (d1, Inr u) \<Rightarrow> (d1, None))\<rparr>"

interpretation pg_dedup: deduplicator "pg_dedup_ops dedup_db_pool" "\<lambda>d. set (dt_ids d)" "\<lambda>_. True"
  by unfold_locales
    (auto simp: pg_dedup_ops_def pg_processed_def pg_mark_processed_def dedup_db_pool_def dedup_call_def
      split: list.splits option.splits bool.splits)

section \<open>The contract, and what breaks it\<close>


text \<open>
  C26. Several writers on one inbox, one per foreign topic as the ordering service starts them,
  can hide a message from the reader for good. A writer that has taken the identity value 1 may
  commit after another has stored its message as 2 and the reader has read it: the reader's
  checkpoint is then 2, so although message 1 is in the inbox and acknowledged, no read from the
  checkpoint returns it. The event store's advisory lock exists to prevent exactly this.
\<close>

theorem pg_inbox_writers_can_hide_a_message:
  assumes "message_codec mj" and "m_id m1 \<noteq> m_id m2"
  shows "\<exists>sched d1 d2 d3 d4.
    pg_ib_append mj inbox_db_pool (new_inbox_db sched) m2 = (d1, None) \<and>
    pg_ib_read_all mj inbox_db_pool d1 0 100 = (d2, Inr [\<lparr>im_seq = 2, im_msg = m2\<rparr>]) \<and>
    pg_ib_read_all mj inbox_db_pool d2 2 100 = (d3, Inr []) \<and>
    pg_ib_read_all mj inbox_db_pool d3 0 100 = (d4, Inr [\<lparr>im_seq = 1, im_msg = m1\<rparr>, \<lparr>im_seq = 2, im_msg = m2\<rparr>])"
proof -
  obtain j1 j2 where j: "mj_enc mj m2 = Inr j2" "mj_dec mj j1 = Inr m1" "mj_dec mj j2 = Inr m2"
    using message_codec.mj_law[OF assms(1)] by metis
  let ?calm = "\<lparr>ih_open = [], ih_close = [], ih_gap = 0, ih_fault = None\<rparr>"
  show ?thesis
    by (rule exI[of _ "[?calm\<lparr>ih_open := [(m_id m1, j1)]\<rparr>, ?calm, ?calm\<lparr>ih_close := [1]\<rparr>, ?calm]"])
      (use assms(2) j in \<open>simp add: pg_ib_append_def pg_ib_read_all_def inbox_db_pool_def inbox_call_def inbox_tick_def
        new_inbox_db_def own_insert_def taken_def open_insert_def close_insert_def inbox_read_sql_def Let_def\<close>)
qed

section \<open>Witnesses\<close>

definition demo_inbox_message :: "string \<Rightarrow> json message" where
  "demo_inbox_message mid = \<lparr>m_id = mid, m_key = ''42'', m_type = ''billing.payment_captured'', m_version = 1, m_at = 7,
     m_payload = JNull, m_meta = fmempty\<rparr>"

theorem pg_inbox_writers_can_hide_a_message_witness:
  "\<exists>sched d1 d2 d3 d4.
    pg_ib_append envelope_json inbox_db_pool (new_inbox_db sched) (demo_inbox_message ''b'') = (d1, None) \<and>
    pg_ib_read_all envelope_json inbox_db_pool d1 0 100 = (d2, Inr [\<lparr>im_seq = 2, im_msg = demo_inbox_message ''b''\<rparr>]) \<and>
    pg_ib_read_all envelope_json inbox_db_pool d2 2 100 = (d3, Inr []) \<and>
    pg_ib_read_all envelope_json inbox_db_pool d3 0 100 = (d4, Inr [\<lparr>im_seq = 1, im_msg = demo_inbox_message ''a''\<rparr>,
      \<lparr>im_seq = 2, im_msg = demo_inbox_message ''b''\<rparr>])"
  by (rule pg_inbox_writers_can_hide_a_message[OF envelope_json.message_codec_axioms])
    (simp add: demo_inbox_message_def)


end
