(* ===== verification/HttpApi.thy ===== *)
theory HttpApi
  imports ReadModel Cqrs
begin

text \<open>
  Ordering's REST edge (\<open>adapters/httpapi/server.go\<close>) and the query side of \<open>app/app.go\<close>. A request
  body is what \<open>json.Decoder\<close> makes of it, a syntax error or a value; the identifiers a request
  generates are given by the random bytes it reads.
\<close>

section \<open>The query\<close>

record get_order_query =
  gq_order_id :: string

definition get_order_name :: "get_order_query \<Rightarrow> string" where
  "get_order_name q = ''ordering.get_order''"

definition get_order :: "'w summary_store \<Rightarrow> 'w \<Rightarrow> get_order_query \<Rightarrow> 'w \<times> order_summary res" where
  "get_order summaries w q = ss_get summaries w (gq_order_id q)"

definition ordering_register_queries ::
  "'w summary_store \<Rightarrow> ('w, get_order_query, order_summary) query_bus
   \<Rightarrow> ('w, get_order_query, order_summary) query_bus option" where
  "ordering_register_queries summaries queries = handle_query queries ''ordering.get_order'' (get_order summaries)"

section \<open>Responses\<close>

text \<open>The body is missing when its encoder fails: the error is dropped after the status is sent.\<close>

record http_response =
  hr_status :: int
  hr_body :: "json option"

definition write_json :: "int \<Rightarrow> json res \<Rightarrow> http_response" where
  "write_json status v = \<lparr>hr_status = status, hr_body = (case v of Inl err \<Rightarrow> None | Inr j \<Rightarrow> Some j)\<rparr>"

definition error_body :: "string \<Rightarrow> string \<Rightarrow> json res" where
  "error_body code msg = Inr (JObj [(''code'', jstr code), (''message'', jstr msg)])"

definition write_error :: "gerr \<Rightarrow> http_response" where
  "write_error err = (case as_domain_error err of
     Some (code, msg) \<Rightarrow>
       write_json (if errors_is err ErrOrderNotFound \<or> errors_is err ErrNotFound then 404 else 422) (error_body code msg)
   | None \<Rightarrow> write_json 500 (error_body ''internal'' ''internal error''))"

text \<open>\<open>time\<close> is \<open>time.Time\<close>'s \<open>MarshalJSON\<close>, which fails outside years 0 to 9999.\<close>

definition marshal_summary :: "(instant \<Rightarrow> json res) \<Rightarrow> order_summary \<Rightarrow> json res" where
  "marshal_summary time s = (case time (os_placed_at s) of
     Inl err \<Rightarrow> Inl err
   | Inr t \<Rightarrow> Inr (JObj [(''order_id'', jstr (os_order_id s)), (''customer_id'', jstr (os_customer_id s)),
       (''cents'', JInt (os_cents s)), (''currency'', jstr (os_currency s)), (''qty'', JInt (os_qty s)),
       (''status'', jstr (os_status s)), (''placed_at'', t)]))"

section \<open>The handlers\<close>

record place_order_request =
  pr_customer_id :: string
  pr_cents :: int
  pr_currency :: string
  pr_qty :: int

definition unmarshal_place_order_request :: "json \<Rightarrow> place_order_request res" where
  "unmarshal_place_order_request = json_unmarshal (dec_struct [
     (''customer_id'', dec_field pr_customer_id (\<lambda>v. pr_customer_id_update (\<lambda>_. v)) dec_string),
     (''cents'', dec_field pr_cents (\<lambda>v. pr_cents_update (\<lambda>_. v)) dec_int),
     (''currency'', dec_field pr_currency (\<lambda>v. pr_currency_update (\<lambda>_. v)) dec_string),
     (''qty'', dec_field pr_qty (\<lambda>v. pr_qty_update (\<lambda>_. v)) dec_int)])
     \<lparr>pr_customer_id = [], pr_cents = 0, pr_currency = [], pr_qty = 0\<rparr>"

definition decode_body :: "gerr + json \<Rightarrow> place_order_request res" where
  "decode_body body = (case body of Inl err \<Rightarrow> Inl err | Inr j \<Rightarrow> unmarshal_place_order_request j)"

text \<open>
  \<open>hs_err_text\<close> is the \<open>Error()\<close> of a decoder's error. \<open>None\<close> is a handler that panics.
\<close>

record 'w http_server =
  hs_ctx :: "'w ctx_ops"
  hs_uni :: "string \<Rightarrow> string"
  hs_bus :: "('w, ordering_command) bus"
  hs_err_text :: "gerr \<Rightarrow> string"

definition http_place_order ::
  "'w http_server \<Rightarrow> 8 word list \<Rightarrow> 8 word list \<Rightarrow> gerr + json \<Rightarrow> 'w \<Rightarrow> 'w \<times> http_response option" where
  "http_place_order s rnd1 rnd2 body w =
     (case decode_body body of
        Inl err \<Rightarrow> (w, Some (write_json 400 (error_body ''invalid_json'' (hs_err_text s err))))
      | Inr req \<Rightarrow>
      (case (if pr_customer_id req \<noteq> [] then parse_id (hs_uni s) (pr_customer_id req) else Some (Inr (new_id rnd1))) of
        None \<Rightarrow> (w, None)
      | Some (Inl err) \<Rightarrow> (w, Some (write_error err))
      | Some (Inr customer) \<Rightarrow>
      (case new_money (pr_cents req) (pr_currency req) of
        Inl err \<Rightarrow> (w, Some (write_error err))
      | Inr total_ \<Rightarrow>
      (case new_quantity (pr_qty req) of
        Inl err \<Rightarrow> (w, Some (write_error err))
      | Inr qty \<Rightarrow>
          let oid = new_id rnd2;
              cmd = PlaceOrder \<lparr>po_id = oid, po_customer = customer, po_total = total_, po_qty = qty\<rparr> in
          (case dispatch (hs_ctx s) ordering_command_name (hs_bus s) w cmd of
             (w1, Some err) \<Rightarrow> (w1, Some (write_error err))
           | (w1, None) \<Rightarrow> (w1, Some (write_json 202 (Inr (JObj [(''order_id'', jstr (id_string oid))])))))))))"

definition http_get_order ::
  "('w, get_order_query, order_summary) query_bus \<Rightarrow> (instant \<Rightarrow> json res) \<Rightarrow> string \<Rightarrow> 'w \<Rightarrow> 'w \<times> http_response" where
  "http_get_order queries time oid w =
     (case ask get_order_name Some queries w \<lparr>gq_order_id = oid\<rparr> of
        (w1, Inl err) \<Rightarrow> (w1, write_error err)
      | (w1, Inr summary) \<Rightarrow> (w1, write_json 200 (marshal_summary time summary)))"

section \<open>Errors at the edge\<close>

lemma is_not_found:
  "as_domain_error err = Some (code, msg) \<Longrightarrow> errors_is err ErrOrderNotFound \<or> errors_is err ErrNotFound \<longleftrightarrow> code = ''not_found''"
  by (simp add: ErrOrderNotFound_def ErrNotFound_def new_domain_error_def errors_is_domain_sentinel)

text \<open>
  The error mapping of the edge, for any error through any wrapping: a domain error is
  answered with its own code and message, 404 exactly when its code is \<open>not_found\<close> (the order's and
  the event store's are told apart by nothing else), 422 otherwise; every other error is a 500 whose
  body is always the same and tells nothing of it.
\<close>

theorem write_error_maps:
  "write_error err = (case errors_as_domain err of
     Some (code, msg) \<Rightarrow> \<lparr>hr_status = (if code = ''not_found'' then 404 else 422),
       hr_body = Some (JObj [(''code'', jstr code), (''message'', jstr msg)])\<rparr>
   | None \<Rightarrow> \<lparr>hr_status = 500,
       hr_body = Some (JObj [(''code'', jstr ''internal''), (''message'', jstr ''internal error'')])\<rparr>)"
  using is_not_found[of err]
  by (auto simp: write_error_def as_domain_error_def write_json_def error_body_def split: option.split)

section \<open>Placing an order\<close>

lemma parse_id_cases:
  assumes "uni_ok uni"
  obtains i where "parse_id uni s = Some (Inr (i :: 't ident))" "canonical (id_value i)"
  | f where "(parse_id uni s :: 't ident res option) = Some (Inl (Wrapf ''%w: %q'' [FStr f] ErrInvalidID))"
proof (cases "length s = 36 \<and> list_all is_ascii s")
  case True
  then show ?thesis using that parse_id_ascii[of s uni] by (cases "canonical (map ascii_lower s)") auto
next
  case False
  then have "\<exists>f. (parse_id uni s :: 't ident res option) = Some (Inl (Wrapf ''%w: %q'' [FStr f] ErrInvalidID))"
    using parse_loop_non_ascii[OF assms, of s] by (cases "length s = 36") (auto simp: parse_id_def Let_def)
  then show ?thesis using that(2) by blast
qed

lemma new_id_canonical: "length b = 16 \<Longrightarrow> canonical (id_value (new_id b))"
  by (simp add: new_id_def format_uuid_canonical)

lemma ordering_registered:
  obtains b where "ordering_register uni orders md (new_bus []) = Some b"
    "bus_handlers b ''ordering.place_order'' = Some (\<lambda>w c. case c of
         PlaceOrder x \<Rightarrow> place_order orders md w x | _ \<Rightarrow> (w, Some wrong_ordering_command))"
    "bus_middleware b = []"
  by (simp add: ordering_register_def handle_command_def new_bus_def Let_def)

text \<open>What a request says: a decoder's error, the first domain error it meets, or an order.\<close>

definition request_error :: "(string \<Rightarrow> string) \<Rightarrow> place_order_request \<Rightarrow> gerr option" where
  "request_error uni req =
     (if pr_customer_id req \<noteq> [] \<and> (\<exists>e. (parse_id uni (pr_customer_id req) :: customer_id res option) = Some (Inl e))
      then Some ErrInvalidID
      else if pr_cents req \<le> 0 then Some ErrInvalidAmount
      else if length (pr_currency req) \<noteq> 3 then Some ErrInvalidCurrency
      else if pr_qty req \<le> 0 then Some ErrInvalidQuantity
      else None)"

definition requested_order :: "(string \<Rightarrow> string) \<Rightarrow> 8 word list \<Rightarrow> 8 word list \<Rightarrow> place_order_request \<Rightarrow> order_placed" where
  "requested_order uni rnd1 rnd2 req = \<lparr>op_id = new_id rnd2,
     op_customer = (if pr_customer_id req = [] then new_id rnd1 else projr (the (parse_id uni (pr_customer_id req)))),
     op_total = \<lparr>mo_cents = pr_cents req, mo_currency = pr_currency req\<rparr>, op_qty = \<lparr>qu_n = pr_qty req\<rparr>\<rparr>"

lemma decode_body_ok:
  assumes "decode_body body = Inr req"
  shows "in_int64 (pr_cents req) \<and> utf8_valid (pr_currency req) \<and> in_int64 (pr_qty req)"
proof -
  let ?P = "\<lambda>r. in_int64 (pr_cents r) \<and> utf8_valid (pr_currency r) \<and> in_int64 (pr_qty r)"
  obtain j where "unmarshal_place_order_request j = Inr req"
    using assms by (auto simp: decode_body_def split: sum.splits)
  note j = this[unfolded unmarshal_place_order_request_def]
  show ?thesis
  proof (rule json_unmarshal_keeps[where P = ?P, OF _ _ j])
    fix k d r v r1 e
    assume "(k, d) \<in> set [
     (''customer_id'', dec_field pr_customer_id (\<lambda>v. pr_customer_id_update (\<lambda>_. v)) dec_string),
     (''cents'', dec_field pr_cents (\<lambda>v. pr_cents_update (\<lambda>_. v)) dec_int),
     (''currency'', dec_field pr_currency (\<lambda>v. pr_currency_update (\<lambda>_. v)) dec_string),
     (''qty'', dec_field pr_qty (\<lambda>v. pr_qty_update (\<lambda>_. v)) dec_int)]"
      and "?P r" "d r v = Inr (r1, e)"
    then show "?P r1"
      by (auto simp: dec_field_def split: sum.splits prod.splits)
         (blast intro: dec_int_range dec_string_valid)+
  qed (simp add: utf8_valid_def)
qed

lemma write_error_wrap: "is_domain e \<Longrightarrow> write_error (Wrapf f xs e) = write_error e"
  by (simp add: write_error_def as_domain_error_def ErrOrderNotFound_def ErrNotFound_def new_domain_error_def)

lemmas edge_errors = ErrInvalidID_def ErrInvalidAmount_def ErrInvalidCurrency_def ErrInvalidQuantity_def
  ErrOrderNotFound_def ErrNotFound_def new_domain_error_def

lemma http_place_order_refused:
  assumes "uni_ok (hs_uni s)" "decode_body body = Inr req" "request_error (hs_uni s) req = Some err"
  shows "http_place_order s rnd1 rnd2 body w = (w, Some (write_error err))"
proof (cases "pr_customer_id req = []")
  case True
  with assms(2,3) show ?thesis
    by (auto simp: http_place_order_def request_error_def new_money_def new_quantity_def split: if_splits)
next
  case False
  show ?thesis
  proof (rule parse_id_cases[OF assms(1), of "pr_customer_id req" ?thesis, where 't = customer_tag])
    fix i :: customer_id
    assume "parse_id (hs_uni s) (pr_customer_id req) = Some (Inr i)"
    with False assms(2,3) show ?thesis
      by (auto simp: http_place_order_def request_error_def new_money_def new_quantity_def split: if_splits)
  next
    fix f
    assume "(parse_id (hs_uni s) (pr_customer_id req) :: customer_id res option) = Some (Inl (Wrapf ''%w: %q'' [FStr f] ErrInvalidID))"
    moreover have "is_domain ErrInvalidID" by (simp add: edge_errors)
    ultimately show ?thesis using False assms(2,3)
      by (auto simp: http_place_order_def request_error_def write_error_wrap)
  qed
qed

lemma request_error_is:
  assumes "request_error uni req = Some err"
  shows "\<exists>code msg. errors_as_domain err = Some (code, msg) \<and> write_error err =
    \<lparr>hr_status = 422, hr_body = Some (JObj [(''code'', jstr code), (''message'', jstr msg)])\<rparr>"
proof -
  have "err \<in> {ErrInvalidID, ErrInvalidAmount, ErrInvalidCurrency, ErrInvalidQuantity}"
    using assms by (auto simp: request_error_def split: if_splits)
  then show ?thesis
    by (auto simp: write_error_def as_domain_error_def edge_errors domain_error_is_def write_json_def error_body_def)
qed

text \<open>The store behind the server's command bus, with the context's metadata \<open>md\<close>.\<close>

definition served_by ::
  "json mem_store http_server \<Rightarrow> json mem_store orders \<Rightarrow> metadata \<Rightarrow> bool" where
  "served_by s orders md \<longleftrightarrow> ordering_register (hs_uni s) orders md (new_bus []) = Some (hs_bus s)"

lemma dispatch_place:
  assumes "served_by s orders md" "place_order orders md w c = (w', None)"
  shows "dispatch (hs_ctx s) ordering_command_name (hs_bus s) w (PlaceOrder c) = (w', None)"
proof -
  obtain b where b: "ordering_register (hs_uni s) orders md (new_bus []) = Some b"
    "bus_handlers b ''ordering.place_order'' = Some (\<lambda>w c. case c of
         PlaceOrder x \<Rightarrow> place_order orders md w x | _ \<Rightarrow> (w, Some wrong_ordering_command))"
    "bus_middleware b = []" by (rule ordering_registered)
  then have "hs_bus s = b" using assms(1) by (simp add: served_by_def)
  with b assms(2) show ?thesis by (simp add: dispatch_def with_retry_def retry_loop.simps)
qed

lemma requested_valid:
  assumes "uni_ok uni" "decode_body body = Inr req" "request_error uni req = None" "length rnd1 = 16" "length rnd2 = 16"
  shows "order_placed_valid (requested_order uni rnd1 rnd2 req)"
proof -
  have "canonical (id_value (op_customer (requested_order uni rnd1 rnd2 req)))"
  proof (cases "pr_customer_id req = []")
    case False
    show ?thesis
    proof (rule parse_id_cases[OF assms(1), of "pr_customer_id req" ?thesis, where 't = customer_tag])
      fix i :: customer_id assume "parse_id uni (pr_customer_id req) = Some (Inr i)" "canonical (id_value i)"
      with False show ?thesis by (simp add: requested_order_def)
    qed (use assms(3) False in \<open>auto simp: request_error_def split: if_splits\<close>)
  qed (use new_id_canonical assms(4) in \<open>simp add: requested_order_def\<close>)
  then show ?thesis
    using decode_body_ok[OF assms(2)] assms(3) new_id_canonical[OF assms(5)]
    by (auto simp: order_placed_valid_def requested_order_def money_valid_def quantity_valid_def request_error_def split: if_splits)
qed

lemma http_place_order_accepted:
  assumes u: "uni_ok (hs_uni s)" and d: "decode_body body = Inr req" "request_error (hs_uni s) req = None"
    and r: "length rnd1 = 16" "length rnd2 = 16"
    and sv: "served_by s (new_orders (mem_ops now) (ordering_registry (hs_uni s) sc) sc) md"
    and w: "mem_inv w" "stream_version (ms_all w) \<lparr>si_category = ''order'', si_id = id_value (new_id rnd2 :: order_id)\<rparr> = 0"
  shows "\<exists>w' rec. http_place_order s rnd1 rnd2 body w = (w', Some \<lparr>hr_status = 202,
       hr_body = Some (JObj [(''order_id'', jstr (id_value (new_id rnd2 :: order_id)))])\<rparr>) \<and>
     mem_inv w' \<and> ms_all w' = ms_all w @ [rec] \<and> rec_meta rec = md \<and>
     rec_stream rec = \<lparr>si_category = ''order'', si_id = id_value (new_id rnd2 :: order_id)\<rparr> \<and>
     decode (ordering_registry (hs_uni s) sc) rec = Inr (own_event (OrderPlaced (requested_order (hs_uni s) rnd1 rnd2 req)))"
proof -
  let ?rp = "new_orders (mem_ops 0) (ordering_registry (hs_uni s) sc) sc"
  let ?p = "requested_order (hs_uni s) rnd1 rnd2 req"
  let ?c = "\<lparr>po_id = op_id ?p, po_customer = op_customer ?p, po_total = op_total ?p, po_qty = op_qty ?p\<rparr>"
  note v = requested_valid[OF u d r]
  then have ok: "order_placed_ok ?p" by (simp add: order_placed_ok_def order_placed_valid_def id_ok_def)
  obtain j where j: "marshal_order_event (OrderPlaced ?p) = Inr j" using order_placed_roundtrip[OF v] by blast
  have nz: "\<not> money_is_zero (op_total ?p)"
    using v by (auto simp: order_placed_valid_def money_valid_def money_is_zero_def zero_money_def)
  obtain a where a: "order_place (po_id ?c) (po_customer ?c) (po_total ?c) (po_qty ?c) = Inr a"
    using nz by (simp add: order_place_def order_raise_def raise_event_def order_apply_def own_event_def)
  have p_eq: "\<lparr>op_id = op_id ?p, op_customer = op_customer ?p, op_total = op_total ?p, op_qty = op_qty ?p\<rparr> = ?p" by simp
  have pend: "agg_version a = 0" "agg_pending a = [own_event (OrderPlaced ?p)]" using order_place_ok[OF a] p_eq by simp_all
  obtain w' pos a' err where s: "repo_save (rp_at ?rp now) md None w (id_value (op_id ?p)) a = (w', pos, a', err)"
    by (metis prod_cases4)
  have id: "op_id ?p = new_id rnd2" by (simp add: requested_order_def)
  from save_one[OF w(1) pend(2) _ _ _ order_placed_stored[OF ok] s] pend(1) j w(2)
  have res: "err = None" "mem_inv w'" "\<exists>rec. ms_all w' = ms_all w @ [rec] \<and>
      rec_stream rec = \<lparr>si_category = ''order'', si_id = id_value (op_id ?p)\<rparr> \<and> rec_meta rec = md \<and>
      decode (ordering_registry (hs_uni s) sc) rec = Inr (own_event (OrderPlaced ?p))"
    by (simp_all add: id own_event_def ordering_registry_entries marshal_ordering_event_def)
  have "place_order (new_orders (mem_ops now) (ordering_registry (hs_uni s) sc) sc) md w ?c = (w', None)"
    using a s res(1) by (simp add: place_order_def id_string_def)
  note dp = dispatch_place[OF sv this]
  have "http_place_order s rnd1 rnd2 body w = (w', Some (write_json 202 (Inr (JObj [(''order_id'', jstr (id_string (new_id rnd2 :: order_id)))]))))"
  proof (cases "pr_customer_id req = []")
    case True
    with d dp show ?thesis
      by (auto simp: http_place_order_def request_error_def new_money_def new_quantity_def requested_order_def Let_def split: if_splits)
  next
    case False
    show ?thesis
    proof (rule parse_id_cases[OF u, of "pr_customer_id req" ?thesis, where 't = customer_tag])
      fix i :: customer_id assume "parse_id (hs_uni s) (pr_customer_id req) = Some (Inr i)"
      with False d dp show ?thesis
        by (auto simp: http_place_order_def request_error_def new_money_def new_quantity_def requested_order_def Let_def split: if_splits)
    qed (use d(2) False in \<open>auto simp: request_error_def split: if_splits\<close>)
  qed
  with res id show ?thesis by (auto simp: write_json_def id_string_def)
qed


section \<open>Reading an order\<close>

text \<open>
  \<open>GET /orders/{id}\<close> after any history of the read model in which the order has one placing
  event: 404 if nothing ever mentioned the order, otherwise 200 with the reference row, status of
  the furthest milestone included, whatever order the facts arrived in.
\<close>

theorem get_order_shows_reference:
  assumes "\<And>md. \<exists>j. mc_enc mc md = Inr j" and "one_placing (set zs)"
    and "ordering_register_queries (pg_summary_store direct_pool) (new_query_bus []) = Some queries"
  shows "http_get_order queries time oid (feed_all mc zs empty_side) = (feed_all mc zs empty_side,
    case shown zs oid of
      None \<Rightarrow> \<lparr>hr_status = 404, hr_body = Some (JObj [(''code'', jstr ''not_found''), (''message'', jstr ''order does not exist'')])\<rparr>
    | Some row \<Rightarrow> \<lparr>hr_status = 200, hr_body = (case marshal_summary time row of Inl err \<Rightarrow> None | Inr j \<Rightarrow> Some j)\<rparr>)"
proof -
  have "ask get_order_name Some queries v \<lparr>gq_order_id = oid\<rparr> = pg_get direct_pool v oid" for v
    using assms(3) by (cases "pg_get direct_pool v oid")
      (auto simp: ordering_register_queries_def handle_query_def new_query_bus_def ask_def query_dispatch_def get_order_name_def
        get_order_def pg_summary_store_def split: sum.splits)
  then show ?thesis
    using get_row_of[OF rows_after[OF assms(1,2)], of oid]
    by (auto simp: http_get_order_def pg_get_def write_error_def as_domain_error_def write_json_def error_body_def edge_errors
        domain_error_is_def split: option.split)
qed

section \<open>Witnesses\<close>

definition demo_server :: "json mem_store http_server" where
  "demo_server = \<lparr>hs_ctx = \<lparr>ctx_err = (\<lambda>w. (w, False)), ctx_sleep = (\<lambda>w. (w, True))\<rparr>, hs_uni = demo_uni,
     hs_bus = the (ordering_register demo_uni demo_orders fmempty (new_bus [])), hs_err_text = (\<lambda>e. [])\<rparr>"

definition demo_body :: "gerr + json" where
  "demo_body = Inr (JObj [(''cents'', JInt 500), (''currency'', jstr ''THB''), (''qty'', JInt 2)])"

lemma demo_decoded: "decode_body demo_body = Inr \<lparr>pr_customer_id = [], pr_cents = 500, pr_currency = ''THB'', pr_qty = 2\<rparr>"
  by (simp add: decode_body_def demo_body_def unmarshal_place_order_request_def json_simps in_int64_def int64_min_def
      int64_max_def is_ascii_def)


theorem get_order_shows_reference_witness:
  "\<exists>queries. ordering_register_queries (pg_summary_store direct_pool) (new_query_bus []) = Some queries \<and>
     hr_status (snd (http_get_order queries (\<lambda>t. Inr (JInt t)) demo_order_id (feed_all demo_mc demo_items empty_side))) = 200"
proof -
  obtain queries where q: "ordering_register_queries (pg_summary_store direct_pool) (new_query_bus []) =
      Some (queries :: (read_side, get_order_query, order_summary) query_bus)"
    by (simp add: ordering_register_queries_def handle_query_def new_query_bus_def)
  have "shown demo_items demo_order_id \<noteq> None" by (simp add: shown_def demo_ops_of Let_def)
  with get_order_shows_reference[OF demo_mc_enc demo_one_placing q, of "\<lambda>t. Inr (JInt t)" demo_order_id] q show ?thesis
    by auto
qed

end
