(* ===== verification/Kafka.thy ===== *)
theory Kafka
  imports Projection
begin

text \<open>
  The Kafka adapter of the broker port (\<open>broker-kafka/broker.go\<close>): the envelope as record headers,
  publishing, and the subscription loop over a consumer-group client. The client is a record of the
  calls the adapter makes; the cluster behind it is modelled by what its protocol promises: records
  of a partition are fetched in offset order from the position, which restarts at the committed
  offset when partitions are assigned; a commit may fail with or without effect, but has none once
  its context has ended.
\<close>

section \<open>Records\<close>

record kafka_header =
  kh_key :: string
  kh_value :: string

record 'p kafka_record =
  kr_topic :: string
  kr_key :: string
  kr_value :: 'p
  kr_headers :: "kafka_header list"
  kr_partition :: nat
  kr_offset :: nat

definition headerID :: string where "headerID = ''gohex-id''"
definition headerType :: string where "headerType = ''gohex-type''"
definition headerVersion :: string where "headerVersion = ''gohex-version''"
definition headerOccurredAt :: string where "headerOccurredAt = ''gohex-occurred-at''"
definition headerMetadata :: string where "headerMetadata = ''gohex-metadata''"

lemmas header_defs = headerID_def headerType_def headerVersion_def headerOccurredAt_def headerMetadata_def

text \<open>
  \<open>kc_time\<close> and \<open>kc_parse_time\<close> are \<open>Format\<close> and \<open>time.Parse\<close> with \<open>RFC3339Nano\<close> (the zero time on an
  error, which the adapter drops); \<open>kc_meta\<close> is \<open>json.Marshal\<close> of a metadata map and \<open>kc_parse_meta\<close>
  what \<open>json.Unmarshal\<close> leaves in a map, its error dropped too.
\<close>

record kafka_codec =
  kc_time :: "instant \<Rightarrow> string"
  kc_parse_time :: "string \<Rightarrow> instant"
  kc_meta :: "metadata \<Rightarrow> string res"
  kc_parse_meta :: "string \<Rightarrow> metadata \<Rightarrow> metadata"
  kc_zero_time :: instant

definition to_record :: "kafka_codec \<Rightarrow> string \<Rightarrow> 'p message \<Rightarrow> 'p kafka_record res" where
  "to_record kc topic m =
     (let headers =
        [\<lparr>kh_key = headerID, kh_value = m_id m\<rparr>, \<lparr>kh_key = headerType, kh_value = m_type m\<rparr>,
         \<lparr>kh_key = headerVersion, kh_value = itoa (m_version m)\<rparr>,
         \<lparr>kh_key = headerOccurredAt, kh_value = kc_time kc (m_at m)\<rparr>];
        rec = (\<lambda>hs. \<lparr>kr_topic = topic, kr_key = m_key m, kr_value = m_payload m, kr_headers = hs,
                    kr_partition = 0, kr_offset = 0\<rparr>) in
      if m_meta m \<noteq> fmempty then
        (case kc_meta kc (m_meta m) of
           Inl err \<Rightarrow> Inl (Wrapf ''kafkabroker: encoding metadata of %s: %w'' [FStr (m_id m)] err)
         | Inr md \<Rightarrow> Inr (rec (headers @ [\<lparr>kh_key = headerMetadata, kh_value = md\<rparr>])))
      else Inr (rec headers))"

definition read_header :: "kafka_codec \<Rightarrow> 'p message \<Rightarrow> kafka_header \<Rightarrow> 'p message" where
  "read_header kc msg h =
     (if kh_key h = headerID then msg\<lparr>m_id := kh_value h\<rparr>
      else if kh_key h = headerType then msg\<lparr>m_type := kh_value h\<rparr>
      else if kh_key h = headerVersion then msg\<lparr>m_version := fst (atoi (kh_value h))\<rparr>
      else if kh_key h = headerOccurredAt then msg\<lparr>m_at := kc_parse_time kc (kh_value h)\<rparr>
      else if kh_key h = headerMetadata then msg\<lparr>m_meta := kc_parse_meta kc (kh_value h) (m_meta msg)\<rparr>
      else msg)"

definition from_record :: "kafka_codec \<Rightarrow> 'p kafka_record \<Rightarrow> 'p message" where
  "from_record kc r = foldl (read_header kc)
     \<lparr>m_id = [], m_key = kr_key r, m_type = [], m_version = 0, m_at = kc_zero_time kc,
      m_payload = kr_value r, m_meta = fmempty\<rparr> (kr_headers r)"

section \<open>Publishing\<close>

text \<open>\<open>produce\<close> is \<open>ProduceSync\<close> with \<open>FirstErr\<close>.\<close>

fun to_records :: "kafka_codec \<Rightarrow> string \<Rightarrow> 'p message list \<Rightarrow> 'p kafka_record list res" where
  "to_records kc topic [] = Inr []"
| "to_records kc topic (m # ms) = (case to_record kc topic m of
     Inl err \<Rightarrow> Inl err
   | Inr r \<Rightarrow> (case to_records kc topic ms of Inl err \<Rightarrow> Inl err | Inr rs \<Rightarrow> Inr (r # rs)))"

definition kafka_publish ::
  "kafka_codec \<Rightarrow> ('w \<Rightarrow> 'p kafka_record list \<Rightarrow> 'w \<times> gerr option) \<Rightarrow> ('w, 'p) publish" where
  "kafka_publish kc produce w topic msgs =
     (case to_records kc topic msgs of
        Inl err \<Rightarrow> (w, Some err)
      | Inr records \<Rightarrow> (case produce w records of
          (w1, Some err) \<Rightarrow> (w1, Some (Wrapf ''kafkabroker: publish to %s: %w'' [FStr topic] err))
        | (w1, None) \<Rightarrow> (w1, None)))"

section \<open>The subscription\<close>

record 'p fetches =
  fe_closed :: bool
  fe_errors :: "(string \<times> gerr) list"
  fe_records :: "'p kafka_record list"

record ('w, 'p) kafka_client =
  kl_new :: "'w \<Rightarrow> 'w \<times> gerr option"
  kl_poll :: "'w \<Rightarrow> 'w \<times> 'p fetches"
  kl_commit :: "'w \<Rightarrow> 'p kafka_record \<Rightarrow> 'w \<times> gerr option"
  kl_close :: "'w \<Rightarrow> 'w"

text \<open>
  One message: tried until the handler succeeds (\<open>True\<close>) or the context ends (\<open>False\<close>). Without fuel
  left it is still being tried.
\<close>

fun kafka_deliver :: "nat \<Rightarrow> 'w ctx_ops \<Rightarrow> ('w, 'p) msg_handler \<Rightarrow> 'w \<Rightarrow> 'p message \<Rightarrow> ('w \<times> bool) option" where
  "kafka_deliver 0 ctx h w msg = None"
| "kafka_deliver (Suc n) ctx h w msg =
     (case h w msg of
        (w1, None) \<Rightarrow> Some (w1, True)
      | (w1, Some err) \<Rightarrow>
          (case ctx_sleep ctx w1 of
             (w2, False) \<Rightarrow> Some (w2, False)
           | (w2, True) \<Rightarrow> kafka_deliver n ctx h w2 msg))"

text \<open>
  \<open>EachRecord\<close> with its callback. A callback that returns because the context ended does not stop
  the iteration: the records behind it still reach the handler.
\<close>

fun kafka_each ::
  "nat \<Rightarrow> kafka_codec \<Rightarrow> 'w ctx_ops \<Rightarrow> ('w, 'p) kafka_client \<Rightarrow> ('w, 'p) msg_handler \<Rightarrow> gerr option \<Rightarrow> 'w
   \<Rightarrow> 'p kafka_record list \<Rightarrow> ('w \<times> gerr option) option" where
  "kafka_each n kc ctx cl h failed w [] = Some (w, failed)"
| "kafka_each n kc ctx cl h (Some err) w (r # rs) = kafka_each n kc ctx cl h (Some err) w rs"
| "kafka_each n kc ctx cl h None w (r # rs) =
     (case kafka_deliver n ctx h w (from_record kc r) of
        None \<Rightarrow> None
      | Some (w1, False) \<Rightarrow> kafka_each n kc ctx cl h None w1 rs
      | Some (w1, True) \<Rightarrow>
          (case kl_commit cl w1 r of (w2, failed) \<Rightarrow> kafka_each n kc ctx cl h failed w2 rs))"

fun kafka_loop ::
  "nat \<Rightarrow> kafka_codec \<Rightarrow> 'w ctx_ops \<Rightarrow> ('w, 'p) kafka_client \<Rightarrow> string \<Rightarrow> string \<Rightarrow> ('w, 'p) msg_handler \<Rightarrow> 'w
   \<Rightarrow> ('w \<times> gerr option) option" where
  "kafka_loop 0 kc ctx cl topic grp h w = None"
| "kafka_loop (Suc n) kc ctx cl topic grp h w =
     (case kl_poll cl w of (w1, fetches) \<Rightarrow>
     (case ctx_err ctx w1 of
        (w2, True) \<Rightarrow> Some (w2, None)
      | (w2, False) \<Rightarrow>
          if fe_closed fetches then Some (w2, None)
          else (case fe_errors fetches of
            (t, err) # errs \<Rightarrow> Some (w2, Some (Wrapf ''kafkabroker: fetch %s/%s: %w'' [FStr t, FStr grp] err))
          | [] \<Rightarrow>
              (case kafka_each n kc ctx cl h None w2 (fe_records fetches) of
                 None \<Rightarrow> None
               | Some (w3, failed) \<Rightarrow>
                   (case ctx_err ctx w3 of
                      (w4, True) \<Rightarrow> Some (w4, None)
                    | (w4, False) \<Rightarrow>
                        (case failed of
                           Some err \<Rightarrow> Some (w4, Some (Wrapf ''kafkabroker: commit %s/%s: %w'' [FStr topic, FStr grp] err))
                         | None \<Rightarrow> kafka_loop n kc ctx cl topic grp h w4))))))"

definition kafka_subscribe ::
  "nat \<Rightarrow> kafka_codec \<Rightarrow> 'w ctx_ops \<Rightarrow> ('w, 'p) kafka_client \<Rightarrow> string \<Rightarrow> string \<Rightarrow> ('w, 'p) msg_handler \<Rightarrow> 'w
   \<Rightarrow> ('w \<times> gerr option) option" where
  "kafka_subscribe n kc ctx cl topic grp h w =
     (case kl_new cl w of
        (w1, Some err) \<Rightarrow> Some (w1, Some (Wrapf ''kafkabroker: subscribe %s/%s: %w'' [FStr topic, FStr grp] err))
      | (w1, None) \<Rightarrow> map_option (\<lambda>(w2, r). (kl_close cl w2, r)) (kafka_loop n kc ctx cl topic grp h w1))"

section \<open>The cluster\<close>

text \<open>
  One topic and one group. Before each call other producers may have appended; a poll may follow an
  assignment, takes some records from some partitions, or reports errors.
\<close>

record 'p kafka_happening =
  ka_produced :: "(nat \<times> 'p kafka_record) list"
  ka_assigned :: bool
  ka_take :: "(nat \<times> nat) list"
  ka_errors :: "(string \<times> gerr) list"
  ka_fault :: "(string \<times> bool) option"

record ('p, 'h) kafka_world =
  kw_parts :: "nat \<Rightarrow> 'p kafka_record list"
  kw_committed :: "nat \<Rightarrow> nat"
  kw_position :: "nat \<Rightarrow> nat"
  kw_app :: 'h
  kw_sched :: "'p kafka_happening list"

definition produce_one :: "nat \<times> 'p kafka_record \<Rightarrow> (nat \<Rightarrow> 'p kafka_record list) \<Rightarrow> nat \<Rightarrow> 'p kafka_record list" where
  "produce_one pr parts = (case pr of (p, r) \<Rightarrow>
     parts(p := parts p @ [r\<lparr>kr_partition := p, kr_offset := length (parts p)\<rparr>]))"

definition calm_kafka :: "'p kafka_happening" where
  "calm_kafka = \<lparr>ka_produced = [], ka_assigned = False, ka_take = [], ka_errors = [], ka_fault = None\<rparr>"

definition kw_tick :: "('p, 'h) kafka_world \<Rightarrow> ('p, 'h) kafka_world \<times> 'p kafka_happening" where
  "kw_tick w = (case kw_sched w of
     [] \<Rightarrow> (w, calm_kafka)
   | a # as \<Rightarrow> (w\<lparr>kw_sched := as, kw_parts := fold produce_one (ka_produced a) (kw_parts w)\<rparr>, a))"

fun take_parts ::
  "(nat \<Rightarrow> 'p kafka_record list) \<Rightarrow> (nat \<Rightarrow> nat) \<Rightarrow> (nat \<times> nat) list \<Rightarrow> 'p kafka_record list \<times> (nat \<Rightarrow> nat)" where
  "take_parts parts pos [] = ([], pos)"
| "take_parts parts pos ((p, k) # rest) =
     (let rs = take k (drop (pos p) (parts p)) in
      apfst ((@) rs) (take_parts parts (pos(p := pos p + length rs)) rest))"

definition cluster_poll :: "('p, 'h) kafka_world \<Rightarrow> ('p, 'h) kafka_world \<times> 'p fetches" where
  "cluster_poll w = (case kw_tick w of (w1, a) \<Rightarrow>
     (let pos = (if ka_assigned a then kw_committed w1 else kw_position w1) in
      if ka_errors a \<noteq> [] then (w1\<lparr>kw_position := pos\<rparr>, \<lparr>fe_closed = False, fe_errors = ka_errors a, fe_records = []\<rparr>)
      else (case take_parts (kw_parts w1) pos (ka_take a) of (rs, pos') \<Rightarrow>
        (w1\<lparr>kw_position := pos'\<rparr>, \<lparr>fe_closed = False, fe_errors = [], fe_records = rs\<rparr>))))"

text \<open>The one promise about a call whose context has ended is that it commits nothing.\<close>

definition cluster_commit :: "('p, 'h) kafka_world \<Rightarrow> 'p kafka_record \<Rightarrow> ('p, 'h) kafka_world \<times> gerr option" where
  "cluster_commit w r =
     (if kw_sched w = [] then (w, Some (ErrExt ''context ended''))
      else (case kw_tick w of (w1, a) \<Rightarrow>
        (let w2 = w1\<lparr>kw_committed := (kw_committed w1)(kr_partition r := kr_offset r + 1)\<rparr> in
         case ka_fault a of
           None \<Rightarrow> (w2, None)
         | Some (msg, took) \<Rightarrow> (if took then w2 else w1, Some (ErrExt msg)))))"

definition cluster_client :: "(('p, 'h) kafka_world, 'p) kafka_client" where
  "cluster_client =
     \<lparr>kl_new = (\<lambda>w. case kw_tick w of (w1, a) \<Rightarrow> (case ka_fault a of
        None \<Rightarrow> (w1\<lparr>kw_position := kw_committed w1\<rparr>, None)
      | Some (msg, d) \<Rightarrow> (w1, Some (ErrExt msg)))),
      kl_poll = cluster_poll, kl_commit = cluster_commit, kl_close = id\<rparr>"

lemma cluster_client_simps:
  "kl_new cluster_client w = (case kw_tick w of (w1, a) \<Rightarrow> (case ka_fault a of
     None \<Rightarrow> (w1\<lparr>kw_position := kw_committed w1\<rparr>, None) | Some (msg, d) \<Rightarrow> (w1, Some (ErrExt msg))))"
  "kl_poll cluster_client = cluster_poll" "kl_commit cluster_client = cluster_commit" "kl_close cluster_client = id"
  by (simp_all add: cluster_client_def)

definition kw_ctx :: "('p, 'h) kafka_world ctx_ops" where
  "kw_ctx = \<lparr>ctx_err = (\<lambda>w. (w, kw_sched w = [])),
     ctx_sleep = (\<lambda>w. let w1 = fst (kw_tick w) in (w1, kw_sched w1 \<noteq> []))\<rparr>"

text \<open>A handler works on the application's part of the world while the cluster moves on.\<close>

definition in_app :: "('h, 'p) msg_handler \<Rightarrow> (('p, 'h) kafka_world, 'p) msg_handler" where
  "in_app h = (\<lambda>w msg. case h (kw_app w) msg of (a, r) \<Rightarrow> ((fst (kw_tick w))\<lparr>kw_app := a\<rparr>, r))"

section \<open>What a subscription keeps\<close>

definition rec_key :: "'p kafka_record \<Rightarrow> nat \<times> nat" where
  "rec_key r = (kr_partition r, kr_offset r)"

definition wf_parts :: "('p, 'h) kafka_world \<Rightarrow> bool" where
  "wf_parts w \<longleftrightarrow> (\<forall>p j. j < length (kw_parts w p) \<longrightarrow> rec_key (kw_parts w p ! j) = (p, j))"

definition handled_at ::
  "kafka_codec \<Rightarrow> ('h \<Rightarrow> 'p message \<Rightarrow> bool) \<Rightarrow> ('p, 'h) kafka_world \<Rightarrow> nat \<Rightarrow> nat \<Rightarrow> bool" where
  "handled_at kc P w p j \<longleftrightarrow> j < length (kw_parts w p) \<and> P (kw_app w) (from_record kc (kw_parts w p ! j))"

text \<open>Every record below a partition's committed offset has been handled.\<close>

definition committed_handled :: "kafka_codec \<Rightarrow> ('h \<Rightarrow> 'p message \<Rightarrow> bool) \<Rightarrow> ('p, 'h) kafka_world \<Rightarrow> bool" where
  "committed_handled kc P w \<longleftrightarrow> (\<forall>p j. j < kw_committed w p \<longrightarrow> handled_at kc P w p j)"

text \<open>
  A batch in an order that may be committed record by record, when the records of \<open>D\<close> come first.
\<close>

fun batch_ok ::
  "kafka_codec \<Rightarrow> ('h \<Rightarrow> 'p message \<Rightarrow> bool) \<Rightarrow> (nat \<times> nat) set \<Rightarrow> ('p, 'h) kafka_world \<Rightarrow> 'p kafka_record list \<Rightarrow> bool" where
  "batch_ok kc P D w [] = True"
| "batch_ok kc P D w (r # rs) \<longleftrightarrow>
     kr_offset r < length (kw_parts w (kr_partition r)) \<and> kw_parts w (kr_partition r) ! kr_offset r = r \<and>
     (\<forall>j<kr_offset r. handled_at kc P w (kr_partition r) j \<or> (kr_partition r, j) \<in> D) \<and>
     batch_ok kc P (insert (rec_key r) D) w rs"

definition behind :: "kafka_codec \<Rightarrow> ('h \<Rightarrow> 'p message \<Rightarrow> bool) \<Rightarrow> (nat \<times> nat) set \<Rightarrow> ('p, 'h) kafka_world \<Rightarrow> (nat \<Rightarrow> nat) \<Rightarrow> bool" where
  "behind kc P D w pos \<longleftrightarrow> (\<forall>p. \<forall>j<pos p. handled_at kc P w p j \<or> (p, j) \<in> D)"

lemma batch_ok_append:
  "batch_ok kc P D w (xs @ ys) \<longleftrightarrow> batch_ok kc P D w xs \<and> batch_ok kc P (D \<union> rec_key ` set xs) w ys"
  by (induction xs arbitrary: D) simp_all

lemma batch_ok_chunk:
  assumes "wf_parts w" "\<forall>j<i. handled_at kc P w p j \<or> (p, j) \<in> D"
  shows "batch_ok kc P D w (take k (drop i (kw_parts w p)))"
  using assms(2)
proof (induction k arbitrary: i D)
  case (Suc k)
  show ?case
  proof (cases "i < length (kw_parts w p)")
    case True
    then have d: "drop i (kw_parts w p) = kw_parts w p ! i # drop (Suc i) (kw_parts w p)" by (rule Cons_nth_drop_Suc[symmetric])
    have k: "rec_key (kw_parts w p ! i) = (p, i)" using assms(1) True by (simp add: wf_parts_def)
    have "batch_ok kc P (insert (p, i) D) w (take k (drop (Suc i) (kw_parts w p)))"
      by (rule Suc.IH) (use Suc.prems in \<open>auto simp: less_Suc_eq\<close>)
    with d k True Suc.prems show ?thesis by (simp add: rec_key_def)
  qed simp
qed simp

lemma take_keys:
  assumes "wf_parts w"
  shows "rec_key ` set (take k (drop i (kw_parts w p))) = {p} \<times> {i..<i + length (take k (drop i (kw_parts w p)))}"
proof -
  let ?xs = "take k (drop i (kw_parts w p))"
  have "map rec_key ?xs = map (\<lambda>n. (p, i + n)) [0..<length ?xs]"
    using assms by (intro nth_equalityI) (auto simp: wf_parts_def)
  then have "rec_key ` set ?xs = (\<lambda>n. (p, i + n)) ` {0..<length ?xs}"
    using set_map[of rec_key ?xs] by (simp only: set_map set_upt)
  also have "\<dots> = {p} \<times> {i..<i + length ?xs}"
    by (force simp: image_iff dest: le_Suc_ex)
  finally show ?thesis .
qed

lemma take_parts_ok:
  assumes "wf_parts w" "behind kc P D w pos" "take_parts (kw_parts w) pos tk = (rs, pos')"
  shows "batch_ok kc P D w rs \<and> behind kc P (D \<union> rec_key ` set rs) w pos'"
  using assms(2,3)
proof (induction "kw_parts w" pos tk arbitrary: D rs pos' rule: take_parts.induct)
  case (2 pos p k rest)
  let ?rs = "take k (drop (pos p) (kw_parts w p))"
  obtain ms where ms: "take_parts (kw_parts w) (pos(p := pos p + length ?rs)) rest = (ms, pos')" "rs = ?rs @ ms"
    using "2.prems"(2) by (cases "take_parts (kw_parts w) (pos(p := pos p + length ?rs)) rest") (auto simp: Let_def)
  have b: "behind kc P (D \<union> rec_key ` set ?rs) w (pos(p := pos p + length ?rs))"
    using "2.prems"(1) unfolding behind_def take_keys[OF assms(1)] by (auto simp: not_less not_le) blast
  from "2.hyps"[OF refl b ms(1)] batch_ok_chunk[OF assms(1), of "pos p" kc P p D k] "2.prems"(1) show ?case
    by (simp add: ms(2) batch_ok_append behind_def image_Un Un_assoc)
qed (simp add: behind_def)

text \<open>The environment only adds records; the schedule runs out.\<close>

definition moved :: "('p, 'h) kafka_world \<Rightarrow> ('p, 'h) kafka_world \<Rightarrow> bool" where
  "moved w w' \<longleftrightarrow> (\<forall>p. prefix (kw_parts w p) (kw_parts w' p)) \<and> (wf_parts w \<longrightarrow> wf_parts w') \<and>
     length (kw_sched w') \<le> length (kw_sched w)"

lemma moved_refl [simp]: "moved w w"
  by (simp add: moved_def)

lemma moved_trans: "moved u v \<Longrightarrow> moved v w \<Longrightarrow> moved u w"
  unfolding moved_def by (meson order_trans prefix_order.trans)

lemma moved_fields [simp]:
  "moved u (w\<lparr>kw_committed := c\<rparr>) = moved u w" "moved u (w\<lparr>kw_position := x\<rparr>) = moved u w"
  "moved u (w\<lparr>kw_app := a\<rparr>) = moved u w"
  by (simp_all add: moved_def wf_parts_def)

lemma produce_one_ok:
  "prefix (parts p) (produce_one pr parts p) \<and>
   ((\<forall>p j. j < length (parts p) \<longrightarrow> rec_key (parts p ! j) = (p, j)) \<longrightarrow>
    j < length (produce_one pr parts p) \<longrightarrow> rec_key (produce_one pr parts p ! j) = (p, j))"
  by (auto simp: produce_one_def rec_key_def nth_append less_Suc_eq split: prod.splits)

lemma produce_ok:
  "prefix (parts p) (fold produce_one prs parts p) \<and>
   ((\<forall>p j. j < length (parts p) \<longrightarrow> rec_key (parts p ! j) = (p, j)) \<longrightarrow>
    (\<forall>p j. j < length (fold produce_one prs parts p) \<longrightarrow> rec_key (fold produce_one prs parts p ! j) = (p, j)))"
proof (induction prs arbitrary: parts)
  case (Cons pr prs)
  have "prefix (parts p) (fold produce_one prs (produce_one pr parts) p)"
    using Cons.IH[of "produce_one pr parts"] produce_one_ok[of parts p pr] prefix_order.trans by blast
  moreover have "\<forall>p j. j < length (produce_one pr parts p) \<longrightarrow> rec_key (produce_one pr parts p ! j) = (p, j)"
    if "\<forall>p j. j < length (parts p) \<longrightarrow> rec_key (parts p ! j) = (p, j)"
    using produce_one_ok[of parts _ pr] that by blast
  ultimately show ?case using Cons.IH[of "produce_one pr parts"] by simp
qed simp

lemma kw_tick_ok:
  assumes "kw_tick w = (w1, a)"
  shows "moved w w1 \<and> kw_app w1 = kw_app w \<and> kw_committed w1 = kw_committed w \<and> kw_position w1 = kw_position w \<and>
    (kw_sched w \<noteq> [] \<longrightarrow> length (kw_sched w1) < length (kw_sched w))"
proof (cases "kw_sched w")
  case Nil
  with assms show ?thesis by (simp add: kw_tick_def)
next
  case (Cons b bs)
  with assms have w1: "w1 = w\<lparr>kw_sched := bs, kw_parts := fold produce_one (ka_produced b) (kw_parts w)\<rparr>"
    by (auto simp: kw_tick_def)
  have "prefix (kw_parts w p) (fold produce_one (ka_produced b) (kw_parts w) p)" for p
    using produce_ok[of "kw_parts w" p] by blast
  moreover have "wf_parts w \<longrightarrow> wf_parts w1"
    using produce_ok[of "kw_parts w" _ "ka_produced b"] unfolding w1 wf_parts_def by simp
  ultimately show ?thesis using Cons by (simp add: w1 moved_def)
qed

locale acknowledging =
  fixes h :: "('h, 'p) msg_handler" and handled :: "'h \<Rightarrow> 'p message \<Rightarrow> bool" and hinv :: "'h \<Rightarrow> bool"
  assumes ack: "hinv a \<Longrightarrow> h a m = (a', None) \<Longrightarrow> handled a' m"
    and keeps: "hinv a \<Longrightarrow> h a m = (a', r) \<Longrightarrow> hinv a' \<and> (\<forall>m'. handled a m' \<longrightarrow> handled a' m')"
begin

definition grown :: "('p, 'h) kafka_world \<Rightarrow> ('p, 'h) kafka_world \<Rightarrow> bool" where
  "grown w w' \<longleftrightarrow> moved w w' \<and> (hinv (kw_app w) \<longrightarrow> hinv (kw_app w') \<and> (\<forall>m. handled (kw_app w) m \<longrightarrow> handled (kw_app w') m))"

lemma grown_refl [simp]: "grown w w"
  by (simp add: grown_def)

lemma grown_trans: "grown u v \<Longrightarrow> grown v w \<Longrightarrow> grown u w"
  using moved_trans by (auto simp: grown_def)

lemma grown_fields [simp]:
  "grown u (w\<lparr>kw_committed := c\<rparr>) = grown u w" "grown u (w\<lparr>kw_position := x\<rparr>) = grown u w"
  by (simp_all add: grown_def)

lemma tick_grown: "kw_tick w = (w1, a) \<Longrightarrow> grown w w1"
  using kw_tick_ok[of w w1 a] by (simp add: grown_def)

lemma prefix_nth_eq: "prefix xs ys \<Longrightarrow> j < length xs \<Longrightarrow> j < length ys \<and> ys ! j = xs ! j"
  by (auto simp: prefix_def nth_append)

lemma handled_at_grown:
  "grown w w' \<Longrightarrow> hinv (kw_app w) \<Longrightarrow> handled_at kc handled w p j \<Longrightarrow> handled_at kc handled w' p j"
  using prefix_nth_eq[of "kw_parts w p" "kw_parts w' p" j] by (auto simp: handled_at_def grown_def moved_def)

lemma batch_ok_grown:
  assumes "grown w w'" "hinv (kw_app w)" "batch_ok kc handled D w rs"
    and "\<forall>p j. (p, j) \<in> D \<longrightarrow> (p, j) \<in> D' \<or> handled_at kc handled w' p j"
  shows "batch_ok kc handled D' w' rs"
  using assms(3,4)
proof (induction rs arbitrary: D D')
  case (Cons r rs)
  have "prefix (kw_parts w (kr_partition r)) (kw_parts w' (kr_partition r))"
    using assms(1) by (simp add: grown_def moved_def)
  from prefix_nth_eq[OF this, of "kr_offset r"] Cons.prems Cons.IH[of "insert (rec_key r) D" "insert (rec_key r) D'"]
  show ?case by (auto dest: handled_at_grown[OF assms(1,2)])
qed simp

lemma behind_grown:
  assumes "grown w w'" "hinv (kw_app w)" "behind kc handled D w pos"
    and "\<forall>p j. (p, j) \<in> D \<longrightarrow> (p, j) \<in> D' \<or> handled_at kc handled w' p j"
  shows "behind kc handled D' w' pos"
  using assms(3,4) handled_at_grown[OF assms(1,2)] unfolding behind_def by blast

lemma committed_handled_grown:
  assumes "grown w w'" "hinv (kw_app w)" "kw_committed w' = kw_committed w" "committed_handled kc handled w"
  shows "committed_handled kc handled w'"
  using assms(3,4) handled_at_grown[OF assms(1,2)] by (simp add: committed_handled_def)

lemma in_app_grown:
  assumes "in_app h w m = (w', r)" "hinv (kw_app w)"
  shows "grown w w' \<and> kw_committed w' = kw_committed w \<and> kw_position w' = kw_position w \<and>
    (r = None \<longrightarrow> handled (kw_app w') m)"
proof -
  obtain a where a: "h (kw_app w) m = (a, r)" "w' = (fst (kw_tick w))\<lparr>kw_app := a\<rparr>"
    using assms(1) by (auto simp: in_app_def split: prod.splits)
  obtain w1 x where t: "kw_tick w = (w1, x)" by force
  from kw_tick_ok[OF t] keeps[OF assms(2) a(1)] ack[OF assms(2), of m a] a t show ?thesis
    by (auto simp: grown_def)
qed

lemma sleep_grown:
  assumes "ctx_sleep kw_ctx w = (w', b)"
  shows "grown w w' \<and> kw_committed w' = kw_committed w \<and> kw_position w' = kw_position w \<and> (b \<longleftrightarrow> kw_sched w' \<noteq> []) \<and>
    (b \<longrightarrow> length (kw_sched w') < length (kw_sched w))"
proof -
  obtain w1 x where t: "kw_tick w = (w1, x)" by force
  have "w' = w1" "b \<longleftrightarrow> kw_sched w1 \<noteq> []" using assms t by (auto simp: kw_ctx_def Let_def)
  moreover have "kw_sched w = [] \<Longrightarrow> kw_sched w1 = []" using t by (auto simp: kw_tick_def)
  ultimately show ?thesis using kw_tick_ok[OF t] tick_grown[OF t] by (cases "kw_sched w = []") auto
qed

lemma grown_sched: "grown w w' \<Longrightarrow> length (kw_sched w') \<le> length (kw_sched w)"
  by (simp add: grown_def moved_def)

lemma grown_hinv: "grown w w' \<Longrightarrow> hinv (kw_app w) \<Longrightarrow> hinv (kw_app w')"
  by (simp add: grown_def)

lemma deliver_ok:
  assumes "hinv (kw_app w)" "kafka_deliver n kw_ctx (in_app h) w m = Some (w', b)"
  shows "grown w w' \<and> kw_committed w' = kw_committed w \<and> kw_position w' = kw_position w \<and>
    (if b then handled (kw_app w') m else kw_sched w' = [])"
  using assms
proof (induction n arbitrary: w)
  case (Suc n)
  obtain w1 r where i: "in_app h w m = (w1, r)" by force
  note g = in_app_grown[OF i Suc.prems(1)]
  show ?case
  proof (cases r)
    case None
    with g i Suc.prems(2) show ?thesis by auto
  next
    case (Some err)
    obtain w2 b2 where s: "ctx_sleep kw_ctx w1 = (w2, b2)" by force
    note g2 = sleep_grown[OF s]
    have g12: "grown w w2" using g g2 grown_trans by blast
    show ?thesis
    proof (cases b2)
      case True
      then have "kafka_deliver n kw_ctx (in_app h) w2 m = Some (w', b)" using Suc.prems(2) i s Some by simp
      from Suc.IH[OF grown_hinv[OF g12 Suc.prems(1)] this] g g2 grown_trans[OF g12] show ?thesis by auto
    next
      case False
      with Suc.prems(2) i s Some g g2 g12 show ?thesis by auto
    qed
  qed
qed simp

lemma deliver_returns:
  assumes "hinv (kw_app w)" "length (kw_sched w) < n"
  shows "\<exists>w' b. kafka_deliver n kw_ctx (in_app h) w m = Some (w', b)"
  using assms
proof (induction n arbitrary: w)
  case (Suc n)
  obtain w1 r where i: "in_app h w m = (w1, r)" by force
  obtain w2 b2 where s: "ctx_sleep kw_ctx w1 = (w2, b2)" by force
  note g = in_app_grown[OF i Suc.prems(1)] and g2 = sleep_grown[OF s]
  have g12: "grown w w2" using g g2 grown_trans by blast
  have "\<exists>w' b. kafka_deliver n kw_ctx (in_app h) w2 m = Some (w', b)" if b2
    by (rule Suc.IH[OF grown_hinv[OF g12 Suc.prems(1)]])
      (use that g2 grown_sched[of w w1] g Suc.prems(2) in \<open>auto\<close>)
  with i s show ?case by (cases r; cases b2) auto
qed simp

text \<open>A commit, while the context lives, of a record all of whose predecessors are handled.\<close>

lemma commit_ok:
  assumes "hinv (kw_app w)" "cluster_commit w r = (w', f)" "committed_handled kc handled w"
    and "kw_sched w \<noteq> [] \<Longrightarrow> \<forall>j<kr_offset r + 1. handled_at kc handled w (kr_partition r) j"
  shows "grown w w' \<and> kw_position w' = kw_position w \<and> committed_handled kc handled w' \<and>
    (kw_sched w = [] \<longrightarrow> f \<noteq> None)"
proof (cases "kw_sched w = []")
  case True
  with assms show ?thesis by (auto simp: cluster_commit_def)
next
  case False
  obtain w1 a where t: "kw_tick w = (w1, a)" by force
  note k = kw_tick_ok[OF t] and g = tick_grown[OF t]
  have c1: "committed_handled kc handled w1" by (rule committed_handled_grown[OF g assms(1) _ assms(3)]) (use k in simp)
  have "\<forall>j<kr_offset r + 1. handled_at kc handled w1 (kr_partition r) j"
    using assms(4)[OF False] handled_at_grown[OF g assms(1)] by blast
  then have "committed_handled kc handled (w1\<lparr>kw_committed := (kw_committed w1)(kr_partition r := kr_offset r + 1)\<rparr>)"
    using c1 by (simp add: committed_handled_def handled_at_def)
  then show ?thesis using False assms(2) t c1 k g
    by (auto simp: cluster_commit_def Let_def split: option.splits if_splits)
qed

lemma each_failed [simp]: "kafka_each n kc ctx cl h' (Some err) w rs = Some (w, Some err)"
  by (induction rs) simp_all

lemma each_ok:
  assumes "hinv (kw_app w)" "committed_handled kc handled w" "kw_sched w = [] \<or> batch_ok kc handled {} w rs"
    and "kafka_each n kc kw_ctx cluster_client (in_app h) None w rs = Some (w', f)"
  shows "grown w w' \<and> kw_position w' = kw_position w \<and> committed_handled kc handled w' \<and>
    (kw_sched w' \<noteq> [] \<and> f = None \<longrightarrow> (\<forall>r\<in>set rs. handled_at kc handled w' (kr_partition r) (kr_offset r)))"
  using assms
proof (induction rs arbitrary: w)
  case (Cons r rs)
  from Cons.prems(4) obtain w1 b where d: "kafka_deliver n kw_ctx (in_app h) w (from_record kc r) = Some (w1, b)"
    by (auto split: option.splits)
  note g = deliver_ok[OF Cons.prems(1) d]
  then have gw: "grown w w1" and i1: "hinv (kw_app w1)" using grown_hinv[OF _ Cons.prems(1)] by auto
  have c1: "committed_handled kc handled w1"
    by (rule committed_handled_grown[OF gw Cons.prems(1) _ Cons.prems(2)]) (use g in simp)
  show ?case
  proof (cases b)
    case False
    with g have ended: "kw_sched w1 = []" by simp
    have "kafka_each n kc kw_ctx cluster_client (in_app h) None w1 rs = Some (w', f)" using Cons.prems(4) d False by simp
    from Cons.IH[OF i1 c1 disjI1[OF ended] this] have
      r: "grown w1 w'" "kw_position w' = kw_position w1" "committed_handled kc handled w'" by auto
    from grown_sched[OF r(1)] ended have "kw_sched w' = []" by simp
    with r g grown_trans[OF gw r(1)] show ?thesis by simp
  next
    case True
    obtain w2 f2 where c: "cluster_commit w1 r = (w2, f2)" by force
    have ended: "kw_sched w1 = []" if "kw_sched w = []" using that grown_sched[OF gw] by simp
    have rr: "handled_at kc handled w1 (kr_partition r) (kr_offset r)"
      and before: "\<forall>j<kr_offset r. handled_at kc handled w1 (kr_partition r) j"
      if "kw_sched w1 \<noteq> []"
    proof -
      have b0: "batch_ok kc handled {} w (r # rs)" using Cons.prems(3) ended that by auto
      have b1: "batch_ok kc handled {} w1 (r # rs)" by (rule batch_ok_grown[OF gw Cons.prems(1) b0]) simp
      then show "handled_at kc handled w1 (kr_partition r) (kr_offset r)" "\<forall>j<kr_offset r. handled_at kc handled w1 (kr_partition r) j"
        using g True by (simp_all add: handled_at_def)
    qed
    have k: "grown w1 w2" "kw_position w2 = kw_position w1" "committed_handled kc handled w2" "kw_sched w1 = [] \<longrightarrow> f2 \<noteq> None"
      using commit_ok[OF i1 c c1] rr before by (auto simp: less_Suc_eq)
    have gw2: "grown w w2" by (rule grown_trans[OF gw k(1)])
    have e: "kafka_each n kc kw_ctx cluster_client (in_app h) f2 w2 rs = Some (w', f)"
      using Cons.prems(4) d True c by (simp add: cluster_client_simps)
    show ?thesis
    proof (cases f2)
      case (Some err)
      with e k g gw2 show ?thesis by auto
    next
      case None
      then have live: "kw_sched w1 \<noteq> []" using k(4) by auto
      have b0: "batch_ok kc handled {} w (r # rs)" using Cons.prems(3) ended live by auto
      have b2: "batch_ok kc handled {} w2 rs"
        by (rule batch_ok_grown[OF gw2 Cons.prems(1), of _ "{rec_key r}"])
          (use b0 handled_at_grown[OF k(1) i1 rr[OF live]] in \<open>auto simp: rec_key_def\<close>)
      have i2: "hinv (kw_app w2)" by (rule grown_hinv[OF k(1) i1])
      from Cons.IH[OF i2 k(3) disjI2[OF b2]] e None have
        r: "grown w2 w'" "kw_position w' = kw_position w2" "committed_handled kc handled w'"
          "kw_sched w' \<noteq> [] \<and> f = None \<longrightarrow> (\<forall>r\<in>set rs. handled_at kc handled w' (kr_partition r) (kr_offset r))" by auto
      have "handled_at kc handled w' (kr_partition r) (kr_offset r)"
        by (rule handled_at_grown[OF r(1) i2 handled_at_grown[OF k(1) i1 rr[OF live]]])
      with r k g grown_trans[OF gw2 r(1)] show ?thesis by auto
    qed
  qed
qed (auto)

lemma commit_moves:
  assumes "cluster_commit w r = (w', f)"
  shows "kw_app w' = kw_app w \<and> length (kw_sched w') \<le> length (kw_sched w)"
proof -
  obtain wt a where t: "kw_tick w = (wt, a)" by force
  from assms t kw_tick_ok[OF t] show ?thesis
    by (auto simp: cluster_commit_def moved_def Let_def split: if_splits option.splits)
qed

lemma each_returns:
  assumes "hinv (kw_app w)" "length (kw_sched w) < n"
  shows "\<exists>w' f. kafka_each n kc kw_ctx cluster_client (in_app h) None w rs = Some (w', f)"
  using assms
proof (induction rs arbitrary: w)
  case (Cons r rs)
  obtain w1 b where d: "kafka_deliver n kw_ctx (in_app h) w (from_record kc r) = Some (w1, b)"
    using deliver_returns[OF Cons.prems] by blast
  note g = deliver_ok[OF Cons.prems(1) d]
  have i1: "hinv (kw_app w1)" "length (kw_sched w1) < n"
    using g grown_hinv[OF _ Cons.prems(1)] grown_sched[of w w1] Cons.prems(2) by auto
  obtain w2 f2 where c: "cluster_commit w1 r = (w2, f2)" by force
  have i2: "hinv (kw_app w2)" "length (kw_sched w2) < n" using commit_moves[OF c] i1 by auto
  show ?case using d c Cons.IH[OF i1] Cons.IH[OF i2] by (cases b; cases f2) (auto simp: cluster_client_simps)
qed simp

lemma each_keeps:
  assumes "hinv (kw_app w)" "kafka_each n kc kw_ctx cluster_client (in_app h) None w rs = Some (w', f)"
  shows "hinv (kw_app w') \<and> length (kw_sched w') \<le> length (kw_sched w)"
  using assms
proof (induction rs arbitrary: w)
  case (Cons r rs)
  from Cons.prems(2) obtain w1 b where d: "kafka_deliver n kw_ctx (in_app h) w (from_record kc r) = Some (w1, b)"
    by (auto split: option.splits)
  note g = deliver_ok[OF Cons.prems(1) d]
  have i1: "hinv (kw_app w1)" "length (kw_sched w1) \<le> length (kw_sched w)"
    using g grown_hinv[OF _ Cons.prems(1)] grown_sched[of w w1] by auto
  obtain w2 f2 where c: "cluster_commit w1 r = (w2, f2)" by force
  note i2 = commit_moves[OF c]
  show ?case
  proof (cases b)
    case True
    with Cons.prems(2) d c have "kafka_each n kc kw_ctx cluster_client (in_app h) f2 w2 rs = Some (w', f)"
      by (simp add: cluster_client_simps)
    with Cons.IH[of w2] i1 i2 show ?thesis by (cases f2) auto
  next
    case False
    with Cons.IH[of w1] Cons.prems(2) d i1 show ?thesis by auto
  qed
qed simp

lemma poll_ok:
  assumes "hinv (kw_app w)" "wf_parts w" "committed_handled kc handled w"
    and "kw_sched w = [] \<or> behind kc handled {} w (kw_position w)" "cluster_poll w = (w1, f)"
  shows "grown w w1 \<and> committed_handled kc handled w1 \<and> (kw_sched w \<noteq> [] \<longrightarrow> length (kw_sched w1) < length (kw_sched w)) \<and>
    (kw_sched w1 \<noteq> [] \<and> fe_errors f = [] \<longrightarrow>
      batch_ok kc handled {} w1 (fe_records f) \<and> behind kc handled (rec_key ` set (fe_records f)) w1 (kw_position w1))"
proof -
  obtain wt a where t: "kw_tick w = (wt, a)" by force
  note k = kw_tick_ok[OF t] and g = tick_grown[OF t]
  have ct: "committed_handled kc handled wt" by (rule committed_handled_grown[OF g assms(1) _ assms(3)]) (use k in simp)
  let ?pos = "if ka_assigned a then kw_committed wt else kw_position wt"
  obtain rs pos' where tp: "take_parts (kw_parts wt) ?pos (ka_take a) = (rs, pos')" by force
  have w1: "w1 = wt\<lparr>kw_position := if ka_errors a \<noteq> [] then ?pos else pos'\<rparr>" "fe_errors f = ka_errors a"
    "ka_errors a = [] \<Longrightarrow> fe_records f = rs"
    using assms(5) t tp by (auto simp: cluster_poll_def Let_def split: if_splits)
  have fld [simp]: "handled_at kc handled (wt\<lparr>kw_position := x\<rparr>) q j = handled_at kc handled wt q j" for x q j
    by (simp add: handled_at_def)
  have b [simp]: "batch_ok kc handled D (wt\<lparr>kw_position := x\<rparr>) rs = batch_ok kc handled D wt rs" for D x
    by (induction rs arbitrary: D) simp_all
  have "batch_ok kc handled {} wt rs \<and> behind kc handled (rec_key ` set rs) wt pos'" if "kw_sched w \<noteq> []"
  proof -
    have "behind kc handled {} wt (kw_position w)"
      by (rule behind_grown[OF g assms(1), of _ "{}"]) (use assms(4) that in auto)
    then have bh: "behind kc handled {} wt ?pos" using ct k by (simp add: behind_def committed_handled_def)
    have "wf_parts wt" using k assms(2) by (simp add: moved_def)
    from take_parts_ok[OF this bh tp] show ?thesis by simp
  qed
  moreover have "kw_sched w1 \<noteq> [] \<Longrightarrow> kw_sched w \<noteq> []" using t w1 by (auto simp: kw_tick_def)
  ultimately show ?thesis using k g ct by (auto simp: w1 committed_handled_def behind_def)
qed

lemma loop_ok:
  assumes "hinv (kw_app w)" "wf_parts w" "committed_handled kc handled w"
    and "kw_sched w = [] \<or> behind kc handled {} w (kw_position w)"
    and "kafka_loop n kc kw_ctx cluster_client topic grp (in_app h) w = Some (w', r)"
  shows "grown w w' \<and> committed_handled kc handled w'"
  using assms
proof (induction n arbitrary: w)
  case (Suc n)
  obtain w1 f where p: "cluster_poll w = (w1, f)" by force
  note k = poll_ok[OF Suc.prems(1-4) p]
  then have g1: "grown w w1" and i1: "hinv (kw_app w1)" and c1: "committed_handled kc handled w1"
    using grown_hinv[OF _ Suc.prems(1)] by auto
  show ?case
  proof (cases "kw_sched w1 \<noteq> [] \<and> \<not> fe_closed f \<and> fe_errors f = []")
    case False
    then have "w' = w1" using Suc.prems(5) p
      by (auto simp: cluster_client_simps kw_ctx_def split: list.splits prod.splits if_splits bool.splits)
    with g1 c1 show ?thesis by simp
  next
    case True
    then obtain w3 f3 where e: "kafka_each n kc kw_ctx cluster_client (in_app h) None w1 (fe_records f) = Some (w3, f3)"
      using Suc.prems(5) p by (auto simp: cluster_client_simps kw_ctx_def split: option.splits)
    have b: "batch_ok kc handled {} w1 (fe_records f)" "behind kc handled (rec_key ` set (fe_records f)) w1 (kw_position w1)"
      using k True by auto
    note e1 = each_ok[OF i1 c1 disjI2[OF b(1)] e]
    then have g3: "grown w w3" "grown w1 w3" and c3: "committed_handled kc handled w3" using grown_trans[OF g1] by auto
    show ?thesis
    proof (cases "kw_sched w3 \<noteq> [] \<and> f3 = None")
      case False
      then have "w' = w3" using Suc.prems(5) p True e
        by (auto simp: cluster_client_simps kw_ctx_def split: list.splits prod.splits if_splits option.splits bool.splits)
      with g3 c3 show ?thesis by simp
    next
      case live: True
      have "behind kc handled {} w3 (kw_position w1)"
        by (rule behind_grown[OF g3(2) i1 b(2)]) (use e1 live in \<open>auto simp: rec_key_def\<close>)
      then have b3: "kw_sched w3 = [] \<or> behind kc handled {} w3 (kw_position w3)" using e1 by simp
      have wf3: "wf_parts w3" using g3(1) Suc.prems(2) by (simp add: grown_def moved_def)
      have "kafka_loop n kc kw_ctx cluster_client topic grp (in_app h) w3 = Some (w', r)"
        using Suc.prems(5) p True e live by (auto simp: cluster_client_simps kw_ctx_def)
      from Suc.IH[OF grown_hinv[OF g3(1) Suc.prems(1)] wf3 c3 b3 this] grown_trans[OF g3(1)] show ?thesis by blast
    qed
  qed
qed simp

lemma loop_returns:
  assumes "hinv (kw_app w)" "length (kw_sched w) < n"
  shows "\<exists>w' r. kafka_loop n kc kw_ctx cluster_client topic grp (in_app h) w = Some (w', r)"
  using assms
proof (induction n arbitrary: w)
  case (Suc n)
  obtain w1 f where p: "cluster_poll w = (w1, f)" by force
  obtain wt a where t: "kw_tick w = (wt, a)" by force
  have app: "kw_app w1 = kw_app w" "kw_sched w1 = kw_sched wt"
    using p t kw_tick_ok[OF t] by (auto simp: cluster_poll_def Let_def split: if_splits prod.splits)
  have i1: "hinv (kw_app w1)" using app Suc.prems(1) by simp
  show ?case
  proof (cases "kw_sched w1 \<noteq> [] \<and> \<not> fe_closed f \<and> fe_errors f = []")
    case False
    with p show ?thesis by (cases "fe_errors f"; cases "kw_sched w1 = []") (auto simp: cluster_client_simps kw_ctx_def)
  next
    case True
    have "kw_sched w \<noteq> []" using True app t by (auto simp: kw_tick_def)
    then have l: "length (kw_sched w1) < n" using app kw_tick_ok[OF t] Suc.prems(2) by simp
    obtain w3 f3 where e: "kafka_each n kc kw_ctx cluster_client (in_app h) None w1 (fe_records f) = Some (w3, f3)"
      using each_returns[OF i1 l] by blast
    have "hinv (kw_app w3) \<and> length (kw_sched w3) \<le> length (kw_sched w1)"
      by (rule each_keeps[OF i1 e])
    with Suc.IH[of w3] l p True e show ?thesis
      by (cases f3; cases "kw_sched w3 = []") (auto simp: cluster_client_simps kw_ctx_def)
  qed
qed simp

end

sublocale inbox_port \<subseteq> acks: acknowledging "inbox_writer_handler ib" "\<lambda>w m. m_id m \<in> inbox_ids (ilog w)" iinv
proof
  fix a m a' assume "iinv a" "inbox_writer_handler ib a m = (a', None)"
  then show "m_id m \<in> inbox_ids (ilog a')" by (simp add: inbox_writer_handler_def append_known)
next
  fix a m a' r assume "iinv a" "inbox_writer_handler ib a m = (a', r)"
  then have "iinv a' \<and> (\<exists>pre. prefix (ilog a) pre \<and> inbox_step_ok pre m r (ilog a'))"
    using ib_append_law by (simp add: inbox_writer_handler_def)
  then show "iinv a' \<and> (\<forall>m'. m_id m' \<in> inbox_ids (ilog a) \<longrightarrow> m_id m' \<in> inbox_ids (ilog a'))"
    by (auto simp: inbox_step_ok_def inbox_ids_def prefix_def split: if_splits)
qed

section \<open>The envelope and the subscription\<close>

definition own_header :: "kafka_header \<Rightarrow> bool" where
  "own_header h \<longleftrightarrow> kh_key h \<in> {headerID, headerType, headerVersion, headerOccurredAt, headerMetadata}"

lemma read_foreign_headers: "foldl (read_header kc) m hs = foldl (read_header kc) m (filter own_header hs)"
proof (induction hs arbitrary: m)
  case (Cons h hs)
  have "\<not> own_header h \<Longrightarrow> read_header kc m h = m" by (simp add: own_header_def read_header_def)
  with Cons show ?case by simp
qed simp

text \<open>
  C30. An envelope survives Kafka: every field of a message written as a record is read back,
  whatever headers a broker, proxy or tracer adds around the adapter's own, provided the JSON of its
  metadata and the RFC 3339 text of its instant parse back and its version fits Go's int. Writing
  fails for no other reason than metadata that cannot be encoded.
\<close>

theorem envelope_survives_kafka:
  assumes "kc_parse_time kc (kc_time kc (m_at m)) = m_at m"
    and "\<And>j. kc_meta kc (m_meta m) = Inr j \<Longrightarrow> kc_parse_meta kc j fmempty = m_meta m"
    and "int64_min \<le> m_version m" and "m_version m \<le> int64_max"
  shows "case to_record kc topic m of
     Inl err \<Rightarrow> m_meta m \<noteq> fmempty \<and> (\<exists>e. kc_meta kc (m_meta m) = Inl e)
   | Inr r \<Rightarrow> kr_topic r = topic \<and> kr_key r = m_key m \<and>
       (\<forall>hs. filter own_header hs = kr_headers r \<longrightarrow> from_record kc (r\<lparr>kr_headers := hs\<rparr>) = m)"
proof -
  have same: "from_record kc (r\<lparr>kr_headers := hs\<rparr>) = from_record kc r"
    if "filter own_header hs = kr_headers r" for r hs
    using read_foreign_headers[of kc _ hs] that by (simp add: from_record_def)
  have written: "from_record kc r = m \<and> kr_topic r = topic \<and> kr_key r = m_key m" if "to_record kc topic m = Inr r" for r
  proof (cases "m_meta m = fmempty")
    case True
    with that have "r = \<lparr>kr_topic = topic, kr_key = m_key m, kr_value = m_payload m, kr_headers =
       [\<lparr>kh_key = headerID, kh_value = m_id m\<rparr>, \<lparr>kh_key = headerType, kh_value = m_type m\<rparr>,
        \<lparr>kh_key = headerVersion, kh_value = itoa (m_version m)\<rparr>,
        \<lparr>kh_key = headerOccurredAt, kh_value = kc_time kc (m_at m)\<rparr>], kr_partition = 0, kr_offset = 0\<rparr>"
      by (simp add: to_record_def Let_def)
    then show ?thesis using True
      by (simp add: from_record_def read_header_def header_defs atoi_itoa[OF assms(3,4)] assms(1))
  next
    case False
    with that obtain j where j: "kc_meta kc (m_meta m) = Inr j"
      "r = \<lparr>kr_topic = topic, kr_key = m_key m, kr_value = m_payload m, kr_headers =
       [\<lparr>kh_key = headerID, kh_value = m_id m\<rparr>, \<lparr>kh_key = headerType, kh_value = m_type m\<rparr>,
        \<lparr>kh_key = headerVersion, kh_value = itoa (m_version m)\<rparr>,
        \<lparr>kh_key = headerOccurredAt, kh_value = kc_time kc (m_at m)\<rparr>,
        \<lparr>kh_key = headerMetadata, kh_value = j\<rparr>], kr_partition = 0, kr_offset = 0\<rparr>"
      using that by (auto simp: to_record_def Let_def split: sum.splits)
    note md = assms(2)[OF j(1)]
    show ?thesis unfolding j(2)
      by (simp add: from_record_def read_header_def header_defs atoi_itoa[OF assms(3,4)] assms(1) md)
  qed
  have refused: "m_meta m \<noteq> fmempty \<and> (\<exists>e. kc_meta kc (m_meta m) = Inl e)" if "to_record kc topic m = Inl err" for err
    using that by (auto simp: to_record_def Let_def split: sum.splits if_splits)
  show ?thesis
  proof (cases "to_record kc topic m")
    case (Inl err)
    with refused show ?thesis by simp
  next
    case (Inr r)
    from written[OF Inr] same[of _ r] show ?thesis unfolding Inr sum.case by metis
  qed
qed

text \<open>
  C29. At-least-once through Kafka. Whatever the cluster does (records of several partitions in any
  batches, reassignments that rewind to the committed offsets, commits that fail with or without
  effect, fetch errors) and whenever the context ends, also in the middle of a batch, a subscription
  returns, and no partition's committed offset has passed a record that the handler has not
  acknowledged. This holds although the iteration goes on to later records of the batch after one
  that was given up, because those can no longer be committed.
\<close>

theorem kafka_commits_only_handled:
  assumes "acknowledging h handled hinv" and "hinv (kw_app w)" and "wf_parts w"
    and "committed_handled kc handled w" and "length (kw_sched w) < n"
  shows "\<exists>w' r. kafka_subscribe n kc kw_ctx cluster_client topic grp (in_app h) w = Some (w', r) \<and>
    committed_handled kc handled w' \<and> hinv (kw_app w') \<and> wf_parts w' \<and>
    (\<forall>p. prefix (kw_parts w p) (kw_parts w' p)) \<and> (\<forall>m. handled (kw_app w) m \<longrightarrow> handled (kw_app w') m)"
proof -
  obtain w1 a where t: "kw_tick w = (w1, a)" by force
  note g = acknowledging.tick_grown[OF assms(1) t] and k = kw_tick_ok[OF t]
  have c1: "committed_handled kc handled w1"
    by (rule acknowledging.committed_handled_grown[OF assms(1) g assms(2) _ assms(4)]) (use k in simp)
  have i1: "hinv (kw_app w1)" "wf_parts w1" using k assms(2,3) by (auto simp: moved_def)
  have fin: ?thesis if "kafka_subscribe n kc kw_ctx cluster_client topic grp (in_app h) w = Some (w', r)"
    "acknowledging.grown handled hinv w w'" "committed_handled kc handled w'" for w' r
    using that assms(2,3) unfolding acknowledging.grown_def[OF assms(1)] moved_def by blast
  show ?thesis
  proof (cases "ka_fault a")
    case (Some f)
    with t have "kafka_subscribe n kc kw_ctx cluster_client topic grp (in_app h) w =
        Some (w1, Some (Wrapf ''kafkabroker: subscribe %s/%s: %w'' [FStr topic, FStr grp] (ErrExt (fst f))))"
      by (simp add: kafka_subscribe_def cluster_client_simps split: prod.splits)
    from fin[OF this g c1] show ?thesis .
  next
    case None
    let ?w = "w1\<lparr>kw_position := kw_committed w1\<rparr>"
    have s: "hinv (kw_app ?w)" "wf_parts ?w" "committed_handled kc handled ?w" "length (kw_sched ?w) < n"
      using i1 c1 k assms(5) by (auto simp: wf_parts_def committed_handled_def handled_at_def moved_def)
    have "behind kc handled {} ?w (kw_position ?w)"
      using c1 by (simp add: behind_def committed_handled_def handled_at_def)
    then have b: "kw_sched ?w = [] \<or> behind kc handled {} ?w (kw_position ?w)" ..
    obtain w' r where l: "kafka_loop n kc kw_ctx cluster_client topic grp (in_app h) ?w = Some (w', r)"
      using acknowledging.loop_returns[OF assms(1) s(1,4)] by blast
    note o = acknowledging.loop_ok[OF assms(1) s(1-3) b l]
    have gw: "acknowledging.grown handled hinv w w'"
      by (rule acknowledging.grown_trans[OF assms(1), of _ ?w])
        (use g o in \<open>simp_all only: acknowledging.grown_fields[OF assms(1)]\<close>)
    have "kafka_subscribe n kc kw_ctx cluster_client topic grp (in_app h) w = Some (w', r)"
      using t None l by (simp add: kafka_subscribe_def cluster_client_simps)
    from fin[OF this gw] o show ?thesis by blast
  qed
qed

section \<open>Witnesses\<close>

definition demo_kafka_codec :: kafka_codec where
  "demo_kafka_codec = \<lparr>kc_time = itoa, kc_parse_time = (\<lambda>s. fst (atoi s)),
     kc_meta = (\<lambda>md. Inr (meta_get md ''traceparent'')), kc_parse_meta = (\<lambda>s md. fmupd ''traceparent'' s md), kc_zero_time = 0\<rparr>"

definition demo_kafka_message :: "string message" where
  "demo_kafka_message = \<lparr>m_id = ''order/42#3'', m_key = ''42'', m_type = ''ordering.order_placed'', m_version = 2, m_at = 7,
     m_payload = ''{}'', m_meta = fmupd ''traceparent'' ''00-abc-def-01'' fmempty\<rparr>"

theorem envelope_survives_kafka_witness:
  "\<exists>r. to_record demo_kafka_codec ''orders'' demo_kafka_message = Inr r \<and> length (kr_headers r) = 5 \<and>
     from_record demo_kafka_codec (r\<lparr>kr_headers := \<lparr>kh_key = ''b3'', kh_value = ''0''\<rparr> # kr_headers r\<rparr>) = demo_kafka_message"
proof -
  obtain r where r: "to_record demo_kafka_codec ''orders'' demo_kafka_message = Inr r" "length (kr_headers r) = 5"
      "filter own_header (\<lparr>kh_key = ''b3'', kh_value = ''0''\<rparr> # kr_headers r) = kr_headers r"
    by (simp add: to_record_def Let_def demo_kafka_codec_def demo_kafka_message_def own_header_def header_defs)
  have "case to_record demo_kafka_codec ''orders'' demo_kafka_message of
     Inl err \<Rightarrow> m_meta demo_kafka_message \<noteq> fmempty \<and> (\<exists>e. kc_meta demo_kafka_codec (m_meta demo_kafka_message) = Inl e)
   | Inr r \<Rightarrow> kr_topic r = ''orders'' \<and> kr_key r = m_key demo_kafka_message \<and>
       (\<forall>hs. filter own_header hs = kr_headers r \<longrightarrow> from_record demo_kafka_codec (r\<lparr>kr_headers := hs\<rparr>) = demo_kafka_message)"
    by (rule envelope_survives_kafka)
      (auto simp: demo_kafka_codec_def demo_kafka_message_def int64_min_def int64_max_def atoi_itoa)
  with r show ?thesis by auto
qed

text \<open>Two records, one of them refused once: both are committed, and both are in the inbox.\<close>

definition demo_cluster :: "(string, string mem_inbox) kafka_world" where
  "demo_cluster = \<lparr>kw_parts = (\<lambda>p. []), kw_committed = (\<lambda>p. 0), kw_position = (\<lambda>p. 0), kw_app = new_mem_inbox,
     kw_sched = [calm_kafka, calm_kafka\<lparr>ka_produced := [(0, projr (to_record demo_kafka_codec ''orders'' demo_kafka_message))],
       ka_take := [(0, 5)]\<rparr>, calm_kafka, calm_kafka, calm_kafka]\<rparr>"

theorem kafka_commits_only_handled_witness:
  "\<exists>w r. kafka_subscribe 9 demo_kafka_codec kw_ctx cluster_client ''orders'' ''g'' (in_app (inbox_writer_handler mem_inbox_ops)) demo_cluster =
      Some (w, r) \<and> kw_committed w 0 = 1 \<and> ''order/42#3'' \<in> inbox_ids (mi_msgs (kw_app w))"
proof -
  have a: "acknowledging (inbox_writer_handler mem_inbox_ops) (\<lambda>w m. m_id m \<in> inbox_ids (mi_msgs w)) (mi_inv :: string mem_inbox \<Rightarrow> bool)"
    by (rule mem_inbox.acks.acknowledging_axioms)
  have d: "mi_inv (kw_app demo_cluster)" "wf_parts demo_cluster" "length (kw_sched demo_cluster) < 9"
    "committed_handled demo_kafka_codec (\<lambda>w m. m_id m \<in> inbox_ids (mi_msgs w)) demo_cluster"
    by (simp_all add: demo_cluster_def wf_parts_def committed_handled_def mi_inv_def new_mem_inbox_def inbox_ids_def)
  obtain w r where w: "kafka_subscribe 9 demo_kafka_codec kw_ctx cluster_client ''orders'' ''g''
        (in_app (inbox_writer_handler mem_inbox_ops)) demo_cluster = Some (w, r)"
      "committed_handled demo_kafka_codec (\<lambda>w m. m_id m \<in> inbox_ids (mi_msgs w)) w"
    using kafka_commits_only_handled[OF a d(1,2,4,3), of "''orders''" "''g''"] by blast
  have x: "kw_committed w 0 = 1 \<and> ''order/42#3'' \<in> inbox_ids (mi_msgs (kw_app w))"
    using w(1) by (auto simp: kafka_subscribe_def cluster_client_simps demo_cluster_def kw_tick_def calm_kafka_def cluster_poll_def
      cluster_commit_def kw_ctx_def in_app_def inbox_writer_handler_def mem_inbox_ops_def mi_append_def new_mem_inbox_def
      produce_one_def to_record_def demo_kafka_message_def demo_kafka_codec_def from_record_def read_header_def header_defs
      Let_def eval_nat_numeral inbox_ids_def)
  with w(1) show ?thesis by blast
qed

end
