(* ===== verification/Notifier.thy ===== *)
theory Notifier
  imports Summary World
begin

text \<open>
  The worker that drains the notification worklist (\<open>ordering/internal/app/notifier.go\<close>): every tick
  claims a batch of pending rows, dispatches a command for each and retires the rows whose command
  succeeded. It runs here in a world of \<open>World\<close> whose view is the read side, which the projection
  fills at the same time, and whose store any number of other writers append to.
\<close>

section \<open>The worker\<close>

record notifier_config =
  nc_interval :: int
  nc_batch_size :: int

definition notifier_defaults :: "notifier_config \<Rightarrow> notifier_config" where
  "notifier_defaults c = c\<lparr>nc_interval := if nc_interval c \<le> 0 then 5 * 1000000000 else nc_interval c,
     nc_batch_size := if nc_batch_size c \<le> 0 then 50 else nc_batch_size c\<rparr>"

text \<open>
  \<open>nf_link\<close> is what \<open>o11y.StartLinked\<close> puts on the context for a row's metadata, as the store's
  metadata hook reads it; \<open>nf_bus\<close> is the bus under a context that carries such metadata.
\<close>

record 'w notifier =
  nf_queue :: "'w notification_queue"
  nf_bus :: "metadata \<Rightarrow> ('w, ordering_command) bus"
  nf_cfg :: notifier_config
  nf_ctx :: "'w ctx_ops"
  nf_link :: "metadata \<Rightarrow> metadata"

definition new_notifier ::
  "'w ctx_ops \<Rightarrow> (metadata \<Rightarrow> metadata) \<Rightarrow> 'w notification_queue \<Rightarrow> (metadata \<Rightarrow> ('w, ordering_command) bus)
   \<Rightarrow> notifier_config \<Rightarrow> 'w notifier" where
  "new_notifier ctx link queue bus cfg =
     \<lparr>nf_queue = queue, nf_bus = bus, nf_cfg = notifier_defaults cfg, nf_ctx = ctx, nf_link = link\<rparr>"

text \<open>Errors are only logged; the row stays pending.\<close>

definition notifier_send :: "'w notifier \<Rightarrow> pending_notification \<Rightarrow> 'w \<Rightarrow> 'w" where
  "notifier_send n row w =
     (case dispatch (nf_ctx n) ordering_command_name (nf_bus n (nf_link n (pn_meta row))) w
             (NotifyCustomer \<lparr>nc_order_id = pn_order_id row, nc_reason = pn_reason row\<rparr>) of
        (w1, Some err) \<Rightarrow> w1
      | (w1, None) \<Rightarrow> fst (nq_mark_sent (nf_queue n) w1 (pn_id row)))"

fun notifier_tick :: "'w notifier \<Rightarrow> pending_notification list \<Rightarrow> 'w \<Rightarrow> 'w" where
  "notifier_tick n [] w = w"
| "notifier_tick n (row # rows) w = notifier_tick n rows (notifier_send n row w)"

text \<open>A read that failed leaves no rows to work on. Without fuel left the loop is still running.\<close>

fun notifier_run :: "nat \<Rightarrow> 'w notifier \<Rightarrow> 'w \<Rightarrow> 'w option" where
  "notifier_run 0 n w = None"
| "notifier_run (Suc k) n w =
     (case ctx_err (nf_ctx n) w of
        (w1, True) \<Rightarrow> Some w1
      | (w1, False) \<Rightarrow>
          (case nq_pending (nf_queue n) w1 (nc_batch_size (nf_cfg n)) of
             (w2, Inl err) \<Rightarrow>
               (case ctx_err (nf_ctx n) w2 of
                  (w3, True) \<Rightarrow> Some w3
                | (w3, False) \<Rightarrow>
                    (case ctx_sleep (nf_ctx n) w3 of
                       (w4, False) \<Rightarrow> Some w4
                     | (w4, True) \<Rightarrow> notifier_run k n w4))
           | (w2, Inr pending) \<Rightarrow>
               (case ctx_sleep (nf_ctx n) (notifier_tick n pending w2) of
                  (w4, False) \<Rightarrow> Some w4
                | (w4, True) \<Rightarrow> notifier_run k n w4)))"

section \<open>The world of the worker\<close>

text \<open>
  The read side and, for each statement the worker sends, what the projection enqueues before it.
\<close>

record side_env =
  se_side :: read_side
  se_others :: "(string \<times> string \<times> json) list list"

type_synonym notifier_world = "(json, side_env) world"

definition side :: "notifier_world \<Rightarrow> read_side" where
  "side w = se_side (wd_view w)"

definition enqueue_all :: "(string \<times> string \<times> json) list \<Rightarrow> read_side \<Rightarrow> read_side" where
  "enqueue_all qs v = fold (\<lambda>(oid, reason, md) v. projr (enqueue_sql oid reason md v)) qs v"

definition others_enqueue :: "notifier_world \<Rightarrow> notifier_world" where
  "others_enqueue w = (case se_others (wd_view w) of
     [] \<Rightarrow> w
   | qs # later \<Rightarrow> w\<lparr>wd_view := \<lparr>se_side = enqueue_all qs (side w), se_others = later\<rparr>\<rparr>)"

definition exec_side :: "(read_side \<Rightarrow> read_side res) \<Rightarrow> notifier_world \<Rightarrow> notifier_world \<times> gerr option" where
  "exec_side f w = (case f (side w) of
     Inl err \<Rightarrow> (w, Some err)
   | Inr v \<Rightarrow> (w\<lparr>wd_view := (wd_view w)\<lparr>se_side := v\<rparr>\<rparr>, None))"

definition nw_pool :: "notifier_world pool" where
  "nw_pool = \<lparr>pl_exec = (\<lambda>w f. faulty_unit (exec_side f) (others_enqueue w)),
     pl_query = (\<lambda>w. faulty (\<lambda>w. (w, Inr (side w))) (others_enqueue w)), pl_now = wd_now\<rparr>"

definition ordering_bus ::
  "(string \<Rightarrow> string) \<Rightarrow> notifier_world orders \<Rightarrow> metadata \<Rightarrow> (notifier_world, ordering_command) bus" where
  "ordering_bus uni orders md = the (ordering_register uni orders md (new_bus []))"

definition nw_orders :: "(string \<Rightarrow> string) \<Rightarrow> saga_codec \<Rightarrow> notifier_world orders" where
  "nw_orders uni sc = new_orders wd_store_ops (ordering_registry uni sc) sc"

definition ordering_notifier ::
  "(string \<Rightarrow> string) \<Rightarrow> saga_codec \<Rightarrow> md_codec \<Rightarrow> (metadata \<Rightarrow> metadata) \<Rightarrow> notifier_config \<Rightarrow> notifier_world notifier" where
  "ordering_notifier uni sc mc link cfg =
     new_notifier wd_ctx link (pg_notification_queue mc nw_pool) (ordering_bus uni (nw_orders uni sc)) cfg"

section \<open>The worklist\<close>

text \<open>Identities are unique and below the next one; a row keeps its order and reason for good.\<close>

definition queue_ok :: "read_side \<Rightarrow> bool" where
  "queue_ok v \<longleftrightarrow> distinct (map nr_id (rs_queue v)) \<and>
     (\<forall>r\<in>set (rs_queue v). nr_id r < rs_next v \<and> utf8_valid (nr_reason r))"

definition claims :: "read_side \<Rightarrow> pending_notification \<Rightarrow> bool" where
  "claims v p \<longleftrightarrow> pn_id p < rs_next v \<and> utf8_valid (pn_reason p) \<and>
     (\<forall>r\<in>set (rs_queue v). nr_id r = pn_id p \<longrightarrow> nr_order_id r = pn_order_id p \<and> nr_reason r = pn_reason p)"

text \<open>Text columns hold UTF-8.\<close>

definition env_ok :: "notifier_world \<Rightarrow> bool" where
  "env_ok w \<longleftrightarrow> (\<forall>qs\<in>set (se_others (wd_view w)). \<forall>(oid, reason, md)\<in>set qs. utf8_valid reason)"

lemma enqueue_ok:
  assumes "queue_ok v" "utf8_valid reason"
  shows "queue_ok (projr (enqueue_sql oid reason md v)) \<and> (claims v p \<longrightarrow> claims (projr (enqueue_sql oid reason md v)) p)"
  using assms by (auto simp: enqueue_sql_def queue_ok_def claims_def less_Suc_eq intro: less_trans)

lemma enqueue_all_ok:
  assumes "queue_ok v" "\<forall>(oid, reason, md)\<in>set qs. utf8_valid reason"
  shows "queue_ok (enqueue_all qs v) \<and> (claims v p \<longrightarrow> claims (enqueue_all qs v) p)"
  using assms
proof (induction qs arbitrary: v)
  case (Cons q qs)
  obtain oid reason md where q: "q = (oid, reason, md)" by (cases q)
  from Cons.prems q enqueue_ok[of v reason oid md p] Cons.IH[of "projr (enqueue_sql oid reason md v)"] show ?case
    by (auto simp: enqueue_all_def)
qed (simp add: enqueue_all_def)

lemma enqueue_all_sent:
  "r \<in> set (rs_queue (enqueue_all qs v)) \<Longrightarrow> nr_sent_at r \<noteq> None \<Longrightarrow> r \<in> set (rs_queue v)"
proof (induction qs arbitrary: v)
  case (Cons q qs)
  obtain oid reason md where q: "q = (oid, reason, md)" by (cases q)
  have "r \<in> set (rs_queue (projr (enqueue_sql oid reason md v)))" using Cons q by (simp add: enqueue_all_def)
  with Cons.prems(2) show ?case by (auto simp: enqueue_sql_def split: if_splits)
qed (simp add: enqueue_all_def)

lemma mark_sent_ok:
  "queue_ok v \<Longrightarrow> queue_ok (projr (mark_sent_sql now i v)) \<and> (claims v p \<longrightarrow> claims (projr (mark_sent_sql now i v)) p)"
proof -
  assume q: "queue_ok v"
  let ?f = "\<lambda>r :: notification_row. if nr_id r = i \<and> nr_sent_at r = None then r\<lparr>nr_sent_at := Some now\<rparr> else r"
  have v': "rs_queue (projr (mark_sent_sql now i v)) = map ?f (rs_queue v)" "rs_next (projr (mark_sent_sql now i v)) = rs_next v"
    by (simp_all add: mark_sent_sql_def)
  have "map nr_id (map ?f rs) = map nr_id rs" for rs by (induction rs) auto
  then have "distinct (map nr_id (map ?f (rs_queue v)))" using q by (simp only: queue_ok_def)
  then show ?thesis using q by (auto simp: queue_ok_def claims_def v' simp del: map_map)
qed

lemma pending_claims:
  assumes "queue_ok v" "scan_pending mc [] (pending_sql limit v) = Inr ps" "p \<in> set ps"
  shows "claims v p"
proof -
  have scan: "scan_pending mc out rs = Inr ps \<Longrightarrow>
      \<exists>ps'. ps = out @ ps' \<and> (\<forall>p\<in>set ps'. \<exists>r\<in>set rs. pn_id p = nr_id r \<and> pn_order_id p = nr_order_id r \<and> pn_reason p = nr_reason r)"
    for out rs
  proof (induction mc out rs rule: scan_pending.induct)
    case (2 mc out r rs)
    then show ?case by (fastforce split: sum.splits)
  qed simp
  from scan[OF assms(2)] assms(3) obtain r where
    r: "r \<in> set (pending_sql limit v)" "pn_id p = nr_id r" "pn_order_id p = nr_order_id r" "pn_reason p = nr_reason r" by auto
  have "r \<in> set (rs_queue v)" using r(1) by (auto simp: pending_sql_def dest: in_set_takeD)
  with r assms(1) show ?thesis
    by (auto simp: queue_ok_def claims_def distinct_map dest: inj_onD)
qed

section \<open>A successful command left its notification\<close>

definition recorded_notice ::
  "(string \<Rightarrow> string) \<Rightarrow> (json, ordering_event) registry \<Rightarrow> json recorded list \<Rightarrow> string \<Rightarrow> string \<Rightarrow> bool" where
  "recorded_notice uni reg log oid reason \<longleftrightarrow> (\<exists>i rec n c. (parse_id uni oid :: order_id res option) = Some (Inr i) \<and>
     rec \<in> set log \<and> rec_stream rec = \<lparr>si_category = ''order'', si_id = id_value i\<rparr> \<and>
     decode reg rec = Inr (OtherEvent n (CustomerNotified c)) \<and> cf_reason c = reason)"

lemma recorded_notice_prefix: "recorded_notice uni reg l oid reason \<Longrightarrow> prefix l l' \<Longrightarrow> recorded_notice uni reg l' oid reason"
  unfolding recorded_notice_def using set_mono_prefix by blast

text \<open>The saga's events decode to saga events.\<close>

definition saga_codec_ok :: "saga_codec \<Rightarrow> bool" where
  "saga_codec_ok sc \<longleftrightarrow> (\<forall>j n x. sc_received sc j \<noteq> Inr (OtherEvent n x) \<and> sc_requested sc j \<noteq> Inr (OtherEvent n x) \<and>
     sc_ended sc j \<noteq> Inr (OtherEvent n x))"

lemma decoded_order_placed:
  assumes "uni_ok uni" "saga_codec_ok sc" "decode (ordering_registry uni sc) rec = Inr (OtherEvent n (OrderPlaced p))"
  shows "order_placed_ok p"
proof -
  from assms(3) obtain ent q where ent: "ordering_registry uni sc (rec_name rec) = Some ent" "re_decode ent q = Inr (OtherEvent n (OrderPlaced p))"
    by (auto simp: decode_lifts_iff)
  from ent assms(2) have "\<exists>j. unmarshal_order_placed uni j = Inr p"
    by (auto simp: ordering_registry_def register_ordering_events_def register_saga_events_def register_def new_registry_def own_event_def
        saga_codec_ok_def map_sum_Inr_iff split: if_splits sum.splits)
  then show ?thesis using unmarshal_order_placed_ok[OF assms(1)] by blast
qed

text \<open>What a replayed order knows, it knows from its stream.\<close>

lemma order_replay_knows:
  assumes "replay order_apply o1 es = Some o2" "\<forall>n p. OtherEvent n (OrderPlaced p) \<in> set es \<longrightarrow> order_placed_ok p" "id_ok (or_id o1)"
  shows "id_ok (or_id o2) \<and> (mget False (or_notified o2) r \<longrightarrow>
    mget False (or_notified o1) r \<or> (\<exists>n c. OtherEvent n (CustomerNotified c) \<in> set es \<and> cf_reason c = r))"
  using assms
proof (induction es arbitrary: o1)
  case (Cons e es)
  obtain o3 where o3: "order_apply o1 e = (o3, None)" "replay order_apply o3 es = Some o2"
    using Cons.prems(1) by (auto split: prod.splits option.splits)
  have i: "id_ok (or_id o3)" and
    k: "mget False (or_notified o3) r \<longrightarrow> mget False (or_notified o1) r \<or> (\<exists>n c. OtherEvent n (CustomerNotified c) = e \<and> cf_reason c = r)"
    using o3(1) Cons.prems(2,3)
    by (auto simp: order_apply_def order_placed_ok_def split: saga_event.splits order_event.splits if_splits)
  from Cons.IH[OF o3(2) _ i] Cons.prems(2) k show ?case by fastforce
qed simp

lemma decode_all_mem:
  "decode_all reg recs = Inr es \<Longrightarrow> e \<in> set es \<Longrightarrow> \<exists>rec\<in>set recs. decode reg rec = Inr e"
  by (induction recs arbitrary: es) (auto split: sum.splits)

lemma stream_recs_mem: "rec \<in> set (stream_recs l st) \<Longrightarrow> rec \<in> set l \<and> rec_stream rec = st"
  by (auto simp: stream_recs_def)

definition quiet_step :: "notifier_world \<Rightarrow> notifier_world \<Rightarrow> bool" where
  "quiet_step w w' \<longleftrightarrow> (wd_inv w \<longrightarrow> wd_inv w' \<and> prefix (wd_log w) (wd_log w') \<and> wd_view w' = wd_view w \<and>
     wd_budget w' \<le> wd_budget w)"

lemma quiet_refl [simp]: "quiet_step w w"
  by (simp add: quiet_step_def)

lemma quiet_trans: "quiet_step u v \<Longrightarrow> quiet_step v w \<Longrightarrow> quiet_step u w"
  using prefix_order.trans by (auto simp: quiet_step_def)

lemma quiet_load: "repo_load (nw_orders uni sc) w aid = (w', lr) \<Longrightarrow> quiet_step w w'"
  using faulty_read[of w "\<lambda>w. mem_load (wd_store w) \<lparr>si_category = ''order'', si_id = aid\<rparr> 0"]
  by (auto simp: quiet_step_def repo_load_def nw_orders_def wd_store_ops_def same_ports_def split: prod.splits sum.splits)

lemma quiet_save: "repo_save (nw_orders uni sc) md None w aid a = (w', pos, a', err) \<Longrightarrow> quiet_step w w'"
proof -
  assume a: "repo_save (nw_orders uni sc) md None w aid a = (w', pos, a', err)"
  have "quiet_step w w1" if "faulty (wd_append st v evs) w = (w1, r)" for st v evs w1 r
    using wd_st_append_ok[OF _ that] append_spec_prefix by (fastforce simp: quiet_step_def same_ports_def)
  with a show ?thesis
    by (auto simp: repo_save_def nw_orders_def wd_store_ops_def split: if_splits sum.splits prod.splits)
qed

lemma notify_records:
  assumes "uni_ok uni" "saga_codec_ok sc" "utf8_valid (nc_reason c)"
    and "notify_customer uni (nw_orders uni sc) md w c = (w', r)"
  shows "quiet_step w w' \<and>
    (wd_inv w \<longrightarrow> r = None \<longrightarrow> recorded_notice uni (ordering_registry uni sc) (wd_log w') (nc_order_id c) (nc_reason c))"
proof (cases "parse_id uni (nc_order_id c) :: order_id res option")
  case None
  with assms(4) show ?thesis by (auto simp: notify_customer_def)
next
  case (Some lr)
  show ?thesis
  proof (cases lr)
    case (Inl err)
    with Some assms(4) show ?thesis by (auto simp: notify_customer_def)
  next
    case (Inr i)
    let ?rp = "nw_orders uni sc" and ?st = "\<lparr>si_category = ''order'', si_id = id_value i\<rparr>" and ?reg = "ordering_registry uni sc"
    obtain w1 lr1 where l: "repo_load ?rp w (id_string i) = (w1, lr1)" by force
    note q1 = quiet_load[OF l]
    show ?thesis
    proof (cases "\<exists>a a1. lr1 = Inr a \<and> order_notify a (nc_reason c) = (a1, None)")
      case False
      then have "w' = w1 \<and> r \<noteq> None" using assms(4) Some Inr l
        by (auto simp: notify_customer_def split: sum.splits prod.splits option.splits)
      with q1 show ?thesis by auto
    next
      case True
      then obtain a a1 where a: "lr1 = Inr a" "order_notify a (nc_reason c) = (a1, None)" by blast
      obtain pos a2 err where sv: "repo_save ?rp md None w1 (id_string i) a1 = (w', pos, a2, err)" "r = err"
        using assms(4) Some Inr l a by (auto simp: notify_customer_def split: prod.splits)
      have q: "quiet_step w w'" by (rule quiet_trans[OF q1 quiet_save[OF sv(1)]])
      have "recorded_notice uni ?reg (wd_log w') (nc_order_id c) (nc_reason c)" if inv: "wd_inv w" and ok: "r = None"
      proof -
        have st: "rp_store ?rp = wd_store_ops" "rp_stream ?rp (id_string i) = ?st" "rp_registry ?rp = ?reg"
          "rp_apply ?rp = order_apply" "rp_zero ?rp = zero_order" "rp_name ?rp = saga_event_name"
          by (simp_all add: nw_orders_def id_string_def)
        have inv1: "wd_inv w1" using q1 inv by (simp add: quiet_step_def)
        have pre1: "prefix (wd_log w1) (wd_log w')" using quiet_save[OF sv(1)] inv1 by (simp add: quiet_step_def)
        obtain es where es: "decode_all ?reg (stream_recs (wd_log w1) ?st) = Inr es"
          "rehydrate saga_event_name order_apply (new_aggregate zero_order) es = (a, None)"
          using wd_store.repo_load_ok[OF inv st(1), of "id_string i" w1 a] l a(1) st by auto
        have rep: "replay order_apply zero_order es = Some (agg_state a)" "agg_pending a = []"
          using es(2) by (auto simp: rehydrate_ok_iff new_aggregate_def)
        have placed: "\<forall>n p. OtherEvent n (OrderPlaced p) \<in> set es \<longrightarrow> order_placed_ok p"
          using decode_all_mem[OF es(1)] decoded_order_placed[OF assms(1,2)] by blast
        note knows = order_replay_knows[OF rep(1) placed, of "nc_reason c"]
        note n = order_notify_ok[OF a(2) rep(2)]
        show ?thesis
        proof (cases "mget False (or_notified (agg_state a)) (nc_reason c)")
          case True
          with knows obtain m x where "OtherEvent m (CustomerNotified x) \<in> set es" "cf_reason x = nc_reason c"
            by (auto simp: zero_order_def)
          with decode_all_mem[OF es(1)] obtain rec where
            "rec \<in> set (stream_recs (wd_log w1) ?st)" "decode ?reg rec = Inr (OtherEvent m (CustomerNotified x))" by blast
          with stream_recs_mem[of rec "wd_log w1" ?st] \<open>cf_reason x = nc_reason c\<close> Some Inr
          have "recorded_notice uni ?reg (wd_log w1) (nc_order_id c) (nc_reason c)" unfolding recorded_notice_def by blast
          from recorded_notice_prefix[OF this pre1] show ?thesis .
        next
          case False
          let ?x = "\<lparr>cf_id = or_id (agg_state a), cf_reason = nc_reason c\<rparr>"
          have pend: "agg_pending a1 = [own_event (CustomerNotified ?x)]" using n False by simp
          from wd_store.repo_save_ok[OF inv1 st(1), of md None "id_string i" a1 w' pos a2] sv ok pend st(2)
          obtain data pre new where d: "encode_all ?rp md (agg_pending a1) = Inr data" "wd_log w' = pre @ new" "appended ?st data new"
            by auto
          have "encodable ?rp [own_event (CustomerNotified ?x)]" using encode_all_encodable[OF d(1)] pend by simp
          then obtain j where "marshal_order_event (CustomerNotified ?x) = Inr j"
            by (auto simp: encodable_def nw_orders_def marshal_ordering_event_def own_event_def)
          then obtain t where "marshal_text (or_id (agg_state a)) = Inr t"
            by (auto simp: marshal_order_event_def split: sum.splits)
          then have "canonical (id_value (cf_id ?x))"
            using id_ok_marshal knows by (auto simp: zero_order_def)
          then have "stores ?rp id (own_event (CustomerNotified ?x))"
            unfolding nw_orders_def using assms(3) by (intro customer_notified_stored) simp_all
          then have "decode_all ?reg new = Inr [own_event (CustomerNotified ?x)]"
            using decode_all_stored[OF d(1), of new id] d(3) pend st(3) by (simp add: appended_def)
          then obtain rec where "rec \<in> set new" "decode ?reg rec = Inr (own_event (CustomerNotified ?x))"
            using decode_all_mem[of ?reg new "[own_event (CustomerNotified ?x)]"] by auto
          with d(2,3) Some Inr show ?thesis unfolding recorded_notice_def own_event_def appended_def by fastforce
        qed
      qed
      with q show ?thesis by blast
    qed
  qed
qed

text \<open>Through the bus, with its retries.\<close>

lemma retry_loop_last:
  assumes "\<And>w w' r. h w cmd = (w', r) \<Longrightarrow> P w \<Longrightarrow> P w' \<and> (r = None \<longrightarrow> Q w')"
    and "\<And>w w' b. ctx_sleep ctx w = (w', b) \<Longrightarrow> P w \<Longrightarrow> P w'"
    and "retry_loop ctx p h k w cmd = (w', r)" and "P w"
  shows "P w' \<and> (r = None \<longrightarrow> Q w')"
  using assms
proof (induction ctx p h k w cmd rule: retry_loop.induct)
  case (1 ctx p h k w cmd)
  obtain w1 r1 where h: "h w cmd = (w1, r1)" by force
  note p1 = "1.prems"(1)[OF h "1.prems"(4)]
  show ?case
  proof (cases "r1 = None \<or> (\<exists>err. r1 = Some err \<and> (ry_attempts p \<le> k \<or> \<not> should_retry p err))")
    case True
    with "1.prems"(3) h p1 show ?thesis by (auto simp: retry_loop.simps[of ctx p h k])
  next
    case False
    then obtain err where e: "r1 = Some err" "\<not> (ry_attempts p \<le> k \<or> \<not> should_retry p err)" by auto
    obtain w2 b where s: "ctx_sleep ctx w1 = (w2, b)" by force
    have p2: "P w2" using "1.prems"(2)[OF s] p1 by blast
    show ?thesis
    proof (cases b)
      case True
      have run: "retry_loop ctx p h (k + 1) w2 cmd = (w', r)"
        using "1.prems"(3) h e s True by (simp add: retry_loop.simps[of ctx p h k])
      show ?thesis
        by (rule "1.IH"[OF h[symmetric] e s[symmetric] _ "1.prems"(1,2) run p2]) (simp add: True)
    next
      case False
      with "1.prems"(3) h e s p2 show ?thesis by (auto simp: retry_loop.simps[of ctx p h k])
    qed
  qed
qed

lemma ordering_bus_notify:
  "bus_handlers (ordering_bus uni orders md) ''ordering.notify_customer'' = Some (\<lambda>w c. case c of
     NotifyCustomer x \<Rightarrow> notify_customer uni orders md w x | _ \<Rightarrow> (w, Some wrong_ordering_command))"
  "bus_middleware (ordering_bus uni orders md) = []"
  by (simp_all add: ordering_bus_def ordering_register_def handle_command_def new_bus_def Let_def)

lemma dispatch_notify_records:
  assumes "uni_ok uni" "saga_codec_ok sc" "utf8_valid reason" "wd_inv w"
    and "dispatch wd_ctx ordering_command_name (ordering_bus uni (nw_orders uni sc) md) w
           (NotifyCustomer \<lparr>nc_order_id = oid, nc_reason = reason\<rparr>) = (w', r)"
  shows "wd_inv w' \<and> prefix (wd_log w) (wd_log w') \<and> wd_view w' = wd_view w \<and> wd_budget w' \<le> wd_budget w \<and>
    (r = None \<longrightarrow> recorded_notice uni (ordering_registry uni sc) (wd_log w') oid reason)"
proof -
  let ?h = "\<lambda>w c. case c of NotifyCustomer x \<Rightarrow> notify_customer uni (nw_orders uni sc) md w x | _ \<Rightarrow> (w, Some wrong_ordering_command)"
  let ?P = "\<lambda>w1. wd_inv w1 \<and> quiet_step w w1"
  have h: "?P w2 \<and> (r = None \<longrightarrow> recorded_notice uni (ordering_registry uni sc) (wd_log w2) oid reason)"
    if "?h w1 (NotifyCustomer \<lparr>nc_order_id = oid, nc_reason = reason\<rparr>) = (w2, r)" "?P w1" for w1 w2 r
  proof -
    have n: "notify_customer uni (nw_orders uni sc) md w1 \<lparr>nc_order_id = oid, nc_reason = reason\<rparr> = (w2, r)"
      using that(1) by simp
    from notify_records[OF assms(1,2) _ n] assms(3) that(2) quiet_trans[of w w1 w2] show ?thesis
      by (auto simp: quiet_step_def)
  qed
  have s: "?P w2" if "ctx_sleep wd_ctx w1 = (w2, b)" "?P w1" for w1 w2 b
    using wd_ctx_sleep[OF _ that(1)] that(2) quiet_trans[of w w1 w2] by (auto simp: quiet_step_def same_ports_def)
  have run: "retry_loop wd_ctx (bus_retry (ordering_bus uni (nw_orders uni sc) md)) ?h 1 w
      (NotifyCustomer \<lparr>nc_order_id = oid, nc_reason = reason\<rparr>) = (w', r)"
    using assms(5) by (simp add: dispatch_def with_retry_def ordering_bus_notify)
  have "?P w" using assms(4) by simp
  from retry_loop_last[where P = ?P, OF h s run this] assms(4) show ?thesis by (auto simp: quiet_step_def)
qed

section \<open>Retired means told\<close>

definition notified_inv :: "(string \<Rightarrow> string) \<Rightarrow> saga_codec \<Rightarrow> pending_notification list \<Rightarrow> notifier_world \<Rightarrow> bool" where
  "notified_inv uni sc ps w \<longleftrightarrow> wd_inv w \<and> queue_ok (side w) \<and> env_ok w \<and> (\<forall>p\<in>set ps. claims (side w) p) \<and>
     (\<forall>r\<in>set (rs_queue (side w)). nr_sent_at r \<noteq> None \<longrightarrow>
        recorded_notice uni (ordering_registry uni sc) (wd_log w) (nr_order_id r) (nr_reason r))"

lemma notified_inv_frame:
  assumes "notified_inv uni sc ps w" "wd_inv w'" "prefix (wd_log w) (wd_log w')" "wd_view w' = wd_view w"
  shows "notified_inv uni sc ps w'"
  using assms recorded_notice_prefix[OF _ assms(3)] by (auto simp: notified_inv_def side_def env_ok_def)

lemma others_inv:
  assumes "notified_inv uni sc ps w" shows "notified_inv uni sc ps (others_enqueue w)"
proof (cases "se_others (wd_view w)")
  case Nil
  with assms show ?thesis by (simp add: others_enqueue_def)
next
  case (Cons qs more)
  let ?v = "enqueue_all qs (side w)"
  have w': "side (others_enqueue w) = ?v" "wd_log (others_enqueue w) = wd_log w" "wd_inv (others_enqueue w) = wd_inv w"
    "se_others (wd_view (others_enqueue w)) = more"
    using Cons by (simp_all add: others_enqueue_def side_def wd_log_def wd_inv_def)
  have v: "\<forall>(oid, reason, md)\<in>set qs. utf8_valid reason" using assms Cons by (simp add: notified_inv_def env_ok_def)
  have q: "queue_ok (side w)" using assms by (simp add: notified_inv_def)
  have "env_ok (others_enqueue w)" using assms Cons by (simp add: notified_inv_def env_ok_def w'(4))
  then show ?thesis
    using assms enqueue_all_ok[OF q v] enqueue_all_sent[of _ qs "side w"] by (auto simp: notified_inv_def w'(1-3))
qed

lemma others_budget [simp]: "wd_budget (others_enqueue w) = wd_budget w" "wd_sched (others_enqueue w) = wd_sched w"
  by (simp_all add: others_enqueue_def wd_budget_def split: list.split)

text \<open>Every statement may fail with or without its effect.\<close>

lemma exec_inv:
  assumes "notified_inv uni sc ps w" "pl_exec nw_pool w f = (w', r)"
    and "\<And>w1 v. notified_inv uni sc ps w1 \<Longrightarrow> prefix (wd_log w) (wd_log w1) \<Longrightarrow> f (side w1) = Inr v \<Longrightarrow>
      notified_inv uni sc ps (w1\<lparr>wd_view := (wd_view w1)\<lparr>se_side := v\<rparr>\<rparr>)"
  shows "notified_inv uni sc ps w' \<and> wd_budget w' \<le> wd_budget w"
proof -
  note o = others_inv[OF assms(1)]
  have log: "wd_log (others_enqueue w) = wd_log w" by (simp add: others_enqueue_def wd_log_def split: list.split)
  have e: "faulty_unit (exec_side f) (others_enqueue w) = (w', r)" using assms(2) by (simp add: nw_pool_def)
  have op: "notified_inv uni sc ps (fst (exec_side f w1)) \<and> wd_budget (fst (exec_side f w1)) = wd_budget w1"
    if "notified_inv uni sc ps w1" "prefix (wd_log w) (wd_log w1)" for w1
    using that assms(3)[OF that] by (cases "f (side w1)") (simp_all add: exec_side_def wd_budget_def)
  have t: "notified_inv uni sc ps w1 \<and> prefix (wd_log w) (wd_log w1) \<and> wd_budget w1 \<le> wd_budget w"
    if "tick (others_enqueue w) = (w1, x)" for w1 x
    using tick_ok[OF _ that] o notified_inv_frame[OF o, of w1] log by (auto simp: notified_inv_def same_ports_def)
  from e show ?thesis
  proof (cases rule: faulty_unit_cases)
    case (1 w1)
    with t[OF 1(1)] op[of w1] show ?thesis by (metis fst_conv)
  next
    case (2 w1 msg k)
    with t[OF 2(1)] op[of w1] show ?thesis by auto
  qed
qed

lemma mark_inv:
  assumes "notified_inv uni sc (p # ps) w" "recorded_notice uni (ordering_registry uni sc) (wd_log w) (pn_order_id p) (pn_reason p)"
    and "pg_mark_sent nw_pool w (pn_id p) = (w', r)"
  shows "notified_inv uni sc (p # ps) w' \<and> wd_budget w' \<le> wd_budget w"
proof -
  obtain r1 where e: "pl_exec nw_pool w (mark_sent_sql (pl_now nw_pool w) (pn_id p)) = (w', r1)"
    using assms(3) by (auto simp: pg_mark_sent_def split: prod.splits option.splits)
  show ?thesis
  proof (rule exec_inv[OF assms(1) e])
    fix w1 v
    assume i: "notified_inv uni sc (p # ps) w1" and l: "prefix (wd_log w) (wd_log w1)"
      and v: "mark_sent_sql (pl_now nw_pool w) (pn_id p) (side w1) = Inr v"
    let ?w = "w1\<lparr>wd_view := (wd_view w1)\<lparr>se_side := v\<rparr>\<rparr>"
    have f: "side ?w = v" "wd_inv ?w = wd_inv w1" "wd_log ?w = wd_log w1" "env_ok ?w = env_ok w1"
      by (simp_all add: side_def wd_inv_def wd_log_def env_ok_def)
    have q: "queue_ok (side w1)" "claims (side w1) p" using i by (auto simp: notified_inv_def)
    note m = mark_sent_ok[OF q(1), of "pl_now nw_pool w" "pn_id p"] recorded_notice_prefix[OF assms(2) l]
    have "recorded_notice uni (ordering_registry uni sc) (wd_log w1) (nr_order_id r) (nr_reason r)"
      if r: "r \<in> set (rs_queue v)" "nr_sent_at r \<noteq> None" for r
    proof -
      from r(1) v obtain r0 where r0: "r0 \<in> set (rs_queue (side w1))"
        "r = (if nr_id r0 = pn_id p \<and> nr_sent_at r0 = None then r0\<lparr>nr_sent_at := Some (pl_now nw_pool w)\<rparr> else r0)"
        by (auto simp: mark_sent_sql_def)
      show ?thesis
      proof (cases "nr_id r0 = pn_id p \<and> nr_sent_at r0 = None")
        case True
        with r0 q(2) m(2) show ?thesis by (auto simp: claims_def)
      next
        case False
        with r0 r(2) i show ?thesis unfolding notified_inv_def by metis
      qed
    qed
    with i m(1) v show "notified_inv uni sc (p # ps) ?w" unfolding notified_inv_def f by auto
  qed
qed

lemma send_inv:
  assumes "uni_ok uni" "saga_codec_ok sc" "notified_inv uni sc (p # ps) w"
  shows "notified_inv uni sc (p # ps) (notifier_send (ordering_notifier uni sc mc link cfg) p w) \<and>
    wd_budget (notifier_send (ordering_notifier uni sc mc link cfg) p w) \<le> wd_budget w"
proof -
  obtain w1 r where d: "dispatch wd_ctx ordering_command_name (ordering_bus uni (nw_orders uni sc) (link (pn_meta p))) w
      (NotifyCustomer \<lparr>nc_order_id = pn_order_id p, nc_reason = pn_reason p\<rparr>) = (w1, r)" by force
  have u: "utf8_valid (pn_reason p)" "wd_inv w" using assms(3) by (auto simp: notified_inv_def claims_def)
  note k = dispatch_notify_records[OF assms(1,2) u d]
  have i1: "notified_inv uni sc (p # ps) w1" by (rule notified_inv_frame[OF assms(3)]) (use k in auto)
  show ?thesis
  proof (cases r)
    case (Some err)
    with d i1 k show ?thesis by (simp add: notifier_send_def ordering_notifier_def new_notifier_def)
  next
    case None
    obtain w2 r2 where m: "pg_mark_sent nw_pool w1 (pn_id p) = (w2, r2)" by force
    have rec: "recorded_notice uni (ordering_registry uni sc) (wd_log w1) (pn_order_id p) (pn_reason p)" using k None by simp
    from mark_inv[OF i1 rec m] d m None k show ?thesis
      by (simp add: notifier_send_def ordering_notifier_def new_notifier_def pg_notification_queue_def)
  qed
qed

lemma tick_inv:
  assumes "uni_ok uni" "saga_codec_ok sc" "notified_inv uni sc ps w"
  shows "notified_inv uni sc [] (notifier_tick (ordering_notifier uni sc mc link cfg) ps w) \<and>
    wd_budget (notifier_tick (ordering_notifier uni sc mc link cfg) ps w) \<le> wd_budget w"
  using assms(3)
proof (induction ps arbitrary: w)
  case (Cons p ps)
  let ?w = "notifier_send (ordering_notifier uni sc mc link cfg) p w"
  note s = send_inv[OF assms(1,2) Cons.prems, of mc link cfg]
  then have "notified_inv uni sc ps ?w" by (simp add: notified_inv_def)
  from Cons.IH[OF this] s show ?case by auto
qed simp

lemma pending_inv:
  assumes "notified_inv uni sc [] w" "pg_pending mc nw_pool w limit = (w', r)"
  shows "notified_inv uni sc (case r of Inl err \<Rightarrow> [] | Inr ps \<Rightarrow> ps) w' \<and> wd_budget w' \<le> wd_budget w \<and>
    (0 < wd_budget w \<longrightarrow> wd_budget w' < wd_budget w)"
proof -
  note o = others_inv[OF assms(1)]
  obtain r1 where q: "faulty (\<lambda>w. (w, Inr (side w))) (others_enqueue w) = (w', r1)"
    and r: "r = (case r1 of Inl err \<Rightarrow> Inl (Wrapf ''ordering/postgres: pending notifications: %w'' [] err)
      | Inr v \<Rightarrow> scan_pending mc [] (pending_sql limit v))"
    using assms(2) by (auto simp: pg_pending_def nw_pool_def split: prod.splits sum.splits)
  have inv: "wd_inv (others_enqueue w)" using o by (simp add: notified_inv_def)
  note k = faulty_read[OF inv q]
  have i: "notified_inv uni sc [] w'" by (rule notified_inv_frame[OF o]) (use k in \<open>auto simp: same_ports_def\<close>)
  have "claims (side w') p" if "r = Inr ps" "p \<in> set ps" for p ps
  proof -
    from that(1) r k have "scan_pending mc [] (pending_sql limit (side w')) = Inr ps" by (cases r1) auto
    from pending_claims[OF _ this that(2)] i show ?thesis by (simp add: notified_inv_def)
  qed
  with i k show ?thesis by (cases r) (auto simp: notified_inv_def)
qed

lemma run_inv:
  assumes "uni_ok uni" "saga_codec_ok sc" "notified_inv uni sc [] w" "wd_budget w < n"
  shows "\<exists>w'. notifier_run n (ordering_notifier uni sc mc link cfg) w = Some w' \<and> notified_inv uni sc [] w'"
  using assms(3,4)
proof (induction n arbitrary: w)
  case (Suc n)
  let ?n = "ordering_notifier uni sc mc link cfg"
  have fld: "nf_ctx ?n = wd_ctx" "nf_queue ?n = pg_notification_queue mc nw_pool"
    by (simp_all add: ordering_notifier_def new_notifier_def)
  have sleep: "\<exists>w'. (case ctx_sleep wd_ctx w3 of (w4, False) \<Rightarrow> Some w4 | (w4, True) \<Rightarrow> notifier_run n ?n w4) = Some w' \<and>
      notified_inv uni sc [] w'"
    if "notified_inv uni sc [] w3" "wd_budget w3 < wd_budget w" for w3
  proof -
    obtain w4 b where s: "ctx_sleep wd_ctx w3 = (w4, b)" by force
    have k: "wd_inv w4 \<and> prefix (wd_log w3) (wd_log w4) \<and> same_ports w3 w4 \<and> wd_budget w4 \<le> wd_budget w3"
      using wd_ctx_sleep[OF _ s] that(1) by (auto simp: notified_inv_def)
    have "notified_inv uni sc [] w4" by (rule notified_inv_frame[OF that(1)]) (use k in \<open>auto simp: same_ports_def\<close>)
    with Suc.IH[OF this] k that(2) Suc.prems(2) s show ?thesis by (cases b) auto
  qed
  show ?case
  proof (cases "wd_budget w = 0")
    case True
    then have "ctx_err wd_ctx w = (w, True)" by (simp add: wd_ctx_def wd_budget_def)
    with Suc.prems(1) show ?thesis by (simp add: fld)
  next
    case False
    then have e: "ctx_err wd_ctx w = (w, False)" by (simp add: wd_ctx_def wd_budget_def)
    obtain w2 r where p: "pg_pending mc nw_pool w (nc_batch_size (nf_cfg ?n)) = (w2, r)" by force
    note k = pending_inv[OF Suc.prems(1) p]
    have nq: "nq_pending (nf_queue ?n) w (nc_batch_size (nf_cfg ?n)) = (w2, r)" using p by (simp add: fld pg_notification_queue_def)
    show ?thesis
    proof (cases r)
      case (Inl err)
      then have i2: "notified_inv uni sc [] w2" "wd_budget w2 < wd_budget w" using k False by auto
      obtain b where c: "ctx_err wd_ctx w2 = (w2, b)" by (simp add: wd_ctx_def)
      from sleep[OF i2] i2 nq e c Inl show ?thesis by (cases b) (auto simp: fld)
    next
      case (Inr ps)
      then have "notified_inv uni sc ps w2" "wd_budget w2 < wd_budget w" using k False by auto
      from tick_inv[OF assms(1,2) this(1), of mc link cfg] this(2) sleep[of "notifier_tick ?n ps w2"] nq e Inr show ?thesis
        by (auto simp: fld)
    qed
  qed
qed simp

section \<open>A calm stretch\<close>

text \<open>Nothing fails, and nobody else writes.\<close>

definition calm_world :: "notifier_world \<Rightarrow> bool" where
  "calm_world w \<longleftrightarrow> (\<forall>h\<in>set (wd_sched w). hp_fault h = None \<and> hp_appends h = []) \<and> se_others (wd_view w) = []"

definition next_world :: "notifier_world \<Rightarrow> notifier_world" where
  "next_world w = fst (tick w)"

lemma calm_tick:
  assumes "calm_world w"
  shows "tick w = (next_world w, None) \<and> calm_world (next_world w) \<and> wd_store (next_world w) = wd_store w \<and>
    wd_view (next_world w) = wd_view w \<and> wd_inbox (next_world w) = wd_inbox w \<and> wd_budget (next_world w) = wd_budget w - 1"
  using assms by (auto simp: calm_world_def next_world_def tick_def wd_budget_def split: list.splits)

lemma calm_fields [simp]: "calm_world (w\<lparr>wd_store := s\<rparr>) = calm_world w"
  by (simp add: calm_world_def)

definition order_ready ::
  "(string \<Rightarrow> string) \<Rightarrow> saga_codec \<Rightarrow> json recorded list \<Rightarrow> string \<Rightarrow> bool" where
  "order_ready uni sc log oid \<longleftrightarrow> (\<exists>i es. (parse_id uni oid :: order_id res option) = Some (Inr i) \<and>
     decode_all (ordering_registry uni sc) (stream_recs log \<lparr>si_category = ''order'', si_id = id_value i\<rparr>) = Inr es \<and>
     es \<noteq> [] \<and> order_history (id_value i) es)"

lemma order_ready_append:
  assumes "order_ready uni sc log oid" "\<forall>r\<in>set new. rec_stream r = \<lparr>si_category = ''order'', si_id = aid\<rparr>"
    and "decode_all (ordering_registry uni sc) new = Inr es'"
    and "\<And>es. decode_all (ordering_registry uni sc) (stream_recs log \<lparr>si_category = ''order'', si_id = aid\<rparr>) = Inr es \<Longrightarrow>
      order_history aid (es @ es')"
  shows "order_ready uni sc (log @ new) oid"
proof -
  from assms(1) obtain i es where i: "(parse_id uni oid :: order_id res option) = Some (Inr i)"
    "decode_all (ordering_registry uni sc) (stream_recs log \<lparr>si_category = ''order'', si_id = id_value i\<rparr>) = Inr es" "es \<noteq> []"
    "order_history (id_value i) es" by (auto simp: order_ready_def)
  show ?thesis
  proof (cases "id_value i = aid")
    case True
    with assms(2) have "stream_recs new \<lparr>si_category = ''order'', si_id = id_value i\<rparr> = new"
      by (simp add: stream_recs_def filter_True)
    with i assms(3) assms(4)[of es] True show ?thesis
      by (auto simp: order_ready_def stream_recs_append decode_all_append)
  next
    case False
    with assms(2) have "stream_recs new \<lparr>si_category = ''order'', si_id = id_value i\<rparr> = []"
      by (auto simp: stream_recs_def filter_empty_conv)
    with i show ?thesis by (auto simp: order_ready_def stream_recs_append)
  qed
qed

lemma calm_load:
  assumes "calm_world w" "wd_inv w"
    and "decode_all (ordering_registry uni sc) (stream_recs (wd_log w) \<lparr>si_category = ''order'', si_id = aid\<rparr>) = Inr es"
    and "es \<noteq> []" "order_history aid es"
  shows "\<exists>a. repo_load (nw_orders uni sc) w aid = (next_world w, Inr a) \<and>
    rehydrate saga_event_name order_apply (new_aggregate zero_order) es = (a, None)"
proof -
  let ?st = "\<lparr>si_category = ''order'', si_id = aid\<rparr>"
  have m: "mem_inv (wd_store w)" using assms(2) by (simp add: wd_inv_def)
  have recs: "mem_load (wd_store w) ?st 0 = stream_recs (wd_log w) ?st"
    using m mem_inv_wf[OF m] by (simp add: mem_load_spec load_spec_all wd_log_def)
  obtain s where "replay order_apply zero_order es = Some s" using order_history_replays[OF assms(5)] by blast
  then have "replay order_apply (agg_state (new_aggregate zero_order :: order_agg)) es = Some s" by (simp add: new_aggregate_def)
  from rehydrate_replay[OF this, of saga_event_name] obtain a where
    a: "rehydrate saga_event_name order_apply (new_aggregate zero_order) es = (a, None)" by blast
  have "stream_recs (wd_log w) ?st \<noteq> []" using assms(3,4) by auto
  with a assms(3) recs calm_tick[OF assms(1)] show ?thesis
    by (auto simp: repo_load_def nw_orders_def wd_store_ops_def faulty_def)
qed

lemma calm_notify:
  assumes "calm_world w" "wd_inv w" "order_ready uni sc (wd_log w) oid" "reason \<noteq> []" "utf8_valid reason"
  shows "\<exists>w'. notify_customer uni (nw_orders uni sc) md w \<lparr>nc_order_id = oid, nc_reason = reason\<rparr> = (w', None) \<and>
    calm_world w' \<and> wd_view w' = wd_view w \<and> wd_budget w \<le> wd_budget w' + 2 \<and>
    (\<forall>oid'. order_ready uni sc (wd_log w) oid' \<longrightarrow> order_ready uni sc (wd_log w') oid')"
proof -
  let ?c = "NotifyCustomer \<lparr>nc_order_id = oid, nc_reason = reason\<rparr>" and ?reg = "ordering_registry uni sc"
  let ?rp = "nw_orders uni sc"
  from assms(3) obtain i es where i: "(parse_id uni oid :: order_id res option) = Some (Inr i)"
    "decode_all ?reg (stream_recs (wd_log w) \<lparr>si_category = ''order'', si_id = id_value i\<rparr>) = Inr es" "es \<noteq> []"
    "order_history (id_value i) es" by (auto simp: order_ready_def)
  let ?st = "\<lparr>si_category = ''order'', si_id = id_value i\<rparr>" and ?w1 = "next_world w"
  note t = calm_tick[OF assms(1)]
  obtain a where ld: "repo_load ?rp w (id_value i) = (?w1, Inr a)"
    "rehydrate saga_event_name order_apply (new_aggregate zero_order) es = (a, None)"
    using calm_load[OF assms(1,2) i(2-4)] by blast
  obtain a1 where a1: "order_notify a reason = (a1, None)"
    using assms(4) by (cases "mget False (or_notified (agg_state a)) reason")
      (auto simp: order_notify_def order_raise_def raise_event_def order_apply_def own_event_def)
  have lo: "loaded (new_orders wd_store_ops ?reg sc :: notifier_world orders) es (Inr a)" using i(3) ld(2) by (simp add: loaded_def)
  have dec: "ordering_decide uni ?c (Inr a) = Inr a1" using i(1) a1 by simp
  have key: "ordering_key uni ?c = id_value i" using i(1) by simp
  have oh: "order_history (ordering_key uni ?c) es" using i(4) key by simp
  have okc: "ordering_ok ?c" using assms(5) by simp
  note D = ordering_decide_ok[OF okc oh lo dec, unfolded key]
  have pend0: "agg_pending a = []" "agg_version a = int (length es)" using ld(2) by (auto simp: rehydrate_ok_iff new_aggregate_def)
  note n = order_notify_ok[OF a1 pend0(1)]
  have nc: "notify_customer uni ?rp md w \<lparr>nc_order_id = oid, nc_reason = reason\<rparr> =
      (case repo_save ?rp md None ?w1 (id_value i) a1 of (w2, pos, a2, err) \<Rightarrow> (w2, err))"
    using i(1) ld(1) a1 by (simp add: notify_customer_def id_string_def)
  show ?thesis
  proof (cases "agg_pending a1 = []")
    case True
    with nc t show ?thesis by (simp add: repo_save_def uncommitted_events_def wd_log_def)
  next
    case False
    then obtain e where e: "agg_pending a1 = [e]" "e = own_event (CustomerNotified \<lparr>cf_id = or_id (agg_state a), cf_reason = reason\<rparr>)"
      using n by (auto split: if_splits)
    have st: "stores (new_orders wd_store_ops ?reg sc :: notifier_world orders) id e" using D e(1) by simp
    obtain pos' a' err s where sv: "repo_save (rp_at (new_orders (mem_ops 0) ?reg sc) (wd_now (next_world ?w1))) md None (wd_store w)
        (id_value i) a1 = (s, pos', a', err)" by (metis prod_cases4)
    have v: "agg_version a1 = stream_version (ms_all (wd_store w)) (rp_stream (new_orders (mem_ops 0) ?reg sc) (id_value i))"
      using n pend0(2) i(2) decode_all_length by (fastforce simp: stream_version_def wd_log_def)
    have can: "canonical (id_value (or_id (agg_state a)))"
    proof -
      from i(3,4) obtain p rs where p: "es = own_event (OrderPlaced p) # map (\<lambda>r. own_event (CustomerNotified \<lparr>cf_id = op_id p, cf_reason = r\<rparr>)) rs"
        "order_placed_valid p" by (auto simp: order_history_def)
      have "agg_state a = placed_order p rs" using ld(2) placed_replay[of p "op_id p" rs] unfolding p(1)[symmetric]
        by (auto simp: rehydrate_ok_iff new_aggregate_def)
      with p(2) show ?thesis by (simp add: placed_order_def order_placed_valid_def)
    qed
    obtain j where j: "marshal_order_event (CustomerNotified \<lparr>cf_id = or_id (agg_state a), cf_reason = reason\<rparr>) = Inr j"
      using customer_notified_roundtrip[of "\<lparr>cf_id = or_id (agg_state a), cf_reason = reason\<rparr>" uni] can assms(5) by auto
    have mi: "mem_inv (wd_store w)" using assms(2) by (simp add: wd_inv_def)
    have st0: "stores (new_orders (mem_ops 0) ?reg sc) id e" using st by (simp add: stores_def)
    have one: "err = None \<and> mem_inv s \<and> (\<exists>rec. ms_all s = ms_all (wd_store w) @ [rec] \<and> rec_stream rec = ?st \<and>
        rec_meta rec = md \<and> decode ?reg rec = Inr e)"
      using save_one[OF mi e(1) v _ _ st0 sv] j e(2)
      by (simp add: own_event_def ordering_registry_entries marshal_ordering_event_def)
    then obtain rec where rec: "ms_all s = ms_all (wd_store w) @ [rec]" "rec_stream rec = ?st" "decode ?reg rec = Inr e" by blast
    have t1: "tick ?w1 = (next_world ?w1, None)" "wd_store (next_world ?w1) = wd_store w" using calm_tick[of ?w1] t by auto
    have sv': "repo_save ?rp md None ?w1 (id_value i) a1 = ((next_world ?w1)\<lparr>wd_store := s\<rparr>, pos', a', None)"
    proof -
      let ?mem = "new_orders (mem_ops (wd_now (next_world ?w1))) ?reg sc"
      have enc: "encode_all ?rp md es' = encode_all ?mem md es'" for es'
        by (induction es') (simp_all add: nw_orders_def split: sum.splits)
      have app: "st_append wd_store_ops ?w1 ?st v evs =
          (case mem_append (wd_now (next_world ?w1)) (wd_store w) ?st v evs of (s, r) \<Rightarrow> ((next_world ?w1)\<lparr>wd_store := s\<rparr>, r))" for v evs
        using t1 by (simp add: wd_store_ops_def faulty_def wd_append_def)
      have memapp: "st_append (mem_ops now) = mem_append now" for now by (simp add: mem_ops_def)
      have fld: "rp_store ?rp = wd_store_ops" "rp_stream ?rp (id_value i) = ?st" by (simp_all add: nw_orders_def)
      from sv one False obtain data x where d: "encode_all ?mem md (agg_pending a1) = Inr data"
        "mem_append (wd_now (next_world ?w1)) (wd_store w) ?st (agg_version a1) data = (s, Inr x)"
        "pos' = record_position None x" "a' = fst (take_uncommitted a1)"
        by (auto simp: repo_save_def uncommitted_events_def memapp split: sum.splits prod.splits)
      show ?thesis using False d by (simp add: repo_save_def uncommitted_events_def enc fld app)
    qed
    let ?w' = "(next_world ?w1)\<lparr>wd_store := s\<rparr>"
    have "encodable (new_orders wd_store_ops ?reg sc :: notifier_world orders) (agg_pending a1)"
      using j e by (simp add: encodable_def marshal_ordering_event_def own_event_def)
    then have "order_history (id_value i) (es @ [e])" using D n pend0(2) e(1) by simp
    then have "order_ready uni sc (wd_log w @ [rec]) oid'" if "order_ready uni sc (wd_log w) oid'" for oid'
      by (intro order_ready_append[OF that, of _ "id_value i" "[e]"]) (use rec i(2) in auto)
    then show ?thesis
      using nc sv' t calm_tick[of ?w1] rec(1) by (auto simp: wd_log_def wd_budget_def)
  qed
qed

section \<open>A calm worker drains its worklist\<close>

definition unsent :: "read_side \<Rightarrow> notification_row list" where
  "unsent v = filter (\<lambda>r. nr_sent_at r = None) (rs_queue v)"

definition row_ready :: "(string \<Rightarrow> string) \<Rightarrow> saga_codec \<Rightarrow> md_codec \<Rightarrow> json recorded list \<Rightarrow> notification_row \<Rightarrow> bool" where
  "row_ready uni sc mc log r \<longleftrightarrow> (\<exists>md. mc_dec mc (nr_meta r) = Inr md) \<and> nr_reason r \<noteq> [] \<and> utf8_valid (nr_reason r) \<and>
     order_ready uni sc log (nr_order_id r)"

definition mark_rows :: "int set \<Rightarrow> notification_row list \<Rightarrow> notification_row list \<Rightarrow> bool" where
  "mark_rows ids rs rs' \<longleftrightarrow> list_all2 (\<lambda>r r'. nr_id r' = nr_id r \<and> nr_order_id r' = nr_order_id r \<and> nr_reason r' = nr_reason r \<and>
     nr_meta r' = nr_meta r \<and> (nr_sent_at r' = None \<longleftrightarrow> nr_sent_at r = None \<and> nr_id r \<notin> ids)) rs rs'"

lemma mark_rows_refl: "mark_rows {} rs rs"
  by (simp add: mark_rows_def list_all2_same)

lemma mark_rows_sql:
  "mark_rows ids rs rs' \<Longrightarrow> mark_rows (insert i ids) rs (rs_queue (projr (mark_sent_sql now i (v\<lparr>rs_queue := rs'\<rparr>))))"
  by (auto simp: mark_rows_def mark_sent_sql_def list_all2_map2 elim!: list_all2_mono)

lemma mark_rows_trans: "mark_rows A xs ys \<Longrightarrow> mark_rows B ys zs \<Longrightarrow> mark_rows (A \<union> B) xs zs"
  unfolding mark_rows_def list_all2_conv_all_nth by auto

lemma mark_rows_unsent:
  "mark_rows ids rs rs' \<Longrightarrow> map nr_id (filter (\<lambda>r. nr_sent_at r = None) rs') =
     filter (\<lambda>i. i \<notin> ids) (map nr_id (filter (\<lambda>r. nr_sent_at r = None) rs))"
  unfolding mark_rows_def by (induction rule: list_all2_induct) auto

lemma mark_rows_ids: "mark_rows ids rs rs' \<Longrightarrow> map nr_id rs' = map nr_id rs"
  unfolding mark_rows_def by (induction rule: list_all2_induct) auto

lemma mark_rows_ready:
  "mark_rows ids rs rs' \<Longrightarrow> \<forall>r\<in>set rs. row_ready uni sc mc log r \<Longrightarrow> \<forall>r\<in>set rs'. row_ready uni sc mc log r"
  by (simp add: mark_rows_def list_all2_conv_all_nth all_set_conv_all_nth row_ready_def)

lemma calm_mark:
  assumes "calm_world w" "pg_mark_sent nw_pool w i = (w', r)"
  shows "r = None \<and> calm_world w' \<and> wd_log w' = wd_log w \<and> wd_budget w \<le> wd_budget w' + 1 \<and>
    (wd_inv w \<longrightarrow> wd_inv w') \<and> mark_rows {i} (rs_queue (side w)) (rs_queue (side w'))"
proof -
  have o: "others_enqueue w = w" using assms(1) by (simp add: calm_world_def others_enqueue_def)
  note t = calm_tick[OF assms(1)]
  have w': "r = None" "w' = (next_world w)\<lparr>wd_view := (wd_view w)\<lparr>se_side := projr (mark_sent_sql (wd_now w) i (side w))\<rparr>\<rparr>"
    using assms(2) o t by (auto simp: pg_mark_sent_def nw_pool_def faulty_unit_def exec_side_def mark_sent_sql_def side_def)
  have v: "side w = (side w)\<lparr>rs_queue := rs_queue (side w)\<rparr>" by simp
  have "mark_rows {i} (rs_queue (side w)) (rs_queue (projr (mark_sent_sql (wd_now w) i (side w))))"
    by (subst (2) v) (rule mark_rows_sql[OF mark_rows_refl])
  then show ?thesis
    using w' t assms(1) by (auto simp: calm_world_def wd_log_def wd_budget_def wd_inv_def side_def)
qed

lemma calm_send:
  assumes "calm_world w" "wd_inv w" "order_ready uni sc (wd_log w) (pn_order_id p)" "pn_reason p \<noteq> []" "utf8_valid (pn_reason p)"
  shows "let w' = notifier_send (ordering_notifier uni sc mc link cfg) p w in
    calm_world w' \<and> wd_budget w \<le> wd_budget w' + 3 \<and> mark_rows {pn_id p} (rs_queue (side w)) (rs_queue (side w')) \<and>
    (\<forall>oid. order_ready uni sc (wd_log w) oid \<longrightarrow> order_ready uni sc (wd_log w') oid)"
proof -
  let ?md = "link (pn_meta p)" and ?c = "\<lparr>nc_order_id = pn_order_id p, nc_reason = pn_reason p\<rparr>"
  obtain w1 where n: "notify_customer uni (nw_orders uni sc) ?md w ?c = (w1, None)" "calm_world w1" "wd_view w1 = wd_view w"
    "wd_budget w \<le> wd_budget w1 + 2" "\<forall>oid'. order_ready uni sc (wd_log w) oid' \<longrightarrow> order_ready uni sc (wd_log w1) oid'"
    using calm_notify[OF assms] by blast
  have d: "dispatch wd_ctx ordering_command_name (ordering_bus uni (nw_orders uni sc) ?md) w (NotifyCustomer ?c) = (w1, None)"
    using n(1) by (simp add: dispatch_def with_retry_def ordering_bus_notify retry_loop.simps)
  obtain w2 r where m: "pg_mark_sent nw_pool w1 (pn_id p) = (w2, r)" by force
  note k = calm_mark[OF n(2) m]
  have "notifier_send (ordering_notifier uni sc mc link cfg) p w = w2"
    using d m by (simp add: notifier_send_def ordering_notifier_def new_notifier_def pg_notification_queue_def)
  then show ?thesis using n k by (simp add: Let_def side_def)
qed

lemma calm_ticks:
  assumes "uni_ok uni" "saga_codec_ok sc" "notified_inv uni sc ps w" "calm_world w"
    and "\<forall>p\<in>set ps. order_ready uni sc (wd_log w) (pn_order_id p) \<and> pn_reason p \<noteq> []"
  shows "let w' = notifier_tick (ordering_notifier uni sc mc link cfg) ps w in
    calm_world w' \<and> wd_budget w \<le> wd_budget w' + 3 * length ps \<and>
    mark_rows (pn_id ` set ps) (rs_queue (side w)) (rs_queue (side w')) \<and>
    (\<forall>oid. order_ready uni sc (wd_log w) oid \<longrightarrow> order_ready uni sc (wd_log w') oid)"
  using assms(3-5)
proof (induction ps arbitrary: w)
  case (Cons p ps)
  let ?w = "notifier_send (ordering_notifier uni sc mc link cfg) p w"
  have "wd_inv w" "utf8_valid (pn_reason p)" using Cons.prems(1) by (auto simp: notified_inv_def claims_def)
  with Cons.prems have s: "calm_world ?w" "wd_budget w \<le> wd_budget ?w + 3"
    "mark_rows {pn_id p} (rs_queue (side w)) (rs_queue (side ?w))"
    "\<forall>oid. order_ready uni sc (wd_log w) oid \<longrightarrow> order_ready uni sc (wd_log ?w) oid"
    using calm_send[of w uni sc p mc link cfg] by (auto simp: Let_def)
  have "notified_inv uni sc ps ?w"
    using send_inv[OF assms(1,2) Cons.prems(1), of mc link cfg] by (simp add: notified_inv_def)
  from Cons.IH[OF this s(1)] s(4) Cons.prems(3) have
    "calm_world (notifier_tick (ordering_notifier uni sc mc link cfg) ps ?w)"
    "wd_budget ?w \<le> wd_budget (notifier_tick (ordering_notifier uni sc mc link cfg) ps ?w) + 3 * length ps"
    "mark_rows (pn_id ` set ps) (rs_queue (side ?w)) (rs_queue (side (notifier_tick (ordering_notifier uni sc mc link cfg) ps ?w)))"
    "\<forall>oid. order_ready uni sc (wd_log ?w) oid \<longrightarrow>
      order_ready uni sc (wd_log (notifier_tick (ordering_notifier uni sc mc link cfg) ps ?w)) oid"
    by (auto simp: Let_def)
  with s mark_rows_trans[OF s(3) this(3)] show ?case by (auto simp: Let_def)
qed (simp add: mark_rows_refl)

lemma calm_pending:
  assumes "calm_world w" "\<forall>r\<in>set (rs_queue (side w)). row_ready uni sc mc (wd_log w) r"
  shows "\<exists>ps. pg_pending mc nw_pool w limit = (next_world w, Inr ps) \<and> map pn_id ps = map nr_id (pending_sql limit (side w)) \<and>
    (\<forall>p\<in>set ps. order_ready uni sc (wd_log w) (pn_order_id p) \<and> pn_reason p \<noteq> [])"
proof -
  have scan: "\<exists>ps. scan_pending mc out rs = Inr (out @ ps) \<and> map pn_id ps = map nr_id rs \<and>
      (\<forall>p\<in>set ps. order_ready uni sc (wd_log w) (pn_order_id p) \<and> pn_reason p \<noteq> [])"
    if "\<forall>r\<in>set rs. row_ready uni sc mc (wd_log w) r" for out rs
    using that
  proof (induction rs arbitrary: out)
    case (Cons r rs)
    then obtain md where md: "mc_dec mc (nr_meta r) = Inr md" by (auto simp: row_ready_def)
    let ?p = "\<lparr>pn_id = nr_id r, pn_order_id = nr_order_id r, pn_reason = nr_reason r, pn_meta = md\<rparr>"
    obtain ps where "scan_pending mc (out @ [?p]) rs = Inr ((out @ [?p]) @ ps)" "map pn_id ps = map nr_id rs"
      "\<forall>p\<in>set ps. order_ready uni sc (wd_log w) (pn_order_id p) \<and> pn_reason p \<noteq> []"
      using Cons.IH[of "out @ [?p]"] Cons.prems by auto
    with md Cons.prems show ?case by (intro exI[of _ "?p # ps"]) (simp add: row_ready_def)
  qed simp
  have "set (pending_sql limit (side w)) \<subseteq> set (rs_queue (side w))"
    by (auto simp: pending_sql_def dest: in_set_takeD)
  with assms(2) have "\<forall>r\<in>set (pending_sql limit (side w)). row_ready uni sc mc (wd_log w) r" by blast
  from scan[OF this, of "[]"] obtain ps where ps: "scan_pending mc [] (pending_sql limit (side w)) = Inr ps"
    "map pn_id ps = map nr_id (pending_sql limit (side w))"
    "\<forall>p\<in>set ps. order_ready uni sc (wd_log w) (pn_order_id p) \<and> pn_reason p \<noteq> []" by auto
  have "others_enqueue w = w" using assms(1) by (simp add: calm_world_def others_enqueue_def)
  moreover have "side (next_world w) = side w" using calm_tick[OF assms(1)] by (simp add: side_def)
  ultimately show ?thesis
    using ps calm_tick[OF assms(1)] by (simp add: pg_pending_def nw_pool_def faulty_def)
qed

text \<open>A batch takes as many rows off the list as it claims.\<close>

lemma claimed_off_list:
  assumes "queue_ok v" "map pn_id ps = map nr_id (pending_sql limit v)" "mark_rows (pn_id ` set ps) (rs_queue v) rs'"
  shows "length (filter (\<lambda>r. nr_sent_at r = None) rs') + length ps = length (unsent v) \<and> length ps = min (nat limit) (length (unsent v))"
proof -
  let ?ids = "map nr_id (unsent v)"
  have d: "distinct ?ids" using assms(1) by (auto simp: queue_ok_def unsent_def distinct_map intro: inj_on_subset)
  have p: "map pn_id ps = take (nat limit) (map nr_id (sort_key nr_id (unsent v)))"
    using assms(2) by (simp add: pending_sql_def unsent_def take_map)
  have ds: "distinct (map nr_id (sort_key nr_id (unsent v)))" using d by (simp add: distinct_map)
  have sub: "pn_id ` set ps \<subseteq> set ?ids"
    using arg_cong[OF p, of set] set_take_subset[of "nat limit" "map nr_id (sort_key nr_id (unsent v))"] by auto
  have c: "card (pn_id ` set ps) = length ps"
    using distinct_card[of "map pn_id ps"] distinct_take[OF ds, of "nat limit"] unfolding p[symmetric] by simp
  have "length (filter (\<lambda>i. i \<notin> pn_id ` set ps) ?ids) = card (set ?ids - pn_id ` set ps)"
    using distinct_card[OF distinct_filter[OF d]] by (simp add: set_diff_eq)
  also have "\<dots> = length (unsent v) - length ps"
    using card_Diff_subset[OF _ sub] c distinct_card[OF d] by simp
  finally have "length (filter (\<lambda>r. nr_sent_at r = None) rs') = length (unsent v) - length ps"
    using arg_cong[OF mark_rows_unsent[OF assms(3)], of length] by (simp add: unsent_def)
  moreover have l: "length ps = min (nat limit) (length (unsent v))" using arg_cong[OF p, of length] by simp
  ultimately show ?thesis by simp
qed

lemma calm_sleep:
  assumes "calm_world w"
  shows "ctx_sleep wd_ctx w = (next_world w, wd_sched (next_world w) \<noteq> [])"
  by (simp add: wd_ctx_def next_world_def Let_def)

lemma next_frame:
  assumes "calm_world w" "notified_inv uni sc ps w"
  shows "calm_world (next_world w) \<and> notified_inv uni sc ps (next_world w) \<and> wd_log (next_world w) = wd_log w \<and>
    side (next_world w) = side w \<and> wd_budget (next_world w) = wd_budget w - 1"
proof -
  note t = calm_tick[OF assms(1)]
  then have n: "wd_log (next_world w) = wd_log w" "wd_inv (next_world w)" "wd_view (next_world w) = wd_view w"
    using assms(2) by (simp_all add: wd_log_def wd_inv_def notified_inv_def)
  then have "notified_inv uni sc ps (next_world w)" by (intro notified_inv_frame[OF assms(2)]) simp_all
  with t n show ?thesis by (simp add: side_def)
qed

lemma calm_round:
  assumes "uni_ok uni" "saga_codec_ok sc" "calm_world w" "notified_inv uni sc [] w" "1 \<le> limit"
    and "\<forall>r\<in>set (rs_queue (side w)). row_ready uni sc mc (wd_log w) r"
    and "unsent (side w) = [] \<or> 5 * length (unsent (side w)) < wd_budget w" "0 < wd_budget w"
  shows "\<exists>w2 ps. pg_pending mc nw_pool w limit = (w2, Inr ps) \<and>
    (let w' = next_world (notifier_tick (ordering_notifier uni sc mc link cfg) ps w2) in
      calm_world w' \<and> notified_inv uni sc [] w' \<and> (\<forall>r\<in>set (rs_queue (side w')). row_ready uni sc mc (wd_log w') r) \<and>
      (unsent (side w') = [] \<or> 5 * length (unsent (side w')) < wd_budget w') \<and> wd_budget w' < wd_budget w \<and>
      map nr_id (rs_queue (side w')) = map nr_id (rs_queue (side w)))"
proof -
  obtain ps where ps: "pg_pending mc nw_pool w limit = (next_world w, Inr ps)"
    "map pn_id ps = map nr_id (pending_sql limit (side w))"
    "\<forall>p\<in>set ps. order_ready uni sc (wd_log w) (pn_order_id p) \<and> pn_reason p \<noteq> []"
    using calm_pending[OF assms(3,6)] by blast
  note f = next_frame[OF assms(3,4)]
  have i: "notified_inv uni sc ps (next_world w)" using pending_inv[OF assms(4) ps(1)] by simp
  let ?w3 = "notifier_tick (ordering_notifier uni sc mc link cfg) ps (next_world w)"
  have r: "\<forall>p\<in>set ps. order_ready uni sc (wd_log (next_world w)) (pn_order_id p) \<and> pn_reason p \<noteq> []" using ps(3) f by simp
  have t: "calm_world ?w3" "wd_budget (next_world w) \<le> wd_budget ?w3 + 3 * length ps"
    "mark_rows (pn_id ` set ps) (rs_queue (side w)) (rs_queue (side ?w3))"
    "\<forall>oid. order_ready uni sc (wd_log w) oid \<longrightarrow> order_ready uni sc (wd_log ?w3) oid"
    using calm_ticks[OF assms(1,2) i _ r, of mc link cfg] f by (simp_all add: Let_def)
  note n = tick_inv[OF assms(1,2) i, of mc link cfg]
  then have i3: "notified_inv uni sc [] ?w3" by blast
  note g = next_frame[OF t(1) i3]
  have q: "queue_ok (side w)" using assms(4) by (simp add: notified_inv_def)
  note c = claimed_off_list[OF q ps(2) t(3), folded unsent_def]
  have ready: "\<forall>r\<in>set (rs_queue (side ?w3)). row_ready uni sc mc (wd_log ?w3) r"
    using mark_rows_ready[OF t(3) assms(6)] t(4) by (auto simp: row_ready_def)
  have "unsent (side ?w3) = [] \<or> 5 * length (unsent (side ?w3)) < wd_budget ?w3 - 1"
  proof (cases "unsent (side w) = []")
    case True
    with c have "unsent (side ?w3) = []" by auto
    then show ?thesis ..
  next
    case False
    then have "1 \<le> length ps" using c assms(5) by (cases "unsent (side w)") auto
    moreover have "wd_budget w \<le> wd_budget ?w3 + 3 * length ps + 1" using t(2) f by linarith
    moreover have "5 * length (unsent (side w)) < wd_budget w" using assms(7) False by simp
    ultimately have "5 * length (unsent (side ?w3)) < wd_budget ?w3 - 1" using conjunct1[OF c] by linarith
    then show ?thesis ..
  qed
  then show ?thesis
    using ps(1) g i3 ready n f assms(8) mark_rows_ids[OF t(3)] by (intro exI[of _ "next_world w"] exI[of _ ps]) (auto simp: Let_def)
qed

lemma calm_run:
  assumes "uni_ok uni" "saga_codec_ok sc" "calm_world w" "notified_inv uni sc [] w"
    and "\<forall>r\<in>set (rs_queue (side w)). row_ready uni sc mc (wd_log w) r"
    and "unsent (side w) = [] \<or> 5 * length (unsent (side w)) < wd_budget w" "wd_budget w < n"
  shows "\<exists>w'. notifier_run n (ordering_notifier uni sc mc link cfg) w = Some w' \<and> unsent (side w') = [] \<and>
    map nr_id (rs_queue (side w')) = map nr_id (rs_queue (side w)) \<and> notified_inv uni sc [] w'"
  using assms(3-)
proof (induction n arbitrary: w)
  case (Suc n)
  let ?n = "ordering_notifier uni sc mc link cfg"
  let ?limit = "nc_batch_size (nf_cfg ?n)"
  have fld: "nf_ctx ?n = wd_ctx" "nf_queue ?n = pg_notification_queue mc nw_pool" "1 \<le> ?limit"
    by (simp_all add: ordering_notifier_def new_notifier_def notifier_defaults_def)
  have err: "ctx_err wd_ctx v = (v, wd_budget v = 0)" for v :: notifier_world by (simp add: wd_ctx_def wd_budget_def)
  show ?case
  proof (cases "wd_budget w = 0")
    case True
    with Suc.prems(2,4) show ?thesis by (simp add: fld(1,2) err)
  next
    case False
    then obtain w2 ps where r: "pg_pending mc nw_pool w ?limit = (w2, Inr ps)"
      "calm_world (next_world (notifier_tick ?n ps w2))" "notified_inv uni sc [] (next_world (notifier_tick ?n ps w2))"
      "\<forall>r\<in>set (rs_queue (side (next_world (notifier_tick ?n ps w2)))). row_ready uni sc mc (wd_log (next_world (notifier_tick ?n ps w2))) r"
      "unsent (side (next_world (notifier_tick ?n ps w2))) = [] \<or>
        5 * length (unsent (side (next_world (notifier_tick ?n ps w2)))) < wd_budget (next_world (notifier_tick ?n ps w2))"
      "wd_budget (next_world (notifier_tick ?n ps w2)) < wd_budget w"
      "map nr_id (rs_queue (side (next_world (notifier_tick ?n ps w2)))) = map nr_id (rs_queue (side w))"
      using calm_round[OF assms(1,2) Suc.prems(1,2) fld(3) Suc.prems(3,4), of link cfg] by (auto simp: Let_def)
    let ?w = "next_world (notifier_tick ?n ps w2)"
    have s: "ctx_sleep wd_ctx (notifier_tick ?n ps w2) = (?w, wd_budget ?w \<noteq> 0)"
      by (simp add: wd_ctx_def next_world_def Let_def wd_budget_def)
    have run: "notifier_run (Suc n) ?n w = (if wd_budget ?w = 0 then Some ?w else notifier_run n ?n ?w)"
      using r(1) s False by (simp add: fld(1,2) err pg_notification_queue_def)
    show ?thesis
    proof (cases "wd_budget ?w = 0")
      case True
      with run r show ?thesis by auto
    next
      case False
      with run Suc.IH[OF r(2-5)] r(6,7) Suc.prems(5) show ?thesis by auto
    qed
  qed
qed simp

section \<open>The properties\<close>

text \<open>
  C28. The notifier retires only what was told: against any schedule of failing calls and
  statements, of orders changing under it and of rows the projection queues meanwhile, the worker
  runs until its context ends, and every row that is retired then names an order whose stream
  holds the customer notification with the row's reason.
\<close>

theorem notifier_retires_only_told:
  assumes "uni_ok uni" "saga_codec_ok sc" "wd_inv w" "queue_ok (side w)" "env_ok w"
    and "\<forall>r\<in>set (rs_queue (side w)). nr_sent_at r \<noteq> None \<longrightarrow>
      recorded_notice uni (ordering_registry uni sc) (wd_log w) (nr_order_id r) (nr_reason r)"
    and "wd_budget w < n"
  shows "\<exists>w'. notifier_run n (ordering_notifier uni sc mc link cfg) w = Some w' \<and>
    (\<forall>r\<in>set (rs_queue (side w')). nr_sent_at r \<noteq> None \<longrightarrow>
      recorded_notice uni (ordering_registry uni sc) (wd_log w') (nr_order_id r) (nr_reason r))"
  using run_inv[OF assms(1,2) _ assms(7), of mc link cfg] assms(3-6) by (auto simp: notified_inv_def)

text \<open>
  C27. The worklist is drained: once calls stop failing for long enough, a worklist whose rows name
  placed orders is worked off, whatever the batch size: every row is still there, is retired, and
  its order's stream holds the notification.
\<close>

theorem notifier_drains_worklist:
  assumes "uni_ok uni" "saga_codec_ok sc" "wd_inv w" "queue_ok (side w)" "calm_world w"
    and "\<forall>r\<in>set (rs_queue (side w)). row_ready uni sc mc (wd_log w) r \<and> nr_sent_at r = None"
    and "5 * length (rs_queue (side w)) < wd_budget w" "wd_budget w < n"
  shows "\<exists>w'. notifier_run n (ordering_notifier uni sc mc link cfg) w = Some w' \<and>
    map nr_id (rs_queue (side w')) = map nr_id (rs_queue (side w)) \<and>
    (\<forall>r\<in>set (rs_queue (side w')). nr_sent_at r \<noteq> None \<and>
      recorded_notice uni (ordering_registry uni sc) (wd_log w') (nr_order_id r) (nr_reason r))"
proof -
  have i: "notified_inv uni sc [] w" using assms(3-6) by (auto simp: notified_inv_def env_ok_def calm_world_def)
  have u: "unsent (side w) = [] \<or> 5 * length (unsent (side w)) < wd_budget w"
    using assms(7) length_filter_le[of "\<lambda>r. nr_sent_at r = None" "rs_queue (side w)"] unfolding unsent_def by linarith
  have "\<forall>r\<in>set (rs_queue (side w)). row_ready uni sc mc (wd_log w) r" using assms(6) by blast
  from calm_run[OF assms(1,2,5) i this u assms(8), of link cfg] obtain w' where
    "notifier_run n (ordering_notifier uni sc mc link cfg) w = Some w'" "unsent (side w') = []"
    "map nr_id (rs_queue (side w')) = map nr_id (rs_queue (side w))" "notified_inv uni sc [] w'" by blast
  then show ?thesis by (auto simp: notified_inv_def unsent_def filter_empty_conv)
qed

text \<open>Witnesses: one row for a placed order, its notification still to be recorded.\<close>

definition demo_row :: notification_row where
  "demo_row = \<lparr>nr_id = 1, nr_order_id = demo_order_id, nr_reason = ReasonShipped, nr_meta = JNull, nr_sent_at = None\<rparr>"

definition demo_worklist :: "json mem_store \<Rightarrow> json happening list \<Rightarrow> notifier_world" where
  "demo_worklist s sched = (new_world \<lparr>se_side = \<lparr>rs_rows = Map.empty, rs_queue = [demo_row], rs_next = 2\<rparr>, se_others = []\<rparr>
     sched)\<lparr>wd_store := s\<rparr>"

lemma demo_worklist_ok:
  "mem_inv s \<Longrightarrow> wd_inv (demo_worklist s sched) \<and> queue_ok (side (demo_worklist s sched)) \<and> env_ok (demo_worklist s sched) \<and>
    wd_log (demo_worklist s sched) = ms_all s \<and> wd_budget (demo_worklist s sched) = length sched \<and>
    rs_queue (side (demo_worklist s sched)) = [demo_row]"
  by (simp add: demo_worklist_def wd_inv_def new_world_def queue_ok_def side_def env_ok_def wd_log_def wd_budget_def demo_row_def
      ReasonShipped_def utf8_valid_ascii is_ascii_def)

lemma demo_codec_ok: "saga_codec_ok demo_codec"
  by (simp add: saga_codec_ok_def demo_codec_def)

theorem notifier_retires_only_told_witness:
  "\<exists>w'. notifier_run 2 (ordering_notifier demo_uni demo_codec \<lparr>mc_enc = \<lambda>md. Inr JNull, mc_dec = \<lambda>j. Inr fmempty\<rparr> id
       \<lparr>nc_interval = 0, nc_batch_size = 0\<rparr>)
     (demo_worklist new_mem_store [\<lparr>hp_now = 3, hp_appends = [], hp_fault = Some (''down'', 0)\<rparr>]) = Some w' \<and>
   (\<forall>r\<in>set (rs_queue (side w')). nr_sent_at r \<noteq> None \<longrightarrow>
      recorded_notice demo_uni (ordering_registry demo_uni demo_codec) (wd_log w') (nr_order_id r) (nr_reason r))"
  by (rule notifier_retires_only_told)
    (use demo_uni_ok demo_codec_ok demo_worklist_ok[OF mem_inv_new] in \<open>auto simp: demo_row_def\<close>)

theorem notifier_drains_worklist_witness:
  "\<exists>s w'. notifier_run 7 (ordering_notifier demo_uni demo_codec \<lparr>mc_enc = \<lambda>md. Inr JNull, mc_dec = \<lambda>j. Inr fmempty\<rparr> id
       \<lparr>nc_interval = 0, nc_batch_size = 0\<rparr>)
     (demo_worklist s (replicate 6 \<lparr>hp_now = 3, hp_appends = [], hp_fault = None\<rparr>)) = Some w' \<and>
   map nr_id (rs_queue (side w')) = [1] \<and>
   (\<forall>r\<in>set (rs_queue (side w')). nr_sent_at r \<noteq> None \<and>
      recorded_notice demo_uni (ordering_registry demo_uni demo_codec) (wd_log w') (nr_order_id r) (nr_reason r))"
proof -
  let ?mc = "\<lparr>mc_enc = \<lambda>md. Inr JNull, mc_dec = \<lambda>j. Inr fmempty\<rparr> :: md_codec"
  obtain s where s: "mem_inv s" "decode_all (ordering_registry demo_uni demo_codec)
      (stream_recs (ms_all s) \<lparr>si_category = ''order'', si_id = demo_order_id\<rparr>) = Inr [own_event (OrderPlaced demo_placed)]"
    using demo_order_stored by blast
  let ?w = "demo_worklist s (replicate 6 \<lparr>hp_now = 3, hp_appends = [], hp_fault = None\<rparr>)"
  note w = demo_worklist_ok[OF s(1), of "replicate 6 \<lparr>hp_now = 3, hp_appends = [], hp_fault = None\<rparr>"]
  have "order_history demo_order_id [own_event (OrderPlaced demo_placed)]"
    using demo_placed_valid by (auto simp: order_history_def demo_placed_def)
  then have ready: "order_ready demo_uni demo_codec (ms_all s) demo_order_id"
    using s(2) parse_id_canonical[OF demo_order_id_canonical, of demo_uni] by (auto simp: order_ready_def)
  have row: "row_ready demo_uni demo_codec ?mc (ms_all s) demo_row"
    using ready by (simp add: row_ready_def demo_row_def ReasonShipped_def utf8_valid_ascii is_ascii_def)
  have c: "calm_world ?w" by (simp add: calm_world_def demo_worklist_def new_world_def)
  have l: "5 * length (rs_queue (side ?w)) < wd_budget ?w" "wd_budget ?w < 7" using w by simp_all
  have r: "\<forall>r\<in>set (rs_queue (side ?w)). row_ready demo_uni demo_codec ?mc (wd_log ?w) r \<and> nr_sent_at r = None"
    using w row by (simp add: demo_row_def)
  have "map nr_id (rs_queue (side ?w)) = [1]" using w by (simp add: demo_row_def)
  with notifier_drains_worklist[OF demo_uni_ok demo_codec_ok _ _ c r l, of id "\<lparr>nc_interval = 0, nc_batch_size = 0\<rparr>"] w
  show ?thesis by (intro exI[of _ s]) simp
qed

end
