(* ===== verification/SagaRun.thy ===== *)
theory SagaRun
  imports Saga
begin

text \<open>
  Running a saga (\<open>saga/runner.go\<close>, \<open>Run\<close>): one goroutine per topic subscribes with the saga's
  handler, the first that fails cancels the context the others run under, and the error that was
  sent first is returned. The goroutines run here one turn at a time under an arbitrary schedule. A
  subscriber is the port \<open>broker/broker.go\<close> describes, as calls in progress; the in-memory broker's
  calls (\<open>broker/memory.go\<close>) are given at the granularity of its critical sections.
\<close>

section \<open>Subscriptions in progress\<close>

text \<open>
  \<open>sb_step c l w\<close> is one turn of the call \<open>l\<close> in the world \<open>w\<close>, \<open>c\<close> telling whether its context is
  done: the call goes on or returns.
\<close>

record ('w, 'p, 'l) subscriber =
  sb_call :: "string \<Rightarrow> string \<Rightarrow> ('w, 'p) msg_handler \<Rightarrow> 'l"
  sb_step :: "bool \<Rightarrow> 'l \<Rightarrow> 'w \<Rightarrow> 'w \<times> ('l + gerr option)"

section \<open>Run\<close>

text \<open>
  A goroutine subscribes; one whose call failed sends the wrapped error, then cancels. The channel
  has room for one error of each goroutine, so no send blocks.
\<close>

datatype 'l saga_call = Subscribing 'l | Sending gerr | Cancelling | Finished

record ('w, 'l) saga_group =
  sg_world :: 'w
  sg_cancelled :: bool
  sg_calls :: "(string \<times> 'l saga_call) list"
  sg_errc :: "gerr list"

definition saga_start ::
  "('w, 's, 'p, 'x) runner \<Rightarrow> metadata \<Rightarrow> ('w, 'p, 'l) subscriber \<Rightarrow> string \<Rightarrow> string list \<Rightarrow> 'w \<Rightarrow> ('w, 'l) saga_group" where
  "saga_start rn amb sub grp topics w = \<lparr>sg_world = w, sg_cancelled = False,
     sg_calls = map (\<lambda>topic. (topic, Subscribing (sb_call sub topic grp (saga_handler rn amb)))) topics, sg_errc = []\<rparr>"

definition saga_go ::
  "('w, 's, 'p, 'x) runner \<Rightarrow> ('w, 'p, 'l) subscriber \<Rightarrow> nat \<Rightarrow> ('w, 'l) saga_group \<Rightarrow> ('w, 'l) saga_group" where
  "saga_go rn sub i g =
     (if length (sg_calls g) \<le> i then g
      else case sg_calls g ! i of
        (topic, Subscribing l) \<Rightarrow>
          (case sb_step sub (sg_cancelled g) l (sg_world g) of
             (w, Inl l') \<Rightarrow> g\<lparr>sg_world := w, sg_calls := (sg_calls g)[i := (topic, Subscribing l')]\<rparr>
           | (w, Inr None) \<Rightarrow> g\<lparr>sg_world := w, sg_calls := (sg_calls g)[i := (topic, Finished)]\<rparr>
           | (w, Inr (Some err)) \<Rightarrow> g\<lparr>sg_world := w, sg_calls := (sg_calls g)[i := (topic, Sending err)]\<rparr>)
      | (topic, Sending err) \<Rightarrow>
          g\<lparr>sg_errc := sg_errc g @ [Wrapf ''saga %s: topic %s: %w'' [FStr (sd_name (rn_def rn)), FStr topic] err],
            sg_calls := (sg_calls g)[i := (topic, Cancelling)]\<rparr>
      | (topic, Cancelling) \<Rightarrow> g\<lparr>sg_cancelled := True, sg_calls := (sg_calls g)[i := (topic, Finished)]\<rparr>
      | (topic, Finished) \<Rightarrow> g)"

text \<open>A schedule says whose turn it is, and when the caller's context ends.\<close>

datatype saga_turn = Turn nat | Interrupt

fun saga_exec ::
  "('w, 's, 'p, 'x) runner \<Rightarrow> ('w, 'p, 'l) subscriber \<Rightarrow> saga_turn list \<Rightarrow> ('w, 'l) saga_group \<Rightarrow> ('w, 'l) saga_group" where
  "saga_exec rn sub [] g = g"
| "saga_exec rn sub (Turn i # ts) g = saga_exec rn sub ts (saga_go rn sub i g)"
| "saga_exec rn sub (Interrupt # ts) g = saga_exec rn sub ts (g\<lparr>sg_cancelled := True\<rparr>)"

text \<open>\<open>None\<close>: when the schedule ends the run is still waiting for a goroutine.\<close>

definition saga_run ::
  "('w, 's, 'p, 'x) runner \<Rightarrow> metadata \<Rightarrow> ('w, 'p, 'l) subscriber \<Rightarrow> string \<Rightarrow> string list \<Rightarrow> saga_turn list \<Rightarrow> 'w
   \<Rightarrow> ('w \<times> gerr option) option" where
  "saga_run rn amb sub grp topics ts w =
     (if topics = [] then Some (w, Some (Errorf ''saga %s: no topics to consume'' [FStr (sd_name (rn_def rn))]))
      else let g = saga_exec rn sub ts (saga_start rn amb sub grp topics w) in
        if \<forall>c\<in>set (sg_calls g). snd c = Finished
        then Some (sg_world g, case sg_errc g of [] \<Rightarrow> None | err # _ \<Rightarrow> Some err)
        else None)"

section \<open>The calls of the in-memory broker\<close>

text \<open>One constructor per place the loop of \<open>Subscribe\<close> can be at.\<close>

datatype 'p mb_at = Entering | Polling | Handling nat "'p message" | Idling | Committing nat | Leaving

record ('w, 'p) mb_call =
  mk_topic :: string
  mk_group :: string
  mk_handler :: "('w, 'p) msg_handler"
  mk_at :: "'p mb_at"

definition mb_step ::
  "('w, 'p) broker_at \<Rightarrow> bool \<Rightarrow> ('w, 'p) mb_call \<Rightarrow> 'w \<Rightarrow> 'w \<times> (('w, 'p) mb_call + gerr option)" where
  "mb_step ba finished l w =
     (let goto = (\<lambda>a. Inl (l\<lparr>mk_at := a\<rparr>)) in
      case mk_at l of
        Entering \<Rightarrow>
          (case mb_enter (ba_get ba w) (mk_topic l) (mk_group l) of
             Inl err \<Rightarrow> (w, Inr (Some err))
           | Inr b \<Rightarrow> (ba_put ba b w, goto Polling))
      | Polling \<Rightarrow>
          (if finished then (w, goto Leaving)
           else case mb_next (ba_get ba w) (mk_topic l) (mk_group l) of
             (offset, None) \<Rightarrow> (w, goto Idling)
           | (offset, Some msg) \<Rightarrow> (w, goto (Handling offset msg)))
      | Handling offset msg \<Rightarrow>
          (case mk_handler l w msg of
             (w1, Some err) \<Rightarrow> (w1, goto Idling)
           | (w1, None) \<Rightarrow> (w1, goto (Committing offset)))
      | Idling \<Rightarrow> (w, goto (if finished then Leaving else Polling))
      | Committing offset \<Rightarrow>
          (ba_put ba (mb_commit (ba_get ba w) (mk_topic l) (mk_group l) offset) w, goto Polling)
      | Leaving \<Rightarrow> (ba_put ba (mb_leave (ba_get ba w) (mk_topic l) (mk_group l)) w, Inr None))"

definition mb_subscriber :: "('w, 'p) broker_at \<Rightarrow> ('w, 'p, ('w, 'p) mb_call) subscriber" where
  "mb_subscriber ba = \<lparr>sb_call = (\<lambda>topic grp h. \<lparr>mk_topic = topic, mk_group = grp, mk_handler = h, mk_at = Entering\<rparr>),
     sb_step = mb_step ba\<rparr>"

section \<open>Every run ends\<close>

text \<open>
  The port's promise that a call returns once its context is done, as a bound on the turns it still
  takes then.
\<close>

definition stops_within :: "nat \<Rightarrow> ('l \<Rightarrow> nat) \<Rightarrow> ('w, 'p, 'l) subscriber \<Rightarrow> bool" where
  "stops_within k m sub \<longleftrightarrow> (\<forall>l. m l \<le> k) \<and> (\<forall>l w w' l'. sb_step sub True l w = (w', Inl l') \<longrightarrow> m l' < m l)"

fun mb_turns :: "'p mb_at \<Rightarrow> nat" where
  "mb_turns Entering = 2"
| "mb_turns Polling = 1"
| "mb_turns (Handling offset msg) = 3"
| "mb_turns Idling = 1"
| "mb_turns (Committing offset) = 2"
| "mb_turns Leaving = 0"

lemma mb_subscriber_stops: "stops_within 3 (\<lambda>l. mb_turns (mk_at l)) (mb_subscriber ba)"
  unfolding stops_within_def
proof (intro conjI allI impI)
  fix l show "mb_turns (mk_at l) \<le> 3" by (cases "mk_at l") simp_all
next
  fix l l' w w' assume "sb_step (mb_subscriber ba) True l w = (w', Inl l')"
  then show "mb_turns (mk_at l') < mb_turns (mk_at l)"
    by (auto simp: mb_subscriber_def mb_step_def Let_def split: mb_at.splits sum.splits prod.splits option.splits)
qed

text \<open>The turns a goroutine still needs under a cancelled context.\<close>

fun turns_left :: "('l \<Rightarrow> nat) \<Rightarrow> 'l saga_call \<Rightarrow> nat" where
  "turns_left m (Subscribing l) = m l + 3"
| "turns_left m (Sending err) = 2"
| "turns_left m Cancelling = 1"
| "turns_left m Finished = 0"

lemma turns_left_0 [simp]: "turns_left m c = 0 \<longleftrightarrow> c = Finished"
  by (cases c) simp_all

lemma turns_left_bound: "stops_within k m sub \<Longrightarrow> turns_left m c \<le> k + 3"
  by (cases c) (auto simp: stops_within_def)

lemma saga_go_calls:
  "map fst (sg_calls (saga_go rn sub i g)) = map fst (sg_calls g)"
  "length (sg_calls (saga_go rn sub i g)) = length (sg_calls g)"
  "sg_cancelled g \<Longrightarrow> sg_cancelled (saga_go rn sub i g)"
  "j \<noteq> i \<Longrightarrow> sg_calls (saga_go rn sub i g) ! j = sg_calls g ! j"
proof -
  have upd: "i < length xs \<Longrightarrow> xs ! i = (t, c) \<Longrightarrow> (map fst xs)[i := t] = map fst xs" for xs :: "(string \<times> 'a saga_call) list" and t c
    by (metis fst_conv length_map list_update_id nth_map)
  show "map fst (sg_calls (saga_go rn sub i g)) = map fst (sg_calls g)"
    using upd[of "sg_calls g"]
    by (auto simp: saga_go_def map_update split: prod.splits saga_call.splits sum.splits option.splits)
qed (auto simp: saga_go_def split: prod.splits saga_call.splits sum.splits option.splits)

lemma saga_go_turn:
  assumes "stops_within k m sub" "sg_cancelled g" "i < length (sg_calls g)"
  shows "turns_left m (snd (sg_calls (saga_go rn sub i g) ! i)) \<le> turns_left m (snd (sg_calls g ! i)) - 1"
proof -
  obtain topic c where c: "sg_calls g ! i = (topic, c)" by force
  show ?thesis
  proof (cases c)
    case (Subscribing l)
    obtain w r where s: "sb_step sub True l (sg_world g) = (w, r)" by force
    have "m l' < m l" if "r = Inl l'" for l' using assms(1) s that unfolding stops_within_def by blast
    with c Subscribing s assms(2,3) show ?thesis
      by (fastforce simp: saga_go_def split: sum.splits option.splits)
  qed (use c assms(2,3) in \<open>simp_all add: saga_go_def\<close>)
qed

lemma saga_exec_calls:
  "map fst (sg_calls (saga_exec rn sub ts g)) = map fst (sg_calls g)"
  "length (sg_calls (saga_exec rn sub ts g)) = length (sg_calls g)"
  by (induction rn sub ts g rule: saga_exec.induct) (simp_all add: saga_go_calls)

lemma saga_exec_append: "saga_exec rn sub (ts @ us) g = saga_exec rn sub us (saga_exec rn sub ts g)"
  by (induction rn sub ts g rule: saga_exec.induct) simp_all

lemma saga_exec_turns:
  assumes "stops_within k m sub" "sg_cancelled g" "i < length (sg_calls g)"
  shows "turns_left m (snd (sg_calls (saga_exec rn sub ts g) ! i)) \<le>
    turns_left m (snd (sg_calls g ! i)) - count_list ts (Turn i)"
  using assms(2,3)
proof (induction ts arbitrary: g)
  case (Cons t ts)
  show ?case
  proof (cases t)
    case (Turn j)
    let ?g = "saga_go rn sub j g"
    have IH: "turns_left m (snd (sg_calls (saga_exec rn sub ts ?g) ! i)) \<le>
        turns_left m (snd (sg_calls ?g ! i)) - count_list ts (Turn i)"
      by (rule Cons.IH) (use Cons.prems in \<open>simp_all add: saga_go_calls\<close>)
    have "turns_left m (snd (sg_calls ?g ! i)) \<le> turns_left m (snd (sg_calls g ! i)) - (if j = i then 1 else 0)"
      using saga_go_turn[OF assms(1) Cons.prems, of rn] saga_go_calls(4)[of i j rn sub g] by (cases "j = i") auto
    with IH have "turns_left m (snd (sg_calls (saga_exec rn sub ts ?g) ! i)) \<le>
        turns_left m (snd (sg_calls g ! i)) - (if j = i then 1 else 0) - count_list ts (Turn i)" by linarith
    then show ?thesis using Turn by (cases "j = i") simp_all
  next
    case Interrupt
    with Cons.IH[of "g\<lparr>sg_cancelled := True\<rparr>"] Cons.prems show ?thesis by simp
  qed
qed simp

lemma saga_exec_cancelled: "sg_cancelled g \<Longrightarrow> sg_cancelled (saga_exec rn sub ts g)"
  by (induction rn sub ts g rule: saga_exec.induct) (simp_all add: saga_go_calls(3))

lemma saga_exec_errc: "prefix (sg_errc g) (sg_errc (saga_exec rn sub ts g))"
proof (induction rn sub ts g rule: saga_exec.induct)
  case (2 rn sub i ts g)
  have "prefix (sg_errc g) (sg_errc (saga_go rn sub i g))"
    by (auto simp: saga_go_def split: prod.splits saga_call.splits sum.splits option.splits)
  with 2 show ?case using prefix_order.trans by auto
qed simp_all

text \<open>What was sent is a wrapped error of one of the topics; only a sender cancels.\<close>

definition sent_ok :: "('w, 's, 'p, 'x) runner \<Rightarrow> bool \<Rightarrow> string list \<Rightarrow> ('w, 'l) saga_group \<Rightarrow> bool" where
  "sent_ok rn interrupted topics g \<longleftrightarrow> map fst (sg_calls g) = topics \<and>
     (\<forall>err\<in>set (sg_errc g). \<exists>topic\<in>set topics. \<exists>e. err = Wrapf ''saga %s: topic %s: %w'' [FStr (sd_name (rn_def rn)), FStr topic] e) \<and>
     (sg_cancelled g \<or> (\<exists>c\<in>set (sg_calls g). snd c = Cancelling) \<longrightarrow> interrupted \<or> sg_errc g \<noteq> [])"

lemma saga_go_sent:
  assumes "sent_ok rn b topics g" shows "sent_ok rn b topics (saga_go rn sub i g)"
proof (cases "i < length (sg_calls g)")
  case True
  obtain topic c where c: "sg_calls g ! i = (topic, c)" by force
  have t: "topic \<in> set topics"
    using assms True c nth_mem[of i "sg_calls g"] unfolding sent_ok_def by (metis fst_conv image_eqI list.set_map)
  have f: "map fst (sg_calls (saga_go rn sub i g)) = topics" using assms by (simp add: saga_go_calls sent_ok_def)
  have upd: "(\<exists>c'\<in>set ((sg_calls g)[i := (topic, d)]). snd c' = Cancelling) \<Longrightarrow> d \<noteq> Cancelling \<Longrightarrow>
      (\<exists>c'\<in>set (sg_calls g). snd c' = Cancelling)" for d
    using set_update_subset_insert[of "sg_calls g" i "(topic, d)"] by fastforce
  have mem: "(topic, c) \<in> set (sg_calls g)" using True c nth_mem by metis
  have "c = Cancelling \<Longrightarrow> b \<or> sg_errc g \<noteq> []" using assms mem unfolding sent_ok_def by (metis snd_conv)
  with assms f t upd mem show ?thesis
    by (cases c) (auto simp: sent_ok_def saga_go_def True c split: prod.splits sum.splits option.splits)
qed (use assms in \<open>simp add: saga_go_def\<close>)

lemma saga_exec_sent:
  "sent_ok rn (b \<or> Interrupt \<in> set ts) topics g \<Longrightarrow> sent_ok rn (b \<or> Interrupt \<in> set ts) topics (saga_exec rn sub ts g)"
proof (induction ts arbitrary: g b)
  case (Cons t ts)
  show ?case
  proof (cases t)
    case (Turn i)
    with saga_go_sent[OF Cons.prems] Cons.IH[of b "saga_go rn sub i g"] show ?thesis by simp
  next
    case Interrupt
    then have "sent_ok rn (True \<or> Interrupt \<in> set ts) topics (g\<lparr>sg_cancelled := True\<rparr>)" using Cons.prems by (simp add: sent_ok_def)
    from Cons.IH[OF this] Interrupt show ?thesis by simp
  qed
qed simp

text \<open>A subscriber whose calls never fail leaves nothing to send.\<close>

lemma saga_exec_no_error:
  assumes "\<And>b l w. snd (sb_step sub b l w) \<notin> {Inr (Some err) | err. True}"
    and "sg_errc g = []" "\<forall>c\<in>set (sg_calls g). \<forall>err. snd c \<noteq> Sending err"
  shows "sg_errc (saga_exec rn sub ts g) = []"
  using assms(2,3)
proof (induction ts arbitrary: g)
  case (Cons t ts)
  show ?case
  proof (cases t)
    case (Turn i)
    have "sg_errc (saga_go rn sub i g) = [] \<and> (\<forall>c\<in>set (sg_calls (saga_go rn sub i g)). \<forall>err. snd c \<noteq> Sending err)"
    proof (cases "i < length (sg_calls g)")
      case True
      obtain topic c where c: "sg_calls g ! i = (topic, c)" by force
      have mem: "(topic, c) \<in> set (sg_calls g)" using True c nth_mem by metis
      have no: "c \<noteq> Sending err" for err using mem Cons.prems(2) by fastforce
      have step: "sb_step sub b l w \<noteq> (w', Inr (Some err))" for b l w w' err using assms(1)[of b l w] by auto
      have upd: "x \<in> set ((sg_calls g)[i := (topic, d)]) \<Longrightarrow> \<forall>err. d \<noteq> Sending err \<Longrightarrow> \<forall>err. snd x \<noteq> Sending err" for x d
        using set_update_subset_insert[of "sg_calls g" i "(topic, d)"] Cons.prems(2) by fastforce
      show ?thesis using Cons.prems no step upd
        by (cases c) (auto simp: saga_go_def True c split: prod.splits sum.splits option.splits)
    qed (use Cons.prems in \<open>simp add: saga_go_def\<close>)
    with Turn Cons.IH[of "saga_go rn sub i g"] show ?thesis by simp
  next
    case Interrupt
    with Cons show ?thesis by simp
  qed
qed simp


text \<open>
  Witness: two goroutines on the same topic of the in-memory broker. The second finds the group's
  member already active, and its failure ends the first.
\<close>

definition demo_runner :: "(string mem_broker, unit, string, unit) runner" where
  "demo_runner = new_runner \<lparr>sd_name = ''demo'', sd_handlers = Map.empty\<rparr>
     () \<lparr>st_append = (\<lambda>w st v evs. (w, Inl ErrVersionConflict)), st_load = (\<lambda>w st after. (w, Inr [])),
         st_read_all = (\<lambda>w after limit. (w, Inr [])), st_head = (\<lambda>w. (w, Inr 0))\<rparr> new_registry (\<lambda>e. Inr [])"


end
