(* ===== verification/Backlog.thy ===== *)
theory Backlog
  imports World Postgres
begin

text \<open>
  The backlog gauges (\<open>o11y/backlog.go\<close>): every durable hand-off is a log with a head and a
  checkpoint that says how far a worker has come, and a gauge samples their difference. A position is
  a query on the world; the meter of OpenTelemetry is what the code uses of it, whether it accepts
  the instrument and the callback. The registered callback is the sample it takes when it runs.
\<close>

section \<open>Positions\<close>

type_synonym 'w position = "'w \<Rightarrow> 'w \<times> int res"

definition position_func :: "('w \<Rightarrow> 'w \<times> int res) \<Rightarrow> 'w position" where
  "position_func fn = fn"

definition checkpoint_position :: "'w cp_ops \<Rightarrow> string \<Rightarrow> 'w position" where
  "checkpoint_position store name = (\<lambda>w. cp_get store w name)"

section \<open>The gauges\<close>

text \<open>A position that is \<open>None\<close> was not supplied.\<close>

record 'w backlog =
  bl_instrument :: string
  bl_unit :: string
  bl_description :: string
  bl_attrs :: "(string \<times> string) list"
  bl_head :: "'w position option"
  bl_checkpoint :: "'w position option"

record meter =
  mt_gauge :: "string \<Rightarrow> string \<Rightarrow> string \<Rightarrow> gerr option"
  mt_register :: "string \<Rightarrow> gerr option"

definition lag :: "int \<Rightarrow> int \<Rightarrow> int" where
  "lag head position = (if head \<le> position then 0 else head - position)"

definition backlog_sample ::
  "'w backlog \<Rightarrow> 'w position \<Rightarrow> 'w position \<Rightarrow> 'w \<Rightarrow> 'w \<times> (int \<times> (string \<times> string) list) res" where
  "backlog_sample b head checkpoint w =
     (case head w of
        (w1, Inl err) \<Rightarrow> (w1, Inl (Wrapf ''o11y: %s: head: %w'' [FStr (bl_instrument b)] err))
      | (w1, Inr h) \<Rightarrow>
          (case checkpoint w1 of
             (w2, Inl err) \<Rightarrow> (w2, Inl (Wrapf ''o11y: %s: checkpoint: %w'' [FStr (bl_instrument b)] err))
           | (w2, Inr position) \<Rightarrow> (w2, Inr (lag h position, bl_attrs b))))"

definition watch_backlog ::
  "meter \<Rightarrow> 'w backlog \<Rightarrow> ('w \<Rightarrow> 'w \<times> (int \<times> (string \<times> string) list) res) res" where
  "watch_backlog mt b =
     (case (bl_head b, bl_checkpoint b) of
        (Some head, Some checkpoint) \<Rightarrow>
          (case mt_gauge mt (bl_instrument b) (bl_unit b) (bl_description b) of
             Some err \<Rightarrow> Inl (Wrapf ''o11y: %s: %w'' [FStr (bl_instrument b)] err)
           | None \<Rightarrow>
               (case mt_register mt (bl_instrument b) of
                  Some err \<Rightarrow> Inl (Wrapf ''o11y: %s: %w'' [FStr (bl_instrument b)] err)
                | None \<Rightarrow> Inr (backlog_sample b head checkpoint)))
      | _ \<Rightarrow> Inl (Errorf ''o11y: %s: both head and checkpoint positions are required'' [FStr (bl_instrument b)]))"

definition watch_relay_lag ::
  "meter \<Rightarrow> string \<Rightarrow> 'w position option \<Rightarrow> 'w position option
   \<Rightarrow> ('w \<Rightarrow> 'w \<times> (int \<times> (string \<times> string) list) res) res" where
  "watch_relay_lag mt name head checkpoint = watch_backlog mt
     \<lparr>bl_instrument = ''gohex.relay.lag'', bl_unit = ''{event}'',
      bl_description = ''Events appended to the store that the relay has not published yet.'',
      bl_attrs = [(''gohex.relay.name'', name)], bl_head = head, bl_checkpoint = checkpoint\<rparr>"

definition watch_projection_lag ::
  "meter \<Rightarrow> string \<Rightarrow> string \<Rightarrow> 'w position option \<Rightarrow> 'w position option
   \<Rightarrow> ('w \<Rightarrow> 'w \<times> (int \<times> (string \<times> string) list) res) res" where
  "watch_projection_lag mt name src head checkpoint = watch_backlog mt
     \<lparr>bl_instrument = ''gohex.projection.lag'', bl_unit = ''{event}'',
      bl_description = ''Events available to a projection runner that it has not applied yet.'',
      bl_attrs = [(''gohex.projection.name'', name), (''gohex.projection.source'', src)],
      bl_head = head, bl_checkpoint = checkpoint\<rparr>"

definition watch_inbox_depth ::
  "meter \<Rightarrow> string \<Rightarrow> 'w position option \<Rightarrow> 'w position option
   \<Rightarrow> ('w \<Rightarrow> 'w \<times> (int \<times> (string \<times> string) list) res) res" where
  "watch_inbox_depth mt name head checkpoint = watch_backlog mt
     \<lparr>bl_instrument = ''gohex.inbox.depth'', bl_unit = ''{message}'',
      bl_description = ''Messages stored in the inbox that its reader has not applied yet.'',
      bl_attrs = [(''gohex.inbox.name'', name)], bl_head = head, bl_checkpoint = checkpoint\<rparr>"

text \<open>The gauges differ in their names only; a watch that was accepted samples both positions it was given.\<close>

lemma watch_relay_sample:
  "watch_relay_lag mt name head checkpoint = Inr s \<Longrightarrow> \<exists>b h c. head = Some h \<and> checkpoint = Some c \<and>
     bl_attrs b = [(''gohex.relay.name'', name)] \<and> s = backlog_sample b h c"
  by (auto simp: watch_relay_lag_def watch_backlog_def split: option.splits intro!: exI)

section \<open>What the difference counts\<close>

definition unread :: "('a \<Rightarrow> int) \<Rightarrow> int \<Rightarrow> 'a list \<Rightarrow> int" where
  "unread f c xs = int (length (filter (\<lambda>x. c < f x) xs))"

lemma unread_0: "unread f c xs = 0 \<longleftrightarrow> (\<forall>x\<in>set xs. f x \<le> c)"
  by (auto simp: unread_def filter_empty_conv)

text \<open>A log has at least as many positions as entries past the checkpoint.\<close>

lemma lag_bounds:
  assumes "pos_log f xs"
  shows "unread f c xs \<le> lag (last_pos f xs) c \<and> (lag (last_pos f xs) c = 0 \<longrightarrow> unread f c xs = 0) \<and>
    (unread f c xs = 0 \<longrightarrow> 0 \<le> c \<longrightarrow> lag (last_pos f xs) c = 0)"
  using assms
proof (induction xs rule: rev_induct)
  case (snoc y ys)
  then have p: "pos_log f ys" "\<forall>x\<in>set ys. f x < f y" "0 < f y" by (simp_all add: pos_log_append pos_log_def[of f "[y]"])
  then have "last_pos f ys < f y" by (simp add: last_pos_def)
  note p = p(1) this
  have "unread f c (ys @ [y]) = unread f c ys + (if c < f y then 1 else 0)" by (simp add: unread_def)
  with snoc.IH[OF p(1)] p(2) show ?case
    by (cases "c < f y") (auto simp: lag_def unread_0 split: if_splits dest!: pos_log_le_last[OF p(1)])
qed (simp add: unread_def lag_def)

text \<open>Positions without a gap count the entries.\<close>

definition numbered :: "('a \<Rightarrow> int) \<Rightarrow> 'a list \<Rightarrow> bool" where
  "numbered f xs \<longleftrightarrow> map f xs = map (\<lambda>i. int i + 1) [0..<length xs]"

lemma lag_numbered:
  assumes "numbered f xs" "0 \<le> c"
  shows "lag (last_pos f xs) c = unread f c xs"
  using assms(1)
proof (induction xs rule: rev_induct)
  case Nil
  with assms(2) show ?case by (simp add: unread_def lag_def)
next
  case (snoc y ys)
  then have p: "numbered f ys" "f y = int (length ys) + 1" by (auto simp: numbered_def)
  have l: "last_pos f ys = int (length ys)"
    using p(1) by (cases ys rule: rev_cases) (auto simp: numbered_def)
  have "unread f c (ys @ [y]) = unread f c ys + (if c < f y then 1 else 0)" by (simp add: unread_def)
  with snoc.IH[OF p(1)] p(2) l show ?case by (auto simp: lag_def split: if_splits)
qed

section \<open>Sampling a log\<close>

text \<open>A log with a head query: an event store, or an inbox.\<close>

locale head_log =
  fixes head :: "'w position"
    and entries :: "'w \<Rightarrow> 'a list"
    and pos :: "'a \<Rightarrow> int"
    and good :: "'w \<Rightarrow> bool"
  assumes entries_pos: "good w \<Longrightarrow> pos_log pos (entries w)"
    and head_reads: "good w \<Longrightarrow> head w = (w', r) \<Longrightarrow> good w' \<and> prefix (entries w) (entries w') \<and>
          (\<forall>h. r = Inr h \<longrightarrow> h = last_pos pos (entries w'))"
begin

text \<open>The sample is taken when the head is read; the checkpoint may be any that is read later.\<close>

lemma sample_counts:
  assumes "good w" "backlog_sample b head checkpoint w = (w', Inr (n, attrs))"
  shows "\<exists>w1 c. good w1 \<and> prefix (entries w) (entries w1) \<and> checkpoint w1 = (w', Inr c) \<and> attrs = bl_attrs b \<and>
    n = lag (last_pos pos (entries w1)) c \<and> unread pos c (entries w1) \<le> n \<and>
    (n = 0 \<longrightarrow> unread pos c (entries w1) = 0) \<and>
    (numbered pos (entries w1) \<longrightarrow> 0 \<le> c \<longrightarrow> n = unread pos c (entries w1))"
proof -
  obtain w1 h where h: "head w = (w1, Inr h)"
    using assms(2) by (auto simp: backlog_sample_def split: prod.splits sum.splits)
  then obtain c where c: "checkpoint w1 = (w', Inr c)" "n = lag h c" "attrs = bl_attrs b"
    using assms(2) by (auto simp: backlog_sample_def split: prod.splits sum.splits)
  note r = head_reads[OF assms(1) h]
  then have p: "pos_log pos (entries w1)" using entries_pos by blast
  from r c lag_bounds[OF p, of c] lag_numbered[of pos "entries w1" c] show ?thesis by blast
qed

end

sublocale event_store \<subseteq> heads: head_log "st_head ops" log rec_seq inv
  by unfold_locales (use log_wf head_law in \<open>auto simp: wf_log_def\<close>)

sublocale inbox_port \<subseteq> heads: head_log "ib_head ib" ilog im_seq iinv
  by unfold_locales (use ilog_pos ib_head_law in auto)

lemma faulty_read_ticks: "faulty (\<lambda>w. (w, Inr (g w))) w = (w', r) \<Longrightarrow> \<exists>f. tick w = (w', f)"
  by (auto simp: faulty_def split: prod.splits option.splits if_splits)

section \<open>On PostgreSQL\<close>

lemma pg_cp_get_ok:
  assumes "pg_inv mc d" "cp_get (pg_cp_ops db_cp_pool) d name = (d', r)"
  shows "pg_inv mc d' \<and> prefix (pg_log mc d) (pg_log mc d') \<and> (\<forall>c. r = Inr c \<longrightarrow> c = mget 0 (db_cps d) name)"
proof -
  obtain d1 now f where t: "db_tick d = (d1, now, f)" by (cases "db_tick d") auto
  have ok: "db_ok mc d" "\<not> db_locked d" using assms(1) by (auto simp: pg_inv_def)
  have "d' = d1" "\<forall>c. r = Inr c \<longrightarrow> c = mget 0 (db_cps d1) name"
    using assms(2) t by (cases f; auto simp: pg_cp_ops_def pg_cp_get_def db_cp_pool_def db_call_def split: bool.splits)+
  with db_tick_ok[OF ok(1) t] db_tick_cps[OF t] ok(2) show ?thesis by (simp add: pg_inv_def)
qed

lemma db_head_cps: "st_head (pg_store_ops mc db_pool) d = (d1, r) \<Longrightarrow> db_cps d1 = db_cps d"
  using db_tick_cps[of d] by (cases "db_tick d")
    (auto simp: pg_store_ops_def pg_head_def db_pool_def db_call_def split: prod.splits option.splits bool.splits sum.splits)

text \<open>
  The relay's lag on PostgreSQL: against failing queries and other appenders, a sample counts at
  least the events that were visible when the head was read and lie past the checkpoint, and is zero
  exactly when there are none. It counts positions, so identity values that were lost make it larger
  than the number of events (the witness samples 3 for one event).
\<close>

theorem pg_lag_bounds:
  assumes "metadata_codec mc" "pg_inv mc d" "0 \<le> mget 0 (db_cps d) name"
    and "watch_relay_lag mt name (Some (position_func (st_head (pg_store_ops mc db_pool))))
      (Some (checkpoint_position (pg_cp_ops db_cp_pool) name)) = Inr sample"
    and "sample d = (d', Inr (n, attrs))"
  shows "attrs = [(''gohex.relay.name'', name)] \<and>
    (\<exists>l. prefix (pg_log mc d) l \<and> prefix l (pg_log mc d') \<and>
      unread rec_seq (mget 0 (db_cps d) name) l \<le> n \<and> (n = 0 \<longleftrightarrow> unread rec_seq (mget 0 (db_cps d) name) l = 0))"
proof -
  let ?head = "st_head (pg_store_ops mc db_pool)" and ?cp = "checkpoint_position (pg_cp_ops db_cp_pool) name"
  obtain b where b: "bl_attrs b = [(''gohex.relay.name'', name)]" "backlog_sample b ?head ?cp d = (d', Inr (n, attrs))"
    using watch_relay_sample[OF assms(4)] assms(5) by (auto simp: position_func_def)
  from b(2) obtain d1 h c where s: "?head d = (d1, Inr h)" "?cp d1 = (d', Inr c)" "n = lag h c" "attrs = bl_attrs b"
    by (auto simp: backlog_sample_def split: prod.splits sum.splits)
  have h: "pg_inv mc d1" "prefix (pg_log mc d) (pg_log mc d1)" "h = last_pos rec_seq (pg_log mc d1)"
    using metadata_codec.pg_head_law[OF assms(1,2) s(1)] by auto
  have c: "prefix (pg_log mc d1) (pg_log mc d')" "c = mget 0 (db_cps d) name"
    using pg_cp_get_ok[OF h(1), of name d' "Inr c"] s(2) db_head_cps[OF s(1)] by (simp_all add: checkpoint_position_def)
  have "pos_log rec_seq (pg_log mc d1)" using metadata_codec.pg_log_wf[OF assms(1) h(1)] by (simp add: wf_log_pos)
  from lag_bounds[OF this, of c] assms(3) c h s(3,4) b(1) show ?thesis by auto
qed

theorem pg_lag_bounds_witness:
  "\<exists>(sample :: string db \<Rightarrow> string db \<times> (int \<times> (string \<times> string) list) res) d'. watch_relay_lag \<lparr>mt_gauge = \<lambda>i u d. None, mt_register = \<lambda>i. None\<rparr> ''r''
       (Some (position_func (st_head (pg_store_ops text_codec db_pool)))) (Some (checkpoint_position (pg_cp_ops db_cp_pool) ''r'')) = Inr sample \<and>
     sample demo_pg = (d', Inr (3, [(''gohex.relay.name'', ''r'')])) \<and> length (pg_log text_codec d') = 1 \<and>
     (\<exists>l. prefix l (pg_log text_codec d') \<and> unread rec_seq 0 l \<le> 3 \<and> unread rec_seq 0 l \<noteq> 0)"
proof -
  let ?mt = "\<lparr>mt_gauge = \<lambda>i u d. None, mt_register = \<lambda>i. None\<rparr> :: meter"
  obtain sample :: "string db \<Rightarrow> string db \<times> (int \<times> (string \<times> string) list) res" where s: "watch_relay_lag ?mt ''r'' (Some (position_func (st_head (pg_store_ops text_codec db_pool))))
      (Some (checkpoint_position (pg_cp_ops db_cp_pool) ''r'')) = Inr sample"
    by (simp add: watch_relay_lag_def watch_backlog_def)
  obtain d' where d': "sample demo_pg = (d', Inr (3, [(''gohex.relay.name'', ''r'')]))" "length (pg_log text_codec d') = 1"
    using s by (auto simp: watch_relay_lag_def watch_backlog_def backlog_sample_def position_func_def checkpoint_position_def lag_def
        pg_store_ops_def pg_head_def head_sql_def pg_cp_ops_def pg_cp_get_def db_cp_pool_def demo_pg_simps pg_log_def)
  have "0 \<le> mget 0 (db_cps demo_pg) ''r''" by (simp add: demo_pg_simps)
  from pg_lag_bounds[OF text_codec.metadata_codec_axioms demo_pg_inv this s d'(1)] s d' show ?thesis
    by (auto simp: demo_pg_simps)
qed

end
