(* ===== verification/Tracing.thy ===== *)
theory Tracing
  imports KernelId SagaRun Notifier
begin

text \<open>
  How one trace spans the asynchronous flow (\<open>o11y/o11y.go\<close>, \<open>worker.go\<close>, \<open>broker.go\<close>,
  \<open>projection.go\<close>, \<open>cqrs.go\<close>): the trace context a call runs under, how it is written into metadata
  and read back, where the spans of a publish, a consumed message, a command, a projected item and a
  polling worker stand, and the start-up that installs it all. OpenTelemetry is a parameter: its
  propagator and its tracer with what the code relies on of them.
\<close>

section \<open>Span contexts and the propagator\<close>

text \<open>Trace and span IDs are 16 and 8 bytes; the zero context belongs to no span.\<close>

record span_context =
  sx_trace :: "128 word"
  sx_span :: "64 word"
  sx_sampled :: bool
  sx_state :: string

definition no_span :: span_context where
  "no_span = \<lparr>sx_trace = 0, sx_span = 0, sx_sampled = False, sx_state = []\<rparr>"

definition sx_valid :: "span_context \<Rightarrow> bool" where
  "sx_valid sc \<longleftrightarrow> sx_trace sc \<noteq> 0 \<and> sx_span sc \<noteq> 0"

text \<open>What the code puts on a Go context or reads from it; an empty origin is no origin.\<close>

record trace_ctx =
  tc_span :: span_context
  tc_baggage :: string
  tc_origin :: metadata

definition background :: trace_ctx where
  "background = \<lparr>tc_span = no_span, tc_baggage = [], tc_origin = fmempty\<rparr>"

record propagator =
  pg_inject :: "trace_ctx \<Rightarrow> metadata \<Rightarrow> metadata"
  pg_extract :: "trace_ctx \<Rightarrow> metadata \<Rightarrow> trace_ctx"

definition otel_inject :: "propagator \<Rightarrow> trace_ctx \<Rightarrow> metadata \<Rightarrow> metadata" where
  "otel_inject pg c m = (if sx_valid (tc_span c) then pg_inject pg c m else m)"

definition otel_extract :: "propagator \<Rightarrow> trace_ctx \<Rightarrow> metadata \<Rightarrow> trace_ctx" where
  "otel_extract pg c m = (if m = fmempty then c else pg_extract pg c m)"

section \<open>Contexts stored in metadata\<close>

definition OriginTraceparentKey :: string where "OriginTraceparentKey = ''gohex.origin.traceparent''"
definition OriginTracestateKey :: string where "OriginTracestateKey = ''gohex.origin.tracestate''"

definition carrier :: "string \<Rightarrow> string \<Rightarrow> metadata" where
  "carrier tp ts = (let m = fmupd ''traceparent'' tp fmempty in if ts \<noteq> [] then fmupd ''tracestate'' ts m else m)"

definition live_span_context_from :: "propagator \<Rightarrow> metadata \<Rightarrow> span_context" where
  "live_span_context_from pg m =
     (if meta_get m ''traceparent'' = [] then no_span
      else tc_span (otel_extract pg background (carrier (meta_get m ''traceparent'') (meta_get m ''tracestate''))))"

definition span_context_from :: "propagator \<Rightarrow> metadata \<Rightarrow> span_context" where
  "span_context_from pg m =
     (let sc = live_span_context_from pg m in
      if sx_valid sc then sc
      else if m = fmempty then no_span
      else if meta_get m OriginTraceparentKey \<noteq> [] then
        tc_span (otel_extract pg background (carrier (meta_get m OriginTraceparentKey) (meta_get m OriginTracestateKey)))
      else no_span)"

text \<open>A link is the context it points to.\<close>

definition link_from :: "propagator \<Rightarrow> metadata \<Rightarrow> span_context" where
  "link_from pg m = (let sc = span_context_from pg m in if sx_valid sc then sc else no_span)"

definition origin_stamp :: "string \<Rightarrow> string \<Rightarrow> metadata" where
  "origin_stamp tp ts = (let m = fmupd OriginTraceparentKey tp fmempty in
     if ts \<noteq> [] then fmupd OriginTracestateKey ts m else m)"

definition origin_metadata :: "metadata \<Rightarrow> metadata" where
  "origin_metadata m =
     (if m = fmempty then fmempty
      else if meta_get m OriginTraceparentKey \<noteq> [] then
        origin_stamp (meta_get m OriginTraceparentKey) (meta_get m OriginTracestateKey)
      else if meta_get m ''traceparent'' \<noteq> [] then
        origin_stamp (meta_get m ''traceparent'') (meta_get m ''tracestate'')
      else fmempty)"

definition with_origin :: "trace_ctx \<Rightarrow> metadata \<Rightarrow> trace_ctx" where
  "with_origin c m = (if origin_metadata m = fmempty then c else c\<lparr>tc_origin := origin_metadata m\<rparr>)"

definition origin_from_context :: "trace_ctx \<Rightarrow> metadata" where
  "origin_from_context c = tc_origin c"

text \<open>The event-store hook: what \<open>MetadataFromContext\<close> stamps on events.\<close>

definition context_metadata :: "propagator \<Rightarrow> trace_ctx \<Rightarrow> metadata" where
  "context_metadata pg c = otel_inject pg c (origin_from_context c)"

section \<open>Spans\<close>

datatype span_kind = Internal | Producer | Consumer
datatype attr = AStr string | AInt int

record span_start =
  sp_name :: string
  sp_root :: bool
  sp_kind :: span_kind
  sp_links :: "span_context list"
  sp_attrs :: "(string \<times> attr) list"

text \<open>How a span ends: the attributes added and the error recorded, if any.\<close>

record span_end =
  se_attrs :: "(string \<times> attr) list"
  se_error :: "gerr option"

record 'w tracer =
  tr_start :: "'w \<Rightarrow> trace_ctx \<Rightarrow> span_start \<Rightarrow> 'w \<times> span_context"
  tr_end :: "'w \<Rightarrow> span_context \<Rightarrow> span_end \<Rightarrow> 'w"

definition end_with :: "'w tracer \<Rightarrow> 'w \<Rightarrow> span_context \<Rightarrow> gerr option \<Rightarrow> 'w" where
  "end_with tr w sc err = tr_end tr w sc \<lparr>se_attrs = [], se_error = err\<rparr>"

text \<open>The text of an ID, most significant digit first.\<close>

fun hex_text :: "nat \<Rightarrow> nat \<Rightarrow> string" where
  "hex_text 0 n = []"
| "hex_text (Suc k) n = hex_text k (n div 16) @ [hex_digit (n mod 16)]"

section \<open>Workers\<close>

definition linked_start :: "propagator \<Rightarrow> trace_ctx \<Rightarrow> string \<Rightarrow> metadata \<Rightarrow> (string \<times> attr) list \<Rightarrow> span_start" where
  "linked_start pg c name m opts =
     (let origin = span_context_from pg m;
          links = (if sx_valid origin then [origin] else []) @ (if sx_valid (tc_span c) then [tc_span c] else []);
          attrs = (''messaging.operation.type'', AStr ''process'') #
            (if sx_valid origin then [(''gohex.origin.trace_id'', AStr (hex_text 32 (unat (sx_trace origin)))),
              (''gohex.origin.span_id'', AStr (hex_text 16 (unat (sx_span origin))))] else [])
      in \<lparr>sp_name = name, sp_root = True, sp_kind = Consumer, sp_links = links, sp_attrs = attrs @ opts\<rparr>)"

definition start_linked ::
  "'w tracer \<Rightarrow> propagator \<Rightarrow> 'w \<Rightarrow> trace_ctx \<Rightarrow> string \<Rightarrow> metadata \<Rightarrow> (string \<times> attr) list \<Rightarrow> 'w \<times> trace_ctx \<times> span_context" where
  "start_linked tr pg w c name m opts =
     (case tr_start tr w c (linked_start pg c name m opts) of
        (w1, sc) \<Rightarrow> (w1, with_origin (c\<lparr>tc_span := sc\<rparr>) m, sc))"

definition start_batch :: "'w tracer \<Rightarrow> 'w \<Rightarrow> trace_ctx \<Rightarrow> string \<Rightarrow> nat \<Rightarrow> 'w \<times> trace_ctx \<times> span_context" where
  "start_batch tr w c name n =
     (case tr_start tr w c \<lparr>sp_name = name, sp_root = True, sp_kind = Consumer, sp_links = [],
        sp_attrs = [(''messaging.operation.type'', AStr ''process''), (''messaging.batch.message_count'', AInt (int n))]\<rparr> of
        (w1, sc) \<Rightarrow> (w1, c\<lparr>tc_span := sc\<rparr>, sc))"

section \<open>Publishing\<close>

definition publishLinkCap :: nat where "publishLinkCap = 8"

text \<open>The IDs of the contexts seen so far, the contexts kept, and how many messages carried one.\<close>

fun creation_loop ::
  "propagator \<Rightarrow> 128 word \<times> 64 word \<Rightarrow> (128 word \<times> 64 word) list \<Rightarrow> span_context list \<Rightarrow> nat \<Rightarrow> 'p message list
   \<Rightarrow> span_context list \<times> nat" where
  "creation_loop pg caller seen out carried [] = (out, carried)"
| "creation_loop pg caller seen out carried (m # ms) =
     (let sc = live_span_context_from pg (m_meta m); ids = (sx_trace sc, sx_span sc) in
      if \<not> sx_valid sc then creation_loop pg caller seen out carried ms
      else if ids = caller \<or> ids \<in> set seen then creation_loop pg caller seen out (carried + 1) ms
      else creation_loop pg caller (ids # seen) (out @ [sc]) (carried + 1) ms)"

definition creation_contexts :: "propagator \<Rightarrow> 'p message list \<Rightarrow> span_context \<Rightarrow> span_context list \<times> nat" where
  "creation_contexts pg msgs caller = creation_loop pg (sx_trace caller, sx_span caller) [] [] 0 msgs"

definition publish_span_start ::
  "propagator \<Rightarrow> trace_ctx \<Rightarrow> string \<Rightarrow> 'p message list \<Rightarrow> trace_ctx \<times> span_start" where
  "publish_span_start pg c topic msgs =
     (let attrs = [(''messaging.destination.name'', AStr topic), (''messaging.operation.name'', AStr ''publish''),
            (''messaging.operation.type'', AStr ''send''), (''messaging.batch.message_count'', AInt (int (length msgs)))];
          start = \<lparr>sp_name = ''publish '' @ topic, sp_root = False, sp_kind = Producer, sp_links = [], sp_attrs = attrs\<rparr> in
      case creation_contexts pg msgs (tc_span c) of (creation, carried) \<Rightarrow>
        if \<not> sx_valid (tc_span c) \<and> length creation = 1 \<and> carried = length msgs
        then (c\<lparr>tc_span := creation ! 0\<rparr>, start)
        else if creation \<noteq> [] then
          (c, start\<lparr>sp_links := take publishLinkCap creation,
             sp_attrs := attrs @ [(''gohex.publish.trace_count'', AInt (int (length creation)))]\<rparr>)
        else (c, start))"

text \<open>The wrapped publisher gets a context, and the caller's messages are changed in place.\<close>

definition tracing_publish ::
  "'w tracer \<Rightarrow> propagator \<Rightarrow> (trace_ctx \<Rightarrow> ('w, 'p) publish) \<Rightarrow> trace_ctx \<Rightarrow> 'w \<Rightarrow> string \<Rightarrow> 'p message list
   \<Rightarrow> 'w \<times> gerr option \<times> 'p message list" where
  "tracing_publish tr pg next c w topic msgs =
     (case publish_span_start pg c topic msgs of (c1, start) \<Rightarrow>
      case tr_start tr w c1 start of (w1, sc) \<Rightarrow>
        let c2 = c1\<lparr>tc_span := sc\<rparr>;
            msgs' = map (\<lambda>m. if meta_get (m_meta m) ''traceparent'' = [] then m\<lparr>m_meta := otel_inject pg c2 (m_meta m)\<rparr> else m) msgs
        in case next c2 w1 topic msgs' of (w2, err) \<Rightarrow> (end_with tr w2 sc err, err, msgs'))"

section \<open>Consuming\<close>

definition consume_span_name :: "string \<Rightarrow> string \<Rightarrow> string \<Rightarrow> string" where
  "consume_span_name topic grp message_type =
     (if grp \<noteq> [] \<and> message_type \<noteq> [] then ''consume '' @ grp @ '' '' @ message_type
      else if grp \<noteq> [] then ''consume '' @ grp
      else ''consume '' @ topic)"

definition traced_handler ::
  "'w tracer \<Rightarrow> propagator \<Rightarrow> string \<Rightarrow> string \<Rightarrow> (trace_ctx \<Rightarrow> ('w, 'p) msg_handler) \<Rightarrow> trace_ctx \<Rightarrow> ('w, 'p) msg_handler" where
  "traced_handler tr pg topic grp handler c w msg =
     (let c1 = otel_extract pg c (m_meta msg) in
      case tr_start tr w c1
        \<lparr>sp_name = consume_span_name topic grp (m_type msg), sp_root = False, sp_kind = Consumer, sp_links = [],
         sp_attrs = [(''messaging.destination.name'', AStr topic), (''messaging.consumer.group.name'', AStr grp),
           (''messaging.message.id'', AStr (m_id msg)), (''messaging.operation.name'', AStr ''consume''),
           (''messaging.operation.type'', AStr ''process''), (''gohex.message.type'', AStr (m_type msg))]\<rparr> of
        (w1, sc) \<Rightarrow>
          (case handler (c1\<lparr>tc_span := sc\<rparr>) w1 msg of (w2, err) \<Rightarrow> (end_with tr w2 sc err, err)))"

definition tracing_subscribe ::
  "'w tracer \<Rightarrow> propagator \<Rightarrow> (trace_ctx \<Rightarrow> string \<Rightarrow> string \<Rightarrow> (trace_ctx \<Rightarrow> ('w, 'p) msg_handler) \<Rightarrow> 'w \<Rightarrow> 'r)
   \<Rightarrow> trace_ctx \<Rightarrow> string \<Rightarrow> string \<Rightarrow> (trace_ctx \<Rightarrow> ('w, 'p) msg_handler) \<Rightarrow> 'w \<Rightarrow> 'r" where
  "tracing_subscribe tr pg next c topic grp handler w = next c topic grp (traced_handler tr pg topic grp handler) w"

section \<open>Commands and queries\<close>

text \<open>A rejection is recorded as an attribute, only another error as an error.\<close>

definition command_middleware ::
  "'w tracer \<Rightarrow> ('c \<Rightarrow> string) \<Rightarrow> (trace_ctx \<Rightarrow> ('w, 'c) cmd_handler) \<Rightarrow> trace_ctx \<Rightarrow> ('w, 'c) cmd_handler" where
  "command_middleware tr name next c w cmd =
     (case tr_start tr w c \<lparr>sp_name = ''command '' @ name cmd, sp_root = False, sp_kind = Internal, sp_links = [], sp_attrs = []\<rparr> of
        (w1, sc) \<Rightarrow>
          (case next (c\<lparr>tc_span := sc\<rparr>) w1 cmd of
             (w2, None) \<Rightarrow> (end_with tr w2 sc None, None)
           | (w2, Some err) \<Rightarrow>
               (case as_domain_error err of
                  Some (code, message) \<Rightarrow>
                    (tr_end tr w2 sc \<lparr>se_attrs = [(''gohex.rejection_code'', AStr code)], se_error = None\<rparr>, Some err)
                | None \<Rightarrow> (end_with tr w2 sc (Some err), Some err))))"

definition query_middleware ::
  "'w tracer \<Rightarrow> ('q \<Rightarrow> string) \<Rightarrow> (trace_ctx \<Rightarrow> ('w, 'q, 'a) query_handler) \<Rightarrow> trace_ctx \<Rightarrow> ('w, 'q, 'a) query_handler" where
  "query_middleware tr name next c w q =
     (case tr_start tr w c \<lparr>sp_name = ''query '' @ name q, sp_root = False, sp_kind = Internal, sp_links = [], sp_attrs = []\<rparr> of
        (w1, sc) \<Rightarrow>
          (case next (c\<lparr>tc_span := sc\<rparr>) w1 q of
             (w2, Inl err) \<Rightarrow> (end_with tr w2 sc (Some err), Inl err)
           | (w2, Inr a) \<Rightarrow> (end_with tr w2 sc None, Inr a)))"

section \<open>Projections\<close>

definition project_span_name :: "item \<Rightarrow> string" where
  "project_span_name it = (if it_name it = [] then ''project '' @ it_projection it
     else ''project '' @ it_projection it @ '' '' @ it_name it)"

fun source_text :: "source \<Rightarrow> string" where
  "source_text SourceStore = ''store''"
| "source_text SourceInbox = ''inbox''"

definition projection_hook ::
  "'w tracer \<Rightarrow> propagator \<Rightarrow> bool \<Rightarrow> trace_ctx \<Rightarrow> 'w \<Rightarrow> item \<Rightarrow> ('w \<times> trace_ctx) \<times> ('w \<Rightarrow> gerr option \<Rightarrow> 'w)" where
  "projection_hook tr pg continue_trace c w it =
     (let attrs = [(''gohex.projection.name'', AStr (it_projection it)), (''gohex.projection.source'', AStr (source_text (it_source it))),
            (''gohex.message.type'', AStr (it_name it)), (''messaging.message.id'', AStr (it_id it)),
            (''messaging.operation.name'', AStr ''project'')] in
      if continue_trace then
        (let c1 = otel_extract pg c (it_meta it) in
         case tr_start tr w c1 \<lparr>sp_name = project_span_name it, sp_root = False, sp_kind = Consumer, sp_links = [],
             sp_attrs = attrs @ [(''messaging.operation.type'', AStr ''process'')]\<rparr> of
           (w1, sc) \<Rightarrow> ((w1, c1\<lparr>tc_span := sc\<rparr>), \<lambda>w err. end_with tr w sc err))
      else
        (case start_linked tr pg w c (project_span_name it) (it_meta it) attrs of
           (w1, c1, sc) \<Rightarrow> ((w1, c1), \<lambda>w err. end_with tr w sc err)))"

section \<open>What the code relies on of OpenTelemetry\<close>

text \<open>
  \<open>ids\<close> are the trace and span IDs a traceparent text stands for, if it is well formed. The
  propagator writes and reads them, and touches no header but its own; a span started under a span
  belongs to its trace, unless a new root was asked for.
\<close>

locale telemetry =
  fixes pg :: propagator
    and ids :: "string \<Rightarrow> (128 word \<times> 64 word) option"
    and tr :: "'w tracer"
  assumes ids_empty: "ids [] = None"
    and ids_nonzero: "ids tp = Some (t, s) \<Longrightarrow> t \<noteq> 0 \<and> s \<noteq> 0"
    and extract_span: "case ids (meta_get m ''traceparent'') of
          None \<Rightarrow> tc_span (pg_extract pg c m) = tc_span c
        | Some (t, s) \<Rightarrow> sx_trace (tc_span (pg_extract pg c m)) = t \<and> sx_span (tc_span (pg_extract pg c m)) = s"
    and extract_origin: "tc_origin (pg_extract pg c m) = tc_origin c"
    and inject_span: "sx_valid (tc_span c) \<Longrightarrow> ids (meta_get (pg_inject pg c m) ''traceparent'') =
          Some (sx_trace (tc_span c), sx_span (tc_span c))"
    and inject_others: "k \<notin> {''traceparent'', ''tracestate'', ''baggage''} \<Longrightarrow> meta_get (pg_inject pg c m) k = meta_get m k"
    and child_span: "tr_start tr w c st = (w', sc) \<Longrightarrow> \<not> sp_root st \<Longrightarrow> sx_valid (tc_span c) \<Longrightarrow>
          sx_valid sc \<and> sx_trace sc = sx_trace (tc_span c)"
begin

lemma extract_carrier:
  "case ids tp of
     None \<Rightarrow> tc_span (otel_extract pg background (carrier tp ts)) = no_span
   | Some (t, s) \<Rightarrow> sx_trace (tc_span (otel_extract pg background (carrier tp ts))) = t \<and>
       sx_span (tc_span (otel_extract pg background (carrier tp ts))) = s"
proof -
  have "carrier tp ts \<noteq> fmempty" "meta_get (carrier tp ts) ''traceparent'' = tp"
    by (auto simp: carrier_def Let_def dest: arg_cong[of _ _ "\<lambda>m. fmlookup m ''traceparent''"])
  with extract_span[of background "carrier tp ts"] show ?thesis by (auto simp: otel_extract_def background_def split: option.splits)
qed

lemma live_ids:
  "sx_valid (live_span_context_from pg m) \<longleftrightarrow> ids (meta_get m ''traceparent'') \<noteq> None"
  "ids (meta_get m ''traceparent'') = Some (t, s) \<Longrightarrow>
     sx_trace (live_span_context_from pg m) = t \<and> sx_span (live_span_context_from pg m) = s"
  using extract_carrier[of "meta_get m ''traceparent''" "meta_get m ''tracestate''"] ids_empty
  by (auto simp: live_span_context_from_def sx_valid_def no_span_def dest: ids_nonzero split: option.splits)

lemma saved_ids:
  assumes "sx_valid (tc_span c)"
  shows "ids (meta_get (metadata_from_context (Some (context_metadata pg)) c) ''traceparent'') =
    Some (sx_trace (tc_span c), sx_span (tc_span c))"
proof -
  have "context_metadata pg c = pg_inject pg c (tc_origin c)"
    using assms by (simp add: context_metadata_def otel_inject_def origin_from_context_def)
  with inject_span[OF assms, of "tc_origin c"] ids_empty show ?thesis
    by (auto simp: metadata_from_context_def Let_def)
qed

lemma published_unchanged:
  assumes "tracing_publish tr pg next c w topic msgs = (w', err, msgs')" "i < length msgs"
    and "meta_get (m_meta (msgs ! i)) ''traceparent'' \<noteq> []"
  shows "msgs' ! i = msgs ! i"
  using assms by (auto simp: tracing_publish_def Let_def split: prod.splits)

lemma delivered_span:
  assumes "ids (meta_get (m_meta msg) ''traceparent'') = Some (t, s)"
  shows "\<exists>c' v1. sx_valid (tc_span c') \<and> sx_trace (tc_span c') = t \<and>
    (\<forall>handler. traced_handler tr pg topic grp handler c v msg =
      (case handler c' v1 msg of (v2, err) \<Rightarrow> (end_with tr v2 (tc_span c') err, err)))"
proof -
  let ?c = "otel_extract pg c (m_meta msg)"
  have "m_meta msg \<noteq> fmempty" using assms ids_empty by auto
  then have x: "sx_trace (tc_span ?c) = t" "sx_span (tc_span ?c) = s"
    using extract_span[of c "m_meta msg"] assms by (simp_all add: otel_extract_def)
  then have v: "sx_valid (tc_span ?c)" using ids_nonzero[OF assms] by (simp add: sx_valid_def)
  let ?st = "\<lparr>sp_name = consume_span_name topic grp (m_type msg), sp_root = False, sp_kind = Consumer, sp_links = [],
         sp_attrs = [(''messaging.destination.name'', AStr topic), (''messaging.consumer.group.name'', AStr grp),
           (''messaging.message.id'', AStr (m_id msg)), (''messaging.operation.name'', AStr ''consume''),
           (''messaging.operation.type'', AStr ''process''), (''gohex.message.type'', AStr (m_type msg))]\<rparr>"
  obtain v1 sc where st: "tr_start tr v ?c ?st = (v1, sc)" by force
  from child_span[OF st _ v] x st show ?thesis
    by (intro exI[of _ "?c\<lparr>tc_span := sc\<rparr>"] exI[of _ v1]) (simp add: traced_handler_def Let_def)
qed

end

section \<open>One trace through every delivery\<close>

text \<open>
  \<open>c'\<close> is the context under which a consumer's handler runs for a message that carries what was stamped
  on an event (or recorded for a saga's command) under \<open>c\<close>: it was published in some batch, from a
  context of the publisher's own, and is delivered in a context of the subscriber's own.
\<close>

inductive delivered :: "propagator \<Rightarrow> 'w tracer \<Rightarrow> trace_ctx \<Rightarrow> trace_ctx \<Rightarrow> bool" for pg tr where
  "i < length msgs \<Longrightarrow> m_meta (msgs ! i) = metadata_from_context (Some (context_metadata pg)) c \<Longrightarrow>
   tracing_publish tr pg next p w topic (msgs :: json message list) = (w', err', msgs') \<Longrightarrow>
   (\<forall>handler. traced_handler tr pg topic' grp handler q v (msgs' ! i) =
      (case handler c' v1 (msgs' ! i) of (v2, err) \<Rightarrow> (end_with tr v2 (tc_span c') err, err))) \<Longrightarrow>
   delivered pg tr c c'"

lemma handler_context_unique:
  fixes tr :: "'w tracer" and v1 v1' :: 'w and m :: 'm
  assumes "\<forall>handler :: trace_ctx \<Rightarrow> 'w \<Rightarrow> 'm \<Rightarrow> 'w \<times> gerr option.
      (case handler c1 v1 m of (v2, err) \<Rightarrow> (end_with tr v2 (tc_span c1) err, err)) =
      (case handler c2 v1' m of (v2, err) \<Rightarrow> (end_with tr v2 (tc_span c2) err, err))"
  shows "c1 = c2"
  using spec[OF assms, of "\<lambda>c v m. (v, if c = c1 then None else Some (ErrNew []))"] by (auto split: if_splits)

context telemetry
begin

lemma delivered_trace:
  assumes "delivered pg tr c c'" "sx_valid (tc_span c)"
  shows "sx_valid (tc_span c') \<and> sx_trace (tc_span c') = sx_trace (tc_span c)"
  using assms(1)
proof cases
  case (1 i msgs "next" p w topic w' err' msgs' topic' grp q v v1)
  have i: "ids (meta_get (m_meta (msgs ! i)) ''traceparent'') = Some (sx_trace (tc_span c), sx_span (tc_span c))"
    using saved_ids[OF assms(2)] 1(2) by simp
  have "meta_get (m_meta (msgs ! i)) ''traceparent'' \<noteq> []" using i ids_empty by (metis option.distinct(1))
  then have u: "msgs' ! i = msgs ! i" by (rule published_unchanged[OF 1(3,1)])
  obtain c2 v2 where c2: "sx_valid (tc_span c2)" "sx_trace (tc_span c2) = sx_trace (tc_span c)"
    "\<forall>handler. traced_handler tr pg topic' grp handler q v (msgs ! i) =
      (case handler c2 v2 (msgs ! i) of (v2, err) \<Rightarrow> (end_with tr v2 (tc_span c2) err, err))"
    using delivered_span[OF i, of topic' grp q v] by blast
  have "\<forall>handler. (case handler c2 v2 (msgs ! i) of (v2, err) \<Rightarrow> (end_with tr v2 (tc_span c2) err, err)) =
      (case handler c' v1 (msgs ! i) of (v2, err) \<Rightarrow> (end_with tr v2 (tc_span c') err, err))"
    using 1(4) c2(3) u by simp
  from handler_context_unique[OF this] have "c2 = c'" .
  with c2 show ?thesis by blast
qed

end


section \<open>The first origin wins\<close>

definition origin_of :: "metadata \<Rightarrow> string" where
  "origin_of m = meta_get (origin_metadata m) OriginTraceparentKey"

text \<open>A worker takes a row and works under a linked span; \<open>row'\<close> is what it stamps on the events it saves.\<close>

inductive handed_off :: "propagator \<Rightarrow> 'w tracer \<Rightarrow> metadata \<Rightarrow> metadata \<Rightarrow> bool" for pg tr where
  "start_linked tr pg w c name row opts = (w', c', sc) \<Longrightarrow>
   handed_off pg tr row (metadata_from_context (Some (context_metadata pg)) c')"

lemma origin_keys [simp]:
  "OriginTraceparentKey \<noteq> OriginTracestateKey" "OriginTracestateKey \<noteq> OriginTraceparentKey"
  "OriginTraceparentKey \<notin> {''traceparent'', ''tracestate'', ''baggage''}" "OriginTraceparentKey \<noteq> ''traceparent''"
  by (simp_all add: OriginTraceparentKey_def OriginTracestateKey_def)

lemma origin_of_cases:
  "origin_of m = (if meta_get m OriginTraceparentKey \<noteq> [] then meta_get m OriginTraceparentKey else meta_get m ''traceparent'')"
  by (auto simp: origin_of_def origin_metadata_def origin_stamp_def Let_def)

context telemetry
begin

lemma handed_off_origin:
  assumes "handed_off pg tr row row'" "origin_of row \<noteq> []"
  shows "origin_of row' = origin_of row"
  using assms(1)
proof cases
  case (1 w c name opts w' c' sc)
  have "origin_metadata row \<noteq> fmempty" using assms(2) by (auto simp: origin_of_def)
  then have o: "tc_origin c' = origin_metadata row"
    using 1(2) by (auto simp: start_linked_def with_origin_def Let_def split: prod.splits)
  have "meta_get (context_metadata pg c') OriginTraceparentKey = origin_of row"
    using inject_others[OF origin_keys(3), of c' "tc_origin c'"] o
    by (simp add: context_metadata_def otel_inject_def origin_from_context_def origin_of_def)
  with 1(1) assms(2) show ?thesis by (auto simp: metadata_from_context_def Let_def origin_of_cases)
qed

end

text \<open>
  The first origin wins: a row that carries a trace, or the origin stamp of one, is worked under a
  new root span linked to that trace and to the worker's tick, and through any chain of such durable
  hand-offs every event carries the origin of the first.
\<close>

theorem first_origin_wins:
  assumes "telemetry pg ids tr" "rtranclp (handed_off pg tr) row row'" "origin_of row \<noteq> []"
  shows "origin_of row' = origin_of row \<and>
    (\<exists>start. sp_root start \<and> sp_links start = filter sx_valid [span_context_from pg row', tc_span c] \<and>
      start_linked tr pg w c name row' opts =
        (case tr_start tr w c start of (w1, sc) \<Rightarrow> (w1, with_origin (c\<lparr>tc_span := sc\<rparr>) row', sc)))"
proof -
  from assms(2) have "origin_of row' = origin_of row"
    by (induction rule: rtranclp_induct) (use assms(3) telemetry.handed_off_origin[OF assms(1)] in auto)
  then show ?thesis
    by (intro conjI exI[of _ "linked_start pg c name row' opts"]) (simp_all add: start_linked_def linked_start_def Let_def)
qed

section \<open>Where a publish stands\<close>

definition span_ids :: "span_context \<Rightarrow> 128 word \<times> 64 word" where
  "span_ids sc = (sx_trace sc, sx_span sc)"

definition live_contexts :: "propagator \<Rightarrow> 'p message list \<Rightarrow> span_context list" where
  "live_contexts pg msgs = map (\<lambda>m. live_span_context_from pg (m_meta m)) msgs"

lemma creation_loop_firsts:
  "creation_loop pg caller seen out k msgs =
    (out @ filter (\<lambda>sc. span_ids sc \<notin> set seen)
       (firsts span_ids (filter (\<lambda>sc. sx_valid sc \<and> span_ids sc \<noteq> caller) (live_contexts pg msgs))),
     k + length (filter sx_valid (live_contexts pg msgs)))"
proof (induction pg caller seen out k msgs rule: creation_loop.induct)
  case (2 pg caller seen out k m ms)
  let ?sc = "live_span_context_from pg (m_meta m)"
  note IH = "2.IH"[OF refl refl, folded span_ids_def]
  have f: "filter (\<lambda>sc. span_ids sc \<notin> set (span_ids ?sc # seen)) xs =
      filter (\<lambda>sc. span_ids sc \<notin> set seen) (filter (\<lambda>y. span_ids y \<noteq> span_ids ?sc) xs)" for xs
    by (simp add: conj_commute)
  have g: "span_ids ?sc \<in> set seen \<Longrightarrow> filter (\<lambda>x. span_ids x \<noteq> span_ids ?sc \<and> span_ids x \<notin> set seen) xs =
      filter (\<lambda>x. span_ids x \<notin> set seen) xs" for xs
    by (auto intro!: filter_cong)
  show ?case
    using IH by (auto simp: Let_def live_contexts_def span_ids_def[symmetric] f g)
qed (simp add: live_contexts_def)

lemma creation_contexts_firsts:
  "creation_contexts pg msgs caller =
    (firsts span_ids (filter (\<lambda>sc. sx_valid sc \<and> span_ids sc \<noteq> span_ids caller) (live_contexts pg msgs)),
     length (filter sx_valid (live_contexts pg msgs)))"
  by (simp add: creation_contexts_def creation_loop_firsts flip: span_ids_def)

text \<open>The contexts a batch carries besides the caller's own, each once.\<close>

definition other_contexts :: "propagator \<Rightarrow> trace_ctx \<Rightarrow> 'p message list \<Rightarrow> span_context list" where
  "other_contexts pg c msgs = firsts span_ids
     (filter (\<lambda>sc. sx_valid sc \<and> span_ids sc \<noteq> span_ids (tc_span c)) (live_contexts pg msgs))"

text \<open>
  Where a publish stands: it becomes a child of its messages' context exactly when the caller has
  no span and every message carries that one context, so that no message is put under a trace it does
  not belong to; otherwise it stays where the caller is and links to the distinct other contexts, in the
  order met, eight at most.
\<close>

theorem publish_takes_parent_from_batch:
  assumes "publish_span_start pg c topic msgs = (c', start)"
  shows "if \<not> sx_valid (tc_span c) \<and> length (other_contexts pg c msgs) = 1 \<and> (\<forall>sc\<in>set (live_contexts pg msgs). sx_valid sc)
    then c' = c\<lparr>tc_span := hd (other_contexts pg c msgs)\<rparr> \<and> sp_links start = [] \<and>
      (\<forall>m\<in>set msgs. span_ids (live_span_context_from pg (m_meta m)) = span_ids (tc_span c'))
    else c' = c \<and> sp_links start = take 8 (other_contexts pg c msgs)"
proof -
  let ?os = "other_contexts pg c msgs" and ?live = "live_contexts pg msgs"
  have cc: "creation_contexts pg msgs (tc_span c) = (?os, length (filter sx_valid ?live))"
    by (simp add: creation_contexts_firsts other_contexts_def)
  have l: "length ?live = length msgs" by (simp add: live_contexts_def)
  have len: "length (filter sx_valid ?live) = length msgs \<longleftrightarrow> (\<forall>sc\<in>set ?live. sx_valid sc)"
    unfolding l[symmetric] by (metis length_filter_less less_irrefl filter_True)
  show ?thesis
  proof (cases "\<not> sx_valid (tc_span c) \<and> length ?os = 1 \<and> (\<forall>sc\<in>set ?live. sx_valid sc)")
    case True
    then obtain sc where sc: "?os = [sc]" by (auto simp: length_Suc_conv)
    have all: "filter (\<lambda>sc. sx_valid sc \<and> span_ids sc \<noteq> span_ids (tc_span c)) ?live = ?live"
      using True by (auto simp: filter_id_conv span_ids_def sx_valid_def)
    have "span_ids ` set ?live = {span_ids sc}"
      using arg_cong[OF sc, of "\<lambda>xs. span_ids ` set xs"] unfolding other_contexts_def all firsts_keys by simp
    then have same: "\<forall>m\<in>set msgs. span_ids (live_span_context_from pg (m_meta m)) = span_ids sc"
      by (auto simp: live_contexts_def)
    have "length (filter sx_valid ?live) = length msgs" using True len by blast
    then have "c' = c\<lparr>tc_span := sc\<rparr> \<and> sp_links start = []"
      using assms cc True sc by (auto simp: publish_span_start_def Let_def)
    with True sc same show ?thesis by simp
  next
    case False
    then have "\<not> (\<not> sx_valid (tc_span c) \<and> length ?os = 1 \<and> length (filter sx_valid ?live) = length msgs)" using len by blast
    then have r: "c' = c \<and> sp_links start = take 8 ?os"
      using assms cc by (auto simp: publish_span_start_def Let_def publishLinkCap_def split: if_splits)
    show ?thesis unfolding if_not_P[OF False] by (rule r)
  qed
qed

section \<open>Traceparents of W3C\<close>

text \<open>The text a trace context is carried in: version, trace ID, span ID and flags.\<close>

definition hex_value :: "char \<Rightarrow> nat" where
  "hex_value c = (let n = of_char c in if n \<le> 57 then n - 48 else n - 87)"

definition parse_hex :: "string \<Rightarrow> nat" where
  "parse_hex cs = foldl (\<lambda>n c. 16 * n + hex_value c) 0 cs"

definition traceparent :: "span_context \<Rightarrow> string" where
  "traceparent sc = ''00-'' @ hex_text 32 (unat (sx_trace sc)) @ ''-'' @ hex_text 16 (unat (sx_span sc)) @
     (if sx_sampled sc then ''-01'' else ''-00'')"

definition w3c_ids :: "string \<Rightarrow> (128 word \<times> 64 word) option" where
  "w3c_ids tp = (let ts = take 32 (drop 3 tp); ss = take 16 (drop 36 tp);
       t = word_of_nat (parse_hex ts); s = word_of_nat (parse_hex ss) in
     if length tp = 55 \<and> take 3 tp = ''00-'' \<and> tp ! 35 = CHR ''-'' \<and> tp ! 52 = CHR ''-'' \<and>
        list_all is_lower_hex (ts @ ss) \<and> t \<noteq> 0 \<and> s \<noteq> 0
     then Some (t, s) else None)"

definition w3c_propagator :: propagator where
  "w3c_propagator =
     \<lparr>pg_inject = (\<lambda>c m.
        let m1 = fmupd ''traceparent'' (traceparent (tc_span c)) m;
            m2 = if sx_state (tc_span c) = [] then m1 else fmupd ''tracestate'' (sx_state (tc_span c)) m1
        in if tc_baggage c = [] then m2 else fmupd ''baggage'' (tc_baggage c) m2),
      pg_extract = (\<lambda>c m.
        let c1 = (case w3c_ids (meta_get m ''traceparent'') of None \<Rightarrow> c
              | Some (t, s) \<Rightarrow> c\<lparr>tc_span := \<lparr>sx_trace = t, sx_span = s,
                  sx_sampled = (meta_get m ''traceparent'' ! 54 = CHR ''1''), sx_state = meta_get m ''tracestate''\<rparr>\<rparr>)
        in if meta_get m ''baggage'' = [] then c1 else c1\<lparr>tc_baggage := meta_get m ''baggage''\<rparr>)\<rparr>"

text \<open>A tracer that numbers its spans and keeps them.\<close>

definition keeping_tracer :: "(nat \<times> (span_start \<times> span_context) list) tracer" where
  "keeping_tracer =
     \<lparr>tr_start = (\<lambda>(n, spans) c st.
        let fresh = 1 + word_of_nat n;
            sc = \<lparr>sx_trace = (if sp_root st \<or> \<not> sx_valid (tc_span c) then (if 1 + word_of_nat n = (0 :: 128 word) then 1 else 1 + word_of_nat n)
                  else sx_trace (tc_span c)),
                  sx_span = (if fresh = 0 then 1 else fresh), sx_sampled = True, sx_state = []\<rparr>
        in ((n + 1, spans @ [(st, sc)]), sc)),
      tr_end = (\<lambda>w sc e. w)\<rparr>"

lemma hex_text_length [simp]: "length (hex_text k n) = k"
  by (induction k arbitrary: n) simp_all

lemma hex_value_digit: "d < 16 \<Longrightarrow> hex_value (hex_digit d) = d"
proof -
  have "\<forall>d\<in>{0..<16}. hex_value (hex_digit d) = d" by code_simp
  then show "d < 16 \<Longrightarrow> hex_value (hex_digit d) = d" by simp
qed

lemma parse_hex_text: "n < 16 ^ k \<Longrightarrow> parse_hex (hex_text k n) = n"
proof (induction k arbitrary: n)
  case (Suc k)
  then have "n div 16 < 16 ^ k" by (simp add: less_mult_imp_div_less mult.commute)
  from Suc.IH[OF this] show ?case by (simp add: parse_hex_def hex_value_digit)
qed (simp add: parse_hex_def)

lemma hex_text_lower: "list_all is_lower_hex (hex_text k n)"
  by (induction k arbitrary: n) (simp_all add: hex_digit_ok)

lemma traceparent_parts:
  assumes "length T = 32" "length S = 16" "length F = 3" "tp = ''00-'' @ T @ ''-'' @ S @ F"
  shows "length tp = 55" "take 3 tp = ''00-''" "take 32 (drop 3 tp) = T" "tp ! 35 = CHR ''-''"
    "take 16 (drop 36 tp) = S" "tp ! 52 = F ! 0"
  using assms by (simp_all add: nth_append)

lemma w3c_traceparent:
  assumes "sx_valid sc" shows "w3c_ids (traceparent sc) = Some (sx_trace sc, sx_span sc)"
proof -
  let ?F = "if sx_sampled sc then ''-01'' else ''-00''"
  have "unat (sx_trace sc) < 16 ^ 32" "unat (sx_span sc) < 16 ^ 16"
    using unsigned_less[of "sx_trace sc", where ?'a = nat] unsigned_less[of "sx_span sc", where ?'a = nat] by simp_all
  then have v: "parse_hex (hex_text 32 (unat (sx_trace sc))) = unat (sx_trace sc)"
    "parse_hex (hex_text 16 (unat (sx_span sc))) = unat (sx_span sc)" by (simp_all only: parse_hex_text)
  have F: "length ?F = 3" "?F ! 0 = CHR ''-''" by simp_all
  note p = traceparent_parts[OF hex_text_length hex_text_length F(1) traceparent_def[of sc]]
  show ?thesis
    unfolding w3c_ids_def Let_def p F(2) v list_all_append
    using assms hex_text_lower by (simp add: sx_valid_def)
qed

interpretation w3c: telemetry w3c_propagator w3c_ids keeping_tracer
proof
  show "w3c_ids [] = None" by (simp add: w3c_ids_def Let_def)
next
  fix tp t s assume "w3c_ids tp = Some (t, s)"
  then show "t \<noteq> 0 \<and> s \<noteq> 0" by (auto simp: w3c_ids_def Let_def split: if_splits)
next
  fix m and c :: trace_ctx
  show "case w3c_ids (meta_get m ''traceparent'') of
      None \<Rightarrow> tc_span (pg_extract w3c_propagator c m) = tc_span c
    | Some (t, s) \<Rightarrow> sx_trace (tc_span (pg_extract w3c_propagator c m)) = t \<and>
        sx_span (tc_span (pg_extract w3c_propagator c m)) = s"
    by (auto simp: w3c_propagator_def Let_def split: option.splits)
  show "tc_origin (pg_extract w3c_propagator c m) = tc_origin c"
    by (auto simp: w3c_propagator_def Let_def split: option.splits)
next
  fix m and c :: trace_ctx assume "sx_valid (tc_span c)"
  then show "w3c_ids (meta_get (pg_inject w3c_propagator c m) ''traceparent'') = Some (sx_trace (tc_span c), sx_span (tc_span c))"
    by (simp add: w3c_propagator_def Let_def w3c_traceparent)
next
  fix k m and c :: trace_ctx assume "k \<notin> {''traceparent'', ''tracestate'', ''baggage''}"
  then show "meta_get (pg_inject w3c_propagator c m) k = meta_get m k"
    by (simp add: w3c_propagator_def Let_def)
next
  fix w w' :: "nat \<times> (span_start \<times> span_context) list" and c st sc
  assume "tr_start keeping_tracer w c st = (w', sc)" "\<not> sp_root st" "sx_valid (tc_span c)"
  then show "sx_valid sc \<and> sx_trace sc = sx_trace (tc_span c)"
    by (cases w) (auto simp: keeping_tracer_def Let_def sx_valid_def split: if_splits)
qed

section \<open>Start-up and shutdown\<close>

text \<open>
  What \<open>Init\<close> does with the SDK: the propagator and the event-store hook are set, the logger is set
  up with one sink or two, and each signal's exporter is built and its provider installed. The error
  of a shutdown is the list of errors that are joined.
\<close>

datatype signal = Traces | Logs | Metrics

record o11y_config =
  oc_service :: string
  oc_endpoint :: string
  oc_without_exporter :: bool

record 'w otel_sdk =
  sk_globals :: "'w \<Rightarrow> 'w"
  sk_logger :: "string \<Rightarrow> bool \<Rightarrow> 'w \<Rightarrow> 'w"
  sk_resource :: "string \<Rightarrow> 'w \<Rightarrow> 'w \<times> gerr option"
  sk_exporter :: "signal \<Rightarrow> string option \<Rightarrow> 'w \<Rightarrow> 'w \<times> gerr option"
  sk_install :: "signal \<Rightarrow> 'w \<Rightarrow> 'w"
  sk_shutdown :: "signal \<Rightarrow> 'w \<Rightarrow> 'w \<times> gerr option"

text \<open>\<open>None\<close>: the exporter reads the environment.\<close>

definition otlp_options :: "o11y_config \<Rightarrow> string option" where
  "otlp_options cfg = (if oc_endpoint cfg = [] then None else Some (oc_endpoint cfg))"

fun flush_all :: "'w otel_sdk \<Rightarrow> 'w \<Rightarrow> signal list \<Rightarrow> 'w \<times> gerr list" where
  "flush_all sk w [] = (w, [])"
| "flush_all sk w (s # ss) =
     (case sk_shutdown sk s w of (w1, err) \<Rightarrow>
      case flush_all sk w1 ss of (w2, errs) \<Rightarrow> (w2, (case err of None \<Rightarrow> errs | Some e \<Rightarrow> e # errs)))"

text \<open>The shutdown that is returned flushes the signals of the list.\<close>

definition o11y_init :: "'w otel_sdk \<Rightarrow> o11y_config \<Rightarrow> 'w \<Rightarrow> 'w \<times> signal list res" where
  "o11y_init sk cfg w =
     (let w = sk_logger sk (oc_service cfg) False (sk_globals sk w);
          fail = (\<lambda>w shutdowns err. (fst (flush_all sk w shutdowns), Inl err)) in
      if oc_without_exporter cfg then (w, Inr [])
      else case sk_resource sk (oc_service cfg) w of
        (w, Some err) \<Rightarrow> (w, Inl (Wrapf ''o11y: resource: %w'' [] err))
      | (w, None) \<Rightarrow>
      (case sk_exporter sk Traces (otlp_options cfg) w of
        (w, Some err) \<Rightarrow> fail w [] (Wrapf ''o11y: trace exporter: %w'' [] err)
      | (w, None) \<Rightarrow> let w = sk_install sk Traces w in
      (case sk_exporter sk Logs (otlp_options cfg) w of
        (w, Some err) \<Rightarrow> fail w [Traces] (Wrapf ''o11y: log exporter: %w'' [] err)
      | (w, None) \<Rightarrow> let w = sk_logger sk (oc_service cfg) True (sk_install sk Logs w) in
      (case sk_exporter sk Metrics (otlp_options cfg) w of
        (w, Some err) \<Rightarrow> fail w [Traces, Logs] (Wrapf ''o11y: metric exporter: %w'' [] err)
      | (w, None) \<Rightarrow> (sk_install sk Metrics w, Inr [Traces, Logs, Metrics])))))"

text \<open>\<open>up\<close>: the providers that were installed and not shut down.\<close>

definition tracks_providers :: "'w otel_sdk \<Rightarrow> ('w \<Rightarrow> signal set) \<Rightarrow> bool" where
  "tracks_providers sk up \<longleftrightarrow> (\<forall>w s b n o1. up (sk_globals sk w) = up w \<and> up (sk_logger sk n b w) = up w \<and>
     up (fst (sk_resource sk n w)) = up w \<and> up (fst (sk_exporter sk s o1 w)) = up w \<and>
     up (sk_install sk s w) = insert s (up w) \<and> up (fst (sk_shutdown sk s w)) = up w - {s})"

lemma flush_all_up: "tracks_providers sk up \<Longrightarrow> up (fst (flush_all sk w ss)) = up w - set ss"
proof (induction ss arbitrary: w)
  case (Cons s ss)
  obtain w1 e where s: "sk_shutdown sk s w = (w1, e)" by force
  have "up w1 = up w - {s}" using Cons.prems s unfolding tracks_providers_def by (metis fst_conv)
  moreover obtain w2 errs where f: "flush_all sk w1 ss = (w2, errs)" by force
  ultimately have "up w2 = up w - {s} - set ss" using Cons.IH[OF Cons.prems, of w1] by simp
  then show ?case using s f by auto
qed simp

text \<open>A failed start leaves no provider behind, and the shutdown of a good one stops them all.\<close>

lemma init_leaks_nothing:
  assumes "tracks_providers sk up" "up w = {}" "o11y_init sk cfg w = (w', r)"
  shows "case r of Inl err \<Rightarrow> up w' = {} | Inr shutdowns \<Rightarrow> up w' = set shutdowns \<and> up (fst (flush_all sk w' shutdowns)) = {}"
proof -
  note t = assms(1)[unfolded tracks_providers_def, rule_format]
  have e: "sk_exporter sk s o1 v = (v', x) \<Longrightarrow> up v' = up v" for s o1 v v' x using t by (metis fst_conv)
  have q: "sk_resource sk n v = (v', x) \<Longrightarrow> up v' = up v" for n v v' x using t by (metis fst_conv)
  have g: "up (sk_globals sk v) = up v" "up (sk_logger sk n b v) = up v" "up (sk_install sk s v) = insert s (up v)" for v n b s
    using t by blast+
  from assms(2,3) show ?thesis
    by (auto simp: o11y_init_def Let_def g e q flush_all_up[OF assms(1)] simp del: flush_all.simps dest!: e q split: if_splits prod.splits option.splits)
qed

section \<open>Logs\<close>

text \<open>
  The handlers of \<open>o11y/log.go\<close> over sinks of other libraries, which may be disabled for a level and
  may fail. \<open>Handle\<close> answers the errors that are joined.
\<close>

datatype 'h slog_handler = Sink 'h | LogHandler "'h slog_handler" | Fanout "'h slog_handler list"

record log_record =
  lr_level :: int
  lr_text :: string
  lr_attrs :: "(string \<times> string) list"

record ('w, 'h) sinks =
  sl_enabled :: "'h \<Rightarrow> int \<Rightarrow> bool"
  sl_handle :: "'h \<Rightarrow> trace_ctx \<Rightarrow> log_record \<Rightarrow> 'w \<Rightarrow> 'w \<times> gerr option"
  sl_with_attrs :: "(string \<times> string) list \<Rightarrow> 'h \<Rightarrow> 'h"
  sl_with_group :: "string \<Rightarrow> 'h \<Rightarrow> 'h"

fun slog_enabled :: "('w, 'h) sinks \<Rightarrow> int \<Rightarrow> 'h slog_handler \<Rightarrow> bool" where
  "slog_enabled sl level (Sink h) = sl_enabled sl h level"
| "slog_enabled sl level (LogHandler h) = slog_enabled sl level h"
| "slog_enabled sl level (Fanout hs) = (\<exists>h\<in>set hs. slog_enabled sl level h)"

definition correlated :: "trace_ctx \<Rightarrow> log_record \<Rightarrow> log_record" where
  "correlated c rec = (if sx_valid (tc_span c)
     then rec\<lparr>lr_attrs := lr_attrs rec @ [(''trace_id'', hex_text 32 (unat (sx_trace (tc_span c)))),
       (''span_id'', hex_text 16 (unat (sx_span (tc_span c))))]\<rparr>
     else rec)"

fun slog_handle :: "('w, 'h) sinks \<Rightarrow> trace_ctx \<Rightarrow> 'h slog_handler \<Rightarrow> log_record \<Rightarrow> 'w \<Rightarrow> 'w \<times> gerr list" where
  "slog_handle sl c (Sink h) rec w = (case sl_handle sl h c rec w of (w1, None) \<Rightarrow> (w1, []) | (w1, Some err) \<Rightarrow> (w1, [err]))"
| "slog_handle sl c (LogHandler h) rec w = slog_handle sl c h (correlated c rec) w"
| "slog_handle sl c (Fanout hs) rec w =
     fold (\<lambda>h (w, errs). if slog_enabled sl (lr_level rec) h
       then (case slog_handle sl c h rec w of (w1, errs') \<Rightarrow> (w1, errs @ errs')) else (w, errs)) hs (w, [])"

fun slog_with_attrs :: "('w, 'h) sinks \<Rightarrow> (string \<times> string) list \<Rightarrow> 'h slog_handler \<Rightarrow> 'h slog_handler" where
  "slog_with_attrs sl as (Sink h) = Sink (sl_with_attrs sl as h)"
| "slog_with_attrs sl as (LogHandler h) = LogHandler (slog_with_attrs sl as h)"
| "slog_with_attrs sl as (Fanout hs) = Fanout (map (slog_with_attrs sl as) hs)"

fun slog_with_group :: "('w, 'h) sinks \<Rightarrow> string \<Rightarrow> 'h slog_handler \<Rightarrow> 'h slog_handler" where
  "slog_with_group sl name (Sink h) = Sink (sl_with_group sl name h)"
| "slog_with_group sl name (LogHandler h) = LogHandler (slog_with_group sl name h)"
| "slog_with_group sl name (Fanout hs) = Fanout (map (slog_with_group sl name) hs)"

text \<open>The second sink is the bridge to the log provider, if there is one.\<close>

definition new_slog_handler :: "'h \<Rightarrow> 'h option \<Rightarrow> 'h slog_handler" where
  "new_slog_handler stdout provider = (case provider of
     None \<Rightarrow> LogHandler (Sink stdout)
   | Some h \<Rightarrow> Fanout [LogHandler (Sink stdout), Sink h])"

text \<open>Both sinks get the record, the first with the trace IDs, whether or not the other fails.\<close>

lemma both_sinks_get_the_record:
  assumes "sl_enabled sl out (lr_level rec)" "sl_enabled sl otlp (lr_level rec)"
    and "sl_handle sl out c (correlated c rec) w = (w1, e1)" "sl_handle sl otlp c rec w1 = (w2, e2)"
  shows "slog_handle sl c (new_slog_handler out (Some otlp)) rec w =
    (w2, (case e1 of None \<Rightarrow> [] | Some e \<Rightarrow> [e]) @ (case e2 of None \<Rightarrow> [] | Some e \<Rightarrow> [e]))"
  using assms by (cases e1; cases e2) (simp_all add: new_slog_handler_def)

section \<open>Witnesses\<close>

definition demo_request :: trace_ctx where
  "demo_request = background\<lparr>tc_span := \<lparr>sx_trace = 5, sx_span = 7, sx_sampled = True, sx_state = []\<rparr>\<rparr>"

lemma demo_request_valid: "sx_valid (tc_span demo_request)"
  by (simp add: demo_request_def sx_valid_def)

definition demo_stamped :: metadata where
  "demo_stamped = metadata_from_context (Some (context_metadata w3c_propagator)) demo_request"

definition demo_traced_message :: "json message" where
  "demo_traced_message = \<lparr>m_id = ''m1'', m_key = ''42'', m_type = ''order.placed'', m_version = 1, m_at = 1, m_payload = JNull,
     m_meta = demo_stamped\<rparr>"

lemma demo_stamped_ids: "w3c_ids (meta_get demo_stamped ''traceparent'') = Some (5, 7)"
  using w3c.saved_ids[OF demo_request_valid] by (simp add: demo_stamped_def demo_request_def)


theorem first_origin_wins_witness:
  "\<exists>row'. handed_off w3c_propagator keeping_tracer demo_stamped row' \<and>
     origin_of row' = meta_get demo_stamped ''traceparent'' \<and> origin_of row' \<noteq> []"
proof -
  obtain w' c' sc where s: "start_linked keeping_tracer w3c_propagator (0, []) background ''notify'' demo_stamped [] = (w', c', sc)"
    by (metis prod_cases3)
  let ?row = "metadata_from_context (Some (context_metadata w3c_propagator)) c'"
  have h: "handed_off w3c_propagator keeping_tracer demo_stamped ?row" using s by (rule handed_off.intros)
  have ne: "meta_get demo_stamped ''traceparent'' \<noteq> []"
    using demo_stamped_ids w3c.ids_empty by (metis option.distinct(1))
  have "meta_get demo_stamped OriginTraceparentKey = []"
    by (simp add: demo_stamped_def metadata_from_context_def context_metadata_def otel_inject_def demo_request_def sx_valid_def
        w3c_propagator_def background_def origin_from_context_def OriginTraceparentKey_def Let_def)
  then have o: "origin_of demo_stamped = meta_get demo_stamped ''traceparent''" by (simp add: origin_of_cases)
  then have n: "origin_of demo_stamped \<noteq> []" using ne by simp
  have "rtranclp (handed_off w3c_propagator keeping_tracer) demo_stamped ?row" using h by (rule r_into_rtranclp)
  from conjunct1[OF first_origin_wins[OF w3c.telemetry_axioms this n]] o
  have "origin_of ?row = meta_get demo_stamped ''traceparent''" by simp
  with h ne show ?thesis by auto
qed

theorem publish_takes_parent_from_batch_witness:
  "span_ids (tc_span (fst (publish_span_start w3c_propagator background ''t'' [demo_traced_message, demo_traced_message]))) = (5, 7)"
proof -
  obtain c' start where p: "publish_span_start w3c_propagator background ''t'' [demo_traced_message, demo_traced_message] = (c', start)"
    by force
  have i: "w3c_ids (meta_get (m_meta demo_traced_message) ''traceparent'') = Some (5, 7)"
    by (simp add: demo_traced_message_def demo_stamped_ids)
  let ?sc = "live_span_context_from w3c_propagator (m_meta demo_traced_message)"
  have sc: "span_ids ?sc = (5, 7)" "sx_valid ?sc" using w3c.live_ids(1)[of "m_meta demo_traced_message"] w3c.live_ids(2)[OF i] i
    by (auto simp: span_ids_def)
  then have o: "other_contexts w3c_propagator background [demo_traced_message, demo_traced_message] = [?sc]"
    by (simp add: other_contexts_def live_contexts_def background_def no_span_def span_ids_def)
  have "\<not> sx_valid (tc_span background)" by (simp add: background_def no_span_def sx_valid_def)
  with publish_takes_parent_from_batch[OF p] o sc show ?thesis by (simp add: live_contexts_def p)
qed

end
