(* ===== verification/Storetest.thy ===== *)
theory Storetest
  imports Postgres
begin

text \<open>
  The conformance suites for adapters (\<open>eventstore/storetest/storetest.go\<close> and
  \<open>eventstore/storetest/checkpoints.go\<close>): every subtest as the calls it makes on a fresh store and
  whether it passes. A subtest that calls \<open>Fatalf\<close> or \<open>Errorf\<close>, or indexes past the end of a result,
  fails. The suites are then met by every store that keeps the port's contract.
\<close>

section \<open>The suite for event stores\<close>

definition t_stream :: stream_id where "t_stream = \<lparr>si_category = ''order'', si_id = ''42''\<rparr>"
definition t_other :: stream_id where "t_other = \<lparr>si_category = ''order'', si_id = ''43''\<rparr>"

text \<open>The payload is the JSON document \<open>{"n":1}\<close>, which may come back with a space; both spellings are given.\<close>

record 'p t_payload =
  tp_sent :: 'p
  tp_spaced :: 'p

definition t_ev :: "'p t_payload \<Rightarrow> string \<Rightarrow> 'p event_data" where
  "t_ev p name = \<lparr>ed_name = name, ed_schema = 1, ed_payload = tp_sent p, ed_meta = fmempty\<rparr>"

text \<open>\<open>None\<close>: the append failed, and with it the subtest.\<close>

definition must_append :: "('w, 'p) store_ops \<Rightarrow> 'w \<Rightarrow> stream_id \<Rightarrow> int \<Rightarrow> 'p event_data list \<Rightarrow> 'w option" where
  "must_append s w st expected evs = (case st_append s w st expected evs of
     (w1, Inl err) \<Rightarrow> None | (w1, Inr seq) \<Rightarrow> Some w1)"

text \<open>What a call leaves whose error is not looked at.\<close>

fun or_nil :: "'a list res \<Rightarrow> 'a list" where
  "or_nil (Inl err) = []"
| "or_nil (Inr xs) = xs"

fun is_conflict :: "'a res \<Rightarrow> bool" where
  "is_conflict (Inl err) = errors_is err ErrVersionConflict"
| "is_conflict (Inr a) = False"

definition append_then_load :: "('w, 'p) store_ops \<Rightarrow> 'p t_payload \<Rightarrow> 'w \<Rightarrow> bool" where
  "append_then_load s p w =
     (case must_append s w t_stream 0 [t_ev p ''a'', t_ev p ''b''] of
        None \<Rightarrow> False
      | Some w1 \<Rightarrow>
          (case st_load s w1 t_stream 0 of
             (w2, Inl err) \<Rightarrow> False
           | (w2, Inr recs) \<Rightarrow> length recs = 2 \<and>
               (\<forall>i<length recs. rec_version (recs ! i) = int i + 1 \<and> rec_stream (recs ! i) = t_stream \<and> rec_at (recs ! i) \<noteq> 0) \<and>
               rec_name (recs ! 0) = ''a'' \<and> rec_name (recs ! 1) = ''b'' \<and> rec_schema (recs ! 0) = 1 \<and>
               (rec_payload (recs ! 0) = tp_sent p \<or> rec_payload (recs ! 0) = tp_spaced p)))"

definition append_continues_version :: "('w, 'p) store_ops \<Rightarrow> 'p t_payload \<Rightarrow> 'w \<Rightarrow> bool" where
  "append_continues_version s p w =
     (case must_append s w t_stream 0 [t_ev p ''a''] of None \<Rightarrow> False | Some w1 \<Rightarrow>
      case must_append s w1 t_stream 1 [t_ev p ''b''] of None \<Rightarrow> False | Some w2 \<Rightarrow>
      case st_load s w2 t_stream 0 of (w3, r) \<Rightarrow>
        length (or_nil r) = 2 \<and> rec_version (or_nil r ! 1) = 2)"

definition stale_append_conflicts :: "('w, 'p) store_ops \<Rightarrow> 'p t_payload \<Rightarrow> 'w \<Rightarrow> bool" where
  "stale_append_conflicts s p w =
     (case must_append s w t_stream 0 [t_ev p ''a''] of None \<Rightarrow> False | Some w1 \<Rightarrow>
      case st_append s w1 t_stream 0 [t_ev p ''b''] of (w2, r) \<Rightarrow>
      is_conflict r \<and> (case st_load s w2 t_stream 0 of (w3, r) \<Rightarrow> length (or_nil r) = 1))"

definition concurrent_create_conflicts :: "('w, 'p) store_ops \<Rightarrow> 'p t_payload \<Rightarrow> 'w \<Rightarrow> bool" where
  "concurrent_create_conflicts s p w =
     (case must_append s w t_stream 0 [t_ev p ''a''] of None \<Rightarrow> False | Some w1 \<Rightarrow>
      is_conflict (snd (st_append s w1 t_stream 0 [t_ev p ''a''])))"

definition future_version_conflicts :: "('w, 'p) store_ops \<Rightarrow> 'p t_payload \<Rightarrow> 'w \<Rightarrow> bool" where
  "future_version_conflicts s p w = is_conflict (snd (st_append s w t_stream 5 [t_ev p ''a'']))"

definition load_after_version :: "('w, 'p) store_ops \<Rightarrow> 'p t_payload \<Rightarrow> 'w \<Rightarrow> bool" where
  "load_after_version s p w =
     (case must_append s w t_stream 0 [t_ev p ''a'', t_ev p ''b'', t_ev p ''c''] of None \<Rightarrow> False | Some w1 \<Rightarrow>
      case st_load s w1 t_stream 2 of
        (w2, Inl err) \<Rightarrow> False
      | (w2, Inr recs) \<Rightarrow> length recs = 1 \<and> rec_name (recs ! 0) = ''c'')"

definition missing_stream_loads_empty :: "('w, 'p) store_ops \<Rightarrow> 'w \<Rightarrow> bool" where
  "missing_stream_loads_empty s w =
     (case st_load s w \<lparr>si_category = ''ghost'', si_id = ''0''\<rparr> 0 of
        (w1, Inl err) \<Rightarrow> False
      | (w1, Inr recs) \<Rightarrow> length recs = 0)"

definition streams_are_isolated :: "('w, 'p) store_ops \<Rightarrow> 'p t_payload \<Rightarrow> 'w \<Rightarrow> bool" where
  "streams_are_isolated s p w =
     (case must_append s w t_stream 0 [t_ev p ''a''] of None \<Rightarrow> False | Some w1 \<Rightarrow>
      case must_append s w1 t_other 0 [t_ev p ''b''] of None \<Rightarrow> False | Some w2 \<Rightarrow>
      case st_load s w2 t_stream 0 of (w3, r) \<Rightarrow> length (or_nil r) = 1 \<and> rec_name (or_nil r ! 0) = ''a'')"

definition readall_tails_in_order :: "('w, 'p) store_ops \<Rightarrow> 'p t_payload \<Rightarrow> 'w \<Rightarrow> bool" where
  "readall_tails_in_order s p w =
     (case must_append s w t_stream 0 [t_ev p ''a''] of None \<Rightarrow> False | Some w1 \<Rightarrow>
      case must_append s w1 t_other 0 [t_ev p ''b''] of None \<Rightarrow> False | Some w2 \<Rightarrow>
      case must_append s w2 t_stream 1 [t_ev p ''c''] of None \<Rightarrow> False | Some w3 \<Rightarrow>
      case st_read_all s w3 0 0 of
        (w4, Inl err) \<Rightarrow> False
      | (w4, Inr recs) \<Rightarrow> length recs = 3 \<and> sorted_wrt (<) (0 # map rec_seq recs) \<and>
          rec_name (recs ! 0) = ''a'' \<and> rec_name (recs ! 1) = ''b'' \<and> rec_name (recs ! 2) = ''c'' \<and>
          (case st_read_all s w4 (rec_seq (recs ! 1)) 0 of
             (w5, Inl err) \<Rightarrow> False
           | (w5, Inr tail) \<Rightarrow> length tail = 1 \<and> rec_name (tail ! 0) = ''c''))"

definition readall_honors_limit :: "('w, 'p) store_ops \<Rightarrow> 'p t_payload \<Rightarrow> 'w \<Rightarrow> bool" where
  "readall_honors_limit s p w =
     (case must_append s w t_stream 0 [t_ev p ''a'', t_ev p ''b'', t_ev p ''c''] of None \<Rightarrow> False | Some w1 \<Rightarrow>
      case st_read_all s w1 0 2 of
        (w2, Inl err) \<Rightarrow> False
      | (w2, Inr recs) \<Rightarrow> length recs = 2)"

definition metadata_round_trips :: "('w, 'p) store_ops \<Rightarrow> 'p t_payload \<Rightarrow> 'w \<Rightarrow> bool" where
  "metadata_round_trips s p w =
     (case must_append s w t_stream 0 [(t_ev p ''a'')\<lparr>ed_meta := fmupd ''traceparent'' ''00-abc-def-01'' fmempty\<rparr>] of
        None \<Rightarrow> False
      | Some w1 \<Rightarrow>
          (case st_load s w1 t_stream 0 of (w2, r) \<Rightarrow>
             or_nil r \<noteq> [] \<and> meta_get (rec_meta (or_nil r ! 0)) ''traceparent'' = ''00-abc-def-01''))"

definition empty_append_is_noop :: "('w, 'p) store_ops \<Rightarrow> 'w \<Rightarrow> bool" where
  "empty_append_is_noop s w =
     (case st_append s w t_stream 0 [] of
        (w1, Inl err) \<Rightarrow> False
      | (w1, Inr seq) \<Rightarrow> seq = 0 \<and> (case st_read_all s w1 0 0 of (w2, r) \<Rightarrow> length (or_nil r) = 0))"

definition append_returns_last_seq :: "('w, 'p) store_ops \<Rightarrow> 'p t_payload \<Rightarrow> 'w \<Rightarrow> bool" where
  "append_returns_last_seq s p w =
     (case st_append s w t_stream 0 [t_ev p ''a'', t_ev p ''b''] of
        (w1, Inl err) \<Rightarrow> False
      | (w1, Inr seq1) \<Rightarrow>
          (case st_append s w1 t_other 0 [t_ev p ''c''] of
             (w2, Inl err) \<Rightarrow> False
           | (w2, Inr seq2) \<Rightarrow> seq1 < seq2 \<and>
               (case st_read_all s w2 0 0 of
                  (w3, Inl err) \<Rightarrow> False
                | (w3, Inr recs) \<Rightarrow> 2 < length recs \<and> rec_seq (recs ! 1) = seq1 \<and> rec_seq (recs ! 2) = seq2)))"

definition head_of_empty_is_zero :: "('w, 'p) store_ops \<Rightarrow> 'w \<Rightarrow> bool" where
  "head_of_empty_is_zero s w = (case st_head s w of (w1, Inl err) \<Rightarrow> False | (w1, Inr head) \<Rightarrow> head = 0)"

definition head_is_last_seq :: "('w, 'p) store_ops \<Rightarrow> 'p t_payload \<Rightarrow> 'w \<Rightarrow> bool" where
  "head_is_last_seq s p w =
     (case st_append s w t_stream 0 [t_ev p ''a'', t_ev p ''b''] of (w1, Inl err) \<Rightarrow> False | (w1, Inr seq) \<Rightarrow>
      case st_head s w1 of (w2, Inl err) \<Rightarrow> False | (w2, Inr head) \<Rightarrow>
      head = seq \<and>
      (case st_append s w2 t_other 0 [t_ev p ''c''] of (w3, Inl err) \<Rightarrow> False | (w3, Inr seq) \<Rightarrow>
       case st_head s w3 of (w4, Inl err) \<Rightarrow> False | (w4, Inr head) \<Rightarrow> head = seq))"

definition head_ends_tailing_read :: "('w, 'p) store_ops \<Rightarrow> 'p t_payload \<Rightarrow> 'w \<Rightarrow> bool" where
  "head_ends_tailing_read s p w =
     (case must_append s w t_stream 0 [t_ev p ''a'', t_ev p ''b''] of None \<Rightarrow> False | Some w1 \<Rightarrow>
      case must_append s w1 t_other 0 [t_ev p ''c''] of None \<Rightarrow> False | Some w2 \<Rightarrow>
      case st_head s w2 of (w3, Inl err) \<Rightarrow> False | (w3, Inr head) \<Rightarrow>
      case st_read_all s w3 0 0 of (w4, Inl err) \<Rightarrow> False | (w4, Inr recs) \<Rightarrow>
      recs \<noteq> [] \<and> rec_seq (recs ! (length recs - 1)) = head \<and>
      (case st_read_all s w4 head 0 of (w5, Inl err) \<Rightarrow> False | (w5, Inr tail) \<Rightarrow> length tail = 0))"

definition failed_append_keeps_head :: "('w, 'p) store_ops \<Rightarrow> 'p t_payload \<Rightarrow> 'w \<Rightarrow> bool" where
  "failed_append_keeps_head s p w =
     (case must_append s w t_stream 0 [t_ev p ''a''] of None \<Rightarrow> False | Some w1 \<Rightarrow>
      case st_head s w1 of (w2, Inl err) \<Rightarrow> False | (w2, Inr before) \<Rightarrow>
      case st_append s w2 t_stream 0 [t_ev p ''b''] of (w3, r) \<Rightarrow>
      is_conflict r \<and> (case st_head s w3 of (w4, Inl err) \<Rightarrow> False | (w4, Inr after) \<Rightarrow> after = before))"

text \<open>Every subtest runs on a fresh store.\<close>

definition storetest_run :: "('w, 'p) store_ops \<Rightarrow> 'p t_payload \<Rightarrow> 'w \<Rightarrow> bool" where
  "storetest_run s p new \<longleftrightarrow> append_then_load s p new \<and> append_continues_version s p new \<and> stale_append_conflicts s p new \<and>
     concurrent_create_conflicts s p new \<and> future_version_conflicts s p new \<and> load_after_version s p new \<and>
     missing_stream_loads_empty s new \<and> streams_are_isolated s p new \<and> readall_tails_in_order s p new \<and>
     readall_honors_limit s p new \<and> metadata_round_trips s p new \<and> empty_append_is_noop s new \<and>
     append_returns_last_seq s p new \<and> head_of_empty_is_zero s new \<and> head_is_last_seq s p new \<and>
     head_ends_tailing_read s p new \<and> failed_append_keeps_head s p new"

section \<open>The suite for checkpoints\<close>

definition must_set :: "'w cp_ops \<Rightarrow> 'w \<Rightarrow> string \<Rightarrow> int \<Rightarrow> 'w option" where
  "must_set s w name seq = (case cp_set s w name seq of (w1, Some err) \<Rightarrow> None | (w1, None) \<Rightarrow> Some w1)"

fun or_zero :: "int res \<Rightarrow> int" where
  "or_zero (Inl err) = 0"
| "or_zero (Inr n) = n"

definition unknown_checkpoint_is_zero :: "'w cp_ops \<Rightarrow> 'w \<Rightarrow> bool" where
  "unknown_checkpoint_is_zero s w = (case cp_get s w ''ghost'' of (w1, Inl err) \<Rightarrow> False | (w1, Inr seq) \<Rightarrow> seq = 0)"

definition set_then_get :: "'w cp_ops \<Rightarrow> 'w \<Rightarrow> bool" where
  "set_then_get s w = (case must_set s w ''relay'' 42 of None \<Rightarrow> False | Some w1 \<Rightarrow>
     case cp_get s w1 ''relay'' of (w2, Inl err) \<Rightarrow> False | (w2, Inr seq) \<Rightarrow> seq = 42)"

definition set_overwrites :: "'w cp_ops \<Rightarrow> 'w \<Rightarrow> bool" where
  "set_overwrites s w = (case must_set s w ''relay'' 1 of None \<Rightarrow> False | Some w1 \<Rightarrow>
     case must_set s w1 ''relay'' 7 of None \<Rightarrow> False | Some w2 \<Rightarrow>
     or_zero (snd (cp_get s w2 ''relay'')) = 7)"

definition names_are_independent :: "'w cp_ops \<Rightarrow> 'w \<Rightarrow> bool" where
  "names_are_independent s w = (case must_set s w ''relay'' 3 of None \<Rightarrow> False | Some w1 \<Rightarrow>
     case must_set s w1 ''projection.order_summary'' 9 of None \<Rightarrow> False | Some w2 \<Rightarrow>
     case cp_get s w2 ''relay'' of (w3, r) \<Rightarrow>
     or_zero r = 3 \<and> or_zero (snd (cp_get s w3 ''projection.order_summary'')) = 9)"

definition checkpointtest_run :: "'w cp_ops \<Rightarrow> 'w \<Rightarrow> bool" where
  "checkpointtest_run s new \<longleftrightarrow> unknown_checkpoint_is_zero s new \<and> set_then_get s new \<and> set_overwrites s new \<and>
     names_are_independent s new"

section \<open>Stores that nobody disturbs\<close>

text \<open>
  The contract of the port on a store without faults and without other writers: every call succeeds
  unless the expected version is stale, and the log changes by the appended events only.
  \<open>storable\<close> are the events the store has room for.
\<close>

locale steady_store =
  fixes ops :: "('w, 'p) store_ops"
    and log :: "'w \<Rightarrow> 'p recorded list"
    and inv :: "'w \<Rightarrow> bool"
    and storable :: "'p event_data \<Rightarrow> bool"
  assumes steady_wf: "inv w \<Longrightarrow> wf_log (log w)"
    and steady_at: "inv w \<Longrightarrow> r \<in> set (log w) \<Longrightarrow> rec_at r \<noteq> 0"
    and steady_append: "inv w \<Longrightarrow> evs \<noteq> [] \<Longrightarrow> \<forall>e\<in>set evs. storable e \<Longrightarrow> stream_version (log w) st = v \<Longrightarrow>
          \<exists>w' new. st_append ops w st v evs = (w', Inr (last_pos rec_seq (log w @ new))) \<and>
            inv w' \<and> log w' = log w @ new \<and> appended st evs new"
    and steady_stale: "inv w \<Longrightarrow> evs \<noteq> [] \<Longrightarrow> stream_version (log w) st \<noteq> v \<Longrightarrow>
          \<exists>err. st_append ops w st v evs = (w, Inl err) \<and> errors_is err ErrVersionConflict"
    and steady_nil: "inv w \<Longrightarrow> st_append ops w st v [] = (w, Inr 0)"
    and steady_load: "inv w \<Longrightarrow> st_load ops w st after = (w, Inr (load_spec (log w) st after))"
    and steady_read: "inv w \<Longrightarrow> st_read_all ops w after limit = (w, Inr (tail_batch rec_seq after limit (log w)))"
    and steady_head: "inv w \<Longrightarrow> st_head ops w = (w, Inr (last_pos rec_seq (log w)))"

text \<open>What an append leaves behind, event by event.\<close>

lemma appended_Nil [simp]: "appended st [] new \<longleftrightarrow> new = []"
  by (auto simp: appended_def)

lemma appended_Cons [simp]:
  "appended st (e # es) new \<longleftrightarrow> (\<exists>r rs. new = r # rs \<and> ed_of r = e \<and> rec_stream r = st \<and> appended st es rs)"
  by (cases new) (auto simp: appended_def)

lemma t_streams [simp]: "t_stream \<noteq> t_other" "t_other \<noteq> t_stream"
  by (simp_all add: t_stream_def t_other_def)

lemma ed_of_t_ev [simp]: "ed_of r = t_ev p name \<longleftrightarrow>
    rec_name r = name \<and> rec_schema r = 1 \<and> rec_payload r = tp_sent p \<and> rec_meta r = fmempty"
  by (simp add: ed_of_def t_ev_def)

lemma t_ev_simps [simp]: "ed_schema (t_ev p name) = 1"
  by (simp add: t_ev_def)

lemmas log_eval = stream_version_def stream_recs_def load_spec_def tail_batch_def take_limit_def last_pos_def
  wf_log_def pos_log_def upt_rec nth_Cons

context steady_store begin

lemma appends:
  assumes "inv w" "evs \<noteq> []" "\<forall>e\<in>set evs. storable e" "stream_version (log w) st = v"
  obtains w' new where "st_append ops w st v evs = (w', Inr (last_pos rec_seq (log w @ new)))"
    "must_append ops w st v evs = Some w'" "inv w'" "log w' = log w @ new" "appended st evs new"
  using steady_append[OF assms] that by (auto simp: must_append_def)

lemma passes_append_then_load:
  assumes "inv w" "log w = []" "\<And>name. storable (t_ev p name)"
  shows "append_then_load ops p w"
proof -
  obtain w1 new where w1: "must_append ops w t_stream 0 [t_ev p ''a'', t_ev p ''b''] = Some w1" "inv w1" "log w1 = new"
      "appended t_stream [t_ev p ''a'', t_ev p ''b''] new"
    by (rule appends[OF assms(1), of "[t_ev p ''a'', t_ev p ''b'']" t_stream 0]) (use assms in \<open>auto simp: log_eval\<close>)
  have wf: "wf_log new" using steady_wf[OF w1(2)] w1(3) by simp
  have "\<forall>r\<in>set new. rec_at r \<noteq> 0" using steady_at[OF w1(2)] w1(3) by simp
  then show ?thesis
    using w1(4) wf_log_new_versions[of "[]" new, OF _ w1(4)] wf
    by (auto simp: append_then_load_def w1(1,3) steady_load[OF w1(2)] log_eval less_Suc_eq)
qed

lemma append_one:
  assumes "inv w" "storable e" "stream_version (log w) st = v"
  obtains w' r where "st_append ops w st v [e] = (w', Inr (rec_seq r))" "must_append ops w st v [e] = Some w'"
    "inv w'" "log w' = log w @ [r]" "ed_of r = e" "rec_stream r = st"
  by (rule appends[OF assms(1), of "[e]" st v]) (use assms that in auto)

lemma append_two:
  assumes "inv w" "storable e" "storable e'" "stream_version (log w) st = v"
  obtains w' r r' where "st_append ops w st v [e, e'] = (w', Inr (rec_seq r'))" "must_append ops w st v [e, e'] = Some w'"
    "inv w'" "log w' = log w @ [r, r']" "ed_of r = e" "ed_of r' = e'" "rec_stream r = st" "rec_stream r' = st"
  by (rule appends[OF assms(1), of "[e, e']" st v]) (use assms that in \<open>auto simp: last_pos_def\<close>)

lemma append_three:
  assumes "inv w" "storable e" "storable e'" "storable e''" "stream_version (log w) st = v"
  obtains w' r r' r'' where "must_append ops w st v [e, e', e''] = Some w'"
    "inv w'" "log w' = log w @ [r, r', r'']" "ed_of r = e" "ed_of r' = e'" "ed_of r'' = e''"
    "rec_stream r = st" "rec_stream r' = st" "rec_stream r'' = st"
  by (rule appends[OF assms(1), of "[e, e', e'']" st v]) (use assms that in auto)

lemma refused:
  assumes "inv w" "evs \<noteq> []" "stream_version (log w) st \<noteq> v"
  obtains err where "st_append ops w st v evs = (w, Inl err)" "is_conflict (Inl err :: int res)"
  using steady_stale[OF assms] by auto

text \<open>What the log of a few events looks like to the reads.\<close>

lemma steady_versions: "inv w \<Longrightarrow> map rec_version (stream_recs (log w) st) =
    map (\<lambda>i. int i + 1) [0..<length (stream_recs (log w) st)]"
  using steady_wf by (auto simp: wf_log_def)

lemma steady_pos: "inv w \<Longrightarrow> pos_log rec_seq (log w)"
  using steady_wf by (auto simp: wf_log_def)

lemma passes_append_continues_version:
  assumes "inv w" "log w = []" "\<And>name. storable (t_ev p name)"
  shows "append_continues_version ops p w"
proof -
  obtain w1 r1 where w1: "must_append ops w t_stream 0 [t_ev p ''a''] = Some w1" "inv w1" "log w1 = [r1]" "rec_stream r1 = t_stream"
    by (rule append_one[OF assms(1), of "t_ev p ''a''" t_stream 0]) (use assms in \<open>auto simp: log_eval\<close>)
  obtain w2 r2 where w2: "must_append ops w1 t_stream 1 [t_ev p ''b''] = Some w2" "inv w2" "log w2 = [r1, r2]" "rec_stream r2 = t_stream"
    by (rule append_one[OF w1(2), of "t_ev p ''b''" t_stream 1]) (use assms(3) w1 in \<open>auto simp: log_eval\<close>)
  show ?thesis
    using steady_versions[OF w2(2), of t_stream] w1(4) w2(4)
    by (simp add: append_continues_version_def w1(1) w2(1) steady_load[OF w2(2)] w2(3) log_eval)
qed

text \<open>The openings most subtests share: one event, or two, on the fresh stream.\<close>

lemma opened_one:
  assumes "inv w" "log w = []" "storable (t_ev p n)"
  obtains w1 r where "must_append ops w t_stream 0 [t_ev p n] = Some w1" "inv w1" "log w1 = [r]"
    "rec_name r = n" "rec_stream r = t_stream" "rec_version r = 1" "0 < rec_seq r"
proof (rule append_one[OF assms(1,3), of t_stream 0])
  show "stream_version (log w) t_stream = 0" using assms(2) by (simp add: log_eval)
  fix w1 r
  assume a: "must_append ops w t_stream 0 [t_ev p n] = Some w1" "inv w1" "log w1 = log w @ [r]" "ed_of r = t_ev p n" "rec_stream r = t_stream"
  show thesis
    by (rule that[OF a(1,2)]) (use a assms(2) steady_versions[OF a(2), of t_stream] steady_pos[OF a(2)] in \<open>auto simp: log_eval\<close>)
qed

lemma opened_two:
  assumes "inv w" "log w = []" "storable (t_ev p n)" "storable (t_ev p n')"
  obtains w1 r r' where "must_append ops w t_stream 0 [t_ev p n, t_ev p n'] = Some w1"
    "st_append ops w t_stream 0 [t_ev p n, t_ev p n'] = (w1, Inr (rec_seq r'))" "inv w1" "log w1 = [r, r']"
    "rec_name r = n" "rec_name r' = n'" "rec_stream r = t_stream" "rec_stream r' = t_stream"
proof (rule append_two[OF assms(1,3,4), of t_stream 0])
  show "stream_version (log w) t_stream = 0" using assms(2) by (simp add: log_eval)
qed (use assms(2) that in auto)

lemma passes_conflicts:
  assumes "inv w" "log w = []" "\<And>name. storable (t_ev p name)"
  shows "stale_append_conflicts ops p w" "concurrent_create_conflicts ops p w" "failed_append_keeps_head ops p w"
    "future_version_conflicts ops p w"
proof -
  obtain w1 r where w1: "must_append ops w t_stream 0 [t_ev p ''a''] = Some w1" "inv w1" "log w1 = [r]"
      "rec_name r = ''a''" "rec_stream r = t_stream" "rec_version r = 1"
    by (rule opened_one[OF assms(1,2) assms(3)])
  have v: "stream_version (log w1) t_stream \<noteq> 0" using w1 by (simp add: log_eval)
  obtain err where b: "st_append ops w1 t_stream 0 [t_ev p ''b''] = (w1, Inl err)" "is_conflict (Inl err :: int res)"
    by (rule refused[OF w1(2) _ v]) auto
  obtain err' where a: "st_append ops w1 t_stream 0 [t_ev p ''a''] = (w1, Inl err')" "is_conflict (Inl err' :: int res)"
    by (rule refused[OF w1(2) _ v]) auto
  have "stream_version (log w) t_stream \<noteq> 5" using assms(2) by (simp add: log_eval)
  then obtain err'' where c: "st_append ops w t_stream 5 [t_ev p ''a''] = (w, Inl err'')" "is_conflict (Inl err'' :: int res)"
    by (rule refused[OF assms(1), rotated]) auto
  show "stale_append_conflicts ops p w" "concurrent_create_conflicts ops p w" "failed_append_keeps_head ops p w"
    "future_version_conflicts ops p w"
    using a b c w1 by (simp_all add: stale_append_conflicts_def concurrent_create_conflicts_def failed_append_keeps_head_def
        future_version_conflicts_def steady_load[OF w1(2)] steady_head[OF w1(2)] log_eval)
qed

lemma passes_on_empty:
  assumes "inv w" "log w = []"
  shows "missing_stream_loads_empty ops w" "empty_append_is_noop ops w" "head_of_empty_is_zero ops w"
  using assms by (simp_all add: missing_stream_loads_empty_def empty_append_is_noop_def head_of_empty_is_zero_def
    steady_load steady_nil steady_read steady_head log_eval)

lemma passes_three_at_once:
  assumes "inv w" "log w = []" "\<And>name. storable (t_ev p name)"
  shows "load_after_version ops p w" "readall_honors_limit ops p w"
proof -
  obtain w1 a b c where w1: "must_append ops w t_stream 0 [t_ev p ''a'', t_ev p ''b'', t_ev p ''c''] = Some w1" "inv w1"
      "log w1 = [a, b, c]" "rec_name c = ''c''" "rec_stream a = t_stream" "rec_stream b = t_stream" "rec_stream c = t_stream"
    by (rule append_three[OF assms(1), of "t_ev p ''a''" "t_ev p ''b''" "t_ev p ''c''" t_stream 0])
       (use assms in \<open>auto simp: log_eval\<close>)
  note v = steady_versions[OF w1(2), of t_stream] and s = steady_pos[OF w1(2)]
  show "load_after_version ops p w"
    using v w1 by (simp add: load_after_version_def steady_load[OF w1(2)] log_eval)
  show "readall_honors_limit ops p w"
    using s w1 by (simp add: readall_honors_limit_def steady_read[OF w1(2)] log_eval)
qed

lemma passes_metadata_round_trips:
  assumes "inv w" "log w = []" "storable ((t_ev p ''a'')\<lparr>ed_meta := fmupd ''traceparent'' ''00-abc-def-01'' fmempty\<rparr>)"
  shows "metadata_round_trips ops p w"
proof -
  let ?e = "(t_ev p ''a'')\<lparr>ed_meta := fmupd ''traceparent'' ''00-abc-def-01'' fmempty\<rparr>"
  obtain w1 r where w1: "must_append ops w t_stream 0 [?e] = Some w1" "inv w1" "log w1 = [r]" "ed_of r = ?e" "rec_stream r = t_stream"
    by (rule append_one[OF assms(1,3), of t_stream 0]) (use assms in \<open>auto simp: log_eval\<close>)
  from w1(4) have "rec_meta r = fmupd ''traceparent'' ''00-abc-def-01'' fmempty" by (simp add: ed_of_def t_ev_def)
  then show ?thesis
    using w1 steady_versions[OF w1(2), of t_stream]
    by (simp add: metadata_round_trips_def steady_load[OF w1(2)] log_eval meta_get_def)
qed

text \<open>Two streams: \<open>a\<close> on the first, then \<open>b\<close> on the other, then \<open>c\<close> on the first again.\<close>

lemma passes_two_streams:
  assumes "inv w" "log w = []" "\<And>name. storable (t_ev p name)"
  shows "streams_are_isolated ops p w" "readall_tails_in_order ops p w"
proof -
  obtain w1 a where w1: "must_append ops w t_stream 0 [t_ev p ''a''] = Some w1" "inv w1" "log w1 = [a]"
      "rec_name a = ''a''" "rec_stream a = t_stream" "rec_version a = 1"
    by (rule opened_one[OF assms(1,2) assms(3)])
  obtain w2 b where w2: "must_append ops w1 t_other 0 [t_ev p ''b''] = Some w2" "inv w2" "log w2 = [a, b]"
      "ed_of b = t_ev p ''b''" "rec_stream b = t_other"
    by (rule append_one[OF w1(2), of "t_ev p ''b''" t_other 0]) (use assms(3) w1 in \<open>auto simp: log_eval\<close>)
  obtain w3 c where w3: "must_append ops w2 t_stream 1 [t_ev p ''c''] = Some w3" "inv w3" "log w3 = [a, b, c]"
      "ed_of c = t_ev p ''c''" "rec_stream c = t_stream"
    by (rule append_one[OF w2(2), of "t_ev p ''c''" t_stream 1]) (use assms(3) w1 w2 in \<open>auto simp: log_eval\<close>)
  show "streams_are_isolated ops p w"
    using w1 w2 by (simp add: streams_are_isolated_def steady_load[OF w2(2)] log_eval)
  show "readall_tails_in_order ops p w"
    using w1 w2 w3 steady_pos[OF w3(2)]
    by (auto simp: readall_tails_in_order_def steady_read[OF w3(2)] log_eval)
qed

lemma passes_positions:
  assumes "inv w" "log w = []" "\<And>name. storable (t_ev p name)"
  shows "append_returns_last_seq ops p w" "head_is_last_seq ops p w" "head_ends_tailing_read ops p w"
proof -
  obtain w1 a b where w1: "must_append ops w t_stream 0 [t_ev p ''a'', t_ev p ''b''] = Some w1"
      "st_append ops w t_stream 0 [t_ev p ''a'', t_ev p ''b''] = (w1, Inr (rec_seq b))" "inv w1" "log w1 = [a, b]"
      "rec_stream a = t_stream" "rec_stream b = t_stream"
    by (rule opened_two[OF assms(1,2) assms(3) assms(3)])
  obtain w2 c where w2: "st_append ops w1 t_other 0 [t_ev p ''c''] = (w2, Inr (rec_seq c))"
      "must_append ops w1 t_other 0 [t_ev p ''c''] = Some w2" "inv w2" "log w2 = [a, b, c]"
    by (rule append_one[OF w1(3), of "t_ev p ''c''" t_other 0]) (use assms(3) w1 in \<open>auto simp: log_eval\<close>)
  note p = steady_pos[OF w2(3)]
  show "append_returns_last_seq ops p w"
    using w1 w2 p by (simp add: append_returns_last_seq_def steady_read[OF w2(3)] log_eval)
  show "head_is_last_seq ops p w"
    using w1 w2 p by (simp add: head_is_last_seq_def steady_head[OF w2(3)] steady_head[OF w1(3)] log_eval)
  show "head_ends_tailing_read ops p w"
    using w1 w2 p by (auto simp: head_ends_tailing_read_def steady_head[OF w2(3)] steady_read[OF w2(3)] log_eval)
qed

lemma passes_storetest:
  assumes "inv w" "log w = []" "\<And>e. ed_schema e = 1 \<Longrightarrow> storable e"
  shows "storetest_run ops p w"
proof -
  have s: "storable (t_ev p name)" "storable ((t_ev p name)\<lparr>ed_meta := m\<rparr>)" for name m
    using assms(3) by (simp_all add: t_ev_def)
  note a = assms(1,2) and b = assms(1,2) s(1)
  show ?thesis
    unfolding storetest_run_def
    using passes_append_then_load[OF b] passes_append_continues_version[OF b] passes_conflicts[OF b] passes_on_empty[OF a]
      passes_three_at_once[OF b] passes_metadata_round_trips[OF a s(2)] passes_two_streams[OF b] passes_positions[OF b]
    by blast
qed

end

section \<open>The in-memory store\<close>

definition mem_steady :: "instant \<Rightarrow> 'p mem_store \<Rightarrow> bool" where
  "mem_steady now s \<longleftrightarrow> now \<noteq> 0 \<and> mem_inv s \<and> (\<forall>r\<in>set (ms_all s). rec_at r \<noteq> 0)"

interpretation steady_mem: steady_store "mem_ops now" ms_all "mem_steady now" "\<lambda>_. True" for now
proof (unfold_locales, goal_cases)
  case (3 w evs st v)
  then obtain w' new where a: "mem_append now w st v evs = (w', Inr (last_pos rec_seq (ms_all w')))" "ms_all w' = ms_all w @ new"
      "appended st evs new" "mem_inv w'"
    using mem_append_ok[of w evs st v now] by (auto simp: mem_steady_def)
  have "w' = mem_append_loop now st v 0 evs w"
    using a(1) 3(2) by (auto simp: mem_append_def Let_def split: if_splits)
  then have "\<forall>r\<in>set (ms_all w'). rec_at r \<noteq> 0"
    using mem_append_loop_at 3(1) unfolding mem_steady_def by blast
  with a 3(1) show ?case by (auto simp: mem_ops_def mem_steady_def)
next
  case (4 w evs st v)
  then show ?case by (simp add: mem_ops_def mem_steady_def mem_append_conflict)
qed (auto simp: mem_ops_def mem_steady_def mem_inv_wf mem_load_spec mem_read_all_def read_loop_tail_batch mem_head_last)

section \<open>The PostgreSQL store\<close>

text \<open>A database nobody else writes to and that answers every statement.\<close>

definition pg_steady :: "md_codec \<Rightarrow> 'p db \<Rightarrow> bool" where
  "pg_steady mc d \<longleftrightarrow> pg_inv mc d \<and> db_sched d = [] \<and> db_started d \<noteq> 0 \<and> (\<forall>r\<in>set (db_events d). er_at r \<noteq> 0)"

lemma quiet_call: "db_sched d = [] \<Longrightarrow> db_call f d = f (db_started d) d"
  by (simp add: db_call_def db_tick_def)

lemma quiet_unit: "db_sched d = [] \<Longrightarrow> db_unit f d = (f (db_started d) d, None)"
  by (simp add: db_unit_def quiet_call)

lemma next_version_free:
  assumes "rows_ok mc rows next" "r \<in> set rows" "er_stream r = st"
  shows "er_version r \<le> stream_version (map (rec_of mc) rows) st"
proof -
  let ?rs = "filter (\<lambda>r. er_stream r = st) rows"
  have "er_version r \<in> set (map er_version ?rs)" using assms(2,3) by simp
  then have "er_version r \<in> set (map (\<lambda>i. int i + 1) [0..<length ?rs])" by (simp only: stream_versions[OF assms(1)])
  then show ?thesis by (auto simp: stream_version_def stream_recs_rows)
qed

context metadata_codec begin

lemma quiet_insert:
  assumes "tx_ok mc d l st evs" "in_int4 (ed_schema e)"
  shows "db_insert (new_row st (stream_version l st + int (length evs) + 1) e md) d =
     (d\<lparr>db_next := db_next d + 1,
        db_tx := db_tx d @ [new_row st (stream_version l st + int (length evs) + 1) e md (db_next d) (db_started d)]\<rparr>,
      Inr (db_next d))"
proof -
  have rows: "rows_ok mc (db_events d @ db_tx d) (db_next d)" using assms(1) by (simp add: tx_ok_def db_ok_def)
  have a: "appended st evs (tx_log mc d)" "pg_log mc d = l" using assms(1) by (simp_all add: tx_ok_def)
  then have "length (tx_log mc d) = length evs" by (auto simp: appended_def)
  then have "stream_version (map (rec_of mc) (db_events d @ db_tx d)) st = stream_version l st + int (length evs)"
    using a by (simp add: pg_log_def[symmetric] tx_log_def[symmetric] stream_version_def stream_recs_append appended_recs)
  then have "er_version r \<noteq> stream_version l st + int (length evs) + 1"
    if "r \<in> set (db_events d @ db_tx d)" "er_stream r = st" for r
    using next_version_free[OF rows that] by simp
  then have "\<not> (\<exists>r\<in>set (db_events d @ db_tx d). er_stream r = st \<and> er_version r = stream_version l st + int (length evs) + 1)"
    by blast
  then show ?thesis using assms(2) by (simp add: db_insert_def new_row_def Let_def)
qed

lemma quiet_inserts:
  assumes "tx_ok mc d l st done1" "db_sched d = []" "\<forall>e\<in>set es. in_int4 (ed_schema e)"
    and "\<forall>r\<in>set (db_tx d). er_at r = db_started d"
  shows "\<exists>d' seq. pg_insert_loop mc db_pool st (stream_version l st) (int (length done1)) last_seq d es = (d', Inr seq) \<and>
     db_sched d' = [] \<and> db_started d' = db_started d \<and> (\<forall>r\<in>set (db_tx d'). er_at r = db_started d) \<and> db_events d' = db_events d"
  using assms
proof (induction es arbitrary: d done1 last_seq)
  case (Cons e es)
  obtain md where md: "marshal_metadata mc (ed_meta e) = Inr md" "unmarshal_metadata mc md = Inr (ed_meta e)"
    by (rule marshal_readable)
  let ?mk = "new_row st (stream_version l st + int (length done1) + 1) e md"
  let ?d = "d\<lparr>db_next := db_next d + 1, db_tx := db_tx d @ [?mk (db_next d) (db_started d)]\<rparr>"
  have i: "db_insert ?mk d = (?d, Inr (db_next d))" using quiet_insert[OF Cons.prems(1)] Cons.prems(3) by simp
  have t: "tx_ok mc ?d l st (done1 @ [e])" using db_insert_ok[OF Cons.prems(1) md(2) i] by simp
  have "\<forall>r\<in>set (db_tx ?d). er_at r = db_started ?d" using Cons.prems(4) by (auto simp: new_row_def)
  note ih = Cons.IH[OF t _ _ this, of "db_next d"]
  have n: "int (length (done1 @ [e])) = int (length done1) + 1" by simp
  from ih[unfolded n] Cons.prems(2,3) i show ?case
    by (simp add: md(1) db_pool_simps quiet_call)
qed simp

lemma quiet_append:
  assumes "pg_steady mc d" "evs \<noteq> []" "\<forall>e\<in>set evs. in_int4 (ed_schema e)" "stream_version (pg_log mc d) st = v"
  shows "\<exists>d' new. pg_append mc db_pool d st v evs = (d', Inr (last_pos rec_seq (pg_log mc d @ new))) \<and>
    pg_steady mc d' \<and> pg_log mc d' = pg_log mc d @ new \<and> appended st evs new"
proof -
  have q: "db_sched d = []" "db_tx d = []" "\<not> db_locked d" and ok: "pg_inv mc d" "db_ok mc d"
    using assms(1) by (auto simp: pg_steady_def pg_inv_def db_ok_def)
  let ?l = "pg_log mc d" and ?d = "d\<lparr>db_locked := True\<rparr>"
  have b: "px_begin db_pool d = (d, None)" "px_lock db_pool d = (?d, None)"
    using q by (simp_all add: db_pool_simps quiet_unit)
  have l: "pg_log mc ?d = ?l" by (simp add: pg_log_def)
  have t: "tx_ok mc ?d ?l st []" using tx_opened[OF ok(1) b, of st] l by simp
  have v: "px_version db_pool ?d st = (?d, Inr v)"
    using q assms(4) version_sql_is[OF db_ok_rows[OF ok(2)], of st] by (simp add: db_pool_simps quiet_call pg_log_def)
  from quiet_inserts[OF t, of evs 0] q assms(3,4) obtain d' seq where i: "pg_insert_loop mc db_pool st v 0 0 ?d evs = (d', Inr seq)"
      "db_sched d' = []" "db_started d' = db_started d" "\<forall>r\<in>set (db_tx d'). er_at r = db_started d" "db_events d' = db_events d"
    by auto
  have lp: "0 = last_pos rec_seq (tx_log mc ?d)" using q by (simp add: tx_log_def)
  have t': "tx_ok mc d' ?l st evs" "seq = last_pos rec_seq (tx_log mc d')"
    using insert_loop_ok[OF t _ lp, of evs d' "Inr seq"] i(1) assms(4) by simp_all
  let ?e = "d'\<lparr>db_events := db_events d' @ db_tx d', db_tx := [], db_locked := False\<rparr>"
  have c: "px_commit db_pool d' = (?e, None)" using i(2) by (simp add: db_pool_simps quiet_unit)
  have r: "px_rollback db_pool ?e = ?e" by (simp add: db_pool_def)
  note cm = committed[OF t'(1) c]
  have "pg_steady mc ?e" using cm i assms(1) rollback_ok[of mc ?e] r by (auto simp: pg_steady_def)
  moreover have "tx_log mc d' \<noteq> []" using cm assms(2) by (auto simp: appended_def)
  then have "seq = last_pos rec_seq (?l @ tx_log mc d')" using t'(2) by (simp add: last_pos_def)
  ultimately show ?thesis using b v i(1) c r cm assms(2) by (auto simp: pg_append_def)
qed

lemma quiet_stale:
  assumes "pg_steady mc d" "evs \<noteq> []" "stream_version (pg_log mc d) st \<noteq> v"
  shows "pg_append mc db_pool d st v evs = (d, Inl (conflict_error st (stream_version (pg_log mc d) st) v))"
proof -
  have q: "db_sched d = []" "db_tx d = []" "\<not> db_locked d" and ok: "db_ok mc d"
    using assms(1) by (auto simp: pg_steady_def pg_inv_def db_ok_def)
  have "version_sql st (db_events d) = stream_version (pg_log mc d) st"
    using version_sql_is[OF db_ok_rows[OF ok], of st] by (simp add: pg_log_def)
  then show ?thesis
    using q assms(2,3) by (simp add: pg_append_def db_pool_simps quiet_unit quiet_call) (simp add: db_pool_def)
qed

lemma quiet_reads:
  assumes "pg_steady mc d"
  shows "pg_load mc db_pool d st after = (d, Inr (load_spec (pg_log mc d) st after))"
    "pg_read_all mc db_pool d after limit = (d, Inr (tail_batch rec_seq after limit (pg_log mc d)))"
    "pg_head db_pool d = (d, Inr (last_pos rec_seq (pg_log mc d)))"
proof -
  have q: "db_sched d = []" and rows: "rows_ok mc (db_events d) (db_next d)"
    using assms db_ok_rows by (auto simp: pg_steady_def pg_inv_def)
  show "pg_load mc db_pool d st after = (d, Inr (load_spec (pg_log mc d) st after))"
    "pg_read_all mc db_pool d after limit = (d, Inr (tail_batch rec_seq after limit (pg_log mc d)))"
    "pg_head db_pool d = (d, Inr (last_pos rec_seq (pg_log mc d)))"
    using q by (simp_all add: pg_load_def pg_read_all_def pg_head_def db_pool_simps quiet_call pg_log_def
        load_sql_is(1)[OF rows] read_sql_is(1)[OF rows] head_sql_is[OF rows]
        scan_rows[OF rows load_sql_is(2)[OF rows]] scan_rows[OF rows read_sql_is(2)[OF rows]])
qed

end

sublocale metadata_codec \<subseteq> steady_pg: steady_store "pg_store_ops mc db_pool" "pg_log mc" "pg_steady mc"
  "\<lambda>e. in_int4 (ed_schema e)"
proof (unfold_locales, goal_cases)
  case (1 w)
  then show ?case using pg_log_wf by (auto simp: pg_steady_def)
next
  case (2 w r)
  then show ?case by (auto simp: pg_steady_def pg_log_def rec_of_def)
next
  case (3 w evs st v)
  then show ?case using quiet_append by (simp add: pg_store_ops_def)
next
  case (4 w evs st v)
  then show ?case by (simp add: pg_store_ops_def quiet_stale)
qed (auto simp: pg_store_ops_def pg_append_def quiet_reads)

context metadata_codec begin

lemmas pg_passes_storetest = steady_pg.passes_storetest

end

section \<open>The checkpoint suite\<close>

text \<open>A checkpoint store whose calls all succeed.\<close>

locale steady_checkpoints =
  fixes cps :: "'w cp_ops"
    and cp :: "'w \<Rightarrow> string \<Rightarrow> int"
    and cinv :: "'w \<Rightarrow> bool"
  assumes steady_get: "cinv w \<Longrightarrow> cp_get cps w name = (w, Inr (cp w name))"
    and steady_set: "cinv w \<Longrightarrow> \<exists>w'. cp_set cps w name seq = (w', None) \<and> cinv w' \<and> cp w' = (cp w)(name := seq)"
begin

lemma sets:
  assumes "cinv w"
  obtains w' where "must_set cps w name seq = Some w'" "cinv w'" "cp w' = (cp w)(name := seq)"
  using steady_set[OF assms, of name seq] that by (auto simp: must_set_def)

lemma passes_checkpointtest:
  assumes "cinv w" "\<And>name. cp w name = 0"
  shows "checkpointtest_run cps w"
proof -
  have "unknown_checkpoint_is_zero cps w"
    using assms by (simp add: unknown_checkpoint_is_zero_def steady_get)
  moreover have "set_then_get cps w"
    by (rule sets[OF assms(1), of "''relay''" 42]) (simp add: set_then_get_def steady_get)
  moreover have "set_overwrites cps w"
  proof -
    obtain w1 where w1: "must_set cps w ''relay'' 1 = Some w1" "cinv w1" by (rule sets[OF assms(1)])
    show ?thesis
      by (rule sets[OF w1(2), of "''relay''" 7]) (simp add: set_overwrites_def w1(1) steady_get)
  qed
  moreover have "names_are_independent cps w"
  proof -
    obtain w1 where w1: "must_set cps w ''relay'' 3 = Some w1" "cinv w1" "cp w1 = (cp w)(''relay'' := 3)"
      by (rule sets[OF assms(1)])
    show ?thesis
      by (rule sets[OF w1(2), of "''projection.order_summary''" 9]) (simp add: names_are_independent_def w1(1,3) steady_get)
  qed
  ultimately show ?thesis by (simp add: checkpointtest_run_def)
qed

end

interpretation steady_mem_checkpoints: steady_checkpoints mem_cp_ops "mget 0" "\<lambda>_. True"
  by unfold_locales (auto simp: mem_cp_ops_def mem_cp_get_def mem_cp_set_def mget_fun_upd)

interpretation steady_pg_checkpoints: steady_checkpoints "pg_cp_ops db_cp_pool" "\<lambda>d. mget 0 (db_cps d)" "\<lambda>d. db_sched d = []"
  by unfold_locales (auto simp: pg_cp_ops_def pg_cp_get_def pg_cp_set_def db_cp_pool_def quiet_call quiet_unit mget_fun_upd)

section \<open>Both adapters pass\<close>

text \<open>A fresh database at the time \<open>now\<close>, that nobody else writes to.\<close>

definition fresh_db :: "instant \<Rightarrow> 'p db" where
  "fresh_db now = (new_db [])\<lparr>db_started := now\<rparr>"

text \<open>
  C23. The conformance suites pass, with every subtest: on the in-memory store and checkpoints, and on
  the PostgreSQL store and checkpoints over a database without faults and without other writers,
  whatever the payload, and with any metadata codec that reads back what it wrote. The event store
  suite demands a timestamp on every event, so the clock must not read zero.
\<close>

theorem adapters_pass_the_suites:
  fixes p :: "'p t_payload"
  assumes "metadata_codec mc" and "now \<noteq> 0"
  shows "storetest_run (mem_ops now) p new_mem_store \<and> checkpointtest_run mem_cp_ops new_mem_checkpoints \<and>
    storetest_run (pg_store_ops mc db_pool) p (fresh_db now) \<and> checkpointtest_run (pg_cp_ops db_cp_pool) (fresh_db now :: 'p db)"
proof (intro conjI)
  have "mem_steady now new_mem_store"
    using assms(2) mem_inv_new by (simp add: mem_steady_def new_mem_store_def)
  then show "storetest_run (mem_ops now) p new_mem_store"
    by (rule steady_mem.passes_storetest) (simp_all add: new_mem_store_def)
  show "checkpointtest_run mem_cp_ops new_mem_checkpoints"
    by (rule steady_mem_checkpoints.passes_checkpointtest) (simp_all add: new_mem_checkpoints_def mget_if)
  have "pg_steady mc (fresh_db now :: 'p db)"
    using assms(2) by (simp add: pg_steady_def fresh_db_def new_db_def pg_inv_def db_ok_def rows_ok_def sched_ok_def)
  then show "storetest_run (pg_store_ops mc db_pool) p (fresh_db now)"
    by (rule metadata_codec.pg_passes_storetest[OF assms(1)])
       (simp_all add: fresh_db_def new_db_def pg_log_def in_int4_def)
  show "checkpointtest_run (pg_cp_ops db_cp_pool) (fresh_db now :: 'p db)"
    by (rule steady_pg_checkpoints.passes_checkpointtest) (simp_all add: fresh_db_def new_db_def mget_if)
qed

theorem adapters_pass_the_suites_witness:
  "storetest_run (pg_store_ops text_codec db_pool) \<lparr>tp_sent = ''{1}'', tp_spaced = ''{ 1}''\<rparr> (fresh_db 5)"
  using adapters_pass_the_suites[OF text_codec.metadata_codec_axioms, of 5 "\<lparr>tp_sent = ''{1}'', tp_spaced = ''{ 1}''\<rparr>"] by simp

text \<open>The suite tells stores apart: one that takes a stale append does not pass.\<close>

definition careless_ops :: "('p mem_store, 'p) store_ops" where
  "careless_ops = (mem_ops 1)\<lparr>st_append := (\<lambda>s st v evs. mem_append 1 s st (int (length (mget [] (ms_streams s) st))) evs)\<rparr>"

lemma suite_rejects_careless: "\<not> storetest_run careless_ops p new_mem_store"
proof -
  have "\<not> future_version_conflicts careless_ops p new_mem_store"
    by (simp add: future_version_conflicts_def careless_ops_def mem_append_def Let_def new_mem_store_def)
  then show ?thesis by (simp add: storetest_run_def)
qed

end
