(* ===== verification/Brokertest.thy ===== *)
theory Brokertest
  imports SagaRun Json
begin

text \<open>
  The contract test that every broker adapter has to pass (\<open>broker/brokertest/brokertest.go\<close>), as a
  function of the adapter and of how the goroutines it starts are scheduled, and the in-memory broker's
  run of it.
\<close>

section \<open>The test process\<close>

text \<open>
  What the handlers share with the test: a sink per subscription and the count of failed attempts. A
  goroutine is a call of \<open>Subscribe\<close> with the state of its context, or what the call returned.
\<close>

record 'b bt_world =
  bw_broker :: 'b
  bw_sinks :: "nat \<Rightarrow> json message list"
  bw_attempts :: nat

record ('b, 'l) bt_run =
  br_world :: "'b bt_world"
  br_calls :: "(bool \<times> ('l + gerr option)) list"

type_synonym ('b, 'l) bt_subscriber = "('b bt_world, json, 'l) subscriber"

datatype verdict = Passed | FailedOn string | TimedOut

text \<open>Deadlines are not modelled in seconds: a wait times out when its schedule has no turns left.\<close>

definition bt_setup :: "'b \<Rightarrow> ('b, 'l) bt_run" where
  "bt_setup b = \<lparr>br_world = \<lparr>bw_broker = b, bw_sinks = (\<lambda>_. []), bw_attempts = 0\<rparr>, br_calls = []\<rparr>"

definition bt_msg :: "instant \<Rightarrow> string \<Rightarrow> json message" where
  "bt_msg now i = \<lparr>m_id = i, m_key = ''k'', m_type = ''test.event'', m_version = 1, m_at = now, m_payload = JObj [], m_meta = fmempty\<rparr>"

definition must_publish :: "('b, json) publish \<Rightarrow> string \<Rightarrow> json message list \<Rightarrow> ('b, 'l) bt_run \<Rightarrow> ('b, 'l) bt_run \<times> gerr option" where
  "must_publish pub topic msgs r = (case pub (bw_broker (br_world r)) topic msgs of
     (b, err) \<Rightarrow> (r\<lparr>br_world := (br_world r)\<lparr>bw_broker := b\<rparr>\<rparr>, err))"

definition bt_go ::
  "('b, 'l) bt_subscriber \<Rightarrow> string \<Rightarrow> string \<Rightarrow> ('b bt_world, json) msg_handler \<Rightarrow> ('b, 'l) bt_run \<Rightarrow> ('b, 'l) bt_run" where
  "bt_go sub topic grp h r = r\<lparr>br_calls := br_calls r @ [(False, Inl (sb_call sub topic grp h))]\<rparr>"

definition bt_cancel :: "nat \<Rightarrow> ('b, 'l) bt_run \<Rightarrow> ('b, 'l) bt_run" where
  "bt_cancel i r = r\<lparr>br_calls := (br_calls r)[i := (True, snd (br_calls r ! i))]\<rparr>"

definition bt_turn :: "('b, 'l) bt_subscriber \<Rightarrow> nat \<Rightarrow> ('b, 'l) bt_run \<Rightarrow> ('b, 'l) bt_run" where
  "bt_turn sub i r =
     (if length (br_calls r) \<le> i then r
      else case br_calls r ! i of
        (cancelled, Inr err) \<Rightarrow> r
      | (cancelled, Inl l) \<Rightarrow> (case sb_step sub cancelled l (br_world r) of
          (w, x) \<Rightarrow> \<lparr>br_world = w, br_calls = (br_calls r)[i := (cancelled, x)]\<rparr>))"

definition bt_turns :: "('b, 'l) bt_subscriber \<Rightarrow> nat list \<Rightarrow> ('b, 'l) bt_run \<Rightarrow> ('b, 'l) bt_run" where
  "bt_turns sub is r = fold (bt_turn sub) is r"

definition sink_handler :: "nat \<Rightarrow> ('b bt_world, json) msg_handler" where
  "sink_handler k w m = (w\<lparr>bw_sinks := (bw_sinks w)(k := bw_sinks w k @ [m])\<rparr>, None)"

text \<open>Between two looks at the sink the goroutines get the turns of one entry of the schedule.\<close>

fun bt_await :: "('b, 'l) bt_subscriber \<Rightarrow> nat \<Rightarrow> nat \<Rightarrow> nat list list \<Rightarrow> ('b, 'l) bt_run \<Rightarrow> ('b, 'l) bt_run \<times> json message list option" where
  "bt_await sub k n [] r = (r, None)"
| "bt_await sub k n (is # iss) r =
     (if n \<le> length (bw_sinks (br_world r) k) then (r, Some (bw_sinks (br_world r) k))
      else bt_await sub k n iss (bt_turns sub is r))"

definition bt_collect ::
  "('b, 'l) bt_subscriber \<Rightarrow> string \<Rightarrow> string \<Rightarrow> nat \<Rightarrow> nat \<Rightarrow> nat list list \<Rightarrow> ('b, 'l) bt_run \<Rightarrow> ('b, 'l) bt_run \<times> json message list option" where
  "bt_collect sub topic grp k n iss r =
     (case bt_await sub k n iss (bt_go sub topic grp (sink_handler k) r) of
        (r1, out) \<Rightarrow> (bt_cancel (length (br_calls r)) r1, out))"

section \<open>The subtests\<close>

definition published_before ::
  "('b, json) publish \<Rightarrow> ('b, 'l) bt_subscriber \<Rightarrow> instant \<Rightarrow> string \<Rightarrow> nat list list \<Rightarrow> 'b \<Rightarrow> verdict" where
  "published_before pub sub now topic iss b =
     (case must_publish pub topic [bt_msg now ''m1'', bt_msg now ''m2''] (bt_setup b) of
        (r, Some err) \<Rightarrow> FailedOn ''Publish''
      | (r, None) \<Rightarrow>
          (case bt_collect sub topic ''g1'' 0 2 iss r of
             (r1, None) \<Rightarrow> TimedOut
           | (r1, Some got) \<Rightarrow>
               if m_id (got ! 0) \<noteq> ''m1'' \<or> m_id (got ! 1) \<noteq> ''m2'' then FailedOn ''order'' else Passed))"

definition published_while ::
  "('b, json) publish \<Rightarrow> ('b, 'l) bt_subscriber \<Rightarrow> instant \<Rightarrow> string \<Rightarrow> nat list \<Rightarrow> nat list list \<Rightarrow> 'b \<Rightarrow> verdict" where
  "published_while pub sub now topic is iss b =
     (case must_publish pub topic [bt_msg now ''m1''] (bt_turns sub is (bt_go sub topic ''g1'' (sink_handler 0) (bt_setup b))) of
        (r, Some err) \<Rightarrow> FailedOn ''Publish''
      | (r, None) \<Rightarrow> (case bt_await sub 0 1 iss r of (r1, None) \<Rightarrow> TimedOut | (r1, Some got) \<Rightarrow> Passed))"

definition each_group ::
  "('b, json) publish \<Rightarrow> ('b, 'l) bt_subscriber \<Rightarrow> instant \<Rightarrow> string \<Rightarrow> nat list list \<Rightarrow> nat list list \<Rightarrow> 'b \<Rightarrow> verdict" where
  "each_group pub sub now topic iss1 iss2 b =
     (case must_publish pub topic [bt_msg now ''m1'', bt_msg now ''m2''] (bt_setup b) of
        (r, Some err) \<Rightarrow> FailedOn ''Publish''
      | (r, None) \<Rightarrow>
          (case bt_collect sub topic ''g1'' 0 2 iss1 r of
             (r1, None) \<Rightarrow> TimedOut
           | (r1, Some g1) \<Rightarrow>
               (case bt_collect sub topic ''g2'' 1 2 iss2 r1 of
                  (r2, None) \<Rightarrow> TimedOut
                | (r2, Some g2) \<Rightarrow> if length g1 \<noteq> 2 \<or> length g2 \<noteq> 2 then FailedOn ''groups'' else Passed)))"

definition flaky_handler :: "('b bt_world, json) msg_handler" where
  "flaky_handler w m =
     (if m_id m = ''m1'' \<and> bw_attempts w < 2
      then (w\<lparr>bw_attempts := bw_attempts w + 1\<rparr>, Some (ErrNew ''transient failure''))
      else (w\<lparr>bw_sinks := (bw_sinks w)(0 := bw_sinks w 0 @ [m])\<rparr>, None))"

text \<open>\<open>done\<close> is closed when the second message is kept; the test then looks at what there is by its turn.\<close>

definition redelivery ::
  "('b, json) publish \<Rightarrow> ('b, 'l) bt_subscriber \<Rightarrow> instant \<Rightarrow> string \<Rightarrow> nat list \<Rightarrow> 'b \<Rightarrow> verdict" where
  "redelivery pub sub now topic is b =
     (case must_publish pub topic [bt_msg now ''m1'', bt_msg now ''m2''] (bt_setup b) of
        (r, Some err) \<Rightarrow> FailedOn ''Publish''
      | (r, None) \<Rightarrow>
          let w = br_world (bt_turns sub is (bt_go sub topic ''g1'' flaky_handler r)); got = bw_sinks w 0 in
          if length got < 2 then TimedOut
          else if bw_attempts w \<noteq> 2 then FailedOn ''attempts''
          else if m_id (got ! 0) \<noteq> ''m1'' \<or> m_id (got ! 1) \<noteq> ''m2'' then FailedOn ''delivery skipped or reordered''
          else Passed)"

text \<open>\<open>time.Date(2026, 8, 9, 12, 0, 0, 123456789, time.UTC)\<close>\<close>

definition occurred :: instant where
  "occurred = 1786276800123456789"

definition bt_envelope :: "json message" where
  "bt_envelope = \<lparr>m_id = ''order/42#3'', m_key = ''42'', m_type = ''ordering.order_placed'', m_version = 2, m_at = occurred,
     m_payload = JObj [(''total_cents'', JInt 5000)], m_meta = fmupd ''traceparent'' ''00-abc-def-01'' fmempty\<rparr>"

definition envelope_round_trips ::
  "('b, json) publish \<Rightarrow> ('b, 'l) bt_subscriber \<Rightarrow> string \<Rightarrow> nat list list \<Rightarrow> 'b \<Rightarrow> verdict" where
  "envelope_round_trips pub sub topic iss b =
     (let msg = bt_envelope in
      case must_publish pub topic [msg] (bt_setup b) of
        (r, Some err) \<Rightarrow> FailedOn ''Publish''
      | (r, None) \<Rightarrow>
          (case bt_collect sub topic ''g1'' 0 1 iss r of
             (r1, None) \<Rightarrow> TimedOut
           | (r1, Some out) \<Rightarrow> let got = out ! 0 in
               if m_id got \<noteq> m_id msg \<or> m_key got \<noteq> m_key msg \<or> m_type got \<noteq> m_type msg \<or> m_version got \<noteq> m_version msg
               then FailedOn ''envelope''
               else if m_at got \<noteq> occurred then FailedOn ''OccurredAt''
               else if m_payload got \<noteq> JObj [(''total_cents'', JInt 5000)] then FailedOn ''Payload''
               else if meta_get (m_meta got) ''traceparent'' \<noteq> ''00-abc-def-01'' then FailedOn ''Metadata''
               else Passed))"

definition returns_on_cancel ::
  "('b, 'l) bt_subscriber \<Rightarrow> string \<Rightarrow> nat list \<Rightarrow> nat list \<Rightarrow> 'b \<Rightarrow> verdict" where
  "returns_on_cancel sub topic is js b =
     (let r = bt_turns sub is (bt_go sub topic ''g1'' (\<lambda>w m. (w, None)) (bt_setup b)) in
      case snd (br_calls (bt_turns sub js (bt_cancel 0 r)) ! 0) of
        Inl l \<Rightarrow> TimedOut
      | Inr None \<Rightarrow> Passed
      | Inr (Some err) \<Rightarrow> FailedOn ''Subscribe after cancel'')"

text \<open>\<open>Run\<close>: a broker and a topic for each subtest, which may share one backend.\<close>

record bt_schedule =
  bs_before :: "nat list list"
  bs_early :: "nat list"
  bs_while :: "nat list list"
  bs_first :: "nat list list"
  bs_second :: "nat list list"
  bs_redeliver :: "nat list"
  bs_envelope :: "nat list list"
  bs_idle :: "nat list"
  bs_cancel :: "nat list"

definition brokertest_run ::
  "('b, json) publish \<Rightarrow> ('b, 'l) bt_subscriber \<Rightarrow> instant \<Rightarrow> (nat \<Rightarrow> string) \<Rightarrow> bt_schedule \<Rightarrow> (nat \<Rightarrow> 'b) \<Rightarrow> verdict list" where
  "brokertest_run pub sub now sfx s new_broker =
     (let topic = (\<lambda>i. ''brokertest-'' @ sfx i) in
      [published_before pub sub now (topic 0) (bs_before s) (new_broker 0),
       published_while pub sub now (topic 1) (bs_early s) (bs_while s) (new_broker 1),
       each_group pub sub now (topic 2) (bs_first s) (bs_second s) (new_broker 2),
       redelivery pub sub now (topic 3) (bs_redeliver s) (new_broker 3),
       envelope_round_trips pub sub (topic 4) (bs_envelope s) (new_broker 4),
       returns_on_cancel sub (topic 5) (bs_idle s) (bs_cancel s) (new_broker 5)])"


section \<open>The in-memory broker under test\<close>

definition mem_under_test :: "(json mem_broker, (json mem_broker bt_world, json) mb_call) bt_subscriber" where
  "mem_under_test = mb_subscriber \<lparr>ba_get = bw_broker, ba_put = (\<lambda>b w. w\<lparr>bw_broker := b\<rparr>)\<rparr>"

text \<open>Where a call stands: what its sink has got is the part of the log before its offset, or one message more.\<close>

fun at_ok :: "json message list \<Rightarrow> nat \<Rightarrow> json message list \<Rightarrow> json mb_at \<Rightarrow> bool" where
  "at_ok L off got Entering \<longleftrightarrow> off = 0 \<and> got = []"
| "at_ok L off got (Handling k m) \<longleftrightarrow> off = k \<and> k < length L \<and> m = L ! k \<and> got = take k L"
| "at_ok L off got (Committing k) \<longleftrightarrow> off = k \<and> k < length L \<and> got = take (Suc k) L"
| "at_ok L off got a \<longleftrightarrow> off \<le> length L \<and> got = take off L"

text \<open>A handler that keeps what it accepts in sink \<open>k\<close>, and refuses at most twice in all.\<close>

definition keeps_in :: "nat \<Rightarrow> ('b bt_world, json) msg_handler \<Rightarrow> bool" where
  "keeps_in k h \<longleftrightarrow> (\<forall>w m. case h w m of
     (w', None) \<Rightarrow> w' = w\<lparr>bw_sinks := (bw_sinks w)(k := bw_sinks w k @ [m])\<rparr>
   | (w', Some err) \<Rightarrow> w' = w\<lparr>bw_attempts := bw_attempts w + 1\<rparr> \<and> bw_attempts w < 2)"

lemma sink_keeps: "keeps_in k (sink_handler k)"
  by (simp add: keeps_in_def sink_handler_def)

lemma flaky_keeps: "keeps_in 0 flaky_handler"
  by (simp add: keeps_in_def flaky_handler_def)

type_synonym mem_world = "json mem_broker bt_world"
type_synonym mem_call = "(mem_world, json) mb_call"

definition off_of :: "string \<Rightarrow> string \<Rightarrow> mem_world \<Rightarrow> nat" where
  "off_of T g w = mget 0 (mb_offsets (bw_broker w)) (T, g)"

definition active_in :: "string \<Rightarrow> string \<Rightarrow> mem_world \<Rightarrow> bool" where
  "active_in T g w = mget False (mb_active (bw_broker w)) (T, g)"

definition log_of :: "string \<Rightarrow> mem_world \<Rightarrow> json message list" where
  "log_of T w = mget [] (mb_topics (bw_broker w)) T"

text \<open>A member: a group and the sink of its handler.\<close>

definition member_ok :: "string \<Rightarrow> json message list \<Rightarrow> string \<times> nat \<Rightarrow> mem_world \<Rightarrow> bool \<times> (mem_call + gerr option) \<Rightarrow> bool" where
  "member_ok T L gk w cx \<longleftrightarrow> (case cx of
     (c, Inr err) \<Rightarrow> c \<and> err = None
   | (c, Inl l) \<Rightarrow> mk_topic l = T \<and> mk_group l = fst gk \<and> keeps_in (snd gk) (mk_handler l) \<and>
       at_ok L (off_of T (fst gk) w) (bw_sinks w (snd gk)) (mk_at l) \<and>
       (mk_at l = Entering \<longrightarrow> \<not> active_in T (fst gk) w) \<and> (mk_at l = Leaving \<longrightarrow> c))"

definition untouched :: "string \<Rightarrow> string \<times> nat \<Rightarrow> mem_world \<Rightarrow> bool" where
  "untouched T gk w \<longleftrightarrow> off_of T (fst gk) w = 0 \<and> \<not> active_in T (fst gk) w \<and> bw_sinks w (snd gk) = []"

definition same_for :: "string \<Rightarrow> string \<times> nat \<Rightarrow> mem_world \<Rightarrow> mem_world \<Rightarrow> bool" where
  "same_for T gk w w' \<longleftrightarrow> off_of T (fst gk) w' = off_of T (fst gk) w \<and> active_in T (fst gk) w' = active_in T (fst gk) w \<and>
     bw_sinks w' (snd gk) = bw_sinks w (snd gk)"

lemma same_kept:
  "same_for T gk w w' \<Longrightarrow> member_ok T L gk w cx \<Longrightarrow> member_ok T L gk w' cx"
  "same_for T gk w w' \<Longrightarrow> untouched T gk w \<Longrightarrow> untouched T gk w'"
  by (auto simp: same_for_def member_ok_def untouched_def split: sum.splits)

text \<open>The turns that a call needs until its sink has \<open>n\<close> messages, refusals not counted.\<close>

fun turns_for :: "nat \<Rightarrow> json mb_at \<Rightarrow> nat" where
  "turns_for m Polling = 3 * m - 1"
| "turns_for m (Handling k x) = 3 * m - 2"
| "turns_for m Leaving = 0"
| "turns_for m a = 3 * m"

definition needed :: "nat \<Rightarrow> nat \<Rightarrow> mem_world \<Rightarrow> mem_call + gerr option \<Rightarrow> nat" where
  "needed n k w x = (case x of Inr err \<Rightarrow> 0
   | Inl l \<Rightarrow> turns_for (n - length (bw_sinks w k)) (mk_at l) + 3 * (2 - bw_attempts w))"

lemmas mem_step_defs = mem_under_test_def mb_subscriber_def mb_step_def Let_def off_of_def active_in_def log_of_def
  mb_enter_def mb_leave_def mb_commit_def mb_next_def

lemma keeps_cases:
  assumes "keeps_in k h"
  obtains "h w m = (w\<lparr>bw_sinks := (bw_sinks w)(k := bw_sinks w k @ [m])\<rparr>, None)"
    | err where "h w m = (w\<lparr>bw_attempts := bw_attempts w + 1\<rparr>, Some err)" "bw_attempts w < 2"
proof -
  obtain w' r where h: "h w m = (w', r)" by force
  have "case h w m of (w', None) \<Rightarrow> w' = w\<lparr>bw_sinks := (bw_sinks w)(k := bw_sinks w k @ [m])\<rparr>
    | (w', Some err) \<Rightarrow> w' = w\<lparr>bw_attempts := bw_attempts w + 1\<rparr> \<and> bw_attempts w < 2"
    by (rule spec[OF spec[OF assms[unfolded keeps_in_def]]])
  with h that show thesis by (cases r) simp_all
qed

lemma mget_dropped: "k \<noteq> k' \<Longrightarrow> mget d (m(k := None)) k' = mget d m k'"
  by (simp add: mget_def)

lemma member_step:
  assumes "member_ok T L gk w (c, Inl l)" "log_of T w = L" "sb_step mem_under_test c l w = (w', x)"
  shows "member_ok T L gk w' (c, x) \<and> log_of T w' = L \<and> bw_attempts w \<le> bw_attempts w' \<and>
    length (bw_sinks w k) \<le> length (bw_sinks w' k) \<and>
    (fst gk' \<noteq> fst gk \<and> snd gk' \<noteq> snd gk \<longrightarrow> same_for T gk' w w') \<and>
    (\<not> c \<and> length (bw_sinks w (snd gk)) < n \<and> n \<le> length L \<longrightarrow> needed n (snd gk) w' x < needed n (snd gk) w (Inl l))"
proof (cases "mk_at l")
  case (Handling off m)
  have h: "keeps_in (snd gk) (mk_handler l)" using assms(1) by (simp add: member_ok_def)
  show ?thesis
  proof (cases rule: keeps_cases[OF h, of w m])
    case 1
    with assms Handling show ?thesis
      by (auto simp: member_ok_def same_for_def needed_def mem_step_defs take_Suc_conv_app_nth)
  next
    case 2
    with assms Handling show ?thesis
      by (auto simp: member_ok_def same_for_def needed_def mem_step_defs)
  qed
qed (use assms in \<open>auto simp: member_ok_def same_for_def needed_def mem_step_defs mget_dropped split: if_splits\<close>)

section \<open>Runs\<close>

text \<open>The goroutines that were started have the first of the declared members; groups and sinks differ.\<close>

definition run_ok :: "string \<Rightarrow> json message list \<Rightarrow> (string \<times> nat) list \<Rightarrow> (json mem_broker, mem_call) bt_run \<Rightarrow> bool" where
  "run_ok T L ms r \<longleftrightarrow> distinct (map fst ms) \<and> distinct (map snd ms) \<and> log_of T (br_world r) = L \<and>
     length (br_calls r) \<le> length ms \<and>
     (\<forall>i<length (br_calls r). member_ok T L (ms ! i) (br_world r) (br_calls r ! i)) \<and>
     (\<forall>i. length (br_calls r) \<le> i \<and> i < length ms \<longrightarrow> untouched T (ms ! i) (br_world r))"

lemma turn_ok:
  assumes "run_ok T L ms r"
  shows "run_ok T L ms (bt_turn mem_under_test i r) \<and> length (br_calls (bt_turn mem_under_test i r)) = length (br_calls r)"
    and "map fst (br_calls (bt_turn mem_under_test i r)) = map fst (br_calls r)"
    and "j < length (br_calls r) \<Longrightarrow> \<not> fst (br_calls r ! j) \<Longrightarrow> n \<le> length L \<Longrightarrow>
      length (bw_sinks (br_world r) (snd (ms ! j))) < n \<Longrightarrow> r' = bt_turn mem_under_test i r \<Longrightarrow>
      needed n (snd (ms ! j)) (br_world r') (snd (br_calls r' ! j)) + (if i = j then 1 else 0) \<le>
        needed n (snd (ms ! j)) (br_world r) (snd (br_calls r ! j))"
    and "length (bw_sinks (br_world r) k) \<le> length (bw_sinks (br_world (bt_turn mem_under_test i r)) k)"
proof -
  let ?r = "bt_turn mem_under_test i r"
  have all: "(run_ok T L ms ?r \<and> length (br_calls ?r) = length (br_calls r)) \<and> map fst (br_calls ?r) = map fst (br_calls r) \<and>
    length (bw_sinks (br_world r) k) \<le> length (bw_sinks (br_world ?r) k) \<and>
    (j < length (br_calls r) \<and> \<not> fst (br_calls r ! j) \<and> n \<le> length L \<and> length (bw_sinks (br_world r) (snd (ms ! j))) < n \<longrightarrow>
      needed n (snd (ms ! j)) (br_world ?r) (snd (br_calls ?r ! j)) + (if i = j then 1 else 0) \<le>
        needed n (snd (ms ! j)) (br_world r) (snd (br_calls r ! j)))" for j n k
  proof (cases "i < length (br_calls r)")
    case False
    with assms show ?thesis by (simp add: bt_turn_def)
  next
    case i: True
    obtain c y where cy: "br_calls r ! i = (c, y)" by force
    have m: "member_ok T L (ms ! i) (br_world r) (c, y)" using assms i cy unfolding run_ok_def by metis
    show ?thesis
    proof (cases y)
      case (Inr err)
      with m have "c" by (simp add: member_ok_def)
      with assms i cy Inr show ?thesis by (auto simp: bt_turn_def)
    next
      case (Inl l)
      obtain w' x where st: "sb_step mem_under_test c l (br_world r) = (w', x)" by force
      have L: "log_of T (br_world r) = L" using assms by (simp add: run_ok_def)
      note ms = member_step[OF m[unfolded Inl] L st]
      have r': "?r = \<lparr>br_world = w', br_calls = (br_calls r)[i := (c, x)]\<rparr>"
        using i cy Inl st by (simp add: bt_turn_def)
      have same: "same_for T (ms ! k) (br_world r) w'" if "k \<noteq> i" "k < length ms" for k
        using ms[of _ "ms ! k"] that i assms by (auto simp: run_ok_def distinct_conv_nth)
      have ok: "member_ok T L (ms ! k) w' ((br_calls r)[i := (c, x)] ! k)" if "k < length (br_calls r)" for k
        using that ms same[of k] same_kept(1)[of T "ms ! k" "br_world r" w' L] assms i
        by (cases "k = i") (auto simp: run_ok_def)
      have un: "untouched T (ms ! k) w'" if "length (br_calls r) \<le> k" "k < length ms" for k
        using that same[of k] same_kept(2)[of T "ms ! k" "br_world r" w'] assms i by (auto simp: run_ok_def)
      have fs: "map fst ((br_calls r)[i := (c, x)]) = map fst (br_calls r)"
        using cy by (simp add: map_update) (metis fst_conv list_update_id nth_map i)
      have "run_ok T L ms ?r" using assms ok un ms by (simp add: run_ok_def r')
      moreover have "needed n (snd (ms ! j)) w' (snd ((br_calls r)[i := (c, x)] ! j)) + (if i = j then 1 else 0) \<le>
        needed n (snd (ms ! j)) (br_world r) (snd (br_calls r ! j))"
        if "j < length (br_calls r)" "\<not> fst (br_calls r ! j)" "n \<le> length L" "length (bw_sinks (br_world r) (snd (ms ! j))) < n"
      proof (cases "i = j")
        case True
        with that cy Inl ms[of _ _ n] i show ?thesis by (auto simp: Suc_le_eq)
      next
        case False
        then have "bw_sinks w' (snd (ms ! j)) = bw_sinks (br_world r) (snd (ms ! j))"
          using same[of j] that(1) assms by (auto simp: same_for_def run_ok_def)
        moreover have "2 - bw_attempts w' \<le> 2 - bw_attempts (br_world r)" using ms by (simp add: diff_le_mono2)
        ultimately show ?thesis using False by (simp add: needed_def split: sum.splits)
      qed
      moreover have "length (bw_sinks (br_world r) k) \<le> length (bw_sinks w' k)" using ms by blast
      ultimately show ?thesis using fs by (simp add: r')
    qed
  qed
  from all show "run_ok T L ms ?r \<and> length (br_calls ?r) = length (br_calls r)" "map fst (br_calls ?r) = map fst (br_calls r)"
    "length (bw_sinks (br_world r) k) \<le> length (bw_sinks (br_world ?r) k)"
    by blast+
  from all show "j < length (br_calls r) \<Longrightarrow> \<not> fst (br_calls r ! j) \<Longrightarrow> n \<le> length L \<Longrightarrow>
      length (bw_sinks (br_world r) (snd (ms ! j))) < n \<Longrightarrow> r' = ?r \<Longrightarrow>
      needed n (snd (ms ! j)) (br_world r') (snd (br_calls r' ! j)) + (if i = j then 1 else 0) \<le>
        needed n (snd (ms ! j)) (br_world r) (snd (br_calls r ! j))" by blast
qed

text \<open>Waiting for \<open>n\<close> messages: what comes out is the log's first part, and enough turns bring it.\<close>

lemma turns_ok:
  assumes "run_ok T L ms r"
  shows "run_ok T L ms (bt_turns mem_under_test is r) \<and>
    length (br_calls (bt_turns mem_under_test is r)) = length (br_calls r) \<and>
    map fst (br_calls (bt_turns mem_under_test is r)) = map fst (br_calls r)"
  using assms
proof (induction "is" arbitrary: r)
  case (Cons i "is")
  from Cons.IH[OF conjunct1[OF turn_ok(1)[OF Cons.prems, of i]]] turn_ok(1,2)[OF Cons.prems, of i]
  show ?case by (simp add: bt_turns_def)
qed (simp add: bt_turns_def)

lemma turns_uncancelled:
  assumes "run_ok T L ms r" "j < length (br_calls r)" "\<not> fst (br_calls r ! j)"
  shows "\<not> fst (br_calls (bt_turns mem_under_test is r) ! j)"
  using turns_ok[OF assms(1), of "is"] assms(2,3) by (metis nth_map)

lemma turns_progress:
  assumes "run_ok T L ms r" "j < length (br_calls r)" "\<not> fst (br_calls r ! j)" "n \<le> length L"
    and "r' = bt_turns mem_under_test is r"
  shows "n \<le> length (bw_sinks (br_world r') (snd (ms ! j))) \<or>
    needed n (snd (ms ! j)) (br_world r') (snd (br_calls r' ! j)) + count_list is j \<le>
      needed n (snd (ms ! j)) (br_world r) (snd (br_calls r ! j))"
  using assms
proof (induction "is" arbitrary: r)
  case (Cons i "is")
  let ?r = "bt_turn mem_under_test i r"
  have ok: "run_ok T L ms ?r" "length (br_calls ?r) = length (br_calls r)" and fs: "map fst (br_calls ?r) = map fst (br_calls r)"
    using turn_ok(1,2)[OF Cons.prems(1), of i] by blast+
  then have j: "j < length (br_calls ?r)" "\<not> fst (br_calls ?r ! j)" using Cons.prems(2,3) by (metis nth_map)+
  have r': "r' = bt_turns mem_under_test is ?r" using Cons.prems(5) by (simp add: bt_turns_def)
  note IH = Cons.IH[OF ok(1) j Cons.prems(4) r']
  show ?case
  proof (cases "length (bw_sinks (br_world r) (snd (ms ! j))) < n")
    case True
    from turn_ok(3)[OF Cons.prems(1-4) True refl, of i] IH show ?thesis by (auto split: if_splits)
  next
    case False
    have "length (bw_sinks (br_world r) k) \<le> length (bw_sinks (br_world (bt_turns mem_under_test js r)) k)" if "run_ok T L ms r" for js k r
      using that
    proof (induction js arbitrary: r)
      case (Cons x js)
      from Cons.IH[OF conjunct1[OF turn_ok(1)[OF Cons.prems, of x]]] turn_ok(4)[OF Cons.prems, of k x]
      show ?case by (simp add: bt_turns_def)
    qed (simp add: bt_turns_def)
    from this[OF Cons.prems(1), of "snd (ms ! j)" "i # is"] False Cons.prems(5) show ?thesis by simp
  qed
qed (simp add: bt_turns_def)

lemma needed_pos:
  assumes "run_ok T L ms r" "j < length (br_calls r)" "\<not> fst (br_calls r ! j)"
    and "needed n (snd (ms ! j)) (br_world r) (snd (br_calls r ! j)) = 0"
  shows "n \<le> length (bw_sinks (br_world r) (snd (ms ! j)))"
proof -
  obtain y where y: "br_calls r ! j = (False, y)" using assms(3) by (cases "br_calls r ! j") auto
  have "member_ok T L (ms ! j) (br_world r) (False, y)" using assms(1,2) y by (auto simp: run_ok_def)
  then obtain l where l: "y = Inl l" "mk_at l \<noteq> Leaving" by (auto simp: member_ok_def split: sum.splits)
  with assms(4) y show ?thesis by (cases "mk_at l") (auto simp: needed_def)
qed

lemma sink_takes:
  assumes "run_ok T L ms r" "j < length (br_calls r)" "\<not> fst (br_calls r ! j)"
  shows "\<exists>m. bw_sinks (br_world r) (snd (ms ! j)) = take m L"
proof -
  obtain y where y: "br_calls r ! j = (False, y)" using assms(3) by (cases "br_calls r ! j") auto
  have "member_ok T L (ms ! j) (br_world r) (False, y)" using assms(1,2) y by (auto simp: run_ok_def)
  then have "\<exists>a. at_ok L (off_of T (fst (ms ! j)) (br_world r)) (bw_sinks (br_world r) (snd (ms ! j))) a"
    by (auto simp: member_ok_def split: sum.splits)
  then obtain a where "at_ok L (off_of T (fst (ms ! j)) (br_world r)) (bw_sinks (br_world r) (snd (ms ! j))) a" ..
  then show ?thesis by (cases a) (auto intro: exI[of _ 0])
qed

lemma await_ok:
  assumes "run_ok T L ms r" "j < length (br_calls r)" "\<not> fst (br_calls r ! j)"
    and "bt_await mem_under_test (snd (ms ! j)) (length L) iss r = (r', out)"
  shows "run_ok T L ms r' \<and> length (br_calls r') = length (br_calls r) \<and> map fst (br_calls r') = map fst (br_calls r) \<and>
    (case out of Some got \<Rightarrow> got = L
     | None \<Rightarrow> iss = [] \<or> count_list (concat (butlast iss)) j < needed (length L) (snd (ms ! j)) (br_world r) (snd (br_calls r ! j)))"
  using assms
proof (induction iss arbitrary: r)
  case (Cons "is" iss)
  let ?k = "snd (ms ! j)" and ?r = "bt_turns mem_under_test is r"
  show ?case
  proof (cases "length L \<le> length (bw_sinks (br_world r) ?k)")
    case True
    moreover from sink_takes[OF Cons.prems(1-3)] True have "bw_sinks (br_world r) ?k = L" by auto
    ultimately show ?thesis using Cons.prems by auto
  next
    case False
    have ok: "run_ok T L ms ?r" "length (br_calls ?r) = length (br_calls r)" "map fst (br_calls ?r) = map fst (br_calls r)"
      using turns_ok[OF Cons.prems(1)] by blast+
    then have j: "j < length (br_calls ?r)" "\<not> fst (br_calls ?r ! j)" using Cons.prems(2,3) by (metis nth_map)+
    have aw: "bt_await mem_under_test ?k (length L) iss ?r = (r', out)" using Cons.prems(4) False by simp
    note IH = Cons.IH[OF ok(1) j aw]
    have pos: "0 < needed (length L) ?k (br_world r) (snd (br_calls r ! j))"
      using needed_pos[OF Cons.prems(1-3)] False by blast
    show ?thesis
    proof (cases "out = None \<and> iss \<noteq> []")
      case True
      then have "\<not> length L \<le> length (bw_sinks (br_world ?r) ?k)" using aw by (cases iss) (auto split: if_splits)
      with turns_progress[OF Cons.prems(1-3) order_refl refl, of "is"]
      have "needed (length L) ?k (br_world ?r) (snd (br_calls ?r ! j)) + count_list is j \<le>
        needed (length L) ?k (br_world r) (snd (br_calls r ! j))" by blast
      with IH ok True show ?thesis by auto
    next
      case False
      with IH ok pos show ?thesis by (auto split: option.splits)
    qed
  qed
qed auto

section \<open>The steps of the tests\<close>

text \<open>A topic nobody has used, in a broker that may have others.\<close>

definition bt_fresh :: "string \<Rightarrow> json mem_broker \<Rightarrow> bool" where
  "bt_fresh T b \<longleftrightarrow> mget [] (mb_topics b) T = [] \<and>
     (\<forall>g. mget 0 (mb_offsets b) (T, g) = 0 \<and> \<not> mget False (mb_active b) (T, g))"

lemma setup_ok: "bt_fresh T b \<Longrightarrow> distinct (map fst ms) \<Longrightarrow> distinct (map snd ms) \<Longrightarrow> run_ok T [] ms (bt_setup b)"
  by (simp add: bt_fresh_def run_ok_def bt_setup_def log_of_def untouched_def off_of_def active_in_def)

lemma at_ok_grows: "at_ok L off got a \<Longrightarrow> at_ok (L @ xs) off got a"
  by (cases a) (auto simp: nth_append)

lemma publish_keeps:
  assumes "run_ok T L ms r"
  shows "\<exists>r'. must_publish mem_publish T xs r = (r', None) \<and> run_ok T (L @ xs) ms r' \<and> br_calls r' = br_calls r \<and>
    bw_sinks (br_world r') = bw_sinks (br_world r) \<and> bw_attempts (br_world r') = bw_attempts (br_world r)"
proof -
  let ?w = "(br_world r)\<lparr>bw_broker := mb_publish (bw_broker (br_world r)) T xs\<rparr>"
  have f: "off_of T g ?w = off_of T g (br_world r)" "active_in T g ?w = active_in T g (br_world r)" for g
    by (simp_all add: off_of_def active_in_def mb_publish_def)
  have "member_ok T (L @ xs) gk ?w cx" if "member_ok T L gk (br_world r) cx" for gk cx
    using that by (auto simp: member_ok_def f at_ok_grows split: sum.splits)
  with assms show ?thesis
    by (auto simp: must_publish_def mem_publish_def run_ok_def log_of_def untouched_def f)
qed

lemma go_ok:
  assumes "run_ok T L ms r" "length (br_calls r) < length ms" "keeps_in (snd (ms ! length (br_calls r))) h"
    and "r' = bt_go mem_under_test T (fst (ms ! length (br_calls r))) h r"
  shows "run_ok T L ms r' \<and> length (br_calls r') = Suc (length (br_calls r)) \<and> \<not> fst (br_calls r' ! length (br_calls r)) \<and>
    needed (length L) (snd (ms ! length (br_calls r))) (br_world r') (snd (br_calls r' ! length (br_calls r))) \<le> 3 * length L + 6"
  using assms
  by (auto simp: run_ok_def bt_go_def nth_append less_Suc_eq member_ok_def untouched_def mem_under_test_def mb_subscriber_def needed_def)

lemma cancel_ok:
  assumes "run_ok T L ms r" "i < length (br_calls r)"
  shows "run_ok T L ms (bt_cancel i r)"
proof -
  have "member_ok T L gk w (True, snd cx)" if "member_ok T L gk w cx" for gk w cx
    using that by (auto simp: member_ok_def split: sum.splits)
  with assms show ?thesis by (auto simp: run_ok_def bt_cancel_def nth_list_update)
qed

lemma collect_ok:
  assumes "run_ok T L ms r" "j = length (br_calls r)" "j < length ms" "ms ! j = (g, k)"
    and "bt_collect mem_under_test T g k (length L) iss r = (r', out)"
  shows "run_ok T L ms r' \<and> length (br_calls r') = Suc j \<and>
    (out = Some L \<or> out = None \<and> count_list (concat (butlast iss)) j < 3 * length L + 6)"
proof -
  let ?r = "bt_go mem_under_test T g (sink_handler k) r"
  obtain r1 where aw: "bt_await mem_under_test k (length L) iss ?r = (r1, out)" "r' = bt_cancel j r1"
    using assms(2,5) by (auto simp: bt_collect_def split: prod.splits)
  have g: "run_ok T L ms ?r" "length (br_calls ?r) = Suc j" "\<not> fst (br_calls ?r ! j)"
    "needed (length L) k (br_world ?r) (snd (br_calls ?r ! j)) \<le> 3 * length L + 6"
    using go_ok[OF assms(1), of "sink_handler k" ?r] assms(2-4) sink_keeps by auto
  note a = await_ok[OF g(1) _ g(3), of iss r1 out]
  have "run_ok T L ms r1 \<and> length (br_calls r1) = Suc j \<and> (out = Some L \<or> out = None \<and> (iss = [] \<or>
      count_list (concat (butlast iss)) j < needed (length L) k (br_world ?r) (snd (br_calls ?r ! j))))"
    using a g(2) aw(1) assms(4) by (auto split: option.splits)
  with g(4) cancel_ok[of T L ms r1 j] aw(2) show ?thesis by (auto simp: bt_cancel_def)
qed

section \<open>The subtests on the in-memory broker\<close>

lemma before_ok:
  assumes "bt_fresh T b"
  shows "published_before mem_publish mem_under_test now T iss b = Passed \<or>
    published_before mem_publish mem_under_test now T iss b = TimedOut \<and> count_list (concat (butlast iss)) 0 < 12"
proof -
  let ?L = "[bt_msg now ''m1'', bt_msg now ''m2'']"
  obtain r where r: "must_publish mem_publish T ?L (bt_setup b) = (r, None)" "run_ok T ?L [(''g1'', 0)] r" "br_calls r = []"
    using publish_keeps[OF setup_ok[OF assms, of "[(''g1'', 0)]"], of ?L] by (auto simp: bt_setup_def)
  obtain r' out where c: "bt_collect mem_under_test T ''g1'' 0 2 iss r = (r', out)" by force
  from collect_ok[OF r(2), of 0 "''g1''" 0 iss r' out] r(3) c
  have "out = Some ?L \<or> out = None \<and> count_list (concat (butlast iss)) 0 < 12" by (simp add: numeral_2_eq_2)
  with r c show ?thesis by (auto simp: published_before_def bt_msg_def)
qed

lemma needed_le: "needed n k w x \<le> 3 * n + 6"
proof -
  have "turns_for m a \<le> 3 * m" for m a by (cases a) auto
  moreover have "3 * (n - length (bw_sinks w k)) \<le> 3 * n" by simp
  ultimately have "turns_for (n - length (bw_sinks w k)) a \<le> 3 * n" for a using order_trans by blast
  moreover have "3 * (2 - bw_attempts w) \<le> 6" by simp
  ultimately show ?thesis unfolding needed_def by (cases x) (auto intro: add_mono)
qed

lemma while_ok:
  assumes "bt_fresh T b"
  shows "published_while mem_publish mem_under_test now T is iss b = Passed \<or>
    published_while mem_publish mem_under_test now T is iss b = TimedOut \<and> count_list (concat (butlast iss)) 0 < 12"
proof -
  let ?ms = "[(''g1'', 0)]" and ?L = "[bt_msg now ''m1'']"
  let ?r = "bt_go mem_under_test T ''g1'' (sink_handler 0) (bt_setup b)" and ?r1 = "\<lambda>r. bt_turns mem_under_test is r"
  have s: "run_ok T [] ?ms (bt_setup b)" by (rule setup_ok[OF assms]) simp_all
  have g: "run_ok T [] ?ms ?r" "length (br_calls ?r) = 1" "\<not> fst (br_calls ?r ! 0)"
    using go_ok[OF s, of "sink_handler 0" ?r] by (simp_all add: bt_setup_def sink_keeps)
  have t: "run_ok T [] ?ms (?r1 ?r)" "length (br_calls (?r1 ?r)) = 1" "\<not> fst (br_calls (?r1 ?r) ! 0)"
    using turns_ok[OF g(1), of "is"] turns_uncancelled[OF g(1) _ g(3), of "is"] g(2) by simp_all
  obtain r2 where p: "must_publish mem_publish T ?L (?r1 ?r) = (r2, None)" "run_ok T ?L ?ms r2" "br_calls r2 = br_calls (?r1 ?r)"
    using publish_keeps[OF t(1), of ?L] by auto
  obtain r3 out where c: "bt_await mem_under_test 0 1 iss r2 = (r3, out)" by force
  have "out = Some ?L \<or> out = None \<and> (iss = [] \<or> count_list (concat (butlast iss)) 0 < needed 1 0 (br_world r2) (snd (br_calls r2 ! 0)))"
    using await_ok[OF p(2), of 0 iss r3 out] p(3) t(2,3) c by (auto split: option.splits)
  with needed_le[of 1 0 "br_world r2" "snd (br_calls r2 ! 0)"] p(1) c show ?thesis
    by (auto simp: published_while_def)
qed

lemma groups_ok:
  assumes "bt_fresh T b"
  shows "each_group mem_publish mem_under_test now T iss1 iss2 b = Passed \<or>
    each_group mem_publish mem_under_test now T iss1 iss2 b = TimedOut \<and>
      (count_list (concat (butlast iss1)) 0 < 12 \<or> count_list (concat (butlast iss2)) 1 < 12)"
proof -
  let ?L = "[bt_msg now ''m1'', bt_msg now ''m2'']" and ?ms = "[(''g1'', 0), (''g2'', 1)]"
  obtain r where r: "must_publish mem_publish T ?L (bt_setup b) = (r, None)" "run_ok T ?L ?ms r" "br_calls r = []"
    using publish_keeps[OF setup_ok[OF assms, of ?ms], of ?L] by (auto simp: bt_setup_def)
  obtain r1 out1 where c1: "bt_collect mem_under_test T ''g1'' 0 2 iss1 r = (r1, out1)" by force
  obtain r2 out2 where c2: "bt_collect mem_under_test T ''g2'' 1 2 iss2 r1 = (r2, out2)" by force
  from collect_ok[OF r(2), of 0 "''g1''" 0 iss1 r1 out1] r(3) c1
  have 1: "run_ok T ?L ?ms r1" "length (br_calls r1) = 1"
    "out1 = Some ?L \<or> out1 = None \<and> count_list (concat (butlast iss1)) 0 < 12" by (simp_all add: numeral_2_eq_2)
  from collect_ok[OF 1(1), of 1 "''g2''" 1 iss2 r2 out2] 1(2) c2
  have "out2 = Some ?L \<or> out2 = None \<and> count_list (concat (butlast iss2)) 1 < 12" by (simp add: numeral_2_eq_2)
  with 1(3) r(1) c1 c2 show ?thesis by (auto simp: each_group_def)
qed

lemma envelope_ok:
  assumes "bt_fresh T b"
  shows "envelope_round_trips mem_publish mem_under_test T iss b = Passed \<or>
    envelope_round_trips mem_publish mem_under_test T iss b = TimedOut \<and> count_list (concat (butlast iss)) 0 < 12"
proof -
  let ?L = "[bt_envelope]"
  obtain r where r: "must_publish mem_publish T ?L (bt_setup b) = (r, None)" "run_ok T ?L [(''g1'', 0)] r" "br_calls r = []"
    using publish_keeps[OF setup_ok[OF assms, of "[(''g1'', 0)]"], of ?L] by (auto simp: bt_setup_def)
  obtain r' out where c: "bt_collect mem_under_test T ''g1'' 0 1 iss r = (r', out)" by force
  from collect_ok[OF r(2), of 0 "''g1''" 0 iss r' out] r(3) c
  have "out = Some ?L \<or> out = None \<and> count_list (concat (butlast iss)) 0 < 12" by auto
  with r c show ?thesis
    by (auto simp: envelope_round_trips_def Let_def) (simp_all add: bt_envelope_def meta_get_def)
qed

text \<open>The flaky handler has refused twice before it keeps anything.\<close>

definition flaky_ok :: "string \<Rightarrow> instant \<Rightarrow> (json mem_broker, mem_call) bt_run \<Rightarrow> bool" where
  "flaky_ok T now r \<longleftrightarrow> run_ok T [bt_msg now ''m1'', bt_msg now ''m2''] [(''g1'', 0)] r \<and>
     (\<exists>l. br_calls r = [(False, Inl l)] \<and> mk_handler l = flaky_handler) \<and>
     bw_attempts (br_world r) \<le> 2 \<and> (bw_sinks (br_world r) 0 \<noteq> [] \<longrightarrow> bw_attempts (br_world r) = 2)"

lemma flaky_turn:
  assumes "flaky_ok T now r"
  shows "flaky_ok T now (bt_turn mem_under_test i r)"
proof (cases "i = 0")
  case False
  with assms show ?thesis by (auto simp: flaky_ok_def bt_turn_def)
next
  case True
  let ?L = "[bt_msg now ''m1'', bt_msg now ''m2'']"
  have ok: "run_ok T ?L [(''g1'', 0)] r" using assms by (simp add: flaky_ok_def)
  obtain l where l: "br_calls r = [(False, Inl l)]" "mk_handler l = flaky_handler"
    and a: "bw_attempts (br_world r) \<le> 2" "bw_sinks (br_world r) 0 \<noteq> [] \<Longrightarrow> bw_attempts (br_world r) = 2"
    using assms by (auto simp: flaky_ok_def)
  have m: "member_ok T ?L (''g1'', 0) (br_world r) (False, Inl l)" using ok l by (auto simp: run_ok_def)
  note ok' = conjunct1[OF turn_ok(1)[OF ok, of 0]]
  show ?thesis
  proof (cases "mk_at l")
    case (Handling k x)
    with m have h: "x = ?L ! k" "k < 2" "bw_sinks (br_world r) 0 = take k ?L" by (simp_all add: member_ok_def)
    show ?thesis
    proof (cases "k = 0")
      case True
      with h Handling l a ok' \<open>i = 0\<close> show ?thesis
        by (auto simp: flaky_ok_def bt_turn_def mem_step_defs flaky_handler_def bt_msg_def)
    next
      case False
      then have "k = 1" using h(2) by simp
      with h Handling l a ok' \<open>i = 0\<close> show ?thesis
        by (auto simp: flaky_ok_def bt_turn_def mem_step_defs flaky_handler_def bt_msg_def)
    qed
  qed (use m l a ok' \<open>i = 0\<close> in \<open>auto simp: flaky_ok_def bt_turn_def mem_step_defs member_ok_def split: if_splits sum.splits prod.splits\<close>)
qed

lemma redelivery_ok:
  assumes "bt_fresh T b"
  shows "redelivery mem_publish mem_under_test now T is b = Passed \<or>
    redelivery mem_publish mem_under_test now T is b = TimedOut \<and> count_list is 0 < 12"
proof -
  let ?L = "[bt_msg now ''m1'', bt_msg now ''m2'']" and ?ms = "[(''g1'', 0)]"
  obtain r where r: "must_publish mem_publish T ?L (bt_setup b) = (r, None)" "run_ok T ?L ?ms r" "br_calls r = []"
    "bw_sinks (br_world r) 0 = []" "bw_attempts (br_world r) = 0"
    using publish_keeps[OF setup_ok[OF assms, of ?ms], of ?L] by (auto simp: bt_setup_def)
  let ?r = "bt_go mem_under_test T ''g1'' flaky_handler r" and ?r' = "bt_turns mem_under_test is (bt_go mem_under_test T ''g1'' flaky_handler r)"
  have g: "run_ok T ?L ?ms ?r" "length (br_calls ?r) = 1" "\<not> fst (br_calls ?r ! 0)"
    using go_ok[OF r(2), of flaky_handler ?r] r(3) by (simp_all add: flaky_keeps)
  have "flaky_ok T now ?r" using g r by (auto simp: flaky_ok_def bt_go_def mem_under_test_def mb_subscriber_def)
  then have f: "flaky_ok T now ?r'"
    unfolding bt_turns_def by (induction "is" rule: rev_induct) (auto intro: flaky_turn)
  then obtain l where l: "br_calls ?r' = [(False, Inl l)]" by (auto simp: flaky_ok_def)
  let ?got = "bw_sinks (br_world ?r') 0"
  obtain m where m: "?got = take m ?L" using sink_takes[of T ?L ?ms ?r' 0] f l by (auto simp: flaky_ok_def)
  show ?thesis
  proof (cases "length ?got < 2")
    case True
    have "count_list is 0 < 12"
    proof (rule ccontr)
      assume n: "\<not> count_list is 0 < 12"
      have "needed 2 0 (br_world ?r') (snd (br_calls ?r' ! 0)) + count_list is 0 \<le> needed 2 0 (br_world ?r) (snd (br_calls ?r ! 0))"
        using turns_progress[OF g(1), of 0 2 ?r' "is"] g True by auto
      with n needed_le[of 2 0 "br_world ?r" "snd (br_calls ?r ! 0)"] have "needed 2 0 (br_world ?r') (snd (br_calls ?r' ! 0)) = 0"
        by simp
      with needed_pos[of T ?L ?ms ?r' 0 2] f l True show False by (simp add: flaky_ok_def)
    qed
    with True r(1) show ?thesis by (simp add: redelivery_def Let_def)
  next
    case False
    with m have "?got = ?L" by auto
    moreover from this f have "bw_attempts (br_world ?r') = 2" by (simp add: flaky_ok_def)
    ultimately show ?thesis using r(1) by (simp add: redelivery_def Let_def bt_msg_def)
  qed
qed

text \<open>A subscription that has nothing to deliver, and its end.\<close>

definition quiet :: "string \<Rightarrow> (json mem_broker, mem_call) bt_run \<Rightarrow> bool" where
  "quiet T r \<longleftrightarrow> (\<exists>c x. br_calls r = [(c, x)] \<and> (case x of
     Inr err \<Rightarrow> c \<and> err = None
   | Inl l \<Rightarrow> mk_topic l = T \<and> mk_handler l = (\<lambda>w m. (w, None)) \<and> (mk_at l = Leaving \<longrightarrow> c) \<and>
       (mk_at l = Entering \<longrightarrow> \<not> active_in T (mk_group l) (br_world r))))"

definition leaves_in :: "(json mem_broker, mem_call) bt_run \<Rightarrow> nat" where
  "leaves_in r = (case snd (br_calls r ! 0) of Inl l \<Rightarrow> mb_turns (mk_at l) + 1 | Inr err \<Rightarrow> 0)"

lemma quiet_turn:
  assumes "quiet T r"
  shows "quiet T (bt_turn mem_under_test i r)"
    and "fst (br_calls (bt_turn mem_under_test i r) ! 0) = fst (br_calls r ! 0)"
    and "fst (br_calls r ! 0) \<Longrightarrow> leaves_in (bt_turn mem_under_test i r) \<le> leaves_in r - (if i = 0 then 1 else 0)"
proof -
  obtain c x where cx: "br_calls r = [(c, x)]" using assms by (auto simp: quiet_def)
  have "quiet T (bt_turn mem_under_test i r) \<and> fst (br_calls (bt_turn mem_under_test i r) ! 0) = fst (br_calls r ! 0) \<and>
    (fst (br_calls r ! 0) \<longrightarrow> leaves_in (bt_turn mem_under_test i r) \<le> leaves_in r - (if i = 0 then 1 else 0))"
  proof (cases "i = 0")
    case False
    with assms cx show ?thesis by (simp add: bt_turn_def)
  next
    case True
    show ?thesis
    proof (cases x)
      case (Inl l)
      with assms cx True show ?thesis
        by (cases "mk_at l") (auto simp: quiet_def leaves_in_def bt_turn_def mem_step_defs split: if_splits option.splits)
    next
      case (Inr err)
      with assms cx True show ?thesis by (simp add: bt_turn_def leaves_in_def)
    qed
  qed
  then show "quiet T (bt_turn mem_under_test i r)" "fst (br_calls (bt_turn mem_under_test i r) ! 0) = fst (br_calls r ! 0)"
    "fst (br_calls r ! 0) \<Longrightarrow> leaves_in (bt_turn mem_under_test i r) \<le> leaves_in r - (if i = 0 then 1 else 0)" by blast+
qed

lemma quiet_turns:
  assumes "quiet T r"
  shows "quiet T (bt_turns mem_under_test is r) \<and> (fst (br_calls r ! 0) \<longrightarrow>
    leaves_in (bt_turns mem_under_test is r) \<le> leaves_in r - count_list is 0)"
  using assms
proof (induction "is" arbitrary: r)
  case (Cons i "is")
  from Cons.IH[OF quiet_turn(1)[OF Cons.prems, of i]] quiet_turn(2,3)[OF Cons.prems, of i]
  show ?case by (auto simp: bt_turns_def split: if_splits)
qed (simp add: bt_turns_def)

lemma quiet_cancel:
  assumes "quiet T r"
  shows "quiet T (bt_cancel 0 r) \<and> fst (br_calls (bt_cancel 0 r) ! 0)"
proof -
  obtain c x where x: "br_calls r = [(c, x)]" using assms by (auto simp: quiet_def)
  with assms show ?thesis by (cases x) (auto simp: quiet_def bt_cancel_def)
qed

lemma cancel_returns:
  assumes "bt_fresh T b"
  shows "returns_on_cancel mem_under_test T is js b = Passed \<or>
    returns_on_cancel mem_under_test T is js b = TimedOut \<and> count_list js 0 < 12"
proof -
  let ?r = "bt_turns mem_under_test is (bt_go mem_under_test T ''g1'' (\<lambda>w m. (w, None)) (bt_setup b))"
  have "quiet T (bt_go mem_under_test T ''g1'' (\<lambda>w m. (w, None)) (bt_setup b))"
    using assms by (auto simp: quiet_def bt_go_def bt_setup_def mem_under_test_def mb_subscriber_def bt_fresh_def active_in_def intro!: exI[of _ False])
  then have q: "quiet T ?r" using quiet_turns by blast
  then have c: "quiet T (bt_cancel 0 ?r)" "fst (br_calls (bt_cancel 0 ?r) ! 0)"
    using quiet_cancel by blast+
  have "mb_turns a \<le> 3" for a :: "json mb_at" by (cases a) simp_all
  then have b: "leaves_in (bt_cancel 0 ?r) \<le> 4" by (auto simp: leaves_in_def split: sum.splits)
  let ?r' = "bt_turns mem_under_test js (bt_cancel 0 ?r)"
  from quiet_turns[OF c(1), of js] c(2) have e: "quiet T ?r'" "leaves_in ?r' \<le> leaves_in (bt_cancel 0 ?r) - count_list js 0" by blast+
  show ?thesis
  proof (cases "snd (br_calls ?r' ! 0)")
    case (Inl l)
    then have "0 < leaves_in ?r'" by (simp add: leaves_in_def)
    with e(2) b Inl show ?thesis by (simp add: returns_on_cancel_def Let_def)
  next
    case (Inr err)
    moreover from e(1) Inr have "err = None" by (auto simp: quiet_def)
    ultimately show ?thesis by (simp add: returns_on_cancel_def Let_def)
  qed
qed

section \<open>The whole suite\<close>

text \<open>A schedule that gives every subscription that is waited for its turns.\<close>

definition generous :: "bt_schedule \<Rightarrow> bool" where
  "generous s \<longleftrightarrow> 12 \<le> count_list (concat (butlast (bs_before s))) 0 \<and> 12 \<le> count_list (concat (butlast (bs_while s))) 0 \<and>
     12 \<le> count_list (concat (butlast (bs_first s))) 0 \<and> 12 \<le> count_list (concat (butlast (bs_second s))) 1 \<and>
     12 \<le> count_list (bs_redeliver s) 0 \<and> 12 \<le> count_list (concat (butlast (bs_envelope s))) 0 \<and> 12 \<le> count_list (bs_cancel s) 0"

text \<open>
  C24. The in-memory broker passes the contract test: however its goroutines are scheduled against the
  test's, no subtest finds fault with it, and with a generous schedule none times out either. The
  backend may be shared, as long as each subtest's topic is new.
\<close>

theorem memory_broker_passes:
  assumes "\<And>i. i < 6 \<Longrightarrow> bt_fresh (''brokertest-'' @ sfx i) (new_broker i)"
  shows "set (brokertest_run mem_publish mem_under_test now sfx s new_broker) \<subseteq> {Passed, TimedOut} \<and>
    (generous s \<longrightarrow> brokertest_run mem_publish mem_under_test now sfx s new_broker = replicate 6 Passed)"
proof -
  note f = assms[of 0] assms[of 1] assms[of 2] assms[of 3] assms[of 4] assms[of 5]
  note ok = before_ok[OF f(1), of now "bs_before s"] while_ok[OF f(2), of now "bs_early s" "bs_while s"]
    groups_ok[OF f(3), of now "bs_first s" "bs_second s"] redelivery_ok[OF f(4), of now "bs_redeliver s"]
    envelope_ok[OF f(5), of "bs_envelope s"] cancel_returns[OF f(6), of "bs_idle s" "bs_cancel s"]
  from ok have "set (brokertest_run mem_publish mem_under_test now sfx s new_broker) \<subseteq> {Passed, TimedOut}"
    by (auto simp: brokertest_run_def Let_def)
  moreover from ok have "brokertest_run mem_publish mem_under_test now sfx s new_broker = replicate 6 Passed" if "generous s"
    using that by (simp add: brokertest_run_def Let_def generous_def numeral_eq_Suc)
  ultimately show ?thesis by blast
qed

text \<open>An adapter that loses what it accepts does not pass, whatever the schedule.\<close>

lemma loss_is_noticed:
  assumes "bt_fresh T b"
  shows "published_before (\<lambda>b topic msgs. (b, None)) mem_under_test now T iss b = TimedOut"
proof -
  let ?r = "bt_go mem_under_test T ''g1'' (sink_handler 0) (bt_setup b)"
  have s: "run_ok T [] [(''g1'', 0)] (bt_setup b)" by (rule setup_ok[OF assms]) simp_all
  have g: "run_ok T [] [(''g1'', 0)] ?r" "length (br_calls ?r) = 1" "\<not> fst (br_calls ?r ! 0)"
    using go_ok[OF s, of "sink_handler 0" ?r] by (simp_all add: bt_setup_def sink_keeps)
  have "snd (bt_await mem_under_test 0 2 iss r) = None" if "run_ok T [] [(''g1'', 0)] r" "length (br_calls r) = 1" "\<not> fst (br_calls r ! 0)" for r
    using that
  proof (induction iss arbitrary: r)
    case (Cons "is" iss)
    have "bw_sinks (br_world r) 0 = []" using sink_takes[OF Cons.prems(1), of 0] Cons.prems(2,3) by auto
    moreover have "snd (bt_await mem_under_test 0 2 iss (bt_turns mem_under_test is r)) = None"
      using Cons.IH turns_ok[OF Cons.prems(1), of "is"] turns_uncancelled[OF Cons.prems(1) _ Cons.prems(3), of "is"] Cons.prems(2)
      by simp
    ultimately show ?case by simp
  qed simp
  from this[OF g] have "snd (bt_await mem_under_test 0 2 iss ?r) = None" .
  then show ?thesis
    by (auto simp: published_before_def must_publish_def bt_collect_def bt_setup_def split: prod.splits)
qed

definition demo_schedule :: bt_schedule where
  "demo_schedule = (let iss = replicate 14 [0 :: nat]; is = replicate 12 (0 :: nat) in
     \<lparr>bs_before = iss, bs_early = [0, 0, 0], bs_while = iss, bs_first = iss, bs_second = replicate 14 [1, 0],
      bs_redeliver = is, bs_envelope = iss, bs_idle = [0, 0], bs_cancel = is\<rparr>)"

theorem memory_broker_passes_witness:
  "brokertest_run mem_publish mem_under_test 0 (\<lambda>i. replicate i CHR ''a'') demo_schedule (\<lambda>i. new_mem_broker) = replicate 6 Passed"
proof (rule memory_broker_passes[THEN conjunct2, THEN mp])
  show "bt_fresh T new_mem_broker" for T by (simp add: bt_fresh_def new_mem_broker_def)
  show "generous demo_schedule" by (simp add: generous_def demo_schedule_def Let_def numeral_eq_Suc)
qed

end
