(* ===== verification/SagaMem.thy ===== *)
theory SagaMem
  imports Saga
begin

text \<open>
  One delivery to a saga on the in-memory store, exactly: what \<open>saga_handler\<close> does to an instance whose
  stream is known.
\<close>

section \<open>A delivery on the in-memory store\<close>

lemma record_commands_done:
  fixes a :: "('s, 'p, 'x) saga_agg"
  assumes "\<forall>out\<in>set outs. oc_topic out \<noteq> [] \<and> cv_json (oc_cmd out) \<in> range Inr"
  shows "\<exists>a'. record_commands d sid md a outs = (a', None) \<and> agg_state a' = agg_state a"
  using assms
proof (induction outs arbitrary: a)
  case (Cons out outs)
  obtain p where p: "cv_json (oc_cmd out) = Inr p" using Cons.prems by auto
  let ?c = "CommandRequested \<lparr>cq_topic = oc_topic out, cq_key = (if oc_key out = [] then sid else oc_key out),
      cq_name = cv_name (oc_cmd out), cq_version = command_version (oc_cmd out), cq_payload = p, cq_meta = md\<rparr>"
  have r: "saga_raise d a ?c = (a\<lparr>agg_pending := agg_pending a @ [?c]\<rparr>, None)"
    by (simp add: saga_raise_def raise_event_def saga_apply_def)
  from Cons.IH[of "a\<lparr>agg_pending := agg_pending a @ [?c]\<rparr>"] Cons.prems p r show ?case
    by (simp del: Product_Type.split_paired_Ex)
qed simp

lemma saga_decide_done:
  fixes a :: "('s, 'p, 'x) saga_agg"
  assumes "\<not> in_ended (agg_state a)" "\<not> mget False (in_seen (agg_state a)) (m_id msg)"
    and "sd_handlers d (event_key (m_type msg) (m_version msg)) = Some h"
    and "eh_handle h (in_state (agg_state a)) msg = (s', Inr ds)"
    and "\<forall>out\<in>set (ds_commands ds). oc_topic out \<noteq> [] \<and> cv_json (oc_cmd out) \<in> range Inr"
  obtains a' where "saga_decide d sid amb msg a = Inr (Some a')"
proof -
  let ?i = "(agg_state a)\<lparr>in_seen := (in_seen (agg_state a))(m_id msg \<mapsto> True), in_state := s', in_last := ds\<rparr>"
  let ?a1 = "a\<lparr>agg_state := ?i, agg_pending := agg_pending a @ [EventReceived msg]\<rparr>"
  have a1: "saga_raise d a (EventReceived msg) = (?a1, None)"
    using assms(3,4) by (simp add: saga_raise_def raise_event_def saga_apply_def Let_def)
  obtain a2 where a2: "record_commands d sid (if amb = fmempty then m_meta msg else amb) ?a1 (ds_commands ds) = (a2, None)"
    using record_commands_done[OF assms(5)] by blast
  obtain a3 where "saga_raise d a2 (SagaEnded :: ('p, 'x) saga_event) = (a3, None)"
    by (simp add: saga_raise_def raise_event_def saga_apply_def)
  then show thesis using that assms(1,2) a1 a2 by (cases "ds_end ds") (simp_all add: saga_decide_def Let_def)
qed

text \<open>What a load answers for an instance whose stream holds \<open>es\<close>.\<close>

lemma saga_load_mem:
  fixes rn :: "('p mem_store, 's, 'p, 'x) runner"
  assumes "mem_inv w" "rp_store (rn_repo rn) = mem_ops now" "runner_ok rn s0"
    and "decode_all (rp_registry (rn_repo rn)) (stream_recs (ms_all w) (saga_stream rn sid)) = Inr es"
    and "replay (saga_apply (rn_def rn)) (new_instance s0) es = Some i"
  obtains r inst where "repo_load (rn_repo rn) w sid = (w, r)"
    "(case r of Inr a \<Rightarrow> Inr a | Inl err \<Rightarrow> if errors_is err ErrNotFound
        then Inr (new_aggregate (rp_zero (rn_repo rn))) else Inl err) = Inr inst"
    "agg_state inst = i" "agg_pending inst = []" "agg_version inst = stream_version (ms_all w) (saga_stream rn sid)"
proof -
  let ?rp = "rn_repo rn" and ?st = "saga_stream rn sid"
  have r: "rp_apply ?rp = saga_apply (rn_def rn)" "rp_zero ?rp = new_instance s0" "rp_name ?rp = saga_event_name"
    "rp_stream ?rp sid = ?st"
    using assms(3) by (simp_all add: runner_ok_def saga_stream_def)
  have recs: "mem_load w ?st 0 = stream_recs (ms_all w) ?st"
    using assms(1) mem_inv_wf[of w] by (simp add: mem_load_spec load_spec_all)
  have len: "length es = length (stream_recs (ms_all w) ?st)" using decode_all_length[OF assms(4)] .
  show thesis
  proof (cases "es = []")
    case True
    with assms(5) have "i = new_instance s0" by simp
    with True len recs show thesis
      by (intro that[of "Inl (Wrapf ''%w: %s/%s'' [FStr (rp_category ?rp), FStr sid] ErrNotFound)" "new_aggregate i"])
         (simp_all add: repo_load_def assms(2) mem_ops_def r new_aggregate_def stream_version_def)
  next
    case False
    let ?a = "new_aggregate (new_instance s0) :: ('s, 'p, 'x) saga_agg"
    have "replay (saga_apply (rn_def rn)) (agg_state ?a) es = Some i" using assms(5) by (simp add: new_aggregate_def)
    note reh = rehydrate_replay[OF this, of saga_event_name]
    have "stream_recs (ms_all w) ?st \<noteq> []" using False len by auto
    with recs assms(4) reh show thesis
      by (intro that[of "Inr (?a\<lparr>agg_state := i, agg_version := agg_version ?a + int (length es)\<rparr>)"
            "?a\<lparr>agg_state := i, agg_version := agg_version ?a + int (length es)\<rparr>"])
         (simp_all add: repo_load_def assms(2) mem_ops_def r new_aggregate_def stream_version_def len)
  qed
qed

text \<open>A message the instance has received, or that comes after its end, is acknowledged.\<close>

lemma saga_redelivered:
  fixes rn :: "('p mem_store, 's, 'p, 'x) runner"
  assumes "mem_inv w" "rp_store (rn_repo rn) = mem_ops now" "runner_ok rn s0"
    and "decode_all (rp_registry (rn_repo rn)) (stream_recs (ms_all w) (saga_stream rn sid)) = Inr es"
    and "replay (saga_apply (rn_def rn)) (new_instance s0) es = Some i"
    and "sd_handlers (rn_def rn) (event_key (m_type msg) (m_version msg)) = Some h" "eh_correlate h msg = Inr sid"
    and "m_id msg \<in> set (received es) \<or> SagaEnded \<in> set es"
  shows "saga_handler rn amb w msg = (w, None)"
proof -
  obtain r inst where l: "repo_load (rn_repo rn) w sid = (w, r)"
    "(case r of Inr a \<Rightarrow> Inr a | Inl err \<Rightarrow> if errors_is err ErrNotFound
        then Inr (new_aggregate (rp_zero (rn_repo rn))) else Inl err) = Inr inst" "agg_state inst = i"
    by (rule saga_load_mem[OF assms(1-5)])
  have "saga_decide (rn_def rn) sid amb msg inst = Inr None"
    using assms(8) l(3) replay_seen[OF assms(5), of "m_id msg"] by (auto simp: saga_decide_def)
  with l have "saga_process rn amb w sid msg = (w, True, None)" by (simp add: saga_process_def)
  then show ?thesis using assms(6,7) by (simp add: saga_handler_def saga_attempts.simps)
qed

text \<open>Any other message of one of its contracts is decided and recorded.\<close>

lemma saga_delivers:
  fixes rn :: "('p mem_store, 's, 'p, 'x) runner"
  assumes "mem_inv w" "rp_store (rn_repo rn) = mem_ops now" "runner_ok rn s0"
    and "decode_all (rp_registry (rn_repo rn)) (stream_recs (ms_all w) (saga_stream rn sid)) = Inr es"
    and "replay (saga_apply (rn_def rn)) (new_instance s0) es = Some i"
    and "sd_handlers (rn_def rn) (event_key (m_type msg) (m_version msg)) = Some h" "eh_correlate h msg = Inr sid" "sid \<noteq> []"
    and "m_id msg \<notin> set (received es)" "SagaEnded \<notin> set es"
    and "eh_handle h (in_state i) msg = (s', Inr ds)"
    and "\<forall>out\<in>set (ds_commands ds). oc_topic out \<noteq> [] \<and> cv_json (oc_cmd out) \<in> range Inr"
    and "encode_all (rn_repo rn) amb (decided sid amb msg ds) = Inr data"
  shows "\<exists>w' new. saga_handler rn amb w msg = (w', None) \<and> mem_inv w' \<and> ms_all w' = ms_all w @ new \<and>
    appended (saga_stream rn sid) data new"
proof -
  let ?st = "saga_stream rn sid"
  obtain r inst where l: "repo_load (rn_repo rn) w sid = (w, r)"
    "(case r of Inr a \<Rightarrow> Inr a | Inl err \<Rightarrow> if errors_is err ErrNotFound
        then Inr (new_aggregate (rp_zero (rn_repo rn))) else Inl err) = Inr inst"
    "agg_state inst = i" "agg_pending inst = []" "agg_version inst = stream_version (ms_all w) ?st"
    by (rule saga_load_mem[OF assms(1-5)])
  have seen: "\<not> in_ended (agg_state inst)" "\<not> mget False (in_seen (agg_state inst)) (m_id msg)"
    using assms(9,10) l(3) replay_seen[OF assms(5), of "m_id msg"] by auto
  have h: "eh_handle h (in_state (agg_state inst)) msg = (s', Inr ds)" using assms(11) l(3) by simp
  obtain inst' where d: "saga_decide (rn_def rn) sid amb msg inst = Inr (Some inst')"
    by (rule saga_decide_done[OF seen assms(6) h assms(12)])
  have "reaction (rn_def rn) (agg_state inst) msg = ds" using assms(6) h by (simp add: reaction_def)
  with saga_decide_ok[OF d] l(4,5) have p: "agg_pending inst' = decided sid amb msg ds"
    "agg_version inst' = stream_version (ms_all w) ?st" by simp_all
  have "data \<noteq> []" using encode_all_length[OF assms(13)] by (auto simp: decided_def)
  from mem_append_ok[OF assms(1) this p(2)[symmetric], of now] obtain w' new where
    a: "mem_append now w ?st (agg_version inst') data = (w', Inr (last_pos rec_seq (ms_all w')))"
       "ms_all w' = ms_all w @ new" "appended ?st data new" "mem_inv w'" by blast
  have "agg_pending inst' \<noteq> []" using p(1) by (simp add: decided_def)
  then have "\<exists>pos a'. repo_save (rn_repo rn) amb None w sid inst' = (w', pos, a', None)"
    using a(1) p(1) assms(13) by (simp add: repo_save_def uncommitted_events_def assms(2) mem_ops_def saga_stream_def)
  then have "saga_process rn amb w sid msg = (w', True, None)"
    using l(1,2) d by (auto simp: saga_process_def)
  then have "saga_handler rn amb w msg = (w', None)"
    using assms(6-8) by (simp add: saga_handler_def saga_attempts.simps)
  with a show ?thesis by blast
qed

end
