(* ===== verification/SagaWire.thy ===== *)
theory SagaWire
  imports Ordering "HOL-Library.List_Lexorder" "HOL-Library.Char_ord"
begin

text \<open>
  The JSON of the saga's stream events (\<open>eventReceived\<close>, \<open>commandRequested\<close>, \<open>ended\<close> of
  \<open>saga/saga.go\<close>) and of the envelope in the first (\<open>broker.Message\<close>), as \<open>encoding/json\<close> derives it from
  their tags: a codec for the ordering service's registry in place of the parameter. Only the text of
  an instant stays a parameter.
\<close>

section \<open>Instants, metadata and raw payloads\<close>

text \<open>\<open>time.Time\<close> writes and reads itself; null leaves it.\<close>

record time_codec =
  tc_marshal :: "instant \<Rightarrow> json res"
  tc_unmarshal :: "json \<Rightarrow> instant res"
  tc_zero :: instant

definition dec_time :: "time_codec \<Rightarrow> instant jdec" where
  "dec_time tc old j = (if j = JNull then Inr (old, None) else dec_hook (tc_unmarshal tc) old j)"

text \<open>A \<open>json.RawMessage\<close> takes whatever is there.\<close>

definition dec_raw :: "json jdec" where
  "dec_raw old j = Inr (j, None)"

text \<open>A map is written with its keys in order; each member read overwrites its key, null empties the map.\<close>

definition metadata_members :: "metadata \<Rightarrow> (string \<times> json) list" where
  "metadata_members md = map (\<lambda>k. (utf8_fix k, jstr (the (fmlookup md k)))) (sorted_list_of_set (fmdom' md))"

fun dec_entries :: "metadata \<Rightarrow> gerr option \<Rightarrow> (string \<times> json) list \<Rightarrow> metadata \<times> gerr option" where
  "dec_entries md saved [] = (md, saved)"
| "dec_entries md saved ((k, v) # ms) =
     (case dec_string [] v of
        Inl err \<Rightarrow> (md, Some err)
      | Inr (s, e) \<Rightarrow> dec_entries (fmupd (utf8_fix k) s md) (if saved = None then e else saved) ms)"

definition dec_metadata :: "metadata jdec" where
  "dec_metadata old j = (case j of
     JObj ms \<Rightarrow> Inr (dec_entries old None ms) | JNull \<Rightarrow> Inr (fmempty, None) | _ \<Rightarrow> mismatch old j)"

text \<open>\<open>omitempty\<close>: an empty map is left out.\<close>

definition metadata_tail :: "metadata \<Rightarrow> (string \<times> json) list" where
  "metadata_tail md = (if md = fmempty then [] else [(''metadata'', JObj (metadata_members md))])"

section \<open>The envelope\<close>

definition marshal_message :: "time_codec \<Rightarrow> json message \<Rightarrow> json res" where
  "marshal_message tc m = (case tc_marshal tc (m_at m) of
     Inl err \<Rightarrow> Inl err
   | Inr t \<Rightarrow> Inr (JObj ([(''id'', jstr (m_id m)), (''key'', jstr (m_key m)), (''type'', jstr (m_type m)),
       (''version'', JInt (m_version m)), (''occurred_at'', t), (''payload'', m_payload m)] @ metadata_tail (m_meta m))))"

definition zero_message :: "time_codec \<Rightarrow> json message" where
  "zero_message tc = \<lparr>m_id = [], m_key = [], m_type = [], m_version = 0, m_at = tc_zero tc, m_payload = JNull, m_meta = fmempty\<rparr>"

definition dec_message :: "time_codec \<Rightarrow> json message jdec" where
  "dec_message tc = dec_struct [
     (''id'', dec_field m_id (\<lambda>v m. m\<lparr>m_id := v\<rparr>) dec_string),
     (''key'', dec_field m_key (\<lambda>v m. m\<lparr>m_key := v\<rparr>) dec_string),
     (''type'', dec_field m_type (\<lambda>v m. m\<lparr>m_type := v\<rparr>) dec_string),
     (''version'', dec_field m_version (\<lambda>v m. m\<lparr>m_version := v\<rparr>) dec_int),
     (''occurred_at'', dec_field m_at (\<lambda>v m. m\<lparr>m_at := v\<rparr>) (dec_time tc)),
     (''payload'', dec_field m_payload (\<lambda>v m. m\<lparr>m_payload := v\<rparr>) dec_raw),
     (''metadata'', dec_field m_meta (\<lambda>v m. m\<lparr>m_meta := v\<rparr>) dec_metadata)]"

section \<open>The stream events\<close>

definition unmarshal_received :: "time_codec \<Rightarrow> json \<Rightarrow> ordering_event res" where
  "unmarshal_received tc j = map_sum id EventReceived (json_unmarshal (dec_struct [
     (''envelope'', dec_field id (\<lambda>v m. v) (dec_message tc))]) (zero_message tc) j)"

definition zero_requested :: "json command_requested" where
  "zero_requested = \<lparr>cq_topic = [], cq_key = [], cq_name = [], cq_version = 0, cq_payload = JNull, cq_meta = fmempty\<rparr>"

definition unmarshal_requested :: "json \<Rightarrow> ordering_event res" where
  "unmarshal_requested j = map_sum id CommandRequested (json_unmarshal (dec_struct [
     (''topic'', dec_field cq_topic (\<lambda>v c. c\<lparr>cq_topic := v\<rparr>) dec_string),
     (''key'', dec_field cq_key (\<lambda>v c. c\<lparr>cq_key := v\<rparr>) dec_string),
     (''command_name'', dec_field cq_name (\<lambda>v c. c\<lparr>cq_name := v\<rparr>) dec_string),
     (''contract_version'', dec_field cq_version (\<lambda>v c. c\<lparr>cq_version := v\<rparr>) dec_int),
     (''payload'', dec_field cq_payload (\<lambda>v c. c\<lparr>cq_payload := v\<rparr>) dec_raw),
     (''metadata'', dec_field cq_meta (\<lambda>v c. c\<lparr>cq_meta := v\<rparr>) dec_metadata)]) zero_requested j)"

definition unmarshal_ended :: "json \<Rightarrow> ordering_event res" where
  "unmarshal_ended j = map_sum id (\<lambda>u. SagaEnded) (json_unmarshal (dec_struct []) () j)"

definition marshal_saga_event :: "time_codec \<Rightarrow> ordering_event \<Rightarrow> json res" where
  "marshal_saga_event tc e = (case e of
     EventReceived m \<Rightarrow> map_sum id (\<lambda>j. JObj [(''envelope'', j)]) (marshal_message tc m)
   | CommandRequested c \<Rightarrow> Inr (JObj ([(''topic'', jstr (cq_topic c)), (''key'', jstr (cq_key c)),
       (''command_name'', jstr (cq_name c)), (''contract_version'', JInt (cq_version c)), (''payload'', cq_payload c)] @
       metadata_tail (cq_meta c)))
   | SagaEnded \<Rightarrow> Inr (JObj [])
   | OtherEvent n x \<Rightarrow> marshal_order_event x)"

definition saga_json :: "time_codec \<Rightarrow> saga_codec" where
  "saga_json tc = \<lparr>sc_marshal = marshal_saga_event tc, sc_received = unmarshal_received tc,
     sc_requested = unmarshal_requested, sc_ended = unmarshal_ended\<rparr>"

section \<open>What survives\<close>

text \<open>Metadata of valid UTF-8, and instants that \<open>time.Time\<close> can write and read back.\<close>

definition plain_metadata :: "metadata set" where
  "plain_metadata = {md. \<forall>k v. fmlookup md k = Some v \<longrightarrow> utf8_valid k \<and> utf8_valid v}"

definition plain_times :: "time_codec \<Rightarrow> instant set" where
  "plain_times tc = {t. \<exists>j. j \<noteq> JNull \<and> tc_marshal tc t = Inr j \<and> tc_unmarshal tc j = Inr t}"

definition plain_message :: "instant set \<Rightarrow> metadata set \<Rightarrow> json message \<Rightarrow> bool" where
  "plain_message T M m \<longleftrightarrow> list_all is_ascii (m_id m) \<and> list_all is_ascii (m_key m) \<and> list_all is_ascii (m_type m) \<and> m_version m = 1 \<and>
     m_at m \<in> T \<and> m_meta m \<in> M"

definition plain_request :: "metadata set \<Rightarrow> json command_requested \<Rightarrow> bool" where
  "plain_request M c \<longleftrightarrow> list_all is_ascii (cq_topic c) \<and> list_all is_ascii (cq_key c) \<and> list_all is_ascii (cq_name c) \<and> cq_version c = 1 \<and> cq_meta c \<in> M"

lemma dec_entries_all:
  assumes "\<forall>k\<in>set ks. utf8_valid k \<and> utf8_valid (f k)"
  shows "dec_entries md None (map (\<lambda>k. (utf8_fix k, jstr (f k))) ks) = (fold (\<lambda>k m. fmupd k (f k) m) ks md, None)"
  using assms by (induction ks arbitrary: md) (simp_all add: utf8_fix_valid)

lemma fold_fmupd: "fmlookup (fold (\<lambda>k m. fmupd k (f k) m) ks md) x = (if x \<in> set ks then Some (f x) else fmlookup md x)"
  by (induction ks arbitrary: md) auto

lemma metadata_back:
  assumes "md \<in> plain_metadata"
  shows "dec_entries fmempty None (metadata_members md) = (md, None)"
proof -
  let ?ks = "sorted_list_of_set (fmdom' md)"
  have ks: "set ?ks = fmdom' md" by simp
  have "\<forall>k\<in>set ?ks. utf8_valid k \<and> utf8_valid (the (fmlookup md k))"
    using assms unfolding ks by (auto simp: plain_metadata_def fmlookup_dom'_iff)
  note d = dec_entries_all[OF this, of fmempty]
  have "fold (\<lambda>k m. fmupd k (the (fmlookup md k)) m) ?ks fmempty = md"
    by (rule fmap_ext) (auto simp: fold_fmupd fmlookup_dom'_iff fmdom'_notI)
  with d show ?thesis by (simp add: metadata_members_def)
qed

lemma time_back:
  assumes "t \<in> plain_times tc"
  obtains j where "tc_marshal tc t = Inr j" "\<And>old. dec_time tc old j = Inr (t, None)"
  using assms by (auto simp: plain_times_def dec_time_def dec_hook_def)

lemma received_back:
  assumes "plain_message (plain_times tc) plain_metadata m"
  shows "\<exists>j. sc_marshal (saga_json tc) (EventReceived m) = Inr j \<and> sc_received (saga_json tc) j = Inr (EventReceived m)"
proof -
  have p: "utf8_fix (m_id m) = m_id m" "utf8_fix (m_key m) = m_key m" "utf8_fix (m_type m) = m_type m" "m_version m = 1"
    "m_at m \<in> plain_times tc" "m_meta m \<in> plain_metadata"
    using assms by (simp_all add: plain_message_def)
  obtain t where t: "tc_marshal tc (m_at m) = Inr t" "\<And>old. dec_time tc old t = Inr (m_at m, None)"
    by (rule time_back[OF p(5)]) (rule that)
  have "dec_message tc (zero_message tc) (projr (marshal_message tc m)) = Inr (m, None)"
    using p t metadata_back[OF p(6)]
    by (cases m) (simp add: marshal_message_def dec_message_def zero_message_def metadata_tail_def dec_struct_def find_field_def
        dec_field_def dec_int_def in_int64_def int64_min_def int64_max_def dec_raw_def dec_metadata_def)
  moreover have "\<exists>j. marshal_message tc m = Inr j" using t by (simp add: marshal_message_def)
  ultimately show ?thesis
    by (auto simp: saga_json_def marshal_saga_event_def unmarshal_received_def json_unmarshal_def dec_struct_def find_field_def
        dec_field_def)
qed

lemma requested_back:
  assumes "plain_request plain_metadata c"
  shows "\<exists>j. sc_marshal (saga_json tc) (CommandRequested c) = Inr j \<and> sc_requested (saga_json tc) j = Inr (CommandRequested c)"
  using assms metadata_back[of "cq_meta c"]
  by (cases c) (simp add: saga_json_def marshal_saga_event_def unmarshal_requested_def zero_requested_def json_unmarshal_def
      plain_request_def metadata_tail_def dec_struct_def find_field_def dec_field_def dec_int_def in_int64_def int64_min_def
      int64_max_def dec_raw_def dec_metadata_def)

lemma ended_back: "\<exists>j. sc_marshal (saga_json tc) SagaEnded = Inr j \<and> sc_ended (saga_json tc) j = Inr SagaEnded"
  by (simp add: saga_json_def marshal_saga_event_def unmarshal_ended_def json_unmarshal_def dec_struct_def)

lemma saga_json_kinds:
  "sc_received (saga_json tc) j = Inr e \<Longrightarrow> \<exists>m. e = EventReceived m"
  "sc_requested (saga_json tc) j = Inr e \<Longrightarrow> \<exists>c. e = CommandRequested c"
  "sc_ended (saga_json tc) j = Inr e \<Longrightarrow> e = SagaEnded"
  by (auto simp: saga_json_def unmarshal_received_def unmarshal_requested_def unmarshal_ended_def map_sum_Inr_iff)

end
