(* ===== verification/Shop.thy ===== *)
theory Shop
  imports Services SagaMem SagaWire
begin

text \<open>
  The four services of \<open>gohex-example\<close> as one system, on in-memory stores: orders are placed and notified,
  relays publish, messages reach the saga and the consumers in any order, any number of times, and a
  consumer may die between its effect and its mark.
\<close>

section \<open>The services' worlds\<close>

text \<open>A service that consumes commands has its store and its deduplication table.\<close>

type_synonym svc_world = "json mem_store \<times> mem_dedup"

definition svc_store :: "instant \<Rightarrow> (svc_world, json) store_ops" where
  "svc_store now =
     \<lparr>st_append = (\<lambda>w st v evs. case mem_append now (fst w) st v evs of (w', r) \<Rightarrow> ((w', snd w), r)),
      st_load = (\<lambda>w st after. (w, Inr (mem_load (fst w) st after))),
      st_read_all = (\<lambda>w after limit. (w, Inr (mem_read_all (fst w) after limit))),
      st_head = (\<lambda>w. (w, Inr (mem_head (fst w))))\<rparr>"

definition svc_dedup :: "svc_world dedup_ops" where
  "svc_dedup = \<lparr>dd_processed = (\<lambda>w i. (w, Inr (mem_processed (snd w) i))),
     dd_mark = (\<lambda>w i. ((fst w, mem_mark (snd w) i), None))\<rparr>"

definition svc_backends :: "instant \<Rightarrow> svc_world backends" where
  "svc_backends now = \<lparr>bk_store = svc_store now, bk_cps = \<lparr>cp_get = (\<lambda>w n. (w, Inr 0)), cp_set = (\<lambda>w n s. (w, None))\<rparr>,
     bk_dedup = svc_dedup, bk_publish = (\<lambda>w t msgs. (w, None)), bk_log_rejected = (\<lambda>w m err. w)\<rparr>"

definition shop_billing :: "instant \<Rightarrow> metadata \<Rightarrow> (svc_world, payment_event, billing_command) command_service" where
  "shop_billing now md = the (billing_service (svc_backends now) id md)"

definition shop_inventory :: "instant \<Rightarrow> metadata \<Rightarrow> (svc_world, stock_event, reserve_stock_cmd) command_service" where
  "shop_inventory now md = the (inventory_service (svc_backends now) id md)"

definition shop_shipping :: "instant \<Rightarrow> metadata \<Rightarrow> (svc_world, shipment_event, create_shipment_cmd) command_service" where
  "shop_shipping now md = the (shipping_service (svc_backends now) id md)"

text \<open>The ordering service; its read side is of no concern here.\<close>

definition ord_backends :: "instant \<Rightarrow> json mem_store ordering_backends" where
  "ord_backends now = \<lparr>ob_store = mem_ops now, ob_cps = \<lparr>cp_get = (\<lambda>w n. (w, Inr 0)), cp_set = (\<lambda>w n s. (w, None))\<rparr>,
     ob_publish = (\<lambda>w t msgs. (w, None)),
     ob_summaries = \<lparr>ss_upsert_placed = (\<lambda>w s. (w, None)), ss_set_status = (\<lambda>w oid st r. (w, None)),
       ss_get = (\<lambda>w oid. (w, Inl ErrOrderNotFound))\<rparr>,
     ob_notifications = \<lparr>nq_enqueue = (\<lambda>w oid r md. (w, None)), nq_pending = (\<lambda>w n. (w, Inr [])), nq_mark_sent = (\<lambda>w i. (w, None))\<rparr>,
     ob_inbox = \<lparr>ib_append = (\<lambda>w m. (w, None)), ib_read_all = (\<lambda>w a n. (w, Inr [])), ib_head = (\<lambda>w. (w, Inr 0))\<rparr>,
     ob_ctx = \<lparr>ctx_err = (\<lambda>w. (w, False)), ctx_sleep = (\<lambda>w. (w, True))\<rparr>, ob_link = id, ob_observe = (\<lambda>w it. (w, None))\<rparr>"

definition shop_ordering :: "(string \<Rightarrow> string) \<Rightarrow> saga_codec \<Rightarrow> instant \<Rightarrow> metadata \<Rightarrow> json mem_store ordering_service" where
  "shop_ordering uni sc now md = the (ordering_service uni sc (ord_backends now) id id md)"

lemma ordering_parts_eq:
  "od_saga (shop_ordering uni sc now md) = new_runner fulfillment_saga zero_fulfillment (mem_ops now) (ordering_registry uni sc) (marshal_ordering_event sc)"
  "rl_registry (od_relay (shop_ordering uni sc now md)) = ordering_registry uni sc"
  "rc_topic (rl_cfg (od_relay (shop_ordering uni sc now md))) = TopicOrderingEvents"
  "rl_routes (od_relay (shop_ordering uni sc now md)) = [''saga.command_requested'' \<mapsto> command_route]"
  "\<exists>tr. rl_translators (od_relay (shop_ordering uni sc now md)) = [''ordering.order_placed'' \<mapsto> tr] \<and>
     (\<forall>p. tr (OtherEvent ''ordering.order_placed'' (OrderPlaced p)) = Some (order_placed_v1_event
        \<lparr>opv_order_id = id_string (op_id p), opv_customer_id = id_string (op_customer p),
         opv_cents = mo_cents (op_total p), opv_currency = mo_currency (op_total p), opv_qty = qu_n (op_qty p)\<rparr>))"
  "od_bus (shop_ordering uni sc now md) = the (ordering_register uni (new_orders (mem_ops now) (ordering_registry uni sc) sc) md (new_bus [with_middleware [id]]))"
proof -
  obtain bus where b: "ordering_register uni (new_orders (mem_ops now) (ordering_registry uni sc) sc) md (new_bus [with_middleware [id]]) = Some bus"
    by (simp add: ordering_register_def registration_defs)
  obtain queries where q: "ordering_register_queries (ob_summaries (ord_backends now)) (new_query_bus [id]) = Some queries"
    by (simp add: ordering_register_queries_def registration_defs)
  define rly where "rly = the (Option.bind (new_relay (mem_ops now) (ordering_registry uni sc) (ob_publish (ord_backends now))
      (ob_cps (ord_backends now)) (relay_named ''ordering.relay'' TopicOrderingEvents)) register_ordering_translators)"
  have rl: "Option.bind (new_relay (mem_ops now) (ordering_registry uni sc) (ob_publish (ord_backends now))
      (ob_cps (ord_backends now)) (relay_named ''ordering.relay'' TopicOrderingEvents)) register_ordering_translators = Some rly"
    using ordering_parts unfolding rly_def by (metis option.sel)
  then obtain r0 where r0: "new_relay (mem_ops now) (ordering_registry uni sc) (ob_publish (ord_backends now))
      (ob_cps (ord_backends now)) (relay_named ''ordering.relay'' TopicOrderingEvents) = Some r0" "register_ordering_translators r0 = Some rly"
    by (auto simp: bind_eq_Some_conv)
  have st: "ob_store (ord_backends now) = mem_ops now" by (simp add: ord_backends_def)
  obtain summary where s: "new_order_summary_projection (ob_summaries (ord_backends now)) (ob_notifications (ord_backends now)) = Some summary"
    using summary_registered by blast
  have e: "od_saga (shop_ordering uni sc now md) = new_runner fulfillment_saga zero_fulfillment (mem_ops now) (ordering_registry uni sc) (marshal_ordering_event sc)"
    "od_relay (shop_ordering uni sc now md) = rly" "od_bus (shop_ordering uni sc now md) = bus"
    by (simp_all add: shop_ordering_def ordering_service_def Let_def ordering_registry_entries(1) st b q r0 new_fulfillment_saga_some s)
  then show "od_saga (shop_ordering uni sc now md) = new_runner fulfillment_saga zero_fulfillment (mem_ops now) (ordering_registry uni sc) (marshal_ordering_event sc)"
    "od_bus (shop_ordering uni sc now md) = the (ordering_register uni (new_orders (mem_ops now) (ordering_registry uni sc) sc) md (new_bus [with_middleware [id]]))"
    by (simp_all add: b)
  have "rl_registry rly = ordering_registry uni sc \<and> rc_topic (rl_cfg rly) = TopicOrderingEvents \<and>
    rl_routes rly = [''saga.command_requested'' \<mapsto> command_route] \<and>
    (\<exists>tr. rl_translators rly = [''ordering.order_placed'' \<mapsto> tr] \<and>
     (\<forall>p. tr (OtherEvent ''ordering.order_placed'' (OrderPlaced p)) = Some (order_placed_v1_event
        \<lparr>opv_order_id = id_string (op_id p), opv_customer_id = id_string (op_customer p),
         opv_cents = mo_cents (op_total p), opv_currency = mo_currency (op_total p), opv_qty = qu_n (op_qty p)\<rparr>)))"
    using rl by (auto simp: register_ordering_translators_def register_command_routing_def registration_defs
        TopicOrderingEvents_def split: if_splits)
  then show "rl_registry (od_relay (shop_ordering uni sc now md)) = ordering_registry uni sc"
    "rc_topic (rl_cfg (od_relay (shop_ordering uni sc now md))) = TopicOrderingEvents"
    "rl_routes (od_relay (shop_ordering uni sc now md)) = [''saga.command_requested'' \<mapsto> command_route]"
    "\<exists>tr. rl_translators (od_relay (shop_ordering uni sc now md)) = [''ordering.order_placed'' \<mapsto> tr] \<and>
     (\<forall>p. tr (OtherEvent ''ordering.order_placed'' (OrderPlaced p)) = Some (order_placed_v1_event
        \<lparr>opv_order_id = id_string (op_id p), opv_customer_id = id_string (op_customer p),
         opv_cents = mo_cents (op_total p), opv_currency = mo_currency (op_total p), opv_qty = qu_n (op_qty p)\<rparr>))"
    by (simp_all add: e)
qed

section \<open>Handling a command\<close>

text \<open>A handler on a service's world is the one on its store.\<close>

definition rp_on :: "('v, 'p) store_ops \<Rightarrow> ('w, 'p, 'e, 's) repository \<Rightarrow> ('v, 'p, 'e, 's) repository" where
  "rp_on st rp = \<lparr>rp_store = st, rp_registry = rp_registry rp, rp_category = rp_category rp, rp_zero = rp_zero rp,
     rp_name = rp_name rp, rp_apply = rp_apply rp, rp_marshal = rp_marshal rp\<rparr>"

lemma rp_on_simps [simp]:
  "rp_store (rp_on st rp) = st" "rp_registry (rp_on st rp) = rp_registry rp" "rp_category (rp_on st rp) = rp_category rp"
  "rp_zero (rp_on st rp) = rp_zero rp" "rp_name (rp_on st rp) = rp_name rp" "rp_apply (rp_on st rp) = rp_apply rp"
  "rp_marshal (rp_on st rp) = rp_marshal rp" "rp_stream (rp_on st rp) aid = rp_stream rp aid"
  by (simp_all add: rp_on_def rp_stream_def)

lemma encode_all_on: "encode_all (rp_on st rp) md es = encode_all rp md es"
  by (induction es) (auto split: sum.splits)

lemma serve_on:
  "serve (rp_on (svc_store now) rp) md dec key (w, d) c =
    (case serve (rp_on (mem_ops now) rp) md dec key w c of (w', r) \<Rightarrow> ((w', d), r))"
proof -
  let ?P = "rp_on (svc_store now) rp" and ?M = "rp_on (mem_ops now) rp"
  have load: "repo_load ?P (w, d) aid = ((w, d), snd (repo_load ?M w aid))" "fst (repo_load ?M w aid) = w" for aid
    by (simp_all add: repo_load_def svc_store_def mem_ops_def split: list.splits sum.splits prod.splits)
  have save: "repo_save ?P md None (w, d) aid a = (case repo_save ?M md None w aid a of (w', pos, a', r) \<Rightarrow> ((w', d), pos, a', r))" for aid a
    by (simp add: repo_save_def encode_all_on svc_store_def mem_ops_def split: list.splits sum.splits prod.splits)
  obtain lr where "repo_load ?M w (key c) = (w, lr)" using load(2)[of "key c"] by (metis prod.collapse)
  with load(1)[of "key c"] show ?thesis by (simp add: serve_def save split: sum.splits prod.splits)
qed

lemma services_on:
  "rp_on st' (new_payments st reg) = new_payments st' reg" "rp_on st' (new_reservations st reg1) = new_reservations st' reg1"
  "rp_on st' (new_shipments st reg2) = new_shipments st' reg2"
  by (simp_all add: rp_on_def new_payments_def new_reservations_def new_shipments_def)

lemma handlers_on:
  "capture_payment (new_payments (svc_store now) reg) md (w, d) c = (case capture_payment (new_payments (mem_ops now) reg) md w c of (w', r) \<Rightarrow> ((w', d), r))"
  "refund_payment (new_payments (svc_store now) reg) md (w, d) c1 = (case refund_payment (new_payments (mem_ops now) reg) md w c1 of (w', r) \<Rightarrow> ((w', d), r))"
  "reserve_stock (new_reservations (svc_store now) reg1) md (w, d) c2 = (case reserve_stock (new_reservations (mem_ops now) reg1) md w c2 of (w', r) \<Rightarrow> ((w', d), r))"
  "create_shipment (new_shipments (svc_store now) reg2) md (w, d) c3 = (case create_shipment (new_shipments (mem_ops now) reg2) md w c3 of (w', r) \<Rightarrow> ((w', d), r))"
  unfolding billing_serves[symmetric] stock_serves[symmetric] shipment_serves[symmetric]
  using serve_on[of now "new_payments (mem_ops now) reg" md billing_decide billing_key w d]
    serve_on[of now "new_reservations (mem_ops now) reg1" md stock_decide rsc_order_id w d]
    serve_on[of now "new_shipments (mem_ops now) reg2" md shipment_decide csc_order_id w d]
  by (simp_all add: services_on)

text \<open>A message that was marked is acknowledged, any other that succeeds is marked.\<close>

lemma consumer_marked:
  "cn_dedup c = svc_dedup \<Longrightarrow> mem_processed d (m_id msg) \<Longrightarrow> consumer_handler ctx nm c (w, d) msg = ((w, d), None)"
  by (simp add: consumer_handler_def svc_dedup_def)

lemma consumer_done:
  assumes "cn_dedup c = svc_dedup" "\<not> mem_processed d (m_id msg)" "decode_command (cn_registry c) msg = Inr cmd"
    and "bus_handlers (cn_bus c) (nm cmd) = Some h" "bus_middleware (cn_bus c) = [id]" "h (w, d) cmd = ((w', d), None)"
  shows "consumer_handler ctx nm c (w, d) msg = ((w', mem_mark d (m_id msg)), None)"
proof -
  have "dispatch ctx nm (cn_bus c) (w, d) cmd = ((w', d), None)"
    using assms(4-6) by (simp add: dispatch_def with_retry_def retry_loop.simps)
  with assms(1-3) show ?thesis by (simp add: consumer_handler_def svc_dedup_def)
qed

lemmas wiring_defs = handle_command_def new_bus_def with_middleware_def register_command_def new_cmd_registry_def
  new_relay_def relay_named_def relay_defaults_def relay_add_translator_def service_of_def Let_def

lemma billing_parts:
  fixes now md
  defines "s \<equiv> shop_billing now md"
  shows "cn_dedup (cs_consumer s) = svc_dedup" "bus_middleware (cn_bus (cs_consumer s)) = [id]"
    "bus_handlers (cn_bus (cs_consumer s)) ''billing.capture_payment'' = Some (\<lambda>w c. case c of
        CapturePayment x \<Rightarrow> capture_payment (new_payments (svc_store now) billing_registry) md w x | _ \<Rightarrow> (w, Some wrong_command))"
    "bus_handlers (cn_bus (cs_consumer s)) ''billing.refund_payment'' = Some (\<lambda>w c. case c of
        RefundPayment x \<Rightarrow> refund_payment (new_payments (svc_store now) billing_registry) md w x | _ \<Rightarrow> (w, Some wrong_command))"
    "m_type m = ''billing.capture_payment'' \<Longrightarrow> unmarshal_capture_payment_cmd (m_payload m) = Inr x \<Longrightarrow>
       decode_command (cn_registry (cs_consumer s)) m = Inr (CapturePayment x)"
    "m_type m = ''billing.refund_payment'' \<Longrightarrow> unmarshal_refund_payment_cmd (m_payload m) = Inr y \<Longrightarrow>
       decode_command (cn_registry (cs_consumer s)) m = Inr (RefundPayment y)"
  unfolding s_def
  by (simp_all add: shop_billing_def billing_service_def billing_registry_entries(1) billing_register_def
      register_billing_commands_def register_billing_translators_def wiring_defs svc_backends_def
      TopicBillingEvents_def decode_command_def)

lemma inventory_parts:
  fixes now md
  defines "s \<equiv> shop_inventory now md"
  shows "cn_dedup (cs_consumer s) = svc_dedup" "bus_middleware (cn_bus (cs_consumer s)) = [id]"
    "bus_handlers (cn_bus (cs_consumer s)) ''inventory.reserve_stock'' = Some (reserve_stock (new_reservations (svc_store now) stock_registry) md)"
    "m_type m = ''inventory.reserve_stock'' \<Longrightarrow> unmarshal_reserve_stock_cmd (m_payload m) = Inr x \<Longrightarrow>
       decode_command (cn_registry (cs_consumer s)) m = Inr x"
  unfolding s_def
  by (simp_all add: shop_inventory_def inventory_service_def stock_registry_entries(1) stock_register_def
      register_stock_commands_def register_stock_translators_def wiring_defs svc_backends_def
      TopicInventoryEvents_def decode_command_def)

lemma shipping_parts:
  fixes now md
  defines "s \<equiv> shop_shipping now md"
  shows "cn_dedup (cs_consumer s) = svc_dedup" "bus_middleware (cn_bus (cs_consumer s)) = [id]"
    "bus_handlers (cn_bus (cs_consumer s)) ''shipping.create_shipment'' = Some (create_shipment (new_shipments (svc_store now) shipment_registry) md)"
    "m_type m = ''shipping.create_shipment'' \<Longrightarrow> unmarshal_create_shipment_cmd (m_payload m) = Inr x \<Longrightarrow>
       decode_command (cn_registry (cs_consumer s)) m = Inr x"
  unfolding s_def
  by (simp_all add: shop_shipping_def shipping_service_def shipment_registry_entries(1) shipment_register_def
      register_shipment_commands_def register_shipment_translators_def wiring_defs svc_backends_def
      TopicShippingEvents_def decode_command_def)

section \<open>What is published\<close>

text \<open>The relays translate what their stores hold; no record is lost on the way.\<close>

definition published :: "'p recorded \<Rightarrow> 'p integration_event \<Rightarrow> 'p message" where
  "published rec ie = \<lparr>m_id = message_id rec, m_key = si_id (rec_stream rec), m_type = ie_name ie, m_version = ie_version ie,
     m_at = rec_at rec, m_payload = projr (ie_json ie), m_meta = rec_meta rec\<rparr>"

lemma translated:
  assumes "rl_routes r (rec_name rec) = None" "rl_translators r (rec_name rec) = Some tr"
    and "decode (rl_registry r) rec = Inr e" "tr e = Some ie" "ie_json ie \<in> range Inr"
  shows "rl_out r t rec = (if t = rc_topic (rl_cfg r) then [published rec ie] else [])"
  using assms by (auto simp: rl_out_def relay_translate_def new_message_def published_def)

fun payment_fact :: "payment_event \<Rightarrow> json integration_event" where
  "payment_fact (PaymentCaptured oid c) = payment_captured_v1_event \<lparr>pcv_order_id = oid, pcv_cents = c\<rparr>"
| "payment_fact (PaymentFailed oid r) = payment_failed_v1_event \<lparr>pfv_order_id = oid, pfv_reason = r\<rparr>"
| "payment_fact (PaymentRefunded oid) = payment_refunded_v1_event \<lparr>prv_order_id = oid\<rparr>"
| "payment_fact (OtherPaymentEvent n) = \<lparr>ie_name = n, ie_version = 1, ie_json = Inr JNull\<rparr>"

lemma billing_out:
  assumes "decode billing_registry rec = Inr e"
  shows "rl_out (cs_relay (shop_billing now md)) t rec = (if t = TopicBillingEvents then [published rec (payment_fact e)] else [])"
    "rec_name rec = payment_event_name e" "\<forall>n. e \<noteq> OtherPaymentEvent n"
proof -
  let ?r = "cs_relay (shop_billing now md)"
  have r: "rl_routes ?r = Map.empty" "rl_registry ?r = billing_registry" "rc_topic (rl_cfg ?r) = TopicBillingEvents"
    by (simp_all add: shop_billing_def billing_service_def billing_registry_entries(1) billing_register_def
        register_billing_commands_def register_billing_translators_def wiring_defs svc_backends_def TopicBillingEvents_def)
  have n: "rec_name rec = payment_event_name e \<and> (\<forall>n. e \<noteq> OtherPaymentEvent n)"
    using assms by (auto simp: decode_lifts_iff billing_registry_def register_billing_events_def register_def new_registry_def
        unmarshal_payment_captured_def unmarshal_payment_failed_def unmarshal_payment_refunded_def
        map_sum_Inr_iff split: if_splits sum.splits)
  then show "rec_name rec = payment_event_name e" "\<forall>n. e \<noteq> OtherPaymentEvent n" by blast+
  have "\<exists>tr. rl_translators ?r (rec_name rec) = Some tr \<and> tr e = Some (payment_fact e)"
    using n by (cases e) (simp_all add: shop_billing_def billing_service_def billing_registry_entries(1) billing_register_def
        register_billing_commands_def register_billing_translators_def wiring_defs svc_backends_def TopicBillingEvents_def)
  then obtain tr where "rl_translators ?r (rec_name rec) = Some tr" "tr e = Some (payment_fact e)" by blast
  then show "rl_out ?r t rec = (if t = TopicBillingEvents then [published rec (payment_fact e)] else [])"
    using translated[of ?r rec tr e "payment_fact e" t] r assms
    by (cases e) (auto simp: payment_captured_v1_event_def payment_failed_v1_event_def payment_refunded_v1_event_def
        marshal_payment_captured_v1_def marshal_payment_failed_v1_def marshal_payment_refunded_v1_def)
qed

fun stock_fact :: "stock_event \<Rightarrow> json integration_event" where
  "stock_fact (StockReserved oid q) = stock_reserved_v1_event \<lparr>srv_order_id = oid, srv_qty = q\<rparr>"
| "stock_fact (StockRejected oid r) = stock_rejected_v1_event \<lparr>sjv_order_id = oid, sjv_reason = r\<rparr>"
| "stock_fact (OtherStockEvent n) = \<lparr>ie_name = n, ie_version = 1, ie_json = Inr JNull\<rparr>"

lemma inventory_out:
  assumes "decode stock_registry rec = Inr e"
  shows "rl_out (cs_relay (shop_inventory now md)) t rec = (if t = TopicInventoryEvents then [published rec (stock_fact e)] else [])"
    "rec_name rec = stock_event_name e" "\<forall>n. e \<noteq> OtherStockEvent n"
proof -
  let ?r = "cs_relay (shop_inventory now md)"
  note defs = shop_inventory_def inventory_service_def stock_registry_entries(1) stock_register_def
    register_stock_commands_def register_stock_translators_def wiring_defs svc_backends_def TopicInventoryEvents_def
  have r: "rl_routes ?r = Map.empty" "rl_registry ?r = stock_registry" "rc_topic (rl_cfg ?r) = TopicInventoryEvents"
    by (simp_all add: defs)
  have n: "rec_name rec = stock_event_name e \<and> (\<forall>n. e \<noteq> OtherStockEvent n)"
    using assms by (auto simp: decode_lifts_iff stock_registry_def register_stock_events_def register_def new_registry_def
        unmarshal_stock_reserved_def unmarshal_stock_rejected_def map_sum_Inr_iff split: if_splits sum.splits)
  then show "rec_name rec = stock_event_name e" "\<forall>n. e \<noteq> OtherStockEvent n" by blast+
  have "\<exists>tr. rl_translators ?r (rec_name rec) = Some tr \<and> tr e = Some (stock_fact e)"
    using n by (cases e) (simp_all add: defs)
  then obtain tr where "rl_translators ?r (rec_name rec) = Some tr" "tr e = Some (stock_fact e)" by blast
  then show "rl_out ?r t rec = (if t = TopicInventoryEvents then [published rec (stock_fact e)] else [])"
    using translated[of ?r rec tr e "stock_fact e" t] r assms
    by (cases e) (auto simp: stock_reserved_v1_event_def stock_rejected_v1_event_def
        marshal_stock_reserved_v1_def marshal_stock_rejected_v1_def)
qed

fun shipment_fact :: "shipment_event \<Rightarrow> json integration_event" where
  "shipment_fact (ShipmentDispatched oid) = shipment_dispatched_v1_event \<lparr>sdv_order_id = oid\<rparr>"
| "shipment_fact (OtherShipmentEvent n) = \<lparr>ie_name = n, ie_version = 1, ie_json = Inr JNull\<rparr>"

lemma shipping_out:
  assumes "decode shipment_registry rec = Inr e"
  shows "rl_out (cs_relay (shop_shipping now md)) t rec = (if t = TopicShippingEvents then [published rec (shipment_fact e)] else [])"
    "rec_name rec = shipment_event_name e" "\<forall>n. e \<noteq> OtherShipmentEvent n"
proof -
  let ?r = "cs_relay (shop_shipping now md)"
  note defs = shop_shipping_def shipping_service_def shipment_registry_entries(1) shipment_register_def
    register_shipment_commands_def register_shipment_translators_def wiring_defs svc_backends_def TopicShippingEvents_def
  have r: "rl_routes ?r = Map.empty" "rl_registry ?r = shipment_registry" "rc_topic (rl_cfg ?r) = TopicShippingEvents"
    by (simp_all add: defs)
  have n: "rec_name rec = shipment_event_name e \<and> (\<forall>n. e \<noteq> OtherShipmentEvent n)"
    using assms by (auto simp: decode_lifts_iff shipment_registry_def register_shipment_events_def register_def new_registry_def
        unmarshal_shipment_dispatched_def map_sum_Inr_iff split: if_splits sum.splits)
  then show "rec_name rec = shipment_event_name e" "\<forall>n. e \<noteq> OtherShipmentEvent n" by blast+
  have "\<exists>tr. rl_translators ?r (rec_name rec) = Some tr \<and> tr e = Some (shipment_fact e)"
    using n by (cases e) (simp_all add: defs)
  then obtain tr where "rl_translators ?r (rec_name rec) = Some tr" "tr e = Some (shipment_fact e)" by blast
  then show "rl_out ?r t rec = (if t = TopicShippingEvents then [published rec (shipment_fact e)] else [])"
    using translated[of ?r rec tr e "shipment_fact e" t] r assms
    by (cases e) (auto simp: shipment_dispatched_v1_event_def marshal_shipment_dispatched_v1_def)
qed

text \<open>What the saga reads in these messages.\<close>

lemma published_facts:
  "in_int64 c \<Longrightarrow> fact_of (published rec (payment_fact (PaymentCaptured oid c))) = Some (CapturedFact \<lparr>pcv_order_id = utf8_fix oid, pcv_cents = c\<rparr>)"
  "fact_of (published rec (payment_fact (PaymentFailed oid r))) = Some (FailedFact \<lparr>pfv_order_id = utf8_fix oid, pfv_reason = utf8_fix r\<rparr>)"
  "fact_of (published rec (payment_fact (PaymentRefunded oid))) = None"
  "in_int64 q \<Longrightarrow> fact_of (published rec (stock_fact (StockReserved oid q))) = Some (ReservedFact \<lparr>srv_order_id = utf8_fix oid, srv_qty = q\<rparr>)"
  "fact_of (published rec (stock_fact (StockRejected oid r))) = Some (RejectedFact \<lparr>sjv_order_id = utf8_fix oid, sjv_reason = utf8_fix r\<rparr>)"
  "fact_of (published rec (shipment_fact (ShipmentDispatched oid))) = Some (DispatchedFact \<lparr>sdv_order_id = utf8_fix oid\<rparr>)"
  using payment_captured_v1_wire[of "\<lparr>pcv_order_id = oid, pcv_cents = c\<rparr>"] payment_failed_v1_wire[of "\<lparr>pfv_order_id = oid, pfv_reason = r\<rparr>"]
    stock_reserved_v1_wire[of "\<lparr>srv_order_id = oid, srv_qty = q\<rparr>"] stock_rejected_v1_wire[of "\<lparr>sjv_order_id = oid, sjv_reason = r\<rparr>"]
    shipment_dispatched_v1_wire[of "\<lparr>sdv_order_id = oid\<rparr>"]
  by (simp_all add: fact_of_def published_def payment_captured_v1_event_def payment_failed_v1_event_def payment_refunded_v1_event_def
      stock_reserved_v1_event_def stock_rejected_v1_event_def shipment_dispatched_v1_event_def as_fact_def
      marshal_payment_captured_v1_def marshal_payment_failed_v1_def marshal_stock_reserved_v1_def
      marshal_stock_rejected_v1_def marshal_shipment_dispatched_v1_def)

definition command_message :: "json recorded \<Rightarrow> json command_requested \<Rightarrow> json message" where
  "command_message rec c = \<lparr>m_id = message_id rec, m_key = cq_key c, m_type = cq_name c, m_version = cq_version c,
     m_at = rec_at rec, m_payload = cq_payload c, m_meta = cq_meta c\<rparr>"

definition placed_fact :: "order_placed \<Rightarrow> json integration_event" where
  "placed_fact p = order_placed_v1_event \<lparr>opv_order_id = id_string (op_id p), opv_customer_id = id_string (op_customer p),
     opv_cents = mo_cents (op_total p), opv_currency = mo_currency (op_total p), opv_qty = qu_n (op_qty p)\<rparr>"

text \<open>What the stream of an instance says: the messages it has received, what it has asked for, whether it has ended.\<close>

definition requests :: "('p, 'x) saga_event list \<Rightarrow> (string \<times> string \<times> 'p) list" where
  "requests es = concat (map (\<lambda>e. case e of CommandRequested c \<Rightarrow> [(cq_topic c, cq_name c, cq_payload c)] | _ \<Rightarrow> []) es)"

lemma requests_simps [simp]:
  "requests [] = []" "requests (EventReceived m # es) = requests es" "requests (SagaEnded # es) = requests es"
  "requests (CommandRequested c # es) = (cq_topic c, cq_name c, cq_payload c) # requests es" "requests (es @ fs) = requests es @ requests fs"
  by (simp_all add: requests_def)

definition saga_stream_of :: "string \<Rightarrow> stream_id" where
  "saga_stream_of oid = \<lparr>si_category = ''saga.order_fulfillment'', si_id = oid\<rparr>"

definition saga_at ::
  "(string \<Rightarrow> string) \<Rightarrow> saga_codec \<Rightarrow> json mem_store \<Rightarrow> string \<Rightarrow> string list \<Rightarrow> (string \<times> string \<times> json) list \<Rightarrow> bool \<Rightarrow> fulfillment \<Rightarrow> bool" where
  "saga_at uni sc w oid ids cmds ended st \<longleftrightarrow>
     (\<exists>es i. decode_all (ordering_registry uni sc) (stream_recs (ms_all w) (saga_stream_of oid)) = Inr es \<and>
        replay (saga_apply fulfillment_saga) (new_instance zero_fulfillment) es = Some i \<and>
        received es = ids \<and> requests es = cmds \<and> (SagaEnded \<in> set es \<longleftrightarrow> ended) \<and> in_state i = st)"

text \<open>
  What the runs rely on of the JSON of saga events: each type decodes to itself, and what is plain
  (ASCII identifiers, instants from a set that JSON can carry, metadata from a set that contexts carry)
  survives.
\<close>

locale shop_codec =
  fixes uni :: "string \<Rightarrow> string" and sc :: saga_codec and T :: "instant set" and M :: "metadata set"
  assumes received_kind: "sc_received sc j = Inr e \<Longrightarrow> \<exists>m. e = EventReceived m"
    and requested_kind: "sc_requested sc j = Inr e \<Longrightarrow> \<exists>c. e = CommandRequested c"
    and ended_kind: "sc_ended sc j = Inr e \<Longrightarrow> e = SagaEnded"
    and received_reads: "plain_message T M m \<Longrightarrow> \<exists>j. sc_marshal sc (EventReceived m) = Inr j \<and> sc_received sc j = Inr (EventReceived m)"
    and requested_reads: "plain_request M c \<Longrightarrow> \<exists>j. sc_marshal sc (CommandRequested c) = Inr j \<and> sc_requested sc j = Inr (CommandRequested c)"
    and ended_reads: "\<exists>j. sc_marshal sc SagaEnded = Inr j \<and> sc_ended sc j = Inr SagaEnded"
begin

abbreviation reg :: "(json, ordering_event) registry" where
  "reg \<equiv> ordering_registry uni sc"

lemma saga_entries:
  "reg ''saga.event_received'' = Some \<lparr>re_decode = (\<lambda>payload. case sc_received sc payload of
      Inl err \<Rightarrow> Inl (Wrapf ''eventstore: decoding %s: %w'' [FStr ''saga.event_received''] err) | Inr e \<Rightarrow> Inr e), re_upcasters = []\<rparr>"
  "reg ''saga.command_requested'' = Some \<lparr>re_decode = (\<lambda>payload. case sc_requested sc payload of
      Inl err \<Rightarrow> Inl (Wrapf ''eventstore: decoding %s: %w'' [FStr ''saga.command_requested''] err) | Inr e \<Rightarrow> Inr e), re_upcasters = []\<rparr>"
  "reg ''saga.ended'' = Some \<lparr>re_decode = (\<lambda>payload. case sc_ended sc payload of
      Inl err \<Rightarrow> Inl (Wrapf ''eventstore: decoding %s: %w'' [FStr ''saga.ended''] err) | Inr e \<Rightarrow> Inr e), re_upcasters = []\<rparr>"
  by (simp_all add: ordering_registry_def register_ordering_events_def register_saga_events_def register_def new_registry_def)

lemma decoded_name: "decode reg rec = Inr e \<Longrightarrow> rec_name rec = saga_event_name e"
  by (auto simp: decode_lifts_iff ordering_registry_def register_ordering_events_def register_saga_events_def register_def
      new_registry_def own_event_def map_sum_Inr_iff dest!: received_kind requested_kind ended_kind split: if_splits sum.splits)

lemma ordering_out:
  assumes "decode reg rec = Inr e"
  shows "rl_out (od_relay (shop_ordering uni sc now md)) t rec =
    (case e of CommandRequested c \<Rightarrow> if cq_topic c = t then [command_message rec c] else []
     | OtherEvent n (OrderPlaced p) \<Rightarrow> if t = TopicOrderingEvents then [published rec (placed_fact p)] else []
     | _ \<Rightarrow> [])"
proof -
  let ?r = "od_relay (shop_ordering uni sc now md)"
  note parts = ordering_parts_eq[of uni sc now md]
  note name = decoded_name[OF assms]
  obtain tr where tr: "rl_translators ?r = [''ordering.order_placed'' \<mapsto> tr]"
    "\<And>p. tr (OtherEvent ''ordering.order_placed'' (OrderPlaced p)) = Some (placed_fact p)"
    using parts(5) by (auto simp: placed_fact_def)
  show ?thesis
  proof (cases e)
    case (CommandRequested c)
    with name assms parts show ?thesis
      by (auto simp: rl_out_def relay_translate_def command_route_def command_message_def)
  next
    case (OtherEvent n x)
    have own: "own_event x = e"
      using assms OtherEvent
      by (auto simp: decode_lifts_iff ordering_registry_def register_ordering_events_def register_saga_events_def register_def
          new_registry_def own_event_def map_sum_Inr_iff dest!: received_kind requested_kind ended_kind split: if_splits sum.splits)
    show ?thesis
    proof (cases x)
      case (OrderPlaced p)
      with own OtherEvent have n: "n = ''ordering.order_placed''" by (auto simp: own_event_def)
      have "rl_out ?r t rec = (if t = rc_topic (rl_cfg ?r) then [published rec (placed_fact p)] else [])"
        by (rule translated[of ?r rec tr e])
          (use name parts tr OtherEvent OrderPlaced n assms in \<open>auto simp: placed_fact_def order_placed_v1_event_def marshal_order_placed_v1_def\<close>)
      with parts(3) OtherEvent OrderPlaced show ?thesis by simp
    next
      case (CustomerNotified c)
      with own OtherEvent name parts tr show ?thesis by (auto simp: own_event_def rl_out_def relay_translate_def)
    qed
  qed (use name parts tr in \<open>auto simp: rl_out_def relay_translate_def\<close>)
qed

lemma runner_parts:
  fixes now md
  defines "rn \<equiv> od_saga (shop_ordering uni sc now md)"
  shows "rn_def rn = fulfillment_saga" "rp_store (rn_repo rn) = mem_ops now" "runner_ok rn zero_fulfillment"
    "rp_registry (rn_repo rn) = reg" "saga_stream rn oid = saga_stream_of oid" "rp_name (rn_repo rn) = saga_event_name"
    "rp_marshal (rn_repo rn) = marshal_ordering_event sc" "rn_retries rn = 3"
  unfolding rn_def ordering_parts_eq
  by (simp_all add: runner_ok_new saga_stream_def) (simp_all add: new_runner_def rp_stream_def saga_category_def saga_stream_of_def)

lemma saga_event_stored:
  fixes now md
  defines "rp \<equiv> rn_repo (od_saga (shop_ordering uni sc now md))"
  assumes "case e of EventReceived m \<Rightarrow> plain_message T M m | CommandRequested c \<Rightarrow> plain_request M c | SagaEnded \<Rightarrow> True | _ \<Rightarrow> False"
  shows "rp_registry rp (rp_name rp e) \<noteq> None" "\<exists>j. rp_marshal rp e = Inr j" "stores rp id e"
proof -
  have p: "rp_registry rp = reg" "rp_name rp = saga_event_name" "rp_marshal rp = marshal_ordering_event sc"
    unfolding rp_def by (simp_all add: runner_parts)
  show "rp_registry rp (rp_name rp e) \<noteq> None" using assms(2) by (cases e) (simp_all add: p saga_entries)
  show "\<exists>j. rp_marshal rp e = Inr j"
    using assms(2) received_reads requested_reads ended_reads by (cases e) (fastforce simp: p marshal_ordering_event_def)+
  show "stores rp id e"
  proof (rule storesI)
    fix j assume "rp_marshal rp e = Inr j"
    then show "\<exists>dec. rp_registry rp (rp_name rp e) = Some \<lparr>re_decode = dec, re_upcasters = []\<rparr> \<and> dec j = Inr (id e)"
      using assms(2) received_reads requested_reads ended_reads
      by (cases e) (fastforce simp: p saga_entries marshal_ordering_event_def)+
  qed
qed

lemma encode_all_ok:
  assumes "\<forall>e\<in>set es. rp_registry rp (rp_name rp e) \<noteq> None \<and> (\<exists>j. rp_marshal rp e = Inr j)"
  shows "\<exists>data. encode_all rp amb es = Inr data"
  using assms by (induction es) (auto simp: encode_def schema_version_def split: option.splits)

lemma replay_decided:
  fixes i :: "(fulfillment, json) saga_inst"
  assumes "sd_handlers d (event_key (m_type msg) (m_version msg)) = Some h" "eh_handle h (in_state i) msg = (s', Inr ds)"
  shows "\<exists>i'. replay (saga_apply d) i (decided oid amb msg ds :: ordering_event list) = Some i' \<and> in_state i' = s'"
proof -
  have c: "replay (saga_apply d) i1 (map (\<lambda>out. CommandRequested (f out)) outs) = Some i1"
    for i1 :: "(fulfillment, json) saga_inst" and outs :: "json out_command list" and f
    by (induction outs) (simp_all add: saga_apply_def)
  show ?thesis
    using assms by (simp add: decided_def replay_append c saga_apply_def Let_def)
qed

lemma react_plain:
  assumes "react st f = (st', Inr ds)" "out \<in> set (ds_commands ds)" "list_all is_ascii oid" "md \<in> M"
  shows "plain_request M (requested oid md out) \<and> oc_topic out \<noteq> [] \<and> cv_json (oc_cmd out) \<in> range Inr"
  using assms by (cases f) (auto simp: fulfillment_defs requested_def plain_request_def command_version_def is_ascii_def)

lemma requests_decided:
  "requests (decided oid amb msg ds :: ordering_event list) = wire_commands ds"
proof -
  have "requests (map (\<lambda>out. CommandRequested (requested oid md out)) outs :: ordering_event list) =
      map (\<lambda>out. (oc_topic out, cv_name (oc_cmd out), projr (cv_json (oc_cmd out)))) outs" for md outs
    by (induction outs) (simp_all add: requested_def)
  then show ?thesis by (simp add: decided_def wire_commands_def)
qed

lemma saga_moves:
  fixes now md
  defines "rn \<equiv> od_saga (shop_ordering uni sc now md)"
  assumes "mem_inv w" "saga_at uni sc w oid ids cmds False st" "fact_of m = Some f" "fact_order f = oid" "oid \<noteq> []" "list_all is_ascii oid"
    and "plain_message T M m" "amb \<in> M" "m_id m \<notin> set ids"
  shows "\<exists>w' new. saga_handler rn amb w m = (w', None) \<and> mem_inv w' \<and> ms_all w' = ms_all w @ new \<and> new \<noteq> [] \<and>
    (\<forall>r\<in>set new. rec_stream r = saga_stream_of oid \<and> rec_meta r \<in> M) \<and> (\<exists>es. decode_all reg new = Inr es) \<and>
    saga_at uni sc w' oid (ids @ [m_id m]) (cmds @ fst (workflow st f)) (snd (workflow st f)) (fst (react st f))"
proof -
  note parts = runner_parts[of now md, folded rn_def]
  obtain es i where at: "decode_all reg (stream_recs (ms_all w) (saga_stream_of oid)) = Inr es"
    "replay (saga_apply fulfillment_saga) (new_instance zero_fulfillment) es = Some i"
    "received es = ids" "requests es = cmds" "SagaEnded \<notin> set es" "in_state i = st"
    using assms(3) by (auto simp: saga_at_def)
  obtain h where h: "sd_handlers fulfillment_saga (event_key (m_type m) (m_version m)) = Some h"
    "eh_correlate h m = Inr oid" "\<And>s. eh_handle h s m = react s f"
    using fulfillment_fact[OF assms(4)] assms(5) by auto
  obtain st' ds where ds: "react st f = (st', Inr ds)" "(wire_commands ds, ds_end ds) = workflow st f"
    using react_workflow by blast
  let ?md = "if amb = fmempty then m_meta m else amb"
  let ?new = "decided oid amb m ds :: ordering_event list"
  have md: "?md \<in> M" using assms(8,9) by (simp add: plain_message_def)
  have plain: "case e of EventReceived m \<Rightarrow> plain_message T M m | CommandRequested c \<Rightarrow> plain_request M c | SagaEnded \<Rightarrow> True | _ \<Rightarrow> False"
    if "e \<in> set ?new" for e
    using that assms(8) react_plain[OF ds(1) _ assms(7) md] by (auto simp: decided_def)
  have ok: "\<forall>e\<in>set ?new. rp_registry (rn_repo rn) (rp_name (rn_repo rn) e) \<noteq> None \<and> (\<exists>j. rp_marshal (rn_repo rn) e = Inr j)"
    using saga_event_stored(1,2)[OF plain, of _ now md] unfolding rn_def by blast
  obtain data where data: "encode_all (rn_repo rn) amb ?new = Inr data" using encode_all_ok[OF ok] by blast
  have "\<exists>w' new. saga_handler rn amb w m = (w', None) \<and> mem_inv w' \<and> ms_all w' = ms_all w @ new \<and>
      appended (saga_stream rn oid) data new"
    by (rule saga_delivers[where ?s0.0 = zero_fulfillment and es = es and i = i and h = h and sid = oid and s' = st' and ds = ds])
      (use assms at h ds data parts react_plain[OF ds(1) _ assms(7) md] in auto)
  then obtain w' new where w': "saga_handler rn amb w m = (w', None)" "mem_inv w'" "ms_all w' = ms_all w @ new"
    "appended (saga_stream_of oid) data new" unfolding parts(5) by blast
  have dec: "decode_all reg new = Inr ?new"
    using decode_all_stored[OF data, of new id] w'(4) saga_event_stored(3)[OF plain, of _ now md] parts(4)
    by (simp add: appended_def rn_def)
  have ms: "\<forall>r\<in>set new. rec_meta r = amb" using encode_all_meta[OF data] w'(4) by (auto simp: appended_def ed_of_def) (metis (mono_tags, lifting) event_data.select_convs(4) imageI)
  have sr: "stream_recs (ms_all w') (saga_stream_of oid) = stream_recs (ms_all w) (saga_stream_of oid) @ new"
    using w'(3,4) by (auto simp: stream_recs_def appended_def)
  obtain i' where i': "replay (saga_apply fulfillment_saga) i ?new = Some i'" "in_state i' = st'"
    using replay_decided[OF h(1), of i st' ds oid amb] h(3) ds(1) at(6) by auto
  have "saga_at uni sc w' oid (ids @ [m_id m]) (cmds @ fst (workflow st f)) (snd (workflow st f)) st'"
    unfolding saga_at_def
    by (intro exI[of _ "es @ ?new"] exI[of _ i'])
      (use at dec sr i' ds(2)[symmetric] in \<open>auto simp: decode_all_append replay_append requests_decided\<close>,
       auto simp: decided_def)
  moreover have "new \<noteq> []" using dec by (auto simp: decided_def)
  ultimately show ?thesis
    using w' dec ms assms(9) ds(1) by (intro exI[of _ w'] exI[of _ new]) (auto simp: appended_def)
qed

text \<open>A message that the instance knows or that comes after its end changes nothing, nor one that is no fact.\<close>

lemma saga_stays:
  fixes now md
  defines "rn \<equiv> od_saga (shop_ordering uni sc now md)"
  assumes "fact_of m = None \<or> (\<exists>f ids cmds ended st. fact_of m = Some f \<and> saga_at uni sc w (fact_order f) ids cmds ended st \<and>
      (m_id m \<in> set ids \<or> ended))" "mem_inv w"
  shows "saga_handler rn amb w m = (w, None)"
proof -
  note parts = runner_parts[of now md, folded rn_def]
  show ?thesis
  proof (cases "fact_of m")
    case None
    then show ?thesis using fulfillment_no_fact[OF None] by (auto simp: saga_handler_def parts split: option.splits)
  next
    case (Some f)
    then obtain ids cmds ended st where a: "saga_at uni sc w (fact_order f) ids cmds ended st" "m_id m \<in> set ids \<or> ended"
      using assms(2) by auto
    then obtain es i where at: "decode_all reg (stream_recs (ms_all w) (saga_stream_of (fact_order f))) = Inr es"
      "replay (saga_apply fulfillment_saga) (new_instance zero_fulfillment) es = Some i"
      "received es = ids" "SagaEnded \<in> set es \<longleftrightarrow> ended" by (auto simp: saga_at_def)
    obtain h where h: "sd_handlers fulfillment_saga (event_key (m_type m) (m_version m)) = Some h" "eh_correlate h m = Inr (fact_order f)"
      using fulfillment_fact[OF Some] by blast
    show ?thesis
      by (rule saga_redelivered[where ?s0.0 = zero_fulfillment and es = es and i = i and h = h and sid = "fact_order f"])
        (use assms(3) at h parts a(2) in auto)
  qed
qed

end

end
