(* ===== verification/ShopRun.thy ===== *)
theory ShopRun
  imports Shop
begin

text \<open>
  Runs of the shop: commands handled by the ordering service, messages delivered to the saga and to the
  consumers, at any time, in any order, any number of times, with consumers that may die before they mark.
  Every order is in one of thirteen courses, whatever has happened; and what its course waits for is out.
\<close>

section \<open>Records of a store\<close>

lemma same_record:
  assumes "mem_inv w" "x \<in> set (ms_all w)" "y \<in> set (ms_all w)" "message_id x = message_id y"
    and "CHR ''/'' \<notin> set (si_category (rec_stream x))" "CHR ''/'' \<notin> set (si_category (rec_stream y))"
  shows "x = y"
proof -
  have "distinct (map (\<lambda>r. (rec_stream r, rec_version r)) (ms_all w))"
    by (rule wf_log_versions_distinct[OF mem_inv_wf[OF assms(1)]])
  then have "inj_on (\<lambda>r. (rec_stream r, rec_version r)) (set (ms_all w))" by (simp add: distinct_map)
  from inj_onD[OF this _ assms(2,3)] message_id_inj[OF assms(4-6)] show ?thesis by simp
qed

definition first_id :: "string \<Rightarrow> string \<Rightarrow> string" where
  "first_id cat oid = cat @ ''/'' @ oid @ ''#1''"

lemma itoa_one: "itoa 1 = ''1''"
  by code_simp

lemma first_record:
  assumes "mem_inv w" "stream_recs (ms_all w) \<lparr>si_category = cat, si_id = oid\<rparr> = r # rs"
  shows "message_id r = first_id cat oid"
proof -
  let ?st = "\<lparr>si_category = cat, si_id = oid\<rparr>"
  have "map rec_version (stream_recs (ms_all w) ?st) = map (\<lambda>i. int i + 1) [0..<length (stream_recs (ms_all w) ?st)]"
    using mem_inv_wf[OF assms(1)] by (simp add: wf_log_def)
  from arg_cong[OF this, of hd] have "rec_version r = 1" by (simp add: assms(2) hd_map del: upt_Suc)
  moreover have "r \<in> set (stream_recs (ms_all w) ?st)" by (simp add: assms(2))
  then have "rec_stream r = ?st" by (simp add: stream_recs_def)
  ultimately show ?thesis by (simp add: message_id_def first_id_def itoa_one)
qed

lemma decode_all_out:
  "decode_all reg recs = Inr es \<Longrightarrow> e \<in> set es \<Longrightarrow> \<exists>rec\<in>set recs. decode reg rec = Inr e"
  by (induction recs arbitrary: es) (auto split: sum.splits)

lemma decode_all_in:
  "decode_all reg recs = Inr es \<Longrightarrow> rec \<in> set recs \<Longrightarrow> \<exists>e\<in>set es. decode reg rec = Inr e"
  by (induction recs arbitrary: es) (auto split: sum.splits)

lemma first_event:
  assumes "mem_inv w" "decode_all reg (stream_recs (ms_all w) \<lparr>si_category = cat, si_id = oid\<rparr>) = Inr (e # es)"
    "rec \<in> set (ms_all w)" "rec_stream rec = \<lparr>si_category = cat, si_id = oid\<rparr>" "decode reg rec = Inr e" "e \<notin> set es"
  shows "message_id rec = first_id cat oid"
proof -
  let ?recs = "stream_recs (ms_all w) \<lparr>si_category = cat, si_id = oid\<rparr>"
  obtain r rs where r: "?recs = r # rs" "decode_all reg rs = Inr es"
    using assms(2) by (cases ?recs) (auto split: sum.splits)
  have "rec \<in> set (r # rs)" unfolding r(1)[symmetric] using assms(3,4) by (simp add: stream_recs_def)
  moreover have "rec \<notin> set rs" using decode_all_in[OF r(2), of rec] assms(5,6) by auto
  ultimately show ?thesis using first_record[OF assms(1) r(1)] by simp
qed

text \<open>A command handler stamps what it writes with its context's metadata and the store's time.\<close>

definition grows :: "stream_id \<Rightarrow> instant \<Rightarrow> metadata \<Rightarrow> 'p mem_store \<Rightarrow> 'p mem_store \<Rightarrow> bool" where
  "grows st now md w w' \<longleftrightarrow> mem_inv w' \<and> (\<exists>new. ms_all w' = ms_all w @ new \<and> (\<forall>r\<in>set new. rec_stream r = st \<and> rec_meta r = md)) \<and>
     (\<forall>r\<in>set (ms_all w') - set (ms_all w). rec_at r = now)"

lemma grows_refl: "mem_inv w \<Longrightarrow> grows st now md w w"
  by (auto simp: grows_def intro: exI[of _ "[]"])

lemma serve_grows:
  assumes "mem_inv w" "serve (rp_at rp now) md dec key w c = (w', r)"
  shows "grows (rp_stream rp (key c)) now md w w'"
proof -
  have l: "fst (repo_load (rp_at rp now) w (key c)) = w"
    by (simp add: repo_load_def mem_ops_def split: list.splits sum.splits prod.splits)
  consider "w' = w" | a pos a' where "repo_save (rp_at rp now) md None w (key c) a = (w', pos, a', r)"
    using assms(2) l by (auto simp: serve_def split: prod.splits sum.splits)
  then show ?thesis
  proof cases
    case (2 a pos a')
    show ?thesis
    proof (cases "w' = w")
      case False
      with 2 obtain data where d: "encode_all rp md (agg_pending a) = Inr data" "agg_pending a \<noteq> []"
        by (auto simp: repo_save_def uncommitted_events_def split: if_splits sum.splits)
      then have ne: "data \<noteq> []" using encode_all_length[OF d(1)] by auto
      have ap: "fst (mem_append now w (rp_stream rp (key c)) (agg_version a) data) = w'"
        using 2 d by (auto simp: repo_save_def uncommitted_events_def mem_ops_def split: prod.splits sum.splits)
      have v: "stream_version (ms_all w) (rp_stream rp (key c)) = agg_version a"
        using mem_append_conflict[OF assms(1) ne, of "rp_stream rp (key c)" "agg_version a" now] ap False by fastforce
      obtain new where n: "ms_all w' = ms_all w @ new" "appended (rp_stream rp (key c)) data new" "mem_inv w'"
        using mem_append_ok[OF assms(1) ne v, of now] ap by auto
      have "rec_meta x = md" if "x \<in> set new" for x
        using encode_all_meta[OF d(1), of "ed_of x"] n(2) that by (auto simp: appended_def ed_of_def)
      moreover have "rec_at x = now" if "x \<in> set (ms_all w') - set (ms_all w)" for x
        using that ap ne mem_append_loop_at[of x now "rp_stream rp (key c)" "agg_version a" 0 data w] False
        by (auto simp: mem_append_def Let_def split: if_splits)
      ultimately show ?thesis using n by (auto simp: grows_def appended_def)
    qed (use assms(1) in \<open>simp add: grows_refl\<close>)
  qed (use assms(1) in \<open>simp add: grows_refl\<close>)
qed

lemma grows_elsewhere:
  assumes "grows st now md w w'" "st' \<noteq> st" shows "stream_recs (ms_all w') st' = stream_recs (ms_all w) st'"
  using assms by (auto simp: grows_def stream_recs_append) (auto simp: stream_recs_def filter_empty_conv)

section \<open>The courses of an order\<close>

text \<open>
  What the streams of an order hold, from its placement on: the messages its saga instance has received,
  the commands it has asked for, whether it has ended, and the payment, the reservation and the shipment.
\<close>

datatype course = Unheard | Asked | Declined | Closed | Paid | Reserving | Short | Refunding | Refunded | Held | Shipping | Sent | Completed

fun next_course :: "int \<Rightarrow> int \<Rightarrow> course \<Rightarrow> course" where
  "next_course cents qty Unheard = Asked"
| "next_course cents qty Asked = (if CaptureLimitCents < cents then Declined else Paid)"
| "next_course cents qty Declined = Closed"
| "next_course cents qty Closed = Closed"
| "next_course cents qty Paid = Reserving"
| "next_course cents qty Reserving = (if AvailableStock < qty then Short else Held)"
| "next_course cents qty Short = Refunding"
| "next_course cents qty Refunding = Refunded"
| "next_course cents qty Refunded = Refunded"
| "next_course cents qty Held = Shipping"
| "next_course cents qty Shipping = Sent"
| "next_course cents qty Sent = Completed"
| "next_course cents qty Completed = Completed"

definition course_after :: "int \<Rightarrow> int \<Rightarrow> nat \<Rightarrow> course" where
  "course_after cents qty n = (next_course cents qty ^^ n) Unheard"

definition outcome :: "int \<Rightarrow> int \<Rightarrow> course" where
  "outcome cents qty = (if CaptureLimitCents < cents then Closed else if AvailableStock < qty then Refunded else Completed)"

lemma course_after_simps [simp]:
  "course_after cents qty 0 = Unheard" "course_after cents qty (Suc n) = next_course cents qty (course_after cents qty n)"
  by (simp_all add: course_after_def)

lemma outcome_stays [simp]: "next_course cents qty (outcome cents qty) = outcome cents qty"
  by (simp add: outcome_def)

lemma course_outcome:
  assumes "7 \<le> n" shows "course_after cents qty n = outcome cents qty"
proof -
  have "course_after cents qty (m + 7) = outcome cents qty" for m
    by (induction m) (simp_all add: numeral_eq_Suc, simp add: outcome_def)
  from this[of "n - 7"] assms show ?thesis by simp
qed

definition capture_request :: "string \<Rightarrow> int \<Rightarrow> string \<times> string \<times> json" where
  "capture_request oid cents = (''billing.commands'', ''billing.capture_payment'', JObj [(''order_id'', jstr oid), (''cents'', JInt cents)])"

definition reserve_request :: "string \<Rightarrow> int \<Rightarrow> string \<times> string \<times> json" where
  "reserve_request oid qty = (''inventory.commands'', ''inventory.reserve_stock'', JObj [(''order_id'', jstr oid), (''qty'', JInt qty)])"

definition ship_request :: "string \<Rightarrow> string \<times> string \<times> json" where
  "ship_request oid = (''shipping.commands'', ''shipping.create_shipment'', JObj [(''order_id'', jstr oid)])"

definition refund_request :: "string \<Rightarrow> string \<times> string \<times> json" where
  "refund_request oid = (''billing.commands'', ''billing.refund_payment'', JObj [(''order_id'', jstr oid)])"

definition heard :: "string \<Rightarrow> course \<Rightarrow> string list" where
  "heard oid k = (if k = Unheard then [] else first_id ''order'' oid #
     (if k \<in> {Asked, Declined, Paid} then [] else first_id ''payment'' oid #
       (if k \<in> {Closed, Reserving, Short, Held} then [] else first_id ''reservation'' oid #
         (if k = Completed then [first_id ''shipment'' oid] else []))))"

definition asked :: "string \<Rightarrow> int \<Rightarrow> int \<Rightarrow> course \<Rightarrow> (string \<times> string \<times> json) list" where
  "asked oid cents qty k = (if k = Unheard then [] else capture_request oid cents #
     (if k \<in> {Asked, Declined, Paid, Closed} then [] else reserve_request oid qty #
       (if k \<in> {Refunding, Refunded} then [refund_request oid] else if k \<in> {Shipping, Sent, Completed} then [ship_request oid] else [])))"

definition ended :: "course \<Rightarrow> bool" where
  "ended k \<longleftrightarrow> k \<in> {Closed, Refunding, Refunded, Completed}"

definition payment_of :: "string \<Rightarrow> int \<Rightarrow> course \<Rightarrow> payment_event list" where
  "payment_of oid cents k = (if k \<in> {Unheard, Asked} then [] else if k \<in> {Declined, Closed} then [PaymentFailed oid ''amount exceeds capture limit'']
     else PaymentCaptured oid cents # (if k = Refunded then [PaymentRefunded oid] else []))"

definition reservation_of :: "string \<Rightarrow> int \<Rightarrow> course \<Rightarrow> stock_event list" where
  "reservation_of oid qty k = (if k \<in> {Short, Refunding, Refunded} then [StockRejected oid ''insufficient stock'']
     else if k \<in> {Held, Shipping, Sent, Completed} then [StockReserved oid qty] else [])"

definition shipment_of :: "string \<Rightarrow> course \<Rightarrow> shipment_event list" where
  "shipment_of oid k = (if k \<in> {Sent, Completed} then [ShipmentDispatched oid] else [])"

section \<open>The shop\<close>

record shop =
  sh_ordering :: "json mem_store"
  sh_billing :: svc_world
  sh_inventory :: svc_world
  sh_shipping :: svc_world

definition new_shop :: shop where
  "new_shop = \<lparr>sh_ordering = new_mem_store, sh_billing = (new_mem_store, new_mem_dedup),
     sh_inventory = (new_mem_store, new_mem_dedup), sh_shipping = (new_mem_store, new_mem_dedup)\<rparr>"

text \<open>A message is out on a topic once one of the relays has a record that it translates to it.\<close>

definition sent :: "('w, json, 'e) relay \<Rightarrow> json mem_store \<Rightarrow> string \<Rightarrow> json message \<Rightarrow> bool" where
  "sent r w t m \<longleftrightarrow> (\<exists>rec\<in>set (ms_all w). m \<in> set (rl_out r t rec))"

definition out :: "(string \<Rightarrow> string) \<Rightarrow> saga_codec \<Rightarrow> shop \<Rightarrow> string \<Rightarrow> json message \<Rightarrow> bool" where
  "out uni sc s t m \<longleftrightarrow> sent (od_relay (shop_ordering uni sc 0 fmempty)) (sh_ordering s) t m \<or>
     sent (cs_relay (shop_billing 0 fmempty)) (fst (sh_billing s)) t m \<or>
     sent (cs_relay (shop_inventory 0 fmempty)) (fst (sh_inventory s)) t m \<or>
     sent (cs_relay (shop_shipping 0 fmempty)) (fst (sh_shipping s)) t m"

text \<open>
  Each step is the run of one handler, at an instant of \<open>T\<close> under metadata of \<open>M\<close>. A consumer's mark may be
  lost with its process; its effect is in the store by then.
\<close>

inductive shop_step :: "(string \<Rightarrow> string) \<Rightarrow> saga_codec \<Rightarrow> instant set \<Rightarrow> metadata set \<Rightarrow> shop \<Rightarrow> shop \<Rightarrow> bool" for uni sc T M where
  orders: "ordering_ok c \<Longrightarrow> now \<in> T \<Longrightarrow> md \<in> M \<Longrightarrow>
    serve (new_orders (mem_ops now) (ordering_registry uni sc) sc) md (ordering_decide uni) (ordering_key uni) (sh_ordering s) c = (w', r) \<Longrightarrow>
    shop_step uni sc T M s (s\<lparr>sh_ordering := w'\<rparr>)"
| fulfils: "t \<in> set SagaTopics \<Longrightarrow> out uni sc s t m \<Longrightarrow> now \<in> T \<Longrightarrow> amb \<in> M \<Longrightarrow>
    saga_handler (od_saga (shop_ordering uni sc now md)) amb (sh_ordering s) m = (w', r) \<Longrightarrow>
    shop_step uni sc T M s (s\<lparr>sh_ordering := w'\<rparr>)"
| bills: "out uni sc s TopicBillingCommands m \<Longrightarrow> now \<in> T \<Longrightarrow> md \<in> M \<Longrightarrow>
    consumer_handler ctx billing_command_name (cs_consumer (shop_billing now md)) (sh_billing s) m = ((w', d'), r) \<Longrightarrow>
    d \<in> {d', snd (sh_billing s)} \<Longrightarrow> shop_step uni sc T M s (s\<lparr>sh_billing := (w', d)\<rparr>)"
| reserves: "out uni sc s TopicInventoryCommands m \<Longrightarrow> now \<in> T \<Longrightarrow> md \<in> M \<Longrightarrow>
    consumer_handler ctx (\<lambda>c. ''inventory.reserve_stock'') (cs_consumer (shop_inventory now md)) (sh_inventory s) m = ((w', d'), r) \<Longrightarrow>
    d \<in> {d', snd (sh_inventory s)} \<Longrightarrow> shop_step uni sc T M s (s\<lparr>sh_inventory := (w', d)\<rparr>)"
| ships: "out uni sc s TopicShippingCommands m \<Longrightarrow> now \<in> T \<Longrightarrow> md \<in> M \<Longrightarrow>
    consumer_handler ctx (\<lambda>c. ''shipping.create_shipment'') (cs_consumer (shop_shipping now md)) (sh_shipping s) m = ((w', d'), r) \<Longrightarrow>
    d \<in> {d', snd (sh_shipping s)} \<Longrightarrow> shop_step uni sc T M s (s\<lparr>sh_shipping := (w', d)\<rparr>)"

inductive shop_reach :: "(string \<Rightarrow> string) \<Rightarrow> saga_codec \<Rightarrow> instant set \<Rightarrow> metadata set \<Rightarrow> shop \<Rightarrow> bool" for uni sc T M where
  opens: "shop_reach uni sc T M new_shop"
| goes_on: "shop_reach uni sc T M s \<Longrightarrow> shop_step uni sc T M s s' \<Longrightarrow> shop_reach uni sc T M s'"

text \<open>An order is in a course if all its streams are.\<close>

definition order_at :: "(string \<Rightarrow> string) \<Rightarrow> saga_codec \<Rightarrow> shop \<Rightarrow> string \<Rightarrow> ordering_event list \<Rightarrow> bool" where
  "order_at uni sc s oid es \<longleftrightarrow>
     decode_all (ordering_registry uni sc) (stream_recs (ms_all (sh_ordering s)) \<lparr>si_category = ''order'', si_id = oid\<rparr>) = Inr es"

definition course_at :: "(string \<Rightarrow> string) \<Rightarrow> saga_codec \<Rightarrow> shop \<Rightarrow> string \<Rightarrow> int \<Rightarrow> int \<Rightarrow> course \<Rightarrow> bool" where
  "course_at uni sc s oid cents qty k \<longleftrightarrow>
     saga_at uni sc (sh_ordering s) oid (heard oid k) (asked oid cents qty k) (ended k)
       (if k = Unheard then zero_fulfillment else \<lparr>fl_cents = cents, fl_qty = qty\<rparr>) \<and>
     decode_all billing_registry (stream_recs (ms_all (fst (sh_billing s))) \<lparr>si_category = ''payment'', si_id = oid\<rparr>) = Inr (payment_of oid cents k) \<and>
     decode_all stock_registry (stream_recs (ms_all (fst (sh_inventory s))) \<lparr>si_category = ''reservation'', si_id = oid\<rparr>) = Inr (reservation_of oid qty k) \<and>
     decode_all shipment_registry (stream_recs (ms_all (fst (sh_shipping s))) \<lparr>si_category = ''shipment'', si_id = oid\<rparr>) = Inr (shipment_of oid k)"

section \<open>The invariant\<close>

text \<open>Every record is where it belongs, with an instant and metadata that JSON can carry.\<close>

definition clean :: "string set \<Rightarrow> instant set \<Rightarrow> metadata set \<Rightarrow> json mem_store \<Rightarrow> bool" where
  "clean cats T M w \<longleftrightarrow> mem_inv w \<and> (\<forall>r\<in>set (ms_all w). si_category (rec_stream r) \<in> cats \<and> rec_meta r \<in> M \<and>
     (si_category (rec_stream r) \<noteq> ''saga.order_fulfillment'' \<longrightarrow> rec_at r \<in> T))"

text \<open>A placed order is so many courses along; one that is not placed is unheard of.\<close>

fun placement :: "ordering_event list \<Rightarrow> order_placed option" where
  "placement (OtherEvent n (OrderPlaced p) # es) = Some p"
| "placement es = None"

definition order_ok :: "(string \<Rightarrow> string) \<Rightarrow> saga_codec \<Rightarrow> shop \<Rightarrow> string \<Rightarrow> bool" where
  "order_ok uni sc s oid \<longleftrightarrow> (\<exists>es. order_at uni sc s oid es \<and> order_history oid es \<and>
     (case placement es of
        None \<Rightarrow> course_at uni sc s oid 0 0 Unheard
      | Some p \<Rightarrow> \<exists>n. course_at uni sc s oid (mo_cents (op_total p)) (qu_n (op_qty p))
          (course_after (mo_cents (op_total p)) (qu_n (op_qty p)) n)))"

text \<open>What is marked was asked for and has had its effect.\<close>

definition effects :: "string \<Rightarrow> nat" where
  "effects name = (if name = ''billing.refund_payment'' then 2 else 1)"

definition marks_ok :: "(string \<Rightarrow> string) \<Rightarrow> saga_codec \<Rightarrow> json mem_store \<Rightarrow> string \<Rightarrow> string \<Rightarrow> svc_world \<Rightarrow> bool" where
  "marks_ok uni sc w topic cat v \<longleftrightarrow>
     (\<forall>i. mem_processed (snd v) i \<longrightarrow> (\<exists>rec\<in>set (ms_all w). message_id rec = i)) \<and>
     (\<forall>rec\<in>set (ms_all w). \<forall>c. decode (ordering_registry uni sc) rec = Inr (CommandRequested c) \<longrightarrow> cq_topic c = topic \<longrightarrow>
        mem_processed (snd v) (message_id rec) \<longrightarrow>
        effects (cq_name c) \<le> length (stream_recs (ms_all (fst v)) \<lparr>si_category = cat, si_id = si_id (rec_stream rec)\<rparr>))"

definition shop_inv :: "(string \<Rightarrow> string) \<Rightarrow> saga_codec \<Rightarrow> instant set \<Rightarrow> metadata set \<Rightarrow> shop \<Rightarrow> bool" where
  "shop_inv uni sc T M s \<longleftrightarrow>
     clean {''order'', ''saga.order_fulfillment''} T M (sh_ordering s) \<and> clean {''payment''} T M (fst (sh_billing s)) \<and>
     clean {''reservation''} T M (fst (sh_inventory s)) \<and> clean {''shipment''} T M (fst (sh_shipping s)) \<and>
     (\<forall>oid. order_ok uni sc s oid) \<and>
     marks_ok uni sc (sh_ordering s) TopicBillingCommands ''payment'' (sh_billing s) \<and>
     marks_ok uni sc (sh_ordering s) TopicInventoryCommands ''reservation'' (sh_inventory s) \<and>
     marks_ok uni sc (sh_ordering s) TopicShippingCommands ''shipment'' (sh_shipping s)"

lemma clean_inv: "clean cats T M w \<Longrightarrow> mem_inv w"
  by (simp add: clean_def)

lemma clean_grows:
  assumes "clean cats T M w" "grows \<lparr>si_category = cat, si_id = x\<rparr> now md w w'" "cat \<in> cats" "now \<in> T" "md \<in> M"
  shows "clean cats T M w'"
proof -
  obtain new where n: "ms_all w' = ms_all w @ new" "\<forall>r\<in>set new. rec_stream r = \<lparr>si_category = cat, si_id = x\<rparr> \<and> rec_meta r = md"
    "\<forall>r\<in>set (ms_all w') - set (ms_all w). rec_at r = now" "mem_inv w'" using assms(2) by (auto simp: grows_def)
  show ?thesis
    using assms(1,3-5) n unfolding clean_def by (metis Diff_iff Un_iff set_append stream_id.select_convs(1))
qed

lemma marks_okI:
  assumes "\<And>i. mem_processed (snd v) i \<Longrightarrow> \<exists>rec\<in>set (ms_all w). message_id rec = i"
    and "\<And>rec c. rec \<in> set (ms_all w) \<Longrightarrow> decode (ordering_registry uni sc) rec = Inr (CommandRequested c) \<Longrightarrow> cq_topic c = topic \<Longrightarrow>
      mem_processed (snd v) (message_id rec) \<Longrightarrow>
      effects (cq_name c) \<le> length (stream_recs (ms_all (fst v)) \<lparr>si_category = cat, si_id = si_id (rec_stream rec)\<rparr>)"
  shows "marks_ok uni sc w topic cat v"
  using assms unfolding marks_ok_def by blast

lemma marks_okD:
  assumes "marks_ok uni sc w topic cat v"
  shows "mem_processed (snd v) i \<Longrightarrow> \<exists>rec\<in>set (ms_all w). message_id rec = i"
    "rec \<in> set (ms_all w) \<Longrightarrow> decode (ordering_registry uni sc) rec = Inr (CommandRequested c) \<Longrightarrow> cq_topic c = topic \<Longrightarrow>
      mem_processed (snd v) (message_id rec) \<Longrightarrow>
      effects (cq_name c) \<le> length (stream_recs (ms_all (fst v)) \<lparr>si_category = cat, si_id = si_id (rec_stream rec)\<rparr>)"
  using assms unfolding marks_ok_def by blast+

lemma marks_ok_ordering:
  assumes "marks_ok uni sc w topic cat v" "mem_inv w'" "ms_all w' = ms_all w @ new"
    "\<forall>r\<in>set (ms_all w'). CHR ''/'' \<notin> set (si_category (rec_stream r))"
  shows "marks_ok uni sc w' topic cat v"
proof -
  have old: "rec \<in> set (ms_all w)" if p: "rec \<in> set (ms_all w')" "mem_processed (snd v) (message_id rec)" for rec
  proof -
    obtain rec0 where r: "rec0 \<in> set (ms_all w)" "message_id rec0 = message_id rec"
      using marks_okD(1)[OF assms(1) p(2)] by blast
    then have "rec0 = rec" using same_record[OF assms(2) _ p(1) r(2)] assms(3,4) p(1) by simp
    with r show ?thesis by simp
  qed
  show ?thesis
  proof (rule marks_okI)
    fix i assume "mem_processed (snd v) i"
    with marks_okD(1)[OF assms(1)] assms(3) show "\<exists>rec\<in>set (ms_all w'). message_id rec = i" by fastforce
  next
    fix rec c assume r: "rec \<in> set (ms_all w')" "decode (ordering_registry uni sc) rec = Inr (CommandRequested c)" "cq_topic c = topic"
      "mem_processed (snd v) (message_id rec)"
    from marks_okD(2)[OF assms(1) old[OF r(1,4)] r(2-4)]
    show "effects (cq_name c) \<le> length (stream_recs (ms_all (fst v)) \<lparr>si_category = cat, si_id = si_id (rec_stream rec)\<rparr>)" .
  qed
qed

lemma marks_ok_store:
  assumes "marks_ok uni sc w topic cat v" "grows st now md (fst v) l"
  shows "marks_ok uni sc w topic cat (l, snd v)"
proof (rule marks_okI)
  fix i assume "mem_processed (snd (l, snd v)) i"
  with marks_okD(1)[OF assms(1)] show "\<exists>rec\<in>set (ms_all w). message_id rec = i" by simp
next
  fix rec c assume r: "rec \<in> set (ms_all w)" "decode (ordering_registry uni sc) rec = Inr (CommandRequested c)" "cq_topic c = topic"
    "mem_processed (snd (l, snd v)) (message_id rec)"
  let ?st = "\<lparr>si_category = cat, si_id = si_id (rec_stream rec)\<rparr>"
  have "length (stream_recs (ms_all (fst v)) ?st) \<le> length (stream_recs (ms_all l) ?st)"
    using assms(2) by (auto simp: grows_def stream_recs_append)
  with marks_okD(2)[OF assms(1) r(1-3)] r(4) show "effects (cq_name c) \<le> length (stream_recs (ms_all (fst (l, snd v))) ?st)" by simp
qed

lemma processed_mark: "mem_processed (mem_mark d i) j \<longleftrightarrow> j = i \<or> mem_processed d j"
  by (simp add: mem_processed_def mem_mark_def)

lemma marks_ok_mark:
  assumes "marks_ok uni sc w topic cat (l, d)" "mem_inv w" "\<forall>r\<in>set (ms_all w). CHR ''/'' \<notin> set (si_category (rec_stream r))"
    and "rec \<in> set (ms_all w)" "decode (ordering_registry uni sc) rec = Inr (CommandRequested c)"
    and "effects (cq_name c) \<le> length (stream_recs (ms_all l) \<lparr>si_category = cat, si_id = si_id (rec_stream rec)\<rparr>)"
  shows "marks_ok uni sc w topic cat (l, mem_mark d (message_id rec))"
proof (rule marks_okI)
  fix i assume "mem_processed (snd (l, mem_mark d (message_id rec))) i"
  with marks_okD(1)[OF assms(1)] assms(4) show "\<exists>rec\<in>set (ms_all w). message_id rec = i" by (auto simp: processed_mark)
next
  fix rec' c' assume r: "rec' \<in> set (ms_all w)" "decode (ordering_registry uni sc) rec' = Inr (CommandRequested c')" "cq_topic c' = topic"
    "mem_processed (snd (l, mem_mark d (message_id rec))) (message_id rec')"
  show "effects (cq_name c') \<le> length (stream_recs (ms_all (fst (l, mem_mark d (message_id rec)))) \<lparr>si_category = cat, si_id = si_id (rec_stream rec')\<rparr>)"
  proof (cases "message_id rec' = message_id rec")
    case True
    then have "rec' = rec" using same_record[OF assms(2) r(1) assms(4) True] assms(3,4) r(1) by simp
    with assms(5,6) r(2) show ?thesis by simp
  next
    case False
    with marks_okD(2)[OF assms(1) r(1-3)] r(4) show ?thesis by (simp add: processed_mark)
  qed
qed

end
