(* ===== verification/ShopOut.thy ===== *)
theory ShopOut
  imports ShopRun
begin

text \<open>
  What is out on the topics of a shop whose orders are on their courses: facts that their streams hold, and
  requests that their sagas made.
\<close>

abbreviation order_cents :: "order_placed \<Rightarrow> int" where "order_cents p \<equiv> mo_cents (op_total p)"
abbreviation order_qty :: "order_placed \<Rightarrow> int" where "order_qty p \<equiv> qu_n (op_qty p)"

section \<open>Placed orders\<close>

lemma placed_valid:
  assumes "order_placed_valid p"
  shows "list_all is_ascii (id_value (op_id p))" "id_value (op_id p) \<noteq> []" "utf8_fix (id_value (op_id p)) = id_value (op_id p)"
    "in_int64 (order_cents p)" "0 < order_cents p" "in_int64 (order_qty p)" "0 < order_qty p"
    "utf8_fix (id_value (op_customer p)) = id_value (op_customer p)" "utf8_fix (mo_currency (op_total p)) = mo_currency (op_total p)"
  using assms canonical_lower_id[of "id_value (op_id p)"] canonical_lower_id(1)[of "id_value (op_customer p)"]
  by (simp_all add: order_placed_valid_def money_valid_def quantity_valid_def utf8_fix_valid)

definition placed_as :: "order_placed \<Rightarrow> string list \<Rightarrow> ordering_event list" where
  "placed_as p rs = own_event (OrderPlaced p) # map (\<lambda>r. own_event (CustomerNotified \<lparr>cf_id = op_id p, cf_reason = r\<rparr>)) rs"

lemma placement_as [simp]: "placement (placed_as p rs) = Some p"
  by (simp add: placed_as_def own_event_def)

lemma order_cases:
  assumes "order_ok uni sc s oid"
  obtains (unplaced) "order_at uni sc s oid []" "course_at uni sc s oid 0 0 Unheard"
  | (placed) p rs n where "order_at uni sc s oid (placed_as p rs)" "id_value (op_id p) = oid" "order_placed_valid p"
      "course_at uni sc s oid (order_cents p) (order_qty p) (course_after (order_cents p) (order_qty p) n)"
proof -
  obtain es where es: "order_at uni sc s oid es" "order_history oid es"
    "case placement es of None \<Rightarrow> course_at uni sc s oid 0 0 Unheard
      | Some p \<Rightarrow> \<exists>n. course_at uni sc s oid (order_cents p) (order_qty p) (course_after (order_cents p) (order_qty p) n)"
    using assms by (auto simp: order_ok_def)
  from es(2) consider "es = []" | p rs where "es = placed_as p rs" "id_value (op_id p) = oid" "order_placed_valid p"
    unfolding order_history_def placed_as_def by blast
  then show thesis
  proof cases
    case 1 with es unplaced show thesis by simp
  next
    case (2 p rs)
    then obtain n where "course_at uni sc s oid (order_cents p) (order_qty p) (course_after (order_cents p) (order_qty p) n)"
      using es(3) by auto
    then show thesis by (rule placed[OF es(1)[unfolded 2(1)] 2(2,3)])
  qed
qed

text \<open>A request of an order in a course is one of those asked.\<close>

lemma saga_record:
  assumes "saga_at uni sc w oid ids cmds fin st" "rec \<in> set (ms_all w)" "rec_stream rec = saga_stream_of oid"
  shows "\<exists>e. decode (ordering_registry uni sc) rec = Inr e \<and> (case e of CommandRequested c \<Rightarrow> (cq_topic c, cq_name c, cq_payload c) \<in> set cmds
    | OtherEvent n x \<Rightarrow> False | _ \<Rightarrow> True)"
proof -
  obtain es i where es: "decode_all (ordering_registry uni sc) (stream_recs (ms_all w) (saga_stream_of oid)) = Inr es"
    "replay (saga_apply fulfillment_saga) (new_instance zero_fulfillment) es = Some i" "requests es = cmds"
    using assms(1) by (auto simp: saga_at_def)
  have "rec \<in> set (stream_recs (ms_all w) (saga_stream_of oid))" using assms(2,3) by (simp add: stream_recs_def)
  from decode_all_in[OF es(1) this] obtain e where e: "e \<in> set es" "decode (ordering_registry uni sc) rec = Inr e" by blast
  have no: "replay (saga_apply fulfillment_saga) j es' = Some j' \<Longrightarrow> OtherEvent n x \<notin> set es'" for j j' es' n x
    by (induction es' arbitrary: j) (auto simp: saga_apply_def split: prod.splits option.splits)
  have rq: "CommandRequested c \<in> set es' \<Longrightarrow> (cq_topic c, cq_name c, cq_payload c) \<in> set (requests es')" for c and es' :: "ordering_event list"
    by (force simp: requests_def)
  have "case e of CommandRequested c \<Rightarrow> (cq_topic c, cq_name c, cq_payload c) \<in> set cmds | OtherEvent n x \<Rightarrow> False | _ \<Rightarrow> True"
    by (cases e) (use e(1) no[OF es(2)] rq[of _ es] es(3) in simp_all)
  with e(2) show ?thesis by blast
qed

lemma request_record:
  assumes "saga_at uni sc w oid ids cmds fin st" "(t, n, p) \<in> set cmds"
  shows "\<exists>rec c. rec \<in> set (ms_all w) \<and> rec_stream rec = saga_stream_of oid \<and>
    decode (ordering_registry uni sc) rec = Inr (CommandRequested c) \<and> cq_topic c = t \<and> cq_name c = n \<and> cq_payload c = p"
proof -
  obtain es where es: "decode_all (ordering_registry uni sc) (stream_recs (ms_all w) (saga_stream_of oid)) = Inr es"
    "requests es = cmds"
    using assms(1) by (auto simp: saga_at_def)
  from assms(2) es(2) obtain c where c: "CommandRequested c \<in> set es" "cq_topic c = t" "cq_name c = n" "cq_payload c = p"
    by (auto simp: requests_def split: saga_event.splits)
  from decode_all_out[OF es(1) c(1)] c(2-4) show ?thesis by (auto simp: stream_recs_def)
qed

lemma asked_topics: "(t, n, p) \<in> set (asked oid cents qty k) \<Longrightarrow> t \<in> {TopicBillingCommands, TopicInventoryCommands, TopicShippingCommands}"
  by (auto simp: asked_def capture_request_def reserve_request_def refund_request_def ship_request_def topic_defs split: if_splits)

lemma course_saga:
  "course_at uni sc s oid cents qty k \<Longrightarrow> saga_at uni sc (sh_ordering s) oid (heard oid k) (asked oid cents qty k) (ended k)
     (if k = Unheard then zero_fulfillment else \<lparr>fl_cents = cents, fl_qty = qty\<rparr>)"
  by (simp add: course_at_def)

section \<open>What is out\<close>

definition on_course :: "(string \<Rightarrow> string) \<Rightarrow> saga_codec \<Rightarrow> shop \<Rightarrow> string \<Rightarrow> order_placed \<Rightarrow> course \<Rightarrow> bool" where
  "on_course uni sc s oid p k \<longleftrightarrow> (\<exists>rs. order_at uni sc s oid (placed_as p rs)) \<and> id_value (op_id p) = oid \<and> order_placed_valid p \<and>
     course_at uni sc s oid (order_cents p) (order_qty p) k"

lemma order_ok_course:
  assumes "order_ok uni sc s oid"
  obtains (unplaced) "order_at uni sc s oid []" "course_at uni sc s oid 0 0 Unheard"
  | (placed) p n where "on_course uni sc s oid p (course_after (order_cents p) (order_qty p) n)"
  by (rule order_cases[OF assms]) (auto simp: on_course_def)

text \<open>What the records of the ordering service's store are.\<close>

lemma ordering_record:
  assumes "shop_inv uni sc T M s" "rec \<in> set (ms_all (sh_ordering s))" "si_id (rec_stream rec) = oid"
  obtains (none) x where "decode (ordering_registry uni sc) rec = Inr (own_event (CustomerNotified x))"
  | (quiet) e where "decode (ordering_registry uni sc) rec = Inr e" "e = SagaEnded \<or> (\<exists>m. e = EventReceived m)"
  | (placed) p n where "decode (ordering_registry uni sc) rec = Inr (own_event (OrderPlaced p))"
      "on_course uni sc s oid p (course_after (order_cents p) (order_qty p) n)" "message_id rec = first_id ''order'' oid"
  | (request) c p n where "decode (ordering_registry uni sc) rec = Inr (CommandRequested c)" "rec_stream rec = saga_stream_of oid"
      "on_course uni sc s oid p (course_after (order_cents p) (order_qty p) n)"
      "(cq_topic c, cq_name c, cq_payload c) \<in> set (asked oid (order_cents p) (order_qty p) (course_after (order_cents p) (order_qty p) n))"
proof -
  have c: "clean {''order'', ''saga.order_fulfillment''} T M (sh_ordering s)" "order_ok uni sc s oid"
    using assms(1) by (auto simp: shop_inv_def)
  show thesis
  proof (cases "si_category (rec_stream rec) = ''order''")
    case True
    then have st: "rec_stream rec = \<lparr>si_category = ''order'', si_id = oid\<rparr>" using assms(3) by (cases "rec_stream rec") simp
    then have in_st: "rec \<in> set (stream_recs (ms_all (sh_ordering s)) \<lparr>si_category = ''order'', si_id = oid\<rparr>)"
      using assms(2) by (simp add: stream_recs_def)
    from c(2) show thesis
    proof (cases rule: order_cases)
      case unplaced
      with in_st show thesis by (auto simp: order_at_def dest: decode_all_length)
    next
      case (placed p rs n)
      from decode_all_in[OF placed(1)[unfolded order_at_def] in_st] obtain e where
        e: "e \<in> set (placed_as p rs)" "decode (ordering_registry uni sc) rec = Inr e" by blast
      show thesis
      proof (cases "e = own_event (OrderPlaced p)")
        case True
        have "message_id rec = first_id ''order'' oid"
          by (rule first_event[OF clean_inv[OF c(1)] placed(1)[unfolded order_at_def placed_as_def] assms(2) st])
            (use e(2) True in \<open>auto simp: own_event_def\<close>)
        moreover have "on_course uni sc s oid p (course_after (order_cents p) (order_qty p) n)" using placed by (auto simp: on_course_def)
        ultimately show thesis using e(2) True that(3) by blast
      next
        case False
        with e that(1) show thesis by (auto simp: placed_as_def)
      qed
    qed
  next
    case False
    then have st: "rec_stream rec = saga_stream_of oid"
      using c(1) assms(2,3) by (cases "rec_stream rec") (auto simp: clean_def saga_stream_of_def)
    from c(2) show thesis
    proof (cases rule: order_ok_course)
      case unplaced
      from saga_record[OF course_saga[OF unplaced(2)] assms(2) st] obtain e where e: "decode (ordering_registry uni sc) rec = Inr e"
        "case e of CommandRequested c \<Rightarrow> (cq_topic c, cq_name c, cq_payload c) \<in> set (asked oid 0 0 Unheard)
          | OtherEvent n x \<Rightarrow> False | _ \<Rightarrow> True" by blast
      show thesis by (cases e) (use e that(2) in \<open>auto simp: asked_def\<close>)
    next
      case (placed p n)
      then have "course_at uni sc s oid (order_cents p) (order_qty p) (course_after (order_cents p) (order_qty p) n)"
        by (simp add: on_course_def)
      from saga_record[OF course_saga[OF this] assms(2) st] obtain e where e: "decode (ordering_registry uni sc) rec = Inr e"
        "case e of CommandRequested c \<Rightarrow> (cq_topic c, cq_name c, cq_payload c) \<in>
            set (asked oid (order_cents p) (order_qty p) (course_after (order_cents p) (order_qty p) n))
          | OtherEvent n x \<Rightarrow> False | _ \<Rightarrow> True" by blast
      show thesis by (cases e) (use e placed that(2,4) st in auto)
    qed
  qed
qed

text \<open>Records of the other services, of orders on their courses.\<close>

lemma service_record:
  assumes "order_ok uni sc s oid" "clean {cat} T M w" "rec \<in> set (ms_all w)" "si_id (rec_stream rec) = oid"
    and dec: "\<And>cents qty k. course_at uni sc s oid cents qty k \<Longrightarrow>
      decode_all reg (stream_recs (ms_all w) \<lparr>si_category = cat, si_id = oid\<rparr>) = Inr (evs cents qty k)"
    and none: "evs 0 0 Unheard = []"
  obtains p n e where "on_course uni sc s oid p (course_after (order_cents p) (order_qty p) n)" "decode reg rec = Inr e"
    "e \<in> set (evs (order_cents p) (order_qty p) (course_after (order_cents p) (order_qty p) n))"
    "rec_stream rec = \<lparr>si_category = cat, si_id = oid\<rparr>"
proof -
  have st: "rec_stream rec = \<lparr>si_category = cat, si_id = oid\<rparr>"
    using assms(2-4) by (cases "rec_stream rec") (auto simp: clean_def)
  then have in_st: "rec \<in> set (stream_recs (ms_all w) \<lparr>si_category = cat, si_id = oid\<rparr>)"
    using assms(3) by (simp add: stream_recs_def)
  from assms(1) show thesis
  proof (cases rule: order_ok_course)
    case unplaced
    from dec[OF unplaced(2)] none in_st show thesis by (auto dest: decode_all_length)
  next
    case (placed p n)
    then have "course_at uni sc s oid (order_cents p) (order_qty p) (course_after (order_cents p) (order_qty p) n)"
      by (simp add: on_course_def)
    from decode_all_in[OF dec[OF this] in_st] placed st that show thesis by blast
  qed
qed

lemma course_streams:
  assumes "course_at uni sc s oid cents qty k"
  shows "decode_all billing_registry (stream_recs (ms_all (fst (sh_billing s))) \<lparr>si_category = ''payment'', si_id = oid\<rparr>) = Inr (payment_of oid cents k)"
    "decode_all stock_registry (stream_recs (ms_all (fst (sh_inventory s))) \<lparr>si_category = ''reservation'', si_id = oid\<rparr>) = Inr (reservation_of oid qty k)"
    "decode_all shipment_registry (stream_recs (ms_all (fst (sh_shipping s))) \<lparr>si_category = ''shipment'', si_id = oid\<rparr>) = Inr (shipment_of oid k)"
  using assms by (simp_all add: course_at_def)

text \<open>The facts an order has on the way: what they say, and the message they come in.\<close>

fun tells :: "string \<Rightarrow> int \<Rightarrow> int \<Rightarrow> course \<Rightarrow> fact \<Rightarrow> bool" where
  "tells oid cents qty k (PlacedFact e) \<longleftrightarrow> opv_order_id e = oid \<and> opv_cents e = cents \<and> opv_qty e = qty"
| "tells oid cents qty k (CapturedFact e) \<longleftrightarrow> pcv_order_id e = oid \<and> PaymentCaptured oid cents \<in> set (payment_of oid cents k)"
| "tells oid cents qty k (FailedFact e) \<longleftrightarrow> pfv_order_id e = oid \<and> (\<exists>r. PaymentFailed oid r \<in> set (payment_of oid cents k))"
| "tells oid cents qty k (ReservedFact e) \<longleftrightarrow> srv_order_id e = oid \<and> StockReserved oid qty \<in> set (reservation_of oid qty k)"
| "tells oid cents qty k (RejectedFact e) \<longleftrightarrow> sjv_order_id e = oid \<and> (\<exists>r. StockRejected oid r \<in> set (reservation_of oid qty k))"
| "tells oid cents qty k (DispatchedFact e) \<longleftrightarrow> sdv_order_id e = oid \<and> ShipmentDispatched oid \<in> set (shipment_of oid k)"

fun fact_id :: "fact \<Rightarrow> string" where
  "fact_id (PlacedFact e) = first_id ''order'' (opv_order_id e)"
| "fact_id (CapturedFact e) = first_id ''payment'' (pcv_order_id e)"
| "fact_id (FailedFact e) = first_id ''payment'' (pfv_order_id e)"
| "fact_id (ReservedFact e) = first_id ''reservation'' (srv_order_id e)"
| "fact_id (RejectedFact e) = first_id ''reservation'' (sjv_order_id e)"
| "fact_id (DispatchedFact e) = first_id ''shipment'' (sdv_order_id e)"

lemma unheard_streams [simp]:
  "payment_of oid cents Unheard = []" "reservation_of oid qty Unheard = []" "shipment_of oid Unheard = []"
  by (simp_all add: payment_of_def reservation_of_def shipment_of_def)

lemma tells_order: "tells oid cents qty k f \<Longrightarrow> fact_order f = oid"
  by (cases f) auto

text \<open>A fact is known to the instance, comes after its end, or is what its course waits for.\<close>

lemma tells_next:
  assumes "tells oid cents qty k f" "fact_id f \<notin> set (heard oid k)" "\<not> ended k"
  defines "k' \<equiv> next_course cents qty k" and "st \<equiv> (if k = Unheard then zero_fulfillment else \<lparr>fl_cents = cents, fl_qty = qty\<rparr>)"
  shows "heard oid k' = heard oid k @ [fact_id f] \<and> asked oid cents qty k' = asked oid cents qty k @ fst (workflow st f) \<and>
    ended k' = snd (workflow st f) \<and> payment_of oid cents k' = payment_of oid cents k \<and>
    reservation_of oid qty k' = reservation_of oid qty k \<and> shipment_of oid k' = shipment_of oid k \<and>
    fst (react st f) = \<lparr>fl_cents = cents, fl_qty = qty\<rparr> \<and> k' \<noteq> Unheard"
  using assms unfolding k'_def st_def
  by (cases f; cases k)
    (simp_all add: heard_def asked_def ended_def payment_of_def reservation_of_def shipment_of_def first_id_def fulfillment_defs
      capture_request_def reserve_request_def refund_request_def ship_request_def)

lemma first_payment:
  "e \<in> set (payment_of oid cents k) \<Longrightarrow> e \<noteq> PaymentRefunded oid \<Longrightarrow> \<exists>es. payment_of oid cents k = e # es \<and> e \<notin> set es"
  by (auto simp: payment_of_def split: if_splits)

lemma first_reservation: "e \<in> set (reservation_of oid qty k) \<Longrightarrow> \<exists>es. reservation_of oid qty k = e # es \<and> e \<notin> set es"
  by (auto simp: reservation_of_def split: if_splits)

lemma first_shipment: "e \<in> set (shipment_of oid k) \<Longrightarrow> \<exists>es. shipment_of oid k = e # es \<and> e \<notin> set es"
  by (auto simp: shipment_of_def split: if_splits)

lemma plain_published:
  assumes "clean cats T M w" "rec \<in> set (ms_all w)" "rec_stream rec = \<lparr>si_category = cat, si_id = oid\<rparr>" "message_id rec = first_id cat oid"
    and "list_all is_ascii oid" "list_all is_ascii cat" "cat \<noteq> ''saga.order_fulfillment''" "list_all is_ascii (ie_name ie)" "ie_version ie = 1"
  shows "plain_message T M (published rec ie)"
  using assms by (auto simp: plain_message_def published_def clean_def first_id_def is_ascii_def)

lemma placed_fact_of:
  assumes "order_placed_valid p"
  shows "fact_of (published rec (placed_fact p)) = Some (PlacedFact \<lparr>opv_order_id = id_value (op_id p), opv_customer_id = id_value (op_customer p),
    opv_cents = order_cents p, opv_currency = mo_currency (op_total p), opv_qty = order_qty p\<rparr>)"
  using placed_valid[OF assms] order_placed_v1_wire[of "\<lparr>opv_order_id = id_value (op_id p), opv_customer_id = id_value (op_customer p),
    opv_cents = order_cents p, opv_currency = mo_currency (op_total p), opv_qty = order_qty p\<rparr>"]
  by (simp add: fact_of_def published_def placed_fact_def order_placed_v1_event_def as_fact_def marshal_order_placed_v1_def id_string_def)

context shop_codec
begin

definition fact_told :: "shop \<Rightarrow> json message \<Rightarrow> bool" where
  "fact_told s m \<longleftrightarrow> (\<exists>oid p n f. on_course uni sc s oid p (course_after (order_cents p) (order_qty p) n) \<and> fact_of m = Some f \<and>
     tells oid (order_cents p) (order_qty p) (course_after (order_cents p) (order_qty p) n) f \<and> m_id m = fact_id f \<and> plain_message T M m)"

lemma ordering_fact:
  assumes "shop_inv uni sc T M s" "t \<in> set SagaTopics" "sent (od_relay (shop_ordering uni sc 0 fmempty)) (sh_ordering s) t m"
  shows "fact_told s m"
proof -
  obtain rec where r: "rec \<in> set (ms_all (sh_ordering s))" "m \<in> set (rl_out (od_relay (shop_ordering uni sc 0 fmempty)) t rec)"
    using assms(3) by (auto simp: sent_def)
  have c: "clean {''order'', ''saga.order_fulfillment''} T M (sh_ordering s)" using assms(1) by (simp add: shop_inv_def)
  from assms(1) r(1) refl[of "si_id (rec_stream rec)"] show ?thesis
  proof (cases rule: ordering_record)
    case (none x) with r ordering_out[OF none] show ?thesis by (simp add: own_event_def)
  next
    case (quiet e) with r ordering_out[OF quiet(1)] show ?thesis by auto
  next
    case (request c p n)
    with r ordering_out[OF request(1)] have "cq_topic c = t" by (auto split: if_splits)
    with asked_topics[OF request(4)] assms(2) show ?thesis by (auto simp: SagaTopics_def topic_defs)
  next
    case (placed p n)
    let ?oid = "si_id (rec_stream rec)"
    have m: "m = published rec (placed_fact p)" using r ordering_out[OF placed(1)] by (auto simp: own_event_def split: if_splits)
    have p: "id_value (op_id p) = ?oid" "order_placed_valid p" using placed(2) by (simp_all add: on_course_def)
    have "decode reg rec = Inr (OtherEvent ''ordering.order_placed'' (OrderPlaced p))" using placed(1) by (simp add: own_event_def)
    then have nm: "si_category (rec_stream rec) = ''order'' \<or> rec_stream rec = saga_stream_of ?oid"
      using c r(1) by (cases "rec_stream rec") (auto simp: clean_def saga_stream_of_def)
    have "message_id rec = si_category (rec_stream rec) @ ''/'' @ ?oid @ ''#'' @ itoa (rec_version rec)" by (simp add: message_id_def)
    with placed(3) nm have st: "rec_stream rec = \<lparr>si_category = ''order'', si_id = ?oid\<rparr>"
      by (cases "rec_stream rec") (auto simp: first_id_def saga_stream_of_def)
    have "plain_message T M m" unfolding m
      by (rule plain_published[OF c r(1) st placed(3)])
        (use placed_valid(1)[OF p(2)] p(1) in \<open>simp_all add: placed_fact_def order_placed_v1_event_def is_ascii_def\<close>)
    with placed_fact_of[OF p(2), of rec] p(1) placed m show ?thesis
      unfolding fact_told_def by (intro exI[of _ ?oid] exI[of _ p] exI[of _ n] exI) (auto simp: published_def)
  qed
qed

text \<open>The other services publish facts and nothing else, all on their own topic.\<close>

lemma service_fact:
  fixes evs :: "string \<Rightarrow> int \<Rightarrow> int \<Rightarrow> course \<Rightarrow> 'e list"
  assumes "shop_inv uni sc T M s" "clean {cat} T M w" "list_all is_ascii cat" "cat \<noteq> ''saga.order_fulfillment''" "sent r w t m"
    and dec: "\<And>oid cents qty k. course_at uni sc s oid cents qty k \<Longrightarrow>
      decode_all reg' (stream_recs (ms_all w) \<lparr>si_category = cat, si_id = oid\<rparr>) = Inr (evs oid cents qty k)"
    and none: "\<And>oid. evs oid 0 0 Unheard = []"
    and out: "\<And>rec e. decode reg' rec = Inr e \<Longrightarrow> rl_out r t rec = (if t = T' then [published rec (pub e)] else [])"
    and says: "\<And>rec e oid cents qty k. e \<in> set (evs oid cents qty k) \<Longrightarrow> in_int64 cents \<Longrightarrow> in_int64 qty \<Longrightarrow> utf8_fix oid = oid \<Longrightarrow>
      fact_of (published rec (pub e)) = None \<or>
      (\<exists>f es. fact_of (published rec (pub e)) = Some f \<and> tells oid cents qty k f \<and> fact_id f = first_id cat oid \<and>
         evs oid cents qty k = e # es \<and> e \<notin> set es \<and> list_all is_ascii (ie_name (pub e)) \<and> ie_version (pub e) = 1)"
  shows "t = T' \<and> (fact_of m = None \<or> fact_told s m)"
proof -
  obtain rec where r: "rec \<in> set (ms_all w)" "m \<in> set (rl_out r t rec)"
    using assms(5) by (auto simp: sent_def)
  let ?oid = "si_id (rec_stream rec)"
  have c: "order_ok uni sc s ?oid" using assms(1) by (simp add: shop_inv_def)
  obtain p n e where e: "on_course uni sc s ?oid p (course_after (order_cents p) (order_qty p) n)" "decode reg' rec = Inr e"
    "e \<in> set (evs ?oid (order_cents p) (order_qty p) (course_after (order_cents p) (order_qty p) n))"
    "rec_stream rec = \<lparr>si_category = cat, si_id = ?oid\<rparr>"
    by (rule service_record[OF c assms(2) r(1) refl, where evs = "evs ?oid", OF dec none])
  let ?k = "course_after (order_cents p) (order_qty p) n"
  have m: "t = T'" "m = published rec (pub e)" using r(2) out[OF e(2)] by (auto split: if_splits)
  have p: "order_placed_valid p" "id_value (op_id p) = ?oid" "course_at uni sc s ?oid (order_cents p) (order_qty p) ?k"
    using e(1) by (simp_all add: on_course_def)
  note v = placed_valid[OF p(1), unfolded p(2)]
  show ?thesis
  proof (cases "fact_of m = None")
    case False
    then obtain f es where f: "fact_of m = Some f" "tells ?oid (order_cents p) (order_qty p) ?k f" "fact_id f = first_id cat ?oid"
      "evs ?oid (order_cents p) (order_qty p) ?k = e # es" "e \<notin> set es" "list_all is_ascii (ie_name (pub e))" "ie_version (pub e) = 1"
      using says[OF e(3) v(4,6,3), of rec] False unfolding m(2) by blast
    have i: "message_id rec = first_id cat ?oid"
      by (rule first_event[OF clean_inv[OF assms(2)] dec[OF p(3), unfolded f(4)] r(1) e(4,2) f(5)])
    have "plain_message T M m" unfolding m(2)
      by (rule plain_published[OF assms(2) r(1) e(4) i v(1) assms(3,4) f(6,7)])
    moreover have "m_id m = fact_id f" using i f(3) by (simp add: m(2) published_def)
    ultimately show ?thesis using e(1) f(1,2) m(1) unfolding fact_told_def by blast
  qed (use m in simp)
qed

lemma billing_fact:
  assumes "shop_inv uni sc T M s" "sent (cs_relay (shop_billing 0 fmempty)) (fst (sh_billing s)) t m"
  shows "t = TopicBillingEvents \<and> (fact_of m = None \<or> fact_told s m)"
proof (rule service_fact[OF assms(1) _ _ _ assms(2), where evs = "\<lambda>oid cents qty. payment_of oid cents" and reg' = billing_registry])
  show "clean {''payment''} T M (fst (sh_billing s))" using assms(1) by (simp add: shop_inv_def)
next
  fix rec e oid cents qty k
  assume e: "e \<in> set (payment_of oid cents k)" "in_int64 cents" "utf8_fix oid = oid"
  then consider "e = PaymentCaptured oid cents" | "e = PaymentFailed oid ''amount exceeds capture limit''" | "e = PaymentRefunded oid"
    by (auto simp: payment_of_def split: if_splits)
  then show "fact_of (published rec (payment_fact e)) = None \<or>
      (\<exists>f es. fact_of (published rec (payment_fact e)) = Some f \<and> tells oid cents qty k f \<and> fact_id f = first_id ''payment'' oid \<and>
         payment_of oid cents k = e # es \<and> e \<notin> set es \<and> list_all is_ascii (ie_name (payment_fact e)) \<and> ie_version (payment_fact e) = 1)"
    by cases (use e first_payment[OF e(1)] published_facts(1-3)[where rec = rec and oid = oid] in
      \<open>auto simp: is_ascii_def payment_captured_v1_event_def payment_failed_v1_event_def\<close>)
qed (simp_all add: course_streams billing_out is_ascii_def)

lemma inventory_fact:
  assumes "shop_inv uni sc T M s" "sent (cs_relay (shop_inventory 0 fmempty)) (fst (sh_inventory s)) t m"
  shows "t = TopicInventoryEvents \<and> (fact_of m = None \<or> fact_told s m)"
proof (rule service_fact[OF assms(1) _ _ _ assms(2), where evs = "\<lambda>oid cents. reservation_of oid" and reg' = stock_registry])
  show "clean {''reservation''} T M (fst (sh_inventory s))" using assms(1) by (simp add: shop_inv_def)
next
  fix rec e oid cents qty k
  assume e: "e \<in> set (reservation_of oid qty k)" "in_int64 qty" "utf8_fix oid = oid"
  then consider "e = StockReserved oid qty" | "e = StockRejected oid ''insufficient stock''"
    by (auto simp: reservation_of_def split: if_splits)
  then show "fact_of (published rec (stock_fact e)) = None \<or>
      (\<exists>f es. fact_of (published rec (stock_fact e)) = Some f \<and> tells oid cents qty k f \<and> fact_id f = first_id ''reservation'' oid \<and>
         reservation_of oid qty k = e # es \<and> e \<notin> set es \<and> list_all is_ascii (ie_name (stock_fact e)) \<and> ie_version (stock_fact e) = 1)"
    by cases (use e first_reservation[OF e(1)] published_facts(4,5)[where rec = rec and oid = oid] in
      \<open>auto simp: is_ascii_def stock_reserved_v1_event_def stock_rejected_v1_event_def\<close>)
qed (simp_all add: course_streams inventory_out is_ascii_def)

lemma shipping_fact:
  assumes "shop_inv uni sc T M s" "sent (cs_relay (shop_shipping 0 fmempty)) (fst (sh_shipping s)) t m"
  shows "t = TopicShippingEvents \<and> (fact_of m = None \<or> fact_told s m)"
proof (rule service_fact[OF assms(1) _ _ _ assms(2), where evs = "\<lambda>oid cents qty. shipment_of oid" and reg' = shipment_registry])
  show "clean {''shipment''} T M (fst (sh_shipping s))" using assms(1) by (simp add: shop_inv_def)
next
  fix rec e oid cents qty k
  assume e: "e \<in> set (shipment_of oid k)" "utf8_fix oid = oid"
  then have "e = ShipmentDispatched oid" by (auto simp: shipment_of_def split: if_splits)
  then show "fact_of (published rec (shipment_fact e)) = None \<or>
      (\<exists>f es. fact_of (published rec (shipment_fact e)) = Some f \<and> tells oid cents qty k f \<and> fact_id f = first_id ''shipment'' oid \<and>
         shipment_of oid k = e # es \<and> e \<notin> set es \<and> list_all is_ascii (ie_name (shipment_fact e)) \<and> ie_version (shipment_fact e) = 1)"
    using e first_shipment[OF e(1)] published_facts(6)[where rec = rec and oid = oid]
    by (auto simp: is_ascii_def shipment_dispatched_v1_event_def)
qed (simp_all add: course_streams shipping_out is_ascii_def)

lemma fact_out:
  assumes "shop_inv uni sc T M s" "t \<in> set SagaTopics" "out uni sc s t m"
  shows "fact_of m = None \<or> fact_told s m"
  using assms ordering_fact billing_fact inventory_fact shipping_fact unfolding out_def by metis

text \<open>And on the command topics there is what the saga asked for.\<close>

lemma request_out:
  assumes "shop_inv uni sc T M s" "t \<in> {TopicBillingCommands, TopicInventoryCommands, TopicShippingCommands}" "out uni sc s t m"
  obtains rec c oid p n where "rec \<in> set (ms_all (sh_ordering s))" "decode reg rec = Inr (CommandRequested c)" "cq_topic c = t"
    "m = command_message rec c" "rec_stream rec = saga_stream_of oid" "on_course uni sc s oid p (course_after (order_cents p) (order_qty p) n)"
    "(t, cq_name c, cq_payload c) \<in> set (asked oid (order_cents p) (order_qty p) (course_after (order_cents p) (order_qty p) n))"
proof -
  have "sent (od_relay (shop_ordering uni sc 0 fmempty)) (sh_ordering s) t m"
    using assms(2,3) billing_fact[OF assms(1), of t m] inventory_fact[OF assms(1), of t m] shipping_fact[OF assms(1), of t m]
    unfolding out_def by (auto simp: topic_defs)
  then obtain rec where r: "rec \<in> set (ms_all (sh_ordering s))" "m \<in> set (rl_out (od_relay (shop_ordering uni sc 0 fmempty)) t rec)"
    by (auto simp: sent_def)
  from assms(1) r(1) refl[of "si_id (rec_stream rec)"] show thesis
  proof (cases rule: ordering_record)
    case (none x) with r ordering_out[OF none] show ?thesis by (simp add: own_event_def)
  next
    case (quiet e) with r ordering_out[OF quiet(1)] show ?thesis by auto
  next
    case (placed p n) with r ordering_out[OF placed(1)] assms(2) show ?thesis by (auto simp: own_event_def topic_defs split: if_splits)
  next
    case (request c p n)
    with r ordering_out[OF request(1)] have "cq_topic c = t" "m = command_message rec c" by (auto split: if_splits)
    with request r(1) that show thesis by blast
  qed
qed

end

end
