(* ===== verification/ShopKeep.thy ===== *)
theory ShopKeep
  imports ShopOut
begin

text \<open>
  The ordering service's steps keep the invariant, commands and deliveries to the saga alike; an order
  moves at most to its next course, and a delivery of what its course waits for takes it there.
\<close>

section \<open>What a step leaves alone\<close>

lemma saga_at_same:
  "stream_recs (ms_all w') (saga_stream_of oid) = stream_recs (ms_all w) (saga_stream_of oid) \<Longrightarrow>
   saga_at uni sc w' oid ids cmds fin st = saga_at uni sc w oid ids cmds fin st"
  by (simp add: saga_at_def)

lemma order_ok_same:
  assumes "\<And>cat. cat \<in> {''order'', ''saga.order_fulfillment''} \<Longrightarrow>
      stream_recs (ms_all (sh_ordering s')) \<lparr>si_category = cat, si_id = oid\<rparr> = stream_recs (ms_all (sh_ordering s)) \<lparr>si_category = cat, si_id = oid\<rparr>"
    and "stream_recs (ms_all (fst (sh_billing s'))) \<lparr>si_category = ''payment'', si_id = oid\<rparr> = stream_recs (ms_all (fst (sh_billing s))) \<lparr>si_category = ''payment'', si_id = oid\<rparr>"
    and "stream_recs (ms_all (fst (sh_inventory s'))) \<lparr>si_category = ''reservation'', si_id = oid\<rparr> = stream_recs (ms_all (fst (sh_inventory s))) \<lparr>si_category = ''reservation'', si_id = oid\<rparr>"
    and "stream_recs (ms_all (fst (sh_shipping s'))) \<lparr>si_category = ''shipment'', si_id = oid\<rparr> = stream_recs (ms_all (fst (sh_shipping s))) \<lparr>si_category = ''shipment'', si_id = oid\<rparr>"
  shows "course_at uni sc s' oid = course_at uni sc s oid" "order_at uni sc s' oid = order_at uni sc s oid"
    "order_ok uni sc s' oid = order_ok uni sc s oid" "on_course uni sc s' oid = on_course uni sc s oid"
proof -
  have c: "course_at uni sc s' oid = course_at uni sc s oid"
    by (intro ext) (use assms(1)[of "''saga.order_fulfillment''"] assms(2-4) saga_at_same[of "sh_ordering s'" oid "sh_ordering s"]
      in \<open>simp add: course_at_def saga_stream_of_def\<close>)
  moreover have o: "order_at uni sc s' oid = order_at uni sc s oid"
    by (intro ext) (use assms(1)[of "''order''"] in \<open>simp add: order_at_def\<close>)
  ultimately show "course_at uni sc s' oid = course_at uni sc s oid" "order_at uni sc s' oid = order_at uni sc s oid" by blast+
  show "order_ok uni sc s' oid = order_ok uni sc s oid" unfolding order_ok_def c o by (rule refl)
  show "on_course uni sc s' oid = on_course uni sc s oid" by (intro ext) (simp add: on_course_def c o)
qed

lemma slashless:
  assumes "clean cats T M w" "r \<in> set (ms_all w)" "cats \<subseteq> {''order'', ''saga.order_fulfillment'', ''payment'', ''reservation'', ''shipment''}"
  shows "CHR ''/'' \<notin> set (si_category (rec_stream r))"
  using assms by (auto simp: clean_def subset_iff)

lemma inv_ordering:
  assumes inv: "shop_inv uni sc T M s" and c: "clean {''order'', ''saga.order_fulfillment''} T M w'"
    and new: "ms_all w' = ms_all (sh_ordering s) @ new" "\<forall>r\<in>set new. rec_stream r = \<lparr>si_category = cat, si_id = oid\<rparr>"
    and ok: "order_ok uni sc (s\<lparr>sh_ordering := w'\<rparr>) oid"
  shows "shop_inv uni sc T M (s\<lparr>sh_ordering := w'\<rparr>)"
proof -
  let ?s = "s\<lparr>sh_ordering := w'\<rparr>"
  have "order_ok uni sc ?s o'" for o'
  proof (cases "o' = oid")
    case False
    then have "stream_recs (ms_all w') \<lparr>si_category = x, si_id = o'\<rparr> = stream_recs (ms_all (sh_ordering s)) \<lparr>si_category = x, si_id = o'\<rparr>" for x
      using new by (auto simp: stream_recs_def filter_empty_conv)
    then have "order_ok uni sc ?s o' = order_ok uni sc s o'" by (intro order_ok_same(3)) simp_all
    with inv show ?thesis by (simp add: shop_inv_def)
  qed (use ok in simp)
  moreover have "marks_ok uni sc w' topic x v" if "marks_ok uni sc (sh_ordering s) topic x v" for topic x v
    by (rule marks_ok_ordering[OF that clean_inv[OF c] new(1)]) (use slashless[OF c] in simp)
  ultimately show ?thesis using inv c by (simp add: shop_inv_def)
qed

section \<open>From course to course\<close>

text \<open>The streams tell an order's placement and its course.\<close>

lemma course_unique:
  assumes "course_at uni sc s oid cents qty k" "course_at uni sc s oid cents qty k'" shows "k = k'"
proof -
  have "heard oid k = heard oid k'" using assms by (auto simp: course_at_def saga_at_def)
  moreover have "payment_of oid cents k = payment_of oid cents k'" "reservation_of oid qty k = reservation_of oid qty k'"
    "shipment_of oid k = shipment_of oid k'" using assms by (auto simp: course_at_def)
  ultimately show ?thesis
    by (cases k; cases k') (simp_all add: heard_def payment_of_def reservation_of_def shipment_of_def)
qed

lemma on_course_unique:
  assumes "on_course uni sc s oid p k" "on_course uni sc s oid p' k'" shows "p = p' \<and> k = k'"
proof -
  have p: "p = p'" using assms by (auto simp: on_course_def order_at_def placed_as_def own_event_def)
  with assms course_unique show ?thesis unfolding on_course_def by blast
qed

text \<open>Orders stay on their courses or take the next one; none is lost, changed or goes back.\<close>

definition advances :: "(string \<Rightarrow> string) \<Rightarrow> saga_codec \<Rightarrow> shop \<Rightarrow> shop \<Rightarrow> bool" where
  "advances uni sc s s' \<longleftrightarrow> (\<forall>oid p k. on_course uni sc s oid p k \<longrightarrow>
     on_course uni sc s' oid p k \<or> on_course uni sc s' oid p (next_course (order_cents p) (order_qty p) k))"

lemma advances_refl [simp]: "advances uni sc s s"
  by (simp add: advances_def)

lemma advancesI:
  assumes "\<And>o'. o' \<noteq> oid \<Longrightarrow> on_course uni sc s' o' = on_course uni sc s o'"
    and "on_course uni sc s oid p k" "on_course uni sc s' oid p k'" "k' \<in> {k, next_course (order_cents p) (order_qty p) k}"
  shows "advances uni sc s s'"
  unfolding advances_def
proof (intro allI impI)
  fix o' p' k1 assume a: "on_course uni sc s o' p' k1"
  show "on_course uni sc s' o' p' k1 \<or> on_course uni sc s' o' p' (next_course (order_cents p') (order_qty p') k1)"
  proof (cases "o' = oid")
    case True
    with on_course_unique[OF assms(2)] a have "p' = p" "k1 = k" by auto
    with True assms(3,4) show ?thesis by auto
  qed (use a assms(1) in simp)
qed

section \<open>Orders\<close>

lemma course_unheard: "course_at uni sc s oid cents qty Unheard \<longleftrightarrow> course_at uni sc s oid cents' qty' Unheard"
  by (simp add: course_at_def heard_def asked_def)

lemma orders_served_inv:
  assumes "shop_inv uni sc T M s" shows "orders.served_inv uni sc (sh_ordering s) {}"
  using assms by (fastforce simp: orders.served_inv_def orders.stream_of_def shop_inv_def clean_def order_ok_def order_at_def)

lemma orders_keep:
  assumes "shop_inv uni sc T M s" "ordering_ok c"
    and "serve (new_orders (mem_ops now) (ordering_registry uni sc) sc) md (ordering_decide uni) (ordering_key uni) (sh_ordering s) c = (w', r)"
  shows "\<exists>es. decode_all (ordering_registry uni sc) (stream_recs (ms_all w') \<lparr>si_category = ''order'', si_id = oid\<rparr>) = Inr es \<and> order_history oid es"
proof -
  let ?rp = "new_orders (mem_ops 0) (ordering_registry uni sc) sc" and ?w = "sh_ordering s"
  have at: "rp_at ?rp now = new_orders (mem_ops now) (ordering_registry uni sc) sc" by simp
  have inv: "orders.served_inv uni sc ?w {}" by (rule orders_served_inv[OF assms(1)])
  obtain lr where l: "repo_load (rp_at ?rp now) ?w (ordering_key uni c) = (?w, lr)" by (simp add: repo_load_def mem_ops_def)
  have "\<exists>A. orders.served_inv uni sc w' A"
  proof (cases "ordering_decide uni c lr")
    case (Inl e)
    with l assms(3) have "w' = ?w" unfolding at[symmetric] by (simp add: serve_def)
    with inv show ?thesis by blast
  next
    case (Inr a)
    with l have d: "ordering_decide uni c (snd (repo_load (rp_at ?rp now) ?w (ordering_key uni c))) = Inr a" by simp
    note i = orders.served_inv_decides[OF inv assms(2) d]
    obtain pos a' where "repo_save (rp_at ?rp now) md None ?w (ordering_key uni c) a = (w', pos, a', r)"
      using assms(3) l Inr unfolding at[symmetric] by (auto simp: serve_def split: prod.splits)
    from orders.served_inv_saves[OF i _ this] show ?thesis by blast
  qed
  then show ?thesis by (auto simp: orders.served_inv_def orders.stream_of_def)
qed

lemma inv_orders:
  assumes inv: "shop_inv uni sc T M s" and ok: "ordering_ok c" and m: "now \<in> T" "md \<in> M"
    and sv: "serve (new_orders (mem_ops now) (ordering_registry uni sc) sc) md (ordering_decide uni) (ordering_key uni) (sh_ordering s) c = (w', r)"
  shows "shop_inv uni sc T M (s\<lparr>sh_ordering := w'\<rparr>) \<and> advances uni sc s (s\<lparr>sh_ordering := w'\<rparr>)"
proof -
  let ?oid = "ordering_key uni c" and ?s = "s\<lparr>sh_ordering := w'\<rparr>" and ?w = "sh_ordering s" and ?reg = "ordering_registry uni sc"
  have c: "clean {''order'', ''saga.order_fulfillment''} T M ?w" using inv by (simp add: shop_inv_def)
  have g: "grows \<lparr>si_category = ''order'', si_id = ?oid\<rparr> now md ?w w'"
    using serve_grows[of ?w "new_orders (mem_ops 0) ?reg sc" now md "ordering_decide uni" "ordering_key uni" c w' r] sv clean_inv[OF c] by simp
  then obtain new where new: "ms_all w' = ms_all ?w @ new" "\<forall>r\<in>set new. rec_stream r = \<lparr>si_category = ''order'', si_id = ?oid\<rparr>"
    by (auto simp: grows_def)
  have c': "clean {''order'', ''saga.order_fulfillment''} T M w'" by (rule clean_grows[OF c g]) (use m in simp_all)
  have same: "course_at uni sc ?s oid cents qty k = course_at uni sc s oid cents qty k" for oid cents qty k
    using saga_at_same[of w' oid ?w] grows_elsewhere[OF g, of "saga_stream_of oid"] by (simp add: course_at_def saga_stream_of_def)
  have grow: "\<exists>es'. order_at uni sc ?s oid (es @ es') \<and> order_history oid (es @ es')" if es: "order_at uni sc s oid es" for oid es
  proof -
    obtain es1 where e1: "decode_all ?reg (stream_recs (ms_all w') \<lparr>si_category = ''order'', si_id = oid\<rparr>) = Inr es1" "order_history oid es1"
      using orders_keep[OF inv ok sv] by blast
    with es new(1) have "\<exists>es'. es1 = es @ es'"
      by (auto simp: order_at_def stream_recs_append decode_all_append split: sum.splits)
    with e1 show ?thesis by (auto simp: order_at_def)
  qed
  have stays: "on_course uni sc ?s oid p k" if "on_course uni sc s oid p k" for oid p k
  proof -
    from that obtain rs where rs: "order_at uni sc s oid (placed_as p rs)" by (auto simp: on_course_def)
    from grow[OF this] obtain es' where es': "order_at uni sc ?s oid (placed_as p rs @ es')" "order_history oid (placed_as p rs @ es')" by blast
    then obtain rs' where "placed_as p rs @ es' = placed_as p rs'" by (auto simp: order_history_def placed_as_def own_event_def)
    with es' that same show ?thesis by (auto simp: on_course_def)
  qed
  have "order_ok uni sc ?s ?oid"
  proof -
    have "order_ok uni sc s ?oid" using inv by (simp add: shop_inv_def)
    then show ?thesis
    proof (cases rule: order_ok_course)
      case unplaced
      from grow[OF unplaced(1)] obtain es where es: "order_at uni sc ?s ?oid es" "order_history ?oid es" by auto
      show ?thesis
      proof (cases "placement es")
        case None
        with es unplaced same show ?thesis by (auto simp: order_ok_def)
      next
        case (Some p)
        have "course_at uni sc ?s ?oid (order_cents p) (order_qty p) (course_after (order_cents p) (order_qty p) 0)"
          using unplaced(2) course_unheard[of uni sc s ?oid "order_cents p" "order_qty p" 0 0] by (simp add: same)
        then have "\<exists>n. course_at uni sc ?s ?oid (order_cents p) (order_qty p) (course_after (order_cents p) (order_qty p) n)" by blast
        with es Some show ?thesis unfolding order_ok_def by (intro exI[of _ es]) simp
      qed
    next
      case (placed p n)
      from stays[OF placed] have "on_course uni sc ?s ?oid p (course_after (order_cents p) (order_qty p) n)" by simp
      then obtain rs where rs: "order_at uni sc ?s ?oid (placed_as p rs)"
        "course_at uni sc ?s ?oid (order_cents p) (order_qty p) (course_after (order_cents p) (order_qty p) n)" by (auto simp: on_course_def)
      obtain es where "order_at uni sc ?s ?oid es" "order_history ?oid es"
        using orders_keep[OF inv ok sv, of ?oid] by (auto simp: order_at_def)
      with rs show ?thesis by (auto simp: order_ok_def order_at_def)
    qed
  qed
  with inv_ordering[OF inv c' new] stays show ?thesis by (auto simp: advances_def)
qed

section \<open>Deliveries to the saga\<close>

lemma order_ok_on_course:
  "on_course uni sc s oid p (course_after (order_cents p) (order_qty p) n) \<Longrightarrow> order_history oid es \<Longrightarrow> order_at uni sc s oid es \<Longrightarrow> order_ok uni sc s oid"
  by (auto simp: on_course_def order_ok_def order_at_def)

context shop_codec
begin

text \<open>Delivering a fact that an order's course waits for takes it to the next course.\<close>

lemma fact_moves:
  fixes now md
  assumes inv: "shop_inv uni sc T M s" and amb: "amb \<in> M"
    and f: "on_course uni sc s oid p k" "k = course_after (order_cents p) (order_qty p) n" "fact_of m = Some f"
      "tells oid (order_cents p) (order_qty p) k f" "m_id m = fact_id f" "plain_message T M m"
    and new: "fact_id f \<notin> set (heard oid k)" "\<not> ended k"
  shows "\<exists>w'. saga_handler (od_saga (shop_ordering uni sc now md)) amb (sh_ordering s) m = (w', None) \<and>
    shop_inv uni sc T M (s\<lparr>sh_ordering := w'\<rparr>) \<and>
    on_course uni sc (s\<lparr>sh_ordering := w'\<rparr>) oid p (next_course (order_cents p) (order_qty p) k) \<and>
    advances uni sc s (s\<lparr>sh_ordering := w'\<rparr>)"
proof -
  let ?c = "order_cents p" and ?q = "order_qty p" and ?w = "sh_ordering s"
  let ?st = "if k = Unheard then zero_fulfillment else \<lparr>fl_cents = ?c, fl_qty = ?q\<rparr>" and ?k = "next_course ?c ?q k"
  have p: "order_placed_valid p" "id_value (op_id p) = oid" "course_at uni sc s oid ?c ?q k" "\<exists>rs. order_at uni sc s oid (placed_as p rs)"
    using f(1) by (simp_all add: on_course_def)
  note v = placed_valid[OF p(1), unfolded p(2)]
  note nx = tells_next[OF f(4) new]
  have c: "clean {''order'', ''saga.order_fulfillment''} T M ?w" "order_ok uni sc s oid" using inv by (auto simp: shop_inv_def)
  have "saga_at uni sc ?w oid (heard oid k) (asked oid ?c ?q k) False ?st" using course_saga[OF p(3)] new(2) by simp
  from saga_moves[OF clean_inv[OF c(1)] this f(3) tells_order[OF f(4)] v(2,1) f(6) amb, of now md] new(1) f(5)
  obtain w' new' where w': "saga_handler (od_saga (shop_ordering uni sc now md)) amb ?w m = (w', None)" "mem_inv w'"
    "ms_all w' = ms_all ?w @ new'" "\<forall>r\<in>set new'. rec_stream r = saga_stream_of oid \<and> rec_meta r \<in> M"
    "saga_at uni sc w' oid (heard oid k @ [m_id m]) (asked oid ?c ?q k @ fst (workflow ?st f)) (snd (workflow ?st f)) (fst (react ?st f))"
    by auto
  let ?s = "s\<lparr>sh_ordering := w'\<rparr>"
  have at: "course_at uni sc ?s oid ?c ?q ?k"
    using w'(5) nx p(3) f(5) by (simp add: course_at_def)
  have order: "order_at uni sc ?s oid = order_at uni sc s oid"
    by (intro ext) (use w'(3,4) in \<open>auto simp: order_at_def stream_recs_append saga_stream_of_def stream_recs_def filter_empty_conv\<close>)
  have on: "on_course uni sc ?s oid p ?k" using p at by (simp add: on_course_def order)
  obtain es where es: "order_at uni sc s oid es" "order_history oid es" using c(2) by (auto simp: order_ok_def)
  have "on_course uni sc ?s oid p (course_after ?c ?q (Suc n))" using on f(2) by simp
  then have "order_ok uni sc ?s oid" by (rule order_ok_on_course[OF _ es(2)]) (use es(1) order in simp)
  moreover have "clean {''order'', ''saga.order_fulfillment''} T M w'"
    using c(1) w'(2-4) by (auto simp: clean_def saga_stream_of_def)
  ultimately have "shop_inv uni sc T M ?s"
    using inv_ordering[OF inv _ w'(3), of "''saga.order_fulfillment''" oid] w'(4) by (simp add: saga_stream_of_def)
  moreover have "on_course uni sc ?s o' = on_course uni sc s o'" if "o' \<noteq> oid" for o'
    by (rule order_ok_same(4))
      (use w'(3,4) that in \<open>auto simp: stream_recs_append saga_stream_of_def stream_recs_def filter_empty_conv\<close>)
  then have "advances uni sc s ?s" by (rule advancesI[OF _ f(1) on]) simp_all
  ultimately show ?thesis using w'(1) on by blast
qed

text \<open>Any other delivery is acknowledged and leaves the store alone.\<close>

lemma fact_stays:
  fixes now md
  assumes "shop_inv uni sc T M s" "course_at uni sc s oid cents qty k" "fact_of m = Some f" "tells oid cents qty k f" "m_id m = fact_id f"
    and "fact_id f \<in> set (heard oid k) \<or> ended k"
  shows "saga_handler (od_saga (shop_ordering uni sc now md)) amb (sh_ordering s) m = (sh_ordering s, None)"
proof (rule saga_stays)
  show "mem_inv (sh_ordering s)" using assms(1) by (auto simp: shop_inv_def dest: clean_inv)
  show "fact_of m = None \<or> (\<exists>f ids cmds fin st. fact_of m = Some f \<and> saga_at uni sc (sh_ordering s) (fact_order f) ids cmds fin st \<and>
      (m_id m \<in> set ids \<or> fin))"
    using assms(3-6) tells_order[OF assms(4)] course_saga[OF assms(2)] by auto
qed

lemma inv_fulfils:
  assumes inv: "shop_inv uni sc T M s" and t: "t \<in> set SagaTopics" "out uni sc s t m" and amb: "amb \<in> M"
    and h: "saga_handler (od_saga (shop_ordering uni sc now md)) amb (sh_ordering s) m = (w', r)"
  shows "shop_inv uni sc T M (s\<lparr>sh_ordering := w'\<rparr>) \<and> advances uni sc s (s\<lparr>sh_ordering := w'\<rparr>)"
proof -
  from fact_out[OF inv t] show ?thesis
  proof
    assume "fact_of m = None"
    then have "saga_handler (od_saga (shop_ordering uni sc now md)) amb (sh_ordering s) m = (sh_ordering s, None)"
      using inv by (intro saga_stays) (auto simp: shop_inv_def dest: clean_inv)
    with h have "w' = sh_ordering s" by simp
    with inv show ?thesis by simp
  next
    assume "fact_told s m"
    then obtain oid p n f where f: "on_course uni sc s oid p (course_after (order_cents p) (order_qty p) n)" "fact_of m = Some f"
      "tells oid (order_cents p) (order_qty p) (course_after (order_cents p) (order_qty p) n) f" "m_id m = fact_id f" "plain_message T M m"
      by (auto simp: fact_told_def)
    show ?thesis
    proof (cases "fact_id f \<in> set (heard oid (course_after (order_cents p) (order_qty p) n)) \<or> ended (course_after (order_cents p) (order_qty p) n)")
      case True
      have "course_at uni sc s oid (order_cents p) (order_qty p) (course_after (order_cents p) (order_qty p) n)"
        using f(1) by (simp add: on_course_def)
      from fact_stays[OF inv this f(2-4) True, of now md amb] h have "w' = sh_ordering s" by simp
      with inv show ?thesis by simp
    next
      case False
      from fact_moves[OF inv amb f(1) refl f(2-5), of now md] False h show ?thesis by auto
    qed
  qed
qed

end

section \<open>Commands to the services\<close>

text \<open>What a consumer does with a request it can carry out: the effect, and the mark unless it is there.\<close>

lemma consumer_run:
  assumes "cn_dedup c = svc_dedup" "decode_command (cn_registry c) m = Inr cmd" "bus_handlers (cn_bus c) (nm cmd) = Some h"
    and "bus_middleware (cn_bus c) = [id]" "h (w, d) cmd = ((w1, d), None)" "mem_processed d (m_id m) \<Longrightarrow> w1 = w"
  shows "consumer_handler ctx nm c (w, d) m = ((w1, if mem_processed d (m_id m) then d else mem_mark d (m_id m)), None)"
proof (cases "mem_processed d (m_id m)")
  case True
  with consumer_marked[OF assms(1) True, of ctx nm w] assms(6) show ?thesis by simp
next
  case False
  have "consumer_handler ctx nm c (w, d) m = ((w1, mem_mark d (m_id m)), None)"
    by (rule consumer_done[where h = h and cmd = cmd]) (use assms(1-5) False in simp_all)
  with False show ?thesis by simp
qed

text \<open>A step of a service on one order's stream.\<close>

lemma service_keeps:
  fixes put :: "svc_world \<Rightarrow> shop \<Rightarrow> shop"
  assumes inv: "marks_ok uni sc w topic cat (l, d)" "clean {cat} T M l" "mem_inv w"
    "\<forall>r\<in>set (ms_all w). CHR ''/'' \<notin> set (si_category (rec_stream r))"
    and g: "grows \<lparr>si_category = cat, si_id = oid\<rparr> now md l l'" "now \<in> T" "md \<in> M"
    and req: "rec \<in> set (ms_all w)" "rec_stream rec = saga_stream_of oid" "decode (ordering_registry uni sc) rec = Inr (CommandRequested c)"
    and eff: "effects (cq_name c) \<le> length (stream_recs (ms_all l') \<lparr>si_category = cat, si_id = oid\<rparr>)"
    and d: "d' \<in> {d, mem_mark d (message_id rec)}"
  shows "clean {cat} T M l' \<and> marks_ok uni sc w topic cat (l', d')"
proof -
  have m: "marks_ok uni sc w topic cat (l', d)" using marks_ok_store[OF inv(1), of _ now md l'] g(1) by simp
  then have "marks_ok uni sc w topic cat (l', mem_mark d (message_id rec))"
    by (rule marks_ok_mark[OF _ inv(3,4) req(1,3)]) (use eff req(2) in \<open>simp add: saga_stream_of_def\<close>)
  with m d clean_grows[OF inv(2) g(1) _ g(2,3)] show ?thesis by auto
qed

end
