(* ===== verification/ShopEnd.thy ===== *)
theory ShopEnd
  imports ShopKeep
begin

text \<open>
  The consumers' steps, as one locale with an interpretation for each of the three services, and the
  theorems about every run of the shop.
\<close>

section \<open>Which course a course can be\<close>

lemma course_bounds:
  assumes "k = course_after cents qty n"
  shows "(k \<in> {Declined, Closed} \<longrightarrow> CaptureLimitCents < cents) \<and> (k \<notin> {Unheard, Asked, Declined, Closed} \<longrightarrow> cents \<le> CaptureLimitCents) \<and>
    (k \<in> {Short, Refunding, Refunded} \<longrightarrow> AvailableStock < qty) \<and> (k \<in> {Held, Shipping, Sent, Completed} \<longrightarrow> qty \<le> AvailableStock)"
  using assms
proof (induction n arbitrary: k)
  case (Suc n)
  from Suc.IH[OF refl] Suc.prems show ?case by (cases "course_after cents qty n") (auto split: if_splits)
qed simp

lemma course_histories:
  assumes "k = course_after cents qty n" "utf8_fix oid = oid" "0 < cents" "0 < qty"
  shows "payment_history oid (payment_of oid cents k)" "reservation_history oid (reservation_of oid qty k)" "shipment_history oid (shipment_of oid k)"
  using course_bounds[OF assms(1)] assms(2-4)
  by (auto simp: payment_history_def Let_def payment_of_def reservation_history_def reservation_of_def shipment_history_def shipment_of_def)

text \<open>The request a course waits for a service to carry out.\<close>

definition due :: "string \<Rightarrow> course \<Rightarrow> bool" where
  "due name k \<longleftrightarrow> name = ''billing.capture_payment'' \<and> k = Asked \<or> name = ''billing.refund_payment'' \<and> k = Refunding \<or>
     name = ''inventory.reserve_stock'' \<and> k = Reserving \<or> name = ''shipping.create_shipment'' \<and> k = Shipping"

lemma due_next:
  assumes "due name k"
  shows "heard oid (next_course cents qty k) = heard oid k" "asked oid cents qty (next_course cents qty k) = asked oid cents qty k"
    "ended (next_course cents qty k) = ended k" "next_course cents qty k = Unheard \<longleftrightarrow> k = Unheard"
  using assms by (auto simp: due_def heard_def asked_def ended_def split: if_splits)

definition course_step :: "string \<Rightarrow> int \<Rightarrow> int \<Rightarrow> course \<Rightarrow> course" where
  "course_step name cents qty k = (if due name k then next_course cents qty k else k)"

lemma course_step_after: "\<exists>n'. course_step name cents qty (course_after cents qty n) = course_after cents qty n'"
  by (metis course_after_simps(2) course_step_def)

lemma course_step_same:
  "heard oid (course_step name cents qty k) = heard oid k" "asked oid cents qty (course_step name cents qty k) = asked oid cents qty k"
  "ended (course_step name cents qty k) = ended k" "course_step name cents qty k = Unheard \<longleftrightarrow> k = Unheard"
  using due_next by (auto simp: course_step_def)

section \<open>Billing\<close>

lemma asked_billing:
  assumes "(TopicBillingCommands, name, p) \<in> set (asked oid cents qty k)"
  shows "name = ''billing.capture_payment'' \<and> p = JObj [(''order_id'', jstr oid), (''cents'', JInt cents)] \<and> k \<noteq> Unheard \<or>
    name = ''billing.refund_payment'' \<and> p = JObj [(''order_id'', jstr oid)] \<and> k \<in> {Refunding, Refunded}"
  using assms by (auto simp: asked_def capture_request_def reserve_request_def refund_request_def ship_request_def topic_defs split: if_splits)

lemma decode_snoc:
  assumes "decode_all reg (stream_recs (ms_all w) st) = Inr es" "appends_event reg st e w w'"
  shows "decode_all reg (stream_recs (ms_all w') st) = Inr (es @ [e])"
  using assms by (auto simp: appends_event_def stream_recs_append decode_all_append) (simp add: stream_recs_def)

lemma billing_handles:
  assumes "mem_inv w" "decode_all billing_registry (stream_recs (ms_all w) \<lparr>si_category = ''payment'', si_id = oid\<rparr>) = Inr (payment_of oid cents k)"
    and k: "k = course_after cents qty n" "utf8_fix oid = oid" "0 < cents" "0 < qty" "in_int64 cents"
    and req: "(TopicBillingCommands, m_type m, m_payload m) \<in> set (asked oid cents qty k)"
  shows "\<exists>cmd h w'. decode_command (cn_registry (cs_consumer (shop_billing now md))) m = Inr cmd \<and>
    bus_handlers (cn_bus (cs_consumer (shop_billing now md))) (billing_command_name cmd) = Some h \<and> h (w, d) cmd = ((w', d), None) \<and>
    grows \<lparr>si_category = ''payment'', si_id = oid\<rparr> now md w w' \<and>
    decode_all billing_registry (stream_recs (ms_all w') \<lparr>si_category = ''payment'', si_id = oid\<rparr>) = Inr (payment_of oid cents (course_step (m_type m) cents qty k)) \<and>
    (\<not> due (m_type m) k \<longrightarrow> w' = w)"
proof -
  note hist = course_histories(1)[OF k(1-4)]
  have rp: "rp_at (new_payments (mem_ops 0) billing_registry) now = new_payments (mem_ops now) billing_registry" by simp
  have g: "grows \<lparr>si_category = ''payment'', si_id = oid\<rparr> now md w w'"
    if "serve (new_payments (mem_ops now) billing_registry) md billing_decide billing_key w cmd = (w', r)" "billing_key cmd = oid" for cmd w' r
    using serve_grows[OF assms(1) that(1)[folded rp]] that(2) by simp
  from asked_billing[OF req] show ?thesis
  proof
    assume m: "m_type m = ''billing.capture_payment'' \<and> m_payload m = JObj [(''order_id'', jstr oid), (''cents'', JInt cents)] \<and> k \<noteq> Unheard"
    let ?x = "\<lparr>cpc_order_id = oid, cpc_cents = cents\<rparr>"
    have un: "unmarshal_capture_payment_cmd (m_payload m) = Inr ?x"
      using m k(2,5) by (simp add: unmarshal_capture_payment_cmd_def json_simps)
    obtain w' where w': "capture_payment (new_payments (mem_ops now) billing_registry) md w ?x = (w', None)"
      "decode_all billing_registry (stream_recs (ms_all w') \<lparr>si_category = ''payment'', si_id = oid\<rparr>) =
        Inr (payment_of oid cents (course_step ''billing.capture_payment'' cents qty k))"
      "\<not> due ''billing.capture_payment'' k \<longrightarrow> w' = w"
    proof (cases "k = Asked")
      case True
      from capture_undecided[OF assms(1) k(5,3), of oid now md] assms(2) True obtain w' where
        "capture_payment (new_payments (mem_ops now) billing_registry) md w ?x = (w', None)"
        "appends_event billing_registry \<lparr>si_category = ''payment'', si_id = oid\<rparr>
          (if CaptureLimitCents < cents then PaymentFailed (utf8_fix oid) ''amount exceeds capture limit'' else PaymentCaptured (utf8_fix oid) cents) w w'"
        by (auto simp: payment_of_def)
      with decode_snoc[OF assms(2)] True k(2) that show thesis by (auto simp: payment_of_def course_step_def due_def)
    next
      case False
      with m have "payment_of oid cents k \<noteq> []" by (auto simp: payment_of_def)
      with capture_otherwise[OF assms(1) hist _ assms(2), of cents now md] False that assms(2) show thesis
        by (auto simp: course_step_def due_def)
    qed
    have "serve (new_payments (mem_ops now) billing_registry) md billing_decide billing_key w (CapturePayment ?x) = (w', None)"
      using w'(1) by (simp add: billing_serves)
    from g[OF this] show ?thesis
      using m un w' by (intro exI[of _ "CapturePayment ?x"]) (auto simp: billing_parts handlers_on)
  next
    assume m: "m_type m = ''billing.refund_payment'' \<and> m_payload m = JObj [(''order_id'', jstr oid)] \<and> k \<in> {Refunding, Refunded}"
    let ?x = "\<lparr>rpc_order_id = oid\<rparr>"
    have un: "unmarshal_refund_payment_cmd (m_payload m) = Inr ?x"
      using m k(2) by (simp add: unmarshal_refund_payment_cmd_def json_simps)
    obtain w' where w': "refund_payment (new_payments (mem_ops now) billing_registry) md w ?x = (w', None)"
      "decode_all billing_registry (stream_recs (ms_all w') \<lparr>si_category = ''payment'', si_id = oid\<rparr>) =
        Inr (payment_of oid cents (course_step ''billing.refund_payment'' cents qty k))"
      "\<not> due ''billing.refund_payment'' k \<longrightarrow> w' = w"
    proof (cases "k = Refunding")
      case True
      from refund_captured[OF assms(1) hist _ assms(2), of cents now md] True k(2) obtain w' where
        "refund_payment (new_payments (mem_ops now) billing_registry) md w ?x = (w', None)"
        "appends_event billing_registry \<lparr>si_category = ''payment'', si_id = oid\<rparr> (PaymentRefunded oid) w w'"
        by (auto simp: payment_of_def)
      with decode_snoc[OF assms(2)] True that show thesis by (auto simp: payment_of_def course_step_def due_def)
    next
      case False
      with m refund_otherwise[OF assms(1) hist _ assms(2), of now md] that assms(2) show thesis
        by (auto simp: course_step_def due_def payment_of_def)
    qed
    have "serve (new_payments (mem_ops now) billing_registry) md billing_decide billing_key w (RefundPayment ?x) = (w', None)"
      using w'(1) by (simp add: billing_serves)
    from g[OF this] show ?thesis
      using m un w' by (intro exI[of _ "RefundPayment ?x"]) (auto simp: billing_parts handlers_on)
  qed
qed

section \<open>Inventory and shipping\<close>

lemma asked_inventory:
  "(TopicInventoryCommands, name, p) \<in> set (asked oid cents qty k) \<Longrightarrow>
   name = ''inventory.reserve_stock'' \<and> p = JObj [(''order_id'', jstr oid), (''qty'', JInt qty)] \<and> k \<notin> {Unheard, Asked, Declined, Paid, Closed}"
  by (auto simp: asked_def capture_request_def reserve_request_def refund_request_def ship_request_def topic_defs split: if_splits)

lemma asked_shipping:
  "(TopicShippingCommands, name, p) \<in> set (asked oid cents qty k) \<Longrightarrow>
   name = ''shipping.create_shipment'' \<and> p = JObj [(''order_id'', jstr oid)] \<and> k \<in> {Shipping, Sent, Completed}"
  by (auto simp: asked_def capture_request_def reserve_request_def refund_request_def ship_request_def topic_defs split: if_splits)

lemma inventory_handles:
  assumes "mem_inv w" "decode_all stock_registry (stream_recs (ms_all w) \<lparr>si_category = ''reservation'', si_id = oid\<rparr>) = Inr (reservation_of oid qty k)"
    and k: "k = course_after cents qty n" "utf8_fix oid = oid" "0 < cents" "0 < qty" "in_int64 qty"
    and req: "(TopicInventoryCommands, m_type m, m_payload m) \<in> set (asked oid cents qty k)"
  shows "\<exists>cmd h w'. decode_command (cn_registry (cs_consumer (shop_inventory now md))) m = Inr cmd \<and>
    bus_handlers (cn_bus (cs_consumer (shop_inventory now md))) ''inventory.reserve_stock'' = Some h \<and> h (w, d) cmd = ((w', d), None) \<and>
    grows \<lparr>si_category = ''reservation'', si_id = oid\<rparr> now md w w' \<and>
    decode_all stock_registry (stream_recs (ms_all w') \<lparr>si_category = ''reservation'', si_id = oid\<rparr>) = Inr (reservation_of oid qty (course_step (m_type m) cents qty k)) \<and>
    (\<not> due (m_type m) k \<longrightarrow> w' = w)"
proof -
  let ?x = "\<lparr>rsc_order_id = oid, rsc_qty = qty\<rparr>" and ?rp = "new_reservations (mem_ops now) stock_registry"
  note m = asked_inventory[OF req] and hist = course_histories(2)[OF k(1-4)]
  have un: "unmarshal_reserve_stock_cmd (m_payload m) = Inr ?x"
    using m k(2,5) by (simp add: unmarshal_reserve_stock_cmd_def json_simps)
  obtain w' where w': "reserve_stock ?rp md w ?x = (w', None)"
    "decode_all stock_registry (stream_recs (ms_all w') \<lparr>si_category = ''reservation'', si_id = oid\<rparr>) =
      Inr (reservation_of oid qty (course_step ''inventory.reserve_stock'' cents qty k))" "\<not> due ''inventory.reserve_stock'' k \<longrightarrow> w' = w"
  proof (cases "k = Reserving")
    case True
    from reserve_undecided[OF assms(1) k(5,4), of oid now md] assms(2) True obtain w' where
      "reserve_stock ?rp md w ?x = (w', None)"
      "appends_event stock_registry \<lparr>si_category = ''reservation'', si_id = oid\<rparr>
        (if AvailableStock < qty then StockRejected (utf8_fix oid) ''insufficient stock'' else StockReserved (utf8_fix oid) qty) w w'"
      by (auto simp: reservation_of_def)
    with decode_snoc[OF assms(2)] True k(2) that show thesis by (auto simp: reservation_of_def course_step_def due_def)
  next
    case False
    with m have "reservation_of oid qty k \<noteq> []" by (cases k) (auto simp: reservation_of_def)
    with reserve_decided[OF assms(1) hist _ assms(2), of now md qty] False that assms(2) show thesis
      by (auto simp: course_step_def due_def)
  qed
  have "serve ?rp md stock_decide rsc_order_id w ?x = (w', None)" using w'(1) by (simp add: stock_serves)
  with serve_grows[OF assms(1), of "new_reservations (mem_ops 0) stock_registry" now md stock_decide rsc_order_id ?x w' None]
  have "grows \<lparr>si_category = ''reservation'', si_id = oid\<rparr> now md w w'" by simp
  with m un w' show ?thesis by (intro exI[of _ ?x]) (auto simp: inventory_parts handlers_on)
qed

lemma shipping_handles:
  assumes "mem_inv w" "decode_all shipment_registry (stream_recs (ms_all w) \<lparr>si_category = ''shipment'', si_id = oid\<rparr>) = Inr (shipment_of oid k)"
    and k: "utf8_fix oid = oid" and req: "(TopicShippingCommands, m_type m, m_payload m) \<in> set (asked oid cents qty k)"
  shows "\<exists>cmd h w'. decode_command (cn_registry (cs_consumer (shop_shipping now md))) m = Inr cmd \<and>
    bus_handlers (cn_bus (cs_consumer (shop_shipping now md))) ''shipping.create_shipment'' = Some h \<and> h (w, d) cmd = ((w', d), None) \<and>
    grows \<lparr>si_category = ''shipment'', si_id = oid\<rparr> now md w w' \<and>
    decode_all shipment_registry (stream_recs (ms_all w') \<lparr>si_category = ''shipment'', si_id = oid\<rparr>) = Inr (shipment_of oid (course_step (m_type m) cents qty k)) \<and>
    (\<not> due (m_type m) k \<longrightarrow> w' = w)"
proof -
  let ?x = "\<lparr>csc_order_id = oid\<rparr>" and ?rp = "new_shipments (mem_ops now) shipment_registry"
  note m = asked_shipping[OF req]
  have hist: "shipment_history oid (shipment_of oid k)" using k by (simp add: shipment_history_def shipment_of_def)
  have un: "unmarshal_create_shipment_cmd (m_payload m) = Inr ?x"
    using m k by (simp add: unmarshal_create_shipment_cmd_def json_simps)
  obtain w' where w': "create_shipment ?rp md w ?x = (w', None)"
    "decode_all shipment_registry (stream_recs (ms_all w') \<lparr>si_category = ''shipment'', si_id = oid\<rparr>) =
      Inr (shipment_of oid (course_step ''shipping.create_shipment'' cents qty k))" "\<not> due ''shipping.create_shipment'' k \<longrightarrow> w' = w"
  proof (cases "k = Shipping")
    case True
    from ship_undispatched[OF assms(1), of oid now md] assms(2) True k obtain w' where
      "create_shipment ?rp md w ?x = (w', None)"
      "appends_event shipment_registry \<lparr>si_category = ''shipment'', si_id = oid\<rparr> (ShipmentDispatched oid) w w'"
      by (auto simp: shipment_of_def)
    with decode_snoc[OF assms(2)] True that show thesis by (auto simp: shipment_of_def course_step_def due_def)
  next
    case False
    with m have "shipment_of oid k \<noteq> []" by (auto simp: shipment_of_def)
    with ship_dispatched[OF assms(1) hist _ assms(2), of now md] False that assms(2) show thesis
      by (auto simp: course_step_def due_def)
  qed
  have "serve ?rp md shipment_decide csc_order_id w ?x = (w', None)" using w'(1) by (simp add: shipment_serves)
  with serve_grows[OF assms(1), of "new_shipments (mem_ops 0) shipment_registry" now md shipment_decide csc_order_id ?x w' None]
  have "grows \<lparr>si_category = ''shipment'', si_id = oid\<rparr> now md w w'" by simp
  with m un w' show ?thesis by (intro exI[of _ ?x]) (auto simp: shipping_parts handlers_on)
qed

section \<open>A delivery to a consumer\<close>

text \<open>A consumer that can carry a request out, and that has done so if it is marked, keeps its store and its marks in order.\<close>

lemma consumer_effect:
  assumes mk: "marks_ok uni sc w0 topic cat (w, d)" and cl: "clean {''order'', ''saga.order_fulfillment''} T M w0" "clean {cat} T M w"
    and now: "now \<in> T" "md \<in> M"
    and req: "rec \<in> set (ms_all w0)" "decode (ordering_registry uni sc) rec = Inr (CommandRequested c)" "cq_topic c = topic"
      "rec_stream rec = saga_stream_of oid"
    and cn: "cn_dedup cn = svc_dedup" "bus_middleware (cn_bus cn) = [id]" "decode_command (cn_registry cn) (command_message rec c) = Inr cmd"
      "bus_handlers (cn_bus cn) (nm cmd) = Some h" "h (w, d) cmd = ((w', d), None)"
    and g: "grows \<lparr>si_category = cat, si_id = oid\<rparr> now md w w'" "\<not> fresh \<longrightarrow> w' = w"
    and es: "decode_all reg (stream_recs (ms_all w) \<lparr>si_category = cat, si_id = oid\<rparr>) = Inr es"
      "decode_all reg (stream_recs (ms_all w') \<lparr>si_category = cat, si_id = oid\<rparr>) = Inr es'"
    and eff: "effects (cq_name c) \<le> length es'" "fresh \<Longrightarrow> length es < effects (cq_name c)"
  shows "\<exists>d'. consumer_handler ctx nm cn (w, d) (command_message rec c) = ((w', d'), None) \<and>
    (\<forall>x\<in>{d', d}. clean {cat} T M w' \<and> marks_ok uni sc w0 topic cat (w', x))"
proof -
  let ?m = "command_message rec c"
  have m: "m_id ?m = message_id rec" by (simp add: command_message_def)
  have again: "w' = w" if "mem_processed d (m_id ?m)"
    using marks_okD(2)[OF mk req(1-3)] that g(2) eff(2) decode_all_length[OF es(1)] req(4) m by (auto simp: saga_stream_of_def)
  have run: "consumer_handler ctx nm cn (w, d) ?m = ((w', if mem_processed d (m_id ?m) then d else mem_mark d (m_id ?m)), None)"
    by (rule consumer_run[where cmd = cmd and h = h]) (use cn again in auto)
  have "clean {cat} T M w' \<and> marks_ok uni sc w0 topic cat (w', x)" if "x \<in> {d, mem_mark d (message_id rec)}" for x
    by (rule service_keeps[OF mk cl(2) clean_inv[OF cl(1)] _ g(1) now req(1,4,2) _ that])
      (use slashless[OF cl(1)] eff(1) decode_all_length[OF es(2)] in auto)
  with run show ?thesis unfolding m by (intro exI conjI) auto
qed

text \<open>
  A service of the shop: its world in the shop's, the topic of its commands, the category of its streams and
  what they hold in each course. Its consumer carries out any request of an order on its course.
\<close>

locale shop_service = shop_codec uni sc T M
  for uni :: "string \<Rightarrow> string" and sc :: saga_codec and T :: "instant set" and M :: "metadata set" +
  fixes get :: "shop \<Rightarrow> svc_world" and put :: "svc_world \<Rightarrow> shop \<Rightarrow> shop"
    and topic :: string and cat :: string
    and events :: "(json, 'e) registry" and evs :: "string \<Rightarrow> int \<Rightarrow> int \<Rightarrow> course \<Rightarrow> 'e list"
    and cn :: "instant \<Rightarrow> metadata \<Rightarrow> (svc_world, json, 'c) consumer" and nm :: "'c \<Rightarrow> string"
  assumes wired: "cn_dedup (cn now md) = svc_dedup" "bus_middleware (cn_bus (cn now md)) = [id]"
    and own_stream: "course_at uni sc s oid cents qty k \<Longrightarrow>
      decode_all events (stream_recs (ms_all (fst (get s))) \<lparr>si_category = cat, si_id = oid\<rparr>) = Inr (evs oid cents qty k)"
    and handles: "mem_inv w \<Longrightarrow> decode_all events (stream_recs (ms_all w) \<lparr>si_category = cat, si_id = oid\<rparr>) = Inr (evs oid cents qty k) \<Longrightarrow>
      k = course_after cents qty n \<Longrightarrow> utf8_fix oid = oid \<Longrightarrow> 0 < cents \<Longrightarrow> 0 < qty \<Longrightarrow> in_int64 cents \<Longrightarrow> in_int64 qty \<Longrightarrow>
      (topic, m_type m, m_payload m) \<in> set (asked oid cents qty k) \<Longrightarrow>
      \<exists>cmd h w'. decode_command (cn_registry (cn now md)) m = Inr cmd \<and> bus_handlers (cn_bus (cn now md)) (nm cmd) = Some h \<and>
        h (w, d) cmd = ((w', d), None) \<and> grows \<lparr>si_category = cat, si_id = oid\<rparr> now md w w' \<and>
        decode_all events (stream_recs (ms_all w') \<lparr>si_category = cat, si_id = oid\<rparr>) = Inr (evs oid cents qty (course_step (m_type m) cents qty k)) \<and>
        (\<not> due (m_type m) k \<longrightarrow> w' = w)"
    and counted: "(topic, name, p) \<in> set (asked oid cents qty k) \<Longrightarrow>
      effects name \<le> length (evs oid cents qty (course_step name cents qty k)) \<and> (due name k \<longrightarrow> length (evs oid cents qty k) < effects name)"
    and keeps: "shop_inv uni sc T M s \<Longrightarrow> clean {cat} T M (fst (get s)) \<and> marks_ok uni sc (sh_ordering s) topic cat (get s)"
    and kept: "shop_inv uni sc T M s \<Longrightarrow> clean {cat} T M (fst v) \<Longrightarrow> marks_ok uni sc (sh_ordering s) topic cat v \<Longrightarrow>
      (\<And>oid. order_ok uni sc (put v s) oid) \<Longrightarrow> shop_inv uni sc T M (put v s)"
    and stepped: "course_at uni sc s oid cents qty k \<Longrightarrow> (topic, name, p) \<in> set (asked oid cents qty k) \<Longrightarrow>
      decode_all events (stream_recs (ms_all (fst v)) \<lparr>si_category = cat, si_id = oid\<rparr>) = Inr (evs oid cents qty (course_step name cents qty k)) \<Longrightarrow>
      course_at uni sc (put v s) oid cents qty (course_step name cents qty k)"
    and others: "order_at uni sc (put v s) = order_at uni sc s"
      "stream_recs (ms_all (fst v)) \<lparr>si_category = cat, si_id = oid\<rparr> = stream_recs (ms_all (fst (get s))) \<lparr>si_category = cat, si_id = oid\<rparr> \<Longrightarrow>
       order_ok uni sc (put v s) oid = order_ok uni sc s oid \<and> on_course uni sc (put v s) oid = on_course uni sc s oid"
begin

lemma run:
  assumes inv: "shop_inv uni sc T M s" and now: "now \<in> T" "md \<in> M"
    and req: "rec \<in> set (ms_all (sh_ordering s))" "decode reg rec = Inr (CommandRequested c)" "cq_topic c = topic"
      "rec_stream rec = saga_stream_of oid" "on_course uni sc s oid p k" "k = course_after (order_cents p) (order_qty p) n"
      "(topic, cq_name c, cq_payload c) \<in> set (asked oid (order_cents p) (order_qty p) k)"
  shows "\<exists>w' d'. consumer_handler ctx nm (cn now md) (get s) (command_message rec c) = ((w', d'), None) \<and>
    (\<forall>d\<in>{d', snd (get s)}. shop_inv uni sc T M (put (w', d) s) \<and>
       on_course uni sc (put (w', d) s) oid p (course_step (cq_name c) (order_cents p) (order_qty p) k) \<and>
       advances uni sc s (put (w', d) s))"
proof -
  let ?m = "command_message rec c" and ?c = "order_cents p" and ?q = "order_qty p"
  let ?k = "course_step (cq_name c) ?c ?q k"
  obtain w d where wd: "get s = (w, d)" by force
  have p: "order_placed_valid p" "id_value (op_id p) = oid" "course_at uni sc s oid ?c ?q k" "\<exists>rs. order_at uni sc s oid (placed_as p rs)"
    using req(5) by (simp_all add: on_course_def)
  note v = placed_valid[OF p(1), unfolded p(2)]
  have cl: "clean {''order'', ''saga.order_fulfillment''} T M (sh_ordering s)" using inv by (simp add: shop_inv_def)
  have cm: "clean {cat} T M w" "marks_ok uni sc (sh_ordering s) topic cat (w, d)" using keeps[OF inv] by (simp_all add: wd)
  note st = own_stream[OF p(3), unfolded wd fst_conv]
  have m: "m_type ?m = cq_name c" "m_payload ?m = cq_payload c" by (simp_all add: command_message_def)
  obtain cmd h w' where h: "decode_command (cn_registry (cn now md)) ?m = Inr cmd" "bus_handlers (cn_bus (cn now md)) (nm cmd) = Some h"
    "h (w, d) cmd = ((w', d), None)" "grows \<lparr>si_category = cat, si_id = oid\<rparr> now md w w'"
    "decode_all events (stream_recs (ms_all w') \<lparr>si_category = cat, si_id = oid\<rparr>) = Inr (evs oid ?c ?q ?k)"
    "\<not> due (cq_name c) k \<longrightarrow> w' = w"
    using handles[OF clean_inv[OF cm(1)] st req(6) v(3,5,7,4,6), of ?m now md d] req(7) unfolding m by blast
  have eff: "effects (cq_name c) \<le> length (evs oid ?c ?q ?k)" "due (cq_name c) k \<Longrightarrow> length (evs oid ?c ?q k) < effects (cq_name c)"
    using counted[OF req(7)] by blast+
  obtain d' where d': "consumer_handler ctx nm (cn now md) (w, d) ?m = ((w', d'), None)"
    "\<forall>x\<in>{d', d}. clean {cat} T M w' \<and> marks_ok uni sc (sh_ordering s) topic cat (w', x)"
    using consumer_effect[where nm = nm and h = h and cmd = cmd and w = w and d = d,
      OF cm(2) cl cm(1) now req(1-4) wired h(1-4,6) st h(5) eff, of ctx] by blast
  have "shop_inv uni sc T M (put (w', x) s) \<and> on_course uni sc (put (w', x) s) oid p ?k \<and> advances uni sc s (put (w', x) s)" if x: "x \<in> {d', d}" for x
  proof -
    let ?s = "put (w', x) s"
    have at: "course_at uni sc ?s oid ?c ?q ?k" by (rule stepped[OF p(3) req(7)]) (use h(5) in simp)
    have on: "on_course uni sc ?s oid p ?k" using p at by (simp add: on_course_def others(1))
    obtain n' where n': "?k = course_after ?c ?q n'" using course_step_after[of "cq_name c" ?c ?q n] req(6) by auto
    obtain es where es: "order_at uni sc s oid es" "order_history oid es" using inv by (auto simp: shop_inv_def order_ok_def)
    have other: "order_ok uni sc ?s o' = order_ok uni sc s o' \<and> on_course uni sc ?s o' = on_course uni sc s o'" if "o' \<noteq> oid" for o'
      by (rule others(2)) (use grows_elsewhere[OF h(4)] that wd in simp)
    have "order_ok uni sc ?s o'" for o'
    proof (cases "o' = oid")
      case True
      show ?thesis unfolding True by (rule order_ok_on_course[OF on[unfolded n'] es(2)]) (use es(1) in \<open>simp add: others(1)\<close>)
    next
      case False
      with other inv show ?thesis by (simp add: shop_inv_def)
    qed
    moreover have "advances uni sc s ?s"
      by (rule advancesI[OF _ req(5) on]) (use other in \<open>auto simp: course_step_def\<close>)
    ultimately show ?thesis using kept[OF inv, of "(w', x)"] d'(2) x on by auto
  qed
  with d'(1) wd show ?thesis by (intro exI[of _ w'] exI[of _ d']) simp
qed

text \<open>So does any step of the consumer, whatever is out.\<close>

lemma keeps_inv:
  assumes "shop_inv uni sc T M s" "topic \<in> {TopicBillingCommands, TopicInventoryCommands, TopicShippingCommands}" "out uni sc s topic m"
    and "now \<in> T" "md \<in> M" "consumer_handler ctx nm (cn now md) (get s) m = ((w', d'), r)" "d \<in> {d', snd (get s)}"
  shows "shop_inv uni sc T M (put (w', d) s) \<and> advances uni sc s (put (w', d) s)"
proof -
  obtain rec c oid p n where q: "rec \<in> set (ms_all (sh_ordering s))" "decode reg rec = Inr (CommandRequested c)" "cq_topic c = topic"
    "m = command_message rec c" "rec_stream rec = saga_stream_of oid" "on_course uni sc s oid p (course_after (order_cents p) (order_qty p) n)"
    "(topic, cq_name c, cq_payload c) \<in> set (asked oid (order_cents p) (order_qty p) (course_after (order_cents p) (order_qty p) n))"
    by (rule request_out[OF assms(1-3)])
  from run[OF assms(1,4,5) q(1-3,5,6) refl q(7), of ctx] assms(6,7) q(4) show ?thesis by auto
qed

end

section \<open>The three services\<close>

interpretation saga_wire: shop_codec uni "saga_json tc" "plain_times tc" plain_metadata for uni tc
  by unfold_locales (rule saga_json_kinds received_back requested_back ended_back; assumption?)+

interpretation bills: shop_service uni "saga_json tc" "plain_times tc" plain_metadata sh_billing "\<lambda>v s. s\<lparr>sh_billing := v\<rparr>"
  TopicBillingCommands "''payment''" billing_registry "\<lambda>oid cents qty. payment_of oid cents" "\<lambda>now md. cs_consumer (shop_billing now md)"
  billing_command_name for uni tc
proof (unfold_locales, goal_cases)
  case (4 w oid cents qty k n m now md d)
  from billing_handles[OF 4(1-7,9)] show ?case .
next
  case (5 name p oid cents qty k)
  from asked_billing[OF 5] show ?case by (auto simp: effects_def payment_of_def course_step_def due_def)
next
  case (8 s oid cents qty k name p v)
  with asked_billing[OF 8(2)] show ?case
    by (auto simp: course_at_def course_step_same) (auto simp: course_step_def due_def reservation_of_def shipment_of_def)
next
  case (10 v s oid)
  then show ?case by (intro conjI order_ok_same(3,4)) simp_all
qed (auto simp: billing_parts course_streams shop_inv_def order_at_def fun_eq_iff)

interpretation reserves: shop_service uni "saga_json tc" "plain_times tc" plain_metadata sh_inventory "\<lambda>v s. s\<lparr>sh_inventory := v\<rparr>"
  TopicInventoryCommands "''reservation''" stock_registry "\<lambda>oid cents. reservation_of oid" "\<lambda>now md. cs_consumer (shop_inventory now md)"
  "\<lambda>c. ''inventory.reserve_stock''" for uni tc
proof (unfold_locales, goal_cases)
  case (4 w oid cents qty k n m now md d)
  from inventory_handles[OF 4(1-6,8,9)] show ?case .
next
  case (5 name p oid cents qty k)
  from asked_inventory[OF 5] show ?case by (cases k) (auto simp: effects_def reservation_of_def course_step_def due_def)
next
  case (8 s oid cents qty k name p v)
  with asked_inventory[OF 8(2)] show ?case
    by (auto simp: course_at_def course_step_same) (auto simp: course_step_def due_def payment_of_def shipment_of_def)
next
  case (10 v s oid)
  then show ?case by (intro conjI order_ok_same(3,4)) simp_all
qed (auto simp: inventory_parts course_streams shop_inv_def order_at_def fun_eq_iff)

interpretation ships: shop_service uni "saga_json tc" "plain_times tc" plain_metadata sh_shipping "\<lambda>v s. s\<lparr>sh_shipping := v\<rparr>"
  TopicShippingCommands "''shipment''" shipment_registry "\<lambda>oid cents qty. shipment_of oid" "\<lambda>now md. cs_consumer (shop_shipping now md)"
  "\<lambda>c. ''shipping.create_shipment''" for uni tc
proof (unfold_locales, goal_cases)
  case (4 w oid cents qty k n m now md d)
  from shipping_handles[OF 4(1,2,4,9)] show ?case .
next
  case (5 name p oid cents qty k)
  from asked_shipping[OF 5] show ?case by (auto simp: effects_def shipment_of_def course_step_def due_def)
next
  case (8 s oid cents qty k name p v)
  with asked_shipping[OF 8(2)] show ?case
    by (auto simp: course_at_def course_step_same) (auto simp: course_step_def due_def payment_of_def reservation_of_def)
next
  case (10 v s oid)
  then show ?case by (intro conjI order_ok_same(3,4)) simp_all
qed (auto simp: shipping_parts course_streams shop_inv_def order_at_def fun_eq_iff)

section \<open>Every run\<close>

abbreviation moves :: "(string \<Rightarrow> string) \<Rightarrow> time_codec \<Rightarrow> shop \<Rightarrow> shop \<Rightarrow> bool" where
  "moves uni tc \<equiv> shop_step uni (saga_json tc) (plain_times tc) plain_metadata"

abbreviation reached :: "(string \<Rightarrow> string) \<Rightarrow> time_codec \<Rightarrow> shop \<Rightarrow> bool" where
  "reached uni tc \<equiv> shop_reach uni (saga_json tc) (plain_times tc) plain_metadata"

abbreviation inv_of :: "(string \<Rightarrow> string) \<Rightarrow> time_codec \<Rightarrow> shop \<Rightarrow> bool" where
  "inv_of uni tc \<equiv> shop_inv uni (saga_json tc) (plain_times tc) plain_metadata"

lemma moves_keep:
  assumes "inv_of uni tc s" "moves uni tc s s'" shows "inv_of uni tc s' \<and> advances uni (saga_json tc) s s'"
  using assms(2)
proof cases
  case (orders c now md w' r)
  with inv_orders[OF assms(1) orders(2-5)] show ?thesis by simp
next
  case (fulfils t m now amb md w' r)
  with saga_wire.inv_fulfils[OF assms(1) fulfils(2,3,5,6)] show ?thesis by simp
next
  case (bills m now md ctx w' d' r d)
  with bills.keeps_inv[OF assms(1) _ bills(2-6)] show ?thesis by simp
next
  case (reserves m now md ctx w' d' r d)
  with reserves.keeps_inv[OF assms(1) _ reserves(2-6)] show ?thesis by simp
next
  case (ships m now md ctx w' d' r d)
  with ships.keeps_inv[OF assms(1) _ ships(2-6)] show ?thesis by simp
qed

lemma new_shop_inv: "inv_of uni tc new_shop"
proof -
  have "course_at uni (saga_json tc) new_shop oid 0 0 Unheard" for oid
    by (simp add: course_at_def new_shop_def new_mem_store_def stream_recs_def saga_at_def heard_def asked_def ended_def new_instance_def)
  moreover have "order_at uni (saga_json tc) new_shop oid []" for oid
    by (simp add: order_at_def new_shop_def new_mem_store_def stream_recs_def)
  ultimately have "order_ok uni (saga_json tc) new_shop oid" for oid
    unfolding order_ok_def by (intro exI[of _ "[]"]) (simp add: order_history_def)
  moreover have "clean cats (plain_times tc) plain_metadata new_mem_store" for cats
    by (simp add: clean_def mem_inv_new) (simp add: new_mem_store_def)
  moreover have "marks_ok uni (saga_json tc) new_mem_store topic cat (new_mem_store, new_mem_dedup)" for topic cat
    by (rule marks_okI) (simp_all add: mem_processed_def new_mem_dedup_def new_mem_store_def)
  ultimately show ?thesis by (simp add: shop_inv_def new_shop_def)
qed

lemma reached_inv: "reached uni tc s \<Longrightarrow> inv_of uni tc s"
  by (induction rule: shop_reach.induct) (use new_shop_inv moves_keep in blast)+

text \<open>A fact of an order that its course waits for, once it is out, is a step away from the next course.\<close>

lemma told_moves:
  assumes inv: "inv_of uni tc s" and now: "now \<in> plain_times tc" and on: "on_course uni (saga_json tc) s oid p k"
    and m: "t \<in> set SagaTopics" "out uni (saga_json tc) s t m" "fact_of m = Some f" "fact_order f = oid"
    and new: "fact_id f \<notin> set (heard oid k)" "\<not> ended k"
  shows "\<exists>s'. moves uni tc s s' \<and> on_course uni (saga_json tc) s' oid p (next_course (order_cents p) (order_qty p) k)"
proof -
  obtain oid' p' n f' where f: "on_course uni (saga_json tc) s oid' p' (course_after (order_cents p') (order_qty p') n)" "fact_of m = Some f'"
    "tells oid' (order_cents p') (order_qty p') (course_after (order_cents p') (order_qty p') n) f'" "m_id m = fact_id f'"
    "plain_message (plain_times tc) plain_metadata m"
    using saga_wire.fact_out[OF inv m(1,2)] m(3) by (auto simp: saga_wire.fact_told_def)
  have ff: "f' = f" "oid' = oid" using f(2,3) m(3,4) tells_order by auto
  with on_course_unique[OF on f(1)[unfolded ff]] have pk: "p' = p" "k = course_after (order_cents p) (order_qty p) n" by auto
  have amb: "fmempty \<in> plain_metadata" by (simp add: plain_metadata_def)
  obtain w' where w': "saga_handler (od_saga (shop_ordering uni (saga_json tc) now fmempty)) fmempty (sh_ordering s) m = (w', None)"
    "on_course uni (saga_json tc) (s\<lparr>sh_ordering := w'\<rparr>) oid p (next_course (order_cents p) (order_qty p) k)"
    using saga_wire.fact_moves[OF inv amb on pk(2) m(3) _ _ f(5) new, of now fmempty] f(3,4) ff pk by auto
  have "moves uni tc s (s\<lparr>sh_ordering := w'\<rparr>)" by (rule shop_step.fulfils[OF m(1,2) now amb w'(1)])
  with w'(2) show ?thesis by blast
qed

text \<open>So is a request that it waits for.\<close>

lemma asked_moves:
  assumes inv: "inv_of uni tc s" and now: "now \<in> plain_times tc" and on: "on_course uni (saga_json tc) s oid p k"
    and k: "k = course_after (order_cents p) (order_qty p) n" "k \<in> {Asked, Refunding, Reserving, Shipping}"
  shows "\<exists>s'. moves uni tc s s' \<and> on_course uni (saga_json tc) s' oid p (next_course (order_cents p) (order_qty p) k)"
proof -
  let ?c = "order_cents p" and ?q = "order_qty p" and ?reg = "ordering_registry uni (saga_json tc)"
  have at: "course_at uni (saga_json tc) s oid ?c ?q k" using on by (simp add: on_course_def)
  have amb: "fmempty \<in> plain_metadata" by (simp add: plain_metadata_def)
  obtain t name pl where r: "(t, name, pl) \<in> set (asked oid ?c ?q k)" "due name k"
    "t = TopicBillingCommands \<and> k \<in> {Asked, Refunding} \<or> t = TopicInventoryCommands \<and> k = Reserving \<or> t = TopicShippingCommands \<and> k = Shipping"
    using k(2) by (auto simp: asked_def capture_request_def refund_request_def reserve_request_def ship_request_def due_def topic_defs)
  obtain rec c where q: "rec \<in> set (ms_all (sh_ordering s))" "rec_stream rec = saga_stream_of oid"
    "decode ?reg rec = Inr (CommandRequested c)" "cq_topic c = t" "cq_name c = name" "cq_payload c = pl"
    using request_record[OF course_saga[OF at] r(1)] by blast
  have o: "out uni (saga_json tc) s t (command_message rec c)"
  proof -
    have "command_message rec c \<in> set (rl_out (od_relay (shop_ordering uni (saga_json tc) 0 fmempty)) t rec)"
      by (simp add: saga_wire.ordering_out[OF q(3)] q(4))
    with q(1) show ?thesis unfolding out_def sent_def by blast
  qed
  have st: "course_step name ?c ?q k = next_course ?c ?q k" using r(2) by (simp add: course_step_def)
  from r(3) show ?thesis
  proof (elim disjE conjE)
    assume t: "t = TopicBillingCommands"
    obtain w' d' where w: "consumer_handler undefined billing_command_name (cs_consumer (shop_billing now fmempty)) (sh_billing s) (command_message rec c) = ((w', d'), None)"
      "on_course uni (saga_json tc) (s\<lparr>sh_billing := (w', d')\<rparr>) oid p (next_course ?c ?q k)"
      using bills.run[OF inv now amb q(1,3) q(4)[unfolded t] q(2) on k(1), of undefined] r(1) q(5,6) st t by auto
    show ?thesis using shop_step.bills[OF o[unfolded t] now amb w(1)] w(2) by blast
  next
    assume t: "t = TopicInventoryCommands"
    obtain w' d' where w: "consumer_handler undefined (\<lambda>c. ''inventory.reserve_stock'') (cs_consumer (shop_inventory now fmempty)) (sh_inventory s) (command_message rec c) = ((w', d'), None)"
      "on_course uni (saga_json tc) (s\<lparr>sh_inventory := (w', d')\<rparr>) oid p (next_course ?c ?q k)"
      using reserves.run[OF inv now amb q(1,3) q(4)[unfolded t] q(2) on k(1), of undefined] r(1) q(5,6) st t by auto
    show ?thesis using shop_step.reserves[OF o[unfolded t] now amb w(1)] w(2) by blast
  next
    assume t: "t = TopicShippingCommands"
    obtain w' d' where w: "consumer_handler undefined (\<lambda>c. ''shipping.create_shipment'') (cs_consumer (shop_shipping now fmempty)) (sh_shipping s) (command_message rec c) = ((w', d'), None)"
      "on_course uni (saga_json tc) (s\<lparr>sh_shipping := (w', d')\<rparr>) oid p (next_course ?c ?q k)"
      using ships.run[OF inv now amb q(1,3) q(4)[unfolded t] q(2) on k(1), of undefined] r(1) q(5,6) st t by auto
    show ?thesis using shop_step.ships[OF o[unfolded t] now amb w(1)] w(2) by blast
  qed
qed

text \<open>And what a course waits for from the saga's topics is out.\<close>

lemma services_out:
  "decode billing_registry rec = Inr e \<Longrightarrow> rec \<in> set (ms_all (fst (sh_billing s))) \<Longrightarrow> out uni sc s TopicBillingEvents (published rec (payment_fact e))"
  "decode stock_registry rec = Inr e1 \<Longrightarrow> rec \<in> set (ms_all (fst (sh_inventory s))) \<Longrightarrow> out uni sc s TopicInventoryEvents (published rec (stock_fact e1))"
  "decode shipment_registry rec = Inr e2 \<Longrightarrow> rec \<in> set (ms_all (fst (sh_shipping s))) \<Longrightarrow> out uni sc s TopicShippingEvents (published rec (shipment_fact e2))"
  unfolding out_def sent_def
  by (intro disjI2 disjI1 bexI[of _ rec], simp add: billing_out, assumption)
     (intro disjI2 disjI1 bexI[of _ rec], simp add: inventory_out, assumption,
      intro disjI2 bexI[of _ rec], simp add: shipping_out, assumption)

lemma fact_awaited:
  assumes on: "on_course uni (saga_json tc) s oid p k" and k: "k \<in> {Unheard, Declined, Paid, Held, Short, Sent}"
  shows "\<exists>t m f. t \<in> set SagaTopics \<and> out uni (saga_json tc) s t m \<and> fact_of m = Some f \<and> fact_order f = oid \<and>
    fact_id f \<notin> set (heard oid k) \<and> \<not> ended k"
proof -
  let ?c = "order_cents p" and ?q = "order_qty p" and ?reg = "ordering_registry uni (saga_json tc)"
  obtain rs where p: "order_placed_valid p" "id_value (op_id p) = oid" "course_at uni (saga_json tc) s oid ?c ?q k"
    "order_at uni (saga_json tc) s oid (placed_as p rs)"
    using on by (auto simp: on_course_def)
  note v = placed_valid[OF p(1), unfolded p(2)] and st = course_streams[OF p(3)]
  note defs = heard_def ended_def first_id_def SagaTopics_def
  have pay: ?thesis if "e \<in> set (payment_of oid ?c k)" "fact_of (published rec (payment_fact e)) = Some f" "fact_order f = oid"
    "fact_id f \<notin> set (heard oid k)" "\<not> ended k" "decode billing_registry rec = Inr e" "rec \<in> set (ms_all (fst (sh_billing s)))" for e rec f
    using that services_out(1)[OF that(6,7), of uni "saga_json tc"]
    by (intro exI[of _ TopicBillingEvents] exI[of _ "published rec (payment_fact e)"] exI[of _ f]) (simp add: SagaTopics_def)
  have stock: ?thesis if "fact_of (published rec (stock_fact e)) = Some f" "fact_order f = oid"
    "fact_id f \<notin> set (heard oid k)" "\<not> ended k" "decode stock_registry rec = Inr e" "rec \<in> set (ms_all (fst (sh_inventory s)))" for e rec f
    using that services_out(2)[OF that(5,6), of uni "saga_json tc"]
    by (intro exI[of _ TopicInventoryEvents] exI[of _ "published rec (stock_fact e)"] exI[of _ f]) (simp add: SagaTopics_def)
  show ?thesis
  proof (cases k)
    case Unheard
    obtain rec where r: "rec \<in> set (ms_all (sh_ordering s))" "decode ?reg rec = Inr (own_event (OrderPlaced p))"
      using decode_all_out[OF p(4)[unfolded order_at_def], of "own_event (OrderPlaced p)"] by (auto simp: placed_as_def stream_recs_def)
    have "published rec (placed_fact p) \<in> set (rl_out (od_relay (shop_ordering uni (saga_json tc) 0 fmempty)) TopicOrderingEvents rec)"
      by (simp add: saga_wire.ordering_out[OF r(2)] own_event_def)
    then have "out uni (saga_json tc) s TopicOrderingEvents (published rec (placed_fact p))" using r(1) by (auto simp: out_def sent_def)
    with placed_fact_of[OF p(1), of rec] p(2) Unheard show ?thesis
      by (intro exI[of _ TopicOrderingEvents] exI[of _ "published rec (placed_fact p)"] exI conjI) (auto simp: defs)
  next
    case Declined
    then have e: "PaymentFailed oid ''amount exceeds capture limit'' \<in> set (payment_of oid ?c k)" by (simp add: payment_of_def)
    from decode_all_out[OF st(1) e] obtain rec where r: "rec \<in> set (ms_all (fst (sh_billing s)))"
      "decode billing_registry rec = Inr (PaymentFailed oid ''amount exceeds capture limit'')" by (auto simp: stream_recs_def)
    show ?thesis by (rule pay[OF e published_facts(2) _ _ _ r(2,1)]) (use v(3) Declined in \<open>simp_all add: defs\<close>)
  next
    case Paid
    then have e: "PaymentCaptured oid ?c \<in> set (payment_of oid ?c k)" by (simp add: payment_of_def)
    from decode_all_out[OF st(1) e] obtain rec where r: "rec \<in> set (ms_all (fst (sh_billing s)))"
      "decode billing_registry rec = Inr (PaymentCaptured oid ?c)" by (auto simp: stream_recs_def)
    show ?thesis by (rule pay[OF e published_facts(1)[OF v(4)] _ _ _ r(2,1)]) (use v(3) Paid in \<open>simp_all add: defs\<close>)
  next
    case Held
    then have e: "StockReserved oid ?q \<in> set (reservation_of oid ?q k)" by (simp add: reservation_of_def)
    from decode_all_out[OF st(2) e] obtain rec where r: "rec \<in> set (ms_all (fst (sh_inventory s)))"
      "decode stock_registry rec = Inr (StockReserved oid ?q)" by (auto simp: stream_recs_def)
    show ?thesis by (rule stock[OF published_facts(4)[OF v(6)] _ _ _ r(2,1)]) (use v(3) Held in \<open>simp_all add: defs\<close>)
  next
    case Short
    then have e: "StockRejected oid ''insufficient stock'' \<in> set (reservation_of oid ?q k)" by (simp add: reservation_of_def)
    from decode_all_out[OF st(2) e] obtain rec where r: "rec \<in> set (ms_all (fst (sh_inventory s)))"
      "decode stock_registry rec = Inr (StockRejected oid ''insufficient stock'')" by (auto simp: stream_recs_def)
    show ?thesis by (rule stock[OF published_facts(5) _ _ _ r(2,1)]) (use v(3) Short in \<open>simp_all add: defs\<close>)
  next
    case Sent
    then have e: "ShipmentDispatched oid \<in> set (shipment_of oid k)" by (simp add: shipment_of_def)
    from decode_all_out[OF st(3) e] obtain rec where r: "rec \<in> set (ms_all (fst (sh_shipping s)))"
      "decode shipment_registry rec = Inr (ShipmentDispatched oid)" by (auto simp: stream_recs_def)
    have "out uni (saga_json tc) s TopicShippingEvents (published rec (shipment_fact (ShipmentDispatched oid)))"
      by (rule services_out(3)[OF r(2,1)])
    with published_facts(6)[of rec oid] v(3) Sent show ?thesis
      by (intro exI[of _ TopicShippingEvents] exI[of _ "published rec (shipment_fact (ShipmentDispatched oid))"] exI conjI) (auto simp: defs)
  qed (use k in simp_all)
qed

lemma moves_on:
  assumes inv: "inv_of uni tc s" and now: "now \<in> plain_times tc"
    and on: "on_course uni (saga_json tc) s oid p (course_after (order_cents p) (order_qty p) n)"
  shows "\<exists>s'. (moves uni tc)\<^sup>*\<^sup>* s s' \<and> inv_of uni tc s' \<and> on_course uni (saga_json tc) s' oid p (course_after (order_cents p) (order_qty p) (Suc n))"
proof -
  let ?k = "course_after (order_cents p) (order_qty p) n"
  consider "?k \<in> {Closed, Refunded, Completed}" | "?k \<in> {Unheard, Declined, Paid, Held, Short, Sent}" | "?k \<in> {Asked, Refunding, Reserving, Shipping}"
    by (cases ?k) auto
  then show ?thesis
  proof cases
    case 1
    then have "course_after (order_cents p) (order_qty p) (Suc n) = ?k" by auto
    with on inv show ?thesis by (metis rtranclp.rtrancl_refl)
  next
    case 2
    from fact_awaited[OF on 2] told_moves[OF inv now on] obtain s' where
      "moves uni tc s s'" "on_course uni (saga_json tc) s' oid p (next_course (order_cents p) (order_qty p) ?k)" by blast
    with moves_keep[OF inv] show ?thesis by (intro exI[of _ s']) auto
  next
    case 3
    from asked_moves[OF inv now on refl 3] obtain s' where
      "moves uni tc s s'" "on_course uni (saga_json tc) s' oid p (next_course (order_cents p) (order_qty p) ?k)" by blast
    with moves_keep[OF inv] show ?thesis by (intro exI[of _ s']) auto
  qed
qed

lemma finishes:
  assumes "inv_of uni tc s" "now \<in> plain_times tc" "on_course uni (saga_json tc) s oid p (course_after (order_cents p) (order_qty p) n)"
  shows "\<exists>s'. (moves uni tc)\<^sup>*\<^sup>* s s' \<and> inv_of uni tc s' \<and> on_course uni (saga_json tc) s' oid p (course_after (order_cents p) (order_qty p) (n + m))"
proof (induction m)
  case 0 with assms show ?case by (intro exI[of _ s]) simp
next
  case (Suc m)
  then obtain s1 where s1: "(moves uni tc)\<^sup>*\<^sup>* s s1" "inv_of uni tc s1" "on_course uni (saga_json tc) s1 oid p (course_after (order_cents p) (order_qty p) (n + m))"
    by blast
  from moves_on[OF s1(2) assms(2) s1(3)] obtain s2 where
    "(moves uni tc)\<^sup>*\<^sup>* s1 s2" "inv_of uni tc s2" "on_course uni (saga_json tc) s2 oid p (course_after (order_cents p) (order_qty p) (Suc (n + m)))" by blast
  with s1(1) show ?case by (intro exI[of _ s2]) (auto intro: rtranclp_trans)
qed

lemma outcome_kept:
  assumes "(moves uni tc)\<^sup>*\<^sup>* s s'" "inv_of uni tc s" "on_course uni (saga_json tc) s oid p (outcome (order_cents p) (order_qty p))"
  shows "inv_of uni tc s' \<and> on_course uni (saga_json tc) s' oid p (outcome (order_cents p) (order_qty p))"
  using assms
proof (induction rule: rtranclp_induct)
  case (step y z)
  then have y: "inv_of uni tc y" "on_course uni (saga_json tc) y oid p (outcome (order_cents p) (order_qty p))" by blast+
  from moves_keep[OF y(1) step.hyps(2)] y(2) have "inv_of uni tc z" "advances uni (saga_json tc) y z" by blast+
  with y(2) show ?case unfolding advances_def by (metis outcome_stays)
qed simp

section \<open>Properties\<close>

text \<open>
  C5. The four services together: whatever commands are placed and notified, whatever messages are delivered
  to the saga and to the consumers, in any order and any number of times, with consumers dying
  between their effect and their mark, every placed order is so many steps along its course, an
  order that is not placed is unknown to all services, and a step takes an order at most to its
  next course and no other order anywhere.
\<close>

theorem orders_stay_on_course:
  assumes "reached uni tc s"
  shows "(\<exists>es. order_at uni (saga_json tc) s oid es \<and> order_history oid es \<and>
     (case placement es of
        None \<Rightarrow> course_at uni (saga_json tc) s oid 0 0 Unheard
      | Some p \<Rightarrow> \<exists>n. course_at uni (saga_json tc) s oid (order_cents p) (order_qty p) (course_after (order_cents p) (order_qty p) n))) \<and>
    (\<forall>s'. moves uni tc s s' \<longrightarrow> advances uni (saga_json tc) s s')"
proof -
  have inv: "inv_of uni tc s" by (rule reached_inv[OF assms])
  then have "order_ok uni (saga_json tc) s oid" by (simp add: shop_inv_def)
  from this[unfolded order_ok_def] moves_keep[OF inv] show ?thesis by blast
qed

text \<open>
  C4. Money and goods: in every reachable state of the shop, no service holds anything for an order that was not
  placed; what was charged is what the order costs and within the limit; stock was decided only
  after the charge; what was shipped was paid for, reserved in the ordered quantity and not
  refunded; and what was refunded was charged, for lack of stock, and not shipped.
\<close>

theorem money_and_goods:
  assumes "reached uni tc s"
  shows "\<exists>es pay stock ship. order_at uni (saga_json tc) s oid es \<and>
    decode_all billing_registry (stream_recs (ms_all (fst (sh_billing s))) \<lparr>si_category = ''payment'', si_id = oid\<rparr>) = Inr pay \<and>
    decode_all stock_registry (stream_recs (ms_all (fst (sh_inventory s))) \<lparr>si_category = ''reservation'', si_id = oid\<rparr>) = Inr stock \<and>
    decode_all shipment_registry (stream_recs (ms_all (fst (sh_shipping s))) \<lparr>si_category = ''shipment'', si_id = oid\<rparr>) = Inr ship \<and>
    (case placement es of
       None \<Rightarrow> pay = [] \<and> stock = [] \<and> ship = []
     | Some p \<Rightarrow>
         (\<forall>c. PaymentCaptured oid c \<in> set pay \<longrightarrow> c = order_cents p \<and> c \<le> CaptureLimitCents) \<and>
         (stock \<noteq> [] \<longrightarrow> PaymentCaptured oid (order_cents p) \<in> set pay) \<and>
         (ship \<noteq> [] \<longrightarrow> pay = [PaymentCaptured oid (order_cents p)] \<and> stock = [StockReserved oid (order_qty p)] \<and> order_qty p \<le> AvailableStock) \<and>
         (PaymentRefunded oid \<in> set pay \<longrightarrow> pay = [PaymentCaptured oid (order_cents p), PaymentRefunded oid] \<and>
            stock = [StockRejected oid ''insufficient stock''] \<and> AvailableStock < order_qty p \<and> ship = []))"
proof -
  have "order_ok uni (saga_json tc) s oid" using reached_inv[OF assms] by (simp add: shop_inv_def)
  then show ?thesis
  proof (cases rule: order_cases)
    case unplaced
    show ?thesis
      by (rule exI[of _ "[]"], rule exI[of _ "[]"], rule exI[of _ "[]"], rule exI[of _ "[]"])
        (use unplaced(1) course_streams[OF unplaced(2)] in simp)
  next
    case (placed p rs n)
    let ?k = "course_after (order_cents p) (order_qty p) n"
    show ?thesis
      by (rule exI[of _ "placed_as p rs"], rule exI[of _ "payment_of oid (order_cents p) ?k"],
          rule exI[of _ "reservation_of oid (order_qty p) ?k"], rule exI[of _ "shipment_of oid ?k"])
        (use placed(1) course_streams[OF placed(4)] course_bounds[of ?k, OF refl] in
          \<open>cases ?k; simp add: payment_of_def reservation_of_def shipment_of_def\<close>)
  qed
qed

lemma placed_finishes:
  assumes "reached uni tc s" "order_at uni (saga_json tc) s oid (placed_as p rs)" "now \<in> plain_times tc"
  shows "\<exists>s'. (moves uni tc)\<^sup>*\<^sup>* s s' \<and> inv_of uni tc s' \<and> on_course uni (saga_json tc) s' oid p (outcome (order_cents p) (order_qty p))"
proof -
  have inv: "inv_of uni tc s" by (rule reached_inv[OF assms(1)])
  then have "order_ok uni (saga_json tc) s oid" by (simp add: shop_inv_def)
  then obtain p' n where "on_course uni (saga_json tc) s oid p' (course_after (order_cents p') (order_qty p') n)"
    using assms(2) by (cases rule: order_ok_course) (auto simp: order_at_def placed_as_def)
  moreover from this assms(2) have "p' = p" by (auto simp: on_course_def order_at_def placed_as_def own_event_def)
  ultimately have "on_course uni (saga_json tc) s oid p (course_after (order_cents p) (order_qty p) n)" by simp
  from finishes[OF inv assms(3) this, of 7] show ?thesis by (simp add: course_outcome)
qed

text \<open>
  C6. No order is stuck: from every reachable state, whatever was lost, repeated or left unmarked
  before, a placed order can be taken to the outcome its amount and quantity call for (closed when
  above the limit, refunded when short of stock, completed otherwise) by deliveries of messages that are out,
  and once there it stays there for good.
\<close>

theorem orders_can_finish:
  assumes "reached uni tc s" "order_at uni (saga_json tc) s oid (placed_as p rs)" "now \<in> plain_times tc"
  shows "\<exists>s'. (moves uni tc)\<^sup>*\<^sup>* s s' \<and> on_course uni (saga_json tc) s' oid p (outcome (order_cents p) (order_qty p)) \<and>
    (\<forall>s''. (moves uni tc)\<^sup>*\<^sup>* s' s'' \<longrightarrow> on_course uni (saga_json tc) s'' oid p (outcome (order_cents p) (order_qty p)))"
  using placed_finishes[OF assms] outcome_kept by blast

text \<open>Witnesses: an order of 500 cents for 2 units, placed in an empty shop whose instants are written as numbers.\<close>

definition demo_times :: time_codec where
  "demo_times = \<lparr>tc_marshal = (\<lambda>t. Inr (JInt t)),
     tc_unmarshal = (\<lambda>j. case j of JInt i \<Rightarrow> Inr i | _ \<Rightarrow> Inl (ErrNew ''not a time'')), tc_zero = 0\<rparr>"

lemma demo_times_plain: "t \<in> plain_times demo_times"
  by (simp add: plain_times_def demo_times_def)

lemma demo_shop:
  "\<exists>s. reached demo_uni demo_times s \<and> order_at demo_uni (saga_json demo_times) s demo_order_id (placed_as demo_placed [])"
proof -
  let ?sc = "saga_json demo_times" and ?c = "PlaceOrder demo_place"
  obtain w where w: "place_order (new_orders (mem_ops 7) (ordering_registry demo_uni ?sc) ?sc) fmempty new_mem_store demo_place = (w, None)"
    "decode_all (ordering_registry demo_uni ?sc) (stream_recs (ms_all w) \<lparr>si_category = ''order'', si_id = demo_order_id\<rparr>) =
      Inr [own_event (OrderPlaced demo_placed)]"
    using demo_order_placed by blast
  then have sv: "serve (new_orders (mem_ops 7) (ordering_registry demo_uni ?sc) ?sc) fmempty (ordering_decide demo_uni) (ordering_key demo_uni)
      (sh_ordering new_shop) ?c = (w, None)"
    by (simp add: ordering_serves new_shop_def)
  have "ordering_ok ?c" using demo_placed_ok by (simp add: demo_place_def demo_placed_def)
  then have "moves demo_uni demo_times new_shop (new_shop\<lparr>sh_ordering := w\<rparr>)"
    by (rule shop_step.orders[OF _ demo_times_plain _ sv]) (simp add: plain_metadata_def)
  then have "reached demo_uni demo_times (new_shop\<lparr>sh_ordering := w\<rparr>)" by (rule shop_reach.goes_on[OF shop_reach.opens])
  with w(2) show ?thesis by (intro exI[of _ "new_shop\<lparr>sh_ordering := w\<rparr>"]) (simp add: order_at_def placed_as_def)
qed

lemma moves_reach: "(moves uni tc)\<^sup>*\<^sup>* s s' \<Longrightarrow> reached uni tc s \<Longrightarrow> reached uni tc s'"
  by (induction rule: rtranclp_induct) (blast intro: shop_reach.goes_on)+

lemma demo_outcome: "outcome (order_cents demo_placed) (order_qty demo_placed) = Completed"
  by (simp add: outcome_def demo_placed_def CaptureLimitCents_def AvailableStock_def)

lemma demo_finished: "\<exists>s. reached demo_uni demo_times s \<and> on_course demo_uni (saga_json demo_times) s demo_order_id demo_placed Completed"
proof -
  obtain s where s: "reached demo_uni demo_times s" "order_at demo_uni (saga_json demo_times) s demo_order_id (placed_as demo_placed [])"
    using demo_shop by blast
  from placed_finishes[OF s demo_times_plain] moves_reach[OF _ s(1)] show ?thesis unfolding demo_outcome by blast
qed

theorem orders_stay_on_course_witness:
  "\<exists>s. reached demo_uni demo_times s \<and> (\<exists>n. course_at demo_uni (saga_json demo_times) s demo_order_id 500 2 (course_after 500 2 n))"
proof -
  obtain s where s: "reached demo_uni demo_times s" "order_at demo_uni (saga_json demo_times) s demo_order_id (placed_as demo_placed [])"
    using demo_shop by blast
  from orders_stay_on_course[OF s(1), of demo_order_id] s(2) have
    "\<exists>n. course_at demo_uni (saga_json demo_times) s demo_order_id (order_cents demo_placed) (order_qty demo_placed)
      (course_after (order_cents demo_placed) (order_qty demo_placed) n)"
    by (auto simp: order_at_def)
  with s(1) show ?thesis by (auto simp: demo_placed_def)
qed

theorem money_and_goods_witness:
  "\<exists>s. reached demo_uni demo_times s \<and>
     decode_all billing_registry (stream_recs (ms_all (fst (sh_billing s))) \<lparr>si_category = ''payment'', si_id = demo_order_id\<rparr>) =
       Inr [PaymentCaptured demo_order_id 500] \<and>
     decode_all stock_registry (stream_recs (ms_all (fst (sh_inventory s))) \<lparr>si_category = ''reservation'', si_id = demo_order_id\<rparr>) =
       Inr [StockReserved demo_order_id 2] \<and>
     decode_all shipment_registry (stream_recs (ms_all (fst (sh_shipping s))) \<lparr>si_category = ''shipment'', si_id = demo_order_id\<rparr>) =
       Inr [ShipmentDispatched demo_order_id]"
proof -
  obtain s where s: "reached demo_uni demo_times s" "on_course demo_uni (saga_json demo_times) s demo_order_id demo_placed Completed"
    using demo_finished by blast
  obtain rs where o: "order_at demo_uni (saga_json demo_times) s demo_order_id (placed_as demo_placed rs)"
    using s(2) by (auto simp: on_course_def)
  have "course_at demo_uni (saga_json demo_times) s demo_order_id (order_cents demo_placed) (order_qty demo_placed) Completed"
    using s(2) by (simp add: on_course_def)
  note ship = course_streams(3)[OF this]
  have c: "order_cents demo_placed = 500" "order_qty demo_placed = 2" by (simp_all add: demo_placed_def)
  from money_and_goods[OF s(1), of demo_order_id] s(1) o ship c show ?thesis
    by (intro exI[of _ s]) (auto simp: order_at_def placed_as_def own_event_def shipment_of_def)
qed

theorem orders_can_finish_witness:
  "\<exists>s. reached demo_uni demo_times s \<and> on_course demo_uni (saga_json demo_times) s demo_order_id demo_placed Completed"
proof -
  obtain s where s: "reached demo_uni demo_times s" "order_at demo_uni (saga_json demo_times) s demo_order_id (placed_as demo_placed [])"
    using demo_shop by blast
  from orders_can_finish[OF s demo_times_plain] moves_reach[OF _ s(1)] show ?thesis unfolding demo_outcome by blast
qed

end
