(* ===== verification/Spec2Isabelle.thy ===== *)
theory Spec2Isabelle
  imports KernelId System Delivery Billing Inventory Shipping Fulfillment ReadModel PgInbox HttpApi Kafka Notifier SagaRun Backlog Tracing Storetest Brokertest Services ShopEnd
begin

text \<open>
  gohex is a framework for event-sourced services in Go: aggregates raise domain events that a
  repository appends to an event store; a relay tails the store and publishes what its translators
  make of the events; sagas and command consumers react to the published messages; projections
  build read models from the own store and from an inbox of foreign messages. \<open>src/gohex-example\<close> is
  a shop of four services (ordering, billing, inventory, shipping) on top of it.

  \<^bold>\<open>The theories, in dependency order.\<close>

  \<^item> \<open>Prelude\<close>, \<open>GoLib\<close>: logs, Go maps, errors as values (\<open>gerr\<close>, with \<open>errors.Is\<close> and \<open>errors.As\<close>
    through \<open>%w\<close>), decimal text, a context that may end. A fallible function returns \<open>gerr + 'a\<close>;
    a function that may panic returns an option.
  \<^item> \<open>Kernel\<close>, \<open>KernelId\<close>: \<open>kernel/errors.go\<close>, \<open>aggregate.go\<close>, \<open>id.go\<close>.
  \<^item> \<open>EventStore\<close>, \<open>Registry\<close>, \<open>Repository\<close>, \<open>Checkpoint\<close>: \<open>eventstore/\<close>, with the locales
    \<open>event_store\<close> and \<open>checkpoint_store\<close> for the ports, interpreted on the in-memory ones.
  \<^item> \<open>Broker\<close>, \<open>Tailer\<close>, \<open>Relay\<close>: \<open>broker/broker.go\<close>, \<open>memory.go\<close>, \<open>relay/relay.go\<close>. The loop that
    the relay and both projection runners share is \<open>tail_loop\<close>; the locale \<open>tailer\<close> shows once what
    any of them keeps.
  \<^item> \<open>Cqrs\<close>, \<open>CqrsWire\<close>: \<open>cqrs/command.go\<close>, \<open>query.go\<close>, \<open>wire.go\<close>.
  \<^item> \<open>Feeder\<close>, \<open>Projection\<close>: \<open>projection/\<close>. \<open>Saga\<close>: \<open>saga/\<close>.
  \<^item> \<open>Redelivery\<close>, \<open>World\<close>, \<open>System\<close>, \<open>Delivery\<close>: the parts together, see below.
  \<^item> \<open>Json\<close>, \<open>Contracts\<close>: decoding structs as \<open>encoding/json\<close> does, and \<open>contracts/contracts.go\<close>.
  \<^item> \<open>Decider\<close>, then \<open>Billing\<close>, \<open>Inventory\<close>, \<open>Shipping\<close>, \<open>Ordering\<close>: the aggregates and application
    layers of the four services, each an interpretation of the locale \<open>decider\<close>.
  \<^item> \<open>Fulfillment\<close>: the workflow saga of \<open>ordering/internal/app/saga.go\<close>.
  \<^item> \<open>Summary\<close>, \<open>ReadModel\<close>: the order_summary read model, its SQL statements as functions on the two
    tables, its adapters and projection, and the reference definition of what it shows.
  \<^item> \<open>Postgres\<close>, \<open>PgInbox\<close>: \<open>eventstore-postgres/\<close>, \<open>projection-postgres/\<close> and \<open>cqrs-postgres/\<close>, over a
    record of the statements they send and a server that may fail any of them.
  \<^item> \<open>Kafka\<close>: \<open>broker-kafka/broker.go\<close>, over a client record and a cluster with partitions, rebalances
    and faults. \<open>HttpApi\<close>: the REST edge and the queries behind it. \<open>Notifier\<close>: \<open>app/notifier.go\<close>.
  \<^item> \<open>SagaRun\<close>: \<open>Runner.Run\<close> of \<open>saga/runner.go\<close> as a group of goroutines that take turns.
  \<^item> \<open>Backlog\<close>, \<open>Tracing\<close>: \<open>o11y/\<close>, the lag gauges and the middlewares with the spans they start.
  \<^item> \<open>Storetest\<close>: the conformance suites of \<open>eventstore/storetest\<close>, run on both adapters. \<open>Brokertest\<close>:
    the suite of \<open>broker/brokertest\<close> with the schedule of its goroutines, run on the in-memory broker.
  \<^item> \<open>Services\<close>: the four \<open>main.go\<close>, their start and way out, the composition of each service from
    its parts, and the life of the HTTP server.
  \<^item> \<open>SagaWire\<close>: the JSON of the saga's stream events and of the message envelope in them. \<open>SagaMem\<close>,
    \<open>Shop\<close>, \<open>ShopRun\<close>, \<open>ShopOut\<close>, \<open>ShopKeep\<close>, \<open>ShopEnd\<close>: the four services as one system, see below.

  \<^bold>\<open>State and steps.\<close> The stores, brokers and inboxes are records with the fields of the Go structs;
  an operation takes the state and returns it updated. Handlers act on an arbitrary world, so that
  a handler given to a component can change anything the component does not own. A mutex makes a
  method one step; goroutines of different processes interleave as the runs of \<open>System\<close> do. A world
  of \<open>World\<close> holds the in-memory ports and a schedule: before every call that leaves the process
  other writers may append to the store, and the call may go through, be refused, or take effect,
  a publish in part, while its caller gets an error. When the schedule is used up the context has
  ended, so each schedule is one run up to a shutdown or crash, and \<open>reachable\<close> worlds are what any
  sequence of runs, crashes, restarts and rebuilds leaves.

  \<^bold>\<open>The shop.\<close> A state of the record \<open>shop\<close> is the four services' stores and deduplication tables. A step
  (\<open>shop_step\<close>) is one place or notify command at the ordering service, one delivery to its saga, or one delivery
  to a consumer, which may die between its command's effect and its mark. A message is delivered at
  any time, any number of times, once a store holds a record that the service's relay translates to it, which
  is what the theorems on the relay allow a broker to do. What an order has gone through is its
  \<open>course\<close>: it fixes the order's payment, reservation, shipment and saga streams. \<open>ShopRun\<close> has the state, the steps and the
  invariant; \<open>ShopOut\<close> what can be on the topics; \<open>ShopKeep\<close> and \<open>ShopEnd\<close> that every step keeps the invariant
  and that a course goes on. The services in it are the definitions of the component theories on
  in-memory stores.

  \<^bold>\<open>Fuel.\<close> Loops that run until their context ends take a fuel and return \<open>None\<close> without any left.
  Every call uses up an entry of the schedule, so a fuel above its length is enough;
  \<open>every_run_returns\<close> is that theorem. All other loops are recursions HOL accepts as total.

  \<^bold>\<open>What is shown.\<close> Of the infrastructure: identifiers, aggregates, the store's contract on every
  branch, optimistic concurrency, events through encoding and upcasters, retry of transient errors
  only; and of the composition, in every reachable world: the relay's at-least-once delivery in
  log order and exactly-once after deduplication, the inbox as a beginning of the producer's
  outbox, the view as a function of the logs and equal to its rebuild, read-your-writes through
  \<open>WaitForCheckpoint\<close>, commands consumed at least once and inert when redelivered, sagas that
  decide once per message. Of the services: one payment, refund, reservation and shipment at most
  per order over any interleaving of handlers, each command's outcome in each state, JSON that
  yields only constructible values, the saga as the documented workflow, and a read model that
  depends only on the set of items it saw. Of the adapters: the PostgreSQL ones keep the ports'
  contracts and pass the conformance suites, no tailing reader of the event store skips an event,
  Kafka's offsets pass only handled messages and an envelope survives its headers. Of the operation:
  zero lag means everything is published, one trace spans a flow of messages, saga runs end, a
  service gives back what it took however it stops, and the four services' topics, commands and
  facts fit together. Of the shop: every placed order is on its course and no step takes one back or
  two steps on; nothing is shipped that is not paid for and reserved, nothing is refunded that was
  shipped; and from every state an order can be taken to its end by delivering what is out.

  \<^bold>\<open>The environment.\<close> The JSON of an event type outside the example, the lowering of non-ASCII text
  (\<open>uni\<close>), the JSON of saga stream events (\<open>saga_codec\<close>, of which \<open>saga_json\<close> is the code's, up to the
  text of an instant, \<open>time_codec\<close>) and of a database's metadata column (\<open>md_codec\<close>), handlers,
  extractors and observers are arguments. Instants are integers; a database keeps them at its own
  resolution, which no property here depends on. Integers are unbounded where Go's are 64 bits wide
  and only ever compared, counted from zero or decoded with the range check of \<open>encoding/json\<close>; the
  one four-byte column is modelled with its bound.

  Clients of servers are arguments too: the adapters are written over the statements and requests
  they send (\<open>pg_pool\<close>, \<open>inbox_pool\<close>, \<open>kafka_client\<close>), and a concrete server or cluster, with its faults, is given
  for each.

  \<^bold>\<open>Not modelled.\<close> Migrations only execute a schema. The OpenTelemetry SDK, the PostgreSQL and Kafka
  client libraries and \<open>errgroup\<close> are libraries the sources only call; what a service's goroutines do
  between its start and its end is the work argument of \<open>run_service\<close>, their loops are the components
  above. Deadlines in seconds are schedules of turns, the health route answers 200 and no more.
\<close>

section \<open>A small service\<close>

definition demo_service :: "(string, string, string set) service" where
  "demo_service =
     \<lparr>sv_registry = [''placed'' \<mapsto> \<lparr>re_decode = Inr, re_upcasters = []\<rparr>],
      sv_relay_cfg = \<lparr>rc_name = ''relay.ordering'', rc_topic = ''ordering'', rc_poll = 0, rc_batch = 0,
        rc_backoff = 0\<rparr>,
      sv_translators = [''placed'' \<mapsto>
        (\<lambda>e. Some \<lparr>ie_name = ''order.placed'', ie_version = 1, ie_json = Inr e\<rparr>)],
      sv_routes = Map.empty, sv_name = ''summary'',
      sv_domain = [''placed'' \<mapsto> (\<lambda>v e m. (insert e v, None))],
      sv_foreign = [''order.placed@v1'' \<mapsto> (\<lambda>v msg. (insert (m_payload msg) v, None))],
      sv_batch = 0, sv_group = ''summary'', sv_init = {}\<rparr>"

definition demo_append :: "string \<Rightarrow> string event_data" where
  "demo_append x = \<lparr>ed_name = ''placed'', ed_schema = 1, ed_payload = x, ed_meta = fmempty\<rparr>"

definition demo_sched :: "string happening list" where
  "demo_sched = (calm 1)\<lparr>hp_appends := [(demo_stream, [demo_append ''a'', demo_append ''b''])]\<rparr> #
     calm 2 # (calm 3)\<lparr>hp_fault := Some (''broker away'', 1)\<rparr> # map calm [4, 5, 6, 7, 8]"

definition demo_calm :: "instant list \<Rightarrow> string happening list" where
  "demo_calm ts = map calm ts"

text \<open>One run of each process, the relay's through a partial publish.\<close>

definition demo_recorded :: "int \<Rightarrow> string \<Rightarrow> string recorded" where
  "demo_recorded k x = \<lparr>rec_seq = k, rec_stream = demo_stream, rec_version = k, rec_name = ''placed'',
     rec_schema = 1, rec_payload = x, rec_meta = fmempty, rec_at = 1\<rparr>"

definition demo_message :: "int \<Rightarrow> string \<Rightarrow> string message" where
  "demo_message k x = \<lparr>m_id = ''order/42#'' @ itoa k, m_key = ''42'', m_type = ''order.placed'', m_version = 1,
     m_at = 1, m_payload = x, m_meta = fmempty\<rparr>"

definition demo_relayed :: "(string, string set) world" where
  "demo_relayed =
     \<lparr>wd_store = \<lparr>ms_all = [demo_recorded 1 ''a'', demo_recorded 2 ''b''], ms_streams = [demo_stream \<mapsto> [0, 1]]\<rparr>,
      wd_cps = [''relay.ordering'' \<mapsto> 2],
      wd_broker = \<lparr>mb_topics = [''ordering'' \<mapsto> [demo_message 1 ''a'', demo_message 1 ''a'', demo_message 2 ''b'']],
        mb_offsets = Map.empty, mb_active = Map.empty\<rparr>,
      wd_inbox = new_mem_inbox, wd_dedup = new_mem_dedup, wd_view = {}, wd_now = 8, wd_sched = []\<rparr>"

definition demo_stored :: "(string, string set) world" where
  "demo_stored = demo_relayed
     \<lparr>wd_inbox := \<lparr>mi_msgs = [\<lparr>im_seq = 1, im_msg = demo_message 1 ''a''\<rparr>, \<lparr>im_seq = 2, im_msg = demo_message 2 ''b''\<rparr>],
        mi_by_id = [''order/42#1'' \<mapsto> True, ''order/42#2'' \<mapsto> True]\<rparr>,
      wd_broker := (wd_broker demo_relayed)\<lparr>mb_offsets := [(''ordering'', ''summary'') \<mapsto> 3]\<rparr>,
      wd_now := 13\<rparr>"

definition demo_caught_up :: "(string, string set) world" where
  "demo_caught_up = demo_stored
     \<lparr>wd_cps := [''relay.ordering'' \<mapsto> 2, ''projection.summary.store'' \<mapsto> 2], wd_view := {''a'', ''b''},
      wd_now := 25\<rparr>"

definition demo_viewed :: "(string, string set) world" where
  "demo_viewed = demo_caught_up
     \<lparr>wd_cps := [''relay.ordering'' \<mapsto> 2, ''projection.summary.store'' \<mapsto> 2, ''projection.summary.inbox'' \<mapsto> 2],
      wd_now := 35\<rparr>"

lemmas port_defs = wd_cp_ops_def wd_store_ops_def wd_inbox_ops_def wd_ctx_def wd_publish_def wd_broker_at_def
  faulty_def faulty_unit_def tick_def mem_cp_get_def mem_cp_set_def mem_read_all_def mem_append_def mem_record_def
  mb_publish_def mget_def calm_def on_view_def

lemmas demo_defs = demo_service_def demo_append_def demo_sched_def demo_calm_def demo_recorded_def demo_message_def
  new_world_def new_mem_store_def new_mem_checkpoints_def new_mem_broker_def new_mem_inbox_def new_mem_dedup_def

lemma demo_itoa: "itoa 1 = ''1''" "itoa 2 = ''2''"
  by code_simp+

lemma demo_relay_runs: "relay_run 9 wd_ctx (sv_relay demo_service) (new_world {} demo_sched) = Some (demo_relayed, None)"
  by (simp add: relay_run_def relay_ops_def tail_run_def eval_nat_numeral relay_batch_def relay_translate_def
     sv_relay_def wd_relay_def relay_defaults_def decode_def lift_loop.simps new_message_def message_id_def
     port_defs demo_defs demo_itoa demo_relayed_def Let_def demo_stream_def)

lemma demo_writer_runs:
  "sv_writer_run demo_service 4 (demo_relayed\<lparr>wd_sched := demo_calm [11, 12, 13]\<rparr>) = Some (demo_stored, None)"
  by (simp add: sv_writer_run_def mb_subscribe_def mb_enter_def mb_leave_def mb_next_def mb_commit_def eval_nat_numeral
     inbox_writer_handler_def mi_append_def sv_topic_def empty_upd_None
     port_defs demo_defs demo_itoa demo_relayed_def demo_stored_def Let_def)

lemma demo_catch_up_runs:
  "catch_up_run 2 wd_ctx (sv_catch_up demo_service)
     (demo_stored\<lparr>wd_sched := demo_calm [21, 22, 23, 24, 25]\<rparr>) = Some (demo_caught_up, None)"
  by (simp add: catch_up_run_def catch_up_ops_def tail_run_def eval_nat_numeral item_batch_def catch_up_step_def
     sv_catch_up_def new_catch_up_def sv_projection_def sv_config_def pj_defaults_def store_checkpoint_def
     observe_def decode_def lift_loop.simps insert_commute
     port_defs demo_defs demo_itoa demo_relayed_def demo_stored_def demo_caught_up_def Let_def)

lemma demo_reader_runs:
  "inbox_reader_run 2 wd_ctx (sv_reader demo_service)
     (demo_caught_up\<lparr>wd_sched := demo_calm [31, 32, 33, 34, 35]\<rparr>) = Some (demo_viewed, None)"
  by (simp add: inbox_reader_run_def inbox_reader_ops_def tail_run_def eval_nat_numeral item_batch_def inbox_step_def
     sv_reader_def new_inbox_reader_def sv_projection_def sv_config_def pj_defaults_def inbox_checkpoint_def
     integration_key_def mi_read_all_def observe_def insert_commute
     port_defs demo_defs demo_itoa demo_relayed_def demo_stored_def demo_caught_up_def demo_viewed_def Let_def)

lemma demo_reach:
  "sys_reach demo_service demo_relayed" "sys_reach demo_service demo_stored"
  "sys_reach demo_service demo_caught_up" "sys_reach demo_service demo_viewed"
proof -
  have "sys_reach demo_service (new_world {} demo_sched)"
    using sys_reach.boot[of demo_service demo_sched] by (simp add: demo_service_def)
  then show 1: "sys_reach demo_service demo_relayed" using demo_relay_runs by (rule sys_reach.relays)
  show 2: "sys_reach demo_service demo_stored"
    using sys_reach.restart[OF 1] demo_writer_runs by (rule sys_reach.writes)
  show 3: "sys_reach demo_service demo_caught_up"
    using sys_reach.restart[OF 2] demo_catch_up_runs by (rule sys_reach.catches_up)
  show "sys_reach demo_service demo_viewed"
    using sys_reach.restart[OF 3] demo_reader_runs by (rule sys_reach.reads)
qed

lemma demo_ids: "route_ids (sv_relay demo_service)"
  by (simp add: route_ids_def sv_relay_def wd_relay_def demo_service_def)

section \<open>Properties\<close>

text \<open>
  C2. At-least-once, in order, nothing skipped: in every reachable world each topic holds what
  the log says is to be published on it, sent in log order in chunks that never leave a gap,
  and covering at least everything up to the relay's checkpoint. Partial publishes, refused
  calls, lost acknowledgements, crashes and restarts can only repeat messages.
\<close>

theorem relay_at_least_once:
  assumes "sys_reach sv w" "names_ok sv"
  shows "\<exists>n. length (outbox (sv_relay sv) t (upto_pos rec_seq (wd_cp w (relay_cp sv)) (wd_log w))) \<le> n \<and>
    redelivered (outbox (sv_relay sv) t (wd_log w)) n (wd_topic w t)"
  using sys_reach_inv[OF assms] by (simp add: sys_inv_def relay_ok_def)

text \<open>
  C1. What a consumer that drops known message IDs sees of a topic: the outbox of the log,
  each message once, in order, without a gap, at least up to the relay's checkpoint. It needs
  routes that use \<open>MessageID\<close> (translators always do) and categories without a slash.
\<close>

theorem relay_exactly_once_after_dedup:
  assumes "sys_reach sv w" "names_ok sv" "route_ids (sv_relay sv)"
    and "\<And>rec. rec \<in> set (wd_log w) \<Longrightarrow> CHR ''/'' \<notin> set (si_category (rec_stream rec))"
  shows "\<exists>n. length (outbox (sv_relay sv) t (upto_pos rec_seq (wd_cp w (relay_cp sv)) (wd_log w))) \<le> n \<and>
    firsts m_id (wd_topic w t) = take n (outbox (sv_relay sv) t (wd_log w))"
proof -
  note inv = sys_reach_inv[OF assms(1,2)]
  obtain n where n: "length (outbox (sv_relay sv) t (upto_pos rec_seq (wd_cp w (relay_cp sv)) (wd_log w))) \<le> n"
      "redelivered (outbox (sv_relay sv) t (wd_log w)) n (wd_topic w t)"
    using inv by (auto simp: sys_inv_def relay_ok_def)
  have "distinct (map m_id (outbox (sv_relay sv) t (wd_log w)))"
    by (rule outbox_ids_distinct[OF assms(3) wd_store.log_wf[OF sys_inv_wd[OF inv]] assms(4)])
  with firsts_redelivered_id[OF n(2)] n(1) show ?thesis by blast
qed

text \<open>
  C3. From the aggregate's stream to the foreign read model: what the inbox of a subscriber
  holds is, message for message, a beginning of what the producing log holds for its topic,
  and every message its consumer group has committed is in it. At-least-once on the wire is
  exactly-once in the inbox.
\<close>

theorem inbox_is_the_outbox:
  assumes "sys_reach sv w" "names_ok sv" "route_ids (sv_relay sv)"
    and "\<And>rec. rec \<in> set (wd_log w) \<Longrightarrow> CHR ''/'' \<notin> set (si_category (rec_stream rec))"
  shows "(\<exists>m. map im_msg (wd_ilog w) = take m (outbox (sv_relay sv) (sv_topic sv) (wd_log w))) \<and>
    m_id ` set (take (mget 0 (mb_offsets (wd_broker w)) (sv_topic sv, sv_group sv)) (wd_topic w (sv_topic sv)))
      \<subseteq> inbox_ids (wd_ilog w)"
proof -
  let ?T = "wd_topic w (sv_topic sv)" and ?O = "outbox (sv_relay sv) (sv_topic sv) (wd_log w)"
  note inv = sys_reach_inv[OF assms(1,2)]
  obtain n where n: "redelivered ?O n ?T" using inv by (auto simp: sys_inv_def relay_ok_def)
  obtain k where k: "mget 0 (mb_offsets (wd_broker w)) (sv_topic sv, sv_group sv) \<le> k"
      "map im_msg (wd_ilog w) = firsts m_id (take k ?T)"
    using inv by (auto simp: sys_inv_def inbox_ok_def)
  have d: "distinct (map m_id ?O)"
    by (rule outbox_ids_distinct[OF assms(3) wd_store.log_wf[OF sys_inv_wd[OF inv]] assms(4)])
  have ids: "inbox_ids (wd_ilog w) = m_id ` set (take k ?T)"
  proof -
    have "inbox_ids (wd_ilog w) = m_id ` set (map im_msg (wd_ilog w))" by (auto simp: inbox_ids_def)
    then show ?thesis unfolding k(2) by simp
  qed
  have "set (take (mget 0 (mb_offsets (wd_broker w)) (sv_topic sv, sv_group sv)) ?T) \<subseteq> set (take k ?T)"
    by (rule set_take_subset_set_take[OF k(1)])
  with ids have "m_id ` set (take (mget 0 (mb_offsets (wd_broker w)) (sv_topic sv, sv_group sv)) ?T) \<subseteq>
      inbox_ids (wd_ilog w)" by (simp add: image_mono)
  moreover obtain m where "firsts m_id (take k ?T) = take m ?O"
    using firsts_take_redelivered[OF n d, of k] by blast
  ultimately show ?thesis using k(2) by (intro conjI) (rule exI[of _ m], simp_all)
qed

text \<open>
  C10. Every run comes to its end: whatever faults and foreign writes the schedule holds, with
  more fuel than the schedule is long the relay, both projection runners and the inbox writer
  return. No retry loop outlives the context.
\<close>

theorem every_run_returns:
  assumes "sys_reach sv w" "names_ok sv" "wd_budget w < n"
  shows "relay_run n wd_ctx (sv_relay sv) w \<noteq> None \<and> catch_up_run n wd_ctx (sv_catch_up sv) w \<noteq> None \<and>
    inbox_reader_run n wd_ctx (sv_reader sv) w \<noteq> None \<and> sv_writer_run sv n w \<noteq> None"
  using runs_return[OF sys_reach_inv[OF assms(1,2)] assms(3)] by blast

text \<open>
  C8. The read model is a function of the two logs: with handlers that tolerate repetition and
  do not depend on the interleaving of the two sources, the view of every reachable world is
  what the handled events up to some position and the handled messages up to some position
  make of the empty view, each applied once; both positions reach at least to the checkpoints.
\<close>

theorem view_is_function_of_logs:
  assumes "sys_reach sv w" "names_ok sv" "harmless sv (handled sv w)"
  shows "\<exists>n m. event_count sv (wd_cp w (store_cp sv)) (wd_log w) \<le> n \<and>
    msg_count sv (wd_cp w (inbox_cp sv)) (wd_ilog w) \<le> m \<and>
    wd_view w = fold (eff sv) (map Inl (take n (filter (wants_event sv) (wd_log w))) @
      map Inr (take m (filter (wants_msg sv) (wd_ilog w)))) (sv_init sv)"
proof -
  obtain zs where z: "wd_view w = fold (eff sv) zs (sv_init sv)"
      "fed_events sv (wd_log w) zs (event_count sv (wd_cp w (store_cp sv)) (wd_log w))"
      "fed_msgs sv (wd_ilog w) zs (msg_count sv (wd_cp w (inbox_cp sv)) (wd_ilog w))"
    using sys_reach_inv[OF assms(1,2)] by (auto simp: sys_inv_def view_ok_def)
  obtain n m where nm:
    "event_count sv (wd_cp w (store_cp sv)) (wd_log w) \<le> n" "msg_count sv (wd_cp w (inbox_cp sv)) (wd_ilog w) \<le> m"
    "set zs = Inl ` set (take n (filter (wants_event sv) (wd_log w))) \<union>
       Inr ` set (take m (filter (wants_msg sv) (wd_ilog w)))"
    by (rule fed_sets[OF z(2,3)]) (rule that)
  let ?h = "map Inl (take n (filter (wants_event sv) (wd_log w))) @ map Inr (take m (filter (wants_msg sv) (wd_ilog w)))"
  have "set zs = set ?h" unfolding nm(3) by simp
  then have "wd_view w = fold (eff sv) ?h (sv_init sv)"
    unfolding z(1) by (intro harmless_fold_set[OF assms(3)])
      (use set_take_subset[of n "filter (wants_event sv) (wd_log w)"]
        set_take_subset[of m "filter (wants_msg sv) (wd_ilog w)"] in \<open>auto simp: handled_def\<close>)
  then show ?thesis using nm(1,2) by - (rule exI[of _ n], rule exI[of _ m], intro conjI)
qed

text \<open>
  C9. Read-your-writes: when the wait for a projection's store checkpoint answers nil, the view
  is what some applied items make of the empty one, and every handled event up to the awaited
  position is among them. The other processes may do anything reachable while the wait sleeps.
\<close>

theorem wait_sees_own_writes:
  assumes "sys_reach sv w" "names_ok sv"
    and "\<And>v v' b. sys_reach sv v \<Longrightarrow> ctx_sleep ctx v = (v', b) \<Longrightarrow> sys_reach sv v'"
    and "wait_for_checkpoint n ctx wd_cp_ops cause (store_cp sv) seq w = Some (w', None)"
  shows "\<exists>zs. wd_view w' = fold (eff sv) zs (sv_init sv) \<and>
    set zs \<subseteq> Inl ` set (wd_log w') \<union> Inr ` set (wd_ilog w') \<and>
    (\<forall>rec\<in>set (wd_log w'). wants_event sv rec \<longrightarrow> rec_seq rec \<le> seq \<longrightarrow> Inl rec \<in> set zs)"
proof -
  have r: "sys_reach sv w' \<and> (seq \<le> 0 \<or> seq \<le> wd_cp w' (store_cp sv))"
  proof (cases "seq \<le> 0")
    case True
    with assms(1,4) show ?thesis by (simp add: wait_for_checkpoint_def)
  next
    case False
    with assms(4) have "wait_loop n ctx wd_cp_ops cause (store_cp sv) seq w = Some (w', None)"
      by (simp add: wait_for_checkpoint_def)
    from wait_loop_reaches[OF _ assms(2,1) this] assms(3) show ?thesis by blast
  qed
  have i: "sys_inv sv w'" by (rule sys_reach_inv[OF conjunct1[OF r] assms(2)])
  have le: "rec_seq rec \<le> wd_cp w' (store_cp sv)" if "rec \<in> set (wd_log w')" "rec_seq rec \<le> seq" for rec
    using wf_log_pos[OF wd_store.log_wf[OF sys_inv_wd[OF i]]] that r by (fastforce simp: pos_log_def)
  obtain zs where z: "wd_view w' = fold (eff sv) zs (sv_init sv)"
      "set zs \<subseteq> Inl ` set (wd_log w') \<union> Inr ` set (wd_ilog w')"
      "\<And>rec. rec \<in> set (wd_log w') \<Longrightarrow> wants_event sv rec \<Longrightarrow> rec_seq rec \<le> wd_cp w' (store_cp sv) \<Longrightarrow> Inl rec \<in> set zs"
    using checkpoint_applied[OF i] by blast
  show ?thesis
    by (rule exI[of _ zs], intro conjI z(1,2) ballI impI) (rule z(3)[OF _ _ le])
qed

text \<open>
  C7. A rebuild loses nothing: two reachable worlds with the same logs, both caught up, show
  the same view, which is the fold of the handled events and then the handled messages over
  the empty view. So a projection that was truncated, reset and run again ends where the
  incrementally maintained one is.
\<close>

theorem rebuilt_view_is_the_view:
  assumes "sys_reach sv w1" "sys_reach sv w2" "names_ok sv" "harmless sv (handled sv w1)"
    and "wd_log w1 = wd_log w2" "wd_ilog w1 = wd_ilog w2" "caught_up sv w1" "caught_up sv w2"
  shows "wd_view w1 = full_view sv (wd_log w1) (wd_ilog w1) \<and> wd_view w2 = wd_view w1"
  using view_caught_up[OF sys_reach_inv[OF assms(1,3)] assms(4,7)]
    view_caught_up[OF sys_reach_inv[OF assms(2,3)] _ assms(8)] assms(4-6) by (simp add: handled_def)


section \<open>Witnesses\<close>

lemma demo_harmless: "harmless demo_service S"
proof -
  have "\<exists>x. \<forall>v. eff demo_service z v = insert x v \<or> (\<forall>v. eff demo_service z v = v)" for z
  proof (cases z)
    case (Inl rec)
    then show ?thesis
      by (cases "decode (sv_registry demo_service) rec") (auto simp: eff_def demo_service_def)
  next
    case (Inr im)
    then show ?thesis by (auto simp: eff_def demo_service_def)
  qed
  then have c: "(\<exists>x. \<forall>v. eff demo_service z v = insert x v) \<or> (\<forall>v. eff demo_service z v = v)" for z
    by meson
  have "eff demo_service x (eff demo_service y v) = eff demo_service y (eff demo_service x v) \<and>
      eff demo_service x (eff demo_service x v) = eff demo_service x v" for x y v
    using c[of x] c[of y] by (elim disjE exE) (simp_all add: insert_commute)
  then show ?thesis by (simp add: harmless_def)
qed

lemma demo_facts:
  "names_ok demo_service" "sv_topic demo_service = ''ordering''" "sv_init demo_service = {}"
  "wd_log demo_relayed = [demo_recorded 1 ''a'', demo_recorded 2 ''b'']"
  "wd_log demo_viewed = wd_log demo_relayed" "wd_log demo_caught_up = wd_log demo_relayed"
  "wd_cp demo_relayed (relay_cp demo_service) = 2" "wd_cp demo_viewed (relay_cp demo_service) = 2"
  "wd_cp demo_viewed (store_cp demo_service) = 2" "wd_cp demo_viewed (inbox_cp demo_service) = 2"
  "wd_topic demo_relayed ''ordering'' = [demo_message 1 ''a'', demo_message 1 ''a'', demo_message 2 ''b'']"
  "map im_msg (wd_ilog demo_viewed) = [demo_message 1 ''a'', demo_message 2 ''b'']"
  "wd_view demo_viewed = {''a'', ''b''}"
  by (simp_all add: demo_relayed_def demo_viewed_def demo_caught_up_def demo_stored_def wd_log_def wd_cp_def
      wd_topic_def wd_ilog_def demo_service_def relay_cp_def store_cp_def inbox_cp_def sv_topic_def names_ok_def
      store_checkpoint_def inbox_checkpoint_def sv_projection_def)

lemma demo_last: "last_pos im_seq (wd_ilog demo_viewed) = 2"
    "last_pos rec_seq [demo_recorded 1 ''a'', demo_recorded 2 ''b''] = 2"
  by (simp_all add: last_pos_def wd_ilog_def demo_viewed_def demo_caught_up_def demo_stored_def demo_recorded_def)

lemma demo_outbox:
  "outbox (sv_relay demo_service) ''ordering'' [demo_recorded 1 ''a'', demo_recorded 2 ''b''] =
   [demo_message 1 ''a'', demo_message 2 ''b'']"
  by (simp add: outbox_def rl_out_def relay_translate_def sv_relay_def wd_relay_def relay_defaults_def
      decode_def lift_loop.simps new_message_def message_id_def demo_service_def demo_recorded_def
      demo_message_def demo_stream_def)

lemma demo_slash: "CHR ''/'' \<notin> set (si_category (rec_stream rec))" if "rec \<in> set (wd_log demo_relayed)"
  using that by (auto simp: demo_facts demo_recorded_def demo_stream_def)

lemma demo_upto: "upto_pos rec_seq 2 (wd_log demo_relayed) = wd_log demo_relayed"
  by (simp add: demo_facts upto_pos_def demo_recorded_def)

theorem relay_at_least_once_witness:
  "length (wd_topic demo_relayed ''ordering'') = 3 \<and>
   (\<exists>n\<ge>2. redelivered [demo_message 1 ''a'', demo_message 2 ''b''] n (wd_topic demo_relayed ''ordering''))"
  using relay_at_least_once[OF demo_reach(1) demo_facts(1), of "''ordering''"]
  by (simp add: demo_facts(7) demo_upto) (simp add: demo_facts demo_outbox numeral_2_eq_2)

theorem relay_exactly_once_after_dedup_witness:
  "firsts m_id (wd_topic demo_relayed ''ordering'') = [demo_message 1 ''a'', demo_message 2 ''b'']"
proof -
  have "\<exists>n\<ge>2. firsts m_id (wd_topic demo_relayed ''ordering'') = take n [demo_message 1 ''a'', demo_message 2 ''b'']"
    using relay_exactly_once_after_dedup[OF demo_reach(1) demo_facts(1) demo_ids demo_slash, of "''ordering''"]
    by (simp add: demo_facts(7) demo_upto) (simp add: demo_facts demo_outbox numeral_2_eq_2 del: firsts.simps)
  then show ?thesis by auto
qed

theorem inbox_is_the_outbox_witness:
  "map im_msg (wd_ilog demo_viewed) = [demo_message 1 ''a'', demo_message 2 ''b''] \<and>
   (\<exists>m. map im_msg (wd_ilog demo_viewed) = take m [demo_message 1 ''a'', demo_message 2 ''b''])"
proof -
  have s: "CHR ''/'' \<notin> set (si_category (rec_stream rec))" if "rec \<in> set (wd_log demo_viewed)" for rec
    using that demo_slash by (simp add: demo_facts)
  note t = inbox_is_the_outbox[OF demo_reach(4) demo_facts(1) demo_ids s]
  have "outbox (sv_relay demo_service) (sv_topic demo_service) (wd_log demo_viewed) =
      [demo_message 1 ''a'', demo_message 2 ''b'']" by (simp add: demo_facts demo_outbox)
  with t demo_facts(12) show ?thesis by simp
qed

theorem every_run_returns_witness:
  "relay_run 1 wd_ctx (sv_relay demo_service) demo_relayed \<noteq> None"
  using every_run_returns[OF demo_reach(1) demo_facts(1), of 1]
  by (simp add: wd_budget_def demo_relayed_def)

theorem view_is_function_of_logs_witness:
  "wd_view demo_viewed = {''a'', ''b''} \<and> (\<exists>zs. wd_view demo_viewed = fold (eff demo_service) zs {})"
  using view_is_function_of_logs[OF demo_reach(4) demo_facts(1) demo_harmless] demo_facts(3,13) by metis

text \<open>While the wait sleeps, the catch-up runner has its run.\<close>

definition demo_waiting :: "(string, string set) world ctx_ops" where
  "demo_waiting = \<lparr>ctx_err = (\<lambda>w. (w, False)),
     ctx_sleep = (\<lambda>w. case catch_up_run 2 wd_ctx (sv_catch_up demo_service)
                        (w\<lparr>wd_sched := demo_calm [21, 22, 23, 24, 25]\<rparr>) of
                      None \<Rightarrow> (w, True) | Some (w', r) \<Rightarrow> (w', True))\<rparr>"

theorem wait_sees_own_writes_witness:
  "\<exists>zs. wd_view demo_caught_up = fold (eff demo_service) zs {} \<and> Inl (demo_recorded 2 ''b'') \<in> set zs"
proof -
  have sl: "sys_reach demo_service v'" if "sys_reach demo_service v" "ctx_sleep demo_waiting v = (v', b)" for v v' b
    using that sys_reach.catches_up[OF sys_reach.restart[OF that(1)]]
    by (fastforce simp: demo_waiting_def split: option.splits)
  have g: "cp_get wd_cp_ops demo_stored (store_cp demo_service) = (demo_stored, Inr 0)"
    "cp_get wd_cp_ops demo_caught_up (store_cp demo_service) = (demo_caught_up, Inr 2)"
    by (simp_all add: demo_stored_def demo_caught_up_def demo_relayed_def port_defs store_cp_def
        store_checkpoint_def sv_projection_def demo_service_def)
  have w: "ctx_sleep demo_waiting demo_stored = (demo_caught_up, True)"
    by (simp add: demo_waiting_def demo_catch_up_runs)
  have run: "wait_for_checkpoint (Suc (Suc 0)) demo_waiting wd_cp_ops err (store_cp demo_service) 2 demo_stored =
      Some (demo_caught_up, None)" for err
    by (simp add: wait_for_checkpoint_def g w)
  have "\<exists>zs. wd_view demo_caught_up = fold (eff demo_service) zs (sv_init demo_service) \<and>
    set zs \<subseteq> Inl ` set (wd_log demo_caught_up) \<union> Inr ` set (wd_ilog demo_caught_up) \<and>
    (\<forall>rec\<in>set (wd_log demo_caught_up). wants_event demo_service rec \<longrightarrow> rec_seq rec \<le> 2 \<longrightarrow> Inl rec \<in> set zs)"
    by (rule wait_sees_own_writes[OF demo_reach(2) demo_facts(1) _ run]) (rule sl)
  then obtain zs where
    z: "wd_view demo_caught_up = fold (eff demo_service) zs (sv_init demo_service)"
       "\<forall>rec\<in>set (wd_log demo_caught_up). wants_event demo_service rec \<longrightarrow> rec_seq rec \<le> 2 \<longrightarrow> Inl rec \<in> set zs"
    by blast
  have "Inl (demo_recorded 2 ''b'') \<in> set zs"
    using z(2) by (simp add: demo_facts wants_event_def demo_recorded_def demo_service_def)
  with z(1) demo_facts(3) show ?thesis by auto
qed

text \<open>The same projection truncated, reset and run again.\<close>

definition demo_reset :: "(string, string set) world" where
  "demo_reset = demo_viewed
     \<lparr>wd_cps := [''relay.ordering'' \<mapsto> 2, ''projection.summary.store'' \<mapsto> 0, ''projection.summary.inbox'' \<mapsto> 0],
      wd_view := {}\<rparr>"

definition demo_rebuilt :: "(string, string set) world" where
  "demo_rebuilt = demo_viewed\<lparr>wd_now := 45\<rparr>"

lemma demo_reset_runs:
  "reset_projection wd_cp_ops (sv_projection demo_service) (demo_viewed\<lparr>wd_view := {}\<rparr>) = (demo_reset, None)"
  by (simp add: reset_projection_def port_defs demo_reset_def demo_viewed_def demo_caught_up_def demo_stored_def
      demo_relayed_def store_checkpoint_def inbox_checkpoint_def sv_projection_def demo_service_def
      fun_upd_twist)

lemma demo_rebuilds:
  "catch_up_run 2 wd_ctx (sv_catch_up demo_service)
     (demo_reset\<lparr>wd_sched := demo_calm [21, 22, 23, 24, 25]\<rparr>) =
   Some (demo_viewed\<lparr>wd_now := 25,
     wd_cps := [''relay.ordering'' \<mapsto> 2, ''projection.summary.inbox'' \<mapsto> 0, ''projection.summary.store'' \<mapsto> 2]\<rparr>, None)"
  "inbox_reader_run 2 wd_ctx (sv_reader demo_service)
     (demo_viewed\<lparr>wd_now := 25,
       wd_cps := [''relay.ordering'' \<mapsto> 2, ''projection.summary.inbox'' \<mapsto> 0, ''projection.summary.store'' \<mapsto> 2],
       wd_sched := demo_calm [41, 42, 43, 44, 45]\<rparr>) = Some (demo_rebuilt, None)"
  by (simp_all add: catch_up_run_def catch_up_ops_def tail_run_def eval_nat_numeral item_batch_def catch_up_step_def
     sv_catch_up_def new_catch_up_def sv_projection_def sv_config_def pj_defaults_def store_checkpoint_def
     inbox_reader_run_def inbox_reader_ops_def inbox_step_def
     sv_reader_def new_inbox_reader_def inbox_checkpoint_def integration_key_def mi_read_all_def
     observe_def decode_def lift_loop.simps insert_commute
     port_defs demo_defs demo_itoa demo_relayed_def demo_stored_def demo_caught_up_def demo_viewed_def demo_reset_def
     demo_rebuilt_def Let_def)

theorem rebuilt_view_is_the_view_witness:
  "wd_view demo_viewed = full_view demo_service (wd_log demo_viewed) (wd_ilog demo_viewed) \<and>
   wd_view demo_rebuilt = {''a'', ''b''} \<and> sys_reach demo_service demo_reset \<and> wd_view demo_reset = {}"
proof -
  have r: "sys_reach demo_service demo_reset"
    using sys_reach.rebuilds[OF demo_reach(4)] demo_reset_runs by (simp add: demo_facts)
  have "sys_reach demo_service (demo_viewed\<lparr>wd_now := 25,
      wd_cps := [''relay.ordering'' \<mapsto> 2, ''projection.summary.inbox'' \<mapsto> 0, ''projection.summary.store'' \<mapsto> 2]\<rparr>)"
    using sys_reach.restart[OF r] demo_rebuilds(1) by (rule sys_reach.catches_up)
  from sys_reach.restart[OF this, of "demo_calm [41, 42, 43, 44, 45]"] have "sys_reach demo_service demo_rebuilt"
    by (rule sys_reach.reads) (use demo_rebuilds(2) in simp)
  moreover have "caught_up demo_service demo_viewed"
    by (simp add: caught_up_def demo_facts(4,5,9,10) demo_last)
  moreover from this have "caught_up demo_service demo_rebuilt"
    by (simp add: caught_up_def demo_rebuilt_def wd_log_def wd_ilog_def wd_cp_def)
  ultimately show ?thesis
    using rebuilt_view_is_the_view[OF demo_reach(4), of demo_rebuilt] r demo_facts(1,13) demo_harmless
    by (simp add: demo_rebuilt_def demo_reset_def wd_log_def wd_ilog_def)
qed


end
